(* ===== verification/Pyuv_Prelude.thy ===== *)
theory Pyuv_Prelude
  imports Main "HOL-Library.Word" "HOL-Library.Sublist"
begin

text \<open>
  Generic material the whole development shares: counting lemmas for lists (the reference
  ledger of \<open>Py_Runtime\<close> is a sum over lists), the named collections that the component
  theories fill and the proofs of the properties use, and the result type of a C function
  that is called by the interpreter.
\<close>

section \<open>Collections\<close>

text \<open>
  \<open>uv_defs\<close>: the equations of the modelled libuv primitives; \<open>frame_simps\<close>: which parts of
  the state an operation leaves alone; \<open>quiet\<close>: operations that the reference ledger does not see;
  \<open>local_steps\<close>: operations that change one handle only;
  \<open>ref_intros\<close>: the ownership rules of the reference ledger; \<open>ok_intros\<close>: the rules for the
  invariant of the whole state; \<open>stable\<close>: operations that the program may perform while a
  callback runs.
\<close>

named_theorems uv_defs
named_theorems frame_simps
named_theorems quiet
named_theorems local_steps
named_theorems ref_intros
named_theorems ok_intros
named_theorems stable

section \<open>Results of C functions\<close>

text \<open>
  A function of the extension returns a value, returns \<open>NULL\<close> (or \<open>-1\<close>) with a Python
  exception set, or does not return because an \<open>assert\<close> of pyuv or libuv failed
  (\<open>abort\<close>). Error codes of libuv are negative ints (\<open>int\<close>).
\<close>

datatype uvexc =
    UVError | ThreadError | HandleError | HandleClosedErrorT | AsyncError | TimerError
  | PrepareError | IdleError | CheckError | SignalError | StreamError | TCPError
  | PipeError | TTYError | UDPError | PollError | FSError | FSEventError | FSPollError
  | ProcessError

datatype pyexc =
    RuntimeError
  | TypeError
  | ValueError
  | OverflowError
  | MemoryError
  | OtherError
  | HandleClosedError
  | UVExc uvexc int

datatype 'a result = Ok 'a | Raise pyexc | Abort

primrec is_Ok :: "'a result \<Rightarrow> bool" where
  "is_Ok (Ok a) = True"
| "is_Ok (Raise e) = False"
| "is_Ok Abort = False"

section \<open>Counting in lists\<close>

lemma sum_list_map_update:
  fixes f :: "'a \<Rightarrow> int"
  assumes "i < length xs"
  shows "(\<Sum>x\<leftarrow>xs[i := y]. f x) = (\<Sum>x\<leftarrow>xs. f x) - f (xs ! i) + f y"
  using assms
proof (induction xs arbitrary: i)
  case Nil
  then show ?case by simp
next
  case (Cons a xs)
  then show ?case by (cases i) auto
qed

lemma sum_list_map_update_same:
  fixes f :: "'a \<Rightarrow> int"
  assumes "i < length xs" and "f y = f (xs ! i)"
  shows "(\<Sum>x\<leftarrow>xs[i := y]. f x) = (\<Sum>x\<leftarrow>xs. f x)"
  using assms by (simp add: sum_list_map_update)

lemma sum_list_ge_member:
  fixes f :: "'a \<Rightarrow> int"
  assumes "i < length xs" and "\<And>x. 0 \<le> f x"
  shows "f (xs ! i) \<le> (\<Sum>x\<leftarrow>xs. f x)"
  using assms(1)
proof (induction xs arbitrary: i)
  case Nil
  then show ?case by simp
next
  case (Cons a xs)
  have nn: "0 \<le> (\<Sum>x\<leftarrow>xs. f x)"
    by (rule sum_list_nonneg) (auto simp: assms(2))
  show ?case
  proof (cases i)
    case 0
    then show ?thesis using nn by simp
  next
    case (Suc j)
    then have "f (xs ! j) \<le> (\<Sum>x\<leftarrow>xs. f x)" using Cons by simp
    then show ?thesis using Suc assms(2)[of a] by simp
  qed
qed

lemma count_list_pos_iff: "0 < count_list xs x \<longleftrightarrow> x \<in> set xs"
  using count_list_0_iff[of xs x] by auto

lemma count_list_filter_neq: "count_list (filter P xs) x = (if P x then count_list xs x else 0)"
  by (induction xs) auto

lemma count_list_remove1:
  "x \<in> set xs \<Longrightarrow> int (count_list (remove1 x xs) y) = int (count_list xs y) - of_bool (x = y)"
  by (induction xs) (auto simp: count_list_pos_iff)

lemma set_removeAll_iff: "y \<in> set (removeAll x xs) \<longleftrightarrow> y \<in> set xs \<and> y \<noteq> x"
  by auto

lemma concat_map_append_singleton:
  "count_list (concat (map f (xs @ [r]))) x = count_list (concat (map f xs)) x + count_list (f r) x"
  by simp

lemma length_filter_fun_upd:
  assumes "distinct xs" and "h \<in> set xs"
  shows "int (length (filter (g(h := b)) xs)) =
         int (length (filter g xs)) - of_bool (g h) + of_bool b"
  using assms
proof (induction xs)
  case Nil
  then show ?case by simp
next
  case (Cons a xs)
  show ?case
  proof (cases "a = h")
    case True
    then have "filter (g(h := b)) xs = filter g xs"
      using Cons.prems by (intro filter_cong) auto
    moreover have "h \<notin> set xs" using Cons.prems True by simp
    ultimately show ?thesis using True by (auto simp: fun_upd_def cong: filter_cong)
  next
    case False
    then show ?thesis using Cons by auto
  qed
qed

end
