(* ===== verification/Pyuv_World.thy ===== *)
theory Pyuv_World
  imports Pyuv_Prelude
begin

text \<open>
  The state of the extension: the Python heap (objects with a reference count and the
  \<open>PyObject *\<close> fields of their C structs), the \<open>Handle\<close> structs with the libuv handle
  embedded in them, the \<open>Loop\<close> structs with the libuv loop embedded in them, the libuv
  requests in flight, the references the Python program holds, and a trace of what the
  extension does to the outside (callables called, text written to stderr).
\<close>

section \<open>Objects\<close>

text \<open>An object is named by its index in the heap; \<open>Py_None\<close> is the object 0.\<close>

type_synonym oid = nat

abbreviation (input) Py_None :: oid where "Py_None \<equiv> 0"

text \<open>The concrete handle types of pyuv (the static \<open>PyTypeObject\<close>s of pyuv.h).\<close>

datatype hclass =
    AsyncC | TimerC | PrepareC | IdleC | CheckC | SignalC | SignalCheckerC
  | TCPC | PipeC | TTYC | UDPC | PollC | ProcessC | FSEventC | FSPollC

text \<open>The libuv handle type that each of them embeds.\<close>

datatype uv_handle_type =
    UV_ASYNC | UV_TIMER | UV_PREPARE | UV_IDLE | UV_CHECK | UV_SIGNAL | UV_POLL
  | UV_TCP | UV_NAMED_PIPE | UV_TTY | UV_UDP | UV_PROCESS | UV_FS_EVENT | UV_FS_POLL

primrec uv_type_of :: "hclass \<Rightarrow> uv_handle_type" where
  "uv_type_of AsyncC = UV_ASYNC"
| "uv_type_of TimerC = UV_TIMER"
| "uv_type_of PrepareC = UV_PREPARE"
| "uv_type_of IdleC = UV_IDLE"
| "uv_type_of CheckC = UV_CHECK"
| "uv_type_of SignalC = UV_SIGNAL"
| "uv_type_of SignalCheckerC = UV_POLL"
| "uv_type_of TCPC = UV_TCP"
| "uv_type_of PipeC = UV_NAMED_PIPE"
| "uv_type_of TTYC = UV_TTY"
| "uv_type_of UDPC = UV_UDP"
| "uv_type_of PollC = UV_POLL"
| "uv_type_of ProcessC = UV_PROCESS"
| "uv_type_of FSEventC = UV_FS_EVENT"
| "uv_type_of FSPollC = UV_FS_POLL"

text \<open>
  What an object is. \<open>KObject\<close> is any object that is not pyuv's own: a function, a bytes
  object, an int, a dict; the flag is what \<open>PyCallable_Check\<close> answers for it.
\<close>

datatype kind = KObject bool | KLoop | KHandle hclass

text \<open>
  The \<open>PyObject *\<close> fields of the C structs of pyuv.h that own a reference.
\<close>

datatype slot =
    S_loop | S_on_close_cb | S_dict | S_callback | S_on_read_cb | S_on_new_connection_cb
  | S_on_exit_cb | S_stdio

definition all_slots :: "slot list" where
  "all_slots = [S_loop, S_on_close_cb, S_dict, S_callback, S_on_read_cb,
     S_on_new_connection_cb, S_on_exit_cb, S_stdio]"

lemma all_slots_set [simp]: "s \<in> set all_slots"
  by (cases s) (auto simp: all_slots_def)

lemma all_slots_distinct [simp]: "distinct all_slots"
  by (simp add: all_slots_def)

record pyobj =
  refcnt :: int
  live :: bool
  kind :: kind
  slots :: "slot \<Rightarrow> oid option"

section \<open>The C structs\<close>

text \<open>The close callbacks pyuv hands to \<open>uv_close\<close> (handle.c).\<close>

datatype close_cb = pyuv__handle_close_cb | pyuv__handle_dealloc_close_cb

text \<open>
  \<open>uv_handle_t\<close> and the fields of its subtypes that pyuv depends on: the flags
  \<open>UV__HANDLE_ACTIVE\<close>, \<open>UV__HANDLE_REF\<close>, \<open>UV_CLOSING\<close>, \<open>UV_CLOSED\<close>; the loop pointer (the
  loop is named by the \<open>Loop\<close> object that embeds it, \<open>None\<close> is \<open>NULL\<close>); the timer fields;
  the signal counters; the stream flags.
\<close>

record uv_handle =
  u_type :: "uv_handle_type option"
  u_active :: bool
  u_ref :: bool
  u_closing :: bool
  u_closed :: bool
  u_loop :: "oid option"
  u_close_cb :: "close_cb option"
  u_timer_cb :: bool
  u_timeout :: "64 word"
  u_repeat :: "64 word"
  u_start_id :: "64 word"
  u_signum :: int
  u_caught :: nat
  u_dispatched :: nat
  u_pending :: bool
  u_events :: int
  u_reading :: bool
  u_pollout :: bool
  u_writable :: bool
  u_readable :: bool
  u_shutting :: bool
  u_shut :: bool
  u_read_eof :: bool
  u_read_partial :: bool
  u_fd :: int
  u_listening :: bool
  u_connect :: bool
  u_delayed :: int
  u_accepted :: "nat option"
  u_queued :: "nat list"
  u_ipc :: bool
  u_fname :: "string option"
  u_bound :: bool
  u_ipv6 :: bool
  u_nodelay :: bool
  u_keepalive :: bool
  u_single_accept :: bool
  u_processing :: bool
  u_mode :: int
  u_path :: "string option"
  u_interval :: "32 word"

text \<open>\<open>PyType_GenericNew\<close> zeroes the struct, the embedded libuv handle included.\<close>

definition uv_zero :: uv_handle where
  "uv_zero = \<lparr>u_type = None, u_active = False, u_ref = False, u_closing = False, u_closed = False,
     u_loop = None, u_close_cb = None, u_timer_cb = False, u_timeout = 0, u_repeat = 0,
     u_start_id = 0, u_signum = 0, u_caught = 0, u_dispatched = 0, u_pending = False,
     u_events = 0, u_reading = False, u_pollout = False, u_writable = False,
     u_readable = False, u_shutting = False, u_shut = False, u_read_eof = False,
     u_read_partial = False, u_fd = 0,
     u_listening = False, u_connect = False, u_delayed = 0, u_accepted = Some 0, u_queued = [],
     u_ipc = False, u_fname = None, u_bound = False, u_ipv6 = False, u_nodelay = False,
     u_keepalive = False, u_single_accept = False, u_processing = False, u_mode = 0, u_path = None, u_interval = 0\<rparr>"

text \<open>\<open>Handle\<close> of pyuv.h; \<open>pyref\<close> is the bit \<open>PYUV__PYREF\<close> of its \<open>flags\<close>.\<close>

record Handle =
  pyref :: bool
  initialized :: bool
  uv :: uv_handle

definition handle_zero :: Handle where
  "handle_zero = \<lparr>pyref = False, initialized = False, uv = uv_zero\<rparr>"

text \<open>
  \<open>uv_loop_t\<close>. \<open>active_handles\<close> is an unsigned counter in the code and an \<open>int\<close> here, so
  that "never negative" can be stated. The timer heap is the list of its elements:
  \<open>earliest_timer\<close> of the vendored heap-inl.h returns the \<open>timer_less_than\<close>-least one.
  Handles that libuv marks \<open>UV__HANDLE_INTERNAL\<close> are not represented.
\<close>

record uv_loop =
  active_handles :: int
  active_reqs :: nat
  uv_time :: "64 word"
  timer_counter :: "64 word"
  stop_flag :: bool
  timer_heap :: "oid list"
  idle_handles :: "oid list"
  prepare_handles :: "oid list"
  check_handles :: "oid list"
  async_handles :: "oid list"
  handle_queue :: "oid list"
  closing_handles :: "oid list"
  moved :: "uv_handle_type \<Rightarrow> oid list"
  finishing :: "oid list"

definition uv_loop_zero :: uv_loop where
  "uv_loop_zero = \<lparr>active_handles = 0, active_reqs = 0, uv_time = 0, timer_counter = 0,
     stop_flag = False, timer_heap = [], idle_handles = [], prepare_handles = [],
     check_handles = [], async_handles = [], handle_queue = [], closing_handles = [],
     moved = (\<lambda>_. []), finishing = []\<rparr>"

text \<open>\<open>Loop\<close> of pyuv.h, with the flag of its read buffer.\<close>

record Loop =
  lp :: uv_loop
  is_default :: bool
  in_use :: bool
  uv_open :: bool

section \<open>Requests, events, the world\<close>

text \<open>
  The request contexts the extension allocates for libuv (\<open>stream_write_ctx\<close>,
  \<open>stream_shutdown_ctx\<close>, \<open>udp_send_ctx\<close>, the \<open>uv_connect_t\<close> of a connect): the handle, the
  callback, the handle that is sent and the objects whose buffers are borrowed. A UDP send that the
  operating system has taken or refused (it is in the \<open>write_completed_queue\<close>) has the status.
\<close>

datatype req_type = WriteReq | ShutdownReq | ConnectReq | SendReq | AbstractReq

record request_ctx =
  rq_type :: req_type
  rq_obj :: oid
  rq_callback :: oid
  rq_send_handle :: "oid option"
  rq_views :: "oid list"
  rq_status :: "int option"

definition rq_refs :: "request_ctx \<Rightarrow> oid list" where
  "rq_refs r = rq_obj r # rq_callback r # (case rq_send_handle r of None \<Rightarrow> [] | Some s \<Rightarrow> [s])
     @ rq_views r"

text \<open>The handles that a request may be about, and what it owns besides the handle.\<close>

definition req_fits :: "request_ctx \<Rightarrow> uv_handle_type option \<Rightarrow> bool" where
  "req_fits r t \<longleftrightarrow>
     (rq_type r = SendReq \<longrightarrow> t = Some UV_UDP) \<and>
     (rq_type r = WriteReq \<longrightarrow> t \<in> {Some UV_TCP, Some UV_NAMED_PIPE, Some UV_TTY}) \<and>
     (rq_type r = AbstractReq \<longrightarrow> t = Some UV_NAMED_PIPE) \<and>
     (rq_type r \<in> {ShutdownReq, ConnectReq} \<longrightarrow> t \<in> {Some UV_TCP, Some UV_NAMED_PIPE}) \<and>
     (rq_type r \<noteq> WriteReq \<longrightarrow> rq_send_handle r = None) \<and>
     (rq_type r \<in> {ShutdownReq, ConnectReq, AbstractReq} \<longrightarrow> rq_views r = [])"

text \<open>
  What the extension does to the outside: a Python callable is called, the loop's excepthook
  is called, the exception of a callback is printed to stderr, the excepthook fails.
\<close>

datatype event =
    Called oid "oid list"
  | CalledHook oid
  | PrintedUnhandled
  | HookFailed

record world =
  objs :: "pyobj list"
  hs :: "oid \<Rightarrow> Handle"
  loops :: "oid \<Rightarrow> Loop"
  ext :: "oid \<Rightarrow> nat"
  pend :: "request_ctx list"
  trace :: "event list"

section \<open>Access\<close>

definition valid :: "world \<Rightarrow> oid \<Rightarrow> bool" where
  "valid w x \<longleftrightarrow> x < length (objs w) \<and> live (objs w ! x)"

definition is_handle :: "world \<Rightarrow> oid \<Rightarrow> bool" where
  "is_handle w h \<longleftrightarrow> valid w h \<and> (\<exists>c. kind (objs w ! h) = KHandle c)"

definition is_loop :: "world \<Rightarrow> oid \<Rightarrow> bool" where
  "is_loop w l \<longleftrightarrow> valid w l \<and> kind (objs w ! l) = KLoop"

abbreviation slot_of :: "world \<Rightarrow> oid \<Rightarrow> slot \<Rightarrow> oid option" where
  "slot_of w x s \<equiv> slots (objs w ! x) s"

abbreviation uvh :: "world \<Rightarrow> oid \<Rightarrow> uv_handle" where
  "uvh w h \<equiv> uv (hs w h)"

abbreviation uvl :: "world \<Rightarrow> oid \<Rightarrow> uv_loop" where
  "uvl w l \<equiv> lp (loops w l)"

definition upd_obj :: "oid \<Rightarrow> (pyobj \<Rightarrow> pyobj) \<Rightarrow> world \<Rightarrow> world" where
  "upd_obj x f w = w\<lparr>objs := (objs w)[x := f (objs w ! x)]\<rparr>"

definition upd_handle :: "oid \<Rightarrow> (Handle \<Rightarrow> Handle) \<Rightarrow> world \<Rightarrow> world" where
  "upd_handle h f w = w\<lparr>hs := (hs w)(h := f (hs w h))\<rparr>"

definition upd_uv :: "oid \<Rightarrow> (uv_handle \<Rightarrow> uv_handle) \<Rightarrow> world \<Rightarrow> world" where
  "upd_uv h f w = w\<lparr>hs := (hs w)(h := (hs w h)\<lparr>uv := f (uv (hs w h))\<rparr>)\<rparr>"

definition upd_Loop :: "oid \<Rightarrow> (Loop \<Rightarrow> Loop) \<Rightarrow> world \<Rightarrow> world" where
  "upd_Loop l f w = w\<lparr>loops := (loops w)(l := f (loops w l))\<rparr>"

definition upd_uvl :: "oid \<Rightarrow> (uv_loop \<Rightarrow> uv_loop) \<Rightarrow> world \<Rightarrow> world" where
  "upd_uvl l f w = w\<lparr>loops := (loops w)(l := (loops w l)\<lparr>lp := f (lp (loops w l))\<rparr>)\<rparr>"

definition log_event :: "event \<Rightarrow> world \<Rightarrow> world" where
  "log_event e w = w\<lparr>trace := trace w @ [e]\<rparr>"

lemmas upd_defs = upd_obj_def upd_handle_def upd_uv_def upd_Loop_def upd_uvl_def log_event_def

text \<open>The loop of a libuv handle; only read when the handle was initialised.\<close>

abbreviation loop_of :: "world \<Rightarrow> oid \<Rightarrow> oid" where
  "loop_of w h \<equiv> the (u_loop (uvh w h))"

end
