(* ===== verification/Libuv_Core.thy ===== *)
theory Libuv_Core
  imports Pyuv_World
begin

text \<open>
  The part of the vendored libuv (deps/libuv) that pyuv's handles rest on: the handle flags
  and the active counter of uv-common.h, timers (unix/timer.c), the loop watchers
  (unix/loop-watcher.c), async handles, \<open>uv_close\<close> and the closing queue (unix/core.c).
  Each primitive is a function on the world; what the operating system answers is an
  argument.
\<close>

section \<open>Handle flags (uv-common.h)\<close>

definition uv__active_handle_add :: "oid \<Rightarrow> world \<Rightarrow> world" where
  "uv__active_handle_add h w =
     upd_uvl (loop_of w h) (\<lambda>l. l\<lparr>active_handles := active_handles l + 1\<rparr>) w"

definition uv__active_handle_rm :: "oid \<Rightarrow> world \<Rightarrow> world" where
  "uv__active_handle_rm h w =
     upd_uvl (loop_of w h) (\<lambda>l. l\<lparr>active_handles := active_handles l - 1\<rparr>) w"

definition uv_is_active :: "oid \<Rightarrow> world \<Rightarrow> bool" where
  "uv_is_active h w = u_active (uvh w h)"

definition uv_is_closing :: "oid \<Rightarrow> world \<Rightarrow> bool" where
  "uv_is_closing h w = (u_closing (uvh w h) \<or> u_closed (uvh w h))"

definition uv_has_ref :: "oid \<Rightarrow> world \<Rightarrow> bool" where
  "uv_has_ref h w = u_ref (uvh w h)"

definition uv__handle_start :: "oid \<Rightarrow> world \<Rightarrow> world" where
  "uv__handle_start h w =
     (if u_active (uvh w h) then w
      else let w1 = upd_uv h (\<lambda>u. u\<lparr>u_active := True\<rparr>) w
           in if u_ref (uvh w1 h) then uv__active_handle_add h w1 else w1)"

definition uv__handle_stop :: "oid \<Rightarrow> world \<Rightarrow> world" where
  "uv__handle_stop h w =
     (if \<not> u_active (uvh w h) then w
      else let w1 = upd_uv h (\<lambda>u. u\<lparr>u_active := False\<rparr>) w
           in if u_ref (uvh w1 h) then uv__active_handle_rm h w1 else w1)"

text \<open>\<open>UV__HANDLE_CLOSING\<close> is 0 on Unix, so its tests in the two macros below are void.\<close>

definition uv_ref :: "oid \<Rightarrow> world \<Rightarrow> world" where
  "uv_ref h w =
     (if u_ref (uvh w h) then w
      else let w1 = upd_uv h (\<lambda>u. u\<lparr>u_ref := True\<rparr>) w
           in if u_active (uvh w1 h) then uv__active_handle_add h w1 else w1)"

definition uv_unref :: "oid \<Rightarrow> world \<Rightarrow> world" where
  "uv_unref h w =
     (if \<not> u_ref (uvh w h) then w
      else let w1 = upd_uv h (\<lambda>u. u\<lparr>u_ref := False\<rparr>) w
           in if u_active (uvh w1 h) then uv__active_handle_rm h w1 else w1)"

text \<open>\<open>flags\<close> is overwritten with \<open>UV__HANDLE_REF\<close>, so every flag bit is reset.\<close>

definition uv__handle_init :: "oid \<Rightarrow> oid \<Rightarrow> uv_handle_type \<Rightarrow> world \<Rightarrow> world" where
  "uv__handle_init l h t w =
     upd_uvl l (\<lambda>lp. lp\<lparr>handle_queue := handle_queue lp @ [h]\<rparr>)
       (upd_uv h (\<lambda>u. u\<lparr>u_loop := Some l, u_type := Some t, u_active := False, u_ref := True,
           u_closing := False, u_closed := False, u_reading := False, u_writable := False,
           u_readable := False, u_shutting := False, u_shut := False, u_read_eof := False,
           u_read_partial := False, u_bound := False, u_ipv6 := False, u_nodelay := False,
           u_keepalive := False, u_single_accept := False, u_processing := False\<rparr>) w)"

section \<open>Timers (unix/timer.c)\<close>

definition timer_less_than :: "world \<Rightarrow> oid \<Rightarrow> oid \<Rightarrow> bool" where
  "timer_less_than w a b =
     (if u_timeout (uvh w a) < u_timeout (uvh w b) then True
      else if u_timeout (uvh w b) < u_timeout (uvh w a) then False
      else u_start_id (uvh w a) < u_start_id (uvh w b))"

text \<open>The \<open>timer_less_than\<close>-least of the running timers, which \<open>heap_min\<close> finds at the root of the heap of
  \<open>Timer_Heap\<close>.\<close>

fun earliest_timer :: "world \<Rightarrow> oid list \<Rightarrow> oid option" where
  "earliest_timer w [] = None"
| "earliest_timer w (h # hp) =
     (case earliest_timer w hp of
        None \<Rightarrow> Some h
      | Some m \<Rightarrow> if timer_less_than w m h then Some m else Some h)"

definition UV_EINVAL :: int where "UV_EINVAL = -22"
definition UV_EBUSY :: int where "UV_EBUSY = -16"
definition UV_ENOTCONN :: int where "UV_ENOTCONN = -107"
definition UV_ECANCELED :: int where "UV_ECANCELED = -125"
definition UV_ENOBUFS :: int where "UV_ENOBUFS = -105"
definition UV_EBADF :: int where "UV_EBADF = -9"

definition uv_timer_init :: "oid \<Rightarrow> oid \<Rightarrow> world \<Rightarrow> world" where
  "uv_timer_init l h w =
     upd_uv h (\<lambda>u. u\<lparr>u_timer_cb := False, u_repeat := 0\<rparr>) (uv__handle_init l h UV_TIMER w)"

definition uv_timer_stop :: "oid \<Rightarrow> world \<Rightarrow> world" where
  "uv_timer_stop h w =
     (if \<not> u_active (uvh w h) then w
      else uv__handle_stop h
             (upd_uvl (loop_of w h) (\<lambda>l. l\<lparr>timer_heap := removeAll h (timer_heap l)\<rparr>) w))"

definition clamped_timeout :: "64 word \<Rightarrow> 64 word \<Rightarrow> 64 word" where
  "clamped_timeout now timeout =
     (let t = now + timeout in if t < timeout then - 1 else t)"

text \<open>The callback is never \<open>NULL\<close> here: pyuv passes \<open>pyuv__timer_cb\<close>.\<close>

definition uv_timer_start :: "oid \<Rightarrow> 64 word \<Rightarrow> 64 word \<Rightarrow> world \<Rightarrow> int \<times> world" where
  "uv_timer_start h timeout rpt w =
     (let w1 = (if u_active (uvh w h) then uv_timer_stop h w else w);
          l = loop_of w1 h;
          w2 = upd_uv h (\<lambda>u. u\<lparr>u_timer_cb := True,
                  u_timeout := clamped_timeout (uv_time (uvl w1 l)) timeout,
                  u_repeat := rpt, u_start_id := timer_counter (uvl w1 l)\<rparr>) w1;
          w3 = upd_uvl l (\<lambda>lp. lp\<lparr>timer_counter := timer_counter lp + 1,
                  timer_heap := timer_heap lp @ [h]\<rparr>) w2
      in (0, uv__handle_start h w3))"

definition uv_timer_again :: "oid \<Rightarrow> world \<Rightarrow> int \<times> world" where
  "uv_timer_again h w =
     (if \<not> u_timer_cb (uvh w h) then (UV_EINVAL, w)
      else if u_repeat (uvh w h) \<noteq> 0
        then (0, snd (uv_timer_start h (u_repeat (uvh w h)) (u_repeat (uvh w h))
                 (uv_timer_stop h w)))
      else (0, w))"

definition uv_timer_set_repeat :: "oid \<Rightarrow> 64 word \<Rightarrow> world \<Rightarrow> world" where
  "uv_timer_set_repeat h r w = upd_uv h (\<lambda>u. u\<lparr>u_repeat := r\<rparr>) w"

definition uv_timer_get_repeat :: "oid \<Rightarrow> world \<Rightarrow> 64 word" where
  "uv_timer_get_repeat h w = u_repeat (uvh w h)"

definition uv__next_timeout :: "oid \<Rightarrow> world \<Rightarrow> int" where
  "uv__next_timeout l w =
     (case earliest_timer w (timer_heap (uvl w l)) of
        None \<Rightarrow> - 1
      | Some h \<Rightarrow>
          if u_timeout (uvh w h) \<le> uv_time (uvl w l) then 0
          else let diff = uint (u_timeout (uvh w h) - uv_time (uvl w l))
               in if diff > 2147483647 then 2147483647 else diff)"

section \<open>Loop watchers (unix/loop-watcher.c)\<close>

text \<open>
  The macro \<open>UV_LOOP_WATCHER_DEFINE(name, type)\<close>; its \<open>name##_handles\<close> is the field
  updater that is the first argument.
\<close>

type_synonym queue_field = "(oid list \<Rightarrow> oid list) \<Rightarrow> uv_loop \<Rightarrow> uv_loop"

definition uv_watcher_start :: "queue_field \<Rightarrow> oid \<Rightarrow> world \<Rightarrow> int \<times> world" where
  "uv_watcher_start field h w =
     (if u_active (uvh w h) then (0, w)
      else (0, uv__handle_start h (upd_uvl (loop_of w h) (field (\<lambda>q. h # q)) w)))"

definition uv_watcher_stop :: "queue_field \<Rightarrow> oid \<Rightarrow> world \<Rightarrow> world" where
  "uv_watcher_stop field h w =
     (if \<not> u_active (uvh w h) then w
      else uv__handle_stop h (upd_uvl (loop_of w h) (field (removeAll h)) w))"

text \<open>
  While \<open>uv__run_##name\<close> runs, the watchers it has not called yet are in its local queue, \<open>moved\<close>;
  \<open>QUEUE_REMOVE\<close> unlinks a handle from whichever queue it is in.
\<close>

definition unlinking :: "uv_handle_type \<Rightarrow> queue_field \<Rightarrow> queue_field" where
  "unlinking t field f l = field f (l\<lparr>moved := (moved l)(t := f (moved l t))\<rparr>)"

abbreviation "uv_idle_start \<equiv> uv_watcher_start idle_handles_update"
abbreviation "uv_idle_stop \<equiv> uv_watcher_stop (unlinking UV_IDLE idle_handles_update)"
abbreviation "uv_prepare_start \<equiv> uv_watcher_start prepare_handles_update"
abbreviation "uv_prepare_stop \<equiv> uv_watcher_stop (unlinking UV_PREPARE prepare_handles_update)"
abbreviation "uv_check_start \<equiv> uv_watcher_start check_handles_update"
abbreviation "uv_check_stop \<equiv> uv_watcher_stop (unlinking UV_CHECK check_handles_update)"

section \<open>Async, signal and poll handles\<close>

definition uv_async_init :: "int \<Rightarrow> oid \<Rightarrow> oid \<Rightarrow> world \<Rightarrow> int \<times> world" where
  "uv_async_init os l h w =
     (if os \<noteq> 0 then (os, w)
      else let w1 = upd_uv h (\<lambda>u. u\<lparr>u_pending := False\<rparr>) (uv__handle_init l h UV_ASYNC w);
               w2 = upd_uvl l (\<lambda>lp. lp\<lparr>async_handles := async_handles lp @ [h]\<rparr>) w1
           in (0, uv__handle_start h w2))"

definition uv_async_send :: "oid \<Rightarrow> world \<Rightarrow> int \<times> world" where
  "uv_async_send h w = (0, upd_uv h (\<lambda>u. u\<lparr>u_pending := True\<rparr>) w)"

definition uv__async_close :: "oid \<Rightarrow> world \<Rightarrow> world" where
  "uv__async_close h w =
     uv__handle_stop h
       (upd_uvl (loop_of w h) (\<lambda>l. l\<lparr>async_handles := removeAll h (async_handles l)\<rparr>) w)"

definition uv_signal_init :: "int \<Rightarrow> oid \<Rightarrow> oid \<Rightarrow> world \<Rightarrow> int \<times> world" where
  "uv_signal_init os l h w =
     (if os \<noteq> 0 then (os, w)
      else (0, upd_uv h (\<lambda>u. u\<lparr>u_signum := 0, u_caught := 0, u_dispatched := 0\<rparr>)
                 (uv__handle_init l h UV_SIGNAL w)))"

definition uv__signal_stop :: "oid \<Rightarrow> world \<Rightarrow> world" where
  "uv__signal_stop h w =
     (if u_signum (uvh w h) = 0 then w
      else uv__handle_stop h (upd_uv h (\<lambda>u. u\<lparr>u_signum := 0\<rparr>) w))"

text \<open>\<open>os\<close> is what \<open>uv__signal_register_handler\<close> answers (\<open>sigaction\<close>).\<close>

definition uv_signal_start :: "int \<Rightarrow> oid \<Rightarrow> int \<Rightarrow> world \<Rightarrow> int \<times> world" where
  "uv_signal_start os h signum w =
     (if signum = 0 then (UV_EINVAL, w)
      else if signum = u_signum (uvh w h) then (0, w)
      else let w1 = (if u_signum (uvh w h) \<noteq> 0 then uv__signal_stop h w else w)
           in if os \<noteq> 0 then (os, w1)
              else (0, uv__handle_start h (upd_uv h (\<lambda>u. u\<lparr>u_signum := signum\<rparr>) w1)))"

definition uv_poll_init_socket :: "int \<Rightarrow> oid \<Rightarrow> oid \<Rightarrow> int \<Rightarrow> world \<Rightarrow> int \<times> world" where
  "uv_poll_init_socket os l h fd w =
     (if os \<noteq> 0 then (os, w)
      else (0, upd_uv h (\<lambda>u. u\<lparr>u_fd := fd, u_events := 0\<rparr>) (uv__handle_init l h UV_POLL w)))"

definition uv__poll_stop :: "oid \<Rightarrow> world \<Rightarrow> world" where
  "uv__poll_stop h w = uv__handle_stop h (upd_uv h (\<lambda>u. u\<lparr>u_events := 0\<rparr>) w)"

text \<open>
  The \<open>assert\<close> on the event mask (\<open>UV_READABLE | UV_WRITABLE | UV_DISCONNECT\<close> is 7) is the
  result \<open>None\<close>: the process aborts.
\<close>

definition uv_poll_start :: "oid \<Rightarrow> int \<Rightarrow> world \<Rightarrow> (int \<times> world) option" where
  "uv_poll_start h events w =
     (if and events (not 7) \<noteq> 0 then None
      else let w1 = uv__poll_stop h w
           in if events = 0 then Some (0, w1)
              else Some (0, uv__handle_start h (upd_uv h (\<lambda>u. u\<lparr>u_events := events\<rparr>) w1)))"

section \<open>Streams: what closing them does (unix/stream.c)\<close>

text \<open>\<open>u_pollout\<close> is \<open>uv__io_active(&stream->io_watcher, POLLOUT)\<close>.\<close>

definition uv_read_start :: "oid \<Rightarrow> world \<Rightarrow> (int \<times> world) option" where
  "uv_read_start h w =
     (if u_closing (uvh w h) then Some (UV_EINVAL, w)
      else if u_fd (uvh w h) < 0 then None
      else Some (0, uv__handle_start h (upd_uv h (\<lambda>u. u\<lparr>u_reading := True\<rparr>) w)))"

definition uv_read_stop :: "oid \<Rightarrow> world \<Rightarrow> world" where
  "uv_read_stop h w =
     (if \<not> u_reading (uvh w h) then w
      else let w1 = upd_uv h (\<lambda>u. u\<lparr>u_reading := False\<rparr>) w
           in if u_pollout (uvh w1 h) then w1 else uv__handle_stop h w1)"

definition uv__stream_close :: "oid \<Rightarrow> world \<Rightarrow> world" where
  "uv__stream_close h w =
     upd_uv h (\<lambda>u. u\<lparr>u_fd := -1, u_accepted := None, u_queued := []\<rparr>)
       (uv__handle_stop h (uv_read_stop h (upd_uv h (\<lambda>u. u\<lparr>u_pollout := False\<rparr>) w)))"

text \<open>\<open>uv__pipe_close\<close> (unix/pipe.c): the socket file is unlinked and its name forgotten.\<close>

definition uv__pipe_close :: "oid \<Rightarrow> world \<Rightarrow> world" where
  "uv__pipe_close h w = uv__stream_close h (upd_uv h (\<lambda>u. u\<lparr>u_fname := None\<rparr>) w)"

text \<open>\<open>uv__udp_close\<close> (unix/udp.c): \<open>uv__io_close\<close> stops both directions.\<close>

definition uv__udp_close :: "oid \<Rightarrow> world \<Rightarrow> world" where
  "uv__udp_close h w =
     upd_uv h (\<lambda>u. u\<lparr>u_fd := -1\<rparr>)
       (uv__handle_stop h (upd_uv h (\<lambda>u. u\<lparr>u_reading := False, u_pollout := False\<rparr>) w))"

section \<open>Closing (unix/core.c)\<close>

definition uv__make_close_pending :: "oid \<Rightarrow> world \<Rightarrow> world" where
  "uv__make_close_pending h w =
     upd_uvl (loop_of w h) (\<lambda>l. l\<lparr>closing_handles := h # closing_handles l\<rparr>) w"

text \<open>The per-type close of the \<open>switch\<close> in \<open>uv_close\<close>.\<close>

definition uv__type_close :: "oid \<Rightarrow> world \<Rightarrow> world" where
  "uv__type_close h w =
     (case u_type (uvh w h) of
        Some UV_TIMER \<Rightarrow> uv_timer_stop h w
      | Some UV_IDLE \<Rightarrow> uv_idle_stop h w
      | Some UV_PREPARE \<Rightarrow> uv_prepare_stop h w
      | Some UV_CHECK \<Rightarrow> uv_check_stop h w
      | Some UV_ASYNC \<Rightarrow> uv__async_close h w
      | Some UV_POLL \<Rightarrow> uv__poll_stop h w
      | Some UV_SIGNAL \<Rightarrow> uv__signal_stop h w
      | Some UV_TCP \<Rightarrow> uv__stream_close h w
      | Some UV_NAMED_PIPE \<Rightarrow> uv__pipe_close h w
      | Some UV_TTY \<Rightarrow> uv__stream_close h w
      | Some UV_UDP \<Rightarrow> uv__udp_close h w
      | _ \<Rightarrow> uv__handle_stop h w)"

text \<open>
  A signal handle with caught but undispatched signals is not queued yet:
  \<open>uv__signal_event\<close> queues it when it has dispatched them.
\<close>

definition uv_close :: "oid \<Rightarrow> close_cb \<Rightarrow> world \<Rightarrow> world" where
  "uv_close h cb w =
     (let w1 = uv__type_close h (upd_uv h (\<lambda>u. u\<lparr>u_closing := True, u_close_cb := Some cb\<rparr>) w)
      in if u_type (uvh w1 h) = Some UV_SIGNAL \<and> u_caught (uvh w1 h) \<noteq> u_dispatched (uvh w1 h)
         then w1
         else uv__make_close_pending h w1)"

text \<open>\<open>uv__finish_close\<close> up to the call of the close callback.\<close>

definition uv__finish_close :: "oid \<Rightarrow> world \<Rightarrow> world" where
  "uv__finish_close h w =
     (let w1 = upd_uv h (\<lambda>u. u\<lparr>u_closed := True\<rparr>) w;
          w2 = uv_unref h w1
      in upd_uvl (loop_of w2 h) (\<lambda>l. l\<lparr>handle_queue := removeAll h (handle_queue l)\<rparr>) w2)"

definition uv__loop_alive :: "oid \<Rightarrow> world \<Rightarrow> bool" where
  "uv__loop_alive l w \<longleftrightarrow>
     active_handles (uvl w l) > 0 \<or> active_reqs (uvl w l) > 0 \<or> closing_handles (uvl w l) \<noteq> []"

text \<open>Every handle left in the queue is a user handle: internal ones are not represented.\<close>

definition uv_loop_close :: "oid \<Rightarrow> world \<Rightarrow> int \<times> world" where
  "uv_loop_close l w =
     (if active_reqs (uvl w l) \<noteq> 0 then (UV_EBUSY, w)
      else if handle_queue (uvl w l) \<noteq> [] then (UV_EBUSY, w)
      else (0, upd_Loop l (\<lambda>x. x\<lparr>uv_open := False\<rparr>) w))"

text \<open>
  \<open>uv_backend_timeout\<close>; \<open>pending_queue\<close> is not represented (it is only filled on
  completion of I/O of streams).
\<close>

definition uv_backend_timeout :: "oid \<Rightarrow> world \<Rightarrow> int" where
  "uv_backend_timeout l w =
     (if stop_flag (uvl w l) then 0
      else if \<not> active_handles (uvl w l) > 0 \<and> \<not> active_reqs (uvl w l) > 0 then 0
      else if idle_handles (uvl w l) \<noteq> [] then 0
      else if closing_handles (uvl w l) \<noteq> [] then 0
      else uv__next_timeout l w)"

section \<open>Quiet primitives\<close>

text \<open>
  A primitive is quiet when it touches nothing the reference ledger of the extension reads:
  it leaves the Python heap, the requests and the trace alone, and of the handles only
  flags other than closing, closed, listening, shutting down and connecting, and never the loop
  pointer, the close callback or the signal counters; the descriptor goes only when the handle
  is closing. The two local queues of \<open>uv_run\<close> stay: nothing is added to them.
\<close>

definition same_local :: "uv_loop \<Rightarrow> uv_loop \<Rightarrow> bool" where
  "same_local l l' \<longleftrightarrow> finishing l' = finishing l \<and> (\<forall>t. length (moved l' t) \<le> length (moved l t))"

lemma same_local_refl [simp]: "same_local l l"
  by (simp add: same_local_def)

lemma same_localI [simp]: "finishing l' = finishing l \<Longrightarrow> moved l' = moved l \<Longrightarrow> same_local l l'"
  by (simp add: same_local_def)

lemma same_local_trans: "same_local a b \<Longrightarrow> same_local b c \<Longrightarrow> same_local a c"
  by (auto simp: same_local_def intro: order_trans)

definition uv_quiet :: "world \<Rightarrow> world \<Rightarrow> bool" where
  "uv_quiet w w' \<longleftrightarrow> objs w' = objs w \<and> ext w' = ext w \<and> pend w' = pend w \<and> trace w' = trace w \<and>
     (\<forall>h. pyref (hs w' h) = pyref (hs w h) \<and> initialized (hs w' h) = initialized (hs w h) \<and>
          u_closing (uvh w' h) = u_closing (uvh w h) \<and> u_closed (uvh w' h) = u_closed (uvh w h) \<and>
          u_loop (uvh w' h) = u_loop (uvh w h) \<and> u_type (uvh w' h) = u_type (uvh w h) \<and>
          u_close_cb (uvh w' h) = u_close_cb (uvh w h) \<and> u_listening (uvh w' h) = u_listening (uvh w h) \<and>
          u_shutting (uvh w' h) = u_shutting (uvh w h) \<and> u_connect (uvh w' h) = u_connect (uvh w h) \<and>
          (u_fd (uvh w' h) = u_fd (uvh w h) \<or> u_fd (uvh w' h) = - 1 \<and> u_closing (uvh w' h)) \<and>
          (u_accepted (uvh w' h) = u_accepted (uvh w h) \<or> u_accepted (uvh w' h) = None) \<and>
          u_processing (uvh w' h) = u_processing (uvh w h) \<and>
          u_caught (uvh w' h) = u_caught (uvh w h) \<and> u_dispatched (uvh w' h) = u_dispatched (uvh w h)) \<and>
     (\<forall>l. same_local (uvl w l) (uvl w' l))"

lemma uv_quiet_refl [simp]: "uv_quiet w w"
  by (simp add: uv_quiet_def)

lemma uv_quiet_trans: "uv_quiet a b \<Longrightarrow> uv_quiet b c \<Longrightarrow> uv_quiet a c"
proof -
  assume ab: "uv_quiet a b" and bc: "uv_quiet b c"
  have "same_local (uvl a l) (uvl c l)" for l
    using ab bc same_local_trans unfolding uv_quiet_def by blast
  moreover have "u_fd (uvh c h) = u_fd (uvh a h) \<or> u_fd (uvh c h) = - 1 \<and> u_closing (uvh c h)"
    "u_accepted (uvh c h) = u_accepted (uvh a h) \<or> u_accepted (uvh c h) = None" for h
    using ab bc unfolding uv_quiet_def by metis+
  ultimately show "uv_quiet a c" using ab bc unfolding uv_quiet_def by simp
qed

lemma uv_quiet_upd_uvl [quiet]:
  "uv_quiet a w \<Longrightarrow> (\<And>lp. same_local lp (f lp)) \<Longrightarrow> uv_quiet a (upd_uvl l f w)"
  by (erule uv_quiet_trans) (simp add: uv_quiet_def upd_uvl_def)

text \<open>A start adds to the queue of the loop only; a stop takes the handle out of both queues.\<close>

definition loop_queue :: "queue_field \<Rightarrow> bool" where
  "loop_queue field \<longleftrightarrow> (\<forall>h lp. same_local lp (field (\<lambda>q. h # q) lp))"

definition unlink_queue :: "queue_field \<Rightarrow> bool" where
  "unlink_queue field \<longleftrightarrow> (\<forall>h lp. same_local lp (field (removeAll h) lp))"

lemma loop_queues [simp]:
  "loop_queue idle_handles_update" "loop_queue prepare_handles_update" "loop_queue check_handles_update"
  "unlink_queue (unlinking UV_IDLE idle_handles_update)" "unlink_queue (unlinking UV_PREPARE prepare_handles_update)"
  "unlink_queue (unlinking UV_CHECK check_handles_update)"
  by (simp_all add: loop_queue_def unlink_queue_def same_local_def unlinking_def)

lemma uv_quiet_upd_uv [quiet]:
  assumes "uv_quiet a w"
    and "\<And>u. u_closing (f u) = u_closing u" and "\<And>u. u_closed (f u) = u_closed u"
    and "\<And>u. u_loop (f u) = u_loop u" and "\<And>u. u_type (f u) = u_type u"
    and "\<And>u. u_close_cb (f u) = u_close_cb u" and "\<And>u. u_listening (f u) = u_listening u"
    and "\<And>u. u_shutting (f u) = u_shutting u" and "\<And>u. u_connect (f u) = u_connect u"
    and "u_fd (f (uvh w h)) = u_fd (uvh w h) \<or> u_fd (f (uvh w h)) = - 1 \<and> u_closing (uvh w h)"
    and "u_accepted (f (uvh w h)) = u_accepted (uvh w h) \<or> u_accepted (f (uvh w h)) = None"
    and "\<And>u. u_processing (f u) = u_processing u"
    and "\<And>u. u_caught (f u) = u_caught u" and "\<And>u. u_dispatched (f u) = u_dispatched u"
  shows "uv_quiet a (upd_uv h f w)"
proof -
  have "uv_quiet w (upd_uv h f w)" using assms(2-) by (simp add: uv_quiet_def upd_uv_def)
  with assms(1) show ?thesis by (rule uv_quiet_trans)
qed

lemma uv_quiet_flags [quiet]:
  assumes "uv_quiet a w"
  shows "uv_quiet a (uv__handle_start h w)" "uv_quiet a (uv__handle_stop h w)"
    "uv_quiet a (uv_ref h w)" "uv_quiet a (uv_unref h w)"
  using assms
  by (auto simp: uv__handle_start_def uv__handle_stop_def uv_ref_def uv_unref_def Let_def
      uv__active_handle_add_def uv__active_handle_rm_def intro!: quiet)

lemma uv_quiet_watcher [quiet]:
  assumes "uv_quiet a w"
  shows "loop_queue fld \<Longrightarrow> uv_quiet a (snd (uv_watcher_start fld h w))"
    "unlink_queue fld \<Longrightarrow> uv_quiet a (uv_watcher_stop fld h w)"
  using assms by (auto simp: uv_watcher_start_def uv_watcher_stop_def loop_queue_def unlink_queue_def intro!: quiet)

lemma uv_quiet_timer_stop [quiet]: "uv_quiet a w \<Longrightarrow> uv_quiet a (uv_timer_stop h w)"
  by (auto simp: uv_timer_stop_def intro!: quiet)

lemma uv_quiet_timer_start [quiet]: "uv_quiet a w \<Longrightarrow> uv_quiet a (snd (uv_timer_start h t r w))"
  by (auto simp: uv_timer_start_def Let_def intro!: quiet)

lemma uv_quiet_timer [quiet]:
  assumes "uv_quiet a w"
  shows "uv_quiet a (snd (uv_timer_again h w))" "uv_quiet a (uv_timer_set_repeat h r w)"
  using assms by (auto simp: uv_timer_again_def uv_timer_set_repeat_def intro!: quiet)

lemma uv_quiet_signal_stop [quiet]: "uv_quiet a w \<Longrightarrow> uv_quiet a (uv__signal_stop h w)"
  by (auto simp: uv__signal_stop_def intro!: quiet)

lemma uv_quiet_read_stop [quiet]: "uv_quiet a w \<Longrightarrow> uv_quiet a (uv_read_stop h w)"
  by (auto simp: uv_read_stop_def Let_def intro!: quiet)

lemma uv_quiet_misc [quiet]:
  assumes "uv_quiet a w"
  shows "uv_quiet a (snd (uv_async_send h w))" "uv_quiet a (uv__async_close h w)"
    "uv_quiet a (snd (uv_signal_start os h sig w))"
    "uv_quiet a (uv__poll_stop h w)"
    "uv_quiet a (uv__make_close_pending h w)"
  using assms
  by (auto simp: uv_async_send_def uv__async_close_def uv_signal_start_def uv__poll_stop_def
      uv__make_close_pending_def Let_def intro!: quiet)

lemma uv_quiet_closing: "uv_quiet w w' \<Longrightarrow> u_closing (uvh w' h) = u_closing (uvh w h)"
  by (simp add: uv_quiet_def)

text \<open>The two closes that let the descriptor go: the handle is marked as closing.\<close>

lemma uv_quiet_fd_close [quiet]:
  assumes "uv_quiet a w" and c: "u_closing (uvh w h)"
  shows "uv_quiet a (uv__stream_close h w)" "uv_quiet a (uv__udp_close h w)"
proof -
  let ?s = "uv__handle_stop h (uv_read_stop h (upd_uv h (\<lambda>u. u\<lparr>u_pollout := False\<rparr>) w))"
  let ?u = "uv__handle_stop h (upd_uv h (\<lambda>u. u\<lparr>u_reading := False, u_pollout := False\<rparr>) w)"
  have q: "uv_quiet w ?s" "uv_quiet w ?u" by (simp_all add: quiet)
  have "u_closing (uvh ?s h)" "u_closing (uvh ?u h)" using uv_quiet_closing [OF q(1), of h] uv_quiet_closing [OF q(2), of h] c by auto
  then show "uv_quiet a (uv__stream_close h w)" "uv_quiet a (uv__udp_close h w)"
    using uv_quiet_trans [OF assms(1) q(1)] uv_quiet_trans [OF assms(1) q(2)]
    by (simp_all add: uv__stream_close_def uv__udp_close_def uv_quiet_upd_uv)
qed

lemma uv_quiet_pipe_close [quiet]: "uv_quiet a w \<Longrightarrow> u_closing (uvh w h) \<Longrightarrow> uv_quiet a (uv__pipe_close h w)"
  unfolding uv__pipe_close_def by (rule uv_quiet_fd_close) (simp add: quiet, simp add: upd_uv_def)

lemma uv_quiet_poll_start: "uv_poll_start h ev w = Some (e, w') \<Longrightarrow> uv_quiet w w'"
  by (auto simp: uv_poll_start_def Let_def split: if_splits intro!: quiet)

lemma uv_quiet_read_start: "uv_read_start h w = Some (e, w') \<Longrightarrow> uv_quiet w w'"
  by (auto simp: uv_read_start_def split: if_splits intro!: quiet)

lemma uv_quiet_type_close [quiet]: "uv_quiet a w \<Longrightarrow> u_closing (uvh w h) \<Longrightarrow> uv_quiet a (uv__type_close h w)"
  by (auto simp: uv__type_close_def split: option.splits uv_handle_type.splits intro!: quiet)

text \<open>\<open>uv_close\<close> marks its handle and is quiet otherwise.\<close>

lemma uv_close_quiet:
  "uv_quiet (upd_uv h (\<lambda>u. u\<lparr>u_closing := True, u_close_cb := Some cb\<rparr>) w) (uv_close h cb w)"
  by (simp add: uv_close_def Let_def quiet upd_uv_def)

lemma uv_close_marks [simp]:
  "u_closing (uvh (uv_close h cb w) h)" "u_close_cb (uvh (uv_close h cb w) h) = Some cb"
  using uv_close_quiet [of h cb w] by (auto simp: uv_quiet_def upd_uv_def)

section \<open>Local primitives\<close>

text \<open>A primitive changes the struct of no handle but its own.\<close>

definition uv_local :: "oid \<Rightarrow> world \<Rightarrow> world \<Rightarrow> bool" where
  "uv_local x w w' \<longleftrightarrow> (\<forall>h. h \<noteq> x \<longrightarrow> hs w' h = hs w h)"

lemma uv_local_refl [simp]: "uv_local x w w"
  by (simp add: uv_local_def)

lemma uv_local_upd [local_steps]:
  assumes "uv_local x a w"
  shows "uv_local x a (upd_uvl l f w)" "uv_local x a (upd_uv x g w)"
  using assms by (simp_all add: uv_local_def upd_defs)

lemma uv_local_flags [local_steps]:
  assumes "uv_local x a w"
  shows "uv_local x a (uv__handle_start x w)" "uv_local x a (uv__handle_stop x w)"
    "uv_local x a (uv_ref x w)" "uv_local x a (uv_unref x w)"
  using assms
  by (auto simp: uv__handle_start_def uv__handle_stop_def uv_ref_def uv_unref_def Let_def
      uv__active_handle_add_def uv__active_handle_rm_def intro!: local_steps)

lemma uv_local_watcher [local_steps]:
  assumes "uv_local x a w"
  shows "uv_local x a (snd (uv_watcher_start fld x w))" "uv_local x a (uv_watcher_stop fld x w)"
    "uv_local x a (uv_timer_stop x w)" "uv_local x a (uv__signal_stop x w)"
    "uv_local x a (uv_read_stop x w)"
  using assms by (auto simp: uv_watcher_start_def uv_watcher_stop_def uv_timer_stop_def
      uv__signal_stop_def uv_read_stop_def Let_def intro!: local_steps)

lemma uv_local_timer_start [local_steps]:
  "uv_local x a w \<Longrightarrow> uv_local x a (snd (uv_timer_start x t r w))"
  by (auto simp: uv_timer_start_def Let_def intro!: local_steps)

lemma uv_local_misc [local_steps]:
  assumes "uv_local x a w"
  shows "uv_local x a (snd (uv_timer_again x w))" "uv_local x a (uv_timer_set_repeat x r w)"
    "uv_local x a (snd (uv_async_send x w))" "uv_local x a (uv__async_close x w)"
    "uv_local x a (snd (uv_signal_start os x sig w))" "uv_local x a (uv__poll_stop x w)"
    "uv_local x a (uv__stream_close x w)" "uv_local x a (uv__pipe_close x w)" "uv_local x a (uv__udp_close x w)" "uv_local x a (uv__make_close_pending x w)"
  using assms
  by (auto simp: uv_timer_again_def uv_timer_set_repeat_def uv_async_send_def uv__async_close_def
      uv_signal_start_def uv__poll_stop_def uv__stream_close_def uv__pipe_close_def uv__udp_close_def uv__make_close_pending_def Let_def
      intro!: local_steps)

lemma uv_local_close [local_steps]: "uv_local x a w \<Longrightarrow> uv_local x a (uv_close x cb w)"
  by (auto simp: uv_close_def uv__type_close_def Let_def
      split: option.splits uv_handle_type.splits intro!: local_steps)

lemma uv_local_finish_close [local_steps]: "uv_local x a w \<Longrightarrow> uv_local x a (uv__finish_close x w)"
  by (auto simp: uv__finish_close_def Let_def intro!: local_steps)

lemma hs_uv_close_other: "h \<noteq> x \<Longrightarrow> hs (uv_close x cb w) h = hs w h"
  using uv_local_close [of x w w cb] by (simp add: uv_local_def)

end
