(* ===== verification/Py_Runtime.thy ===== *)
theory Py_Runtime
  imports Libuv_Core "HOL-Library.Multiset"
begin

text \<open>
  CPython's reference counting as the extension uses it: \<open>Py_INCREF\<close>, \<open>Py_DECREF\<close> with the
  cascade of deallocations it starts, and the type slots \<open>tp_traverse\<close>, \<open>tp_clear\<close> and
  \<open>tp_dealloc\<close> of pyuv's types. Then the reference ledger: the predicate \<open>wf fr w\<close> says
  that every reference count equals the number of references that are owned by a field of a
  struct, by libuv (a pending close, \<open>PYUV__PYREF\<close>, a request in flight), by the Python
  program, or by the C frame that is running (the multiset \<open>fr\<close>).
\<close>

section \<open>tp\_traverse and tp\_clear\<close>

text \<open>
  \<open>tp_traverse\<close> visits fields, \<open>tp_clear\<close> drops them: each is the list of the fields it
  handles, in the order of the code; a subtype's function ends in the call of its base's.
\<close>

definition Handle_tp_traverse :: "slot list" where
  "Handle_tp_traverse = [S_on_close_cb, S_loop, S_dict]"

definition Handle_tp_clear :: "slot list" where
  "Handle_tp_clear = [S_on_close_cb, S_loop, S_dict]"

definition Loop_tp_traverse :: "slot list" where
  "Loop_tp_traverse = [S_dict]"

definition Loop_tp_clear :: "slot list" where
  "Loop_tp_clear = [S_dict]"

definition Async_tp_traverse :: "slot list" where
  "Async_tp_traverse = S_callback # Handle_tp_traverse"

definition Async_tp_clear :: "slot list" where
  "Async_tp_clear = S_callback # Handle_tp_clear"

definition Timer_tp_traverse :: "slot list" where
  "Timer_tp_traverse = S_callback # Handle_tp_traverse"

definition Timer_tp_clear :: "slot list" where
  "Timer_tp_clear = S_callback # Handle_tp_clear"

definition Prepare_tp_traverse :: "slot list" where
  "Prepare_tp_traverse = S_callback # Handle_tp_traverse"

definition Prepare_tp_clear :: "slot list" where
  "Prepare_tp_clear = S_callback # Handle_tp_clear"

definition Idle_tp_traverse :: "slot list" where
  "Idle_tp_traverse = S_callback # Handle_tp_traverse"

definition Idle_tp_clear :: "slot list" where
  "Idle_tp_clear = S_callback # Handle_tp_clear"

definition Check_tp_traverse :: "slot list" where
  "Check_tp_traverse = S_callback # Handle_tp_traverse"

definition Check_tp_clear :: "slot list" where
  "Check_tp_clear = S_callback # Handle_tp_clear"

definition Signal_tp_traverse :: "slot list" where
  "Signal_tp_traverse = S_callback # Handle_tp_traverse"

definition Signal_tp_clear :: "slot list" where
  "Signal_tp_clear = S_callback # Handle_tp_clear"

definition SignalChecker_tp_traverse :: "slot list" where
  "SignalChecker_tp_traverse = Handle_tp_traverse"

definition SignalChecker_tp_clear :: "slot list" where
  "SignalChecker_tp_clear = Handle_tp_clear"

definition Stream_tp_traverse :: "slot list" where
  "Stream_tp_traverse = S_on_read_cb # Handle_tp_traverse"

definition Stream_tp_clear :: "slot list" where
  "Stream_tp_clear = S_on_read_cb # Handle_tp_clear"

definition TCP_tp_traverse :: "slot list" where
  "TCP_tp_traverse = S_on_new_connection_cb # Stream_tp_traverse"

definition TCP_tp_clear :: "slot list" where
  "TCP_tp_clear = S_on_new_connection_cb # Stream_tp_clear"

definition Pipe_tp_traverse :: "slot list" where
  "Pipe_tp_traverse = S_on_new_connection_cb # Stream_tp_traverse"

definition Pipe_tp_clear :: "slot list" where
  "Pipe_tp_clear = S_on_new_connection_cb # Stream_tp_clear"

definition TTY_tp_traverse :: "slot list" where
  "TTY_tp_traverse = Stream_tp_traverse"

definition TTY_tp_clear :: "slot list" where
  "TTY_tp_clear = Stream_tp_clear"

definition UDP_tp_traverse :: "slot list" where
  "UDP_tp_traverse = S_on_read_cb # Handle_tp_traverse"

definition UDP_tp_clear :: "slot list" where
  "UDP_tp_clear = S_on_read_cb # Handle_tp_clear"

definition Poll_tp_traverse :: "slot list" where
  "Poll_tp_traverse = S_callback # Handle_tp_traverse"

definition Poll_tp_clear :: "slot list" where
  "Poll_tp_clear = S_callback # Handle_tp_clear"

definition Process_tp_traverse :: "slot list" where
  "Process_tp_traverse = S_on_exit_cb # S_stdio # Handle_tp_traverse"

definition Process_tp_clear :: "slot list" where
  "Process_tp_clear = S_on_exit_cb # S_stdio # Handle_tp_clear"

definition FSEvent_tp_traverse :: "slot list" where
  "FSEvent_tp_traverse = S_callback # Handle_tp_traverse"

definition FSEvent_tp_clear :: "slot list" where
  "FSEvent_tp_clear = S_callback # Handle_tp_clear"

definition FSPoll_tp_traverse :: "slot list" where
  "FSPoll_tp_traverse = S_callback # Handle_tp_traverse"

definition FSPoll_tp_clear :: "slot list" where
  "FSPoll_tp_clear = S_callback # Handle_tp_clear"

lemmas tp_clear_defs =
  Handle_tp_clear_def Loop_tp_clear_def Async_tp_clear_def Timer_tp_clear_def
  Prepare_tp_clear_def Idle_tp_clear_def Check_tp_clear_def Signal_tp_clear_def
  SignalChecker_tp_clear_def Stream_tp_clear_def TCP_tp_clear_def Pipe_tp_clear_def
  TTY_tp_clear_def UDP_tp_clear_def Poll_tp_clear_def Process_tp_clear_def
  FSEvent_tp_clear_def FSPoll_tp_clear_def

lemmas tp_traverse_defs =
  Handle_tp_traverse_def Loop_tp_traverse_def Async_tp_traverse_def Timer_tp_traverse_def
  Prepare_tp_traverse_def Idle_tp_traverse_def Check_tp_traverse_def Signal_tp_traverse_def
  SignalChecker_tp_traverse_def Stream_tp_traverse_def TCP_tp_traverse_def
  Pipe_tp_traverse_def TTY_tp_traverse_def UDP_tp_traverse_def Poll_tp_traverse_def
  Process_tp_traverse_def FSEvent_tp_traverse_def FSPoll_tp_traverse_def

primrec handle_tp_clear :: "hclass \<Rightarrow> slot list" where
  "handle_tp_clear AsyncC = Async_tp_clear"
| "handle_tp_clear TimerC = Timer_tp_clear"
| "handle_tp_clear PrepareC = Prepare_tp_clear"
| "handle_tp_clear IdleC = Idle_tp_clear"
| "handle_tp_clear CheckC = Check_tp_clear"
| "handle_tp_clear SignalC = Signal_tp_clear"
| "handle_tp_clear SignalCheckerC = SignalChecker_tp_clear"
| "handle_tp_clear TCPC = TCP_tp_clear"
| "handle_tp_clear PipeC = Pipe_tp_clear"
| "handle_tp_clear TTYC = TTY_tp_clear"
| "handle_tp_clear UDPC = UDP_tp_clear"
| "handle_tp_clear PollC = Poll_tp_clear"
| "handle_tp_clear ProcessC = Process_tp_clear"
| "handle_tp_clear FSEventC = FSEvent_tp_clear"
| "handle_tp_clear FSPollC = FSPoll_tp_clear"

primrec handle_tp_traverse :: "hclass \<Rightarrow> slot list" where
  "handle_tp_traverse AsyncC = Async_tp_traverse"
| "handle_tp_traverse TimerC = Timer_tp_traverse"
| "handle_tp_traverse PrepareC = Prepare_tp_traverse"
| "handle_tp_traverse IdleC = Idle_tp_traverse"
| "handle_tp_traverse CheckC = Check_tp_traverse"
| "handle_tp_traverse SignalC = Signal_tp_traverse"
| "handle_tp_traverse SignalCheckerC = SignalChecker_tp_traverse"
| "handle_tp_traverse TCPC = TCP_tp_traverse"
| "handle_tp_traverse PipeC = Pipe_tp_traverse"
| "handle_tp_traverse TTYC = TTY_tp_traverse"
| "handle_tp_traverse UDPC = UDP_tp_traverse"
| "handle_tp_traverse PollC = Poll_tp_traverse"
| "handle_tp_traverse ProcessC = Process_tp_traverse"
| "handle_tp_traverse FSEventC = FSEvent_tp_traverse"
| "handle_tp_traverse FSPollC = FSPoll_tp_traverse"

text \<open>\<open>subtype_clear\<close> (common.c) finds the \<open>tp_clear\<close> of the type; plain objects have none.\<close>

primrec subtype_clear :: "kind \<Rightarrow> slot list" where
  "subtype_clear (KObject c) = []"
| "subtype_clear KLoop = Loop_tp_clear"
| "subtype_clear (KHandle c) = handle_tp_clear c"

lemma handle_tp_clear_distinct [simp]: "distinct (handle_tp_clear c)"
  by (cases c) (simp_all add: tp_clear_defs)

lemma subtype_clear_distinct [simp]: "distinct (subtype_clear k)"
  by (cases k) (simp_all add: Loop_tp_clear_def)

section \<open>Deallocation\<close>

text \<open>The references in the given fields of an object.\<close>

definition slot_refs :: "pyobj \<Rightarrow> slot list \<Rightarrow> oid list" where
  "slot_refs p ss = List.map_filter (slots p) ss"

definition free_obj :: "oid \<Rightarrow> world \<Rightarrow> world" where
  "free_obj x w = upd_obj x (\<lambda>p. p\<lparr>live := False, slots := (\<lambda>_. None)\<rparr>) w"

text \<open>
  \<open>resurrect_object\<close> keeps the count the caller gave the object: \<open>Py_INCREF\<close> on a count
  that reached zero.
\<close>

definition resurrect_object :: "oid \<Rightarrow> world \<Rightarrow> world" where
  "resurrect_object x w = upd_obj x (\<lambda>p. p\<lparr>refcnt := 1\<rparr>) w"

text \<open>
  \<open>tp_dealloc\<close> returns the references that \<open>tp_clear\<close> drops, in order; the caller drops
  them. A handle that is open is closed instead and lives until the close callback.
\<close>

definition Handle_tp_dealloc :: "oid \<Rightarrow> world \<Rightarrow> oid list \<times> world" where
  "Handle_tp_dealloc self w =
     (if initialized (hs w self) \<and> \<not> uv_is_closing self w
      then ([], resurrect_object self (uv_close self pyuv__handle_dealloc_close_cb w))
      else (slot_refs (objs w ! self) (subtype_clear (kind (objs w ! self))), free_obj self w))"

text \<open>
  \<open>uv_open\<close> is the test \<open>self->uv_loop\<close>: the loop was initialised (\<open>new_loop\<close> sets the pointer
  after \<open>uv_loop_init\<close> has succeeded).
\<close>

definition Loop_tp_dealloc :: "oid \<Rightarrow> world \<Rightarrow> oid list \<times> world" where
  "Loop_tp_dealloc self w =
     (let w1 = (if uv_open (loops w self) then snd (uv_loop_close self w) else w)
      in (slot_refs (objs w1 ! self) (subtype_clear (kind (objs w1 ! self))), free_obj self w1))"

definition tp_dealloc :: "oid \<Rightarrow> world \<Rightarrow> oid list \<times> world" where
  "tp_dealloc x w =
     (case kind (objs w ! x) of
        KObject _ \<Rightarrow> ([], free_obj x w)
      | KLoop \<Rightarrow> Loop_tp_dealloc x w
      | KHandle _ \<Rightarrow> Handle_tp_dealloc x w)"

definition Py_INCREF :: "oid \<Rightarrow> world \<Rightarrow> world" where
  "Py_INCREF x w = upd_obj x (\<lambda>p. p\<lparr>refcnt := refcnt p + 1\<rparr>) w"

definition dec_count :: "oid \<Rightarrow> world \<Rightarrow> world" where
  "dec_count x w = upd_obj x (\<lambda>p. p\<lparr>refcnt := refcnt p - 1\<rparr>) w"

text \<open>
  \<open>release xs\<close> is \<open>Py_DECREF\<close> of each of \<open>xs\<close> in turn. A count that reaches zero starts
  \<open>tp_dealloc\<close>, and the references that it drops come before the rest of the list, as in
  the recursion of the C code. A reference to memory that is not a live object is not
  followed (it would be undefined behaviour; \<open>wf\<close> below excludes it).
\<close>

definition nrefs :: "pyobj \<Rightarrow> nat" where
  "nrefs p = length (slot_refs p all_slots)"

definition total_refs :: "world \<Rightarrow> nat" where
  "total_refs w = (\<Sum>p\<leftarrow>objs w. nrefs p)"

lemma length_slot_refs: "distinct ss \<Longrightarrow> length (slot_refs p ss) = card {s \<in> set ss. slots p s \<noteq> None}"
proof (induction ss)
  case Nil
  then show ?case by (simp add: slot_refs_def map_filter_simps)
next
  case (Cons a ss)
  have "{s \<in> set (a # ss). slots p s \<noteq> None} =
      (if slots p a \<noteq> None then insert a {s \<in> set ss. slots p s \<noteq> None}
       else {s \<in> set ss. slots p s \<noteq> None})"
    by auto
  with Cons show ?case
    by (auto simp: slot_refs_def map_filter_simps split: option.splits)
qed

lemma length_slot_refs_le: "distinct ss \<Longrightarrow> length (slot_refs p ss) \<le> nrefs p"
proof -
  assume "distinct ss"
  have "finite {s \<in> set all_slots. slots p s \<noteq> None}"
    by (rule finite_subset [OF _ finite_set [of all_slots]]) auto
  then have "card {s \<in> set ss. slots p s \<noteq> None} \<le> card {s \<in> set all_slots. slots p s \<noteq> None}"
    by (rule card_mono) auto
  with \<open>distinct ss\<close> show ?thesis
    by (simp only: nrefs_def length_slot_refs all_slots_distinct)
qed

lemma sum_list_update_nat:
  fixes f :: "'a \<Rightarrow> nat"
  shows "i < length xs \<Longrightarrow> (\<Sum>x\<leftarrow>xs[i := y]. f x) + f (xs ! i) = (\<Sum>x\<leftarrow>xs. f x) + f y"
proof (induction xs arbitrary: i)
  case Nil
  then show ?case by simp
next
  case (Cons a xs)
  then show ?case by (cases i) (auto simp: algebra_simps)
qed

lemma total_refs_free: "x < length (objs w) \<Longrightarrow> total_refs (free_obj x w) + nrefs (objs w ! x) = total_refs w"
  using sum_list_update_nat [of x "objs w" nrefs "(objs w ! x)\<lparr>live := False, slots := (\<lambda>_. None)\<rparr>"]
  by (simp add: total_refs_def free_obj_def upd_obj_def nrefs_def slot_refs_def map_filter_def)

lemma total_refs_count:
  "x < length (objs w) \<Longrightarrow> total_refs (upd_obj x (\<lambda>p. p\<lparr>refcnt := f p\<rparr>) w) = total_refs w"
  using sum_list_update_nat [of x "objs w" nrefs "(objs w ! x)\<lparr>refcnt := f (objs w ! x)\<rparr>"]
  by (simp add: total_refs_def upd_obj_def nrefs_def slot_refs_def)

lemma objs_upd_frames [simp]:
  "objs (upd_uv h f w) = objs w" "objs (upd_uvl l g w) = objs w"
  "objs (upd_handle h k w) = objs w" "objs (upd_Loop l j w) = objs w"
  "length (objs (upd_obj x m w)) = length (objs w)"
  by (simp_all add: upd_defs)

lemma objs_uv_close [simp]: "objs (uv_close h cb w) = objs w"
  using uv_close_quiet [of h cb w] by (simp add: uv_quiet_def)

lemma objs_uv_loop_close [simp]: "objs (snd (uv_loop_close l w)) = objs w"
  by (simp add: uv_loop_close_def)

lemma free_decreases:
  assumes "x < length (objs w)"
  shows "length (slot_refs (objs w ! x) (subtype_clear k)) + total_refs (free_obj x w) \<le> total_refs w"
  using length_slot_refs_le [OF subtype_clear_distinct, of "objs w ! x" k] total_refs_free [OF assms]
  by simp

lemma total_refs_objs: "objs w = objs w' \<Longrightarrow> total_refs w = total_refs w'"
  by (simp add: total_refs_def)

lemma tp_dealloc_decreases:
  assumes x: "x < length (objs w)" and d: "tp_dealloc x w = (ys, w')"
  shows "length ys + total_refs w' \<le> total_refs w"
proof (cases "kind (objs w ! x)")
  case (KObject c)
  then show ?thesis using d free_decreases [OF x, of "KObject c"] by (simp add: tp_dealloc_def)
next
  case KLoop
  have "x < length (objs (snd (uv_loop_close x w)))" using x by simp
  from free_decreases [OF this, of KLoop] free_decreases [OF x, of KLoop] show ?thesis
    using d KLoop total_refs_objs [of "snd (uv_loop_close x w)" w]
    by (auto simp: tp_dealloc_def Loop_tp_dealloc_def Let_def split: if_splits)
next
  case (KHandle c)
  show ?thesis
  proof (cases "initialized (hs w x) \<and> \<not> uv_is_closing x w")
    case True
    then show ?thesis
      using d KHandle x total_refs_count [of x "uv_close x pyuv__handle_dealloc_close_cb w" "\<lambda>_. 1"]
        total_refs_objs [of "uv_close x pyuv__handle_dealloc_close_cb w" w]
      by (auto simp: tp_dealloc_def Handle_tp_dealloc_def resurrect_object_def)
  next
    case False
    then show ?thesis
      using d KHandle free_decreases [OF x, of "KHandle c"]
      by (auto simp: tp_dealloc_def Handle_tp_dealloc_def)
  qed
qed

function release :: "oid list \<Rightarrow> world \<Rightarrow> world" where
  "release [] w = w"
| "release (x # xs) w =
     (if \<not> valid w x then release xs w
      else if refcnt (objs w ! x) \<noteq> 1 then release xs (dec_count x w)
      else case tp_dealloc x (dec_count x w) of (ys, w') \<Rightarrow> release (ys @ xs) w')"
  by pat_completeness auto
termination
proof (relation "measure (\<lambda>(xs, w). length xs + total_refs w)", goal_cases)
  case 1
  show ?case by simp
next
  case (2 x xs w)
  then show ?case by simp
next
  case (3 x xs w)
  then show ?case by (simp add: dec_count_def total_refs_count valid_def)
next
  case (4 x xs w ys w')
  then have "x < length (objs (dec_count x w))" by (simp add: valid_def dec_count_def)
  from tp_dealloc_decreases [OF this, of ys w'] 4 show ?case
    by (simp add: dec_count_def total_refs_count valid_def)
qed

declare release.simps [simp del]

abbreviation Py_DECREF :: "oid \<Rightarrow> world \<Rightarrow> world" where
  "Py_DECREF x \<equiv> release [x]"

text \<open>\<open>Py_XDECREF\<close> and \<open>Py_CLEAR\<close> accept \<open>NULL\<close>.\<close>

definition Py_XDECREF :: "oid option \<Rightarrow> world \<Rightarrow> world" where
  "Py_XDECREF x w = (case x of None \<Rightarrow> w | Some y \<Rightarrow> Py_DECREF y w)"

lemma release_Nil [simp]: "release [] w = w"
  by (simp add: release.simps)

end
