(* ===== verification/Ref_Ledger.thy ===== *)
theory Ref_Ledger
  imports Py_Runtime
begin

text \<open>
  The reference ledger. \<open>owned w x\<close> counts the references to \<open>x\<close> that the state holds;
  \<open>wf_refs fr w\<close> says that the count of every object is what is owned plus what the running C
  frame owns, that exactly the objects with a positive count are live, and how the fields
  of a handle agree. The lemmas are the ownership rules of the operations: what a step
  takes from the frame and what it gives back.
\<close>

section \<open>What is owned\<close>

definition slot_count :: "pyobj \<Rightarrow> oid \<Rightarrow> nat" where
  "slot_count p x = length (filter (\<lambda>s. slots p s = Some x) all_slots)"

text \<open>\<open>PYUV__PYREF\<close> and a close that is pending each own a reference to the handle itself.\<close>

definition self_refs :: "world \<Rightarrow> oid \<Rightarrow> nat" where
  "self_refs w x =
     of_bool (pyref (hs w x)) + of_bool (u_closing (uvh w x) \<and> \<not> u_closed (uvh w x))"

definition req_refs :: "world \<Rightarrow> oid \<Rightarrow> nat" where
  "req_refs w x = count_list (concat (map rq_refs (pend w))) x"

definition owned :: "world \<Rightarrow> oid \<Rightarrow> int" where
  "owned w x = int (ext w x) + (\<Sum>p\<leftarrow>objs w. int (slot_count p x)) + int (self_refs w x)
     + int (req_refs w x)"

definition counts_ok :: "oid multiset \<Rightarrow> world \<Rightarrow> bool" where
  "counts_ok fr w \<longleftrightarrow>
     (\<forall>x. if x < length (objs w) then refcnt (objs w ! x) = owned w x + int (count fr x)
          else owned w x + int (count fr x) = 0)"

definition live_ok :: "world \<Rightarrow> bool" where
  "live_ok w \<longleftrightarrow> (\<forall>x < length (objs w). live (objs w ! x) \<longleftrightarrow> 0 < refcnt (objs w ! x))"

definition slots_ok :: "world \<Rightarrow> bool" where
  "slots_ok w \<longleftrightarrow> (\<forall>x < length (objs w). \<forall>s. slot_of w x s \<noteq> None \<longrightarrow>
     s \<in> set (subtype_clear (kind (objs w ! x))))"

text \<open>
  How the fields of a handle agree: what libuv still knows is a live, initialised handle;
  an open handle has its loop in its \<open>loop\<close> field and in the libuv struct; a handle that is
  closing by \<open>close()\<close> has its callback; a request in flight is about an initialised handle of
  a class that has such requests; a stream that is shutting down, or connecting, has the
  request for it.
\<close>

definition has_req :: "req_type \<Rightarrow> oid \<Rightarrow> world \<Rightarrow> bool" where
  "has_req t h w \<longleftrightarrow> (\<exists>r \<in> set (pend w). rq_type r = t \<and> rq_obj r = h)"

lemma has_req_frame [simp]:
  "has_req t h (w\<lparr>hs := s\<rparr>) = has_req t h w" "has_req t h (w\<lparr>objs := b\<rparr>) = has_req t h w"
  "has_req t h (w\<lparr>ext := e\<rparr>) = has_req t h w" "has_req t h (upd_obj x f w) = has_req t h w"
  by (simp_all add: has_req_def upd_obj_def)

definition handle_ok :: "world \<Rightarrow> oid \<Rightarrow> bool" where
  "handle_ok w h \<longleftrightarrow>
     (u_loop (uvh w h) \<noteq> None \<and> \<not> u_closed (uvh w h) \<longrightarrow> is_handle w h \<and> initialized (hs w h)) \<and>
     (initialized (hs w h) \<and> \<not> u_closed (uvh w h) \<longrightarrow>
        is_handle w h \<and> (\<exists>l. slot_of w h S_loop = Some l \<and> u_loop (uvh w h) = Some l \<and>
          l < length (objs w) \<and> kind (objs w ! l) = KLoop)) \<and>
     (u_closed (uvh w h) \<longrightarrow> u_closing (uvh w h)) \<and>
     (u_closing (uvh w h) \<longrightarrow> initialized (hs w h) \<and> u_close_cb (uvh w h) \<noteq> None) \<and>
     (pyref (hs w h) \<longrightarrow> initialized (hs w h)) \<and>
     (u_closing (uvh w h) \<and> \<not> u_closed (uvh w h) \<and>
        u_close_cb (uvh w h) = Some pyuv__handle_close_cb \<longrightarrow> slot_of w h S_on_close_cb \<noteq> None) \<and>
     (initialized (hs w h) \<longrightarrow> h < length (objs w) \<and>
        (\<exists>c. kind (objs w ! h) = KHandle c \<and> u_type (uvh w h) = Some (uv_type_of c))) \<and>
     (\<forall>r \<in> set (pend w). rq_obj r = h \<longrightarrow> initialized (hs w h) \<and> req_fits r (u_type (uvh w h))) \<and>
     (initialized (hs w h) \<and> \<not> u_closed (uvh w h) \<longrightarrow>
        (u_shutting (uvh w h) \<longrightarrow> has_req ShutdownReq h w) \<and> (u_connect (uvh w h) \<longrightarrow> has_req ConnectReq h w))"

definition none_ok :: "world \<Rightarrow> bool" where
  "none_ok w \<longleftrightarrow> 0 < ext w Py_None \<and> objs w \<noteq> [] \<and> kind (objs w ! Py_None) = KObject False"

definition wf_refs :: "oid multiset \<Rightarrow> world \<Rightarrow> bool" where
  "wf_refs fr w \<longleftrightarrow> counts_ok fr w \<and> live_ok w \<and> slots_ok w \<and> (\<forall>h. handle_ok w h) \<and> none_ok w"

section \<open>Basic facts\<close>

lemma owned_nonneg: "0 \<le> owned w x"
proof -
  have "0 \<le> (\<Sum>p\<leftarrow>objs w. int (slot_count p x))"
    by (rule sum_list_nonneg) auto
  then show ?thesis by (simp add: owned_def)
qed

lemma slot_count_pos: "slots p s = Some x \<Longrightarrow> 0 < slot_count p x"
  using all_slots_set [of s] by (auto simp: slot_count_def filter_empty_conv)

lemma owned_slot_pos:
  assumes "y < length (objs w)" and "slot_of w y s = Some x"
  shows "0 < owned w x"
proof -
  have "int (slot_count (objs w ! y) x) \<le> (\<Sum>p\<leftarrow>objs w. int (slot_count p x))"
    using sum_list_ge_member [of y "objs w" "\<lambda>p. int (slot_count p x)"] assms(1) by simp
  with slot_count_pos [OF assms(2)] show ?thesis by (simp add: owned_def)
qed

lemma owned_ext_pos: "0 < ext w x \<Longrightarrow> 0 < owned w x"
  using owned_nonneg [of "w\<lparr>ext := (\<lambda>_. 0)\<rparr>" x] by (simp add: owned_def self_refs_def req_refs_def)

lemma wf_valid:
  assumes "wf_refs fr w" and "0 < owned w x \<or> x \<in># fr"
  shows "valid w x"
proof -
  have "x \<in># fr \<Longrightarrow> 0 < int (count fr x)" by simp
  then have pos: "0 < owned w x + int (count fr x)"
    using assms(2) owned_nonneg [of w x] by linarith
  with assms(1) have "x < length (objs w)" and "0 < refcnt (objs w ! x)"
    by (auto simp: wf_refs_def counts_ok_def dest: spec [of _ x] split: if_splits)
  with assms(1) show ?thesis by (auto simp: wf_refs_def live_ok_def valid_def)
qed

lemma wf_valid_frame: "wf_refs fr w \<Longrightarrow> x \<in># fr \<Longrightarrow> valid w x"
  using wf_valid by blast

lemma wf_valid_ext: "wf_refs fr w \<Longrightarrow> 0 < ext w x \<Longrightarrow> valid w x"
  using wf_valid owned_ext_pos by blast

lemma wf_valid_slot: "wf_refs fr w \<Longrightarrow> y < length (objs w) \<Longrightarrow> slot_of w y s = Some x \<Longrightarrow> valid w x"
  using wf_valid owned_slot_pos by blast

lemma wf_valid_req:
  assumes "wf_refs fr w" and "r \<in> set (pend w)" and "x \<in> set (rq_refs r)"
  shows "valid w x"
proof -
  have "x \<in> set (concat (map rq_refs (pend w)))" using assms(2,3) by auto
  then have "0 < req_refs w x" unfolding req_refs_def by (metis count_list_0_iff gr0I)
  then have "0 < owned w x"
    using owned_nonneg [of "w\<lparr>pend := []\<rparr>" x] by (simp add: owned_def self_refs_def req_refs_def)
  with assms(1) show ?thesis using wf_valid by blast
qed

lemma wf_valid_pyref: "wf_refs fr w \<Longrightarrow> pyref (hs w x) \<Longrightarrow> valid w x"
proof -
  assume a: "wf_refs fr w" "pyref (hs w x)"
  have "0 < owned w x"
    using owned_nonneg [of "w\<lparr>hs := (hs w)(x := handle_zero)\<rparr>" x] a(2)
    by (simp add: owned_def self_refs_def req_refs_def handle_zero_def uv_zero_def)
  with a(1) show ?thesis using wf_valid by blast
qed

lemma wf_none: "wf_refs fr w \<Longrightarrow> valid w Py_None"
proof -
  assume a: "wf_refs fr w"
  then have "0 < ext w Py_None" by (simp add: wf_refs_def none_ok_def)
  with a show ?thesis by (rule wf_valid_ext)
qed

lemma wf_handle_ok: "wf_refs fr w \<Longrightarrow> handle_ok w h"
  by (simp add: wf_refs_def)

lemma valid_length: "valid w x \<Longrightarrow> x < length (objs w)"
  by (simp add: valid_def)

text \<open>An open handle's loop is allocated.\<close>

lemma wf_loop_valid:
  assumes "wf_refs fr w" and "initialized (hs w h)" and "\<not> u_closed (uvh w h)"
  shows "\<exists>l. slot_of w h S_loop = Some l \<and> u_loop (uvh w h) = Some l \<and> is_loop w l \<and> is_handle w h"
proof -
  from wf_handle_ok [OF assms(1), of h] assms(2,3) obtain l where
    l: "slot_of w h S_loop = Some l" "u_loop (uvh w h) = Some l" "kind (objs w ! l) = KLoop"
      "is_handle w h"
    by (auto simp: handle_ok_def)
  with assms(1) have "valid w l"
    by (meson is_handle_def valid_length wf_valid_slot)
  with l show ?thesis by (auto simp: is_loop_def)
qed

section \<open>Quiet steps\<close>

text \<open>
  The ledger reads the heap, the program's references, the requests, and nine fields of
  each handle: a step that leaves them alone keeps it.
\<close>

definition same_ledger :: "world \<Rightarrow> world \<Rightarrow> bool" where
  "same_ledger w w' \<longleftrightarrow> objs w' = objs w \<and> ext w' = ext w \<and> pend w' = pend w \<and>
     (\<forall>h. pyref (hs w' h) = pyref (hs w h) \<and> initialized (hs w' h) = initialized (hs w h) \<and>
          u_closing (uvh w' h) = u_closing (uvh w h) \<and> u_closed (uvh w' h) = u_closed (uvh w h) \<and>
          u_loop (uvh w' h) = u_loop (uvh w h) \<and> u_type (uvh w' h) = u_type (uvh w h) \<and>
          u_close_cb (uvh w' h) = u_close_cb (uvh w h) \<and>
          u_shutting (uvh w' h) = u_shutting (uvh w h) \<and> u_connect (uvh w' h) = u_connect (uvh w h))"

lemma same_ledger_handle_ok: "same_ledger w w' \<Longrightarrow> handle_ok w' h = handle_ok w h"
  by (simp add: same_ledger_def handle_ok_def is_handle_def valid_def has_req_def)

lemma same_ledger_owned: "same_ledger w w' \<Longrightarrow> owned w' x = owned w x"
  by (simp add: same_ledger_def owned_def self_refs_def req_refs_def)

lemma wf_same_ledger: "same_ledger w w' \<Longrightarrow> wf_refs fr w \<Longrightarrow> wf_refs fr w'"
proof -
  assume q: "same_ledger w w'" and wf: "wf_refs fr w"
  have "\<forall>h. handle_ok w' h"
    using wf by (simp add: same_ledger_handle_ok [OF q] wf_refs_def)
  then show ?thesis
    using wf q same_ledger_owned [OF q]
    by (simp add: wf_refs_def counts_ok_def same_ledger_def live_ok_def slots_ok_def none_ok_def)
qed

lemma wf_quiet: "uv_quiet w w' \<Longrightarrow> wf_refs fr w \<Longrightarrow> wf_refs fr w'"
  by (rule wf_same_ledger) (simp_all add: uv_quiet_def same_ledger_def)

lemma wf_log_event [simp]: "wf_refs fr w \<Longrightarrow> wf_refs fr (log_event e w)"
  by (rule wf_same_ledger [of w]) (simp_all add: log_event_def same_ledger_def)

lemma wf_upd_Loop [simp]: "wf_refs fr w \<Longrightarrow> wf_refs fr (upd_Loop l f w)"
  by (rule wf_same_ledger [of w]) (simp_all add: upd_Loop_def same_ledger_def)

section \<open>Counting\<close>

lemma owned_upd_obj:
  assumes "x < length (objs w)"
  shows "owned (upd_obj x f w) y =
    owned w y - int (slot_count (objs w ! x) y) + int (slot_count (f (objs w ! x)) y)"
  using sum_list_map_update [of x "objs w" "\<lambda>p. int (slot_count p y)" "f (objs w ! x)"] assms
  by (simp add: owned_def upd_obj_def self_refs_def req_refs_def)

lemma slot_count_cong: "slots p = slots q \<Longrightarrow> slot_count p y = slot_count q y"
  by (simp add: slot_count_def)

lemma owned_upd_count [simp]:
  "owned (upd_obj x (\<lambda>p. p\<lparr>refcnt := f p\<rparr>) w) y = owned w y"
proof (cases "x < length (objs w)")
  case True
  then show ?thesis by (simp add: owned_upd_obj slot_count_def)
next
  case False
  then have "upd_obj x (\<lambda>p. p\<lparr>refcnt := f p\<rparr>) w = w"
    by (simp add: upd_obj_def list_update_beyond)
  then show ?thesis by simp
qed

lemma upd_obj_nth:
  "y < length (objs w) \<Longrightarrow> objs (upd_obj x f w) ! y = (if x = y then f (objs w ! y) else objs w ! y)"
  by (simp add: upd_obj_def)

lemma upd_obj_frame [simp]:
  "hs (upd_obj x f w) = hs w" "loops (upd_obj x f w) = loops w" "ext (upd_obj x f w) = ext w"
  "pend (upd_obj x f w) = pend w" "trace (upd_obj x f w) = trace w"
  by (simp_all add: upd_obj_def)

lemma handle_ok_upd_count [simp]:
  "handle_ok (upd_obj x (\<lambda>p. p\<lparr>refcnt := f p\<rparr>) w) h = handle_ok w h"
proof -
  have o: "slots (objs (upd_obj x (\<lambda>p. p\<lparr>refcnt := f p\<rparr>) w) ! y) = slots (objs w ! y)"
    "kind (objs (upd_obj x (\<lambda>p. p\<lparr>refcnt := f p\<rparr>) w) ! y) = kind (objs w ! y)"
    "live (objs (upd_obj x (\<lambda>p. p\<lparr>refcnt := f p\<rparr>) w) ! y) = live (objs w ! y)" for y
    by (cases "x < length (objs w)"; cases "x = y"; simp add: upd_obj_def list_update_beyond)+
  show ?thesis by (simp add: handle_ok_def is_handle_def valid_def o)
qed

lemma upd_obj_kind:
  "(\<And>p. kind (f p) = kind p) \<Longrightarrow> kind (objs (upd_obj x f w) ! y) = kind (objs w ! y)"
  by (cases "x < length (objs w)"; cases "x = y") (simp_all add: upd_obj_def list_update_beyond)

lemma upd_obj_Nil [simp]: "objs (upd_obj x f w) = [] \<longleftrightarrow> objs w = []"
  by (simp add: upd_obj_def)

lemma none_ok_upd_obj:
  "(\<And>p. kind (f p) = kind p) \<Longrightarrow> none_ok (upd_obj x f w) = none_ok w"
  by (simp add: none_ok_def upd_obj_kind)

lemma wf_INCREF [ref_intros]:
  assumes "wf_refs fr w" and "valid w x"
  shows "wf_refs (add_mset x fr) (Py_INCREF x w)"
proof -
  let ?w = "Py_INCREF x w"
  have c: "counts_ok (add_mset x fr) ?w"
    using assms by (auto simp: wf_refs_def counts_ok_def Py_INCREF_def upd_obj_nth valid_def)
  have l: "live_ok ?w"
    using assms by (auto simp: wf_refs_def live_ok_def Py_INCREF_def upd_obj_nth valid_def)
  have s: "slots_ok ?w"
    using assms(1) unfolding wf_refs_def slots_ok_def Py_INCREF_def
    by (auto simp: upd_obj_nth split: if_splits)
  have n: "none_ok ?w"
    using assms(1) by (simp add: wf_refs_def Py_INCREF_def none_ok_upd_obj)
  show ?thesis
    using assms(1) c l s n by (simp add: wf_refs_def Py_INCREF_def)
qed

lemma wf_dec_count:
  assumes wf: "wf_refs (add_mset x fr) w" and "refcnt (objs w ! x) \<noteq> 1"
  shows "wf_refs fr (dec_count x w)"
proof -
  let ?w = "dec_count x w"
  have v: "valid w x" using wf by (rule wf_valid_frame) simp
  have r: "1 < refcnt (objs w ! x)"
    using v wf assms(2) by (auto simp: valid_def wf_refs_def live_ok_def)
  have c: "counts_ok fr ?w"
    using wf v by (auto simp: wf_refs_def counts_ok_def dec_count_def upd_obj_nth valid_def
        split: if_splits)
  have l: "live_ok ?w"
    using wf v r by (auto simp: wf_refs_def live_ok_def dec_count_def upd_obj_nth valid_def)
  have s: "slots_ok ?w"
    using wf unfolding wf_refs_def slots_ok_def dec_count_def
    by (auto simp: upd_obj_nth split: if_splits)
  have n: "none_ok ?w"
    using wf by (simp add: wf_refs_def dec_count_def none_ok_upd_obj)
  show ?thesis
    using wf c l s n by (simp add: wf_refs_def dec_count_def)
qed

lemma count_slot_refs:
  assumes "distinct ss" and "\<And>s. slots p s \<noteq> None \<Longrightarrow> s \<in> set ss"
  shows "count_list (slot_refs p ss) y = slot_count p y"
proof -
  have count: "count_list (slot_refs p ss) y = length (filter (\<lambda>s. slots p s = Some y) ss)" for ss
    by (induction ss) (auto simp: slot_refs_def map_filter_simps split: option.splits)
  have len: "length (filter P ss) = card {s \<in> set ss. P s}" if "distinct ss" for P and ss :: "slot list"
    using that distinct_length_filter [of ss P] by (simp add: Int_def conj_commute)
  have "{s \<in> set ss. slots p s = Some y} = {s \<in> set all_slots. slots p s = Some y}"
    using assms(2) by auto
  then show ?thesis
    using assms(1) by (simp only: count slot_count_def len all_slots_distinct)
qed

section \<open>Closing and deallocating\<close>

text \<open>A step that marks one handle: what the ledger sees of it is the change of \<open>self_refs\<close>.\<close>

lemma owned_hs_upd:
  "owned (w\<lparr>hs := (hs w)(h := s)\<rparr>) y =
     owned w y - (if y = h then int (self_refs w h) else 0)
       + (if y = h then int (self_refs (w\<lparr>hs := (hs w)(h := s)\<rparr>) h) else 0)"
  by (simp add: owned_def self_refs_def req_refs_def)

lemma wf_hs_upd:
  assumes "wf_refs fr w" and ok: "handle_ok (w\<lparr>hs := (hs w)(h := s)\<rparr>) h"
    and eq: "\<And>y. int (count fr' y) =
      int (count fr y) + (if y = h then int (self_refs w h) - int (self_refs (w\<lparr>hs := (hs w)(h := s)\<rparr>) h) else 0)"
  shows "wf_refs fr' (w\<lparr>hs := (hs w)(h := s)\<rparr>)"
proof -
  let ?w = "w\<lparr>hs := (hs w)(h := s)\<rparr>"
  have h: "handle_ok ?w y" for y
  proof (cases "y = h")
    case True
    with ok show ?thesis by simp
  next
    case False
    then have "handle_ok ?w y = handle_ok w y"
      by (simp add: handle_ok_def is_handle_def valid_def)
    with assms(1) show ?thesis by (simp add: wf_refs_def)
  qed
  have "owned ?w y + int (count fr' y) = owned w y + int (count fr y)" for y
    using eq [of y] by (simp add: owned_hs_upd)
  then have "counts_ok fr' ?w"
    using assms(1) by (simp add: wf_refs_def counts_ok_def)
  with h assms(1) show ?thesis
    by (simp add: wf_refs_def live_ok_def slots_ok_def none_ok_def)
qed

lemma wf_uv_close:
  assumes wf: "wf_refs (add_mset h fr) w"
    and init: "initialized (hs w h)" and op: "\<not> uv_is_closing h w"
    and cb: "cb = pyuv__handle_close_cb \<Longrightarrow> slot_of w h S_on_close_cb \<noteq> None"
  shows "wf_refs fr (uv_close h cb w)"
proof (rule wf_quiet [OF uv_close_quiet])
  have ok: "handle_ok w h" using wf by (rule wf_handle_ok)
  show "wf_refs fr (upd_uv h (\<lambda>u. u\<lparr>u_closing := True, u_close_cb := Some cb\<rparr>) w)"
    unfolding upd_uv_def
  proof (rule wf_hs_upd [OF wf])
    show "handle_ok (w\<lparr>hs := (hs w)(h := (hs w h)\<lparr>uv := (uvh w h)
        \<lparr>u_closing := True, u_close_cb := Some cb\<rparr>\<rparr>)\<rparr>) h"
      using ok init op cb by (auto simp: handle_ok_def uv_is_closing_def is_handle_def valid_def)
  next
    fix y
    show "int (count fr y) = int (count (add_mset h fr) y) + (if y = h then
        int (self_refs w h) - int (self_refs (w\<lparr>hs := (hs w)(h := (hs w h)\<lparr>uv := (uvh w h)
          \<lparr>u_closing := True, u_close_cb := Some cb\<rparr>\<rparr>)\<rparr>) h) else 0)"
      using op by (simp add: self_refs_def uv_is_closing_def)
  qed
qed

text \<open>\<open>uv__finish_close\<close> hands the reference of the pending close to its caller.\<close>

lemma uv__finish_close_quiet:
  "uv_quiet (upd_uv h (\<lambda>u. u\<lparr>u_closed := True\<rparr>) w) (uv__finish_close h w)"
  by (simp add: uv__finish_close_def Let_def quiet)

lemma wf_finish_close:
  assumes wf: "wf_refs fr w" and "u_closing (uvh w h)" and "\<not> u_closed (uvh w h)"
  shows "wf_refs (add_mset h fr) (uv__finish_close h w)"
proof (rule wf_quiet [OF uv__finish_close_quiet])
  have ok: "handle_ok w h" using wf by (rule wf_handle_ok)
  show "wf_refs (add_mset h fr) (upd_uv h (\<lambda>u. u\<lparr>u_closed := True\<rparr>) w)"
    unfolding upd_uv_def
  proof (rule wf_hs_upd [OF wf])
    show "handle_ok (w\<lparr>hs := (hs w)(h := (hs w h)\<lparr>uv := (uvh w h)\<lparr>u_closed := True\<rparr>\<rparr>)\<rparr>) h"
      using ok assms(2) by (auto simp: handle_ok_def is_handle_def valid_def)
  qed (use assms in \<open>simp add: self_refs_def\<close>)
qed

lemma wf_set_pyref:
  assumes wf: "wf_refs (add_mset h fr) w" and "initialized (hs w h)" and "\<not> pyref (hs w h)"
  shows "wf_refs fr (upd_handle h (\<lambda>x. x\<lparr>pyref := True\<rparr>) w)"
  unfolding upd_handle_def
proof (rule wf_hs_upd [OF wf])
  show "handle_ok (w\<lparr>hs := (hs w)(h := (hs w h)\<lparr>pyref := True\<rparr>)\<rparr>) h"
    using wf_handle_ok [OF wf, of h] assms(2) by (auto simp: handle_ok_def is_handle_def valid_def)
qed (use assms in \<open>simp add: self_refs_def\<close>)

lemma wf_clear_pyref:
  assumes wf: "wf_refs fr w" and "pyref (hs w h)"
  shows "wf_refs (add_mset h fr) (upd_handle h (\<lambda>x. x\<lparr>pyref := False\<rparr>) w)"
  unfolding upd_handle_def
proof (rule wf_hs_upd [OF wf])
  show "handle_ok (w\<lparr>hs := (hs w)(h := (hs w h)\<lparr>pyref := False\<rparr>)\<rparr>) h"
    using wf_handle_ok [OF wf, of h] by (auto simp: handle_ok_def is_handle_def valid_def)
qed (use assms in \<open>simp add: self_refs_def\<close>)

text \<open>Freeing an object moves the references of its fields to the frame.\<close>

lemma slot_count_freed [simp]: "slot_count (p\<lparr>refcnt := r, live := b, slots := \<lambda>_. None\<rparr>) y = 0"
  by (simp add: slot_count_def)

lemma free_dec_eq:
  "x < length (objs w) \<Longrightarrow> free_obj x (dec_count x w) =
     upd_obj x (\<lambda>p. p\<lparr>refcnt := refcnt p - 1, live := False, slots := \<lambda>_. None\<rparr>) w"
  by (simp add: free_obj_def dec_count_def upd_obj_def)

lemma wf_free:
  assumes wf: "wf_refs (add_mset x fr) w" and one: "refcnt (objs w ! x) = 1"
    and closed: "initialized (hs w x) \<Longrightarrow> u_closed (uvh w x)"
  shows "wf_refs (mset (slot_refs (objs w ! x) (subtype_clear (kind (objs w ! x)))) + fr)
           (free_obj x (dec_count x w))"
proof -
  let ?p = "objs w ! x"
  let ?f = "\<lambda>p. p\<lparr>refcnt := refcnt p - 1, live := False, slots := \<lambda>_. None\<rparr>"
  let ?w = "upd_obj x ?f w"
  let ?ys = "slot_refs ?p (subtype_clear (kind ?p))"
  have x: "x < length (objs w)" using wf_valid_frame [OF wf, of x] by (simp add: valid_def)
  have "slots ?p s \<noteq> None \<Longrightarrow> s \<in> set (subtype_clear (kind ?p))" for s
    using wf x by (simp add: wf_refs_def slots_ok_def)
  then have ys: "count_list ?ys y = slot_count ?p y" for y
    by (intro count_slot_refs) simp_all
  have zero: "owned w x = 0" "count fr x = 0"
    using wf x one owned_nonneg [of w x] by (auto simp: wf_refs_def counts_ok_def split: if_splits)
  have "counts_ok (mset ?ys + fr) ?w"
    using wf x zero unfolding wf_refs_def counts_ok_def
    by (auto simp: owned_upd_obj upd_obj_nth ys count_mset split: if_splits)
  moreover have "live_ok ?w"
    using wf x one by (auto simp: wf_refs_def live_ok_def upd_obj_nth)
  moreover have "slots_ok ?w"
    using wf by (auto simp: wf_refs_def slots_ok_def upd_obj_nth split: if_splits)
  moreover have "handle_ok ?w h" for h
    using wf_handle_ok [OF wf, of h] closed x
    by (auto simp: handle_ok_def is_handle_def valid_def upd_obj_nth upd_obj_kind split: if_splits)
  moreover have "none_ok ?w"
    using wf by (simp add: wf_refs_def none_ok_upd_obj)
  ultimately show ?thesis by (simp add: wf_refs_def free_dec_eq [OF x])
qed

lemma dec_count_frame [simp]:
  "hs (dec_count x w) = hs w" "loops (dec_count x w) = loops w" "ext (dec_count x w) = ext w"
  "pend (dec_count x w) = pend w" "trace (dec_count x w) = trace w"
  "kind (objs (dec_count x w) ! y) = kind (objs w ! y)"
  "slots (objs (dec_count x w) ! y) = slots (objs w ! y)"
  "length (objs (dec_count x w)) = length (objs w)"
  by (simp_all add: dec_count_def upd_obj_kind)
    (cases "x < length (objs w)"; cases "x = y"; simp add: upd_obj_def list_update_beyond)

lemma uv_loop_close_frame [simp]:
  "hs (snd (uv_loop_close l w)) = hs w" "ext (snd (uv_loop_close l w)) = ext w"
  "pend (snd (uv_loop_close l w)) = pend w"
  by (simp_all add: uv_loop_close_def upd_Loop_def)

lemma resurrect_dec:
  assumes "x < length (objs w)" and "refcnt (objs w ! x) = 1"
  shows "objs (resurrect_object x (uv_close x cb (dec_count x w))) = objs w"
  using assms by (simp add: resurrect_object_def upd_obj_def dec_count_def list_update_same_conv)

lemma uv_quiet_ledger_eq:
  "uv_quiet a b \<Longrightarrow> uv_quiet a' b' \<Longrightarrow> hs a = hs a' \<Longrightarrow> ext a = ext a' \<Longrightarrow> pend a = pend a' \<Longrightarrow>
   objs b' = objs b \<Longrightarrow> same_ledger b b'"
  by (simp add: uv_quiet_def same_ledger_def)

lemma self_refs_le_owned: "int (self_refs w x) \<le> owned w x"
proof -
  have "0 \<le> (\<Sum>p\<leftarrow>objs w. int (slot_count p x))"
    by (rule sum_list_nonneg) auto
  then show ?thesis by (simp add: owned_def)
qed

lemma wf_tp_dealloc:
  assumes wf: "wf_refs (add_mset x fr) w" and one: "refcnt (objs w ! x) = 1"
    and d: "tp_dealloc x (dec_count x w) = (ys, w')"
  shows "wf_refs (mset ys + fr) w'"
proof -
  have v: "valid w x" using wf by (rule wf_valid_frame) simp
  have ok: "handle_ok w x" using wf by (rule wf_handle_ok)
  have zero: "owned w x = 0"
    using wf v one owned_nonneg [of w x]
    by (auto simp: wf_refs_def counts_ok_def valid_def split: if_splits)
  then have sr: "self_refs w x = 0"
    using self_refs_le_owned [of w x] by simp
  show ?thesis
  proof (cases "kind (objs w ! x)")
    case (KObject c)
    then have "\<not> initialized (hs w x)" using ok by (auto simp: handle_ok_def)
    with wf_free [OF wf one] KObject d show ?thesis
      by (simp add: tp_dealloc_def slot_refs_def map_filter_simps)
  next
    case KLoop
    then have "\<not> initialized (hs w x)" using ok by (auto simp: handle_ok_def)
    with wf_free [OF wf one]
    have f: "wf_refs (mset (slot_refs (objs w ! x) (subtype_clear KLoop)) + fr) (free_obj x (dec_count x w))"
      using KLoop by simp
    have "same_ledger (free_obj x (dec_count x w)) (free_obj x (snd (uv_loop_close x (dec_count x w))))"
      by (simp add: same_ledger_def free_obj_def upd_obj_def)
    from wf_same_ledger [OF this f] KLoop d f show ?thesis
      by (auto simp: tp_dealloc_def Loop_tp_dealloc_def Let_def slot_refs_def split: if_splits)
  next
    case (KHandle c)
    show ?thesis
    proof (cases "initialized (hs w x) \<and> \<not> uv_is_closing x w")
      case True
      let ?u = "uv_close x pyuv__handle_dealloc_close_cb"
      have "wf_refs fr (?u w)" by (rule wf_uv_close [OF wf]) (use True in auto)
      moreover have "same_ledger (?u w) (resurrect_object x (?u (dec_count x w)))"
        using resurrect_dec [OF valid_length [OF v] one, of pyuv__handle_dealloc_close_cb]
          uv_close_quiet [of x pyuv__handle_dealloc_close_cb w]
          uv_close_quiet [of x pyuv__handle_dealloc_close_cb "dec_count x w"]
        by (auto simp: same_ledger_def uv_quiet_def resurrect_object_def upd_uv_def)
      ultimately have "wf_refs fr (resurrect_object x (?u (dec_count x w)))"
        by (rule wf_same_ledger [rotated])
      with True d KHandle show ?thesis
        by (auto simp: tp_dealloc_def Handle_tp_dealloc_def uv_is_closing_def)
    next
      case False
      then have "initialized (hs w x) \<Longrightarrow> u_closed (uvh w x)"
        using sr by (auto simp: uv_is_closing_def self_refs_def split: if_splits)
      from wf_free [OF wf one this] False d KHandle show ?thesis
        by (auto simp: tp_dealloc_def Handle_tp_dealloc_def uv_is_closing_def slot_refs_def)
    qed
  qed
qed

theorem wf_release [ref_intros]:
  "wf_refs (mset xs + fr) w \<Longrightarrow> wf_refs fr (release xs w)"
proof (induction xs w rule: release.induct)
  case (1 w)
  then show ?case by simp
next
  case (2 x xs w)
  have v: "valid w x" using 2(4) by (rule wf_valid_frame) simp
  show ?case
  proof (cases "refcnt (objs w ! x) = 1")
    case True
    obtain ys w' where d: "tp_dealloc x (dec_count x w) = (ys, w')" by fastforce
    have "wf_refs (mset ys + (mset xs + fr)) w'"
      using wf_tp_dealloc [OF _ True d, of "mset xs + fr"] 2(4) by simp
    then show ?thesis
      using 2(3) [OF _ _ d [symmetric]] v True d by (simp add: release.simps ac_simps)
  next
    case False
    have "wf_refs (mset xs + fr) (dec_count x w)"
      using wf_dec_count [OF _ False, of "mset xs + fr"] 2(4) by simp
    then show ?thesis using 2(2) v False by (simp add: release.simps)
  qed
qed

lemma wf_DECREF [ref_intros]: "wf_refs (add_mset x fr) w \<Longrightarrow> wf_refs fr (Py_DECREF x w)"
  using wf_release [of "[x]" fr w] by simp

section \<open>What a deallocation leaves alone\<close>

text \<open>The descriptor of an open stream goes only when the stream is closed.\<close>

definition fd_follows :: "uv_handle \<Rightarrow> uv_handle \<Rightarrow> bool" where
  "fd_follows u u' \<longleftrightarrow> (0 \<le> u_fd u \<longrightarrow> u_fd u' = u_fd u \<or> - 1 \<le> u_fd u' \<and> u_closing u') \<and>
     (u_closing u \<and> - 1 \<le> u_fd u \<longrightarrow> - 1 \<le> u_fd u')"

lemma fd_follows_same [simp]: "u_fd u' = u_fd u \<Longrightarrow> fd_follows u u'"
  by (simp add: fd_follows_def)

lemma fd_follows_quiet: "u_fd u' = u_fd u \<or> u_fd u' = - 1 \<and> u_closing u' \<Longrightarrow> fd_follows u u'"
  by (auto simp: fd_follows_def)

lemma fd_follows_trans: "fd_follows a b \<Longrightarrow> fd_follows b c \<Longrightarrow> (u_closing b \<Longrightarrow> u_closing c) \<Longrightarrow>
    (u_closing a \<Longrightarrow> u_closing b) \<Longrightarrow> fd_follows a c"
  by (auto simp: fd_follows_def)

text \<open>
  Only an event of the loop takes a connection in, and only the processing of sends sets or clears
  \<open>UV_UDP_PROCESSING\<close>.
\<close>

definition follows :: "uv_handle \<Rightarrow> uv_handle \<Rightarrow> bool" where
  "follows u u' \<longleftrightarrow> fd_follows u u' \<and> (u_accepted u = None \<longrightarrow> u_accepted u' = None) \<and>
     u_processing u' = u_processing u"

lemma follows_same [simp]: "u_fd u' = u_fd u \<Longrightarrow> u_accepted u' = u_accepted u \<Longrightarrow> u_processing u' = u_processing u \<Longrightarrow>
    follows u u'"
  by (simp add: follows_def)

lemma follows_quiet: "u_fd u' = u_fd u \<or> u_fd u' = - 1 \<and> u_closing u' \<Longrightarrow>
    u_accepted u' = u_accepted u \<or> u_accepted u' = None \<Longrightarrow> u_processing u' = u_processing u \<Longrightarrow> follows u u'"
  by (auto simp: follows_def intro: fd_follows_quiet)

lemma follows_trans: "follows a b \<Longrightarrow> follows b c \<Longrightarrow> (u_closing b \<Longrightarrow> u_closing c) \<Longrightarrow>
    (u_closing a \<Longrightarrow> u_closing b) \<Longrightarrow> follows a c"
  using fd_follows_trans by (auto simp: follows_def)

text \<open>
  Whatever is released, the program's references, the requests in flight and the trace stay,
  no object changes its type, and a handle changes only by being closed.
\<close>

definition kept :: "world \<Rightarrow> world \<Rightarrow> bool" where
  "kept w w' \<longleftrightarrow> ext w' = ext w \<and> pend w' = pend w \<and> trace w' = trace w \<and>
     length (objs w') = length (objs w) \<and> (\<forall>x. kind (objs w' ! x) = kind (objs w ! x)) \<and>
     (\<forall>h. initialized (hs w' h) = initialized (hs w h) \<and> pyref (hs w' h) = pyref (hs w h) \<and>
          u_closed (uvh w' h) = u_closed (uvh w h) \<and> u_loop (uvh w' h) = u_loop (uvh w h) \<and>
          u_type (uvh w' h) = u_type (uvh w h) \<and>
          u_caught (uvh w' h) = u_caught (uvh w h) \<and> u_dispatched (uvh w' h) = u_dispatched (uvh w h) \<and>
          (u_closing (uvh w h) \<longrightarrow> u_closing (uvh w' h)) \<and> follows (uvh w h) (uvh w' h)) \<and>
     (\<forall>l. same_local (uvl w l) (uvl w' l))"

lemma kept_refl [simp]: "kept w w"
  by (simp add: kept_def)

lemma kept_trans: "kept a b \<Longrightarrow> kept b c \<Longrightarrow> kept a c"
  using follows_trans same_local_trans by (simp add: kept_def) metis

lemma kept_quiet: "uv_quiet w w' \<Longrightarrow> kept w w'"
  by (auto simp: kept_def uv_quiet_def intro: follows_quiet)

lemma kept_uv_close: "kept w (uv_close h cb w)"
  by (rule kept_trans [OF _ kept_quiet [OF uv_close_quiet]]) (simp add: kept_def upd_uv_def)

lemma kept_upd_obj: "(\<And>p. kind (f p) = kind p) \<Longrightarrow> kept w (upd_obj x f w)"
  by (simp add: kept_def upd_obj_kind)

lemma kept_free_obj: "kept w (free_obj x w)"
  unfolding free_obj_def by (rule kept_upd_obj) simp

lemma kept_dec_count: "kept w (dec_count x w)"
  unfolding dec_count_def by (rule kept_upd_obj) simp

lemma kept_uv_loop_close: "kept w (snd (uv_loop_close l w))"
  by (simp add: kept_def uv_loop_close_def upd_Loop_def)

lemma kept_tp_dealloc: "tp_dealloc x w = (ys, w') \<Longrightarrow> kept w w'"
  by (auto simp: tp_dealloc_def Loop_tp_dealloc_def Handle_tp_dealloc_def Let_def
      resurrect_object_def split: kind.splits if_splits
      intro: kept_free_obj kept_trans [OF kept_uv_loop_close kept_free_obj]
        kept_trans [OF kept_uv_close kept_upd_obj])

lemma kept_release: "kept w (release xs w)"
proof (induction xs w rule: release.induct)
  case (1 w)
  then show ?case by simp
next
  case (2 x xs w)
  obtain ys w' where d: "tp_dealloc x (dec_count x w) = (ys, w')" by fastforce
  have dec: "kept w (dec_count x w)" by (rule kept_dec_count)
  have del: "kept w w'" by (rule kept_trans [OF dec kept_tp_dealloc [OF d]])
  consider "\<not> valid w x" | "valid w x" "refcnt (objs w ! x) \<noteq> 1"
    | "valid w x" "refcnt (objs w ! x) = 1" by blast
  then show ?case
  proof cases
    case 1
    with 2(1) show ?thesis by (simp add: release.simps(2))
  next
    case 2
    with \<open>\<lbrakk>\<not> \<not> valid w x; refcnt (objs w ! x) \<noteq> 1\<rbrakk> \<Longrightarrow> kept (dec_count x w) (release xs (dec_count x w))\<close>
    have "kept (dec_count x w) (release xs (dec_count x w))" by simp
    from kept_trans [OF dec this] 2 show ?thesis by (simp add: release.simps(2))
  next
    case 3
    with 2(3) [OF _ _ d [symmetric]] have "kept w' (release (ys @ xs) w')" by simp
    from kept_trans [OF del this] 3 d show ?thesis by (simp add: release.simps(2))
  qed
qed

text \<open>An object that somebody outside the released references holds is not touched at all.\<close>

lemma tp_dealloc_other:
  assumes "tp_dealloc x w = (ys, w')" and "y \<noteq> x"
  shows "hs w' y = hs w y" and "slots (objs w' ! y) = slots (objs w ! y)"
    and "live (objs w' ! y) = live (objs w ! y)"
  using assms
  by (auto simp: tp_dealloc_def Loop_tp_dealloc_def Handle_tp_dealloc_def Let_def free_obj_def
      resurrect_object_def hs_uv_close_other upd_obj_def split: kind.splits if_splits)

lemma release_held:
  assumes "wf_refs (mset xs + fr) w" and "y \<in># fr \<or> 0 < ext w y"
  shows "hs (release xs w) y = hs w y \<and> slots (objs (release xs w) ! y) = slots (objs w ! y)"
  using assms
proof (induction xs w rule: release.induct)
  case (1 w)
  then show ?case by simp
next
  case (2 x xs w)
  have v: "valid w x" using 2(4) by (rule wf_valid_frame) simp
  show ?case
  proof (cases "refcnt (objs w ! x) = 1")
    case True
    obtain ys w' where d: "tp_dealloc x (dec_count x w) = (ys, w')" by fastforce
    have wf': "wf_refs (mset (ys @ xs) + fr) w'"
      using wf_tp_dealloc [OF _ True d, of "mset xs + fr"] 2(4) by (simp add: ac_simps)
    have "0 \<le> owned w x" "0 < ext w x \<Longrightarrow> 0 < owned w x"
      by (simp_all add: owned_nonneg owned_ext_pos)
    moreover have "owned w x + int (count (mset xs + fr) x) = 0"
      using 2(4) v True by (auto simp: wf_refs_def counts_ok_def valid_def split: if_splits)
    ultimately have "x \<notin># fr \<and> ext w x = 0"
      by (auto simp: count_eq_zero_iff [symmetric] simp del: count_eq_zero_iff)
    then have ne: "y \<noteq> x" using 2(5) by auto
    have "ext w' = ext w" using kept_tp_dealloc [OF d] by (simp add: kept_def)
    then show ?thesis
      using 2(3) [OF _ _ d [symmetric] wf'] v True d 2(5) tp_dealloc_other [OF d ne]
      by (simp add: release.simps(2))
  next
    case False
    have "wf_refs (mset xs + fr) (dec_count x w)"
      using wf_dec_count [OF _ False, of "mset xs + fr"] 2(4) by simp
    then show ?thesis using 2(2) 2(5) v False by (simp add: release.simps(2))
  qed
qed

end
