(* ===== verification/Ref_Rules.thy ===== *)
theory Ref_Rules
  imports Ref_Ledger
begin

text \<open>
  The object operations the C functions are written in, each with its ownership rule:
  allocation (\<open>PyType_GenericNew\<close>), assignment to a field, \<open>Py_CLEAR\<close>, the macros
  \<open>PYUV_HANDLE_INCREF\<close> and \<open>PYUV_HANDLE_DECREF\<close> of pyuv.h, the references of the Python
  program, and the request contexts.
\<close>

abbreviation mset_opt :: "oid option \<Rightarrow> oid multiset" where
  "mset_opt v \<equiv> (case v of None \<Rightarrow> {#} | Some y \<Rightarrow> {#y#})"

section \<open>Fields\<close>

definition put_slot :: "oid \<Rightarrow> slot \<Rightarrow> oid option \<Rightarrow> world \<Rightarrow> world" where
  "put_slot x s v w = upd_obj x (\<lambda>p. p\<lparr>slots := (slots p)(s := v)\<rparr>) w"

text \<open>\<open>tmp = x->s; Py_INCREF(v); x->s = v; Py_XDECREF(tmp);\<close>\<close>

definition assign_slot :: "oid \<Rightarrow> slot \<Rightarrow> oid \<Rightarrow> world \<Rightarrow> world" where
  "assign_slot x s v w =
     (let tmp = slot_of w x s in Py_XDECREF tmp (put_slot x s (Some v) (Py_INCREF v w)))"

text \<open>\<open>Py_XDECREF(x->s); x->s = NULL;\<close>, which is also \<open>Py_CLEAR(x->s)\<close>.\<close>

definition clear_slot :: "oid \<Rightarrow> slot \<Rightarrow> world \<Rightarrow> world" where
  "clear_slot x s w = (let tmp = slot_of w x s in Py_XDECREF tmp (put_slot x s None w))"

lemma filter_eq_count: "distinct ss \<Longrightarrow> length (filter (\<lambda>t. t = s \<and> P) ss) = of_bool (s \<in> set ss \<and> P)"
  by (induction ss) auto

lemma slot_count_put:
  "int (slot_count (p\<lparr>slots := (slots p)(s := v)\<rparr>) y) =
     int (slot_count p y) - of_bool (slots p s = Some y) + of_bool (v = Some y)"
proof -
  have "(\<lambda>t. slots (p\<lparr>slots := (slots p)(s := v)\<rparr>) t = Some y) = (\<lambda>t. slots p t = Some y)(s := (v = Some y))"
    by auto
  then show ?thesis
    using length_filter_fun_upd [of all_slots s "\<lambda>t. slots p t = Some y" "v = Some y"]
    by (simp add: slot_count_def)
qed

lemma handle_ok_slots:
  assumes ok: "handle_ok w h"
    and f: "hs w' = hs w" "\<And>y. kind (objs w' ! y) = kind (objs w ! y)"
      "\<And>y. live (objs w' ! y) = live (objs w ! y)" "length (objs w') = length (objs w)"
      "pend w' = pend w"
    and l: "initialized (hs w h) \<Longrightarrow> \<not> u_closed (uvh w h) \<Longrightarrow> slot_of w' h S_loop = slot_of w h S_loop"
    and c: "u_closing (uvh w h) \<Longrightarrow> \<not> u_closed (uvh w h) \<Longrightarrow> slot_of w h S_on_close_cb \<noteq> None \<Longrightarrow>
      slot_of w' h S_on_close_cb \<noteq> None"
  shows "handle_ok w' h"
proof -
  have i: "is_handle w' h = is_handle w h" "has_req t h w' = has_req t h w" for t
    by (simp_all add: is_handle_def valid_def has_req_def f)
  from ok show ?thesis
    unfolding handle_ok_def i f using l c by (intro conjI) (clarsimp; fail | blast)+
qed

lemma wf_put_slot:
  assumes wf: "wf_refs (mset_opt v + fr) w" and x: "x < length (objs w)"
    and s: "s \<in> set (subtype_clear (kind (objs w ! x)))"
    and l: "s = S_loop \<Longrightarrow> initialized (hs w x) \<Longrightarrow> u_closed (uvh w x)"
    and c: "s = S_on_close_cb \<Longrightarrow> v \<noteq> None \<or> \<not> u_closing (uvh w x) \<or> u_closed (uvh w x)"
  shows "wf_refs (mset_opt (slot_of w x s) + fr) (put_slot x s v w)"
proof -
  let ?w = "put_slot x s v w"
  have n: "objs ?w ! y = (if x = y then (objs w ! y)\<lparr>slots := (slots (objs w ! y))(s := v)\<rparr> else objs w ! y)"
    if "y < length (objs w)" for y
    using that by (simp add: put_slot_def upd_obj_nth)
  have o: "owned ?w y = owned w y - of_bool (slot_of w x s = Some y) + of_bool (v = Some y)" for y
    using x by (simp add: put_slot_def owned_upd_obj slot_count_put)
  have m: "int (count (mset_opt u) y) = of_bool (u = Some y)" for u and y :: oid
    by (cases u) auto
  have "owned ?w y + int (count (mset_opt (slot_of w x s) + fr) y) =
      owned w y + int (count (mset_opt v + fr) y)" for y
    by (simp only: o count_union of_nat_add m)
  moreover have "refcnt (objs ?w ! y) = refcnt (objs w ! y)" if "y < length (objs w)" for y
    using n [OF that] by simp
  moreover have "length (objs ?w) = length (objs w)"
    by (simp add: put_slot_def)
  ultimately have "counts_ok (mset_opt (slot_of w x s) + fr) ?w"
    using wf by (simp only: wf_refs_def counts_ok_def) (metis (no_types, lifting))
  moreover have "live_ok ?w"
    using wf by (auto simp: wf_refs_def live_ok_def put_slot_def upd_obj_nth)
  moreover have "slots_ok ?w"
    using wf s by (auto simp: wf_refs_def slots_ok_def put_slot_def upd_obj_nth split: if_splits)
  moreover have "handle_ok ?w h" for h
  proof -
    have f: "hs ?w = hs w" "kind (objs ?w ! y) = kind (objs w ! y)"
      "live (objs ?w ! y) = live (objs w ! y)" "length (objs ?w) = length (objs w)"
      "pend ?w = pend w" for y
      by (simp_all add: put_slot_def upd_obj_kind)
        (cases "x = y"; use x in \<open>auto simp: upd_obj_def\<close>)
    have g: "slots (objs ?w ! y) = (if y = x then (slots (objs w ! x))(s := v) else slots (objs w ! y))" for y
      using x by (simp add: put_slot_def upd_obj_def)
    show ?thesis
      by (rule handle_ok_slots [OF wf_handle_ok [OF wf, of h] f]) (use l c in \<open>auto simp: g\<close>)
  qed
  moreover have "none_ok ?w"
    using wf by (simp add: wf_refs_def put_slot_def none_ok_upd_obj)
  ultimately show ?thesis by (simp add: wf_refs_def)
qed

lemma wf_XDECREF [ref_intros]:
  "wf_refs (mset_opt v + fr) w \<Longrightarrow> wf_refs fr (Py_XDECREF v w)"
  by (cases v) (auto simp: Py_XDECREF_def intro: wf_DECREF)

lemma put_slot_frame [simp]:
  "hs (put_slot x s v w) = hs w" "ext (put_slot x s v w) = ext w" "pend (put_slot x s v w) = pend w"
  "trace (put_slot x s v w) = trace w" "loops (put_slot x s v w) = loops w"
  "length (objs (put_slot x s v w)) = length (objs w)"
  "kind (objs (put_slot x s v w) ! y) = kind (objs w ! y)"
  by (simp_all add: put_slot_def upd_obj_kind)

lemma INCREF_frame [simp]:
  "hs (Py_INCREF x w) = hs w" "ext (Py_INCREF x w) = ext w" "pend (Py_INCREF x w) = pend w"
  "trace (Py_INCREF x w) = trace w" "loops (Py_INCREF x w) = loops w"
  "length (objs (Py_INCREF x w)) = length (objs w)"
  "kind (objs (Py_INCREF x w) ! y) = kind (objs w ! y)"
  "slots (objs (Py_INCREF x w) ! y) = slots (objs w ! y)"
  "live (objs (Py_INCREF x w) ! y) = live (objs w ! y)"
proof -
  show "slots (objs (Py_INCREF x w) ! y) = slots (objs w ! y)"
    "live (objs (Py_INCREF x w) ! y) = live (objs w ! y)"
    by (cases "x < length (objs w)"; cases "x = y";
        simp add: Py_INCREF_def upd_obj_def list_update_beyond)+
qed (simp_all add: Py_INCREF_def upd_obj_kind)

lemma valid_INCREF [simp]: "valid (Py_INCREF x w) y = valid w y"
  by (simp add: valid_def)

text \<open>The rules of the two composed operations.\<close>

lemma wf_assign_slot [ref_intros]:
  assumes "wf_refs fr w" and "valid w v" and "x < length (objs w)"
    and "s \<in> set (subtype_clear (kind (objs w ! x)))" and "s \<noteq> S_loop"
  shows "wf_refs fr (assign_slot x s v w)"
proof -
  have "wf_refs (mset_opt (Some v) + fr) (Py_INCREF v w)"
    using wf_INCREF [OF assms(1,2)] by simp
  from wf_put_slot [OF this, of x s] assms
  have "wf_refs (mset_opt (slot_of w x s) + fr) (put_slot x s (Some v) (Py_INCREF v w))" by simp
  then show ?thesis by (simp add: assign_slot_def Let_def wf_XDECREF)
qed

lemma wf_clear_slot [ref_intros]:
  assumes "wf_refs fr w" and "x < length (objs w)"
    and "s \<in> set (subtype_clear (kind (objs w ! x)))"
    and "s = S_loop \<Longrightarrow> initialized (hs w x) \<Longrightarrow> u_closed (uvh w x)"
    and "s = S_on_close_cb \<Longrightarrow> \<not> u_closing (uvh w x) \<or> u_closed (uvh w x)"
  shows "wf_refs fr (clear_slot x s w)"
proof -
  have "wf_refs (mset_opt (slot_of w x s) + fr) (put_slot x s None w)"
    using wf_put_slot [of None fr w x s] assms by simp
  then show ?thesis by (simp add: clear_slot_def Let_def wf_XDECREF)
qed

section \<open>The handle reference\<close>

definition PYUV_HANDLE_INCREF :: "oid \<Rightarrow> world \<Rightarrow> world" where
  "PYUV_HANDLE_INCREF h w =
     (if \<not> pyref (hs w h) then Py_INCREF h (upd_handle h (\<lambda>x. x\<lparr>pyref := True\<rparr>) w) else w)"

definition PYUV_HANDLE_DECREF :: "oid \<Rightarrow> world \<Rightarrow> world" where
  "PYUV_HANDLE_DECREF h w =
     (if pyref (hs w h) then Py_DECREF h (upd_handle h (\<lambda>x. x\<lparr>pyref := False\<rparr>) w) else w)"

lemma wf_HANDLE_INCREF [ref_intros]:
  assumes "wf_refs fr w" and "valid w h" and "initialized (hs w h)"
  shows "wf_refs fr (PYUV_HANDLE_INCREF h w)"
proof (cases "pyref (hs w h)")
  case True
  then show ?thesis using assms by (simp add: PYUV_HANDLE_INCREF_def)
next
  case False
  have "wf_refs fr (upd_handle h (\<lambda>x. x\<lparr>pyref := True\<rparr>) (Py_INCREF h w))"
    using wf_set_pyref [OF wf_INCREF [OF assms(1,2)]] assms(3) False by simp
  moreover have "upd_handle h (\<lambda>x. x\<lparr>pyref := True\<rparr>) (Py_INCREF h w) =
      Py_INCREF h (upd_handle h (\<lambda>x. x\<lparr>pyref := True\<rparr>) w)"
    by (simp add: upd_handle_def Py_INCREF_def upd_obj_def)
  ultimately show ?thesis using False by (simp add: PYUV_HANDLE_INCREF_def)
qed

lemma wf_HANDLE_DECREF [ref_intros]:
  "wf_refs fr w \<Longrightarrow> wf_refs fr (PYUV_HANDLE_DECREF h w)"
  by (auto simp: PYUV_HANDLE_DECREF_def intro: wf_DECREF wf_clear_pyref)

section \<open>The program's references\<close>

definition ext_take :: "oid \<Rightarrow> world \<Rightarrow> world" where
  "ext_take x w = w\<lparr>ext := (ext w)(x := ext w x + 1)\<rparr>"

definition ext_give :: "oid \<Rightarrow> world \<Rightarrow> world" where
  "ext_give x w = w\<lparr>ext := (ext w)(x := ext w x - 1)\<rparr>"

lemma ext_frame [simp]:
  "objs (ext_take x w) = objs w" "hs (ext_take x w) = hs w" "loops (ext_take x w) = loops w"
  "pend (ext_take x w) = pend w" "trace (ext_take x w) = trace w"
  "objs (ext_give x w) = objs w" "hs (ext_give x w) = hs w" "loops (ext_give x w) = loops w"
  "pend (ext_give x w) = pend w" "trace (ext_give x w) = trace w"
  by (simp_all add: ext_take_def ext_give_def)

lemma wf_ext_take [ref_intros]: "wf_refs (add_mset x fr) w \<Longrightarrow> wf_refs fr (ext_take x w)"
proof -
  assume wf: "wf_refs (add_mset x fr) w"
  have o: "owned (ext_take x w) y = owned w y + of_bool (y = x)" for y
    by (simp add: owned_def ext_take_def self_refs_def req_refs_def)
  have h: "handle_ok (ext_take x w) y = handle_ok w y" for y
    by (simp add: handle_ok_def is_handle_def valid_def has_req_def)
  show ?thesis
    using wf unfolding wf_refs_def counts_ok_def o h
    by (auto simp: live_ok_def slots_ok_def none_ok_def ext_take_def split: if_splits)
qed

lemma wf_ext_give [ref_intros]:
  assumes wf: "wf_refs fr w" and "0 < ext w x" and "x = Py_None \<Longrightarrow> 1 < ext w x"
  shows "wf_refs (add_mset x fr) (ext_give x w)"
proof -
  have o: "owned (ext_give x w) y = owned w y - of_bool (y = x)" for y
    using assms(2) by (auto simp: owned_def ext_give_def self_refs_def req_refs_def of_nat_diff)
  have h: "handle_ok (ext_give x w) y = handle_ok w y" for y
    by (simp add: handle_ok_def is_handle_def valid_def has_req_def)
  show ?thesis
    using assms unfolding wf_refs_def counts_ok_def o h
    by (auto simp: live_ok_def slots_ok_def none_ok_def ext_give_def split: if_splits)
qed

section \<open>Allocation\<close>

text \<open>\<open>PyType_GenericNew\<close>: a zeroed object with one reference, which the caller owns.\<close>

definition new_obj :: "kind \<Rightarrow> pyobj" where
  "new_obj k = \<lparr>refcnt = 1, live = True, kind = k, slots = (\<lambda>_. None)\<rparr>"

definition PyType_GenericNew :: "kind \<Rightarrow> world \<Rightarrow> oid \<times> world" where
  "PyType_GenericNew k w =
     (length (objs w),
      w\<lparr>objs := objs w @ [new_obj k], hs := (hs w)(length (objs w) := handle_zero)\<rparr>)"

lemma slot_count_new [simp]: "slot_count (new_obj k) y = 0"
  by (simp add: slot_count_def new_obj_def)

lemma wf_GenericNew:
  assumes wf: "wf_refs fr w"
  shows "wf_refs (add_mset (fst (PyType_GenericNew k w)) fr) (snd (PyType_GenericNew k w))"
proof -
  let ?n = "length (objs w)"
  let ?w = "snd (PyType_GenericNew k w)"
  have out: "owned w y + int (count fr y) = 0" if "?n \<le> y" for y
    using wf that by (auto simp: wf_refs_def counts_ok_def)
  have zero: "owned w ?n = 0" "count fr ?n = 0"
    using out [of ?n] owned_nonneg [of w ?n] by linarith+
  then have sr: "self_refs w ?n = 0" using self_refs_le_owned [of w ?n] by simp
  have o: "owned ?w y = owned w y" for y
    using sr by (auto simp: owned_def PyType_GenericNew_def self_refs_def req_refs_def
        handle_zero_def uv_zero_def)
  have "counts_ok (add_mset ?n fr) ?w"
    using wf zero out unfolding wf_refs_def counts_ok_def o
    by (auto simp: PyType_GenericNew_def nth_append new_obj_def split: if_splits)
  moreover have "live_ok ?w" "slots_ok ?w"
    using wf by (auto simp: wf_refs_def live_ok_def slots_ok_def PyType_GenericNew_def nth_append
        new_obj_def less_Suc_eq)
  moreover have "handle_ok ?w h" for h
    using wf_handle_ok [OF wf, of h]
    by (cases "h = ?n") (auto simp: handle_ok_def is_handle_def valid_def PyType_GenericNew_def
        nth_append handle_zero_def uv_zero_def less_Suc_eq)
  moreover have "none_ok ?w"
    using wf by (auto simp: wf_refs_def none_ok_def PyType_GenericNew_def nth_append)
  ultimately show ?thesis by (simp add: wf_refs_def PyType_GenericNew_def)
qed

section \<open>Request contexts\<close>

definition add_req :: "request_ctx \<Rightarrow> world \<Rightarrow> world" where
  "add_req r w = w\<lparr>pend := pend w @ [r]\<rparr>"

definition remove_req :: "request_ctx \<Rightarrow> world \<Rightarrow> world" where
  "remove_req r w = w\<lparr>pend := remove1 r (pend w)\<rparr>"

lemma req_frame [simp]:
  "objs (add_req r w) = objs w" "hs (add_req r w) = hs w" "loops (add_req r w) = loops w"
  "ext (add_req r w) = ext w" "trace (add_req r w) = trace w"
  "objs (remove_req r w) = objs w" "hs (remove_req r w) = hs w" "loops (remove_req r w) = loops w"
  "ext (remove_req r w) = ext w" "trace (remove_req r w) = trace w"
  by (simp_all add: add_req_def remove_req_def)

lemma wf_req_change:
  assumes wf: "wf_refs fr w" and f: "objs w' = objs w" "hs w' = hs w" "ext w' = ext w"
    and c: "\<And>y. int (req_refs w' y) + int (count fr' y) = int (req_refs w y) + int (count fr y)"
    and p: "\<And>r. r \<in> set (pend w') \<Longrightarrow> r \<in> set (pend w) \<or>
      initialized (hs w (rq_obj r)) \<and> req_fits r (u_type (uvh w (rq_obj r)))"
    and n: "\<And>y. u_shutting (uvh w y) \<Longrightarrow> has_req ShutdownReq y w \<Longrightarrow> has_req ShutdownReq y w'"
      "\<And>y. u_connect (uvh w y) \<Longrightarrow> has_req ConnectReq y w \<Longrightarrow> has_req ConnectReq y w'"
  shows "wf_refs fr' w'"
proof -
  have o: "owned w' y + int (count fr' y) = owned w y + int (count fr y)" for y
    using c [of y] f by (simp add: owned_def self_refs_def)
  have h: "handle_ok w' y" for y
    using wf_handle_ok [OF wf, of y] f p n [of y] unfolding handle_ok_def is_handle_def valid_def by auto
  have "All (handle_ok w')" using h by blast
  then show ?thesis
    using wf f unfolding wf_refs_def counts_ok_def o
    by (simp add: live_ok_def slots_ok_def none_ok_def)
qed

lemma wf_add_req [ref_intros]:
  assumes "wf_refs (mset (rq_refs r) + fr) w" and "initialized (hs w (rq_obj r))"
    and "req_fits r (u_type (uvh w (rq_obj r)))"
  shows "wf_refs fr (add_req r w)"
  by (rule wf_req_change [OF assms(1)])
    (use assms(2,3) in \<open>auto simp: req_refs_def add_req_def count_mset has_req_def\<close>)

lemma count_concat_remove1:
  "r \<in> set rs \<Longrightarrow> count_list (concat (map f rs)) y = count_list (f r) y + count_list (concat (map f (remove1 r rs))) y"
  by (induction rs) auto

text \<open>The stream still has a pointer to the request: \<open>shutdown_req\<close> or \<open>connect_req\<close>.\<close>

definition pointed :: "request_ctx \<Rightarrow> world \<Rightarrow> bool" where
  "pointed r w \<longleftrightarrow> rq_type r = ShutdownReq \<and> u_shutting (uvh w (rq_obj r)) \<or>
     rq_type r = ConnectReq \<and> u_connect (uvh w (rq_obj r))"

lemma has_req_remove:
  "has_req t y w \<Longrightarrow> rq_type r \<noteq> t \<or> rq_obj r \<noteq> y \<Longrightarrow> has_req t y (remove_req r w)"
proof -
  assume "has_req t y w" and n: "rq_type r \<noteq> t \<or> rq_obj r \<noteq> y"
  then obtain q where q: "q \<in> set (pend w)" "rq_type q = t" "rq_obj q = y" by (auto simp: has_req_def)
  with n have "q \<noteq> r" by auto
  with q(1) have "q \<in> set (remove1 r (pend w))" by simp
  with q show ?thesis by (auto simp: has_req_def remove_req_def)
qed

lemma wf_remove_req:
  assumes "wf_refs fr w" and "r \<in> set (pend w)" and "\<not> pointed r w"
  shows "wf_refs (mset (rq_refs r) + fr) (remove_req r w)"
proof (rule wf_req_change [OF assms(1)])
  show "has_req ShutdownReq y (remove_req r w)" if "u_shutting (uvh w y)" "has_req ShutdownReq y w" for y
    using that assms(3) by (intro has_req_remove) (auto simp: pointed_def)
  show "has_req ConnectReq y (remove_req r w)" if "u_connect (uvh w y)" "has_req ConnectReq y w" for y
    using that assms(3) by (intro has_req_remove) (auto simp: pointed_def)
qed (use notin_set_remove1 in \<open>fastforce simp: req_refs_def remove_req_def count_mset
      count_concat_remove1 [OF assms(2), of rq_refs]\<close>)+

text \<open>A pointer to a request is cleared, or set for a request that is there.\<close>

lemma wf_req_pointers:
  assumes wf: "wf_refs fr w"
    and f: "\<And>u. u_loop (f u) = u_loop u" "\<And>u. u_type (f u) = u_type u" "\<And>u. u_closing (f u) = u_closing u"
      "\<And>u. u_closed (f u) = u_closed u" "\<And>u. u_close_cb (f u) = u_close_cb u"
    and p: "u_shutting (f (uvh w h)) \<Longrightarrow> u_shutting (uvh w h) \<or> has_req ShutdownReq h w"
      "u_connect (f (uvh w h)) \<Longrightarrow> u_connect (uvh w h) \<or> has_req ConnectReq h w"
  shows "wf_refs fr (upd_uv h f w)"
  unfolding upd_uv_def
proof (rule wf_hs_upd [OF wf])
  show "handle_ok (w\<lparr>hs := (hs w)(h := (hs w h)\<lparr>uv := f (uvh w h)\<rparr>)\<rparr>) h"
    using wf_handle_ok [OF wf, of h] f p
    by (simp add: handle_ok_def is_handle_def valid_def) blast
qed (simp add: self_refs_def f)

text \<open>A request in flight is about an initialised handle of the right class.\<close>

lemma wf_req:
  assumes "wf_refs fr w" and "r \<in> set (pend w)"
  shows "initialized (hs w (rq_obj r))" "req_fits r (u_type (uvh w (rq_obj r)))"
  using wf_handle_ok [OF assms(1), of "rq_obj r"] assms(2) by (auto simp: handle_ok_def)

end
