(* ===== verification/Libuv_Inv.thy ===== *)
theory Libuv_Inv
  imports Libuv_Core
begin

text \<open>
  The invariant of the libuv loops. For every loop: the handle queue holds exactly the
  handles of the loop that are not closed; the queue or heap of a watcher type holds exactly
  its active handles; the closing list holds exactly the handles whose close callback is
  due; the active counter is the number of handles that are active and referenced. Each
  primitive of \<open>Libuv_Core\<close> keeps it.
\<close>

text \<open>The queue of a handle type, for the types that have one.\<close>

primrec type_queue :: "uv_handle_type \<Rightarrow> uv_loop \<Rightarrow> oid list option" where
  "type_queue UV_TIMER l = Some (timer_heap l)"
| "type_queue UV_IDLE l = Some (idle_handles l @ moved l UV_IDLE)"
| "type_queue UV_PREPARE l = Some (prepare_handles l @ moved l UV_PREPARE)"
| "type_queue UV_CHECK l = Some (check_handles l @ moved l UV_CHECK)"
| "type_queue UV_ASYNC l = Some (async_handles l)"
| "type_queue UV_SIGNAL l = None"
| "type_queue UV_POLL l = None"
| "type_queue UV_TCP l = None"
| "type_queue UV_NAMED_PIPE l = None"
| "type_queue UV_TTY l = None"
| "type_queue UV_UDP l = None"
| "type_queue UV_PROCESS l = None"
| "type_queue UV_FS_EVENT l = None"
| "type_queue UV_FS_POLL l = None"

text \<open>The handles whose close is due: those in the list, and those \<open>uv__run_closing_handles\<close> has taken over.\<close>

definition all_closing :: "uv_loop \<Rightarrow> oid list" where
  "all_closing l = closing_handles l @ finishing l"

lemma all_closing_frame [simp]:
  "all_closing (l\<lparr>active_handles := n\<rparr>) = all_closing l"
  "all_closing (l\<lparr>timer_heap := q\<rparr>) = all_closing l"
  "all_closing (l\<lparr>timer_counter := m\<rparr>) = all_closing l"
  "all_closing (l\<lparr>handle_queue := q\<rparr>) = all_closing l"
  "all_closing (l\<lparr>async_handles := q\<rparr>) = all_closing l"
  "all_closing (idle_handles_update f l) = all_closing l"
  "all_closing (prepare_handles_update f l) = all_closing l"
  "all_closing (check_handles_update f l) = all_closing l"
  "all_closing (moved_update g l) = all_closing l"
  "all_closing (active_reqs_update g' l) = all_closing l"
  "all_closing (l\<lparr>closing_handles := h # closing_handles l\<rparr>) = h # all_closing l"
  by (simp_all add: all_closing_def)

definition close_due :: "uv_handle \<Rightarrow> bool" where
  "close_due u \<longleftrightarrow> u_closing u \<and> \<not> u_closed u \<and>
     (u_type u = Some UV_SIGNAL \<longrightarrow> u_caught u = u_dispatched u)"

definition counted :: "uv_handle \<Rightarrow> bool" where
  "counted u \<longleftrightarrow> u_active u \<and> u_ref u"

definition loop_ok :: "world \<Rightarrow> oid \<Rightarrow> bool" where
  "loop_ok w l \<longleftrightarrow>
     distinct (handle_queue (uvl w l)) \<and>
     (\<forall>h. h \<in> set (handle_queue (uvl w l)) \<longleftrightarrow> u_loop (uvh w h) = Some l \<and> \<not> u_closed (uvh w h)) \<and>
     (\<forall>t q. type_queue t (uvl w l) = Some q \<longrightarrow> distinct q \<and>
        (\<forall>h. h \<in> set q \<longleftrightarrow> u_loop (uvh w h) = Some l \<and> u_type (uvh w h) = Some t \<and> u_active (uvh w h))) \<and>
     distinct (all_closing (uvl w l)) \<and>
     (\<forall>h. h \<in> set (all_closing (uvl w l)) \<longleftrightarrow> u_loop (uvh w h) = Some l \<and> close_due (uvh w h)) \<and>
     active_handles (uvl w l) = int (length (filter (\<lambda>h. counted (uvh w h)) (handle_queue (uvl w l))))"

definition uh_ok :: "uv_handle \<Rightarrow> bool" where
  "uh_ok u \<longleftrightarrow> (u_closing u \<longrightarrow> \<not> u_active u) \<and> (u_closed u \<longrightarrow> u_closing u) \<and>
     (u_loop u = None \<longrightarrow> \<not> u_active u \<and> \<not> u_closing u) \<and>
     (u_type u = Some UV_SIGNAL \<longrightarrow> (u_active u \<longleftrightarrow> u_signum u \<noteq> 0)) \<and>
     (u_type u = Some UV_SIGNAL \<and> u_closed u \<longrightarrow> u_caught u = u_dispatched u)"

definition uv_inv :: "world \<Rightarrow> bool" where
  "uv_inv w \<longleftrightarrow> (\<forall>l. loop_ok w l) \<and> (\<forall>h. uh_ok (uvh w h))"

text \<open>
  A step on one open handle \<open>h\<close> of loop \<open>l\<close> that keeps the invariant: the struct of \<open>h\<close>
  becomes \<open>u\<close>, the loop becomes \<open>lp'\<close>, and the queues, the closing list and the counter
  follow the change.
\<close>

definition queue_follows :: "bool \<Rightarrow> oid \<Rightarrow> oid list \<Rightarrow> oid list \<Rightarrow> bool" where
  "queue_follows b h q q' \<longleftrightarrow> distinct q' \<and> set q' = (if b then insert h (set q) else set q - {h})"

lemma queue_follows_cons: "distinct q \<Longrightarrow> h \<notin> set q \<Longrightarrow> queue_follows True h q (h # q)"
  by (simp add: queue_follows_def)

lemma queue_follows_snoc: "distinct q \<Longrightarrow> h \<notin> set q \<Longrightarrow> queue_follows True h q (q @ [h])"
  by (simp add: queue_follows_def)

lemma queue_follows_remove: "distinct q \<Longrightarrow> queue_follows False h q (removeAll h q)"
  by (auto simp: queue_follows_def distinct_removeAll)

lemma queue_follows_same_in: "distinct q \<Longrightarrow> h \<in> set q \<Longrightarrow> queue_follows True h q q"
  by (auto simp: queue_follows_def)

lemma queue_follows_same_out: "distinct q \<Longrightarrow> h \<notin> set q \<Longrightarrow> queue_follows False h q q"
  by (auto simp: queue_follows_def)

lemma uv_inv_step:
  assumes inv: "uv_inv w"
    and l: "u_loop (uvh w h) = Some l" and op: "\<not> u_closed (uvh w h)"
    and u: "u_loop u = Some l" "u_type u = u_type (uvh w h)" "\<not> u_closed u" "uh_ok u"
    and hq: "handle_queue lp' = handle_queue (uvl w l)"
    and ah: "active_handles lp' = active_handles (uvl w l) - of_bool (counted (uvh w h)) + of_bool (counted u)"
    and tq: "\<And>t q'. type_queue t lp' = Some q' \<Longrightarrow> \<exists>q. type_queue t (uvl w l) = Some q \<and>
        queue_follows (u_type u = Some t \<and> u_active u) h q q'"
    and cq: "queue_follows (close_due u) h (all_closing (uvl w l)) (all_closing lp')"
    and w': "\<And>x. uvh w' x = (if x = h then u else uvh w x)"
      "\<And>x. uvl w' x = (if x = l then lp' else uvl w x)"
  shows "uv_inv w'"
proof -
  have lok: "loop_ok w l" using inv by (simp add: uv_inv_def)
  have hin: "h \<in> set (handle_queue (uvl w l))" "distinct (handle_queue (uvl w l))"
    using lok l op by (auto simp: loop_ok_def)
  have other: "loop_ok w' x" if "x \<noteq> l" for x
  proof -
    have "h \<notin> set (handle_queue (uvl w x))"
      using inv l that by (auto simp: uv_inv_def loop_ok_def)
    then have f: "filter (\<lambda>h. counted (uvh w' h)) (handle_queue (uvl w x)) =
        filter (\<lambda>h. counted (uvh w h)) (handle_queue (uvl w x))"
      by (intro filter_cong) (auto simp: w'(1))
    have "loop_ok w x" using inv by (simp add: uv_inv_def)
    then show ?thesis
      using that l u unfolding loop_ok_def w'(2) by (simp add: f) (auto simp: w'(1))
  qed
  have cnt: "int (length (filter (\<lambda>x. counted (uvh w' x)) (handle_queue lp'))) = active_handles lp'"
  proof -
    have "(\<lambda>x. counted (uvh w' x)) = (\<lambda>x. counted (uvh w x))(h := counted u)"
      by (auto simp: w'(1))
    then show ?thesis
      using length_filter_fun_upd [OF hin(2,1), of "\<lambda>x. counted (uvh w x)" "counted u"] lok ah
      by (simp add: hq loop_ok_def)
  qed
  have tq': "distinct q' \<and> (\<forall>x. x \<in> set q' \<longleftrightarrow>
      u_loop (uvh w' x) = Some l \<and> u_type (uvh w' x) = Some t \<and> u_active (uvh w' x))"
    if "type_queue t lp' = Some q'" for t q'
    using tq [OF that] lok u unfolding loop_ok_def queue_follows_def
    by (auto simp: w'(1) split: if_splits)
  have cq': "distinct (all_closing lp') \<and> (\<forall>x. x \<in> set (all_closing lp') \<longleftrightarrow>
      u_loop (uvh w' x) = Some l \<and> close_due (uvh w' x))"
    using cq lok u unfolding loop_ok_def queue_follows_def by (auto simp: w'(1) split: if_splits)
  have "loop_ok w' l"
    using lok u(1,3) l op cnt tq' cq' unfolding loop_ok_def w'(2) by (simp add: hq) (auto simp: w'(1))
  with other have "loop_ok w' x" for x by (cases "x = l") auto
  moreover have "uh_ok (uvh w' x)" for x
    using inv u(4) by (simp add: w'(1) uv_inv_def)
  ultimately show ?thesis by (simp add: uv_inv_def)
qed

section \<open>Stopping\<close>

text \<open>
  What every per-type stop does: the handle becomes inactive, leaves the queue of its type,
  and the counter follows; nothing else that the invariant reads changes.
\<close>

definition stopped :: "oid \<Rightarrow> world \<Rightarrow> world \<Rightarrow> bool" where
  "stopped h w w' \<longleftrightarrow>
     (\<forall>x. x \<noteq> h \<longrightarrow> uvh w' x = uvh w x) \<and> (\<forall>x. x \<noteq> loop_of w h \<longrightarrow> uvl w' x = uvl w x) \<and>
     (let u = uvh w h; u' = uvh w' h; l = uvl w (loop_of w h); l' = uvl w' (loop_of w h) in
       \<not> u_active u' \<and> u_closing u' = u_closing u \<and> u_closed u' = u_closed u \<and>
       u_loop u' = u_loop u \<and> u_type u' = u_type u \<and> u_ref u' = u_ref u \<and>
       u_caught u' = u_caught u \<and> u_dispatched u' = u_dispatched u \<and>
       u_close_cb u' = u_close_cb u \<and>
       (u_type u = Some UV_SIGNAL \<longrightarrow> (u_signum u = 0 \<longleftrightarrow> \<not> u_active u) \<longrightarrow> u_signum u' = 0) \<and>
       handle_queue l' = handle_queue l \<and> all_closing l' = all_closing l \<and>
       active_handles l' = active_handles l - of_bool (counted u) \<and>
       (\<forall>t q'. type_queue t l' = Some q' \<longrightarrow> (\<exists>q. type_queue t l = Some q \<and>
          (if u_type u = Some t then q' = removeAll h q \<or> (q' = q \<and> \<not> u_active u) else q' = q))))"

lemma eff_upd [uv_defs]:
  "uvh (upd_uvl l f w) x = uvh w x"
  "uvl (upd_uvl l f w) x = (if x = l then f (uvl w l) else uvl w x)"
  "uvh (upd_uv h g w) x = (if x = h then g (uvh w h) else uvh w x)"
  "uvl (upd_uv h g w) x = uvl w x"
  by (simp_all add: upd_defs)

lemma eff_stop [uv_defs]:
  "uvh (uv__handle_stop h w) x = (if x = h then (uvh w h)\<lparr>u_active := False\<rparr> else uvh w x)"
  "uvl (uv__handle_stop h w) x = (if x = loop_of w h then (uvl w x)
     \<lparr>active_handles := active_handles (uvl w x) - of_bool (counted (uvh w h))\<rparr> else uvl w x)"
  by (auto simp: uv__handle_stop_def uv__active_handle_rm_def Let_def counted_def uv_defs)

lemma eff_start [uv_defs]:
  "uvh (uv__handle_start h w) x = (if x = h then (uvh w h)\<lparr>u_active := True\<rparr> else uvh w x)"
  "uvl (uv__handle_start h w) x = (if x = loop_of w h then (uvl w x)
     \<lparr>active_handles := active_handles (uvl w x) + of_bool (u_ref (uvh w h) \<and> \<not> u_active (uvh w h))\<rparr>
     else uvl w x)"
  by (auto simp: uv__handle_start_def uv__active_handle_add_def Let_def uv_defs)

lemma eff_ref [uv_defs]:
  "uvh (uv_ref h w) x = (if x = h then (uvh w h)\<lparr>u_ref := True\<rparr> else uvh w x)"
  "uvl (uv_ref h w) x = (if x = loop_of w h then (uvl w x)
     \<lparr>active_handles := active_handles (uvl w x) + of_bool (u_active (uvh w h) \<and> \<not> u_ref (uvh w h))\<rparr>
     else uvl w x)"
  by (auto simp: uv_ref_def uv__active_handle_add_def Let_def uv_defs)

lemma eff_unref [uv_defs]:
  "uvh (uv_unref h w) x = (if x = h then (uvh w h)\<lparr>u_ref := False\<rparr> else uvh w x)"
  "uvl (uv_unref h w) x = (if x = loop_of w h then (uvl w x)
     \<lparr>active_handles := active_handles (uvl w x) - of_bool (counted (uvh w h))\<rparr> else uvl w x)"
  by (auto simp: uv_unref_def uv__active_handle_rm_def Let_def counted_def uv_defs)

lemma type_queue_frame [simp]:
  "type_queue t (l\<lparr>active_handles := n\<rparr>) = type_queue t l"
  "type_queue t (l\<lparr>closing_handles := c\<rparr>) = type_queue t l"
  "type_queue t (l\<lparr>finishing := c\<rparr>) = type_queue t l"
  "type_queue t (l\<lparr>timer_counter := m\<rparr>) = type_queue t l"
  "type_queue t (l\<lparr>handle_queue := c\<rparr>) = type_queue t l"
  by (cases t; simp)+

lemma type_queue_upd:
  "type_queue t (l\<lparr>timer_heap := q\<rparr>) = (if t = UV_TIMER then Some q else type_queue t l)"
  "type_queue t (idle_handles_update f l) = (if t = UV_IDLE then Some (f (idle_handles l) @ moved l t) else type_queue t l)"
  "type_queue t (prepare_handles_update f l) = (if t = UV_PREPARE then Some (f (prepare_handles l) @ moved l t) else type_queue t l)"
  "type_queue t (check_handles_update f l) = (if t = UV_CHECK then Some (f (check_handles l) @ moved l t) else type_queue t l)"
  "type_queue t (l\<lparr>async_handles := q\<rparr>) = (if t = UV_ASYNC then Some q else type_queue t l)"
  "type_queue t (unlinking UV_IDLE idle_handles_update (removeAll h) l) =
     (if t = UV_IDLE then map_option (removeAll h) (type_queue t l) else type_queue t l)"
  "type_queue t (unlinking UV_PREPARE prepare_handles_update (removeAll h) l) =
     (if t = UV_PREPARE then map_option (removeAll h) (type_queue t l) else type_queue t l)"
  "type_queue t (unlinking UV_CHECK check_handles_update (removeAll h) l) =
     (if t = UV_CHECK then map_option (removeAll h) (type_queue t l) else type_queue t l)"
  by (cases t; simp add: unlinking_def)+

lemma unlinking_frame [simp]:
  assumes "fld \<in> {idle_handles_update, prepare_handles_update, check_handles_update}"
  shows "active_handles (unlinking t fld f l) = active_handles l" "handle_queue (unlinking t fld f l) = handle_queue l"
    "closing_handles (unlinking t fld f l) = closing_handles l" "all_closing (unlinking t fld f l) = all_closing l"
  using assms by (auto simp: unlinking_def all_closing_def)

lemma stopped_plain:
  assumes "\<And>t. u_type (uvh w h) = Some t \<Longrightarrow> type_queue t (uvl w (loop_of w h)) = None"
    and "u_type (uvh w h) \<noteq> Some UV_SIGNAL"
  shows "stopped h w (uv__handle_stop h w)"
  using assms by (auto simp: stopped_def Let_def uv_defs)

lemma stopped_timer:
  assumes "u_type (uvh w h) = Some UV_TIMER"
  shows "stopped h w (uv_timer_stop h w)"
  using assms by (auto simp: stopped_def Let_def uv_defs uv_timer_stop_def type_queue_upd counted_def)

lemma stopped_watcher:
  "u_type (uvh w h) = Some UV_IDLE \<Longrightarrow> stopped h w (uv_idle_stop h w)"
  "u_type (uvh w h) = Some UV_PREPARE \<Longrightarrow> stopped h w (uv_prepare_stop h w)"
  "u_type (uvh w h) = Some UV_CHECK \<Longrightarrow> stopped h w (uv_check_stop h w)"
  by (auto simp: stopped_def Let_def uv_defs uv_watcher_stop_def type_queue_upd counted_def)

lemma stopped_async:
  "u_type (uvh w h) = Some UV_ASYNC \<Longrightarrow> stopped h w (uv__async_close h w)"
  by (auto simp: stopped_def Let_def uv_defs uv__async_close_def type_queue_upd counted_def)

lemma stopped_signal:
  "u_type (uvh w h) = Some UV_SIGNAL \<Longrightarrow> (u_signum (uvh w h) = 0 \<longleftrightarrow> \<not> u_active (uvh w h)) \<Longrightarrow>
   stopped h w (uv__signal_stop h w)"
  by (auto simp: stopped_def Let_def uv_defs uv__signal_stop_def counted_def)

lemma stopped_poll:
  "u_type (uvh w h) = Some UV_POLL \<Longrightarrow> stopped h w (uv__poll_stop h w)"
  by (auto simp: stopped_def Let_def uv_defs uv__poll_stop_def counted_def)

lemma stopped_stream:
  assumes "u_type (uvh w h) \<in> {Some UV_TCP, Some UV_NAMED_PIPE, Some UV_TTY}"
  shows "stopped h w (uv__stream_close h w)" "stopped h w (uv__pipe_close h w)"
  using assms
  by (auto simp: stopped_def Let_def uv_defs uv__stream_close_def uv__pipe_close_def uv_read_stop_def counted_def)

lemma stopped_udp:
  "u_type (uvh w h) = Some UV_UDP \<Longrightarrow> stopped h w (uv__udp_close h w)"
  by (auto simp: stopped_def Let_def uv_defs uv__udp_close_def counted_def)

lemma stopped_type_close:
  assumes "uh_ok u" and "u_type (uvh w h) = u_type u" and "u_signum (uvh w h) = u_signum u"
    and "u_active (uvh w h) = u_active u" and "u_type u \<noteq> None"
  shows "stopped h w (uv__type_close h w)"
proof -
  obtain t where t: "u_type (uvh w h) = Some t" using assms by auto
  show ?thesis
    using assms t
    by (cases t) (auto simp: uv__type_close_def uh_ok_def
        intro!: stopped_plain stopped_timer stopped_watcher stopped_async stopped_signal
          stopped_poll stopped_stream stopped_udp)
qed

text \<open>Facts of the invariant in the form the steps need.\<close>

lemma uv_inv_queue:
  assumes "uv_inv w" and "type_queue t (uvl w l) = Some q"
  shows "distinct q" and "h \<in> set q \<longleftrightarrow>
    u_loop (uvh w h) = Some l \<and> u_type (uvh w h) = Some t \<and> u_active (uvh w h)"
  using assms by (auto simp: uv_inv_def loop_ok_def)

lemma uv_inv_closing:
  assumes "uv_inv w"
  shows "distinct (all_closing (uvl w l))"
    and "h \<in> set (all_closing (uvl w l)) \<longleftrightarrow> u_loop (uvh w h) = Some l \<and> close_due (uvh w h)"
  using assms by (auto simp: uv_inv_def loop_ok_def)

lemma uv_inv_handle_queue:
  assumes "uv_inv w"
  shows "distinct (handle_queue (uvl w l))"
    and "h \<in> set (handle_queue (uvl w l)) \<longleftrightarrow> u_loop (uvh w h) = Some l \<and> \<not> u_closed (uvh w h)"
  using assms by (auto simp: uv_inv_def loop_ok_def)

lemma uv_inv_uh: "uv_inv w \<Longrightarrow> uh_ok (uvh w h)"
  by (simp add: uv_inv_def)

lemma close_due_follows:
  assumes "uv_inv w" and "u_loop (uvh w h) = Some l" and "close_due u = close_due (uvh w h)"
  shows "queue_follows (close_due u) h (all_closing (uvl w l)) (all_closing (uvl w l))"
  using uv_inv_closing [OF assms(1)] assms(2,3) by (auto simp: queue_follows_def)

lemma same_queue_follows:
  assumes "uv_inv w" and "u_loop (uvh w h) = Some l" and "type_queue t (uvl w l) = Some q"
    and "b \<longleftrightarrow> u_type (uvh w h) = Some t \<and> u_active (uvh w h)"
  shows "queue_follows b h q q"
  using uv_inv_queue [OF assms(1,3)] assms(2,4) by (auto simp: queue_follows_def)

lemma stopped_queue:
  assumes "stopped h w w'" and "u_loop (uvh w h) = Some l" and "type_queue t (uvl w' l) = Some q'"
  shows "\<exists>q. type_queue t (uvl w l) = Some q \<and> (if u_type (uvh w h) = Some t
    then q' = removeAll h q \<or> (q' = q \<and> \<not> u_active (uvh w h)) else q' = q)"
  using assms by (simp add: stopped_def Let_def)

lemma uv_inv_stopped:
  assumes inv: "uv_inv w" and l: "u_loop (uvh w h) = Some l" and op: "\<not> u_closed (uvh w h)"
    and s: "stopped h w w'"
  shows "uv_inv w'"
proof (rule uv_inv_step [OF inv l op])
  note d = s [unfolded stopped_def Let_def]
  show "u_loop (uvh w' h) = Some l" "u_type (uvh w' h) = u_type (uvh w h)" "\<not> u_closed (uvh w' h)"
    "handle_queue (uvl w' l) = handle_queue (uvl w l)"
    using d l op by auto
  show "uh_ok (uvh w' h)"
    using d uv_inv_uh [OF inv, of h] by (auto simp: uh_ok_def)
  show "active_handles (uvl w' l) = active_handles (uvl w l) - of_bool (counted (uvh w h))
      + of_bool (counted (uvh w' h))"
    using d l by (auto simp: counted_def)
  show "queue_follows (close_due (uvh w' h)) h (all_closing (uvl w l)) (all_closing (uvl w' l))"
    using d l close_due_follows [OF inv l, of "uvh w' h"] by (simp add: close_due_def)
  show "\<exists>q. type_queue t (uvl w l) = Some q \<and>
      queue_follows (u_type (uvh w' h) = Some t \<and> u_active (uvh w' h)) h q q'"
    if "type_queue t (uvl w' l) = Some q'" for t q'
  proof -
    from stopped_queue [OF s l that] obtain q where q: "type_queue t (uvl w l) = Some q"
      "if u_type (uvh w h) = Some t then q' = removeAll h q \<or> (q' = q \<and> \<not> u_active (uvh w h)) else q' = q"
      by blast
    with uv_inv_queue [OF inv q(1)] d show ?thesis
      by (auto simp: queue_follows_def distinct_removeAll split: if_splits)
  qed
  show "uvh w' x = (if x = h then uvh w' h else uvh w x)"
    "uvl w' x = (if x = l then uvl w' l else uvl w x)" for x
    using d l by auto
qed

text \<open>
  \<open>uv_close\<close>: the handle stops and its close callback becomes due, unless it is a signal
  handle with signals in the pipe.
\<close>

lemma uv_inv_close:
  assumes inv: "uv_inv w" and l: "u_loop (uvh w h) = Some l" and op: "\<not> u_closing (uvh w h)"
    and t: "u_type (uvh w h) \<noteq> None"
  shows "uv_inv (uv_close h cb w)"
proof -
  let ?m = "upd_uv h (\<lambda>u. u\<lparr>u_closing := True, u_close_cb := Some cb\<rparr>) w"
  let ?s = "uv__type_close h ?m"
  let ?w' = "uv_close h cb w"
  have m: "uvh ?m h = (uvh w h)\<lparr>u_closing := True, u_close_cb := Some cb\<rparr>"
    "\<And>x. x \<noteq> h \<Longrightarrow> uvh ?m x = uvh w x" "\<And>x. uvl ?m x = uvl w x"
    by (simp_all add: uv_defs)
  have uh: "uh_ok (uvh w h)" by (rule uv_inv_uh [OF inv])
  then have ncl: "\<not> u_closed (uvh w h)" using op by (auto simp: uh_ok_def)
  have st: "stopped h ?m ?s"
    by (rule stopped_type_close [OF uh]) (use t in \<open>simp_all add: m\<close>)
  note d = st [unfolded stopped_def Let_def m(1,3), simplified]
  let ?due = "\<not> (u_type (uvh ?s h) = Some UV_SIGNAL \<and> u_caught (uvh ?s h) \<noteq> u_dispatched (uvh ?s h))"
  have h': "uvh ?w' x = uvh ?s x" for x
    by (simp add: uv_close_def Let_def uv__make_close_pending_def uv_defs)
  have l': "uvl ?w' x = (if x = l \<and> ?due then (uvl ?s l)\<lparr>closing_handles := h # closing_handles (uvl ?s l)\<rparr> else uvl ?s x)" for x
    using d l by (auto simp: uv_close_def Let_def uv__make_close_pending_def uv_defs)
  have due: "close_due (uvh ?s h) = ?due"
    using d ncl by (auto simp: close_due_def)
  have nd: "\<not> close_due (uvh w h)" using op by (simp add: close_due_def)
  show ?thesis
  proof (rule uv_inv_step [OF inv l ncl])
    show "u_loop (uvh ?s h) = Some l" "u_type (uvh ?s h) = u_type (uvh w h)" "\<not> u_closed (uvh ?s h)"
      using d l ncl by auto
    show "uh_ok (uvh ?s h)" using d uh l by (auto simp: uh_ok_def)
    show "handle_queue (uvl ?w' l) = handle_queue (uvl w l)" using d l by (simp add: l')
    show "active_handles (uvl ?w' l) = active_handles (uvl w l) - of_bool (counted (uvh w h))
        + of_bool (counted (uvh ?s h))"
      using d l by (simp add: l' counted_def)
    show "queue_follows (close_due (uvh ?s h)) h (all_closing (uvl w l)) (all_closing (uvl ?w' l))"
    proof -
      have "all_closing (uvl ?s l) = all_closing (uvl w l)" using d l by simp
      moreover have "h \<notin> set (all_closing (uvl w l))" "distinct (all_closing (uvl w l))"
        using nd uv_inv_closing(2) [OF inv, of h l] uv_inv_closing(1) [OF inv, of l] by simp_all
      ultimately show ?thesis unfolding due l' by (simp add: queue_follows_def)
    qed
    show "\<exists>q. type_queue t (uvl w l) = Some q \<and>
        queue_follows (u_type (uvh ?s h) = Some t \<and> u_active (uvh ?s h)) h q q'"
      if "type_queue t (uvl ?w' l) = Some q'" for t q'
    proof -
      from that have "type_queue t (uvl ?s l) = Some q'" by (simp add: l' split: if_splits)
      with stopped_queue [OF st, unfolded m(1) m(3), of l t q'] l
      obtain q where q: "type_queue t (uvl w l) = Some q"
        "if u_type (uvh w h) = Some t then q' = removeAll h q \<or> (q' = q \<and> \<not> u_active (uvh w h)) else q' = q"
        by (auto split: if_splits)
      with uv_inv_queue [OF inv q(1)] d show ?thesis
        by (auto simp: queue_follows_def distinct_removeAll split: if_splits)
    qed
    show "uvh ?w' x = (if x = h then uvh ?s h else uvh w x)" for x
      using d m(2) by (simp add: h')
    show "uvl ?w' x = (if x = l then uvl ?w' l else uvl w x)" for x
      using d l by (auto simp: l')
  qed
qed

section \<open>The other primitives\<close>

text \<open>A step that changes neither queues nor what they depend on.\<close>

lemma uv_inv_flag:
  assumes inv: "uv_inv w" and l: "u_loop (uvh w h) = Some l" and op: "\<not> u_closed (uvh w h)"
    and w': "\<And>x. uvh w' x = (if x = h then u else uvh w x)"
      "\<And>x. uvl w' x = (if x = l then (uvl w l)\<lparr>active_handles := active_handles (uvl w l)
          - of_bool (counted (uvh w h)) + of_bool (counted u)\<rparr> else uvl w x)"
    and u: "u_loop u = Some l" "u_type u = u_type (uvh w h)" "u_active u = u_active (uvh w h)"
      "\<not> u_closed u" "close_due u = close_due (uvh w h)" "uh_ok u"
  shows "uv_inv w'"
proof (rule uv_inv_step [OF inv l op u(1,2,4,6) _ _ _ _ w'])
  show "queue_follows (close_due u) h (all_closing (uvl w l))
      (all_closing ((uvl w l)\<lparr>active_handles := active_handles (uvl w l)
          - of_bool (counted (uvh w h)) + of_bool (counted u)\<rparr>))"
    using close_due_follows [OF inv l u(5)] by simp
  show "\<exists>q. type_queue t (uvl w l) = Some q \<and> queue_follows (u_type u = Some t \<and> u_active u) h q q'"
    if "type_queue t ((uvl w l)\<lparr>active_handles := active_handles (uvl w l)
          - of_bool (counted (uvh w h)) + of_bool (counted u)\<rparr>) = Some q'" for t q'
    using that same_queue_follows [OF inv l, of t q'] u(2,3) by simp
qed simp_all

lemma uv_inv_same:
  assumes "uv_inv w" and "\<And>x. uvh w' x = uvh w x" and "\<And>x. uvl w' x = uvl w x"
  shows "uv_inv w'"
  using assms by (simp add: uv_inv_def loop_ok_def)

lemma uv_inv_ref:
  assumes inv: "uv_inv w" and l: "u_loop (uvh w h) = Some l" and op: "\<not> u_closed (uvh w h)"
  shows "uv_inv (uv_ref h w)" "uv_inv (uv_unref h w)"
proof -
  have uh: "uh_ok (uvh w h)" by (rule uv_inv_uh [OF inv])
  show "uv_inv (uv_ref h w)"
    by (rule uv_inv_flag [OF inv l op, where u = "(uvh w h)\<lparr>u_ref := True\<rparr>"])
      (use l op uh in \<open>auto simp: uv_defs counted_def close_due_def uh_ok_def\<close>)
  show "uv_inv (uv_unref h w)"
    by (rule uv_inv_flag [OF inv l op, where u = "(uvh w h)\<lparr>u_ref := False\<rparr>"])
      (use l op uh in \<open>auto simp: uv_defs counted_def close_due_def uh_ok_def\<close>)
qed

text \<open>The flag of an inactive handle is free: the counter does not see it.\<close>

lemma uv_inv_ref_inactive:
  assumes inv: "uv_inv w" and na: "\<not> u_active (uvh w h)"
  shows "uv_inv (uv_ref h w)" "uv_inv (uv_unref h w)"
proof -
  have gen: "uv_inv w'" if g0: "\<And>x. uvh w' x = (if x = h then (uvh w h)\<lparr>u_ref := b\<rparr> else uvh w x)"
    and g1: "\<And>x. uvl w' x = uvl w x" for w' b
  proof -
    have g: "f (uvh w' x) = f (uvh w x)" if "\<And>u b. f (u\<lparr>u_ref := b\<rparr>) = f u" for f :: "uv_handle \<Rightarrow> 'c" and x
      using that g0 by simp
    have cnt: "counted (uvh w' x) = counted (uvh w x)" for x
      by (simp add: g0 counted_def na)
    have "close_due (u\<lparr>u_ref := b\<rparr>) = close_due u" "uh_ok (u\<lparr>u_ref := b\<rparr>) = uh_ok u" for u b
      by (simp_all add: close_due_def uh_ok_def)
    note e = g [of close_due, OF this(1)] g [of uh_ok, OF this(2)] g [of u_loop] g [of u_type]
      g [of u_active] g [of u_closed]
    show ?thesis
      using inv unfolding uv_inv_def loop_ok_def by (simp add: g1 cnt e)
  qed
  show "uv_inv (uv_ref h w)" by (rule gen [where b = True]) (auto simp: uv_defs na)
  show "uv_inv (uv_unref h w)" by (rule gen [where b = False]) (auto simp: uv_defs na counted_def)
qed

text \<open>Starting a handle: it joins the queue of its type.\<close>

lemma uv_inv_started:
  assumes inv: "uv_inv w" and l: "u_loop (uvh w h) = Some l" and op: "\<not> u_closing (uvh w h)"
    and na: "\<not> u_active (uvh w h)"
    and w': "\<And>x. uvh w' x = (if x = h then u else uvh w x)" "\<And>x. x \<noteq> l \<Longrightarrow> uvl w' x = uvl w x"
    and u: "u_active u" "u_loop u = Some l" "u_type u = u_type (uvh w h)" "\<not> u_closing u"
      "\<not> u_closed u" "u_type u = Some UV_SIGNAL \<Longrightarrow> u_signum u \<noteq> 0"
    and lp: "handle_queue (uvl w' l) = handle_queue (uvl w l)"
      "all_closing (uvl w' l) = all_closing (uvl w l)"
      "active_handles (uvl w' l) = active_handles (uvl w l) + of_bool (u_ref u)"
    and q: "\<And>t q'. type_queue t (uvl w' l) = Some q' \<Longrightarrow> \<exists>q. type_queue t (uvl w l) = Some q \<and>
      (if u_type u = Some t then q' = h # q \<or> q' = q @ [h] else q' = q)"
  shows "uv_inv w'"
proof -
  have uh: "uh_ok (uvh w h)" by (rule uv_inv_uh [OF inv])
  then have op': "\<not> u_closed (uvh w h)" using op by (auto simp: uh_ok_def)
  show ?thesis
  proof (rule uv_inv_step [OF inv l op' u(2,3,5), where lp' = "uvl w' l"])
    show "uh_ok u" using u by (auto simp: uh_ok_def)
    show "handle_queue (uvl w' l) = handle_queue (uvl w l)" by (rule lp(1))
    show "active_handles (uvl w' l) = active_handles (uvl w l) - of_bool (counted (uvh w h)) + of_bool (counted u)"
      using lp(3) na u(1) by (simp add: counted_def)
    show "queue_follows (close_due u) h (all_closing (uvl w l)) (all_closing (uvl w' l))"
      using close_due_follows [OF inv l, of u] lp(2) op u(4) by (simp add: close_due_def)
    show "\<exists>q. type_queue t (uvl w l) = Some q \<and> queue_follows (u_type u = Some t \<and> u_active u) h q q'"
      if "type_queue t (uvl w' l) = Some q'" for t q'
    proof -
      from q [OF that] obtain q0 where q0: "type_queue t (uvl w l) = Some q0"
        "if u_type u = Some t then q' = h # q0 \<or> q' = q0 @ [h] else q' = q0" by blast
      moreover have "distinct q0" "h \<notin> set q0"
        using uv_inv_queue [OF inv q0(1)] na by auto
      ultimately show ?thesis using u(1) by (auto simp: queue_follows_def split: if_splits)
    qed
    show "uvh w' x = (if x = h then u else uvh w x)" for x by (rule w')
    show "uvl w' x = (if x = l then uvl w' l else uvl w x)" for x using w'(2) by auto
  qed
qed

lemma uv_inv_watcher_start:
  assumes "uv_inv w" and "u_loop (uvh w h) = Some l" and "\<not> u_closing (uvh w h)"
  shows "u_type (uvh w h) = Some UV_IDLE \<Longrightarrow> uv_inv (snd (uv_idle_start h w))"
    and "u_type (uvh w h) = Some UV_PREPARE \<Longrightarrow> uv_inv (snd (uv_prepare_start h w))"
    and "u_type (uvh w h) = Some UV_CHECK \<Longrightarrow> uv_inv (snd (uv_check_start h w))"
proof -
  have nc: "\<not> u_closed (uvh w h)" using uv_inv_uh [OF assms(1), of h] assms(3) by (auto simp: uh_ok_def)
  note st = uv_inv_started [OF assms, where u = "(uvh w h)\<lparr>u_active := True\<rparr>"]
  show "uv_inv (snd (uv_idle_start h w))" if "u_type (uvh w h) = Some UV_IDLE"
    using that assms nc by (cases "u_active (uvh w h)")
      (auto simp: uv_watcher_start_def uv_defs type_queue_upd intro!: st split: if_splits)
  show "uv_inv (snd (uv_prepare_start h w))" if "u_type (uvh w h) = Some UV_PREPARE"
    using that assms nc by (cases "u_active (uvh w h)")
      (auto simp: uv_watcher_start_def uv_defs type_queue_upd intro!: st split: if_splits)
  show "uv_inv (snd (uv_check_start h w))" if "u_type (uvh w h) = Some UV_CHECK"
    using that assms nc by (cases "u_active (uvh w h)")
      (auto simp: uv_watcher_start_def uv_defs type_queue_upd intro!: st split: if_splits)
qed

lemma uv_inv_timer_stop:
  assumes "uv_inv w" and "u_loop (uvh w h) = Some l" and "\<not> u_closed (uvh w h)"
    and "u_type (uvh w h) = Some UV_TIMER"
  shows "uv_inv (uv_timer_stop h w)"
  by (rule uv_inv_stopped [OF assms(1-3) stopped_timer [OF assms(4)]])

lemma timer_stop_keeps:
  "u_loop (uvh (uv_timer_stop h w) x) = u_loop (uvh w x)"
  "u_type (uvh (uv_timer_stop h w) x) = u_type (uvh w x)"
  "u_closing (uvh (uv_timer_stop h w) x) = u_closing (uvh w x)"
  "u_closed (uvh (uv_timer_stop h w) x) = u_closed (uvh w x)"
  "u_repeat (uvh (uv_timer_stop h w) x) = u_repeat (uvh w x)"
  "u_timer_cb (uvh (uv_timer_stop h w) x) = u_timer_cb (uvh w x)"
  "u_timeout (uvh (uv_timer_stop h w) x) = u_timeout (uvh w x)"
  "u_ref (uvh (uv_timer_stop h w) x) = u_ref (uvh w x)"
  "\<not> u_active (uvh (uv_timer_stop h w) h)"
  "uv_time (uvl (uv_timer_stop h w) l) = uv_time (uvl w l)"
  "timer_counter (uvl (uv_timer_stop h w) l) = timer_counter (uvl w l)"
  by (auto simp: uv_timer_stop_def uv_defs)

lemma uv_inv_timer_start:
  assumes "uv_inv w" and "u_loop (uvh w h) = Some l" and "\<not> u_closing (uvh w h)"
    and "u_type (uvh w h) = Some UV_TIMER"
  shows "uv_inv (snd (uv_timer_start h t r w))"
proof -
  have nc: "\<not> u_closed (uvh w h)" using uv_inv_uh [OF assms(1), of h] assms(3) by (auto simp: uh_ok_def)
  let ?w1 = "if u_active (uvh w h) then uv_timer_stop h w else w"
  have i1: "uv_inv ?w1" using uv_inv_timer_stop [OF assms(1,2) nc assms(4)] assms(1) by simp
  have k: "u_loop (uvh ?w1 h) = Some l" "\<not> u_closing (uvh ?w1 h)" "\<not> u_closed (uvh ?w1 h)"
    "\<not> u_active (uvh ?w1 h)" "u_type (uvh ?w1 h) = Some UV_TIMER"
    using assms nc by (auto simp: timer_stop_keeps)
  show ?thesis
    unfolding uv_timer_start_def Let_def snd_conv
    by (rule uv_inv_started [OF i1 k(1,2,4), where u = "(uvh ?w1 h)\<lparr>u_active := True, u_timer_cb := True,
           u_timeout := clamped_timeout (uv_time (uvl ?w1 l)) t, u_repeat := r,
           u_start_id := timer_counter (uvl ?w1 l)\<rparr>"])
      (use k in \<open>auto simp: uv_defs type_queue_upd split: if_splits\<close>)
qed

lemma uv_inv_timer_again:
  assumes "uv_inv w" and "u_loop (uvh w h) = Some l" and "\<not> u_closing (uvh w h)"
    and "u_type (uvh w h) = Some UV_TIMER"
  shows "uv_inv (snd (uv_timer_again h w))"
proof -
  have nc: "\<not> u_closed (uvh w h)" using uv_inv_uh [OF assms(1), of h] assms(3) by (auto simp: uh_ok_def)
  show ?thesis
    using assms uv_inv_timer_start [OF uv_inv_timer_stop [OF assms(1,2) nc assms(4)], of h l]
    by (auto simp: uv_timer_again_def timer_stop_keeps)
qed

lemma uv_inv_upd_uv:
  assumes inv: "uv_inv w"
    and "\<And>u. u_active (f u) = u_active u" "\<And>u. u_ref (f u) = u_ref u" "\<And>u. u_closing (f u) = u_closing u"
      "\<And>u. u_closed (f u) = u_closed u" "\<And>u. u_loop (f u) = u_loop u" "\<And>u. u_type (f u) = u_type u"
      "\<And>u. u_signum (f u) = u_signum u" "\<And>u. u_caught (f u) = u_caught u"
      "\<And>u. u_dispatched (f u) = u_dispatched u"
  shows "uv_inv (upd_uv h f w)"
proof -
  have f: "g (uvh (upd_uv h f w) x) = g (uvh w x)" if "\<And>u. g (f u) = g u" for g :: "uv_handle \<Rightarrow> 'b" and x
    using that by (simp add: uv_defs)
  have "counted (f u) = counted u" "close_due (f u) = close_due u" "uh_ok (f u) = uh_ok u" for u
    using assms by (simp_all add: counted_def close_due_def uh_ok_def)
  note g = f [of counted, OF this(1)] f [of close_due, OF this(2)] f [of uh_ok, OF this(3)]
    f [of u_loop, OF assms(6)] f [of u_type, OF assms(7)] f [of u_active, OF assms(2)] f [of u_closed, OF assms(5)]
  show ?thesis
    using inv unfolding uv_inv_def loop_ok_def g eff_upd(4) by simp
qed

lemma uv_inv_upd_uvl:
  assumes inv: "uv_inv w"
    and "active_handles (f (uvl w l)) = active_handles (uvl w l)" "handle_queue (f (uvl w l)) = handle_queue (uvl w l)"
      "all_closing (f (uvl w l)) = all_closing (uvl w l)" "\<And>t. type_queue t (f (uvl w l)) = type_queue t (uvl w l)"
  shows "uv_inv (upd_uvl l f w)"
proof -
  have "g (uvl (upd_uvl l f w) x) = g (uvl w x)" if "g (f (uvl w l)) = g (uvl w l)" for g :: "uv_loop \<Rightarrow> 'b" and x
    using that by (simp add: uv_defs)
  note g = this [of active_handles, OF assms(2)] this [of handle_queue, OF assms(3)]
    this [of all_closing, OF assms(4)] this [of "type_queue t" for t, OF assms(5)]
  show ?thesis
    using inv unfolding uv_inv_def loop_ok_def g eff_upd(1) by simp
qed

lemma uv_inv_misc:
  assumes "uv_inv w"
  shows "uv_inv (uv_timer_set_repeat h r w)" "uv_inv (snd (uv_async_send h w))"
  using assms by (auto simp: uv_timer_set_repeat_def uv_async_send_def intro!: uv_inv_upd_uv)

lemma uv_inv_signal_stop:
  assumes "uv_inv w" and "u_loop (uvh w h) = Some l" and "\<not> u_closed (uvh w h)"
    and "u_type (uvh w h) = Some UV_SIGNAL"
  shows "uv_inv (uv__signal_stop h w)"
  using uv_inv_uh [OF assms(1), of h] assms(4)
  by (intro uv_inv_stopped [OF assms(1-3)] stopped_signal) (auto simp: uh_ok_def)

lemma uv_inv_signal_start:
  assumes "uv_inv w" and "u_loop (uvh w h) = Some l" and "\<not> u_closing (uvh w h)"
    and "u_type (uvh w h) = Some UV_SIGNAL"
  shows "uv_inv (snd (uv_signal_start os h sig w))"
proof -
  have uh: "uh_ok (uvh w h)" by (rule uv_inv_uh [OF assms(1)])
  then have nc: "\<not> u_closed (uvh w h)" using assms(3) by (auto simp: uh_ok_def)
  let ?w1 = "if u_signum (uvh w h) \<noteq> 0 then uv__signal_stop h w else w"
  have i1: "uv_inv ?w1" using uv_inv_signal_stop [OF assms(1,2) nc assms(4)] assms(1) by simp
  have k: "u_loop (uvh ?w1 h) = Some l" "\<not> u_closing (uvh ?w1 h)" "\<not> u_closed (uvh ?w1 h)"
    "\<not> u_active (uvh ?w1 h)" "u_type (uvh ?w1 h) = Some UV_SIGNAL"
    using assms nc uh by (auto simp: uv__signal_stop_def uv_defs uh_ok_def)
  have "uv_inv (uv__handle_start h (upd_uv h (\<lambda>u. u\<lparr>u_signum := sig\<rparr>) ?w1))" if "sig \<noteq> 0"
    by (rule uv_inv_started [OF i1 k(1,2,4), where u = "(uvh ?w1 h)\<lparr>u_active := True, u_signum := sig\<rparr>"])
      (use k that in \<open>auto simp: uv_defs\<close>)
  then show ?thesis using i1 assms(1) by (auto simp: uv_signal_start_def Let_def)
qed

lemma uv_inv_poll_stop:
  assumes "uv_inv w" and "u_loop (uvh w h) = Some l" and "\<not> u_closed (uvh w h)"
    and "u_type (uvh w h) = Some UV_POLL"
  shows "uv_inv (uv__poll_stop h w)"
  by (rule uv_inv_stopped [OF assms(1-3) stopped_poll [OF assms(4)]])

lemma uv_inv_poll_start:
  assumes "uv_inv w" and "u_loop (uvh w h) = Some l" and "\<not> u_closing (uvh w h)"
    and "u_type (uvh w h) = Some UV_POLL" and "uv_poll_start h ev w = Some (e, w')"
  shows "uv_inv w'"
proof -
  have nc: "\<not> u_closed (uvh w h)" using uv_inv_uh [OF assms(1), of h] assms(3) by (auto simp: uh_ok_def)
  let ?w1 = "uv__poll_stop h w"
  have i1: "uv_inv ?w1" by (rule uv_inv_poll_stop [OF assms(1,2) nc assms(4)])
  have k: "u_loop (uvh ?w1 h) = Some l" "\<not> u_closing (uvh ?w1 h)" "\<not> u_closed (uvh ?w1 h)"
    "\<not> u_active (uvh ?w1 h)" "u_type (uvh ?w1 h) = Some UV_POLL"
    using assms nc by (auto simp: uv__poll_stop_def uv_defs)
  have "uv_inv (uv__handle_start h (upd_uv h (\<lambda>u. u\<lparr>u_events := ev\<rparr>) ?w1))"
    by (rule uv_inv_started [OF i1 k(1,2,4), where u = "(uvh ?w1 h)\<lparr>u_active := True, u_events := ev\<rparr>"])
      (use k in \<open>auto simp: uv_defs\<close>)
  then show ?thesis using i1 assms(5) by (auto simp: uv_poll_start_def Let_def split: if_splits)
qed

text \<open>Streams have no queue of their own.\<close>

definition stream_type :: "uv_handle \<Rightarrow> bool" where
  "stream_type u \<longleftrightarrow> u_type u \<in> {Some UV_TCP, Some UV_NAMED_PIPE, Some UV_TTY}"

lemma uv_inv_handle_stop_stream:
  assumes "uv_inv w" and "u_loop (uvh w h) = Some l" and "\<not> u_closed (uvh w h)"
    and "stream_type (uvh w h)"
  shows "uv_inv (uv__handle_stop h w)"
  by (rule uv_inv_stopped [OF assms(1-3) stopped_plain]) (use assms(4) in \<open>auto simp: stream_type_def\<close>)

lemma uv_inv_read_stop:
  assumes "uv_inv w" and "u_loop (uvh w h) = Some l" and "\<not> u_closed (uvh w h)"
    and "stream_type (uvh w h)"
  shows "uv_inv (uv_read_stop h w)"
proof -
  have "uv_inv (upd_uv h (\<lambda>u. u\<lparr>u_reading := False\<rparr>) w)"
    by (rule uv_inv_upd_uv [OF assms(1)]) simp_all
  moreover from this have "uv_inv (uv__handle_stop h (upd_uv h (\<lambda>u. u\<lparr>u_reading := False\<rparr>) w))"
    by (rule uv_inv_handle_stop_stream) (use assms in \<open>auto simp: uv_defs stream_type_def\<close>)
  ultimately show ?thesis using assms(1) by (auto simp: uv_read_stop_def Let_def)
qed

lemma uv_inv_read_start:
  assumes "uv_inv w" and "u_loop (uvh w h) = Some l" and "\<not> u_closing (uvh w h)"
    and "stream_type (uvh w h)" and "uv_read_start h w = Some (e, w')"
  shows "uv_inv w'"
proof -
  have uh: "uh_ok (uvh w h)" by (rule uv_inv_uh [OF assms(1)])
  then have nc: "\<not> u_closed (uvh w h)" using assms(3) by (auto simp: uh_ok_def)
  have i: "uv_inv (upd_uv h (\<lambda>u. u\<lparr>u_reading := True\<rparr>) w)"
    by (rule uv_inv_upd_uv [OF assms(1)]) simp_all
  have "uv_inv (uv__handle_start h (upd_uv h (\<lambda>u. u\<lparr>u_reading := True\<rparr>) w))"
  proof (cases "u_active (uvh w h)")
    case True
    then show ?thesis using i by (simp add: uv__handle_start_def uv_defs)
  next
    case False
    show ?thesis
      by (rule uv_inv_started [OF assms(1-3) False, where u = "(uvh w h)\<lparr>u_active := True, u_reading := True\<rparr>"])
        (use assms nc False in \<open>auto simp: uv_defs stream_type_def\<close>)
  qed
  then show ?thesis using assms by (auto simp: uv_read_start_def split: if_splits)
qed

section \<open>Initialising and finishing\<close>

text \<open>\<open>uv__handle_init\<close> on a struct that libuv does not know.\<close>

lemma uv_inv_init:
  assumes inv: "uv_inv w" and n: "u_loop (uvh w h) = None"
    and w': "\<And>x. uvh w' x = (if x = h then u else uvh w x)"
      "\<And>x. uvl w' x = (if x = l then (uvl w l)\<lparr>handle_queue := handle_queue (uvl w l) @ [h]\<rparr> else uvl w x)"
    and u: "u_loop u = Some l" "\<not> u_active u" "\<not> u_closing u" "\<not> u_closed u"
      "u_type u = Some UV_SIGNAL \<Longrightarrow> u_signum u = 0"
  shows "uv_inv w'"
proof -
  have uh: "\<not> u_active (uvh w h)" "\<not> u_closing (uvh w h)"
    using uv_inv_uh [OF inv, of h] n by (auto simp: uh_ok_def)
  have nin: "h \<notin> set (handle_queue (uvl w x))" for x
    using uv_inv_handle_queue(2) [OF inv] n by simp
  have f: "filter (\<lambda>h. counted (uvh w' h)) (handle_queue (uvl w x)) =
      filter (\<lambda>h. counted (uvh w h)) (handle_queue (uvl w x))" for x
    using nin [of x] by (intro filter_cong) (auto simp: w'(1))
  have k: "loop_ok w x" for x using inv by (simp add: uv_inv_def)
  have d: "\<not> close_due u" "\<not> close_due (uvh w h)" "\<not> counted u"
    using u uh by (simp_all add: close_due_def counted_def)
  have wh: "uvh w' h = u" by (simp add: w'(1))
  have "loop_ok w' x" for x
    using k [of x] nin [of x] u n uh d unfolding loop_ok_def w'(2)
    by (simp add: f wh) (auto simp: w'(1))
  moreover have "uh_ok (uvh w' x)" for x
    using inv u by (auto simp: w'(1) uv_inv_def uh_ok_def)
  ultimately show ?thesis by (simp add: uv_inv_def)
qed

lemma eff_init [uv_defs]:
  "uvh (uv__handle_init l h t w) x = (if x = h then (uvh w h)\<lparr>u_loop := Some l, u_type := Some t,
     u_active := False, u_ref := True, u_closing := False, u_closed := False, u_reading := False,
     u_writable := False, u_readable := False, u_shutting := False, u_shut := False, u_read_eof := False,
     u_read_partial := False, u_bound := False, u_ipv6 := False, u_nodelay := False,
     u_keepalive := False, u_single_accept := False, u_processing := False\<rparr> else uvh w x)"
  "uvl (uv__handle_init l h t w) x = (if x = l then (uvl w l)
     \<lparr>handle_queue := handle_queue (uvl w l) @ [h]\<rparr> else uvl w x)"
  by (simp_all add: uv__handle_init_def uv_defs)

lemma uv_inv_handle_init:
  assumes "uv_inv w" and "u_loop (uvh w h) = None" and "u_signum (uvh w h) = 0 \<or> t \<noteq> UV_SIGNAL"
  shows "uv_inv (uv__handle_init l h t w)"
  by (rule uv_inv_init [OF assms(1,2), where u = "uvh (uv__handle_init l h t w) h" and l = l])
    (use assms(3) in \<open>auto simp: uv_defs\<close>)

lemma uv_inv_timer_init:
  "uv_inv w \<Longrightarrow> u_loop (uvh w h) = None \<Longrightarrow> uv_inv (uv_timer_init l h w)"
  unfolding uv_timer_init_def by (intro uv_inv_upd_uv uv_inv_handle_init) simp_all

lemma uv_inv_async_init:
  assumes "uv_inv w" and "u_loop (uvh w h) = None"
  shows "uv_inv (snd (uv_async_init os l h w))"
proof -
  let ?w1 = "upd_uv h (\<lambda>u. u\<lparr>u_pending := False\<rparr>) (uv__handle_init l h UV_ASYNC w)"
  have i: "uv_inv ?w1"
    by (intro uv_inv_upd_uv uv_inv_handle_init) (use assms in simp_all)
  have "uv_inv (uv__handle_start h (upd_uvl l (\<lambda>lp. lp\<lparr>async_handles := async_handles lp @ [h]\<rparr>) ?w1))"
    by (rule uv_inv_started [OF i, where l = l and h = h and u = "(uvh ?w1 h)\<lparr>u_active := True\<rparr>"])
      (auto simp: uv_defs type_queue_upd split: if_splits)
  then show ?thesis using assms by (simp add: uv_async_init_def Let_def)
qed

lemma uv_inv_signal_init:
  assumes "uv_inv w" and "u_loop (uvh w h) = None"
  shows "uv_inv (snd (uv_signal_init os l h w))"
proof -
  have "uv_inv (upd_uv h (\<lambda>u. u\<lparr>u_signum := 0, u_caught := 0, u_dispatched := 0\<rparr>)
      (uv__handle_init l h UV_SIGNAL w))"
    by (rule uv_inv_init [OF assms, where u = "uvh (upd_uv h (\<lambda>u. u\<lparr>u_signum := 0, u_caught := 0,
        u_dispatched := 0\<rparr>) (uv__handle_init l h UV_SIGNAL w)) h" and l = l]) (auto simp: uv_defs)
  then show ?thesis using assms by (simp add: uv_signal_init_def)
qed

lemma uv_inv_poll_init:
  assumes "uv_inv w" and "u_loop (uvh w h) = None"
  shows "uv_inv (snd (uv_poll_init_socket os l h fd w))"
proof -
  have "uv_inv (upd_uv h (\<lambda>u. u\<lparr>u_fd := fd, u_events := 0\<rparr>) (uv__handle_init l h UV_POLL w))"
    by (intro uv_inv_upd_uv uv_inv_handle_init) (use assms in simp_all)
  then show ?thesis using assms by (simp add: uv_poll_init_socket_def)
qed

text \<open>
  \<open>uv__run_closing_handles\<close> takes the handle off the closing list, then
  \<open>uv__finish_close\<close> marks it closed and takes it off the handle queue.
\<close>

definition pop_closing :: "oid \<Rightarrow> oid \<Rightarrow> world \<Rightarrow> world" where
  "pop_closing l h w = upd_uvl l (\<lambda>lp. lp\<lparr>finishing := removeAll h (finishing lp)\<rparr>) w"

lemma uv_inv_finish_close:
  assumes inv: "uv_inv w" and l: "u_loop (uvh w h) = Some l" and due: "close_due (uvh w h)"
    and fin: "h \<in> set (finishing (uvl w l))"
  shows "uv_inv (uv__finish_close h (pop_closing l h w))"
proof -
  let ?w' = "uv__finish_close h (pop_closing l h w)"
  let ?u = "(uvh w h)\<lparr>u_closed := True, u_ref := False\<rparr>"
  have uh: "uh_ok (uvh w h)" by (rule uv_inv_uh [OF inv])
  have na: "\<not> u_active (uvh w h)" using uh due by (auto simp: uh_ok_def close_due_def)
  have h': "uvh ?w' x = (if x = h then ?u else uvh w x)" for x
    using l by (simp add: uv__finish_close_def pop_closing_def Let_def uv_defs)
  have l': "uvl ?w' x = (if x = l then (uvl w l)\<lparr>finishing := removeAll h (finishing (uvl w l)),
      handle_queue := removeAll h (handle_queue (uvl w l))\<rparr> else uvl w x)" for x
    using l na by (auto simp: uv__finish_close_def pop_closing_def Let_def uv_defs counted_def)
  have f: "filter (\<lambda>x. counted (uvh w x)) (removeAll h q) = filter (\<lambda>x. counted (uvh w x)) q" for q
    by (induction q) (auto simp: counted_def na)
  have f2: "filter (\<lambda>x. counted (uvh ?w' x)) q = filter (\<lambda>x. counted (uvh w x)) q" for q
    by (rule filter_cong) (auto simp: h' counted_def na)
  have d: "\<not> close_due ?u" by (simp add: close_due_def)
  have "h \<notin> set (closing_handles (uvl w l))"
    using uv_inv_closing(1) [OF inv, of l] fin by (auto simp: all_closing_def)
  then have fc: "all_closing ((uvl w l)\<lparr>finishing := removeAll h (finishing (uvl w l))\<rparr>) = removeAll h (all_closing (uvl w l))"
    by (simp add: all_closing_def)
  have "loop_ok ?w' x" for x
  proof -
    have "loop_ok w x" using inv by (simp add: uv_inv_def)
    then show ?thesis
      using l na d due unfolding loop_ok_def l'
      by (simp add: f f2 fc) (auto simp: h' close_due_def distinct_removeAll)
  qed
  moreover have "uh_ok (uvh ?w' x)" for x
    using inv uh due l by (auto simp: h' uv_inv_def uh_ok_def close_due_def)
  ultimately show ?thesis by (simp add: uv_inv_def)
qed

end
