(* ===== verification/Handle_Inv.thy ===== *)
theory Handle_Inv
  imports Ref_Rules Libuv_Inv
begin

text \<open>
  The invariant of the whole state. \<open>ok fr w\<close> is the reference ledger, the invariant of the
  libuv loops, and for each handle the agreement between the libuv struct and the Python
  fields that the callbacks rely on: a handle that can fire has its callable, one that is
  watching keeps itself alive, one that is not being closed has no close callback.
\<close>

section \<open>The fields a callback relies on\<close>

text \<open>
  \<open>fires\<close>: libuv may call back for the handle, so its callable must be there. A timer can be
  restarted by \<open>uv_timer_again\<close> as soon as it has been started once. \<open>keeps_alive\<close>: the types
  whose \<open>start\<close> takes \<open>PYUV__PYREF\<close> and whose \<open>stop\<close> returns it.
\<close>

primrec fires :: "hclass \<Rightarrow> uv_handle \<Rightarrow> bool" where
  "fires AsyncC u = u_active u"
| "fires TimerC u = (u_active u \<or> u_timer_cb u)"
| "fires PrepareC u = u_active u"
| "fires IdleC u = u_active u"
| "fires CheckC u = u_active u"
| "fires SignalC u = u_active u"
| "fires SignalCheckerC u = False"
| "fires TCPC u = False"
| "fires PipeC u = False"
| "fires TTYC u = False"
| "fires UDPC u = False"
| "fires PollC u = u_active u"
| "fires ProcessC u = False"
| "fires FSEventC u = u_active u"
| "fires FSPollC u = u_active u"

definition keeps_alive :: "hclass \<Rightarrow> bool" where
  "keeps_alive c \<longleftrightarrow> c \<in> {PrepareC, IdleC, CheckC, SignalC, PollC, FSEventC, FSPollC}"

definition stream_class :: "hclass \<Rightarrow> bool" where
  "stream_class c \<longleftrightarrow> c \<in> {TCPC, PipeC, TTYC}"

text \<open>The classes with an \<open>on_read_cb\<close>.\<close>

definition reads_class :: "hclass \<Rightarrow> bool" where
  "reads_class c \<longleftrightarrow> c \<in> {TCPC, PipeC, TTYC, UDPC}"

lemma stream_reads [simp]: "stream_class c \<Longrightarrow> reads_class c"
  by (auto simp: stream_class_def reads_class_def)

lemma stream_class_type: "stream_class c \<longleftrightarrow> uv_type_of c \<in> {UV_TCP, UV_NAMED_PIPE, UV_TTY}"
  by (cases c) (auto simp: stream_class_def)

definition field_ok :: "hclass \<Rightarrow> Handle \<Rightarrow> (slot \<Rightarrow> oid option) \<Rightarrow> bool" where
  "field_ok c x sl \<longleftrightarrow>
     (\<not> initialized x \<longrightarrow> sl S_loop = None \<and> sl S_on_close_cb = None \<and> sl S_callback = None \<and>
        u_loop (uv x) = None \<and> \<not> u_listening (uv x) \<and> \<not> u_connect (uv x)) \<and>
     (initialized x \<and> \<not> u_closing (uv x) \<longrightarrow>
        sl S_on_close_cb = None \<and>
        (fires c (uv x) \<longrightarrow> sl S_callback \<noteq> None) \<and>
        (keeps_alive c \<and> u_active (uv x) \<longrightarrow> pyref x)) \<and>
     (initialized x \<and> reads_class c \<and> u_reading (uv x) \<longrightarrow>
        \<not> u_closing (uv x) \<and> 0 \<le> u_fd (uv x) \<and> sl S_on_read_cb \<noteq> None \<and> pyref x) \<and>
     (initialized x \<and> u_listening (uv x) \<longrightarrow> sl S_on_new_connection_cb \<noteq> None)"

text \<open>A live, initialised handle has a \<open>loop\<close> field: the loop, or \<open>Py_None\<close> once closed.\<close>

definition cb_ok :: "world \<Rightarrow> oid \<Rightarrow> bool" where
  "cb_ok w h \<longleftrightarrow>
     (\<forall>c. h < length (objs w) \<longrightarrow> live (objs w ! h) \<longrightarrow> kind (objs w ! h) = KHandle c \<longrightarrow>
        field_ok c (hs w h) (slots (objs w ! h)) \<and>
        (initialized (hs w h) \<longrightarrow> slot_of w h S_loop \<noteq> None))"

definition ok :: "oid multiset \<Rightarrow> world \<Rightarrow> bool" where
  "ok fr w \<longleftrightarrow> wf_refs fr w \<and> uv_inv w \<and> (\<forall>h. cb_ok w h)"

text \<open>Who may name an object: the C frame, or the Python program.\<close>

definition held :: "oid multiset \<Rightarrow> world \<Rightarrow> oid \<Rightarrow> bool" where
  "held fr w x \<longleftrightarrow> x \<in># fr \<or> 0 < ext w x"

lemma held_valid: "wf_refs fr w \<Longrightarrow> held fr w x \<Longrightarrow> valid w x"
  by (auto simp: held_def intro: wf_valid_frame wf_valid_ext)

lemma okD: "ok fr w \<Longrightarrow> wf_refs fr w" "ok fr w \<Longrightarrow> uv_inv w" "ok fr w \<Longrightarrow> cb_ok w h"
  by (simp_all add: ok_def)

lemma okI: "wf_refs fr w \<Longrightarrow> uv_inv w \<Longrightarrow> (\<And>h. cb_ok w h) \<Longrightarrow> ok fr w"
  by (simp add: ok_def)

lemma cb_ok_cong:
  assumes "cb_ok w h" and "hs w' h = hs w h" "length (objs w') = length (objs w)"
    "kind (objs w' ! h) = kind (objs w ! h)" "live (objs w' ! h) = live (objs w ! h)"
    "slots (objs w' ! h) = slots (objs w ! h)"
  shows "cb_ok w' h"
  using assms by (simp add: cb_ok_def)

lemma cb_ok_dead: "\<not> live (objs w ! h) \<Longrightarrow> cb_ok w h"
  by (simp add: cb_ok_def)

section \<open>Deallocation keeps it\<close>

lemma uv_inv_release_step:
  assumes "wf_refs (add_mset x fr) w" and "uv_inv w" and "tp_dealloc x (dec_count x w) = (ys, w')"
  shows "uv_inv w'"
proof (cases "kind (objs w ! x)")
  case (KObject c)
  then show ?thesis using assms(2,3)
    by (auto simp: tp_dealloc_def free_obj_def dec_count_def upd_obj_kind intro: uv_inv_same)
next
  case KLoop
  then show ?thesis using assms(2,3)
    by (auto simp: tp_dealloc_def Loop_tp_dealloc_def Let_def free_obj_def dec_count_def upd_obj_kind
        uv_loop_close_def upd_Loop_def intro!: uv_inv_same [OF assms(2)])
next
  case (KHandle c)
  have d: "uv_inv (dec_count x w)"
    by (rule uv_inv_same [OF assms(2)]) (simp_all add: dec_count_def)
  show ?thesis
  proof (cases "initialized (hs w x) \<and> \<not> uv_is_closing x w")
    case True
    have "handle_ok w x" by (rule wf_handle_ok [OF assms(1)])
    with True obtain l t where "u_loop (uvh w x) = Some l" "u_type (uvh w x) = Some t"
      by (auto simp: handle_ok_def uv_is_closing_def)
    with True have "uv_inv (uv_close x pyuv__handle_dealloc_close_cb (dec_count x w))"
      by (intro uv_inv_close [OF d, of x l]) (auto simp: dec_count_def uv_is_closing_def)
    then have "uv_inv (resurrect_object x (uv_close x pyuv__handle_dealloc_close_cb (dec_count x w)))"
      by (rule uv_inv_same) (simp_all add: resurrect_object_def)
    moreover have "w' = resurrect_object x (uv_close x pyuv__handle_dealloc_close_cb (dec_count x w))"
      using True KHandle assms(3)
      by (auto simp: tp_dealloc_def Handle_tp_dealloc_def uv_is_closing_def dec_count_def upd_obj_kind)
    ultimately show ?thesis by simp
  next
    case False
    then show ?thesis using KHandle assms(3)
      by (auto simp: tp_dealloc_def Handle_tp_dealloc_def uv_is_closing_def dec_count_def free_obj_def
          upd_obj_kind intro!: uv_inv_same [OF assms(2)])
  qed
qed

lemma hs_dec_count [simp]: "hs (dec_count x w) = hs w"
  by (simp add: dec_count_def)

lemma reads_class_type: "reads_class c \<longleftrightarrow> uv_type_of c \<in> {UV_TCP, UV_NAMED_PIPE, UV_TTY, UV_UDP}"
  by (cases c) (auto simp: reads_class_def)

text \<open>Closing ends reading; a listening handle stays marked as one.\<close>

lemma reading_uv_close:
  assumes "u_type (uvh w h) = Some (uv_type_of c)" and "reads_class c"
  shows "\<not> u_reading (uvh (uv_close h cb w) h)"
  using assms by (cases c) (auto simp: reads_class_def uv_close_def Let_def uv__make_close_pending_def uv__type_close_def
      uv__stream_close_def uv__pipe_close_def uv__udp_close_def uv_read_stop_def uv_defs)

lemma listening_uv_close [simp]: "u_listening (uvh (uv_close h cb w) y) = u_listening (uvh w y)"
  using uv_close_quiet [of h cb w] by (auto simp: uv_quiet_def upd_uv_def)

lemma cb_ok_dealloc_self:
  assumes wf: "wf_refs (add_mset x fr) w" and v: "x < length (objs w)"
    and d: "tp_dealloc x (dec_count x w) = (ys, w')" and cb: "cb_ok w x"
  shows "cb_ok w' x"
proof (cases "\<exists>c. kind (objs w ! x) = KHandle c \<and> initialized (hs w x) \<and> \<not> uv_is_closing x w")
  case True
  then have w': "w' = resurrect_object x (uv_close x pyuv__handle_dealloc_close_cb (dec_count x w))"
    using d by (auto simp: tp_dealloc_def Handle_tp_dealloc_def uv_is_closing_def dec_count_def upd_obj_kind)
  have init: "initialized (hs w' x)"
    using kept_tp_dealloc [OF d] True by (simp add: kept_def)
  have lk: "live (objs w ! x)" "slot_of w x S_loop \<noteq> None"
    using wf_loop_valid [OF wf, of x] True by (auto simp: uv_is_closing_def is_handle_def valid_def)
  have s: "slots (objs w' ! x) = slots (objs w ! x)"
    using v by (simp add: w' resurrect_object_def upd_obj_def dec_count_def)
  have cl: "u_closing (uvh w' x)" by (simp add: w' resurrect_object_def)
  have k: "kind (objs w' ! x) = kind (objs w ! x)" using kept_tp_dealloc [OF d] by (simp add: kept_def dec_count_def upd_obj_kind)
  have rd: "\<not> u_reading (uvh w' x)" if "kind (objs w ! x) = KHandle c" "reads_class c" for c
  proof -
    have "u_type (uvh w x) = Some (uv_type_of c)"
      using wf_handle_ok [OF wf, of x] True that(1) by (auto simp: handle_ok_def uv_is_closing_def)
    from reading_uv_close [of "dec_count x w", OF _ that(2)] this show ?thesis
      by (simp add: w' resurrect_object_def)
  qed
  have ls: "u_listening (uvh w' x) = u_listening (uvh w x)" by (simp add: w' resurrect_object_def)
  show ?thesis using init s cl lk rd ls k cb True v by (auto simp: cb_ok_def field_ok_def)
next
  case False
  then have "\<not> live (objs w' ! x)"
    using d v
    by (auto simp: tp_dealloc_def Handle_tp_dealloc_def Loop_tp_dealloc_def Let_def uv_is_closing_def
        upd_obj_kind free_obj_def upd_obj_def dec_count_def split: kind.splits if_splits)
  then show ?thesis by (rule cb_ok_dead)
qed

lemma ok_dealloc:
  assumes "wf_refs (mset (x # xs) + fr) w" and "uv_inv w" and "\<And>h. P h \<Longrightarrow> cb_ok w h"
    and "refcnt (objs w ! x) = 1" and d: "tp_dealloc x (dec_count x w) = (ys, w')"
  shows "wf_refs (mset (ys @ xs) + fr) w'" and "uv_inv w'" and "P h \<Longrightarrow> cb_ok w' h"
proof -
  have wf: "wf_refs (add_mset x (mset xs + fr)) w" using assms(1) by simp
  then have v: "valid w x" by (rule wf_valid_frame) simp
  show "wf_refs (mset (ys @ xs) + fr) w'"
    using wf_tp_dealloc [OF _ assms(4) d, of "mset xs + fr"] wf by (simp add: ac_simps)
  show "uv_inv w'" by (rule uv_inv_release_step [OF wf assms(2) d])
  show "cb_ok w' h" if "P h"
  proof (cases "h = x")
    case True
    then show ?thesis using cb_ok_dealloc_self [OF wf _ d] v assms(3) that by (simp add: valid_def)
  next
    case False
    have k: "kept w w'"
      by (rule kept_trans [OF kept_dec_count kept_tp_dealloc [OF d]])
    show ?thesis
    proof (rule cb_ok_cong [OF assms(3) [OF that]])
      show "hs w' h = hs w h" "slots (objs w' ! h) = slots (objs w ! h)"
        "live (objs w' ! h) = live (objs w ! h)"
        using tp_dealloc_other [OF d False] False v
        by (simp_all add: dec_count_def upd_obj_def valid_def)
      show "length (objs w') = length (objs w)" "kind (objs w' ! h) = kind (objs w ! h)"
        using k by (simp_all add: kept_def)
    qed
  qed
qed

text \<open>\<open>P\<close> selects the handles whose fields agree: in the middle of a method one does not.\<close>

lemma ok_release_gen:
  assumes "wf_refs (mset xs + fr) w" and "uv_inv w" and "\<And>h. P h \<Longrightarrow> cb_ok w h"
  shows "wf_refs fr (release xs w) \<and> uv_inv (release xs w) \<and> (\<forall>h. P h \<longrightarrow> cb_ok (release xs w) h)"
  using assms
proof (induction xs w rule: release.induct)
  case (1 w)
  then show ?case by simp
next
  case (2 x xs w)
  have v: "valid w x" using 2(4) by (rule wf_valid_frame) simp
  show ?case
  proof (cases "refcnt (objs w ! x) = 1")
    case True
    obtain ys w' where d: "tp_dealloc x (dec_count x w) = (ys, w')" by fastforce
    note s = ok_dealloc [OF 2(4,5) _ True d, of P, OF 2(6)]
    from 2(3) [OF _ _ d [symmetric] s(1,2) s(3)] v True d
    show ?thesis by (simp add: release.simps(2))
  next
    case False
    have wf: "wf_refs (mset xs + fr) (dec_count x w)"
      using wf_dec_count [OF _ False, of "mset xs + fr"] 2(4) by simp
    have i: "uv_inv (dec_count x w)"
      by (rule uv_inv_same [OF 2(5)]) (simp_all add: dec_count_def)
    have c: "cb_ok (dec_count x w) h" if "P h" for h
      by (rule cb_ok_cong [OF 2(6) [OF that]])
        (use v in \<open>(cases "h = x"; simp add: dec_count_def upd_obj_def valid_def)+\<close>)
    from 2(2) [OF _ False wf i c] v False show ?thesis by (simp add: release.simps(2))
  qed
qed

lemma ok_release [ok_intros]: "ok (mset xs + fr) w \<Longrightarrow> ok fr (release xs w)"
  using ok_release_gen [of xs fr w "\<lambda>_. True"] by (simp add: ok_def)

lemma ok_DECREF: "ok (add_mset x fr) w \<Longrightarrow> ok fr (Py_DECREF x w)"
  using ok_release [of "[x]" fr w] by simp

lemma ok_XDECREF: "ok (mset_opt v + fr) w \<Longrightarrow> ok fr (Py_XDECREF v w)"
  by (cases v) (auto simp: Py_XDECREF_def intro: ok_DECREF)

end
