(* ===== verification/Handle_Base.thy ===== *)
theory Handle_Base
  imports Handle_Inv
begin

text \<open>
  The class \<open>Handle\<close> (src/handle.c), the guards of pyuv.h that every method starts with, and
  the helpers of common.c that the callbacks share. The Python program is a parameter: a
  record of what a call of a callable does to the world and of what the attribute
  \<open>excepthook\<close> of a loop is.
\<close>

section \<open>Arguments and guards\<close>

text \<open>
  The arguments of a method are what \<open>PyArg_ParseTuple\<close> makes of them: \<open>Inl e\<close> when it fails
  with the exception \<open>e\<close> set, \<open>Inr a\<close> when it stores \<open>a\<close>. An argument that is an object is a
  reference the caller owns.
\<close>

type_synonym 'a args = "pyexc + 'a"

definition PyArg_Parse :: "'a args \<Rightarrow> world \<Rightarrow> ('a \<Rightarrow> 'b result \<times> world) \<Rightarrow> 'b result \<times> world" where
  "PyArg_Parse args w k = (case args of Inl e \<Rightarrow> (Raise e, w) | Inr a \<Rightarrow> k a)"

definition RAISE_IF_HANDLE_INITIALIZED :: "oid \<Rightarrow> world \<Rightarrow> 'b result \<times> world \<Rightarrow> 'b result \<times> world" where
  "RAISE_IF_HANDLE_INITIALIZED h w k = (if initialized (hs w h) then (Raise RuntimeError, w) else k)"

definition RAISE_IF_HANDLE_NOT_INITIALIZED ::
    "oid \<Rightarrow> world \<Rightarrow> 'b result \<times> world \<Rightarrow> 'b result \<times> world" where
  "RAISE_IF_HANDLE_NOT_INITIALIZED h w k = (if \<not> initialized (hs w h) then (Raise RuntimeError, w) else k)"

definition RAISE_IF_HANDLE_CLOSED :: "oid \<Rightarrow> world \<Rightarrow> 'b result \<times> world \<Rightarrow> 'b result \<times> world" where
  "RAISE_IF_HANDLE_CLOSED h w k = (if uv_is_closing h w then (Raise HandleClosedError, w) else k)"

lemmas guard_defs = PyArg_Parse_def RAISE_IF_HANDLE_INITIALIZED_def
  RAISE_IF_HANDLE_NOT_INITIALIZED_def RAISE_IF_HANDLE_CLOSED_def

definition PyCallable_Check :: "world \<Rightarrow> oid \<Rightarrow> bool" where
  "PyCallable_Check w x = (case kind (objs w ! x) of KObject c \<Rightarrow> c | _ \<Rightarrow> False)"

section \<open>Calling Python\<close>

datatype attr = AttrMissing | AttrRaises | AttrIs oid

text \<open>
  \<open>py_call f args w\<close>: what the call of \<open>f\<close> with \<open>args\<close> does; its result is a new reference or,
  when it is \<open>None\<close>, an exception is set. \<open>py_excepthook l w\<close>: what looking up the attribute
  \<open>excepthook\<close> of \<open>l\<close> gives.
\<close>

record python =
  py_call :: "oid \<Rightarrow> oid list \<Rightarrow> world \<Rightarrow> oid option \<times> world"
  py_excepthook :: "oid \<Rightarrow> world \<Rightarrow> attr"

text \<open>
  \<open>PyObject_CallFunctionObjArgs\<close>: the argument tuple owns its items; a \<open>NULL\<close> callable is an
  error (\<open>SystemError\<close>), not a crash.
\<close>

definition PyObject_Call :: "python \<Rightarrow> oid option \<Rightarrow> oid list \<Rightarrow> world \<Rightarrow> oid option \<times> world" where
  "PyObject_Call py callable args w =
     (case callable of
        None \<Rightarrow> (None, w)
      | Some f \<Rightarrow>
          let (r, w1) = py_call py f args (log_event (Called f args) (fold Py_INCREF args w))
          in (r, release args w1))"

text \<open>
  \<open>handle_uncaught_exception\<close>; \<open>None\<close> is the failure of \<open>ASSERT(loop)\<close>. The exception, its value
  and traceback belong to the interpreter's error indicator and are not objects of the
  heap here, so the call of the hook names only the hook.
\<close>

definition handle_uncaught_exception :: "python \<Rightarrow> oid option \<Rightarrow> world \<Rightarrow> world option" where
  "handle_uncaught_exception py lo w =
     (case lo of
        None \<Rightarrow> None
      | Some l \<Rightarrow> Some (
          case py_excepthook py l w of
            AttrMissing \<Rightarrow> log_event PrintedUnhandled w
          | AttrRaises \<Rightarrow> log_event PrintedUnhandled (log_event HookFailed w)
          | AttrIs hook \<Rightarrow>
              let w1 = Py_INCREF hook w
              in if hook = Py_None then log_event PrintedUnhandled (Py_DECREF hook w1)
                 else case py_call py hook [] (log_event (CalledHook hook) w1) of
                        (None, w2) \<Rightarrow>
                          log_event PrintedUnhandled (Py_DECREF hook (log_event HookFailed w2))
                      | (Some r, w2) \<Rightarrow> Py_DECREF hook (Py_DECREF r w2)))"

text \<open>
  The lines every callback has in common: call, hand an exception to the excepthook of the
  handle's loop, drop the result.
\<close>

definition call_callback ::
    "python \<Rightarrow> oid option \<Rightarrow> oid list \<Rightarrow> (world \<Rightarrow> oid option) \<Rightarrow> world \<Rightarrow> world option" where
  "call_callback py callable args loop_field w =
     (case PyObject_Call py callable args w of
        (Some r, w1) \<Rightarrow> Some (Py_DECREF r w1)
      | (None, w1) \<Rightarrow> handle_uncaught_exception py (loop_field w1) w1)"

section \<open>handle.c\<close>

definition initialize_handle :: "oid \<Rightarrow> oid \<Rightarrow> world \<Rightarrow> world" where
  "initialize_handle self loop w =
     (let tmp = slot_of w self S_loop;
          w1 = Py_XDECREF tmp (put_slot self S_loop (Some loop) (Py_INCREF loop w))
      in upd_handle self (\<lambda>h. h\<lparr>pyref := False, initialized := True\<rparr>) w1)"

definition Handle_func_close :: "oid \<Rightarrow> oid option args \<Rightarrow> world \<Rightarrow> unit result \<times> world" where
  "Handle_func_close self args w =
     RAISE_IF_HANDLE_NOT_INITIALIZED self w
     (RAISE_IF_HANDLE_CLOSED self w
     (PyArg_Parse args w (\<lambda>a.
       let callback = (case a of None \<Rightarrow> Py_None | Some c \<Rightarrow> c)
       in if callback \<noteq> Py_None \<and> \<not> PyCallable_Check w callback then (Raise TypeError, w)
          else let w1 = put_slot self S_on_close_cb (Some callback) (Py_INCREF callback w);
                   w2 = Py_INCREF self w1
               in (Ok (), uv_close self pyuv__handle_close_cb w2))))"

text \<open>
  The two close callbacks. A reference is dropped after the field that holds it has been
  overwritten; the code drops it just before, which no deallocation can tell apart.
  \<open>Py_DECREF\<close> of a field that is \<open>NULL\<close> would crash: the result is \<open>None\<close>.
\<close>

definition run_close_cb :: "python \<Rightarrow> close_cb \<Rightarrow> oid \<Rightarrow> world \<Rightarrow> world option" where
  "run_close_cb py cb self w =
     (case cb of
        pyuv__handle_close_cb \<Rightarrow>
          (let on_close_cb = slot_of w self S_on_close_cb
           in case (if on_close_cb \<noteq> Some Py_None
                    then call_callback py on_close_cb [self] (\<lambda>v. slot_of v self S_loop) w
                    else Some w) of
                None \<Rightarrow> None
              | Some w1 \<Rightarrow>
                  if slot_of w1 self S_on_close_cb = None \<or> slot_of w1 self S_loop = None then None
                  else let w2 = clear_slot self S_on_close_cb w1;
                           w3 = assign_slot self S_loop Py_None w2;
                           w4 = PYUV_HANDLE_DECREF self w3
                       in Some (Py_DECREF self w4))
      | pyuv__handle_dealloc_close_cb \<Rightarrow> Some (Py_DECREF self w))"

definition Handle_active_get :: "oid \<Rightarrow> world \<Rightarrow> bool result \<times> world" where
  "Handle_active_get self w = RAISE_IF_HANDLE_NOT_INITIALIZED self w (Ok (uv_is_active self w), w)"

definition Handle_closed_get :: "oid \<Rightarrow> world \<Rightarrow> bool result \<times> world" where
  "Handle_closed_get self w = RAISE_IF_HANDLE_NOT_INITIALIZED self w (Ok (uv_is_closing self w), w)"

definition Handle_ref_get :: "oid \<Rightarrow> world \<Rightarrow> bool result \<times> world" where
  "Handle_ref_get self w = RAISE_IF_HANDLE_NOT_INITIALIZED self w (Ok (uv_has_ref self w), w)"

text \<open>The setter has no guard; its argument is the \<open>long\<close> that \<open>PyLong_AsLong\<close> gives.\<close>

definition Handle_ref_set :: "oid \<Rightarrow> int args \<Rightarrow> world \<Rightarrow> unit result \<times> world" where
  "Handle_ref_set self args w =
     PyArg_Parse args w (\<lambda>ref. (Ok (), if ref \<noteq> 0 then uv_ref self w else uv_unref self w))"

definition Handle_tp_new :: "hclass \<Rightarrow> world \<Rightarrow> oid result \<times> world" where
  "Handle_tp_new c w = (let (self, w1) = PyType_GenericNew (KHandle c) w in (Ok self, w1))"

text \<open>The caller owns the reference that is returned.\<close>

definition Handle_dict_get :: "oid \<Rightarrow> world \<Rightarrow> oid result \<times> world" where
  "Handle_dict_get self w =
     (case slot_of w self S_dict of
        None \<Rightarrow> let (d, w1) = PyType_GenericNew (KObject False) w
                in (Ok d, Py_INCREF d (put_slot self S_dict (Some d) w1))
      | Some d \<Rightarrow> (Ok d, Py_INCREF d w))"

text \<open>\<open>val\<close> is \<open>None\<close> for \<open>del h.__dict__\<close>; \<open>is_dict\<close> is \<open>PyDict_Check(val)\<close>.\<close>

definition Handle_dict_set :: "oid \<Rightarrow> oid option \<Rightarrow> bool \<Rightarrow> world \<Rightarrow> unit result \<times> world" where
  "Handle_dict_set self val is_dict w =
     (case val of
        None \<Rightarrow> (Raise TypeError, w)
      | Some v \<Rightarrow> if \<not> is_dict then (Raise TypeError, w) else (Ok (), assign_slot self S_dict v w))"

end
