(* ===== verification/Handle_Rules.thy ===== *)
theory Handle_Rules
  imports Handle_Base
begin

text \<open>
  How the invariant of the state is carried through the operations that C functions are
  made of. \<open>ok_but x fr w\<close> is the invariant with the fields of the handle \<open>x\<close> left open:
  that is the state in the middle of a method of \<open>x\<close>, between the call of libuv and the
  assignment of the callback.
\<close>

definition ok_but :: "oid \<Rightarrow> oid multiset \<Rightarrow> world \<Rightarrow> bool" where
  "ok_but x fr w \<longleftrightarrow> wf_refs fr w \<and> uv_inv w \<and> (\<forall>h. h \<noteq> x \<longrightarrow> cb_ok w h)"

lemma ok_imp_but: "ok fr w \<Longrightarrow> ok_but x fr w"
  by (simp add: ok_def ok_but_def)

lemma ok_butD:
  "ok_but x fr w \<Longrightarrow> wf_refs fr w" "ok_but x fr w \<Longrightarrow> uv_inv w"
  "ok_but x fr w \<Longrightarrow> h \<noteq> x \<Longrightarrow> cb_ok w h"
  by (simp_all add: ok_but_def)

lemma ok_but_ok: "ok_but x fr w \<Longrightarrow> cb_ok w x \<Longrightarrow> ok fr w"
  by (auto simp: ok_def ok_but_def)

lemma ok_same:
  assumes "uv_inv w" and "\<And>h. Q h \<Longrightarrow> cb_ok w h"
    and "hs w' = hs w" "\<And>l. uvl w' l = uvl w l" "length (objs w') = length (objs w)"
    "\<And>y. y < length (objs w) \<Longrightarrow> kind (objs w' ! y) = kind (objs w ! y) \<and>
      live (objs w' ! y) = live (objs w ! y) \<and> slots (objs w' ! y) = slots (objs w ! y)"
  shows "uv_inv w'" and "Q h \<Longrightarrow> cb_ok w' h"
proof -
  show "uv_inv w'" by (rule uv_inv_same [OF assms(1)]) (simp_all add: assms(3,4))
  show "cb_ok w' h" if "Q h"
    using assms(2) [OF that] assms(6) [of h] by (simp add: cb_ok_def assms(3,5))
qed

lemma ok_INCREF [ok_intros]:
  assumes "ok fr w" and "valid w y"
  shows "ok (add_mset y fr) (Py_INCREF y w)"
  using ok_same [of w "\<lambda>_. True" "Py_INCREF y w"] assms wf_INCREF by (simp add: ok_def)

lemma ok_but_INCREF [ok_intros]:
  assumes "ok_but x fr w" and "valid w y"
  shows "ok_but x (add_mset y fr) (Py_INCREF y w)"
  using ok_same [of w "\<lambda>h. h \<noteq> x" "Py_INCREF y w"] assms wf_INCREF by (simp add: ok_but_def)

lemma log_event_frame [simp]:
  "objs (log_event e w) = objs w" "hs (log_event e w) = hs w" "loops (log_event e w) = loops w"
  "ext (log_event e w) = ext w" "pend (log_event e w) = pend w"
  by (simp_all add: log_event_def)

lemma upd_Loop_frame [simp]:
  "hs (upd_Loop l f w) = hs w" "ext (upd_Loop l f w) = ext w" "pend (upd_Loop l f w) = pend w"
  "trace (upd_Loop l f w) = trace w"
  by (simp_all add: upd_Loop_def)

lemma ok_log_event [ok_intros]: "ok fr w \<Longrightarrow> ok fr (log_event e w)"
  using ok_same [of w "\<lambda>_. True" "log_event e w"] by (simp add: ok_def)

lemma ok_upd_Loop:
  assumes "ok fr w" and "\<And>x. lp (f x) = lp x"
  shows "ok fr (upd_Loop l f w)"
proof -
  have "uvl (upd_Loop l f w) x = uvl w x" for x
    by (simp add: upd_Loop_def assms(2))
  then show ?thesis
    using ok_same [of w "\<lambda>_. True" "upd_Loop l f w"] assms by (simp add: ok_def)
qed

lemma ok_but_release [ok_intros]: "ok_but x (mset xs + fr) w \<Longrightarrow> ok_but x fr (release xs w)"
  using ok_release_gen [of xs fr w "\<lambda>h. h \<noteq> x"] by (auto simp: ok_but_def)

lemma ok_but_XDECREF: "ok_but x (mset_opt v + fr) w \<Longrightarrow> ok_but x fr (Py_XDECREF v w)"
  using ok_but_release [of x "[the v]" fr w] by (cases v) (simp_all add: Py_XDECREF_def)

section \<open>What a held object sees of a release\<close>

lemma held_release:
  assumes "wf_refs (mset xs + fr) w" and "held fr w y"
  shows "hs (release xs w) y = hs w y" "slots (objs (release xs w) ! y) = slots (objs w ! y)"
  using release_held [OF assms(1), of y] assms(2) by (auto simp: held_def)

lemma release_frame [simp]:
  "ext (release xs w) = ext w" "pend (release xs w) = pend w" "trace (release xs w) = trace w"
  "length (objs (release xs w)) = length (objs w)"
  "kind (objs (release xs w) ! y) = kind (objs w ! y)"
  "initialized (hs (release xs w) y) = initialized (hs w y)"
  "pyref (hs (release xs w) y) = pyref (hs w y)"
  "u_closed (uvh (release xs w) y) = u_closed (uvh w y)"
  "u_loop (uvh (release xs w) y) = u_loop (uvh w y)"
  "u_type (uvh (release xs w) y) = u_type (uvh w y)"
  using kept_release [of w xs] by (simp_all add: kept_def)

lemma XDECREF_frame [simp]:
  "ext (Py_XDECREF v w) = ext w" "pend (Py_XDECREF v w) = pend w" "trace (Py_XDECREF v w) = trace w"
  "length (objs (Py_XDECREF v w)) = length (objs w)"
  "kind (objs (Py_XDECREF v w) ! y) = kind (objs w ! y)"
  "initialized (hs (Py_XDECREF v w) y) = initialized (hs w y)"
  "pyref (hs (Py_XDECREF v w) y) = pyref (hs w y)"
  "u_closed (uvh (Py_XDECREF v w) y) = u_closed (uvh w y)"
  "u_loop (uvh (Py_XDECREF v w) y) = u_loop (uvh w y)"
  "u_type (uvh (Py_XDECREF v w) y) = u_type (uvh w y)"
  by (simp_all add: Py_XDECREF_def split: option.splits)

lemma held_XDECREF:
  assumes "wf_refs (mset_opt v + fr) w" and "held fr w y"
  shows "hs (Py_XDECREF v w) y = hs w y" "slots (objs (Py_XDECREF v w) ! y) = slots (objs w ! y)"
  using assms held_release [of "[the v]" fr w y] by (auto simp: Py_XDECREF_def split: option.splits)

lemma held_cong: "ext w' = ext w \<Longrightarrow> held fr w' x = held fr w x"
  by (simp add: held_def)

section \<open>Fields\<close>

lemma nth_put_slot:
  "x < length (objs w) \<Longrightarrow>
   slots (objs (put_slot x s v w) ! y) = (if y = x then (slots (objs w ! x))(s := v) else slots (objs w ! y))"
  by (auto simp: put_slot_def upd_obj_def)

lemma live_put_slot [simp]: "live (objs (put_slot x s v w) ! y) = live (objs w ! y)"
  by (cases "x < length (objs w)"; cases "x = y")
    (simp_all add: put_slot_def upd_obj_def list_update_beyond)

lemma ok_but_put_slot:
  assumes "ok_but x (mset_opt v + fr) w" and "x < length (objs w)"
    and "s \<in> set (subtype_clear (kind (objs w ! x)))"
    and "s = S_loop \<Longrightarrow> initialized (hs w x) \<Longrightarrow> u_closed (uvh w x)"
    and "s = S_on_close_cb \<Longrightarrow> v \<noteq> None \<or> \<not> u_closing (uvh w x) \<or> u_closed (uvh w x)"
  shows "ok_but x (mset_opt (slot_of w x s) + fr) (put_slot x s v w)"
proof -
  have "wf_refs (mset_opt (slot_of w x s) + fr) (put_slot x s v w)"
    using wf_put_slot [OF ok_butD(1) [OF assms(1)] assms(2,3)] assms(4,5) by blast
  moreover have "uv_inv (put_slot x s v w)"
    by (rule uv_inv_same [OF ok_butD(2) [OF assms(1)]]) simp_all
  moreover have "cb_ok (put_slot x s v w) h" if "h \<noteq> x" for h
    by (rule cb_ok_cong [OF ok_butD(3) [OF assms(1) that]])
      (use that assms(2) in \<open>simp_all add: nth_put_slot\<close>)
  ultimately show ?thesis by (simp add: ok_but_def)
qed

lemma assign_slot_frame [simp]:
  "ext (assign_slot x s v w) = ext w" "pend (assign_slot x s v w) = pend w"
  "trace (assign_slot x s v w) = trace w" "length (objs (assign_slot x s v w)) = length (objs w)"
  "kind (objs (assign_slot x s v w) ! y) = kind (objs w ! y)"
  "initialized (hs (assign_slot x s v w) y) = initialized (hs w y)"
  "pyref (hs (assign_slot x s v w) y) = pyref (hs w y)"
  "u_closed (uvh (assign_slot x s v w) y) = u_closed (uvh w y)"
  "u_loop (uvh (assign_slot x s v w) y) = u_loop (uvh w y)"
  "u_type (uvh (assign_slot x s v w) y) = u_type (uvh w y)"
  by (simp_all add: assign_slot_def Let_def)

lemma clear_slot_frame [simp]:
  "ext (clear_slot x s w) = ext w" "pend (clear_slot x s w) = pend w"
  "trace (clear_slot x s w) = trace w" "length (objs (clear_slot x s w)) = length (objs w)"
  "kind (objs (clear_slot x s w) ! y) = kind (objs w ! y)"
  "initialized (hs (clear_slot x s w) y) = initialized (hs w y)"
  "pyref (hs (clear_slot x s w) y) = pyref (hs w y)"
  "u_closed (uvh (clear_slot x s w) y) = u_closed (uvh w y)"
  "u_loop (uvh (clear_slot x s w) y) = u_loop (uvh w y)"
  "u_type (uvh (clear_slot x s w) y) = u_type (uvh w y)"
  by (simp_all add: clear_slot_def Let_def)

lemma ok_but_assign_slot:
  assumes ok: "ok_but x fr w" and v: "valid w v" and x: "x < length (objs w)"
    and s: "s \<in> set (subtype_clear (kind (objs w ! x)))"
    and l: "s = S_loop \<Longrightarrow> initialized (hs w x) \<Longrightarrow> u_closed (uvh w x)"
  shows "ok_but x fr (assign_slot x s v w)"
    and "held fr w y \<Longrightarrow> hs (assign_slot x s v w) y = hs w y"
    and "held fr w y \<Longrightarrow> slots (objs (assign_slot x s v w) ! y) =
      (if y = x then (slots (objs w ! x))(s := Some v) else slots (objs w ! y))"
proof -
  let ?p = "put_slot x s (Some v) (Py_INCREF v w)"
  have "ok_but x (mset_opt (slot_of (Py_INCREF v w) x s) + fr) ?p"
    by (rule ok_but_put_slot) (use ok_but_INCREF [OF ok v] x s l in auto)
  then have p: "ok_but x (mset_opt (slot_of w x s) + fr) ?p" by simp
  then show "ok_but x fr (assign_slot x s v w)"
    by (simp add: assign_slot_def Let_def ok_but_XDECREF)
  assume h: "held fr w y"
  have h': "held fr ?p y" using h by (simp add: held_def)
  show "hs (assign_slot x s v w) y = hs w y"
    using held_XDECREF(1) [OF ok_butD(1) [OF p] h'] by (simp add: assign_slot_def Let_def)
  show "slots (objs (assign_slot x s v w) ! y) =
      (if y = x then (slots (objs w ! x))(s := Some v) else slots (objs w ! y))"
    using held_XDECREF(2) [OF ok_butD(1) [OF p] h'] x by (simp add: assign_slot_def Let_def nth_put_slot)
qed

lemma ok_but_clear_slot:
  assumes ok: "ok_but x fr w" and x: "x < length (objs w)"
    and s: "s \<in> set (subtype_clear (kind (objs w ! x)))"
    and l: "s = S_loop \<Longrightarrow> initialized (hs w x) \<Longrightarrow> u_closed (uvh w x)"
    and c: "s = S_on_close_cb \<Longrightarrow> \<not> u_closing (uvh w x) \<or> u_closed (uvh w x)"
  shows "ok_but x fr (clear_slot x s w)"
    and "held fr w y \<Longrightarrow> hs (clear_slot x s w) y = hs w y"
    and "held fr w y \<Longrightarrow> slots (objs (clear_slot x s w) ! y) =
      (if y = x then (slots (objs w ! x))(s := None) else slots (objs w ! y))"
proof -
  let ?p = "put_slot x s None w"
  have p: "ok_but x (mset_opt (slot_of w x s) + fr) ?p"
    by (rule ok_but_put_slot) (use ok x s l c in auto)
  then show "ok_but x fr (clear_slot x s w)"
    by (simp add: clear_slot_def Let_def ok_but_XDECREF)
  assume h: "held fr w y"
  have h': "held fr ?p y" using h by (simp add: held_def)
  show "hs (clear_slot x s w) y = hs w y"
    using held_XDECREF(1) [OF ok_butD(1) [OF p] h'] by (simp add: clear_slot_def Let_def)
  show "slots (objs (clear_slot x s w) ! y) =
      (if y = x then (slots (objs w ! x))(s := None) else slots (objs w ! y))"
    using held_XDECREF(2) [OF ok_butD(1) [OF p] h'] x by (simp add: clear_slot_def Let_def nth_put_slot)
qed

section \<open>The handle reference\<close>

lemma uvl_upd_handle [simp]: "uvl (upd_handle h f w) l = uvl w l" "loops (upd_handle h f w) = loops w"
  by (simp_all add: upd_handle_def)

lemma hs_upd_handle [simp]: "hs (upd_handle h f w) x = (if x = h then f (hs w h) else hs w x)"
  by (simp add: upd_handle_def)

lemma upd_handle_frame [simp]:
  "ext (upd_handle h f w) = ext w" "pend (upd_handle h f w) = pend w" "trace (upd_handle h f w) = trace w"
  by (simp_all add: upd_handle_def)

lemma hs_HANDLE_INCREF [simp]:
  "hs (PYUV_HANDLE_INCREF h w) x = (if x = h then (hs w h)\<lparr>pyref := True\<rparr> else hs w x)"
  by (cases "hs w h") (auto simp: PYUV_HANDLE_INCREF_def)

lemma HANDLE_INCREF_frame [simp]:
  "ext (PYUV_HANDLE_INCREF h w) = ext w" "pend (PYUV_HANDLE_INCREF h w) = pend w"
  "trace (PYUV_HANDLE_INCREF h w) = trace w" "loops (PYUV_HANDLE_INCREF h w) = loops w"
  "length (objs (PYUV_HANDLE_INCREF h w)) = length (objs w)"
  "kind (objs (PYUV_HANDLE_INCREF h w) ! y) = kind (objs w ! y)"
  "live (objs (PYUV_HANDLE_INCREF h w) ! y) = live (objs w ! y)"
  "slots (objs (PYUV_HANDLE_INCREF h w) ! y) = slots (objs w ! y)"
  by (simp_all add: PYUV_HANDLE_INCREF_def)

lemma ok_but_HANDLE_INCREF:
  assumes ok: "ok_but x fr w" and "valid w x" and "initialized (hs w x)"
  shows "ok_but x fr (PYUV_HANDLE_INCREF x w)"
proof -
  have "uv_inv (PYUV_HANDLE_INCREF x w)"
    by (rule uv_inv_same [OF ok_butD(2) [OF ok]]) auto
  moreover have "cb_ok (PYUV_HANDLE_INCREF x w) h" if "h \<noteq> x" for h
    by (rule cb_ok_cong [OF ok_butD(3) [OF ok that]]) (use that in auto)
  ultimately show ?thesis
    using wf_HANDLE_INCREF [OF ok_butD(1) [OF ok] assms(2,3)] by (simp add: ok_but_def)
qed

lemma ok_but_HANDLE_DECREF:
  assumes ok: "ok_but x fr w"
  shows "ok_but x fr (PYUV_HANDLE_DECREF x w)"
    and "held fr w y \<Longrightarrow> hs (PYUV_HANDLE_DECREF x w) y = (if y = x then (hs w x)\<lparr>pyref := False\<rparr> else hs w y)"
    and "held fr w y \<Longrightarrow> slots (objs (PYUV_HANDLE_DECREF x w) ! y) = slots (objs w ! y)"
proof -
  let ?u = "upd_handle x (\<lambda>h. h\<lparr>pyref := False\<rparr>) w"
  have i: "uv_inv ?u"
    by (rule uv_inv_same [OF ok_butD(2) [OF ok]]) auto
  have c: "cb_ok ?u h" if "h \<noteq> x" for h
    by (rule cb_ok_cong [OF ok_butD(3) [OF ok that]]) (use that in auto)
  have u: "ok_but x (mset [x] + fr) ?u" if "pyref (hs w x)"
    using wf_clear_pyref [OF ok_butD(1) [OF ok] that] i c by (simp add: ok_but_def)
  then show "ok_but x fr (PYUV_HANDLE_DECREF x w)"
    using ok ok_but_release [of x "[x]" fr ?u] by (auto simp: PYUV_HANDLE_DECREF_def)
  assume h: "held fr w y"
  then have h': "held fr ?u y" by (simp add: held_def)
  show "hs (PYUV_HANDLE_DECREF x w) y = (if y = x then (hs w x)\<lparr>pyref := False\<rparr> else hs w y)"
    using held_release(1) [OF ok_butD(1) [OF u] h'] by (cases "hs w x") (auto simp: PYUV_HANDLE_DECREF_def)
  show "slots (objs (PYUV_HANDLE_DECREF x w) ! y) = slots (objs w ! y)"
    using held_release(2) [OF ok_butD(1) [OF u] h'] by (auto simp: PYUV_HANDLE_DECREF_def)
qed

lemma HANDLE_DECREF_frame [simp]:
  "ext (PYUV_HANDLE_DECREF h w) = ext w" "pend (PYUV_HANDLE_DECREF h w) = pend w"
  "trace (PYUV_HANDLE_DECREF h w) = trace w"
  "length (objs (PYUV_HANDLE_DECREF h w)) = length (objs w)"
  "kind (objs (PYUV_HANDLE_DECREF h w) ! y) = kind (objs w ! y)"
  "initialized (hs (PYUV_HANDLE_DECREF h w) y) = initialized (hs w y)"
  "u_closed (uvh (PYUV_HANDLE_DECREF h w) y) = u_closed (uvh w y)"
  by (simp_all add: PYUV_HANDLE_DECREF_def)

end
