(* ===== verification/Method_Rules.thy ===== *)
theory Method_Rules
  imports Handle_Rules
begin

text \<open>
  The rules for the shapes that all handle classes share: \<open>start\<close> (libuv, then the callback,
  then the handle reference), \<open>stop\<close>, \<open>__init__\<close>, and a callback from the loop, which calls
  Python. What the Python program may do is the locale \<open>python_program\<close>.
\<close>

section \<open>A libuv call\<close>

lemma ok_but_quiet:
  assumes ok: "ok_but x fr w" and q: "uv_quiet w w'" and loc: "uv_local x w w'" and inv: "uv_inv w'"
  shows "ok_but x fr w'"
proof -
  have "cb_ok w' h" if "h \<noteq> x" for h
    by (rule cb_ok_cong [OF ok_butD(3) [OF ok that]])
      (use q loc that in \<open>auto simp: uv_quiet_def uv_local_def\<close>)
  then show ?thesis
    using wf_quiet [OF q ok_butD(1) [OF ok]] inv by (simp add: ok_but_def)
qed

text \<open>What is known of a handle that a method accepts.\<close>

definition open_handle :: "world \<Rightarrow> oid \<Rightarrow> hclass \<Rightarrow> bool" where
  "open_handle w h c \<longleftrightarrow> valid w h \<and> kind (objs w ! h) = KHandle c \<and> initialized (hs w h) \<and>
     \<not> u_closing (uvh w h) \<and> \<not> u_closed (uvh w h)"

lemma open_handleI:
  assumes "ok fr w" and "held fr w h" and "kind (objs w ! h) = KHandle c" and "initialized (hs w h)"
    and "\<not> uv_is_closing h w"
  shows "open_handle w h c"
  using assms held_valid [OF okD(1) [OF assms(1)] assms(2)] by (simp add: open_handle_def uv_is_closing_def)

lemma open_handleD:
  assumes "ok fr w" and "open_handle w h c"
  shows "h < length (objs w)" "valid w h" "field_ok c (hs w h) (slots (objs w ! h))"
    "slot_of w h S_loop \<noteq> None" "slot_of w h S_on_close_cb = None"
    "u_type (uvh w h) = Some (uv_type_of c)"
    "\<exists>l. u_loop (uvh w h) = Some l \<and> slot_of w h S_loop = Some l \<and> is_loop w l"
proof -
  show h: "h < length (objs w)" "valid w h"
    using assms(2) by (auto simp: open_handle_def valid_def)
  show f: "field_ok c (hs w h) (slots (objs w ! h))" and "slot_of w h S_loop \<noteq> None"
    using okD(3) [OF assms(1), of h] assms(2) by (auto simp: cb_ok_def open_handle_def valid_def)
  show "slot_of w h S_on_close_cb = None"
    using f assms(2) by (simp add: field_ok_def open_handle_def)
  show "u_type (uvh w h) = Some (uv_type_of c)"
    using wf_handle_ok [OF okD(1) [OF assms(1)], of h] assms(2)
    by (auto simp: handle_ok_def open_handle_def)
  show "\<exists>l. u_loop (uvh w h) = Some l \<and> slot_of w h S_loop = Some l \<and> is_loop w l"
    using wf_loop_valid [OF okD(1) [OF assms(1)], of h] assms(2) by (auto simp: open_handle_def)
qed

section \<open>start and stop\<close>

definition cb_slot :: "hclass \<Rightarrow> slot" where
  "cb_slot c = (if reads_class c then S_on_read_cb else S_callback)"

lemma cb_slot_clear: "fires c u \<or> reads_class c \<or> keeps_alive c \<Longrightarrow> cb_slot c \<in> set (handle_tp_clear c)"
  by (cases c) (auto simp: cb_slot_def reads_class_def keeps_alive_def tp_clear_defs)

lemma cb_slot_neq [simp]: "cb_slot c \<noteq> S_loop" "cb_slot c \<noteq> S_on_close_cb"
  by (simp_all add: cb_slot_def)

text \<open>
  \<open>start\<close>: after libuv has started the handle, the callback is stored and the handle takes its
  reference.
\<close>

lemma ok_started:
  assumes ok: "ok fr w" and o: "open_handle w x c" and h: "held fr w x" and v: "held fr w v"
    and q: "uv_quiet w w1" and loc: "uv_local x w w1" and inv: "uv_inv w1"
    and s: "cb_slot c \<in> set (handle_tp_clear c)"
    and fd: "reads_class c \<Longrightarrow> u_reading (uvh w1 x) \<Longrightarrow> 0 \<le> u_fd (uvh w1 x)"
  shows "ok fr (PYUV_HANDLE_INCREF x (assign_slot x (cb_slot c) v w1))"
proof -
  note D = open_handleD [OF ok o]
  have e: "objs w1 = objs w" "ext w1 = ext w" using q by (auto simp: uv_quiet_def)
  have b1: "ok_but x fr w1" by (rule ok_but_quiet [OF ok_imp_but [OF ok] q loc inv])
  have v1: "valid w1 v" using held_valid [OF okD(1) [OF ok] v] by (simp add: valid_def e)
  have h1: "held fr w1 x" using h by (simp add: held_def e)
  define w2 where "w2 = assign_slot x (cb_slot c) v w1"
  have k: "kind (objs w ! x) = KHandle c" "initialized (hs w x)" using o by (auto simp: open_handle_def)
  note A = ok_but_assign_slot [OF b1 v1, where s = "cb_slot c"]
  have pre: "x < length (objs w1)" "cb_slot c \<in> set (subtype_clear (kind (objs w1 ! x)))"
    using D(1) s k by (simp_all add: e)
  have b2: "ok_but x fr w2" and hs2: "hs w2 x = hs w1 x"
    and sl2: "slots (objs w2 ! x) = (slots (objs w ! x))(cb_slot c := Some v)"
    and k2: "kind (objs w2 ! x) = KHandle c" "initialized (hs w2 x) = initialized (hs w1 x)"
    using A [OF pre] h1 k by (simp_all add: e w2_def)
  have h2: "held fr w2 x" using h1 by (simp add: held_def w2_def)
  have i1: "initialized (hs w1 x)" "\<not> u_closing (uvh w1 x)" "u_listening (uvh w1 x) = u_listening (uvh w x)"
    using q o by (auto simp: uv_quiet_def open_handle_def)
  have "ok_but x fr (PYUV_HANDLE_INCREF x w2)"
    by (rule ok_but_HANDLE_INCREF [OF b2 held_valid [OF ok_butD(1) [OF b2] h2]]) (use i1 k2 in simp)
  moreover have "cb_ok (PYUV_HANDLE_INCREF x w2) x"
    using D(3,4,5) k i1 fd by (cases c)
      (auto simp: cb_ok_def field_ok_def sl2 hs2 k2 cb_slot_def reads_class_def keeps_alive_def)
  ultimately show ?thesis unfolding w2_def by (rule ok_but_ok)
qed

text \<open>
  \<open>stop\<close>: libuv has stopped the handle, its reference is returned; the callback is dropped
  (\<open>ok_stopped_clear\<close>) or stays (\<open>ok_stopped\<close>).
\<close>

lemma ok_stopped:
  assumes ok: "ok fr w" and o: "open_handle w x c" and h: "held fr w x"
    and q: "uv_quiet w w1" and loc: "uv_local x w w1" and inv: "uv_inv w1"
    and st: "keeps_alive c \<or> fires c (uvh w1 x) \<Longrightarrow> \<not> u_active (uvh w1 x)"
    and rd: "reads_class c \<Longrightarrow> \<not> u_reading (uvh w1 x)"
    and tm: "fires c (uvh w1 x) \<Longrightarrow> fires c (uvh w x)"
  shows "ok fr (PYUV_HANDLE_DECREF x w1)"
proof -
  note D = open_handleD [OF ok o]
  have e: "objs w1 = objs w" "ext w1 = ext w" using q by (auto simp: uv_quiet_def)
  have b1: "ok_but x fr w1" by (rule ok_but_quiet [OF ok_imp_but [OF ok] q loc inv])
  have h1: "held fr w1 x" using h by (simp add: held_def e)
  note R = ok_but_HANDLE_DECREF [OF b1]
  have i: "initialized (hs w1 x)" "\<not> u_closing (uvh w1 x)" "kind (objs w ! x) = KHandle c"
    "initialized (hs w x)" "\<not> u_closing (uvh w x)" "u_listening (uvh w1 x) = u_listening (uvh w x)"
    using q o by (auto simp: uv_quiet_def open_handle_def)
  have "cb_ok (PYUV_HANDLE_DECREF x w1) x"
    using D(3,4) i st rd tm h1
    by (auto simp: cb_ok_def field_ok_def R(2,3) e)
  with R(1) show ?thesis by (rule ok_but_ok)
qed

lemma ok_stopped_clear:
  assumes ok: "ok fr w" and o: "open_handle w x c" and h: "held fr w x"
    and q: "uv_quiet w w1" and loc: "uv_local x w w1" and inv: "uv_inv w1"
    and st: "\<not> u_active (uvh w1 x) \<or> reads_class c" and c: "c \<noteq> TimerC"
    and rd: "reads_class c \<Longrightarrow> \<not> u_reading (uvh w1 x)"
    and s: "cb_slot c \<in> set (handle_tp_clear c)"
  shows "ok fr (PYUV_HANDLE_DECREF x (clear_slot x (cb_slot c) w1))"
proof -
  note D = open_handleD [OF ok o]
  have e: "objs w1 = objs w" "ext w1 = ext w" using q by (auto simp: uv_quiet_def)
  have b1: "ok_but x fr w1" by (rule ok_but_quiet [OF ok_imp_but [OF ok] q loc inv])
  have h1: "held fr w1 x" using h by (simp add: held_def e)
  have i: "initialized (hs w1 x)" "\<not> u_closing (uvh w1 x)" "kind (objs w ! x) = KHandle c"
    "initialized (hs w x)" "\<not> u_closing (uvh w x)" "u_listening (uvh w1 x) = u_listening (uvh w x)"
    using q o by (auto simp: uv_quiet_def open_handle_def)
  have pre: "x < length (objs w1)" "cb_slot c \<in> set (subtype_clear (kind (objs w1 ! x)))"
    using D(1) s i(3) by (simp_all add: e)
  let ?w2 = "clear_slot x (cb_slot c) w1"
  have b2: "ok_but x fr ?w2" and hs2: "hs ?w2 x = hs w1 x"
    and sl2: "slots (objs ?w2 ! x) = (slots (objs w ! x))(cb_slot c := None)"
    using ok_but_clear_slot [OF b1 pre] h1 by (simp_all add: e)
  have h2: "held fr ?w2 x" using h1 by (simp add: held_def)
  define w3 where "w3 = PYUV_HANDLE_DECREF x ?w2"
  have b3: "ok_but x fr w3" unfolding w3_def by (rule ok_but_HANDLE_DECREF(1) [OF b2])
  have hs3: "hs w3 x = (hs w1 x)\<lparr>pyref := False\<rparr>"
    and sl3: "slots (objs w3 ! x) = (slots (objs w ! x))(cb_slot c := None)"
    and k3: "kind (objs w3 ! x) = KHandle c"
    using ok_but_HANDLE_DECREF(2,3) [OF b2 h2] i(3) by (simp_all add: w3_def hs2 sl2 e)
  have "cb_ok w3 x"
    using D(3,4) i st rd c by (cases c)
      (auto simp: cb_ok_def field_ok_def hs3 sl3 k3 reads_class_def keeps_alive_def cb_slot_def)
  with b3 show ?thesis unfolding w3_def by (rule ok_but_ok)
qed

text \<open>A libuv call that no field depends on.\<close>

lemma ok_quiet_fields:
  assumes ok: "ok fr w" and q: "uv_quiet w w1" and loc: "uv_local x w w1" and inv: "uv_inv w1"
    and f: "\<And>c. kind (objs w ! x) = KHandle c \<Longrightarrow> (fires c (uvh w1 x) \<longrightarrow> fires c (uvh w x)) \<and>
      (keeps_alive c \<and> u_active (uvh w1 x) \<longrightarrow> u_active (uvh w x)) \<and>
      (reads_class c \<and> u_reading (uvh w1 x) \<longrightarrow> u_reading (uvh w x) \<and>
        (0 \<le> u_fd (uvh w x) \<longrightarrow> 0 \<le> u_fd (uvh w1 x)))"
  shows "ok fr w1"
proof -
  have b1: "ok_but x fr w1" by (rule ok_but_quiet [OF ok_imp_but [OF ok] q loc inv])
  have "cb_ok w1 x"
    using okD(3) [OF ok, of x] q f unfolding cb_ok_def field_ok_def uv_quiet_def by metis
  with b1 show ?thesis by (rule ok_but_ok)
qed

section \<open>Initialising a handle\<close>

text \<open>
  \<open>w0\<close> is the state with the Python fields that \<open>__init__\<close> sets itself, \<open>w1\<close> adds what libuv
  did to the struct of \<open>x\<close>; then \<open>initialize_handle\<close> runs.
\<close>

lemma ok_initialized:
  assumes ok: "ok_but x fr w0" and h: "held fr w0 x" and k: "kind (objs w0 ! x) = KHandle c"
    and ni: "\<not> initialized (hs w0 x)" and sl: "slot_of w0 x S_loop = None" "slot_of w0 x S_on_close_cb = None"
    and l: "is_loop w0 l"
    and e: "objs w1 = objs w0" "ext w1 = ext w0" "pend w1 = pend w0"
    and o: "\<And>y. y \<noteq> x \<Longrightarrow> hs w1 y = hs w0 y"
    and u: "u_loop (uvh w1 x) = Some l" "u_type (uvh w1 x) = Some (uv_type_of c)"
      "\<not> u_closing (uvh w1 x)" "\<not> u_closed (uvh w1 x)" "\<not> u_reading (uvh w1 x)" "\<not> u_listening (uvh w1 x)"
      "\<not> u_shutting (uvh w1 x)" "\<not> u_connect (uvh w1 x)"
      "keeps_alive c \<Longrightarrow> \<not> u_active (uvh w1 x)"
      "fires c (uvh w1 x) \<Longrightarrow> slot_of w0 x S_callback \<noteq> None"
    and inv: "uv_inv w1"
  shows "ok fr (initialize_handle x l w1)"
proof -
  have v: "valid w0 x" by (rule held_valid [OF ok_butD(1) [OF ok] h])
  then have x: "x < length (objs w0)" by (simp add: valid_def)
  define w2 where "w2 = put_slot x S_loop (Some l) (Py_INCREF l w0)"
  have "ok_but x (mset_opt (Some l) + fr) (Py_INCREF l w0)"
    using ok_but_INCREF [OF ok, of l] l by (simp add: is_loop_def)
  from ok_but_put_slot [OF this, of S_loop] x k ni sl
  have b2: "ok_but x fr w2"
    by (cases c) (simp_all add: w2_def tp_clear_defs)
  define w' where "w' = initialize_handle x l w1"
  define s where "s = (hs w1 x)\<lparr>pyref := False, initialized := True\<rparr>"
  have w'_eq: "w' = upd_handle x (\<lambda>h. h\<lparr>pyref := False, initialized := True\<rparr>)
      (put_slot x S_loop (Some l) (Py_INCREF l w1))"
    using sl by (simp add: w'_def initialize_handle_def Let_def Py_XDECREF_def e)
  have f: "objs w' = objs w2" "ext w' = ext w2" "pend w' = pend w2" "hs w' = (hs w2)(x := s)"
    using o by (auto simp: w'_eq w2_def s_def upd_handle_def put_slot_def Py_INCREF_def upd_obj_def e fun_eq_iff)
  have i2: "hs w2 = hs w0" by (simp add: w2_def)
  have nr: "\<not> pyref (hs w2 x)" "\<not> u_closing (uvh w2 x)" "\<forall>r \<in> set (pend w2). rq_obj r \<noteq> x"
    using wf_handle_ok [OF ok_butD(1) [OF b2], of x] ni by (auto simp: handle_ok_def i2)
  have sl2: "slots (objs w2 ! x) = (slots (objs w0 ! x))(S_loop := Some l)"
    using x by (simp add: w2_def nth_put_slot)
  have k2: "kind (objs w2 ! y) = kind (objs w0 ! y)" "live (objs w2 ! y) = live (objs w0 ! y)"
    "length (objs w2) = length (objs w0)" for y
    by (simp_all add: w2_def)
  have wf2: "wf_refs fr (w2\<lparr>hs := (hs w2)(x := s)\<rparr>)"
  proof (rule wf_hs_upd [OF ok_butD(1) [OF b2]])
    show "handle_ok (w2\<lparr>hs := (hs w2)(x := s)\<rparr>) x"
      using u(1-8) k x v l nr(3)
      by (auto simp: handle_ok_def s_def is_handle_def valid_def k2 sl2 is_loop_def)
  qed (use nr u in \<open>simp add: self_refs_def s_def\<close>)
  have "wf_refs fr w'"
    by (rule wf_same_ledger [OF _ wf2]) (simp add: same_ledger_def f)
  moreover have "uv_inv w'"
    by (rule uv_inv_same [OF inv]) (auto simp: w'_eq)
  moreover have "cb_ok w' y" for y
  proof (cases "y = x")
    case True
    then show ?thesis
      using u sl k x by (cases c)
        (auto simp: cb_ok_def field_ok_def f s_def sl2 k2 keeps_alive_def reads_class_def)
  next
    case False
    show ?thesis
      by (rule cb_ok_cong [OF ok_butD(3) [OF b2 False]]) (use False in \<open>simp_all add: f\<close>)
  qed
  ultimately show ?thesis by (simp add: ok_def w'_def)
qed

text \<open>What is known of an object that was never initialised.\<close>

lemma uninitD:
  assumes "ok fr w" and "held fr w x" and "kind (objs w ! x) = KHandle c" and "\<not> initialized (hs w x)"
  shows "slot_of w x S_loop = None" "slot_of w x S_on_close_cb = None" "u_loop (uvh w x) = None"
    "x < length (objs w)" "\<not> u_closing (uvh w x)" "\<not> u_active (uvh w x)" "\<not> u_closed (uvh w x)"
    "slot_of w x S_callback = None" "\<not> u_listening (uvh w x)" "\<not> u_connect (uvh w x)"
proof -
  have v: "valid w x" by (rule held_valid [OF okD(1) [OF assms(1)] assms(2)])
  then have f: "field_ok c (hs w x) (slots (objs w ! x))"
    using okD(3) [OF assms(1), of x] assms(3) by (auto simp: cb_ok_def valid_def)
  then show "slot_of w x S_loop = None" "slot_of w x S_on_close_cb = None" "u_loop (uvh w x) = None"
    "slot_of w x S_callback = None" "\<not> u_listening (uvh w x)" "\<not> u_connect (uvh w x)"
    using assms(4) by (auto simp: field_ok_def)
  then show "\<not> u_closing (uvh w x)" "\<not> u_active (uvh w x)" "\<not> u_closed (uvh w x)"
    using uv_inv_uh [OF okD(2) [OF assms(1)], of x] by (auto simp: uh_ok_def)
  show "x < length (objs w)" using v by (simp add: valid_def)
qed

section \<open>What the Python program may do\<close>

text \<open>
  Between two points of the extension's C code the program may do anything that the
  extension lets it do; \<open>undisturbed\<close> is what stays: objects keep their type, an initialised
  handle stays initialised on its loop, no signal is dispatched and no close finishes (the
  loop is not run recursively), and the fields of a handle whose close callback is running
  are left alone, as long as the handle is alive. Requests are only added, and never to a
  handle that is closing; the trace only grows; the descriptor of an open stream goes only when
  the stream is closed; no connection is taken in.
\<close>

definition pend_grows :: "world \<Rightarrow> world \<Rightarrow> bool" where
  "pend_grows w w' \<longleftrightarrow> (\<exists>rs. pend w' = pend w @ rs \<and>
     (\<forall>r \<in> set rs. rq_obj r < length (objs w) \<longrightarrow> \<not> u_closing (uvh w (rq_obj r)) \<and>
        (initialized (hs w (rq_obj r)) \<and> u_processing (uvh w (rq_obj r)) \<longrightarrow> rq_status r = None)))"

lemma pend_grows_same [simp]: "pend w' = pend w \<Longrightarrow> pend_grows w w'"
  by (simp add: pend_grows_def)

definition undisturbed :: "world \<Rightarrow> world \<Rightarrow> bool" where
  "undisturbed w w' \<longleftrightarrow> length (objs w) \<le> length (objs w') \<and>
     (\<forall>x < length (objs w). kind (objs w' ! x) = kind (objs w ! x) \<and>
        (initialized (hs w x) \<longrightarrow> initialized (hs w' x) \<and> u_loop (uvh w' x) = u_loop (uvh w x) \<and>
           u_caught (uvh w' x) = u_caught (uvh w x) \<and> u_dispatched (uvh w' x) = u_dispatched (uvh w x) \<and>
           u_closed (uvh w' x) = u_closed (uvh w x)) \<and>
        (u_closed (uvh w x) \<longrightarrow> u_closed (uvh w' x) \<and> (valid w' x \<longrightarrow> valid w x \<and>
           slot_of w' x S_loop = slot_of w x S_loop \<and>
           slot_of w' x S_on_close_cb = slot_of w x S_on_close_cb)) \<and>
        (u_closing (uvh w x) \<longrightarrow> u_closing (uvh w' x))) \<and>
     (\<forall>x < length (objs w). initialized (hs w x) \<longrightarrow> follows (uvh w x) (uvh w' x)) \<and>
     (\<forall>l < length (objs w). same_local (uvl w l) (uvl w' l)) \<and>
     (\<forall>x. u_processing (uvh w' x) \<longrightarrow> u_processing (uvh w x)) \<and>
     prefix (trace w) (trace w') \<and> pend_grows w w'"

lemma zero_processing [simp]: "\<not> u_processing uv_zero" "\<not> u_processing (uv handle_zero)"
  by (simp_all add: uv_zero_def handle_zero_def)

lemma stable_refl [simp]: "undisturbed w w"
  by (simp add: undisturbed_def)

lemma stable_trans: "undisturbed a b \<Longrightarrow> undisturbed b c \<Longrightarrow> undisturbed a c"
proof -
  assume ab: "undisturbed a b" and bc: "undisturbed b c"
  define fresh where "fresh v r \<longleftrightarrow> \<not> u_closing (uvh v (rq_obj r)) \<and>
      (initialized (hs v (rq_obj r)) \<and> u_processing (uvh v (rq_obj r)) \<longrightarrow> rq_status r = None)" for v :: world and r :: request_ctx
  obtain rs where rs: "pend b = pend a @ rs"
    "\<And>r. r \<in> set rs \<Longrightarrow> rq_obj r < length (objs a) \<Longrightarrow> fresh a r"
    using ab unfolding undisturbed_def pend_grows_def fresh_def by blast
  obtain ss where ss: "pend c = pend b @ ss"
    "\<And>r. r \<in> set ss \<Longrightarrow> rq_obj r < length (objs b) \<Longrightarrow> fresh b r"
    using bc unfolding undisturbed_def pend_grows_def fresh_def by blast
  have "fresh a r" if "r \<in> set ss" "rq_obj r < length (objs a)" for r
    using ss(2) [OF that(1)] ab that(2) by (auto simp: undisturbed_def follows_def fresh_def)
  then have "pend_grows a c" using rs ss(1) unfolding pend_grows_def fresh_def by auto
  moreover have fd: "follows (uvh a x) (uvh c x)" if "x < length (objs a)" "initialized (hs a x)" for x
  proof (rule follows_trans)
    show "follows (uvh a x) (uvh b x)" "follows (uvh b x) (uvh c x)"
      using ab bc that by (auto simp: undisturbed_def)
    show "u_closing (uvh a x) \<Longrightarrow> u_closing (uvh b x)" "u_closing (uvh b x) \<Longrightarrow> u_closing (uvh c x)"
      using ab bc that(1) by (auto simp: undisturbed_def)
  qed
  moreover have "prefix (trace a) (trace c)"
    using ab bc prefix_order.trans by (auto simp: undisturbed_def)
  moreover have "same_local (uvl a l) (uvl c l)" if "l < length (objs a)" for l
    using ab bc that same_local_trans [of "uvl a l" "uvl b l" "uvl c l"] by (auto simp: undisturbed_def)
  ultimately show ?thesis
    using ab bc fd unfolding undisturbed_def by (intro conjI allI impI) ((simp; fail) | (auto dest!: spec [where x = _]))+
qed

lemma undisturbed_processing: "undisturbed w w' \<Longrightarrow> u_processing (uvh w' x) \<Longrightarrow> u_processing (uvh w x)"
  by (simp add: undisturbed_def)

lemma stable_objs:
  assumes "hs w' = hs w" and "length (objs w') = length (objs w)"
    and "\<And>y. kind (objs w' ! y) = kind (objs w ! y)" "\<And>y. slots (objs w' ! y) = slots (objs w ! y)"
      "\<And>y. live (objs w' ! y) \<Longrightarrow> live (objs w ! y)"
    and "pend w' = pend w" "prefix (trace w) (trace w')" "\<And>l. same_local (uvl w l) (uvl w' l)"
  shows "undisturbed w w'"
  using assms by (auto simp: undisturbed_def valid_def)

lemma stable_INCREF: "undisturbed w (Py_INCREF x w)"
  by (rule stable_objs) simp_all

lemma stable_log_event: "undisturbed w (log_event e w)"
  by (rule stable_objs) (simp_all add: log_event_def)

lemma stable_dealloc:
  assumes v: "valid w x" and d: "tp_dealloc x (dec_count x w) = (ys, w')"
  shows "undisturbed w w'"
proof -
  have k: "kept w w'" by (rule kept_trans [OF kept_dec_count kept_tp_dealloc [OF d]])
  have s: "valid w y \<and> slots (objs w' ! y) = slots (objs w ! y)" if "valid w' y" for y
  proof (cases "y = x")
    case True
    then show ?thesis
      using d v that
      by (auto simp: tp_dealloc_def Handle_tp_dealloc_def Loop_tp_dealloc_def Let_def valid_def
          free_obj_def upd_obj_def dec_count_def resurrect_object_def split: kind.splits if_splits)
  next
    case False
    then show ?thesis
      using tp_dealloc_other [OF d False] that k v
      by (auto simp: valid_def kept_def dec_count_def upd_obj_def)
  qed
  have "u_processing (uvh w' y) = u_processing (uvh w y)" for y using k by (simp add: kept_def follows_def)
  with k s show ?thesis by (simp add: undisturbed_def kept_def)
qed

lemma stable_release: "undisturbed w (release xs w)"
proof (induction xs w rule: release.induct)
  case (1 w)
  then show ?case by simp
next
  case (2 x xs w)
  obtain ys w' where d: "tp_dealloc x (dec_count x w) = (ys, w')" by fastforce
  consider "\<not> valid w x" | "valid w x" "refcnt (objs w ! x) \<noteq> 1"
    | "valid w x" "refcnt (objs w ! x) = 1" by blast
  then show ?case
  proof cases
    case 1
    with 2(1) show ?thesis by (simp add: release.simps(2))
  next
    case 2
    have "undisturbed w (dec_count x w)"
      unfolding undisturbed_def using 2(1)
      by (auto simp: dec_count_def upd_obj_kind upd_obj_nth valid_def)
    with 2 \<open>\<lbrakk>\<not> \<not> valid w x; refcnt (objs w ! x) \<noteq> 1\<rbrakk> \<Longrightarrow> undisturbed (dec_count x w) (release xs (dec_count x w))\<close>
    show ?thesis by (simp add: release.simps(2)) (meson stable_trans)
  next
    case 3
    have "undisturbed w w'" by (rule stable_dealloc [OF 3(1) d])
    with 3 2(3) [OF _ _ d [symmetric]] d show ?thesis
      by (simp add: release.simps(2)) (meson stable_trans)
  qed
qed

section \<open>The local queues of \<open>uv_run\<close>\<close>

text \<open>
  What a step of the loop keeps of the world as a whole: nothing is added to the local queues, a
  closed handle stays closed, the trace grows.
\<close>

definition calm :: "world \<Rightarrow> world \<Rightarrow> bool" where
  "calm w w' \<longleftrightarrow> length (objs w) \<le> length (objs w') \<and> (\<forall>l < length (objs w). same_local (uvl w l) (uvl w' l)) \<and>
     (\<forall>x. u_processing (uvh w' x) \<longrightarrow> u_processing (uvh w x)) \<and>
     (\<forall>x < length (objs w). u_closed (uvh w x) \<longrightarrow> u_closed (uvh w' x)) \<and> prefix (trace w) (trace w')"

lemma calm_refl [simp]: "calm w w"
  by (simp add: calm_def)

lemma calm_trans: "calm a b \<Longrightarrow> calm b c \<Longrightarrow> calm a c"
  using prefix_order.trans [of "trace a" "trace b" "trace c"] by (auto simp: calm_def intro: same_local_trans)

lemma calm_undisturbed: "undisturbed w w' \<Longrightarrow> calm w w'"
  by (simp add: undisturbed_def calm_def)

lemma calm_same: "objs w' = objs w \<Longrightarrow> (\<And>l. same_local (uvl w l) (uvl w' l)) \<Longrightarrow>
    (\<And>x. u_processing (uvh w' x) \<Longrightarrow> u_processing (uvh w x)) \<Longrightarrow>
    (\<And>x. u_closed (uvh w x) \<Longrightarrow> u_closed (uvh w' x)) \<Longrightarrow> trace w' = trace w \<Longrightarrow> calm w w'"
  by (simp add: calm_def)

lemma calm_release [simp]: "calm w (release xs w)"
  by (rule calm_undisturbed [OF stable_release])

lemma calm_steps [simp]:
  assumes "calm a w"
  shows "calm a (put_slot x s v w)" "calm a (upd_handle x (pyref_update f) w)" "calm a (Py_INCREF x w)"
    "calm a (release xs w)"
  using assms calm_trans [OF assms calm_release] by (auto simp: calm_def put_slot_def upd_handle_def)

lemma calm_fields [simp]:
  assumes "calm a w"
  shows "calm a (Py_XDECREF y w)" "calm a (clear_slot x s w)" "calm a (assign_slot x s v w)" "calm a (PYUV_HANDLE_DECREF x w)"
  using assms
  by (auto simp: clear_slot_def assign_slot_def PYUV_HANDLE_DECREF_def Py_XDECREF_def Let_def split: option.split)

end
