(* ===== verification/Callbacks.thy ===== *)
theory Callbacks
  imports Method_Rules
begin

text \<open>
  The interface between the extension and the Python program: the locale \<open>python_program\<close>
  states what a callable may do to the state. Inside it the callbacks of handle.c and
  common.c are shown to keep the invariant and never to fail an assertion. The contract is
  interpreted in \<open>Scripts\<close>, by programs that are made of the operations of the extension.
\<close>

locale python_program =
  fixes py :: python
  assumes call_ok: "ok fr w \<Longrightarrow> valid w f \<Longrightarrow> set args \<subseteq> set_mset fr \<Longrightarrow>
      py_call py f args w = (r, w') \<Longrightarrow> ok (mset_opt r + fr) w' \<and> undisturbed w w'"
    and hook_valid: "ok fr w \<Longrightarrow> valid w l \<Longrightarrow> py_excepthook py l w = AttrIs x \<Longrightarrow> valid w x"

lemma ok_fold_INCREF:
  "ok fr w \<Longrightarrow> (\<And>x. x \<in> set xs \<Longrightarrow> valid w x) \<Longrightarrow> ok (mset xs + fr) (fold Py_INCREF xs w)"
proof (induction xs arbitrary: fr w)
  case Nil
  then show ?case by simp
next
  case (Cons x xs)
  have "ok (add_mset x fr) (Py_INCREF x w)" using Cons.prems by (intro ok_INCREF) auto
  from Cons.IH [OF this] Cons.prems show ?case by simp
qed

lemma stable_fold_INCREF: "undisturbed w (fold Py_INCREF xs w)"
  by (induction xs arbitrary: w) (auto intro: stable_trans [OF stable_INCREF])

lemma held_add_mset: "held fr w x \<Longrightarrow> held (add_mset y fr) w x"
  by (auto simp: held_def)

context python_program
begin

lemma PyObject_Call_ok:
  assumes "ok fr w" and "\<And>f. callable = Some f \<Longrightarrow> valid w f" and "\<And>x. x \<in> set args \<Longrightarrow> valid w x"
    and "PyObject_Call py callable args w = (r, w')"
  shows "ok (mset_opt r + fr) w' \<and> undisturbed w w'"
proof (cases callable)
  case None
  then show ?thesis using assms by (simp add: PyObject_Call_def)
next
  case (Some f)
  let ?w1 = "log_event (Called f args) (fold Py_INCREF args w)"
  have o1: "ok (mset args + fr) ?w1"
    using ok_fold_INCREF [OF assms(1), of args] assms(3) by (auto intro: ok_log_event)
  have s1: "undisturbed w ?w1" by (rule stable_trans [OF stable_fold_INCREF stable_log_event])
  have v1: "valid ?w1 f"
  proof -
    have "valid (fold Py_INCREF xs v) y = valid v y" for xs v y
      by (induction xs arbitrary: v) simp_all
    then show ?thesis using assms(2) Some by (simp add: valid_def)
  qed
  obtain w2 where c: "py_call py f args ?w1 = (r, w2)" and w': "w' = release args w2"
    using assms(4) Some by (auto simp: PyObject_Call_def split: prod.splits)
  have "ok (mset_opt r + (mset args + fr)) w2 \<and> undisturbed ?w1 w2"
    by (rule call_ok [OF o1 v1 _ c]) (auto simp: held_def)
  then have "ok (mset args + (mset_opt r + fr)) w2" and s2: "undisturbed ?w1 w2"
    by (simp_all add: ac_simps)
  then show ?thesis
    using stable_trans [OF stable_trans [OF s1 s2] stable_release] by (simp add: w' ok_release)
qed

lemma handle_uncaught_exception_ok:
  assumes "ok fr w" and "valid w l"
  shows "\<exists>w'. handle_uncaught_exception py (Some l) w = Some w' \<and> ok fr w' \<and> undisturbed w w'"
proof (cases "py_excepthook py l w")
  case AttrMissing
  then show ?thesis using assms
    by (simp add: handle_uncaught_exception_def ok_log_event stable_log_event)
next
  case AttrRaises
  then show ?thesis using assms
    by (simp add: handle_uncaught_exception_def ok_log_event stable_trans [OF stable_log_event stable_log_event])
next
  case (AttrIs hook)
  have v: "valid w hook" by (rule hook_valid [OF assms AttrIs])
  let ?w1 = "Py_INCREF hook w"
  have o1: "ok (add_mset hook fr) ?w1" by (rule ok_INCREF [OF assms(1) v])
  show ?thesis
  proof (cases "hook = Py_None")
    case True
    then show ?thesis
      using ok_log_event [OF ok_DECREF [OF o1]]
        stable_trans [OF stable_INCREF stable_trans [OF stable_release stable_log_event]] AttrIs
      by (simp add: handle_uncaught_exception_def Let_def)
  next
    case False
    let ?w1' = "log_event (CalledHook hook) ?w1"
    obtain r w2 where c: "py_call py hook [] ?w1' = (r, w2)" by fastforce
    have v1: "valid ?w1' hook" using v by (simp add: valid_def)
    have o2: "ok (mset_opt r + add_mset hook fr) w2 \<and> undisturbed ?w1' w2"
      by (rule call_ok [OF ok_log_event [OF o1] v1 _ c]) simp
    have s2: "undisturbed w w2"
      using stable_trans [OF stable_trans [OF stable_INCREF stable_log_event]] o2 by blast
    show ?thesis
    proof (cases r)
      case None
      then have "ok fr (log_event PrintedUnhandled (Py_DECREF hook (log_event HookFailed w2)))"
        using o2 by (intro ok_log_event ok_DECREF) simp
      then show ?thesis
        using None c AttrIs False
          stable_trans [OF s2 stable_trans [OF stable_log_event stable_trans [OF stable_release stable_log_event]]]
        by (simp add: handle_uncaught_exception_def Let_def)
    next
      case (Some x)
      then have "ok fr (Py_DECREF hook (Py_DECREF x w2))"
        using o2 by (intro ok_DECREF) (simp add: add_mset_commute)
      then show ?thesis
        using Some c AttrIs False stable_trans [OF s2 stable_trans [OF stable_release stable_release]]
        by (simp add: handle_uncaught_exception_def Let_def)
    qed
  qed
qed

lemma call_callback_ok:
  assumes "ok fr w" and "\<And>f. callable = Some f \<Longrightarrow> valid w f" and "\<And>x. x \<in> set args \<Longrightarrow> valid w x"
    and lf: "\<And>v. ok fr v \<Longrightarrow> undisturbed w v \<Longrightarrow> \<exists>l. loop_field v = Some l \<and> valid v l"
  shows "\<exists>w'. call_callback py callable args loop_field w = Some w' \<and> ok fr w' \<and> undisturbed w w'"
proof -
  obtain r w1 where c: "PyObject_Call py callable args w = (r, w1)" by fastforce
  have o1: "ok (mset_opt r + fr) w1 \<and> undisturbed w w1"
    by (rule PyObject_Call_ok [OF assms(1-3) c])
  show ?thesis
  proof (cases r)
    case (Some x)
    then have "ok fr (Py_DECREF x w1)" using o1 by (intro ok_DECREF) simp
    then show ?thesis
      using Some c o1 stable_trans [OF _ stable_release] by (auto simp: call_callback_def)
  next
    case None
    with o1 lf obtain l where l: "loop_field w1 = Some l" "valid w1 l" by auto
    from handle_uncaught_exception_ok [of fr w1 l] l(2) o1 None
    obtain w2 where "handle_uncaught_exception py (Some l) w1 = Some w2" "ok fr w2" "undisturbed w1 w2" by auto
    then show ?thesis
      using None c l(1) o1 stable_trans by (auto simp: call_callback_def)
  qed
qed

text \<open>The \<open>loop\<close> field of a handle that the frame holds.\<close>

lemma loop_field_there:
  assumes "ok fr w" and "x \<in># fr" and "kind (objs w ! x) = KHandle c" and "initialized (hs w x)"
    and "ok fr v" and "undisturbed w v"
  shows "\<exists>l. slot_of v x S_loop = Some l \<and> valid v l"
proof -
  have vx: "valid v x" by (rule wf_valid_frame [OF okD(1) [OF assms(5)] assms(2)])
  have "valid w x" by (rule wf_valid_frame [OF okD(1) [OF assms(1)] assms(2)])
  then have "kind (objs v ! x) = KHandle c" "initialized (hs v x)"
    using assms(3,4,6) by (auto simp: undisturbed_def valid_def)
  then have "slot_of v x S_loop \<noteq> None"
    using okD(3) [OF assms(5), of x] vx by (auto simp: cb_ok_def valid_def)
  then show ?thesis
    using wf_valid_slot [OF okD(1) [OF assms(5)]] vx by (auto simp: valid_def)
qed

text \<open>
  The callback of a handle that the frame holds: call with the handle and \<open>extra\<close>, then let
  the handle go.
\<close>

lemma held_callback_ok:
  assumes ok: "ok (add_mset x fr) w" and k: "kind (objs w ! x) = KHandle c"
    and i: "initialized (hs w x)" and ex: "\<And>y. y \<in> set extra \<Longrightarrow> valid w y"
  shows "\<exists>w'. call_callback py (slot_of w x s) (x # extra) (\<lambda>v. slot_of v x S_loop) w = Some w' \<and>
    ok fr (Py_DECREF x w') \<and> undisturbed w (Py_DECREF x w')"
proof -
  have v: "valid w x" by (rule wf_valid_frame [OF okD(1) [OF ok]]) simp
  have f: "valid w f" if "slot_of w x s = Some f" for f
    using wf_valid_slot [OF okD(1) [OF ok] _ that] v by (auto simp: valid_def)
  have "\<exists>w'. call_callback py (slot_of w x s) (x # extra) (\<lambda>v. slot_of v x S_loop) w = Some w' \<and>
      ok (add_mset x fr) w' \<and> undisturbed w w'"
    by (rule call_callback_ok [OF ok f])
      (use v ex loop_field_there [OF ok _ k i] in auto)
  then obtain w' where w': "call_callback py (slot_of w x s) (x # extra) (\<lambda>v. slot_of v x S_loop) w = Some w'"
    "ok (add_mset x fr) w'" "undisturbed w w'" by blast
  then show ?thesis
    using ok_DECREF [OF w'(2)] stable_trans [OF w'(3) stable_release] by auto
qed

text \<open>
  The same with the \<open>Py_INCREF\<close> that every callback begins with.
\<close>

lemma handle_callback_ok:
  assumes ok: "ok fr w" and v: "valid w x" and k: "kind (objs w ! x) = KHandle c"
    and i: "initialized (hs w x)" and ex: "\<And>y. y \<in> set extra \<Longrightarrow> valid w y"
  shows "\<exists>w'. call_callback py (slot_of w x s) (x # extra) (\<lambda>v. slot_of v x S_loop) (Py_INCREF x w) = Some w' \<and>
    ok fr (Py_DECREF x w') \<and> undisturbed w (Py_DECREF x w')"
proof -
  have o1: "ok (add_mset x fr) (Py_INCREF x w)" by (rule ok_INCREF [OF ok v])
  from held_callback_ok [OF o1, of c extra s] k i ex
  show ?thesis using stable_trans [OF stable_INCREF] by auto
qed

text \<open>
  The close callbacks run after \<open>uv__finish_close\<close>, which hands them the reference of the
  pending close.
\<close>

lemma run_close_cb_ok:
  assumes ok: "ok (add_mset x fr) w" and cl: "u_closed (uvh w x)" and i: "initialized (hs w x)"
    and k: "kind (objs w ! x) = KHandle c"
    and cb: "cb = pyuv__handle_close_cb \<Longrightarrow> slot_of w x S_on_close_cb \<noteq> None"
  shows "\<exists>w'. run_close_cb py cb x w = Some w' \<and> ok fr w' \<and> calm w w'"
proof (cases cb)
  case pyuv__handle_dealloc_close_cb
  then show ?thesis using ok_DECREF [OF ok] by (auto simp: run_close_cb_def)
next
  case pyuv__handle_close_cb
  have v: "valid w x" by (rule wf_valid_frame [OF okD(1) [OF ok]]) simp
  have xl: "x < length (objs w)" using v by (simp add: valid_def)
  let ?cb = "slot_of w x S_on_close_cb"
  have "\<exists>w1. (if ?cb \<noteq> Some Py_None then call_callback py ?cb [x] (\<lambda>v. slot_of v x S_loop) w
      else Some w) = Some w1 \<and> ok (add_mset x fr) w1 \<and> undisturbed w w1"
  proof (cases "?cb = Some Py_None")
    case True
    then show ?thesis using ok by simp
  next
    case False
    have "\<exists>w'. call_callback py ?cb [x] (\<lambda>v. slot_of v x S_loop) w = Some w' \<and>
        ok (add_mset x fr) w' \<and> undisturbed w w'"
      by (rule call_callback_ok [OF ok])
        (use v wf_valid_slot [OF okD(1) [OF ok] xl] loop_field_there [OF ok _ k i] in auto)
    then show ?thesis using False by simp
  qed
  then obtain w1 where w1: "(if ?cb \<noteq> Some Py_None then call_callback py ?cb [x] (\<lambda>v. slot_of v x S_loop) w
      else Some w) = Some w1" and o1: "ok (add_mset x fr) w1" and s1: "undisturbed w w1" by blast
  have v1: "valid w1 x" by (rule wf_valid_frame [OF okD(1) [OF o1]]) simp
  have f1: "slot_of w1 x S_on_close_cb \<noteq> None" "u_closed (uvh w1 x)" "initialized (hs w1 x)"
    "kind (objs w1 ! x) = KHandle c" "x < length (objs w1)"
    using s1 v1 xl cl i k cb pyuv__handle_close_cb by (auto simp: undisturbed_def valid_def)
  have l1: "slot_of w1 x S_loop \<noteq> None"
    using loop_field_there [OF ok _ k i o1 s1] by auto
  have sl: "S_on_close_cb \<in> set (handle_tp_clear c)" "S_loop \<in> set (handle_tp_clear c)"
    by (cases c; simp add: tp_clear_defs)+
  have h: "held (add_mset x fr) v x" for v by (simp add: held_def)
  define w2 where "w2 = clear_slot x S_on_close_cb w1"
  note C = ok_but_clear_slot [OF ok_imp_but [OF o1] f1(5), where s = S_on_close_cb]
  have o2: "ok_but x (add_mset x fr) w2" and hs2: "hs w2 x = hs w1 x"
    and sl2: "slots (objs w2 ! x) = (slots (objs w1 ! x))(S_on_close_cb := None)"
    using C f1 sl h by (simp_all add: w2_def)
  have f2: "x < length (objs w2)" "kind (objs w2 ! x) = KHandle c" "u_closed (uvh w2 x)"
    using f1 by (simp_all add: w2_def)
  define w3 where "w3 = assign_slot x S_loop Py_None w2"
  note A = ok_but_assign_slot [OF o2 wf_none [OF ok_butD(1) [OF o2]] f2(1), where s = S_loop]
  have o3: "ok_but x (add_mset x fr) w3" and hs3: "hs w3 x = hs w1 x"
    and sl3: "slots (objs w3 ! x) = (slots (objs w1 ! x))(S_on_close_cb := None, S_loop := Some Py_None)"
    using A f2 sl h hs2 sl2 by (simp_all add: w3_def)
  define w4 where "w4 = PYUV_HANDLE_DECREF x w3"
  note R = ok_but_HANDLE_DECREF [OF o3, folded w4_def]
  have "u_closing (uvh w1 x)"
    using uv_inv_uh [OF okD(2) [OF o1], of x] f1(2) by (simp add: uh_ok_def)
  then have "cb_ok w4 x"
  proof -
    have "kind (objs w4 ! x) = KHandle c" using f1(4) by (simp add: w4_def w3_def w2_def)
    then show ?thesis
      using R(2,3) [OF h] f1(3,4,5) okD(3) [OF o1, of x] v1 \<open>u_closing (uvh w1 x)\<close>
      by (simp add: cb_ok_def field_ok_def hs3 sl3 valid_def)
  qed
  then have "ok fr (Py_DECREF x w4)" by (intro ok_DECREF ok_but_ok [OF R(1)])
  moreover have "run_close_cb py cb x w = Some (Py_DECREF x w4)"
    using w1 f1(1) l1 by (simp add: run_close_cb_def pyuv__handle_close_cb Let_def w4_def w3_def w2_def)
  moreover have "calm w w1" by (rule calm_undisturbed [OF s1])
  then have "calm w (Py_DECREF x w4)"
    unfolding w4_def w3_def w2_def
    by simp
  ultimately show ?thesis by blast
qed

end

end
