(* ===== verification/Handles.thy ===== *)
theory Handles
  imports Callbacks
begin

text \<open>
  The operations of the class \<open>Handle\<close> keep the invariant of the state. Every lemma is about
  one method called with objects that the caller holds.
\<close>

lemma none_held: "ok fr w \<Longrightarrow> held fr w Py_None"
  using okD(1) [of fr w] by (simp add: held_def wf_refs_def none_ok_def)

lemma ok_Handle_tp_new:
  assumes ok: "ok fr w" and n: "Handle_tp_new c w = (r, w')"
  shows "\<exists>x. r = Ok x \<and> x = length (objs w) \<and> ok (add_mset x fr) w' \<and> kind (objs w' ! x) = KHandle c \<and>
    \<not> initialized (hs w' x) \<and> \<not> valid w x \<and> valid w' x"
proof -
  let ?n = "length (objs w)"
  have w': "w' = snd (PyType_GenericNew (KHandle c) w)" "r = Ok ?n"
    using n by (auto simp: Handle_tp_new_def PyType_GenericNew_def)
  have wf: "wf_refs (add_mset ?n fr) w'"
    using wf_GenericNew [OF okD(1) [OF ok], of "KHandle c"] by (simp add: w' PyType_GenericNew_def)
  have fresh: "u_loop (uvh w ?n) = None \<or> u_closed (uvh w ?n)" "\<not> initialized (hs w ?n)"
    using wf_handle_ok [OF okD(1) [OF ok], of ?n] by (auto simp: handle_ok_def is_handle_def valid_def)
  then have cl: "\<not> u_closing (uvh w ?n)"
    using wf_handle_ok [OF okD(1) [OF ok], of ?n] by (auto simp: handle_ok_def)
  then have nl: "u_loop (uvh w ?n) = None" "\<not> u_active (uvh w ?n)"
    using fresh uv_inv_uh [OF okD(2) [OF ok], of ?n] by (auto simp: uh_ok_def)
  have inv: "uv_inv w'"
  proof -
    have cnt: "counted (uvh w' h) = counted (uvh w h)" for h
      using nl by (simp add: w' PyType_GenericNew_def counted_def handle_zero_def uv_zero_def)
    have e: "u_loop (uvh w' h) = Some l \<and> P (uvh w' h) \<longleftrightarrow> u_loop (uvh w h) = Some l \<and> P (uvh w h)"
      for h l P
      using nl by (auto simp: w' PyType_GenericNew_def handle_zero_def uv_zero_def)
    have e': "u_loop (uvh w' h) = Some l \<and> u_type (uvh w' h) = Some t \<and> u_active (uvh w' h) \<longleftrightarrow>
        u_loop (uvh w h) = Some l \<and> u_type (uvh w h) = Some t \<and> u_active (uvh w h)" for h l t
      using e [of h l "\<lambda>u. u_type u = Some t \<and> u_active u"] by simp
    have l: "uvl w' l = uvl w l" for l by (simp add: w' PyType_GenericNew_def)
    have "loop_ok w' l" for l
      using okD(2) [OF ok]
      unfolding uv_inv_def loop_ok_def cnt l e' e [of _ _ "\<lambda>u. \<not> u_closed u"] e [of _ _ close_due] by simp
    moreover have "uh_ok (uvh w' h)" for h
      using uv_inv_uh [OF okD(2) [OF ok], of h]
      by (auto simp: w' PyType_GenericNew_def handle_zero_def uv_zero_def uh_ok_def)
    ultimately show ?thesis by (simp add: uv_inv_def)
  qed
  have "cb_ok w' h" for h
  proof (cases "h = ?n")
    case True
    then show ?thesis
      by (simp add: cb_ok_def field_ok_def w' PyType_GenericNew_def new_obj_def handle_zero_def uv_zero_def)
  next
    case False
    then show ?thesis
      using okD(3) [OF ok, of h]
      by (auto simp: cb_ok_def w' PyType_GenericNew_def nth_append less_Suc_eq)
  qed
  with wf inv have "ok (add_mset ?n fr) w'" by (simp add: ok_def)
  then show ?thesis
    by (simp add: w' PyType_GenericNew_def new_obj_def handle_zero_def valid_def)
qed

lemma ok_GenericNew_object:
  assumes ok: "ok fr w" and n: "PyType_GenericNew (KObject b) w = (x, w')"
  shows "x = length (objs w) \<and> ok (add_mset x fr) w' \<and> kind (objs w' ! x) = KObject b \<and> undisturbed w w'"
proof -
  obtain r w2 where h: "Handle_tp_new AsyncC w = (r, w2)" by fastforce
  from ok_Handle_tp_new [OF ok h] have o2: "uv_inv w2" "\<And>h. cb_ok w2 h" by (auto simp: ok_def)
  have e: "hs w' = hs w2" "loops w' = loops w2" "x = length (objs w)"
    "w' = snd (PyType_GenericNew (KObject b) w)"
    using n h by (auto simp: Handle_tp_new_def PyType_GenericNew_def)
  have "wf_refs (add_mset x fr) w'"
    using wf_GenericNew [OF okD(1) [OF ok], of "KObject b"] by (simp add: e PyType_GenericNew_def)
  moreover have "uv_inv w'" by (rule uv_inv_same [OF o2(1)]) (simp_all add: e(1,2))
  moreover have "cb_ok w' h" for h
    using okD(3) [OF ok, of h]
    by (auto simp: cb_ok_def e PyType_GenericNew_def nth_append less_Suc_eq new_obj_def)
  moreover have "undisturbed w w'"
    by (auto simp: undisturbed_def e(4) PyType_GenericNew_def nth_append valid_def)
  ultimately show ?thesis by (simp add: ok_def e PyType_GenericNew_def new_obj_def)
qed

lemma ok_Handle_func_close:
  assumes ok: "ok fr w" and h: "held fr w x" and k: "kind (objs w ! x) = KHandle c"
    and a: "\<And>f. args = Inr (Some f) \<Longrightarrow> held fr w f"
  shows "ok fr (snd (Handle_func_close x args w))"
proof (cases "initialized (hs w x) \<and> \<not> uv_is_closing x w")
  case False
  then show ?thesis using ok by (auto simp: Handle_func_close_def guard_defs)
next
  case True
  then have o: "open_handle w x c" by (intro open_handleI [OF ok h k]) auto
  note D = open_handleD [OF ok o]
  have "ok fr (uv_close x pyuv__handle_close_cb (Py_INCREF x (put_slot x S_on_close_cb (Some v) (Py_INCREF v w))))"
    if v: "held fr w v" for v
  proof -
    let ?w1 = "put_slot x S_on_close_cb (Some v) (Py_INCREF v w)"
    have vv: "valid w v" by (rule held_valid [OF okD(1) [OF ok] v])
    have "S_on_close_cb \<in> set (handle_tp_clear c)" by (cases c; simp add: tp_clear_defs)
    then have "ok_but x (mset_opt (slot_of w x S_on_close_cb) + fr) ?w1"
      using ok_but_put_slot [of x "Some v" fr "Py_INCREF v w" S_on_close_cb]
        ok_but_INCREF [OF ok_imp_but [OF ok] vv, of x] D(1) k o by (simp add: open_handle_def)
    then have b1: "ok_but x fr ?w1" by (simp add: D)
    let ?w2 = "Py_INCREF x ?w1"
    have b2: "ok_but x (add_mset x fr) ?w2"
      by (rule ok_but_INCREF [OF b1]) (use D in \<open>simp add: valid_def\<close>)
    let ?w3 = "uv_close x pyuv__handle_close_cb ?w2"
    have i: "hs ?w2 = hs w" by simp
    have "wf_refs fr ?w3"
      by (rule wf_uv_close [OF ok_butD(1) [OF b2]])
        (use o D(1) in \<open>simp_all add: open_handle_def uv_is_closing_def nth_put_slot\<close>)
    moreover have "uv_inv ?w3"
      using D(6,7) o by (auto intro!: uv_inv_close [OF ok_butD(2) [OF b2]] simp: open_handle_def)
    moreover have "cb_ok ?w3 y" for y
    proof (cases "y = x")
      case True
      have "initialized (hs ?w3 x)" using kept_uv_close [of ?w2 x] o by (simp add: kept_def open_handle_def)
      moreover have "\<not> u_reading (uvh ?w3 x)" if "reads_class c"
        using reading_uv_close [of ?w2 x c] that D(6) by simp
      ultimately show ?thesis using True D(1,3,4) k o
        by (auto simp: cb_ok_def field_ok_def nth_put_slot open_handle_def)
    next
      case False
      show ?thesis
        by (rule cb_ok_cong [OF ok_butD(3) [OF b2 False]]) (use False in \<open>simp_all add: hs_uv_close_other\<close>)
    qed
    ultimately show ?thesis by (simp add: ok_def)
  qed
  then show ?thesis
    using ok a none_held [OF ok]
    by (auto simp: Handle_func_close_def guard_defs Let_def split: sum.splits option.splits)
qed

lemma ok_Handle_ref_set:
  assumes ok: "ok fr w" and h: "held fr w x" and k: "kind (objs w ! x) = KHandle c"
  shows "ok fr (snd (Handle_ref_set x args w))"
proof -
  have inv: "uv_inv (uv_ref x w) \<and> uv_inv (uv_unref x w)"
  proof (cases "u_active (uvh w x)")
    case False
    then show ?thesis using uv_inv_ref_inactive [OF okD(2) [OF ok]] by simp
  next
    case True
    then obtain l where "u_loop (uvh w x) = Some l" "\<not> u_closed (uvh w x)"
      using uv_inv_uh [OF okD(2) [OF ok], of x] by (auto simp: uh_ok_def)
    then show ?thesis using uv_inv_ref [OF okD(2) [OF ok]] by simp
  qed
  have f: "fires d (u\<lparr>u_ref := b\<rparr>) = fires d u" for d u b by (cases d) simp_all
  have "ok fr (uv_ref x w)"
    by (rule ok_quiet_fields [OF ok, where x = x]) (use inv in \<open>simp_all add: quiet local_steps uv_defs f\<close>)
  moreover have "ok fr (uv_unref x w)"
    by (rule ok_quiet_fields [OF ok, where x = x]) (use inv in \<open>simp_all add: quiet local_steps uv_defs f\<close>)
  ultimately show ?thesis
    using ok by (auto simp: Handle_ref_set_def guard_defs split: sum.splits)
qed

lemma ok_dict_slot:
  assumes ok: "ok fr w" and h: "held fr w x" and k: "kind (objs w ! x) = KHandle c" and v: "held fr w v"
  shows "ok fr (assign_slot x S_dict v w)"
proof -
  have x: "valid w x" "valid w v" using held_valid [OF okD(1) [OF ok]] h v by auto
  have s: "S_dict \<in> set (handle_tp_clear c)" by (cases c; simp add: tp_clear_defs)
  note A = ok_but_assign_slot [OF ok_imp_but [OF ok] x(2), where x = x and s = S_dict]
  have b: "ok_but x fr (assign_slot x S_dict v w)" "hs (assign_slot x S_dict v w) x = hs w x"
    "slots (objs (assign_slot x S_dict v w) ! x) = (slots (objs w ! x))(S_dict := Some v)"
    using A x(1) s k h by (simp_all add: valid_def)
  have "cb_ok (assign_slot x S_dict v w) x"
    using okD(3) [OF ok, of x] x(1) k by (auto simp: cb_ok_def field_ok_def b(2,3) valid_def)
  then show ?thesis by (rule ok_but_ok [OF b(1)])
qed

lemma ok_Handle_dict_set:
  assumes "ok fr w" and "held fr w x" and "kind (objs w ! x) = KHandle c"
    and "\<And>v. val = Some v \<Longrightarrow> held fr w v"
  shows "ok fr (snd (Handle_dict_set x val d w))"
  using assms ok_dict_slot [OF assms(1-3)] by (simp add: Handle_dict_set_def split: option.splits)

lemma ok_Handle_dict_get:
  assumes ok: "ok fr w" and h: "held fr w x" and k: "kind (objs w ! x) = KHandle c"
    and g: "Handle_dict_get x w = (r, w')"
  shows "\<exists>d. r = Ok d \<and> ok (add_mset d fr) w' \<and> slot_of w' x S_dict = Some d"
proof (cases "slot_of w x S_dict")
  case (Some d)
  have v: "valid w x" by (rule held_valid [OF okD(1) [OF ok] h])
  then have "valid w d" using wf_valid_slot [OF okD(1) [OF ok] _ Some] by (simp add: valid_def)
  then show ?thesis using g Some ok_INCREF [OF ok] by (auto simp: Handle_dict_get_def)
next
  case None
  obtain d w1 where n: "PyType_GenericNew (KObject False) w = (d, w1)" by fastforce
  have o1: "ok (add_mset d fr) w1" using ok_GenericNew_object [OF ok n] by blast
  have v: "valid w x" by (rule held_valid [OF okD(1) [OF ok] h])
  have w1: "slots (objs w1 ! x) = slots (objs w ! x)" "kind (objs w1 ! x) = KHandle c" "x < length (objs w1)"
    "live (objs w1 ! x)" "hs w1 x = hs w x"
    using n v k by (auto simp: PyType_GenericNew_def nth_append valid_def)
  have "S_dict \<in> set (handle_tp_clear c)" by (cases c; simp add: tp_clear_defs)
  then have b: "ok_but x fr (put_slot x S_dict (Some d) w1)"
    using ok_but_put_slot [of x "Some d" fr w1 S_dict] ok_imp_but [OF o1, of x] w1 None by simp
  have "cb_ok (put_slot x S_dict (Some d) w1) x"
    using okD(3) [OF ok, of x] v k w1 by (auto simp: cb_ok_def field_ok_def nth_put_slot valid_def)
  with b have o2: "ok fr (put_slot x S_dict (Some d) w1)" by (rule ok_but_ok)
  have sl: "slot_of (put_slot x S_dict (Some d) w1) x S_dict = Some d" using w1 by (simp add: nth_put_slot)
  have "valid (put_slot x S_dict (Some d) w1) d"
    by (rule wf_valid_slot [OF okD(1) [OF o2] _ sl]) (use w1 in simp)
  then show ?thesis
    using g None n ok_INCREF [OF o2] sl by (auto simp: Handle_dict_get_def)
qed

end
