(* ===== verification/Watchers.thy ===== *)
theory Watchers
  imports Handles
begin

text \<open>
  The loop watchers \<open>Idle\<close>, \<open>Prepare\<close> and \<open>Check\<close> (src/idle.c, src/prepare.c, src/check.c):
  construction, \<open>start\<close>, \<open>stop\<close> and the callback of each, and that they keep the
  invariant of the state.
\<close>

text \<open>\<open>uv_##name##_init\<close> of the macro in unix/loop-watcher.c.\<close>

definition uv_idle_init :: "oid \<Rightarrow> oid \<Rightarrow> world \<Rightarrow> int \<times> world" where
  "uv_idle_init l h w = (0, uv__handle_init l h UV_IDLE w)"

definition uv_prepare_init :: "oid \<Rightarrow> oid \<Rightarrow> world \<Rightarrow> int \<times> world" where
  "uv_prepare_init l h w = (0, uv__handle_init l h UV_PREPARE w)"

definition uv_check_init :: "oid \<Rightarrow> oid \<Rightarrow> world \<Rightarrow> int \<times> world" where
  "uv_check_init l h w = (0, uv__handle_init l h UV_CHECK w)"

section \<open>Idle (src/idle.c)\<close>

definition Idle_tp_new :: "world \<Rightarrow> oid result \<times> world" where
  "Idle_tp_new = Handle_tp_new IdleC"

definition Idle_tp_init :: "oid \<Rightarrow> oid args \<Rightarrow> world \<Rightarrow> unit result \<times> world" where
  "Idle_tp_init self args w =
     RAISE_IF_HANDLE_INITIALIZED self w
     (PyArg_Parse args w (\<lambda>loop.
       let (err, w1) = uv_idle_init loop self w
       in if err < 0 then (Raise (UVExc IdleError err), w1)
          else (Ok (), initialize_handle self loop w1)))"

definition Idle_func_start :: "oid \<Rightarrow> oid args \<Rightarrow> world \<Rightarrow> unit result \<times> world" where
  "Idle_func_start self args w =
     RAISE_IF_HANDLE_NOT_INITIALIZED self w
     (RAISE_IF_HANDLE_CLOSED self w
     (PyArg_Parse args w (\<lambda>callback.
       if \<not> PyCallable_Check w callback then (Raise TypeError, w)
       else let (err, w1) = uv_idle_start self w
            in if err < 0 then (Raise (UVExc IdleError err), w1)
               else (Ok (), PYUV_HANDLE_INCREF self (assign_slot self S_callback callback w1)))))"

definition Idle_func_stop :: "oid \<Rightarrow> world \<Rightarrow> unit result \<times> world" where
  "Idle_func_stop self w =
     RAISE_IF_HANDLE_NOT_INITIALIZED self w
     (RAISE_IF_HANDLE_CLOSED self w
     (let (err, w1) = (0::int, uv_idle_stop self w)
      in if err < 0 then (Raise (UVExc IdleError err), w1)
         else (Ok (), PYUV_HANDLE_DECREF self (clear_slot self S_callback w1))))"

definition pyuv__idle_cb :: "python \<Rightarrow> oid \<Rightarrow> world \<Rightarrow> world option" where
  "pyuv__idle_cb py self w =
     (let w1 = Py_INCREF self w
      in case call_callback py (slot_of w1 self S_callback) [self] (\<lambda>v. slot_of v self S_loop) w1 of
           None \<Rightarrow> None
         | Some w2 \<Rightarrow> Some (Py_DECREF self w2))"

section \<open>Prepare (src/prepare.c)\<close>

definition Prepare_tp_new :: "world \<Rightarrow> oid result \<times> world" where
  "Prepare_tp_new = Handle_tp_new PrepareC"

definition Prepare_tp_init :: "oid \<Rightarrow> oid args \<Rightarrow> world \<Rightarrow> unit result \<times> world" where
  "Prepare_tp_init self args w =
     RAISE_IF_HANDLE_INITIALIZED self w
     (PyArg_Parse args w (\<lambda>loop.
       let (err, w1) = uv_prepare_init loop self w
       in if err < 0 then (Raise (UVExc PrepareError err), w1)
          else (Ok (), initialize_handle self loop w1)))"

definition Prepare_func_start :: "oid \<Rightarrow> oid args \<Rightarrow> world \<Rightarrow> unit result \<times> world" where
  "Prepare_func_start self args w =
     RAISE_IF_HANDLE_NOT_INITIALIZED self w
     (RAISE_IF_HANDLE_CLOSED self w
     (PyArg_Parse args w (\<lambda>callback.
       if \<not> PyCallable_Check w callback then (Raise TypeError, w)
       else let (err, w1) = uv_prepare_start self w
            in if err < 0 then (Raise (UVExc PrepareError err), w1)
               else (Ok (), PYUV_HANDLE_INCREF self (assign_slot self S_callback callback w1)))))"

definition Prepare_func_stop :: "oid \<Rightarrow> world \<Rightarrow> unit result \<times> world" where
  "Prepare_func_stop self w =
     RAISE_IF_HANDLE_NOT_INITIALIZED self w
     (RAISE_IF_HANDLE_CLOSED self w
     (let (err, w1) = (0::int, uv_prepare_stop self w)
      in if err < 0 then (Raise (UVExc PrepareError err), w1)
         else (Ok (), PYUV_HANDLE_DECREF self (clear_slot self S_callback w1))))"

definition pyuv__prepare_cb :: "python \<Rightarrow> oid \<Rightarrow> world \<Rightarrow> world option" where
  "pyuv__prepare_cb py self w =
     (let w1 = Py_INCREF self w
      in case call_callback py (slot_of w1 self S_callback) [self] (\<lambda>v. slot_of v self S_loop) w1 of
           None \<Rightarrow> None
         | Some w2 \<Rightarrow> Some (Py_DECREF self w2))"

section \<open>Check (src/check.c)\<close>

definition Check_tp_new :: "world \<Rightarrow> oid result \<times> world" where
  "Check_tp_new = Handle_tp_new CheckC"

definition Check_tp_init :: "oid \<Rightarrow> oid args \<Rightarrow> world \<Rightarrow> unit result \<times> world" where
  "Check_tp_init self args w =
     RAISE_IF_HANDLE_INITIALIZED self w
     (PyArg_Parse args w (\<lambda>loop.
       let (err, w1) = uv_check_init loop self w
       in if err < 0 then (Raise (UVExc CheckError err), w1)
          else (Ok (), initialize_handle self loop w1)))"

definition Check_func_start :: "oid \<Rightarrow> oid args \<Rightarrow> world \<Rightarrow> unit result \<times> world" where
  "Check_func_start self args w =
     RAISE_IF_HANDLE_NOT_INITIALIZED self w
     (RAISE_IF_HANDLE_CLOSED self w
     (PyArg_Parse args w (\<lambda>callback.
       if \<not> PyCallable_Check w callback then (Raise TypeError, w)
       else let (err, w1) = uv_check_start self w
            in if err < 0 then (Raise (UVExc CheckError err), w1)
               else (Ok (), PYUV_HANDLE_INCREF self (assign_slot self S_callback callback w1)))))"

definition Check_func_stop :: "oid \<Rightarrow> world \<Rightarrow> unit result \<times> world" where
  "Check_func_stop self w =
     RAISE_IF_HANDLE_NOT_INITIALIZED self w
     (RAISE_IF_HANDLE_CLOSED self w
     (let (err, w1) = (0::int, uv_check_stop self w)
      in if err < 0 then (Raise (UVExc CheckError err), w1)
         else (Ok (), PYUV_HANDLE_DECREF self (clear_slot self S_callback w1))))"

definition pyuv__check_cb :: "python \<Rightarrow> oid \<Rightarrow> world \<Rightarrow> world option" where
  "pyuv__check_cb py self w =
     (let w1 = Py_INCREF self w
      in case call_callback py (slot_of w1 self S_callback) [self] (\<lambda>v. slot_of v self S_loop) w1 of
           None \<Rightarrow> None
         | Some w2 \<Rightarrow> Some (Py_DECREF self w2))"

section \<open>The methods keep the invariant\<close>

text \<open>\<open>__init__\<close> of a handle type that libuv only enters in the handle queue.\<close>

lemma init_other: "y \<noteq> h \<Longrightarrow> hs (uv__handle_init l h t w) y = hs w y"
  by (simp add: uv__handle_init_def upd_defs)

lemma init_frame [simp]:
  "objs (uv__handle_init l h t w) = objs w" "ext (uv__handle_init l h t w) = ext w"
  "pend (uv__handle_init l h t w) = pend w" "trace (uv__handle_init l h t w) = trace w"
  by (simp_all add: uv__handle_init_def upd_defs)

lemma ok_watcher_init:
  assumes ok: "ok fr w" and h: "held fr w x" and k: "kind (objs w ! x) = KHandle c"
    and ni: "\<not> initialized (hs w x)" and l: "is_loop w l"
    and t: "t = uv_type_of c" "t \<noteq> UV_SIGNAL" "\<not> fires c (uvh (uv__handle_init l x t w) x)"
  shows "ok fr (initialize_handle x l (uv__handle_init l x t w))"
proof (rule ok_initialized [OF ok_imp_but [OF ok] h k ni _ _ l])
  note U = uninitD [OF ok h k ni]
  show "slot_of w x S_loop = None" "slot_of w x S_on_close_cb = None" by (rule U)+
  show "uv_inv (uv__handle_init l x t w)"
    by (rule uv_inv_handle_init [OF okD(2) [OF ok] U(3)]) (simp add: t(2))
qed (use t uninitD [OF ok h k ni] in \<open>simp_all add: init_other uv_defs\<close>)

lemma ok_Idle_tp_init:
  assumes "ok fr w" and "held fr w x" and "kind (objs w ! x) = KHandle IdleC"
    and "\<And>l. args = Inr l \<Longrightarrow> is_loop w l"
  shows "ok fr (snd (Idle_tp_init x args w))"
  using assms ok_watcher_init [OF assms(1-3), of _ UV_IDLE]
  by (auto simp: Idle_tp_init_def guard_defs uv_idle_init_def uv_defs split: sum.splits)

lemma ok_Idle_func_start:
  assumes ok: "ok fr w" and h: "held fr w x" and k: "kind (objs w ! x) = KHandle IdleC"
    and a: "\<And>f. args = Inr f \<Longrightarrow> held fr w f"
  shows "ok fr (snd (Idle_func_start x args w))"
proof (cases "initialized (hs w x) \<and> \<not> uv_is_closing x w")
  case False
  then show ?thesis using ok by (auto simp: Idle_func_start_def guard_defs)
next
  case True
  then have o: "open_handle w x IdleC" by (intro open_handleI [OF ok h k]) auto
  note D = open_handleD [OF ok o]
  have "uv_inv (snd (uv_idle_start x w))"
    using D(6,7) o uv_inv_watcher_start [OF okD(2) [OF ok], of x] by (auto simp: open_handle_def)
  then have "ok fr (PYUV_HANDLE_INCREF x (assign_slot x S_callback f (snd (uv_idle_start x w))))"
    if "args = Inr f" for f
    using ok_started [OF ok o h a [OF that], of "snd (uv_idle_start x w)"]
    by (simp add: quiet local_steps cb_slot_def reads_class_def tp_clear_defs)
  then show ?thesis
    using ok True
    by (auto simp: Idle_func_start_def guard_defs uv_watcher_start_def split: sum.splits)
qed

lemma ok_Idle_func_stop:
  assumes ok: "ok fr w" and h: "held fr w x" and k: "kind (objs w ! x) = KHandle IdleC"
  shows "ok fr (snd (Idle_func_stop x w))"
proof (cases "initialized (hs w x) \<and> \<not> uv_is_closing x w")
  case False
  then show ?thesis using ok by (auto simp: Idle_func_stop_def guard_defs)
next
  case True
  then have o: "open_handle w x IdleC" by (intro open_handleI [OF ok h k]) auto
  note D = open_handleD [OF ok o]
  obtain l where l: "u_loop (uvh w x) = Some l" using D(7) by blast
  have "stopped x w (uv_idle_stop x w)" by (rule stopped_watcher) (use D(6) in simp)
  then have "uv_inv (uv_idle_stop x w)" and "\<not> u_active (uvh (uv_idle_stop x w) x)"
    using uv_inv_stopped [OF okD(2) [OF ok] l] o by (auto simp: open_handle_def stopped_def Let_def)
  then have "ok fr (PYUV_HANDLE_DECREF x (clear_slot x S_callback (uv_idle_stop x w)))"
    using ok_stopped_clear [OF ok o h, of "uv_idle_stop x w"]
    by (simp add: quiet local_steps cb_slot_def reads_class_def tp_clear_defs)
  then show ?thesis using True by (simp add: Idle_func_stop_def guard_defs)
qed

lemma ok_Prepare_tp_init:
  assumes "ok fr w" and "held fr w x" and "kind (objs w ! x) = KHandle PrepareC"
    and "\<And>l. args = Inr l \<Longrightarrow> is_loop w l"
  shows "ok fr (snd (Prepare_tp_init x args w))"
  using assms ok_watcher_init [OF assms(1-3), of _ UV_PREPARE]
  by (auto simp: Prepare_tp_init_def guard_defs uv_prepare_init_def uv_defs split: sum.splits)

lemma ok_Prepare_func_start:
  assumes ok: "ok fr w" and h: "held fr w x" and k: "kind (objs w ! x) = KHandle PrepareC"
    and a: "\<And>f. args = Inr f \<Longrightarrow> held fr w f"
  shows "ok fr (snd (Prepare_func_start x args w))"
proof (cases "initialized (hs w x) \<and> \<not> uv_is_closing x w")
  case False
  then show ?thesis using ok by (auto simp: Prepare_func_start_def guard_defs)
next
  case True
  then have o: "open_handle w x PrepareC" by (intro open_handleI [OF ok h k]) auto
  note D = open_handleD [OF ok o]
  have "uv_inv (snd (uv_prepare_start x w))"
    using D(6,7) o uv_inv_watcher_start [OF okD(2) [OF ok], of x] by (auto simp: open_handle_def)
  then have "ok fr (PYUV_HANDLE_INCREF x (assign_slot x S_callback f (snd (uv_prepare_start x w))))"
    if "args = Inr f" for f
    using ok_started [OF ok o h a [OF that], of "snd (uv_prepare_start x w)"]
    by (simp add: quiet local_steps cb_slot_def reads_class_def tp_clear_defs)
  then show ?thesis
    using ok True
    by (auto simp: Prepare_func_start_def guard_defs uv_watcher_start_def split: sum.splits)
qed

lemma ok_Prepare_func_stop:
  assumes ok: "ok fr w" and h: "held fr w x" and k: "kind (objs w ! x) = KHandle PrepareC"
  shows "ok fr (snd (Prepare_func_stop x w))"
proof (cases "initialized (hs w x) \<and> \<not> uv_is_closing x w")
  case False
  then show ?thesis using ok by (auto simp: Prepare_func_stop_def guard_defs)
next
  case True
  then have o: "open_handle w x PrepareC" by (intro open_handleI [OF ok h k]) auto
  note D = open_handleD [OF ok o]
  obtain l where l: "u_loop (uvh w x) = Some l" using D(7) by blast
  have "stopped x w (uv_prepare_stop x w)" by (rule stopped_watcher) (use D(6) in simp)
  then have "uv_inv (uv_prepare_stop x w)" and "\<not> u_active (uvh (uv_prepare_stop x w) x)"
    using uv_inv_stopped [OF okD(2) [OF ok] l] o by (auto simp: open_handle_def stopped_def Let_def)
  then have "ok fr (PYUV_HANDLE_DECREF x (clear_slot x S_callback (uv_prepare_stop x w)))"
    using ok_stopped_clear [OF ok o h, of "uv_prepare_stop x w"]
    by (simp add: quiet local_steps cb_slot_def reads_class_def tp_clear_defs)
  then show ?thesis using True by (simp add: Prepare_func_stop_def guard_defs)
qed

lemma ok_Check_tp_init:
  assumes "ok fr w" and "held fr w x" and "kind (objs w ! x) = KHandle CheckC"
    and "\<And>l. args = Inr l \<Longrightarrow> is_loop w l"
  shows "ok fr (snd (Check_tp_init x args w))"
  using assms ok_watcher_init [OF assms(1-3), of _ UV_CHECK]
  by (auto simp: Check_tp_init_def guard_defs uv_check_init_def uv_defs split: sum.splits)

lemma ok_Check_func_start:
  assumes ok: "ok fr w" and h: "held fr w x" and k: "kind (objs w ! x) = KHandle CheckC"
    and a: "\<And>f. args = Inr f \<Longrightarrow> held fr w f"
  shows "ok fr (snd (Check_func_start x args w))"
proof (cases "initialized (hs w x) \<and> \<not> uv_is_closing x w")
  case False
  then show ?thesis using ok by (auto simp: Check_func_start_def guard_defs)
next
  case True
  then have o: "open_handle w x CheckC" by (intro open_handleI [OF ok h k]) auto
  note D = open_handleD [OF ok o]
  have "uv_inv (snd (uv_check_start x w))"
    using D(6,7) o uv_inv_watcher_start [OF okD(2) [OF ok], of x] by (auto simp: open_handle_def)
  then have "ok fr (PYUV_HANDLE_INCREF x (assign_slot x S_callback f (snd (uv_check_start x w))))"
    if "args = Inr f" for f
    using ok_started [OF ok o h a [OF that], of "snd (uv_check_start x w)"]
    by (simp add: quiet local_steps cb_slot_def reads_class_def tp_clear_defs)
  then show ?thesis
    using ok True
    by (auto simp: Check_func_start_def guard_defs uv_watcher_start_def split: sum.splits)
qed

lemma ok_Check_func_stop:
  assumes ok: "ok fr w" and h: "held fr w x" and k: "kind (objs w ! x) = KHandle CheckC"
  shows "ok fr (snd (Check_func_stop x w))"
proof (cases "initialized (hs w x) \<and> \<not> uv_is_closing x w")
  case False
  then show ?thesis using ok by (auto simp: Check_func_stop_def guard_defs)
next
  case True
  then have o: "open_handle w x CheckC" by (intro open_handleI [OF ok h k]) auto
  note D = open_handleD [OF ok o]
  obtain l where l: "u_loop (uvh w x) = Some l" using D(7) by blast
  have "stopped x w (uv_check_stop x w)" by (rule stopped_watcher) (use D(6) in simp)
  then have "uv_inv (uv_check_stop x w)" and "\<not> u_active (uvh (uv_check_stop x w) x)"
    using uv_inv_stopped [OF okD(2) [OF ok] l] o by (auto simp: open_handle_def stopped_def Let_def)
  then have "ok fr (PYUV_HANDLE_DECREF x (clear_slot x S_callback (uv_check_stop x w)))"
    using ok_stopped_clear [OF ok o h, of "uv_check_stop x w"]
    by (simp add: quiet local_steps cb_slot_def reads_class_def tp_clear_defs)
  then show ?thesis using True by (simp add: Check_func_stop_def guard_defs)
qed

context python_program
begin

lemma pyuv__idle_cb_ok:
  assumes "ok fr w" and "valid w x" and "kind (objs w ! x) = KHandle IdleC" and "initialized (hs w x)"
  shows "\<exists>w'. pyuv__idle_cb py x w = Some w' \<and> ok fr w' \<and> undisturbed w w'"
  using handle_callback_ok [OF assms, of "[]" S_callback]
  by (auto simp: pyuv__idle_cb_def Let_def)

lemma pyuv__prepare_cb_ok:
  assumes "ok fr w" and "valid w x" and "kind (objs w ! x) = KHandle PrepareC" and "initialized (hs w x)"
  shows "\<exists>w'. pyuv__prepare_cb py x w = Some w' \<and> ok fr w' \<and> undisturbed w w'"
  using handle_callback_ok [OF assms, of "[]" S_callback]
  by (auto simp: pyuv__prepare_cb_def Let_def)

lemma pyuv__check_cb_ok:
  assumes "ok fr w" and "valid w x" and "kind (objs w ! x) = KHandle CheckC" and "initialized (hs w x)"
  shows "\<exists>w'. pyuv__check_cb py x w = Some w' \<and> ok fr w' \<and> undisturbed w w'"
  using handle_callback_ok [OF assms, of "[]" S_callback]
  by (auto simp: pyuv__check_cb_def Let_def)

end

end
