(* ===== verification/Timers.thy ===== *)
theory Timers
  imports Watchers "HOL-Library.Log_Nat"
begin

text \<open>
  The class \<open>Timer\<close> (src/timer.c). Its arguments are C doubles: a finite double is the
  rational number it stands for, and the product with 1000 is rounded to 53 bits (to nearest,
  ties to even). The range of the exponent is not modelled; what it would change lies outside
  the range of the cast to \<open>uint64_t\<close> or rounds to 0 there.
\<close>

section \<open>Doubles\<close>

datatype double = NaN | Inf bool | Dbl rat

definition pow2 :: "int \<Rightarrow> rat" where
  "pow2 e = (if 0 \<le> e then 2 ^ nat e else 1 / 2 ^ nat (- e))"

text \<open>The exponent of the leading bit of a positive rational.\<close>

definition lead_exp :: "rat \<Rightarrow> int" where
  "lead_exp q = (let (n, d) = quotient_of q; k = bitlen n - bitlen d
                 in if pow2 k \<le> q then k else k - 1)"

definition round_even :: "rat \<Rightarrow> int" where
  "round_even m = (let f = \<lfloor>m\<rfloor>; r = m - of_int f
                   in if r < 1 / 2 then f else if 1 / 2 < r then f + 1
                      else if even f then f else f + 1)"

definition round53 :: "rat \<Rightarrow> rat" where
  "round53 q = (if q = 0 then 0
     else let u = pow2 (lead_exp \<bar>q\<bar> - 52) in of_int (round_even (q / u)) * u)"

fun dless :: "double \<Rightarrow> double \<Rightarrow> bool" where
  "dless (Dbl a) (Dbl b) = (a < b)"
| "dless (Inf neg) (Dbl b) = neg"
| "dless (Dbl a) (Inf neg) = (\<not> neg)"
| "dless (Inf m) (Inf n) = (m \<and> \<not> n)"
| "dless NaN _ = False"
| "dless _ NaN = False"

text \<open>The literal 0.001 and the product by the int 1000.\<close>

definition d001 :: double where "d001 = Dbl (round53 (1 / 1000))"

fun times1000 :: "double \<Rightarrow> double" where
  "times1000 (Dbl q) = Dbl (round53 (q * 1000))"
| "times1000 (Inf neg) = Inf neg"
| "times1000 NaN = NaN"

text \<open>
  The cast to \<open>uint64_t\<close> truncates; out of range it is undefined in C, and its value here is
  whatever the parameter \<open>ub\<close> says.
\<close>

definition uint64_cast :: "(double \<Rightarrow> 64 word) \<Rightarrow> double \<Rightarrow> 64 word" where
  "uint64_cast ub d =
     (case d of
        Dbl q \<Rightarrow> let z = (if 0 \<le> q then \<lfloor>q\<rfloor> else \<lceil>q\<rceil>)
                 in if 0 \<le> z \<and> z < 18446744073709551616 then word_of_int z else ub d
      | _ \<Rightarrow> ub d)"

section \<open>timer.c\<close>

definition Timer_tp_new :: "world \<Rightarrow> oid result \<times> world" where
  "Timer_tp_new = Handle_tp_new TimerC"

definition Timer_tp_init :: "oid \<Rightarrow> oid args \<Rightarrow> world \<Rightarrow> unit result \<times> world" where
  "Timer_tp_init self args w =
     RAISE_IF_HANDLE_INITIALIZED self w
     (PyArg_Parse args w (\<lambda>loop.
       let (err, w1) = (0::int, uv_timer_init loop self w)
       in if err < 0 then (Raise (UVExc TimerError err), w1)
          else (Ok (), initialize_handle self loop w1)))"

text \<open>The warning of the sub-millisecond branch is discarded by \<open>PyErr_Clear\<close> when it raises.\<close>

definition Timer_func_start ::
    "(double \<Rightarrow> 64 word) \<Rightarrow> oid \<Rightarrow> (oid \<times> double \<times> double) args \<Rightarrow> world \<Rightarrow> unit result \<times> world" where
  "Timer_func_start ub self args w =
     RAISE_IF_HANDLE_NOT_INITIALIZED self w
     (RAISE_IF_HANDLE_CLOSED self w
     (PyArg_Parse args w (\<lambda>(callback, timeout, rpt).
       if \<not> PyCallable_Check w callback then (Raise TypeError, w)
       else if dless timeout (Dbl 0) then (Raise ValueError, w)
       else let timeout = (if dless (Dbl 0) timeout \<and> dless timeout d001 then d001 else timeout)
       in if dless rpt (Dbl 0) then (Raise ValueError, w)
       else let rpt = (if dless (Dbl 0) rpt \<and> dless rpt d001 then d001 else rpt);
                (err, w1) = uv_timer_start self (uint64_cast ub (times1000 timeout))
                              (uint64_cast ub (times1000 rpt)) w
       in if err < 0 then (Raise (UVExc TimerError err), w1)
          else (Ok (), PYUV_HANDLE_INCREF self (assign_slot self S_callback callback w1)))))"

definition Timer_func_stop :: "oid \<Rightarrow> world \<Rightarrow> unit result \<times> world" where
  "Timer_func_stop self w =
     RAISE_IF_HANDLE_NOT_INITIALIZED self w
     (RAISE_IF_HANDLE_CLOSED self w
     (let (err, w1) = (0::int, uv_timer_stop self w)
      in if err < 0 then (Raise (UVExc TimerError err), w1)
         else (Ok (), PYUV_HANDLE_DECREF self w1)))"

definition Timer_func_again :: "oid \<Rightarrow> world \<Rightarrow> unit result \<times> world" where
  "Timer_func_again self w =
     RAISE_IF_HANDLE_NOT_INITIALIZED self w
     (RAISE_IF_HANDLE_CLOSED self w
     (let (err, w1) = uv_timer_again self w
      in if err < 0 then (Raise (UVExc TimerError err), w1) else (Ok (), w1)))"

definition Timer_repeat_get :: "oid \<Rightarrow> world \<Rightarrow> double result \<times> world" where
  "Timer_repeat_get self w =
     RAISE_IF_HANDLE_NOT_INITIALIZED self w
     (Ok (Dbl (round53 (round53 (of_int (uint (uv_timer_get_repeat self w))) / 1000))), w)"

text \<open>\<open>value\<close> is \<open>None\<close> for \<open>del t.repeat\<close>.\<close>

definition Timer_repeat_set ::
    "(double \<Rightarrow> 64 word) \<Rightarrow> oid \<Rightarrow> double args option \<Rightarrow> world \<Rightarrow> unit result \<times> world" where
  "Timer_repeat_set ub self val w =
     RAISE_IF_HANDLE_NOT_INITIALIZED self w
     (case val of
        None \<Rightarrow> (Raise TypeError, w)
      | Some args \<Rightarrow> PyArg_Parse args w (\<lambda>rpt.
          if dless rpt (Dbl 0) then (Raise ValueError, w)
          else (Ok (), uv_timer_set_repeat self (uint64_cast ub (times1000 rpt)) w)))"

definition pyuv__timer_cb :: "python \<Rightarrow> oid \<Rightarrow> world \<Rightarrow> world option" where
  "pyuv__timer_cb py self w =
     (let w1 = Py_INCREF self w
      in case call_callback py (slot_of w1 self S_callback) [self] (\<lambda>v. slot_of v self S_loop) w1 of
           None \<Rightarrow> None
         | Some w2 \<Rightarrow> Some (Py_DECREF self w2))"

section \<open>The methods keep the invariant\<close>

lemma timer_init_frame [simp]:
  "objs (uv_timer_init l h w) = objs w" "ext (uv_timer_init l h w) = ext w"
  "pend (uv_timer_init l h w) = pend w" "trace (uv_timer_init l h w) = trace w"
  by (simp_all add: uv_timer_init_def upd_uv_def)

lemma ok_Timer_tp_init:
  assumes ok: "ok fr w" and h: "held fr w x" and k: "kind (objs w ! x) = KHandle TimerC"
    and a: "\<And>l. args = Inr l \<Longrightarrow> is_loop w l"
  shows "ok fr (snd (Timer_tp_init x args w))"
proof (cases "initialized (hs w x)")
  case True
  then show ?thesis using ok by (simp add: Timer_tp_init_def guard_defs)
next
  case False
  note U = uninitD [OF ok h k False]
  have "ok fr (initialize_handle x l (uv_timer_init l x w))" if "is_loop w l" for l
  proof (rule ok_initialized [OF ok_imp_but [OF ok] h k False U(1,2) that])
    show "uv_inv (uv_timer_init l x w)" by (rule uv_inv_timer_init [OF okD(2) [OF ok] U(3)])
  qed (use U in \<open>auto simp: uv_timer_init_def uv_defs upd_uv_def init_other keeps_alive_def\<close>)
  then show ?thesis
    using ok a by (auto simp: Timer_tp_init_def guard_defs split: sum.splits)
qed

lemma ok_Timer_func_start:
  assumes ok: "ok fr w" and h: "held fr w x" and k: "kind (objs w ! x) = KHandle TimerC"
    and a: "\<And>f t r. args = Inr (f, t, r) \<Longrightarrow> held fr w f"
  shows "ok fr (snd (Timer_func_start ub x args w))"
proof (cases "initialized (hs w x) \<and> \<not> uv_is_closing x w")
  case False
  then show ?thesis using ok by (auto simp: Timer_func_start_def guard_defs)
next
  case True
  then have o: "open_handle w x TimerC" by (intro open_handleI [OF ok h k]) auto
  note D = open_handleD [OF ok o]
  have "ok fr (PYUV_HANDLE_INCREF x (assign_slot x S_callback f (snd (uv_timer_start x t r w))))"
    if "held fr w f" for f t r
  proof -
    have "uv_inv (snd (uv_timer_start x t r w))"
      using D(6,7) o uv_inv_timer_start [OF okD(2) [OF ok], of x] by (auto simp: open_handle_def)
    then show ?thesis
      using ok_started [OF ok o h that, of "snd (uv_timer_start x t r w)"]
      by (simp add: quiet local_steps cb_slot_def reads_class_def tp_clear_defs)
  qed
  moreover have "fst (uv_timer_start x t r w) = 0" for t r by (simp add: uv_timer_start_def Let_def)
  ultimately show ?thesis
    using ok True a
    by (auto simp: Timer_func_start_def guard_defs Let_def split_beta split: sum.splits)
qed

lemma ok_Timer_func_stop:
  assumes ok: "ok fr w" and h: "held fr w x" and k: "kind (objs w ! x) = KHandle TimerC"
  shows "ok fr (snd (Timer_func_stop x w))"
proof (cases "initialized (hs w x) \<and> \<not> uv_is_closing x w")
  case False
  then show ?thesis using ok by (auto simp: Timer_func_stop_def guard_defs)
next
  case True
  then have o: "open_handle w x TimerC" by (intro open_handleI [OF ok h k]) auto
  note D = open_handleD [OF ok o]
  obtain l where l: "u_loop (uvh w x) = Some l" using D(7) by blast
  have "uv_inv (uv_timer_stop x w)"
    by (rule uv_inv_timer_stop [OF okD(2) [OF ok] l]) (use o D(6) in \<open>auto simp: open_handle_def\<close>)
  then have "ok fr (PYUV_HANDLE_DECREF x (uv_timer_stop x w))"
    using ok_stopped [OF ok o h, of "uv_timer_stop x w"] timer_stop_keeps(9) [of x w]
    by (simp add: quiet local_steps keeps_alive_def reads_class_def timer_stop_keeps)
  then show ?thesis using True by (simp add: Timer_func_stop_def guard_defs)
qed

lemma ok_uv_timer_again:
  assumes ok: "ok fr w" and o: "open_handle w x TimerC"
  shows "ok fr (snd (uv_timer_again x w))"
proof -
  note D = open_handleD [OF ok o]
  obtain l where l: "u_loop (uvh w x) = Some l" using D(7) by blast
  have "uv_inv (snd (uv_timer_again x w))"
    by (rule uv_inv_timer_again [OF okD(2) [OF ok] l]) (use o D(6) in \<open>auto simp: open_handle_def\<close>)
  then show ?thesis
    by (rule ok_quiet_fields [OF ok, where x = x, rotated 2])
      (use o in \<open>auto simp: quiet local_steps open_handle_def keeps_alive_def reads_class_def
         uv_timer_again_def uv_timer_start_def Let_def uv_defs timer_stop_keeps\<close>)
qed

lemma ok_Timer_func_again:
  assumes ok: "ok fr w" and h: "held fr w x" and k: "kind (objs w ! x) = KHandle TimerC"
  shows "ok fr (snd (Timer_func_again x w))"
proof (cases "initialized (hs w x) \<and> \<not> uv_is_closing x w")
  case False
  then show ?thesis using ok by (auto simp: Timer_func_again_def guard_defs)
next
  case True
  then have o: "open_handle w x TimerC" by (intro open_handleI [OF ok h k]) auto
  show ?thesis
    using ok_uv_timer_again [OF ok o] True by (simp add: Timer_func_again_def guard_defs split_beta)
qed

lemma ok_Timer_repeat_set:
  assumes ok: "ok fr w" and h: "held fr w x" and k: "kind (objs w ! x) = KHandle TimerC"
  shows "ok fr (snd (Timer_repeat_set ub x args w))"
proof -
  have "ok fr (uv_timer_set_repeat x r w)" for r
    by (rule ok_quiet_fields [OF ok, where x = x])
      (use k okD(2) [OF ok] in \<open>simp_all add: quiet local_steps uv_inv_misc uv_timer_set_repeat_def uv_defs
         uv_inv_upd_uv keeps_alive_def reads_class_def\<close>)
  then show ?thesis
    using ok by (auto simp: Timer_repeat_set_def guard_defs split: option.splits sum.splits)
qed

context python_program
begin

lemma pyuv__timer_cb_ok:
  assumes "ok fr w" and "valid w x" and "kind (objs w ! x) = KHandle TimerC" and "initialized (hs w x)"
  shows "\<exists>w'. pyuv__timer_cb py x w = Some w' \<and> ok fr w' \<and> undisturbed w w'"
  using handle_callback_ok [OF assms, of "[]" S_callback]
  by (auto simp: pyuv__timer_cb_def Let_def)

end

end
