(* ===== verification/Event_Handles.thy ===== *)
theory Event_Handles
  imports Timers
begin

text \<open>
  The classes \<open>Async\<close> (src/async.c), \<open>Signal\<close> (src/signal.c), \<open>Poll\<close> (src/poll.c) and
  \<open>SignalChecker\<close> (src/util.c), with the part of libuv that dispatches their events. What the
  operating system answers to an \<open>init\<close> or a \<open>start\<close> is the argument \<open>os\<close>.
\<close>

text \<open>\<open>PyInt_FromLong\<close>: a new reference to an int object; the small ints are not shared here.\<close>

definition PyInt_FromLong :: "world \<Rightarrow> oid \<times> world" where
  "PyInt_FromLong = PyType_GenericNew (KObject False)"

section \<open>async.c\<close>

definition Async_tp_new :: "world \<Rightarrow> oid result \<times> world" where
  "Async_tp_new = Handle_tp_new AsyncC"

definition Async_tp_init :: "int \<Rightarrow> oid \<Rightarrow> (oid \<times> oid option) args \<Rightarrow> world \<Rightarrow> unit result \<times> world" where
  "Async_tp_init os self args w =
     RAISE_IF_HANDLE_INITIALIZED self w
     (PyArg_Parse args w (\<lambda>(loop, cb).
       let callback = (case cb of None \<Rightarrow> Py_None | Some c \<Rightarrow> c)
       in if callback \<noteq> Py_None \<and> \<not> PyCallable_Check w callback then (Raise TypeError, w)
          else let (err, w1) = uv_async_init os loop self w
               in if err \<noteq> 0 then (Raise (UVExc AsyncError err), w1)
                  else let w2 = put_slot self S_callback (Some callback) (Py_INCREF callback w1)
                       in (Ok (), initialize_handle self loop w2)))"

definition Async_func_send :: "oid \<Rightarrow> world \<Rightarrow> unit result \<times> world" where
  "Async_func_send self w =
     RAISE_IF_HANDLE_NOT_INITIALIZED self w
     (RAISE_IF_HANDLE_CLOSED self w
     (let (err, w1) = uv_async_send self w
      in if err < 0 then (Raise (UVExc AsyncError err), w1) else (Ok (), w1)))"

definition pyuv__async_cb :: "python \<Rightarrow> oid \<Rightarrow> world \<Rightarrow> world option" where
  "pyuv__async_cb py self w =
     (if slot_of w self S_callback \<noteq> Some Py_None
      then let w1 = Py_INCREF self w
           in case call_callback py (slot_of w1 self S_callback) [self] (\<lambda>v. slot_of v self S_loop) w1 of
                None \<Rightarrow> None
              | Some w2 \<Rightarrow> Some (Py_DECREF self w2)
      else Some w)"

text \<open>One handle of \<open>uv__async_io\<close>: only a pending one is called, and no longer pending.\<close>

definition uv__async_dispatch :: "python \<Rightarrow> oid \<Rightarrow> world \<Rightarrow> world option" where
  "uv__async_dispatch py h w =
     (if \<not> u_pending (uvh w h) then Some w
      else pyuv__async_cb py h (upd_uv h (\<lambda>u. u\<lparr>u_pending := False\<rparr>) w))"

section \<open>signal.c\<close>

definition Signal_tp_new :: "world \<Rightarrow> oid result \<times> world" where
  "Signal_tp_new = Handle_tp_new SignalC"

definition Signal_tp_init :: "int \<Rightarrow> oid \<Rightarrow> oid args \<Rightarrow> world \<Rightarrow> unit result \<times> world" where
  "Signal_tp_init os self args w =
     RAISE_IF_HANDLE_INITIALIZED self w
     (PyArg_Parse args w (\<lambda>loop.
       let (err, w1) = uv_signal_init os loop self w
       in if err < 0 then (Raise (UVExc SignalError err), w1)
          else (Ok (), initialize_handle self loop w1)))"

definition Signal_func_start :: "int \<Rightarrow> oid \<Rightarrow> (oid \<times> int) args \<Rightarrow> world \<Rightarrow> unit result \<times> world" where
  "Signal_func_start os self args w =
     RAISE_IF_HANDLE_NOT_INITIALIZED self w
     (RAISE_IF_HANDLE_CLOSED self w
     (PyArg_Parse args w (\<lambda>(callback, signum).
       if \<not> PyCallable_Check w callback then (Raise TypeError, w)
       else let (err, w1) = uv_signal_start os self signum w
            in if err < 0 then (Raise (UVExc SignalError err), w1)
               else (Ok (), PYUV_HANDLE_INCREF self (assign_slot self S_callback callback w1)))))"

definition Signal_func_stop :: "oid \<Rightarrow> world \<Rightarrow> unit result \<times> world" where
  "Signal_func_stop self w =
     RAISE_IF_HANDLE_NOT_INITIALIZED self w
     (RAISE_IF_HANDLE_CLOSED self w
     (let (err, w1) = (0::int, uv__signal_stop self w)
      in if err < 0 then (Raise (UVExc SignalError err), w1)
         else (Ok (), PYUV_HANDLE_DECREF self w1)))"

text \<open>The int object is an argument of the call and is never released.\<close>

definition pyuv__signal_cb :: "python \<Rightarrow> oid \<Rightarrow> world \<Rightarrow> world option" where
  "pyuv__signal_cb py self w =
     (let w1 = Py_INCREF self w;
          (signum, w2) = PyInt_FromLong w1
      in case call_callback py (slot_of w2 self S_callback) [self, signum] (\<lambda>v. slot_of v self S_loop) w2 of
           None \<Rightarrow> None
         | Some w3 \<Rightarrow> Some (Py_DECREF self w3))"

text \<open>\<open>uv__signal_handler\<close>, for one handle registered for the signal.\<close>

definition uv__signal_caught :: "oid \<Rightarrow> world \<Rightarrow> world" where
  "uv__signal_caught h w = upd_uv h (\<lambda>u. u\<lparr>u_caught := u_caught u + 1\<rparr>) w"

text \<open>One message of \<open>uv__signal_event\<close>; \<open>None\<close> is the failure of its \<open>assert\<close>.\<close>

definition uv__signal_dispatch :: "python \<Rightarrow> int \<Rightarrow> oid \<Rightarrow> world \<Rightarrow> world option" where
  "uv__signal_dispatch py msg_signum h w =
     (case (if msg_signum = u_signum (uvh w h)
            then if u_closing (uvh w h) then None else pyuv__signal_cb py h w
            else Some w) of
        None \<Rightarrow> None
      | Some w1 \<Rightarrow>
          let w2 = upd_uv h (\<lambda>u. u\<lparr>u_dispatched := u_dispatched u + 1\<rparr>) w1
          in Some (if u_closing (uvh w2 h) \<and> u_caught (uvh w2 h) = u_dispatched (uvh w2 h)
                   then uv__make_close_pending h w2 else w2))"

section \<open>poll.c\<close>

definition Poll_tp_new :: "world \<Rightarrow> oid result \<times> world" where
  "Poll_tp_new = Handle_tp_new PollC"

definition Poll_tp_init :: "int \<Rightarrow> oid \<Rightarrow> (oid \<times> int) args \<Rightarrow> world \<Rightarrow> unit result \<times> world" where
  "Poll_tp_init os self args w =
     RAISE_IF_HANDLE_INITIALIZED self w
     (PyArg_Parse args w (\<lambda>(loop, fd).
       let (err, w1) = uv_poll_init_socket os loop self fd w
       in if err < 0 then (Raise (UVExc PollError err), w1)
          else (Ok (), initialize_handle self loop w1)))"

text \<open>The events are not checked: \<open>uv_poll_start\<close> aborts on an unknown bit.\<close>

definition Poll_func_start :: "oid \<Rightarrow> (int \<times> oid) args \<Rightarrow> world \<Rightarrow> unit result \<times> world" where
  "Poll_func_start self args w =
     RAISE_IF_HANDLE_NOT_INITIALIZED self w
     (RAISE_IF_HANDLE_CLOSED self w
     (PyArg_Parse args w (\<lambda>(events, callback).
       if \<not> PyCallable_Check w callback then (Raise TypeError, w)
       else case uv_poll_start self events w of
              None \<Rightarrow> (Abort, w)
            | Some (err, w1) \<Rightarrow>
                if err < 0 then (Raise (UVExc PollError err), w1)
                else (Ok (), PYUV_HANDLE_INCREF self (assign_slot self S_callback callback w1)))))"

definition Poll_func_stop :: "oid \<Rightarrow> world \<Rightarrow> unit result \<times> world" where
  "Poll_func_stop self w =
     RAISE_IF_HANDLE_NOT_INITIALIZED self w
     (RAISE_IF_HANDLE_CLOSED self w
     (let (err, w1) = (0::int, uv__poll_stop self w)
      in if err < 0 then (Raise (UVExc PollError err), w1)
         else (Ok (), PYUV_HANDLE_DECREF self (clear_slot self S_callback w1))))"

text \<open>
  \<open>uv_fileno\<close> of a poll handle: \<open>EBADF\<close> when it is closing or has no descriptor.
\<close>

definition Poll_func_fileno :: "oid \<Rightarrow> world \<Rightarrow> int result \<times> world" where
  "Poll_func_fileno self w =
     RAISE_IF_HANDLE_NOT_INITIALIZED self w
     (RAISE_IF_HANDLE_CLOSED self w
     (let (err, fd) = (if uv_is_closing self w \<or> u_fd (uvh w self) = -1 then (UV_EBADF, 0)
                       else (0, u_fd (uvh w self)))
      in if err < 0 then (Raise (UVExc PollError err), w) else (Ok fd, w)))"

text \<open>
  Of the two objects made for the call one is a new int and the other \<open>None\<close>; neither is
  released.
\<close>

definition pyuv__poll_cb :: "python \<Rightarrow> int \<Rightarrow> oid \<Rightarrow> world \<Rightarrow> world option" where
  "pyuv__poll_cb py status self w =
     (let w1 = Py_INCREF self w;
          (py_events, py_errorno, w2) =
            (if status = 0 then let (n, v) = PyInt_FromLong w1 in (n, Py_None, Py_INCREF Py_None v)
             else let v = Py_INCREF Py_None w1; (n, v') = PyInt_FromLong v in (Py_None, n, v'))
      in case call_callback py (slot_of w2 self S_callback) [self, py_events, py_errorno]
                (\<lambda>v. slot_of v self S_loop) w2 of
           None \<Rightarrow> None
         | Some w3 \<Rightarrow> Some (Py_DECREF self w3))"

text \<open>\<open>uv__poll_io\<close>: an error of the descriptor stops the handle before it is reported.\<close>

definition uv__poll_io :: "python \<Rightarrow> bool \<Rightarrow> oid \<Rightarrow> world \<Rightarrow> world option" where
  "uv__poll_io py pollerr h w =
     (if pollerr then pyuv__poll_cb py UV_EBADF h (uv__poll_stop h w) else pyuv__poll_cb py 0 h w)"

section \<open>SignalChecker (util.c)\<close>

definition SignalChecker_tp_new :: "world \<Rightarrow> oid result \<times> world" where
  "SignalChecker_tp_new = Handle_tp_new SignalCheckerC"

definition SignalChecker_tp_init :: "int \<Rightarrow> oid \<Rightarrow> (oid \<times> int) args \<Rightarrow> world \<Rightarrow> unit result \<times> world" where
  "SignalChecker_tp_init os self args w =
     RAISE_IF_HANDLE_INITIALIZED self w
     (PyArg_Parse args w (\<lambda>(loop, fd).
       let (err, w1) = uv_poll_init_socket os loop self fd w
       in if err < 0 then (Raise (UVExc UVError err), w1)
          else (Ok (), initialize_handle self loop w1)))"

definition SignalChecker_func_start :: "oid \<Rightarrow> world \<Rightarrow> unit result \<times> world" where
  "SignalChecker_func_start self w =
     RAISE_IF_HANDLE_NOT_INITIALIZED self w
     (RAISE_IF_HANDLE_CLOSED self w
     (case uv_poll_start self 1 w of
        None \<Rightarrow> (Abort, w)
      | Some (err, w1) \<Rightarrow>
          if err < 0 then (Raise (UVExc UVError err), w1) else (Ok (), PYUV_HANDLE_INCREF self w1)))"

definition SignalChecker_func_stop :: "oid \<Rightarrow> world \<Rightarrow> unit result \<times> world" where
  "SignalChecker_func_stop self w =
     RAISE_IF_HANDLE_NOT_INITIALIZED self w
     (RAISE_IF_HANDLE_CLOSED self w
     (let (err, w1) = (0::int, uv__poll_stop self w)
      in if err < 0 then (Raise (UVExc UVError err), w1)
         else (Ok (), PYUV_HANDLE_DECREF self w1)))"

text \<open>
  \<open>drained\<close> is what \<open>pyuv__drain_poll_fd\<close> answers; \<open>check_signals\<close> is what \<open>PyErr_CheckSignals\<close>
  does: it runs the Python handlers of the signals that have arrived and says whether one
  raised. The reference that is dropped at the end was never taken.
\<close>

definition pyuv__check_signals ::
    "python \<Rightarrow> (world \<Rightarrow> bool \<times> world) \<Rightarrow> int \<Rightarrow> int \<Rightarrow> int \<Rightarrow> oid \<Rightarrow> world \<Rightarrow> world option" where
  "pyuv__check_signals py check_signals drained status events self w =
     (if status = 0 \<and> events \<noteq> 1 then None
      else let w1 = (if drained \<noteq> 0 then uv__poll_stop self w else w);
               (raised, w2) = check_signals w1
           in case (if raised then handle_uncaught_exception py (slot_of w2 self S_loop) w2
                    else Some w2) of
                None \<Rightarrow> None
              | Some w3 \<Rightarrow> Some (Py_DECREF self w3))"

end
