(* ===== verification/Event_Rules.thy ===== *)
theory Event_Rules
  imports Event_Handles
begin

text \<open>
  The methods and callbacks of \<open>Async\<close>, \<open>Signal\<close>, \<open>Poll\<close> and \<open>SignalChecker\<close> keep the invariant
  of the state, but for the references that the callbacks of \<open>Signal\<close> and \<open>Poll\<close> leak: these
  stay in the frame.
\<close>

section \<open>Async\<close>

lemma objs_put_INCREF_cong:
  "objs a = objs b \<Longrightarrow> objs (put_slot x s v (Py_INCREF c a)) = objs (put_slot x s v (Py_INCREF c b))"
  by (simp add: put_slot_def Py_INCREF_def upd_obj_def)

lemma handle_start_frame [simp]:
  "objs (uv__handle_start h w) = objs w" "ext (uv__handle_start h w) = ext w"
  "pend (uv__handle_start h w) = pend w" "trace (uv__handle_start h w) = trace w"
  using uv_quiet_flags(1) [OF uv_quiet_refl, of w h] by (simp_all add: uv_quiet_def)

lemma handle_start_other: "y \<noteq> h \<Longrightarrow> hs (uv__handle_start h w) y = hs w y"
  using uv_local_flags(1) [OF uv_local_refl, of h w] by (simp add: uv_local_def)

lemma upd_uv_other: "y \<noteq> h \<Longrightarrow> hs (upd_uv h f w) y = hs w y"
  by (simp add: upd_uv_def)

lemma upd_uvl_frame [simp]:
  "hs (upd_uvl l f w) = hs w" "ext (upd_uvl l f w) = ext w" "pend (upd_uvl l f w) = pend w"
  "trace (upd_uvl l f w) = trace w"
  by (simp_all add: upd_uvl_def)

lemma upd_uv_frame [simp]:
  "loops (upd_uv l f w) = loops w" "ext (upd_uv l f w) = ext w" "pend (upd_uv l f w) = pend w"
  "trace (upd_uv l f w) = trace w"
  by (simp_all add: upd_uv_def)

lemma ok_Async_tp_init:
  assumes ok: "ok fr w" and h: "held fr w x" and k: "kind (objs w ! x) = KHandle AsyncC"
    and a: "\<And>l f. args = Inr (l, f) \<Longrightarrow> is_loop w l \<and> (\<forall>g. f = Some g \<longrightarrow> held fr w g)"
  shows "ok fr (snd (Async_tp_init os x args w))"
proof (cases "initialized (hs w x)")
  case True
  then show ?thesis using ok by (simp add: Async_tp_init_def guard_defs)
next
  case False
  note U = uninitD [OF ok h k False]
  have "ok fr (initialize_handle x l (put_slot x S_callback (Some g) (Py_INCREF g (snd (uv_async_init 0 l x w)))))"
    if l: "is_loop w l" and g: "held fr w g" for l g
  proof -
    let ?w0 = "put_slot x S_callback (Some g) (Py_INCREF g w)"
    have vg: "valid w g" by (rule held_valid [OF okD(1) [OF ok] g])
    have b: "ok_but x fr ?w0"
      using ok_but_put_slot [OF _ , of x "Some g" fr "Py_INCREF g w" S_callback]
        ok_but_INCREF [OF ok_imp_but [OF ok] vg, of x] U k
      by (simp add: tp_clear_defs)
    let ?w1 = "put_slot x S_callback (Some g) (Py_INCREF g (snd (uv_async_init 0 l x w)))"
    show ?thesis
    proof (rule ok_initialized [OF b])
      show "objs ?w1 = objs ?w0" by (rule objs_put_INCREF_cong) (simp add: uv_async_init_def Let_def)
      show "uv_inv ?w1"
        by (rule uv_inv_same [OF uv_inv_async_init [OF okD(2) [OF ok] U(3), of 0 l]]) simp_all
      show "is_loop ?w0 l" using l by (simp add: is_loop_def valid_def)
    qed (use h k False U in \<open>auto simp: held_def nth_put_slot uv_async_init_def Let_def uv_defs keeps_alive_def
        handle_start_other upd_uv_other init_other\<close>)
  qed
  moreover have "uv_async_init os l x w = (if os \<noteq> 0 then (os, w) else (0, snd (uv_async_init 0 l x w)))" for l
    by (simp add: uv_async_init_def Let_def)
  ultimately show ?thesis
    using ok a none_held [OF ok]
    by (auto simp: Async_tp_init_def guard_defs Let_def split: sum.splits option.splits)
qed

lemma ok_Async_func_send:
  assumes ok: "ok fr w" and h: "held fr w x" and k: "kind (objs w ! x) = KHandle AsyncC"
  shows "ok fr (snd (Async_func_send x w))"
proof -
  have "ok fr (snd (uv_async_send x w))"
    by (rule ok_quiet_fields [OF ok, where x = x])
      (use k okD(2) [OF ok] in \<open>simp_all add: quiet local_steps uv_inv_misc uv_async_send_def uv_defs
         uv_inv_upd_uv keeps_alive_def reads_class_def\<close>)
  then show ?thesis
    using ok by (simp add: Async_func_send_def guard_defs uv_async_send_def)
qed

section \<open>Signal\<close>

lemma signal_init_eq: "uv_signal_init os l h w = (if os \<noteq> 0 then (os, w) else (0, snd (uv_signal_init 0 l h w)))"
  by (simp add: uv_signal_init_def)

lemma ok_Signal_tp_init:
  assumes ok: "ok fr w" and h: "held fr w x" and k: "kind (objs w ! x) = KHandle SignalC"
    and a: "\<And>l. args = Inr l \<Longrightarrow> is_loop w l" and os: "os \<le> 0"
  shows "ok fr (snd (Signal_tp_init os x args w))"
proof (cases "initialized (hs w x)")
  case True
  then show ?thesis using ok by (simp add: Signal_tp_init_def guard_defs)
next
  case False
  note U = uninitD [OF ok h k False]
  have "ok fr (initialize_handle x l (snd (uv_signal_init 0 l x w)))" if "is_loop w l" for l
  proof (rule ok_initialized [OF ok_imp_but [OF ok] h k False U(1,2) that])
    show "uv_inv (snd (uv_signal_init 0 l x w))" by (rule uv_inv_signal_init [OF okD(2) [OF ok] U(3)])
  qed (use U in \<open>auto simp: uv_signal_init_def uv_defs init_other upd_uv_other\<close>)
  then show ?thesis
    using ok a os by (subst Signal_tp_init_def, subst signal_init_eq) (auto simp: guard_defs split: sum.splits)
qed

lemma ok_Signal_func_start:
  assumes ok: "ok fr w" and h: "held fr w x" and k: "kind (objs w ! x) = KHandle SignalC"
    and a: "\<And>f n. args = Inr (f, n) \<Longrightarrow> held fr w f"
  shows "ok fr (snd (Signal_func_start os x args w))"
proof (cases "initialized (hs w x) \<and> \<not> uv_is_closing x w")
  case False
  then show ?thesis using ok by (auto simp: Signal_func_start_def guard_defs)
next
  case True
  then have o: "open_handle w x SignalC" by (intro open_handleI [OF ok h k]) auto
  note D = open_handleD [OF ok o]
  have inv: "uv_inv (snd (uv_signal_start os x n w))" for n
    using D(6,7) o uv_inv_signal_start [OF okD(2) [OF ok], of x] by (auto simp: open_handle_def)
  have st: "ok fr (PYUV_HANDLE_INCREF x (assign_slot x S_callback f (snd (uv_signal_start os x n w))))"
    if "held fr w f" for f n
    using ok_started [OF ok o h that _ _ inv [of n]]
    by (simp add: quiet local_steps cb_slot_def reads_class_def tp_clear_defs)
  have er: "ok fr (snd (uv_signal_start os x n w))" if "fst (uv_signal_start os x n w) < 0" for n
    by (rule ok_quiet_fields [OF ok, where x = x])
      (use k that inv [of n] in \<open>auto simp: quiet local_steps uv_signal_start_def Let_def uv__signal_stop_def
         uv_defs keeps_alive_def reads_class_def split: if_splits\<close>)
  show ?thesis
    using ok True a st er
    by (auto simp: Signal_func_start_def guard_defs split_beta split: sum.splits)
qed

lemma ok_Signal_func_stop:
  assumes ok: "ok fr w" and h: "held fr w x" and k: "kind (objs w ! x) = KHandle SignalC"
  shows "ok fr (snd (Signal_func_stop x w))"
proof (cases "initialized (hs w x) \<and> \<not> uv_is_closing x w")
  case False
  then show ?thesis using ok by (auto simp: Signal_func_stop_def guard_defs)
next
  case True
  then have o: "open_handle w x SignalC" by (intro open_handleI [OF ok h k]) auto
  note D = open_handleD [OF ok o]
  obtain l where l: "u_loop (uvh w x) = Some l" using D(7) by blast
  have uh: "uh_ok (uvh w x)" by (rule uv_inv_uh [OF okD(2) [OF ok]])
  have "uv_inv (uv__signal_stop x w)"
    by (rule uv_inv_signal_stop [OF okD(2) [OF ok] l]) (use o D(6) in \<open>auto simp: open_handle_def\<close>)
  moreover have "\<not> u_active (uvh (uv__signal_stop x w) x)"
    using uh D(6) by (auto simp: uv__signal_stop_def uv_defs uh_ok_def)
  ultimately have "ok fr (PYUV_HANDLE_DECREF x (uv__signal_stop x w))"
    using ok_stopped [OF ok o h, of "uv__signal_stop x w"]
    by (simp add: quiet local_steps reads_class_def)
  then show ?thesis using True by (simp add: Signal_func_stop_def guard_defs)
qed

lemma ok_ledger_fields:
  assumes ok: "ok fr w" and q: "same_ledger w w1" and loc: "uv_local x w w1" and inv: "uv_inv w1"
    and f: "\<And>c. (fires c (uvh w1 x) \<longrightarrow> fires c (uvh w x)) \<and>
      (u_active (uvh w1 x) \<longrightarrow> u_active (uvh w x)) \<and>
      (u_reading (uvh w1 x) \<longrightarrow> u_reading (uvh w x) \<and> u_fd (uvh w1 x) = u_fd (uvh w x)) \<and>
      u_listening (uvh w1 x) = u_listening (uvh w x)"
  shows "ok fr w1"
proof -
  have "cb_ok w1 h" for h
  proof (cases "h = x")
    case True
    then show ?thesis
      using okD(3) [OF ok, of x] q f unfolding cb_ok_def field_ok_def same_ledger_def by metis
  next
    case False
    show ?thesis
      by (rule cb_ok_cong [OF okD(3) [OF ok, of h]])
        (use q loc False in \<open>auto simp: same_ledger_def uv_local_def\<close>)
  qed
  then show ?thesis using wf_same_ledger [OF q okD(1) [OF ok]] inv by (simp add: ok_def)
qed

text \<open>
  The bookkeeping at the end of a signal message; the handle is not closed, because the close
  callback waits until every caught signal has been dispatched.
\<close>

definition signal_done :: "oid \<Rightarrow> world \<Rightarrow> world" where
  "signal_done h w =
     (let w2 = upd_uv h (\<lambda>u. u\<lparr>u_dispatched := u_dispatched u + 1\<rparr>) w
      in if u_closing (uvh w2 h) \<and> u_caught (uvh w2 h) = u_dispatched (uvh w2 h)
         then uv__make_close_pending h w2 else w2)"

lemma uv_inv_signal_done:
  assumes inv: "uv_inv w" and t: "u_type (uvh w h) = Some UV_SIGNAL"
    and l: "u_loop (uvh w h) = Some l" and n: "u_dispatched (uvh w h) < u_caught (uvh w h)"
  shows "uv_inv (signal_done h w)"
proof -
  let ?u = "(uvh w h)\<lparr>u_dispatched := u_dispatched (uvh w h) + 1\<rparr>"
  have uh: "uh_ok (uvh w h)" by (rule uv_inv_uh [OF inv])
  have ncl: "\<not> u_closed (uvh w h)" using uh t n by (auto simp: uh_ok_def)
  have nd: "\<not> close_due (uvh w h)" using t n by (simp add: close_due_def)
  have uu: "uh_ok ?u" using uh ncl by (auto simp: uh_ok_def)
  show ?thesis
  proof (cases "close_due ?u")
    case True
    then have c: "u_closing (uvh w h)" "u_caught (uvh w h) = u_dispatched (uvh w h) + 1"
      using t by (auto simp: close_due_def)
    show ?thesis
    proof (rule uv_inv_step [OF inv l ncl, where u = ?u
          and lp' = "(uvl w l)\<lparr>closing_handles := h # closing_handles (uvl w l)\<rparr>"])
      show "queue_follows (close_due ?u) h (all_closing (uvl w l))
          (all_closing ((uvl w l)\<lparr>closing_handles := h # closing_handles (uvl w l)\<rparr>))"
        using True nd uv_inv_closing [OF inv] by (simp add: queue_follows_def)
      show "\<exists>q. type_queue t' (uvl w l) = Some q \<and> queue_follows (u_type ?u = Some t' \<and> u_active ?u) h q q'"
        if "type_queue t' ((uvl w l)\<lparr>closing_handles := h # closing_handles (uvl w l)\<rparr>) = Some q'" for t' q'
        using that same_queue_follows [OF inv l, of t' q'] by simp
    qed (use l ncl uu c in \<open>simp_all add: signal_done_def Let_def uv__make_close_pending_def uv_defs counted_def\<close>)
  next
    case False
    then have c: "\<not> (u_closing (uvh w h) \<and> u_caught (uvh w h) = u_dispatched (uvh w h) + 1)"
      using t ncl by (auto simp: close_due_def)
    show ?thesis
      by (rule uv_inv_flag [OF inv l ncl, where u = ?u])
        (use l ncl uu c nd False in \<open>auto simp: signal_done_def Let_def uv_defs counted_def\<close>)
  qed
qed

lemma ok_signal_done:
  assumes ok: "ok fr w" and t: "u_type (uvh w h) = Some UV_SIGNAL"
    and l: "u_loop (uvh w h) = Some l" and n: "u_dispatched (uvh w h) < u_caught (uvh w h)"
  shows "ok fr (signal_done h w)"
proof (rule ok_ledger_fields [OF ok, where x = h])
  have f: "fires c (u\<lparr>u_dispatched := m\<rparr>) = fires c u" for c u m by (cases c) simp_all
  show "same_ledger w (signal_done h w)" "uv_local h w (signal_done h w)"
    by (simp_all add: same_ledger_def uv_local_def signal_done_def Let_def uv__make_close_pending_def upd_defs)
  show "uv_inv (signal_done h w)" by (rule uv_inv_signal_done [OF okD(2) [OF ok] t l n])
  show "(fires c (uvh (signal_done h w) h) \<longrightarrow> fires c (uvh w h)) \<and>
      (u_active (uvh (signal_done h w) h) \<longrightarrow> u_active (uvh w h)) \<and>
      (u_reading (uvh (signal_done h w) h) \<longrightarrow> u_reading (uvh w h) \<and> u_fd (uvh (signal_done h w) h) = u_fd (uvh w h)) \<and>
      u_listening (uvh (signal_done h w) h) = u_listening (uvh w h)" for c
    by (simp add: signal_done_def Let_def uv__make_close_pending_def uv_defs f)
qed

text \<open>A signal is only caught for a handle that is registered for it.\<close>

lemma ok_signal_caught:
  assumes ok: "ok fr w" and t: "u_type (uvh w h) = Some UV_SIGNAL" and a: "u_active (uvh w h)"
  shows "ok fr (uv__signal_caught h w)"
proof (rule ok_ledger_fields [OF ok, where x = h])
  let ?u = "(uvh w h)\<lparr>u_caught := u_caught (uvh w h) + 1\<rparr>"
  have uh: "uh_ok (uvh w h)" by (rule uv_inv_uh [OF okD(2) [OF ok]])
  then obtain l where l: "u_loop (uvh w h) = Some l" "\<not> u_closing (uvh w h)" "\<not> u_closed (uvh w h)"
    using a by (auto simp: uh_ok_def)
  have f: "fires c (u\<lparr>u_caught := m\<rparr>) = fires c u" for c u m by (cases c) simp_all
  show "same_ledger w (uv__signal_caught h w)" "uv_local h w (uv__signal_caught h w)"
    by (simp_all add: same_ledger_def uv_local_def uv__signal_caught_def upd_defs)
  show "uv_inv (uv__signal_caught h w)"
    by (rule uv_inv_flag [OF okD(2) [OF ok] l(1,3), where u = ?u])
      (use l uh in \<open>auto simp: uv__signal_caught_def uv_defs counted_def close_due_def uh_ok_def\<close>)
  show "(fires c (uvh (uv__signal_caught h w) h) \<longrightarrow> fires c (uvh w h)) \<and>
      (u_active (uvh (uv__signal_caught h w) h) \<longrightarrow> u_active (uvh w h)) \<and>
      (u_reading (uvh (uv__signal_caught h w) h) \<longrightarrow> u_reading (uvh w h) \<and>
        u_fd (uvh (uv__signal_caught h w) h) = u_fd (uvh w h)) \<and>
      u_listening (uvh (uv__signal_caught h w) h) = u_listening (uvh w h)" for c
    by (simp add: uv__signal_caught_def uv_defs f)
qed

section \<open>Poll\<close>

lemma poll_init_eq: "uv_poll_init_socket os l h fd w =
    (if os \<noteq> 0 then (os, w) else (0, snd (uv_poll_init_socket 0 l h fd w)))"
  by (simp add: uv_poll_init_socket_def)

lemma ok_poll_initialized:
  assumes ok: "ok fr w" and h: "held fr w x" and k: "kind (objs w ! x) = KHandle c"
    and c: "uv_type_of c = UV_POLL" and ni: "\<not> initialized (hs w x)" and l: "is_loop w l"
  shows "ok fr (initialize_handle x l (snd (uv_poll_init_socket 0 l x fd w)))"
proof -
  note U = uninitD [OF ok h k ni]
  show ?thesis
  proof (rule ok_initialized [OF ok_imp_but [OF ok] h k ni U(1,2) l])
    show "uv_inv (snd (uv_poll_init_socket 0 l x fd w))" by (rule uv_inv_poll_init [OF okD(2) [OF ok] U(3)])
  qed (use c U in \<open>cases c; auto simp: uv_poll_init_socket_def uv_defs init_other upd_uv_other\<close>)+
qed

lemma ok_Poll_tp_init:
  assumes ok: "ok fr w" and h: "held fr w x" and k: "kind (objs w ! x) = KHandle PollC"
    and a: "\<And>l n. args = Inr (l, n) \<Longrightarrow> is_loop w l" and os: "os \<le> 0"
  shows "ok fr (snd (Poll_tp_init os x args w))"
proof -
  have "ok fr (initialize_handle x l (snd (uv_poll_init_socket 0 l x fd w)))"
    if "is_loop w l" "\<not> initialized (hs w x)" for l fd
    by (rule ok_poll_initialized [OF ok h k _ that(2,1)]) simp
  then show ?thesis
    using ok a os by (subst Poll_tp_init_def, subst poll_init_eq) (auto simp: guard_defs split: sum.splits)
qed

lemma ok_SignalChecker_tp_init:
  assumes ok: "ok fr w" and h: "held fr w x" and k: "kind (objs w ! x) = KHandle SignalCheckerC"
    and a: "\<And>l n. args = Inr (l, n) \<Longrightarrow> is_loop w l" and os: "os \<le> 0"
  shows "ok fr (snd (SignalChecker_tp_init os x args w))"
proof -
  have "ok fr (initialize_handle x l (snd (uv_poll_init_socket 0 l x fd w)))"
    if "is_loop w l" "\<not> initialized (hs w x)" for l fd
    by (rule ok_poll_initialized [OF ok h k _ that(2,1)]) simp
  then show ?thesis
    using ok a os by (subst SignalChecker_tp_init_def, subst poll_init_eq) (auto simp: guard_defs split: sum.splits)
qed

lemma uv_local_poll_start: "uv_poll_start h ev w = Some (e, w') \<Longrightarrow> uv_local h w w'"
  by (auto simp: uv_poll_start_def Let_def split: if_splits intro!: local_steps)

lemma ok_Poll_func_start:
  assumes ok: "ok fr w" and h: "held fr w x" and k: "kind (objs w ! x) = KHandle PollC"
    and a: "\<And>f n. args = Inr (n, f) \<Longrightarrow> held fr w f"
  shows "ok fr (snd (Poll_func_start x args w))"
proof (cases "initialized (hs w x) \<and> \<not> uv_is_closing x w")
  case False
  then show ?thesis using ok by (auto simp: Poll_func_start_def guard_defs)
next
  case True
  then have o: "open_handle w x PollC" by (intro open_handleI [OF ok h k]) auto
  note D = open_handleD [OF ok o]
  have "ok fr (PYUV_HANDLE_INCREF x (assign_slot x S_callback f w1))"
    if f: "held fr w f" and p: "uv_poll_start x n w = Some (e, w1)" for f n e w1
  proof -
    have "uv_inv w1"
      using D(6,7) o uv_inv_poll_start [OF okD(2) [OF ok] _ _ _ p] by (auto simp: open_handle_def)
    then show ?thesis
      using ok_started [OF ok o h f uv_quiet_poll_start [OF p] uv_local_poll_start [OF p]]
      by (simp add: cb_slot_def reads_class_def tp_clear_defs)
  qed
  moreover have "e = 0" if "uv_poll_start x n w = Some (e, w1)" for n e w1
    using that by (auto simp: uv_poll_start_def Let_def split: if_splits)
  ultimately show ?thesis
    using ok True a
    by (force simp: Poll_func_start_def guard_defs split: sum.splits option.splits)
qed

lemma ok_Poll_func_stop:
  assumes ok: "ok fr w" and h: "held fr w x" and k: "kind (objs w ! x) = KHandle PollC"
  shows "ok fr (snd (Poll_func_stop x w))"
proof (cases "initialized (hs w x) \<and> \<not> uv_is_closing x w")
  case False
  then show ?thesis using ok by (auto simp: Poll_func_stop_def guard_defs)
next
  case True
  then have o: "open_handle w x PollC" by (intro open_handleI [OF ok h k]) auto
  note D = open_handleD [OF ok o]
  obtain l where l: "u_loop (uvh w x) = Some l" using D(7) by blast
  have "uv_inv (uv__poll_stop x w)"
    by (rule uv_inv_poll_stop [OF okD(2) [OF ok] l]) (use o D(6) in \<open>auto simp: open_handle_def\<close>)
  then have "ok fr (PYUV_HANDLE_DECREF x (clear_slot x S_callback (uv__poll_stop x w)))"
    using ok_stopped_clear [OF ok o h, of "uv__poll_stop x w"]
    by (simp add: quiet local_steps cb_slot_def reads_class_def tp_clear_defs uv__poll_stop_def uv_defs)
  then show ?thesis using True by (simp add: Poll_func_stop_def guard_defs)
qed

lemma ok_poll_error:
  assumes ok: "ok fr w" and i: "initialized (hs w x)" and ncl: "\<not> u_closed (uvh w x)"
    and t: "u_type (uvh w x) = Some UV_POLL"
  shows "ok fr (uv__poll_stop x w)"
proof -
  obtain l where l: "u_loop (uvh w x) = Some l"
    using wf_loop_valid [OF okD(1) [OF ok] i ncl] by blast
  have "u_timer_cb (uvh (uv__poll_stop x w) x) = u_timer_cb (uvh w x)"
    by (simp add: uv__poll_stop_def uv_defs)
  moreover have "\<not> u_active (uvh (uv__poll_stop x w) x)" by (simp add: uv__poll_stop_def uv_defs)
  ultimately have f: "fires c (uvh (uv__poll_stop x w) x) \<Longrightarrow> fires c (uvh w x)" for c by (cases c) auto
  show ?thesis
    by (rule ok_quiet_fields [OF ok, where x = x])
      (use uv_inv_poll_stop [OF okD(2) [OF ok] l ncl t] f in
        \<open>auto simp: quiet local_steps\<close>, auto simp: uv__poll_stop_def uv_defs)
qed

section \<open>SignalChecker\<close>

lemma ok_SignalChecker_func_start:
  assumes ok: "ok fr w" and h: "held fr w x" and k: "kind (objs w ! x) = KHandle SignalCheckerC"
  shows "ok fr (snd (SignalChecker_func_start x w))"
proof (cases "initialized (hs w x) \<and> \<not> uv_is_closing x w")
  case False
  then show ?thesis using ok by (auto simp: SignalChecker_func_start_def guard_defs)
next
  case True
  then have o: "open_handle w x SignalCheckerC" by (intro open_handleI [OF ok h k]) auto
  note D = open_handleD [OF ok o]
  obtain e w1 where p: "uv_poll_start x 1 w = Some (e, w1)" and e: "e = 0"
    by (auto simp: uv_poll_start_def Let_def)
  have "uv_inv w1"
    using D(6,7) o uv_inv_poll_start [OF okD(2) [OF ok] _ _ _ p] by (auto simp: open_handle_def)
  then have b: "ok_but x fr w1"
    by (rule ok_but_quiet [OF ok_imp_but [OF ok] uv_quiet_poll_start [OF p] uv_local_poll_start [OF p]])
  have q: "objs w1 = objs w" "initialized (hs w1 x)" "\<not> u_closing (uvh w1 x)"
    "u_listening (uvh w1 x) = u_listening (uvh w x)"
    using uv_quiet_poll_start [OF p] o by (auto simp: uv_quiet_def open_handle_def)
  have "ok_but x fr (PYUV_HANDLE_INCREF x w1)"
    by (rule ok_but_HANDLE_INCREF [OF b]) (use q D(2) in \<open>simp_all add: valid_def\<close>)
  moreover have "cb_ok (PYUV_HANDLE_INCREF x w1) x"
    using D(3,4,5) k q o by (auto simp: cb_ok_def field_ok_def keeps_alive_def reads_class_def open_handle_def)
  ultimately have "ok fr (PYUV_HANDLE_INCREF x w1)" by (rule ok_but_ok)
  then show ?thesis using True p e by (simp add: SignalChecker_func_start_def guard_defs)
qed

lemma ok_SignalChecker_func_stop:
  assumes ok: "ok fr w" and h: "held fr w x" and k: "kind (objs w ! x) = KHandle SignalCheckerC"
  shows "ok fr (snd (SignalChecker_func_stop x w))"
proof (cases "initialized (hs w x) \<and> \<not> uv_is_closing x w")
  case False
  then show ?thesis using ok by (auto simp: SignalChecker_func_stop_def guard_defs)
next
  case True
  then have o: "open_handle w x SignalCheckerC" by (intro open_handleI [OF ok h k]) auto
  note D = open_handleD [OF ok o]
  obtain l where l: "u_loop (uvh w x) = Some l" using D(7) by blast
  have "uv_inv (uv__poll_stop x w)"
    by (rule uv_inv_poll_stop [OF okD(2) [OF ok] l]) (use o D(6) in \<open>auto simp: open_handle_def\<close>)
  then have "ok fr (PYUV_HANDLE_DECREF x (uv__poll_stop x w))"
    using ok_stopped [OF ok o h, of "uv__poll_stop x w"]
    by (simp add: quiet local_steps reads_class_def uv__poll_stop_def uv_defs)
  then show ?thesis using True by (simp add: SignalChecker_func_stop_def guard_defs)
qed

section \<open>The callbacks\<close>

lemma undisturbed_GenericNew: "undisturbed w (snd (PyType_GenericNew k w))"
  by (auto simp: undisturbed_def PyType_GenericNew_def nth_append valid_def)

lemma ok_PyInt_FromLong:
  assumes "ok fr w" and "PyInt_FromLong w = (n, w')"
  shows "ok (add_mset n fr) w'" "undisturbed w w'" "valid w' n"
proof -
  show o: "ok (add_mset n fr) w'" "undisturbed w w'"
    using ok_GenericNew_object [OF assms(1), of False n w'] assms(2) by (auto simp: PyInt_FromLong_def)
  show "valid w' n" by (rule wf_valid_frame [OF okD(1) [OF o(1)]]) simp
qed

context python_program
begin

lemma pyuv__async_cb_ok:
  assumes "ok fr w" and "valid w x" and "kind (objs w ! x) = KHandle AsyncC" and "initialized (hs w x)"
  shows "\<exists>w'. pyuv__async_cb py x w = Some w' \<and> ok fr w' \<and> undisturbed w w'"
  using handle_callback_ok [OF assms, of "[]" S_callback] assms(1)
  by (auto simp: pyuv__async_cb_def Let_def)

lemma pyuv__signal_cb_ok:
  assumes ok: "ok fr w" and v: "valid w x" and k: "kind (objs w ! x) = KHandle SignalC"
    and i: "initialized (hs w x)"
  shows "\<exists>w'. pyuv__signal_cb py x w = Some w' \<and> ok (add_mset (length (objs w)) fr) w' \<and> undisturbed w w'"
proof -
  obtain n w2 where n: "PyInt_FromLong (Py_INCREF x w) = (n, w2)" by fastforce
  have nl: "n = length (objs w)" using n by (simp add: PyInt_FromLong_def PyType_GenericNew_def)
  note P = ok_PyInt_FromLong [OF ok_INCREF [OF ok v] n]
  have k2: "kind (objs w2 ! x) = KHandle SignalC" "initialized (hs w2 x)"
    using P(2) v k i by (auto simp: undisturbed_def valid_def)
  from held_callback_ok [OF P(1) [unfolded add_mset_commute [of n]] k2, of "[n]" S_callback] P(3)
  obtain w3 where "call_callback py (slot_of w2 x S_callback) [x, n] (\<lambda>v. slot_of v x S_loop) w2 = Some w3"
    "ok (add_mset n fr) (Py_DECREF x w3)" "undisturbed w2 (Py_DECREF x w3)" by auto
  then show ?thesis
    using n nl stable_trans [OF stable_trans [OF stable_INCREF P(2)]]
    by (auto simp: pyuv__signal_cb_def Let_def)
qed

lemma pyuv__poll_cb_ok:
  assumes ok: "ok fr w" and v: "valid w x" and k: "kind (objs w ! x) = KHandle PollC"
    and i: "initialized (hs w x)"
  shows "\<exists>w'. pyuv__poll_cb py status x w = Some w' \<and>
    ok (add_mset (length (objs w)) (add_mset Py_None fr)) w' \<and> undisturbed w w'"
proof -
  let ?w1 = "Py_INCREF x w"
  have o1: "ok (add_mset x fr) ?w1" by (rule ok_INCREF [OF ok v])
  obtain ev er w2 n where c: "(if status = 0 then let (n, v) = PyInt_FromLong ?w1 in (n, Py_None, Py_INCREF Py_None v)
      else let v = Py_INCREF Py_None ?w1; (n, v') = PyInt_FromLong v in (Py_None, n, v')) = (ev, er, w2)"
    and n: "n = length (objs w)" and s: "{ev, er} = {n, Py_None}"
    by (cases "status = 0") (auto simp: PyInt_FromLong_def PyType_GenericNew_def Let_def)
  have "ok (add_mset n (add_mset Py_None (add_mset x fr))) w2 \<and> undisturbed ?w1 w2"
  proof (cases "status = 0")
    case True
    obtain m v where m: "PyInt_FromLong ?w1 = (m, v)" by fastforce
    note P = ok_PyInt_FromLong [OF o1 m]
    have mn: "m = n" using m n by (simp add: PyInt_FromLong_def PyType_GenericNew_def)
    then show ?thesis
      using c True m ok_INCREF [OF P(1) wf_none [OF okD(1) [OF P(1)]]] stable_trans [OF P(2) stable_INCREF]
      by (auto simp: Let_def add_mset_commute)
  next
    case False
    obtain m v where m: "PyInt_FromLong (Py_INCREF Py_None ?w1) = (m, v)" by fastforce
    have mn: "m = n" using m n by (simp add: PyInt_FromLong_def PyType_GenericNew_def)
    note P = ok_PyInt_FromLong [OF ok_INCREF [OF o1 wf_none [OF okD(1) [OF o1]]] m]
    then show ?thesis
      using c False m mn stable_trans [OF stable_INCREF P(2)] by (auto simp: Let_def)
  qed
  then have o2: "ok (add_mset x (add_mset n (add_mset Py_None fr))) w2" and s2: "undisturbed ?w1 w2"
    by (simp_all add: add_mset_commute)
  have k2: "kind (objs w2 ! x) = KHandle PollC" "initialized (hs w2 x)"
    using s2 v k i by (auto simp: undisturbed_def valid_def)
  have vs: "valid w2 y" if "y \<in> set [ev, er]" for y
    by (rule wf_valid_frame [OF okD(1) [OF o2]]) (use that s in auto)
  from held_callback_ok [OF o2 k2 vs, where s = S_callback, of "[ev, er]"]
  obtain w3 where "call_callback py (slot_of w2 x S_callback) [x, ev, er] (\<lambda>v. slot_of v x S_loop) w2 = Some w3"
    "ok (add_mset n (add_mset Py_None fr)) (Py_DECREF x w3)" "undisturbed w2 (Py_DECREF x w3)" by auto
  then show ?thesis
    using c n stable_trans [OF stable_trans [OF stable_INCREF s2]]
    by (auto simp: pyuv__poll_cb_def Let_def)
qed

lemma uv__signal_dispatch_ok:
  assumes ok: "ok fr w" and v: "valid w x" and k: "kind (objs w ! x) = KHandle SignalC"
    and i: "initialized (hs w x)" and n: "u_dispatched (uvh w x) < u_caught (uvh w x)" and m: "sig \<noteq> 0"
  shows "\<exists>w' leak. uv__signal_dispatch py sig x w = Some w' \<and> ok (leak + fr) w' \<and> size leak \<le> 1 \<and> calm w w'"
proof -
  have t: "u_type (uvh v x) = Some UV_SIGNAL" if "ok fr' v" "undisturbed w v" for fr' v
    using wf_handle_ok [OF okD(1) [OF that(1)], of x] that(2) \<open>valid w x\<close> k i
    by (auto simp: handle_ok_def undisturbed_def valid_def)
  have uh: "uh_ok (uvh w x)" by (rule uv_inv_uh [OF okD(2) [OF ok]])
  have ncl: "\<not> u_closed (uvh w x)" using uh t [OF ok] n by (auto simp: uh_ok_def)
  obtain l where l: "u_loop (uvh w x) = Some l" using wf_loop_valid [OF okD(1) [OF ok] i ncl] by blast
  have "\<exists>w1 leak. (if sig = u_signum (uvh w x) then if u_closing (uvh w x) then None else pyuv__signal_cb py x w
      else Some w) = Some w1 \<and> ok (leak + fr) w1 \<and> undisturbed w w1 \<and> size leak \<le> 1"
  proof (cases "sig = u_signum (uvh w x)")
    case True
    then have "\<not> u_closing (uvh w x)" using uh t [OF ok] m by (auto simp: uh_ok_def)
    moreover from pyuv__signal_cb_ok [OF ok v k i] obtain w1 where "pyuv__signal_cb py x w = Some w1"
      "ok ({#length (objs w)#} + fr) w1" "undisturbed w w1" by auto
    ultimately show ?thesis using True by (intro exI [of _ w1] exI [of _ "{#length (objs w)#}"]) auto
  next
    case False
    then show ?thesis using ok by (intro exI [of _ w] exI [of _ "{#}"]) auto
  qed
  then obtain w1 leak where w1: "(if sig = u_signum (uvh w x) then if u_closing (uvh w x) then None
      else pyuv__signal_cb py x w else Some w) = Some w1" "ok (leak + fr) w1" "undisturbed w w1" "size leak \<le> 1"
    by blast
  have "ok (leak + fr) (signal_done x w1)"
    by (rule ok_signal_done [OF w1(2) t [OF w1(2,3)]])
      (use w1(3) v i l n in \<open>auto simp: undisturbed_def valid_def\<close>)
  moreover have "calm w1 (signal_done x w1)"
    by (rule calm_same) (auto simp: signal_done_def Let_def uv__make_close_pending_def uv_defs upd_uv_def upd_uvl_def split: if_splits)
  then have "calm w (signal_done x w1)" by (rule calm_trans [OF calm_undisturbed [OF w1(3)]])
  ultimately show ?thesis
    using w1 unfolding uv__signal_dispatch_def w1(1) signal_done_def by (auto simp: Let_def)
qed

end

end
