(* ===== verification/Loops.thy ===== *)
theory Loops
  imports Event_Rules
begin

text \<open>
  The class \<open>Loop\<close> (src/loop.c): construction, the default loop, the accessors, the list of
  handles, the dictionary. \<open>Loop.run\<close> checks its mode here; what \<open>uv_run\<close> does is the step
  relation of \<open>Event_Loop\<close>. The thread pool (\<open>queue_work\<close>) is not in this theory.
\<close>

section \<open>loop.c\<close>

text \<open>
  \<open>no_args\<close>: the argument tuple and the keyword dictionary are empty; \<open>os\<close>: the result of
  \<open>uv_loop_init\<close>; \<open>now\<close>: the clock it reads.
\<close>

definition uv_loop_init :: "int \<Rightarrow> 64 word \<Rightarrow> bool \<Rightarrow> oid \<Rightarrow> world \<Rightarrow> int \<times> world" where
  "uv_loop_init os now dflt l w =
     (if os < 0 then (os, w)
      else (0, upd_Loop l (\<lambda>_. \<lparr>lp = uv_loop_zero\<lparr>uv_time := now\<rparr>, is_default = dflt,
                  in_use = False, uv_open = True\<rparr>) w))"

definition new_loop :: "int \<Rightarrow> 64 word \<Rightarrow> bool \<Rightarrow> bool \<Rightarrow> world \<Rightarrow> oid result \<times> world" where
  "new_loop os now no_args dflt w =
     (if \<not> no_args then (Raise TypeError, w)
      else let (obj, w1) = PyType_GenericNew KLoop w;
               w2 = upd_Loop obj (\<lambda>l. l\<lparr>uv_open := False\<rparr>) w1;
               (err, w3) = uv_loop_init os now dflt obj w2
           in if err < 0 then (Raise RuntimeError, Py_DECREF obj w3) else (Ok obj, w3))"

definition Loop_tp_new :: "int \<Rightarrow> 64 word \<Rightarrow> bool \<Rightarrow> world \<Rightarrow> oid result \<times> world" where
  "Loop_tp_new os now no_args w = new_loop os now no_args False w"

text \<open>
  \<open>default_loop\<close> is the static variable of loop.c, which owns a reference; it is passed in and
  out. \<open>tp_init\<close> of a subclass is what \<open>init\<close> does, \<open>None\<close> when the class has none of its own.
\<close>

definition Loop_func_default_loop ::
    "int \<Rightarrow> 64 word \<Rightarrow> (oid \<Rightarrow> world \<Rightarrow> int \<times> world) option \<Rightarrow> oid option \<Rightarrow> world
      \<Rightarrow> oid result \<times> oid option \<times> world" where
  "Loop_func_default_loop os now init default_loop w =
     (case default_loop of
        Some l \<Rightarrow> (Ok l, Some l, Py_INCREF l w)
      | None \<Rightarrow>
          case new_loop os now True True w of
            (Ok l, w1) \<Rightarrow>
              (case init of
                 None \<Rightarrow> (Ok l, Some l, Py_INCREF l w1)
               | Some f \<Rightarrow> let (r, w2) = f l w1
                           in if r < 0 then (Raise OtherError, None, Py_DECREF l w2)
                              else (Ok l, Some l, Py_INCREF l w2))
          | (Raise e, w1) \<Rightarrow> (Raise e, None, w1)
          | (Abort, w1) \<Rightarrow> (Abort, None, w1))"

text \<open>\<open>UV_RUN_DEFAULT\<close>, \<open>UV_RUN_ONCE\<close> and \<open>UV_RUN_NOWAIT\<close> are 0, 1 and 2; \<open>uv_run\<close> is a parameter.\<close>

definition Loop_func_run ::
    "(int \<Rightarrow> oid \<Rightarrow> world \<Rightarrow> int \<times> world) \<Rightarrow> oid \<Rightarrow> int option args \<Rightarrow> world \<Rightarrow> bool result \<times> world" where
  "Loop_func_run uv_run self args w =
     PyArg_Parse args w (\<lambda>m.
       let mode = (case m of None \<Rightarrow> 0 | Some m \<Rightarrow> m)
       in if mode \<noteq> 0 \<and> mode \<noteq> 1 \<and> mode \<noteq> 2 then (Raise ValueError, w)
          else let (r, w1) = uv_run mode self w in (Ok (r \<noteq> 0), w1))"

definition Loop_func_stop :: "oid \<Rightarrow> world \<Rightarrow> unit result \<times> world" where
  "Loop_func_stop self w = (Ok (), upd_uvl self (\<lambda>l. l\<lparr>stop_flag := True\<rparr>) w)"

definition Loop_func_now :: "oid \<Rightarrow> world \<Rightarrow> int result \<times> world" where
  "Loop_func_now self w = (Ok (uint (uv_time (uvl w self))), w)"

definition Loop_func_update_time :: "64 word \<Rightarrow> oid \<Rightarrow> world \<Rightarrow> unit result \<times> world" where
  "Loop_func_update_time now self w = (Ok (), upd_uvl self (\<lambda>l. l\<lparr>uv_time := now\<rparr>) w)"

definition Loop_func_get_timeout :: "oid \<Rightarrow> world \<Rightarrow> double result \<times> world" where
  "Loop_func_get_timeout self w = (Ok (Dbl (round53 (of_int (uv_backend_timeout self w) / 1000))), w)"

definition Loop_default_get :: "oid \<Rightarrow> world \<Rightarrow> bool result \<times> world" where
  "Loop_default_get self w = (Ok (is_default (loops w self)), w)"

definition Loop_alive_get :: "oid \<Rightarrow> world \<Rightarrow> bool result \<times> world" where
  "Loop_alive_get self w = (Ok (uv__loop_alive self w), w)"

text \<open>
  \<open>uv_walk\<close> visits the handle queue; \<open>handles_walk_cb\<close> appends to the list unless an earlier
  append failed (\<open>append_ok\<close> says which succeed). The list owns its items: the frame owns them
  when the list is returned, and they are dropped when it is not.
\<close>

definition handles_walk_cb :: "(oid \<Rightarrow> bool) \<Rightarrow> oid \<Rightarrow> bool \<times> oid list \<times> world \<Rightarrow> bool \<times> oid list \<times> world" where
  "handles_walk_cb append_ok obj s =
     (case s of (err, handles, w) \<Rightarrow>
        if \<not> is_handle w obj then s
        else if err then s
        else if append_ok obj then (False, handles @ [obj], Py_INCREF obj w)
        else (True, handles, w))"

definition Loop_handles_get :: "(oid \<Rightarrow> bool) \<Rightarrow> oid \<Rightarrow> world \<Rightarrow> oid list result \<times> world" where
  "Loop_handles_get append_ok self w =
     (case fold (handles_walk_cb append_ok) (handle_queue (uvl w self)) (False, [], w) of
        (err, handles, w1) \<Rightarrow>
          if err then (Raise MemoryError, release handles w1) else (Ok handles, w1))"

definition Loop_dict_get :: "oid \<Rightarrow> world \<Rightarrow> oid result \<times> world" where
  "Loop_dict_get self w =
     (case slot_of w self S_dict of
        None \<Rightarrow> let (d, w1) = PyType_GenericNew (KObject False) w
                in (Ok d, Py_INCREF d (put_slot self S_dict (Some d) w1))
      | Some d \<Rightarrow> (Ok d, Py_INCREF d w))"

definition Loop_dict_set :: "oid \<Rightarrow> oid option \<Rightarrow> bool \<Rightarrow> world \<Rightarrow> unit result \<times> world" where
  "Loop_dict_set self val is_dict w =
     (case val of
        None \<Rightarrow> (Raise TypeError, w)
      | Some v \<Rightarrow> if \<not> is_dict then (Raise TypeError, w) else (Ok (), assign_slot self S_dict v w))"

text \<open>\<open>Loop.excepthook\<close> prints and returns; it is the hook of a loop that has no other.\<close>

definition Loop_func_excepthook :: "oid \<Rightarrow> (oid \<times> oid \<times> oid) args \<Rightarrow> world \<Rightarrow> unit result \<times> world" where
  "Loop_func_excepthook self args w =
     PyArg_Parse args w (\<lambda>_. (Ok (), log_event PrintedUnhandled w))"

section \<open>They keep the invariant\<close>

lemma ok_new_object:
  assumes ok: "ok fr w" and n: "PyType_GenericNew k w = (x, w1)" and k: "k = KLoop \<or> k = KObject b"
  shows "x = length (objs w)" "ok (add_mset x fr) w1" "kind (objs w1 ! x) = k" "undisturbed w w1"
    "valid w1 x" "\<not> initialized (hs w1 x)" "\<not> valid w x"
proof -
  obtain y w2 where m: "PyType_GenericNew (KObject False) w = (y, w2)" by fastforce
  note N = ok_GenericNew_object [OF ok m]
  have e: "hs w1 = hs w2" "loops w1 = loops w2" "x = length (objs w)" "w1 = snd (PyType_GenericNew k w)"
    using n m by (auto simp: PyType_GenericNew_def)
  have wf: "wf_refs (add_mset x fr) w1"
    using wf_GenericNew [OF okD(1) [OF ok], of k] by (simp add: e PyType_GenericNew_def)
  moreover have "uv_inv w1"
    by (rule uv_inv_same [of w2]) (use N in \<open>auto simp: e(1,2) dest: okD(2)\<close>)
  moreover have "cb_ok w1 h" for h
    using okD(3) [OF ok, of h] k
    by (auto simp: cb_ok_def e PyType_GenericNew_def nth_append less_Suc_eq new_obj_def)
  ultimately show "ok (add_mset x fr) w1" by (simp add: ok_def)
  show "x = length (objs w)" "kind (objs w1 ! x) = k" "undisturbed w w1" "valid w1 x" "\<not> valid w x"
    "\<not> initialized (hs w1 x)"
    by (auto simp: e(3,4) PyType_GenericNew_def nth_append new_obj_def valid_def undisturbed_def
        handle_zero_def)
qed

text \<open>A loop that only closed handles name may be initialised.\<close>

lemma uv_inv_new_loop:
  assumes inv: "uv_inv w" and n: "\<And>h. u_loop (uvh w h) = Some l \<Longrightarrow> u_closed (uvh w h)"
    and w': "hs w' = hs w" "\<And>x. x \<noteq> l \<Longrightarrow> uvl w' x = uvl w x"
      "uvl w' l = uv_loop_zero\<lparr>uv_time := now\<rparr>"
  shows "uv_inv w'"
proof -
  have na: "u_loop (uvh w h) = Some l \<Longrightarrow> \<not> u_active (uvh w h) \<and> \<not> close_due (uvh w h)" for h
    using n [of h] uv_inv_uh [OF inv, of h] by (auto simp: uh_ok_def close_due_def)
  have tq: "type_queue t (uv_loop_zero\<lparr>uv_time := now\<rparr>) = Some q \<Longrightarrow> q = []" for t q
    by (cases t) (auto simp: uv_loop_zero_def)
  have z: "handle_queue uv_loop_zero = []" "all_closing (uv_loop_zero\<lparr>uv_time := now\<rparr>) = []" "active_handles uv_loop_zero = 0"
    by (simp_all add: uv_loop_zero_def all_closing_def)
  have "distinct q \<and> (\<forall>h. h \<in> set q \<longleftrightarrow> u_loop (uvh w h) = Some l \<and> u_type (uvh w h) = Some t \<and>
      u_active (uvh w h))" if "type_queue t (uv_loop_zero\<lparr>uv_time := now\<rparr>) = Some q" for t q
    using tq [OF that] na by auto
  then have "loop_ok w' l"
    using n na unfolding loop_ok_def w'(1,3) by (simp add: z)
  moreover have "loop_ok w' x" if "x \<noteq> l" for x
    using inv unfolding uv_inv_def loop_ok_def w'(1) w'(2) [OF that] by simp
  ultimately have "loop_ok w' x" for x by (cases "x = l") auto
  then show ?thesis using inv unfolding uv_inv_def w'(1) by auto
qed

lemma ok_new_loop:
  assumes ok: "ok fr w" and n: "new_loop os now na d w = (r, w')"
  shows "case r of Ok l \<Rightarrow> ok (add_mset l fr) w' \<and> is_loop w' l \<and> is_default (loops w' l) = d \<and> \<not> valid w l
    | Raise e \<Rightarrow> ok fr w' | Abort \<Rightarrow> False"
proof (cases "na")
  case False
  then show ?thesis using n ok by (auto simp: new_loop_def)
next
  case na: True
  obtain x w1 where g: "PyType_GenericNew KLoop w = (x, w1)" by fastforce
  note G = ok_new_object [OF ok g, of True]
  have o1: "ok (add_mset x fr) w1" using G(2) by simp
  have o2: "ok (add_mset x fr) (upd_Loop x (\<lambda>l. l\<lparr>uv_open := False\<rparr>) w1)"
    by (rule ok_upd_Loop [OF o1]) simp
  show ?thesis
  proof (cases "os < 0")
    case True
    then show ?thesis
      using n na g ok_DECREF [OF o2] by (auto simp: new_loop_def uv_loop_init_def Let_def)
  next
    case False
    let ?w3 = "upd_Loop x (\<lambda>_. \<lparr>lp = uv_loop_zero\<lparr>uv_time := now\<rparr>, is_default = d, in_use = False,
      uv_open = True\<rparr>) (upd_Loop x (\<lambda>l. l\<lparr>uv_open := False\<rparr>) w1)"
    have nk: "x \<ge> length (objs w) \<or> kind (objs w ! x) \<noteq> KLoop" using G(1) by simp
    have h1: "hs w1 = (hs w)(x := handle_zero)" "\<And>y. uvl w1 y = uvl w y" "ext w1 = ext w" "pend w1 = pend w"
      using g by (auto simp: PyType_GenericNew_def)
    have i: "uv_inv ?w3"
    proof (rule uv_inv_new_loop [OF okD(2) [OF o1], where l = x])
      show "u_closed (uvh w1 h)" if "u_loop (uvh w1 h) = Some x" for h
        using that wf_handle_ok [OF okD(1) [OF ok], of h] nk h1(1)
        by (auto simp: handle_ok_def handle_zero_def uv_zero_def split: if_splits)
    qed (simp_all add: upd_Loop_def)
    have c: "cb_ok ?w3 h" for h
      by (rule cb_ok_cong [OF okD(3) [OF o1]]) simp_all
    have "wf_refs (add_mset x fr) ?w3" by (simp add: okD(1) [OF o1])
    with i c have "ok (add_mset x fr) ?w3" by (simp add: ok_def)
    then show ?thesis
      using n na g False G by (auto simp: new_loop_def uv_loop_init_def Let_def is_loop_def valid_def upd_Loop_def)
  qed
qed

lemma ok_loop_field:
  assumes ok: "ok fr w" and f: "active_handles (f (uvl w l)) = active_handles (uvl w l)"
      "handle_queue (f (uvl w l)) = handle_queue (uvl w l)" "all_closing (f (uvl w l)) = all_closing (uvl w l)"
      "\<And>t. type_queue t (f (uvl w l)) = type_queue t (uvl w l)"
  shows "ok fr (upd_uvl l f w)"
proof -
  have "uv_inv (upd_uvl l f w)" by (rule uv_inv_upd_uvl [where f = f, OF okD(2) [OF ok] f])
  moreover have "cb_ok (upd_uvl l f w) h" for h by (rule cb_ok_cong [OF okD(3) [OF ok, of h]]) simp_all
  moreover have "wf_refs fr (upd_uvl l f w)" by (rule wf_same_ledger [OF _ okD(1) [OF ok]]) (simp_all add: same_ledger_def upd_uvl_def)
  ultimately show ?thesis by (simp add: ok_def)
qed

lemma all_closing_time [simp]:
  "all_closing (l\<lparr>stop_flag := b\<rparr>) = all_closing l" "all_closing (l\<lparr>uv_time := n\<rparr>) = all_closing l"
  by (simp_all add: all_closing_def)

lemma type_queue_time [simp]:
  "type_queue t (l\<lparr>stop_flag := b\<rparr>) = type_queue t l" "type_queue t (l\<lparr>uv_time := n\<rparr>) = type_queue t l"
  by (cases t; simp)+

lemma ok_Loop_func_stop: "ok fr w \<Longrightarrow> ok fr (snd (Loop_func_stop l w))"
  by (auto simp: Loop_func_stop_def intro: ok_loop_field)

lemma ok_Loop_func_update_time: "ok fr w \<Longrightarrow> ok fr (snd (Loop_func_update_time now l w))"
  by (auto simp: Loop_func_update_time_def intro: ok_loop_field)

text \<open>\<open>Loop.handles\<close> is the list of the handles of the loop that are not closed yet.\<close>

lemma walk_ok:
  assumes "\<And>x. x \<in> set q \<Longrightarrow> is_handle w x" and "ok (mset acc + fr) w"
    and "fold (handles_walk_cb a) q (err, acc, w) = (err', acc', w')"
  shows "ok (mset acc' + fr) w' \<and> (err' \<longleftrightarrow> err \<or> (\<exists>x \<in> set q. \<not> a x)) \<and> (\<not> err' \<longrightarrow> acc' = acc @ q)"
  using assms
proof (induction q arbitrary: err acc w)
  case Nil
  then show ?case by auto
next
  case (Cons x q)
  have h: "is_handle w x" using Cons.prems(1) by simp
  show ?case
  proof (cases "err \<or> \<not> a x")
    case True
    obtain e where e: "handles_walk_cb a x (err, acc, w) = (e, acc, w)" "e"
      using True h by (auto simp: handles_walk_cb_def)
    from Cons.IH [of w acc e] Cons.prems e True show ?thesis by auto
  next
    case False
    then have e: "handles_walk_cb a x (err, acc, w) = (False, acc @ [x], Py_INCREF x w)"
      using h by (simp add: handles_walk_cb_def)
    have o: "ok (mset (acc @ [x]) + fr) (Py_INCREF x w)"
      using ok_INCREF [OF Cons.prems(2), of x] h by (simp add: is_handle_def)
    have "is_handle (Py_INCREF x w) y" if "y \<in> set q" for y
      using Cons.prems(1) [of y] that by (simp add: is_handle_def)
    from Cons.IH [OF this o] Cons.prems(3) e False show ?thesis by auto
  qed
qed

lemma queue_handles:
  assumes "ok fr w" and "h \<in> set (handle_queue (uvl w l))"
  shows "is_handle w h" "initialized (hs w h)" "u_loop (uvh w h) = Some l" "\<not> u_closed (uvh w h)"
  using uv_inv_handle_queue(2) [OF okD(2) [OF assms(1)], of h l] assms(2)
    wf_handle_ok [OF okD(1) [OF assms(1)], of h]
  by (auto simp: handle_ok_def)

lemma ok_Loop_dict_slot:
  assumes ok: "ok fr w" and l: "is_loop w l" and v: "held fr w v"
  shows "ok fr (assign_slot l S_dict v w)"
proof -
  have x: "valid w v" by (rule held_valid [OF okD(1) [OF ok] v])
  have b: "ok_but l fr (assign_slot l S_dict v w)"
    by (rule ok_but_assign_slot(1) [OF ok_imp_but [OF ok] x])
      (use l in \<open>simp_all add: is_loop_def valid_def Loop_tp_clear_def\<close>)
  have "cb_ok (assign_slot l S_dict v w) l"
    using l by (simp add: cb_ok_def is_loop_def)
  with b show ?thesis by (rule ok_but_ok)
qed

lemma ok_Loop_dict_set:
  assumes "ok fr w" and "is_loop w l" and "\<And>v. val = Some v \<Longrightarrow> held fr w v"
  shows "ok fr (snd (Loop_dict_set l val d w))"
  using assms ok_Loop_dict_slot [OF assms(1,2)] by (simp add: Loop_dict_set_def split: option.splits)

text \<open>
  When the last reference to a loop is dropped no handle is left on it, so \<open>uv_loop_close\<close> does
  not refuse.
\<close>

lemma unreferenced_loop_empty:
  assumes ok: "ok (add_mset l fr) w" and l: "kind (objs w ! l) = KLoop" and one: "refcnt (objs w ! l) = 1"
  shows "handle_queue (uvl w l) = []"
proof (rule ccontr)
  assume "handle_queue (uvl w l) \<noteq> []"
  then obtain h where h: "h \<in> set (handle_queue (uvl w l))" by (cases "handle_queue (uvl w l)") auto
  note Q = queue_handles [OF ok h]
  obtain l' where l': "slot_of w h S_loop = Some l'" "u_loop (uvh w h) = Some l'"
    using wf_loop_valid [OF okD(1) [OF ok] Q(2,4)] by blast
  have "0 < owned w l"
    using owned_slot_pos [of h w S_loop l] l' Q by (auto simp: is_handle_def valid_def)
  moreover have "valid w l" by (rule wf_valid_frame [OF okD(1) [OF ok]]) simp
  then have "refcnt (objs w ! l) = owned w l + int (count (add_mset l fr) l)"
    using okD(1) [OF ok] by (auto simp: wf_refs_def counts_ok_def valid_def split: if_splits)
  ultimately show False using one by simp
qed

end
