(* ===== verification/Streams.thy ===== *)
theory Streams
  imports Loops
begin

text \<open>
  The class \<open>Stream\<close> (src/stream.c) and the read buffer of the loop (\<open>pyuv__alloc_cb\<close> of
  common.c), with the part of unix/stream.c that its methods call. A request in flight is a
  \<open>request_ctx\<close> in the field \<open>pend\<close> of the world; it owns the stream, the callback, the handle
  that is sent and the objects whose buffers it borrows.
\<close>

section \<open>unix/stream.c\<close>

definition uv__req_register :: "oid \<Rightarrow> world \<Rightarrow> world" where
  "uv__req_register l w = upd_uvl l (\<lambda>lp. lp\<lparr>active_reqs := active_reqs lp + 1\<rparr>) w"

definition uv__req_unregister :: "oid \<Rightarrow> world \<Rightarrow> world" where
  "uv__req_unregister l w = upd_uvl l (\<lambda>lp. lp\<lparr>active_reqs := active_reqs lp - 1\<rparr>) w"

text \<open>The result \<open>None\<close> is a failed \<open>assert\<close>.\<close>

definition uv_shutdown :: "oid \<Rightarrow> world \<Rightarrow> (int \<times> world) option" where
  "uv_shutdown h w =
     (let u = uvh w h in
      if u_type u \<noteq> Some UV_TCP \<and> u_type u \<noteq> Some UV_NAMED_PIPE then None
      else if \<not> u_writable u \<or> u_shut u \<or> u_shutting u \<or> u_closing u \<or> u_closed u
        then Some (UV_ENOTCONN, w)
      else if u_fd u < 0 then None
      else Some (0, upd_uv h (\<lambda>u. u\<lparr>u_shutting := True, u_pollout := True\<rparr>)
                      (uv__req_register (loop_of w h) w)))"

text \<open>
  \<open>uv_write2\<close>, and \<open>uv_write\<close> when nothing is sent along. \<open>ipc\<close>: the pipe was made for IPC;
  \<open>blocks\<close>: the data could not be written at once, so the stream polls for \<open>POLLOUT\<close>.
  Allocations inside libuv succeed.
\<close>

definition uv__handle_fd :: "oid \<Rightarrow> world \<Rightarrow> int" where
  "uv__handle_fd h w =
     (if u_type (uvh w h) \<in> {Some UV_NAMED_PIPE, Some UV_TCP, Some UV_UDP} then u_fd (uvh w h) else - 1)"

definition uv_write2 :: "bool \<Rightarrow> bool \<Rightarrow> oid \<Rightarrow> oid option \<Rightarrow> world \<Rightarrow> (int \<times> world) option" where
  "uv_write2 ipc blocks h send w =
     (let u = uvh w h in
      if u_type u \<noteq> Some UV_TCP \<and> u_type u \<noteq> Some UV_NAMED_PIPE \<and> u_type u \<noteq> Some UV_TTY then None
      else if u_fd u < 0 then Some (UV_EBADF, w)
      else if send \<noteq> None \<and> (u_type u \<noteq> Some UV_NAMED_PIPE \<or> \<not> ipc) then Some (UV_EINVAL, w)
      else if (\<exists>s. send = Some s \<and> uv__handle_fd s w < 0) then Some (UV_EBADF, w)
      else Some (0, upd_uv h (\<lambda>u. u\<lparr>u_pollout := u_pollout u \<or> blocks\<rparr>)
                      (uv__req_register (loop_of w h) w)))"

section \<open>Helpers\<close>

definition stream_exc :: "uv_handle_type option \<Rightarrow> uvexc option" where
  "stream_exc t = (case t of
       Some UV_TCP \<Rightarrow> Some TCPError
     | Some UV_NAMED_PIPE \<Rightarrow> Some PipeError
     | Some UV_TTY \<Rightarrow> Some TTYError
     | _ \<Rightarrow> None)"

definition RAISE_STREAM_EXCEPTION :: "int \<Rightarrow> oid \<Rightarrow> world \<Rightarrow> 'a result" where
  "RAISE_STREAM_EXCEPTION err h w =
     (case stream_exc (u_type (uvh w h)) of None \<Rightarrow> Abort | Some e \<Rightarrow> Raise (UVExc e err))"

text \<open>
  The read buffer of the loop of a handle: \<open>Some True\<close> when the slab is handed out, \<open>Some False\<close>
  for an empty buffer, \<open>None\<close> when the loop's \<open>data\<close> is \<open>NULL\<close> (its \<open>Loop\<close> object is gone).
\<close>

definition pyuv__alloc_cb :: "oid \<Rightarrow> world \<Rightarrow> (bool \<times> world) option" where
  "pyuv__alloc_cb h w =
     (let loop = loop_of w h in
      if \<not> is_loop w loop then None
      else if in_use (loops w loop) then Some (False, w)
      else Some (True, upd_Loop loop (\<lambda>l. l\<lparr>in_use := True\<rparr>) w))"

section \<open>Requests\<close>

definition Stream_func_shutdown :: "bool \<Rightarrow> oid \<Rightarrow> oid option args \<Rightarrow> world \<Rightarrow> unit result \<times> world" where
  "Stream_func_shutdown mem self args w =
     RAISE_IF_HANDLE_NOT_INITIALIZED self w
     (RAISE_IF_HANDLE_CLOSED self w
     (PyArg_Parse args w (\<lambda>a.
       let callback = (case a of None \<Rightarrow> Py_None | Some c \<Rightarrow> c)
       in if \<not> mem then (Raise MemoryError, w)
          else let w1 = Py_INCREF callback w
               in case uv_shutdown self w1 of
                    None \<Rightarrow> (Abort, w1)
                  | Some (err, w2) \<Rightarrow>
                      if err < 0 then (RAISE_STREAM_EXCEPTION err self w2, Py_DECREF callback w2)
                      else (Ok (), add_req \<lparr>rq_type = ShutdownReq, rq_obj = self, rq_callback = callback,
                                rq_send_handle = None, rq_views = [], rq_status = None\<rparr> (Py_INCREF self w2)))))"

text \<open>\<open>buf_ok\<close>: \<open>PyObject_GetBuffer\<close> succeeds; the view owns a reference to the object.\<close>

definition pyuv__stream_write_bytes ::
    "bool \<Rightarrow> (oid \<Rightarrow> bool) \<Rightarrow> bool \<Rightarrow> bool \<Rightarrow> oid \<Rightarrow> oid \<Rightarrow> oid \<Rightarrow> oid option \<Rightarrow> world \<Rightarrow> unit result \<times> world" where
  "pyuv__stream_write_bytes mem buf_ok ipc blocks self data callback send_handle w =
     (if \<not> mem then (Raise MemoryError, w)
      else if \<not> buf_ok data then (Raise OtherError, w)
      else let w1 = fold Py_INCREF (data # callback # (case send_handle of None \<Rightarrow> [] | Some s \<Rightarrow> [s])) w
           in if send_handle \<noteq> None \<and> u_type (uvh w1 self) \<noteq> Some UV_NAMED_PIPE then (Abort, w1)
              else case uv_write2 ipc blocks self send_handle w1 of
                     None \<Rightarrow> (Abort, w1)
                   | Some (err, w2) \<Rightarrow>
                       if err < 0
                       then (RAISE_STREAM_EXCEPTION err self w2,
                             Py_DECREF data (Py_XDECREF send_handle (Py_DECREF callback w2)))
                       else (Ok (), add_req \<lparr>rq_type = WriteReq, rq_obj = self, rq_callback = callback,
                                 rq_send_handle = send_handle, rq_views = [data], rq_status = None\<rparr> (Py_INCREF self w2)))"

text \<open>
  \<open>PySequence_Fast\<close> gives a list or tuple itself (\<open>is_fast\<close>) and makes a list of any other
  iterable; \<open>items\<close> are its elements. The views are taken in order; when one cannot be taken
  those before it are released.
\<close>

definition PySequence_Fast :: "bool \<Rightarrow> oid \<Rightarrow> world \<Rightarrow> oid \<times> world" where
  "PySequence_Fast is_fast data w =
     (if is_fast then (data, Py_INCREF data w) else PyType_GenericNew (KObject False) w)"

definition pyuv__stream_write_sequence ::
    "bool \<Rightarrow> (oid \<Rightarrow> bool) \<Rightarrow> bool \<Rightarrow> bool \<Rightarrow> oid \<Rightarrow> oid \<Rightarrow> bool \<Rightarrow> oid list \<Rightarrow> oid \<Rightarrow> oid option \<Rightarrow> world
      \<Rightarrow> unit result \<times> world" where
  "pyuv__stream_write_sequence mem buf_ok ipc blocks self data is_fast items callback send_handle w =
     (let (data_fast, w0) = PySequence_Fast is_fast data w
      in if 2147483647 < length items then (Raise ValueError, Py_DECREF data_fast w0)
         else if items = [] then (Raise ValueError, Py_DECREF data_fast w0)
         else if \<not> mem then (Raise MemoryError, Py_DECREF data_fast w0)
         else let good = takeWhile buf_ok items;
                  w1 = fold Py_INCREF good w0
              in if good \<noteq> items then (Raise OtherError, Py_DECREF data_fast (release good w1))
                 else let w2 = fold Py_INCREF (callback # (case send_handle of None \<Rightarrow> [] | Some s \<Rightarrow> [s])) w1
                      in if send_handle \<noteq> None \<and> u_type (uvh w2 self) \<noteq> Some UV_NAMED_PIPE then (Abort, w2)
                         else case uv_write2 ipc blocks self send_handle w2 of
                                None \<Rightarrow> (Abort, w2)
                              | Some (err, w3) \<Rightarrow>
                                  if err < 0
                                  then (RAISE_STREAM_EXCEPTION err self w3,
                                        Py_DECREF data_fast (release items
                                          (Py_XDECREF send_handle (Py_DECREF callback w3))))
                                  else (Ok (), add_req \<lparr>rq_type = WriteReq, rq_obj = self,
                                            rq_callback = callback, rq_send_handle = send_handle,
                                            rq_views = items, rq_status = None\<rparr> (Py_INCREF self w3)))"

text \<open>What \<open>PyObject_CheckBuffer\<close> and \<open>PySequence_Check\<close> say of the data.\<close>

datatype data_arg = Buffer oid | Sequence oid bool "oid list" | OtherData

definition Stream_func_write ::
    "bool \<Rightarrow> (oid \<Rightarrow> bool) \<Rightarrow> bool \<Rightarrow> oid \<Rightarrow> (data_arg \<times> oid option) args \<Rightarrow> world \<Rightarrow> unit result \<times> world" where
  "Stream_func_write mem buf_ok blocks self args w =
     RAISE_IF_HANDLE_NOT_INITIALIZED self w
     (RAISE_IF_HANDLE_CLOSED self w
     (PyArg_Parse args w (\<lambda>(data, cb).
       let callback = (case cb of None \<Rightarrow> Py_None | Some c \<Rightarrow> c)
       in if callback \<noteq> Py_None \<and> \<not> PyCallable_Check w callback then (Raise TypeError, w)
          else case data of
                 Buffer d \<Rightarrow> pyuv__stream_write_bytes mem buf_ok False blocks self d callback None w
               | Sequence d fast items \<Rightarrow>
                   pyuv__stream_write_sequence mem buf_ok False blocks self d fast items callback None w
               | OtherData \<Rightarrow> (Raise TypeError, w))))"

text \<open>\<open>r\<close> is what \<open>uv_try_write\<close> answers: bytes written or an error.\<close>

definition Stream_func_try_write :: "int \<Rightarrow> oid \<Rightarrow> oid args \<Rightarrow> world \<Rightarrow> int result \<times> world" where
  "Stream_func_try_write r self args w =
     RAISE_IF_HANDLE_NOT_INITIALIZED self w
     (RAISE_IF_HANDLE_CLOSED self w
     (PyArg_Parse args w (\<lambda>data.
       let w1 = Py_INCREF data w
       in if r < 0 then (RAISE_STREAM_EXCEPTION r self w1, Py_DECREF data w1)
          else (Ok r, Py_DECREF data w1))))"

section \<open>Reading\<close>

definition Stream_func_start_read :: "oid \<Rightarrow> oid args \<Rightarrow> world \<Rightarrow> unit result \<times> world" where
  "Stream_func_start_read self args w =
     RAISE_IF_HANDLE_NOT_INITIALIZED self w
     (RAISE_IF_HANDLE_CLOSED self w
     (PyArg_Parse args w (\<lambda>callback.
       if \<not> PyCallable_Check w callback then (Raise TypeError, w)
       else case uv_read_start self w of
              None \<Rightarrow> (Abort, w)
            | Some (err, w1) \<Rightarrow>
                if err < 0 then (RAISE_STREAM_EXCEPTION err self w1, w1)
                else (Ok (), PYUV_HANDLE_INCREF self (assign_slot self S_on_read_cb callback w1)))))"

definition Stream_func_stop_read :: "oid \<Rightarrow> world \<Rightarrow> unit result \<times> world" where
  "Stream_func_stop_read self w =
     RAISE_IF_HANDLE_NOT_INITIALIZED self w
     (RAISE_IF_HANDLE_CLOSED self w
     (let (err, w1) = (0::int, uv_read_stop self w)
      in if err < 0 then (RAISE_STREAM_EXCEPTION err self w1, w1)
         else (Ok (), PYUV_HANDLE_DECREF self (clear_slot self S_on_read_cb w1))))"

definition Stream_func_fileno :: "oid \<Rightarrow> world \<Rightarrow> int result \<times> world" where
  "Stream_func_fileno self w =
     RAISE_IF_HANDLE_NOT_INITIALIZED self w
     (RAISE_IF_HANDLE_CLOSED self w
     (let (err, fd) = (if uv_is_closing self w \<or> u_fd (uvh w self) = -1 then (UV_EBADF, 0)
                       else (0, u_fd (uvh w self)))
      in if err < 0 then (RAISE_STREAM_EXCEPTION err self w, w) else (Ok fd, w)))"

definition Stream_readable_get :: "oid \<Rightarrow> world \<Rightarrow> bool result \<times> world" where
  "Stream_readable_get self w = RAISE_IF_HANDLE_NOT_INITIALIZED self w (Ok (u_readable (uvh w self)), w)"

definition Stream_writable_get :: "oid \<Rightarrow> world \<Rightarrow> bool result \<times> world" where
  "Stream_writable_get self w = RAISE_IF_HANDLE_NOT_INITIALIZED self w (Ok (u_writable (uvh w self)), w)"

section \<open>Callbacks\<close>

text \<open>\<open>err_obj neg\<close>: a new int for an error, a reference to \<open>None\<close> otherwise.\<close>

definition err_obj :: "bool \<Rightarrow> world \<Rightarrow> oid \<times> world" where
  "err_obj failed w = (if failed then PyInt_FromLong w else (Py_None, Py_INCREF Py_None w))"

text \<open>
  \<open>pyuv__stream_read_cb\<close>: on success the data is a new bytes object and the error \<open>None\<close>; on an
  error it is the other way round and reading stops.
\<close>

definition pyuv__stream_read_cb :: "python \<Rightarrow> int \<Rightarrow> oid \<Rightarrow> world \<Rightarrow> world option" where
  "pyuv__stream_read_cb py nread self w =
     (let w1 = Py_INCREF self w;
          (data, py_errorno, w2) =
            (if 0 \<le> nread
             then let (d, v) = PyType_GenericNew (KObject False) w1 in (d, Py_None, Py_INCREF Py_None v)
             else let v = Py_INCREF Py_None w1; (e, v') = PyInt_FromLong v
                  in (Py_None, e, uv_read_stop self v'))
      in case call_callback py (slot_of w2 self S_on_read_cb) [self, data, py_errorno]
                (\<lambda>v. slot_of v self S_loop) w2 of
           None \<Rightarrow> None
         | Some w3 \<Rightarrow>
             let w4 = release [data, py_errorno] w3;
                 loop = loop_of w4 self
             in if \<not> is_loop w4 loop then None
                else Some (Py_DECREF self (upd_Loop loop (\<lambda>l. l\<lparr>in_use := False\<rparr>) w4)))"

text \<open>
  The callbacks of a write and of a shutdown release what the request owned, in this order:
  the callback, the handle sent, the views, the stream.
\<close>

definition finish_req :: "python \<Rightarrow> int \<Rightarrow> request_ctx \<Rightarrow> world \<Rightarrow> world option" where
  "finish_req py status r w =
     (if rq_callback r \<noteq> Py_None
      then let (py_errorno, w1) = err_obj (status < 0) w
           in case call_callback py (Some (rq_callback r)) [rq_obj r, py_errorno]
                     (\<lambda>v. slot_of v (rq_obj r) S_loop) w1 of
                None \<Rightarrow> None
              | Some w2 \<Rightarrow> Some (Py_DECREF py_errorno w2)
      else Some w)"

definition pyuv__stream_write_cb :: "python \<Rightarrow> int \<Rightarrow> request_ctx \<Rightarrow> world \<Rightarrow> world option" where
  "pyuv__stream_write_cb py status ctx w =
     (case finish_req py status ctx w of
        None \<Rightarrow> None
      | Some w1 \<Rightarrow> Some (Py_DECREF (rq_obj ctx) (release (rq_views ctx)
          (Py_XDECREF (rq_send_handle ctx) (Py_DECREF (rq_callback ctx) w1)))))"

definition pyuv__stream_shutdown_cb :: "python \<Rightarrow> int \<Rightarrow> request_ctx \<Rightarrow> world \<Rightarrow> world option" where
  "pyuv__stream_shutdown_cb py status ctx w =
     (case finish_req py status ctx w of
        None \<Rightarrow> None
      | Some w1 \<Rightarrow> Some (Py_DECREF (rq_obj ctx) (Py_DECREF (rq_callback ctx) w1)))"

text \<open>
  libuv completes a request (\<open>uv__req_unregister\<close>): it leaves the list of requests, its
  references go to the frame.
\<close>

definition uv__take_req :: "request_ctx \<Rightarrow> world \<Rightarrow> world" where
  "uv__take_req r w = uv__req_unregister (loop_of w (rq_obj r)) (remove_req r w)"

end
