(* ===== verification/Stream_Rules.thy ===== *)
theory Stream_Rules
  imports Streams
begin

text \<open>
  The methods and callbacks of \<open>Stream\<close> keep the invariant of the state. A request in flight
  owns its references; a sequence that was written leaks the reference of \<open>PySequence_Fast\<close>,
  which stays in the frame.
\<close>

section \<open>Fields that the invariant does not read\<close>

lemma ok_upd_uv:
  assumes ok: "ok fr w"
    and f: "\<And>u. u_active (f u) = u_active u" "\<And>u. u_ref (f u) = u_ref u" "\<And>u. u_closing (f u) = u_closing u"
      "\<And>u. u_closed (f u) = u_closed u" "\<And>u. u_loop (f u) = u_loop u" "\<And>u. u_type (f u) = u_type u"
      "\<And>u. u_signum (f u) = u_signum u" "\<And>u. u_caught (f u) = u_caught u"
      "\<And>u. u_dispatched (f u) = u_dispatched u" "\<And>u. u_close_cb (f u) = u_close_cb u"
      "\<And>u. u_timer_cb (f u) = u_timer_cb u" "\<And>u. u_listening (f u) = u_listening u"
      "\<And>u. u_reading (f u) \<Longrightarrow> u_reading u" "\<And>u. 0 \<le> u_fd u \<Longrightarrow> 0 \<le> u_fd (f u)"
    and p: "u_shutting (f (uvh w h)) \<Longrightarrow> u_shutting (uvh w h) \<or> has_req ShutdownReq h w"
      "u_connect (f (uvh w h)) \<Longrightarrow> u_connect (uvh w h) \<or> has_req ConnectReq h w"
  shows "ok fr (upd_uv h f w)"
proof -
  have fi: "fires c (f u) = fires c u" for c u by (cases c) (simp_all add: f)
  have "uv_inv (upd_uv h f w)" by (rule uv_inv_upd_uv [OF okD(2) [OF ok]]) (simp_all add: f)
  moreover have "wf_refs fr (upd_uv h f w)" by (rule wf_req_pointers [OF okD(1) [OF ok]]) (simp_all add: f p)
  moreover have "cb_ok (upd_uv h f w) y" for y
  proof (cases "y = h")
    case True
    have "initialized (hs w h)" if "has_req ConnectReq h w"
      using that wf_handle_ok [OF okD(1) [OF ok], of h] by (auto simp: handle_ok_def has_req_def)
    then show ?thesis
      using okD(3) [OF ok, of h] p(2) f(13,14) True
      by (auto simp: cb_ok_def field_ok_def upd_uv_def f fi)
  next
    case False
    then show ?thesis by (intro cb_ok_cong [OF okD(3) [OF ok, of y]]) (simp_all add: upd_uv_def)
  qed
  ultimately show ?thesis by (simp add: ok_def)
qed

lemma type_queue_reqs [simp]: "type_queue t (l\<lparr>active_reqs := n\<rparr>) = type_queue t l"
  by (cases t; simp)

lemma ok_req_register: "ok fr w \<Longrightarrow> ok fr (uv__req_register l w)" "ok fr w \<Longrightarrow> ok fr (uv__req_unregister l w)"
  unfolding uv__req_register_def uv__req_unregister_def by (rule ok_loop_field; simp)+

text \<open>\<open>uv_shutdown\<close> fails without a change, or the stream points to its request.\<close>

definition shutting_down :: "oid \<Rightarrow> world \<Rightarrow> world" where
  "shutting_down h w = upd_uv h (\<lambda>u. u\<lparr>u_shutting := True, u_pollout := True\<rparr>) w"

lemma uv_shutdown_cases:
  assumes "uv_shutdown h w = Some (e, w')"
  shows "u_type (uvh w h) \<in> {Some UV_TCP, Some UV_NAMED_PIPE}"
    and "e = UV_ENOTCONN \<and> w' = w \<or>
      e = 0 \<and> w' = shutting_down h (uv__req_register (loop_of w h) w) \<and> \<not> u_closing (uvh w h)"
  using assms by (auto simp: uv_shutdown_def Let_def shutting_down_def split: if_splits)

lemma shutting_down_commutes:
  "add_req r (Py_INCREF x (shutting_down h w)) = shutting_down h (add_req r (Py_INCREF x w))"
  by (simp add: add_req_def Py_INCREF_def shutting_down_def upd_defs)

lemma ok_shutting_down: "ok fr w \<Longrightarrow> has_req ShutdownReq h w \<Longrightarrow> ok fr (shutting_down h w)"
  unfolding shutting_down_def by (rule ok_upd_uv) simp_all

lemma ok_uv_write2: "ok fr w \<Longrightarrow> uv_write2 ipc b h s w = Some (e, w') \<Longrightarrow> ok fr w'"
  by (auto simp: uv_write2_def Let_def split: if_splits intro!: ok_upd_uv ok_req_register)

lemma ok_add_req:
  assumes "ok (mset (rq_refs r) + fr) w" and "initialized (hs w (rq_obj r))"
    and "req_fits r (u_type (uvh w (rq_obj r)))"
  shows "ok fr (add_req r w)"
  using assms by (intro okI) (auto intro: wf_add_req okD uv_inv_same [OF okD(2)] cb_ok_cong [OF okD(3)])

lemma ok_remove_req:
  "ok fr w \<Longrightarrow> r \<in> set (pend w) \<Longrightarrow> \<not> pointed r w \<Longrightarrow> ok (mset (rq_refs r) + fr) (remove_req r w)"
  by (rule okI) (auto intro: wf_remove_req okD uv_inv_same [OF okD(2)] cb_ok_cong [OF okD(3)])

lemma req_register_quiet [quiet]: "uv_quiet a w \<Longrightarrow> uv_quiet a (uv__req_register l w)"
  "uv_quiet a w \<Longrightarrow> uv_quiet a (uv__req_unregister l w)"
  by (simp_all add: uv__req_register_def uv__req_unregister_def quiet)

lemma write_quiet: "uv_write2 ipc b h s w = Some (e, w') \<Longrightarrow> uv_quiet w w'"
  by (auto simp: uv_write2_def Let_def split: if_splits intro!: quiet)

lemma write_req_type:
  "uv_write2 ipc b h s w = Some (e, w') \<Longrightarrow> u_type (uvh w h) \<in> {Some UV_TCP, Some UV_NAMED_PIPE, Some UV_TTY}"
  by (auto simp: uv_write2_def Let_def split: if_splits)

lemma fold_INCREF_frame [simp]:
  "hs (fold Py_INCREF xs w) = hs w" "ext (fold Py_INCREF xs w) = ext w" "pend (fold Py_INCREF xs w) = pend w"
  "loops (fold Py_INCREF xs w) = loops w" "valid (fold Py_INCREF xs w) y = valid w y"
  by (induction xs arbitrary: w) simp_all

lemma valid_quiet: "uv_quiet a b \<Longrightarrow> valid b y = valid a y"
  by (simp add: uv_quiet_def valid_def)

section \<open>Writing\<close>

lemma ok_Stream_func_shutdown:
  assumes ok: "ok fr w" and h: "held fr w x" and a: "\<And>f. args = Inr (Some f) \<Longrightarrow> held fr w f"
  shows "ok fr (snd (Stream_func_shutdown mem x args w)) \<or> fst (Stream_func_shutdown mem x args w) = Abort"
proof -
  have vx: "valid w x" by (rule held_valid [OF okD(1) [OF ok] h])
  have "(case uv_shutdown x (Py_INCREF c w) of None \<Rightarrow> True | Some (err, w2) \<Rightarrow>
      if err < 0 then ok fr (Py_DECREF c w2) else ok fr (add_req \<lparr>rq_type = ShutdownReq, rq_obj = x, rq_callback = c,
        rq_send_handle = None, rq_views = [], rq_status = None\<rparr> (Py_INCREF x w2)))"
    if c: "held fr w c" and i: "initialized (hs w x)" for c
  proof (cases "uv_shutdown x (Py_INCREF c w)")
    case None
    then show ?thesis by simp
  next
    case (Some p)
    obtain err w2 where p: "p = (err, w2)" by fastforce
    let ?r = "\<lparr>rq_type = ShutdownReq, rq_obj = x, rq_callback = c, rq_send_handle = None, rq_views = [], rq_status = None\<rparr>"
    let ?w1 = "uv__req_register (loop_of w x) (Py_INCREF c w)"
    have o1: "ok (add_mset c fr) (Py_INCREF c w)" by (rule ok_INCREF [OF ok held_valid [OF okD(1) [OF ok] c]])
    have q: "uv_quiet (Py_INCREF c w) ?w1" by (simp add: quiet)
    have "ok (add_mset x (add_mset c fr)) (Py_INCREF x ?w1)"
      by (rule ok_INCREF [OF ok_req_register(1) [OF o1]]) (use valid_quiet [OF q, of x] vx in simp)
    then have o3: "ok fr (add_req ?r (Py_INCREF x ?w1))"
      using uv_shutdown_cases(1) [OF Some [unfolded p]] i q
      by (intro ok_add_req) (auto simp: rq_refs_def add_mset_commute uv_quiet_def req_fits_def)
    then have o4: "ok (add_mset c fr) w2" if "err < 0"
      using uv_shutdown_cases(2) [OF Some [unfolded p]] that o1 by auto
    have "ok fr (shutting_down x (add_req ?r (Py_INCREF x ?w1)))"
      by (rule ok_shutting_down [OF o3]) (simp add: has_req_def add_req_def)
    then show ?thesis
      using Some p ok_DECREF [OF o4] uv_shutdown_cases(2) [OF Some [unfolded p]]
      by (auto simp: shutting_down_commutes UV_ENOTCONN_def)
  qed
  then show ?thesis
    using ok a none_held [OF ok]
    by (fastforce simp: Stream_func_shutdown_def guard_defs Let_def split: sum.splits option.splits)
qed

text \<open>The two ends of a write: the request is queued, or everything is dropped again.\<close>

lemma ok_write_queued:
  assumes "ok (mset views + (add_mset c (mset_opt s + fr))) w" and "valid w x"
    and i: "initialized (hs w x)" "u_type (uvh w x) \<in> {Some UV_TCP, Some UV_NAMED_PIPE, Some UV_TTY}"
  shows "ok fr (add_req \<lparr>rq_type = WriteReq, rq_obj = x, rq_callback = c, rq_send_handle = s,
    rq_views = views, rq_status = None\<rparr> (Py_INCREF x w))"
  by (rule ok_add_req) (use ok_INCREF [OF assms(1,2)] i in
      \<open>cases s; simp add: rq_refs_def ac_simps req_fits_def; auto\<close>)+

lemma ok_write_dropped:
  assumes "ok (mset views + (add_mset c (mset_opt s + fr))) w"
  shows "ok fr (release views (Py_XDECREF s (Py_DECREF c w)))"
proof -
  have "ok (add_mset c (mset_opt s + (mset views + fr))) w" using assms by (simp add: ac_simps)
  then show ?thesis by (intro ok_release ok_XDECREF ok_DECREF)
qed

abbreviation opt_list :: "oid option \<Rightarrow> oid list" where
  "opt_list s \<equiv> (case s of None \<Rightarrow> [] | Some y \<Rightarrow> [y])"

lemma mset_opt_list: "mset (opt_list s) = mset_opt s"
  by (cases s) simp_all

lemma ok_pyuv__stream_write_bytes:
  assumes ok: "ok fr w" and i: "initialized (hs w x)" and h: "held fr w x" "held fr w d" "held fr w c" "\<And>y. s = Some y \<Longrightarrow> held fr w y"
    and r: "pyuv__stream_write_bytes mem bok ipc b x d c s w = (res, w')"
  shows "ok fr w' \<or> res = Abort"
proof -
  have v: "valid w y" if "held fr w y" for y by (rule held_valid [OF okD(1) [OF ok] that])
  let ?w1 = "fold Py_INCREF (d # c # opt_list s) w"
  have o1: "ok (mset [d] + (add_mset c (mset_opt s + fr))) ?w1"
  proof -
    have "valid w y" if "y \<in> set (d # c # opt_list s)" for y
      using that v h by (cases s) auto
    from ok_fold_INCREF [OF ok, of "d # c # opt_list s", OF this] show ?thesis
      by (cases s) (simp_all add: ac_simps add_mset_commute)
  qed
  show ?thesis
  proof (cases "uv_write2 ipc b x s ?w1")
    case None
    then show ?thesis using r ok
      by (auto simp: pyuv__stream_write_bytes_def Let_def split: if_splits)
  next
    case (Some p)
    obtain err w2 where p: "p = (err, w2)" by fastforce
    have o2: "ok (mset [d] + (add_mset c (mset_opt s + fr))) w2"
      using ok_uv_write2 [OF o1] Some p by blast
    have "valid w2 x" "initialized (hs w2 x)" "u_type (uvh w2 x) \<in> {Some UV_TCP, Some UV_NAMED_PIPE, Some UV_TTY}"
      using valid_quiet [OF write_quiet [OF Some [unfolded p]], of x] v [OF h(1)] i
        write_quiet [OF Some [unfolded p]] write_req_type [OF Some [unfolded p]]
      by (auto simp: uv_quiet_def)
    from ok_write_queued [OF o2 this] ok_write_dropped [OF o2] r Some p ok show ?thesis
      by (auto simp: pyuv__stream_write_bytes_def Let_def split: if_splits)
  qed
qed

text \<open>
  A sequence that was queued leaves one reference too many, that of \<open>PySequence_Fast\<close>; on every
  other path the counts are balanced.
\<close>

lemma ok_pyuv__stream_write_sequence:
  assumes ok: "ok fr w" and i: "initialized (hs w x)" and h: "held fr w x" "held fr w d" "held fr w c" "\<And>y. s = Some y \<Longrightarrow> held fr w y"
    and it: "\<And>y. y \<in> set items \<Longrightarrow> held fr w y"
    and r: "pyuv__stream_write_sequence mem bok ipc b x d fast items c s w = (res, w')"
  shows "res = Abort \<or> (\<exists>e. res = Raise e) \<and> ok fr w' \<or>
    res = Ok () \<and> ok (add_mset (fst (PySequence_Fast fast d w)) fr) w'"
proof -
  have v: "valid w y" if "held fr w y" for y by (rule held_valid [OF okD(1) [OF ok] that])
  obtain df w0 where f: "PySequence_Fast fast d w = (df, w0)" by fastforce
  have o0: "ok (add_mset df fr) w0" and u0: "undisturbed w w0" and e0: "\<And>y. held fr w y \<Longrightarrow> held fr w0 y"
    and v0: "\<And>y. valid w y \<Longrightarrow> valid w0 y" and i0: "initialized (hs w0 x)"
  proof -
    show "initialized (hs w0 x)"
      using f i held_valid [OF okD(1) [OF ok] h(1)]
      by (auto simp: PySequence_Fast_def PyType_GenericNew_def valid_def split: if_splits)
    show "ok (add_mset df fr) w0" "undisturbed w w0"
      using f ok_INCREF [OF ok v [OF h(2)]] ok_GenericNew_object [OF ok, of False df w0] stable_INCREF
      by (auto simp: PySequence_Fast_def split: if_splits)
    show "held fr w y \<Longrightarrow> held fr w0 y" "valid w y \<Longrightarrow> valid w0 y" for y
      using f by (auto simp: PySequence_Fast_def PyType_GenericNew_def held_def valid_def nth_append split: if_splits)
  qed
  let ?good = "takeWhile bok items"
  let ?w1 = "fold Py_INCREF ?good w0"
  have o1: "ok (mset ?good + add_mset df fr) ?w1"
  proof (rule ok_fold_INCREF [OF o0])
    fix y assume "y \<in> set ?good"
    then have "y \<in> set items" by (rule set_takeWhileD [THEN conjunct1])
    then show "valid w0 y" by (intro v0 v it)
  qed
  let ?w2 = "fold Py_INCREF (c # opt_list s) ?w1"
  have "valid ?w1 y" if "y \<in> set (c # opt_list s)" for y
    using that h v v0 by (auto split: option.splits)
  then have o2: "ok (mset ?good + (add_mset c (mset_opt s + add_mset df fr))) ?w2"
    using ok_fold_INCREF [OF o1, of "c # opt_list s"] by (simp add: mset_opt_list ac_simps)
  have vx: "valid ?w2 x" using v0 [OF v [OF h(1)]] by (simp add: valid_def [symmetric])
  show ?thesis
  proof (cases "length items \<le> 2147483647 \<and> items \<noteq> [] \<and> mem \<and> ?good = items")
    case False
    then have "\<exists>e. res = Raise e \<and> (w' = Py_DECREF df w0 \<or> w' = Py_DECREF df (release ?good ?w1))"
      using r f by (auto simp: pyuv__stream_write_sequence_def Let_def split: if_splits)
    then show ?thesis using ok_DECREF [OF o0] ok_DECREF [OF ok_release [OF o1]] by auto
  next
    case True
    show ?thesis
    proof (cases "uv_write2 ipc b x s ?w2")
      case None
      then show ?thesis using r f True
        by (auto simp: pyuv__stream_write_sequence_def Let_def split: if_splits)
    next
      case (Some p)
      obtain err w3 where p: "p = (err, w3)" by fastforce
      have o3: "ok (mset items + (add_mset c (mset_opt s + add_mset df fr))) w3"
        using ok_uv_write2 [OF o2] Some p True by auto
      have "valid w3 x" "initialized (hs w3 x)" "u_type (uvh w3 x) \<in> {Some UV_TCP, Some UV_NAMED_PIPE, Some UV_TTY}"
        using valid_quiet [OF write_quiet [OF Some [unfolded p]], of x] vx i0
          write_quiet [OF Some [unfolded p]] write_req_type [OF Some [unfolded p]]
        by (auto simp: uv_quiet_def)
      from ok_write_queued [OF o3 this] ok_DECREF [OF ok_write_dropped [OF o3]] r Some p f True
      show ?thesis
        by (auto simp: pyuv__stream_write_sequence_def Let_def RAISE_STREAM_EXCEPTION_def
            split: if_splits option.splits)
    qed
  qed
qed

section \<open>Reading\<close>

lemma uv_local_read_start: "uv_read_start h w = Some (e, w') \<Longrightarrow> uv_local h w w'"
  by (auto simp: uv_read_start_def split: if_splits intro!: local_steps)

lemma ok_Stream_func_start_read:
  assumes ok: "ok fr w" and h: "held fr w x" and k: "kind (objs w ! x) = KHandle c" and c: "stream_class c"
    and a: "\<And>f. args = Inr f \<Longrightarrow> held fr w f"
  shows "ok fr (snd (Stream_func_start_read x args w))"
proof (cases "initialized (hs w x) \<and> \<not> uv_is_closing x w")
  case False
  then show ?thesis using ok by (auto simp: Stream_func_start_read_def guard_defs)
next
  case True
  then have o: "open_handle w x c" by (intro open_handleI [OF ok h k]) auto
  note D = open_handleD [OF ok o]
  have sl: "cb_slot c = S_on_read_cb" "S_on_read_cb \<in> set (handle_tp_clear c)"
    using c by (auto simp: cb_slot_def stream_class_def reads_class_def tp_clear_defs)
  have fd: "0 \<le> u_fd (uvh w1 x)" if "uv_read_start x w = Some (e, w1)" for e w1
    using that True by (auto simp: uv_read_start_def uv_is_closing_def uv_defs split: if_splits)
  have "ok fr (PYUV_HANDLE_INCREF x (assign_slot x S_on_read_cb f w1))"
    if f: "held fr w f" and p: "uv_read_start x w = Some (e, w1)" for f e w1
  proof -
    have "uv_inv w1"
      using D(6,7) o c uv_inv_read_start [OF okD(2) [OF ok] _ _ _ p]
      by (auto simp: open_handle_def stream_type_def stream_class_type)
    then show ?thesis
      using ok_started [OF ok o h f uv_quiet_read_start [OF p] uv_local_read_start [OF p]] sl fd [OF p] by simp
  qed
  moreover have "e = 0" if "uv_read_start x w = Some (e, w1)" for e w1
    using that True by (auto simp: uv_read_start_def uv_is_closing_def split: if_splits)
  ultimately show ?thesis
    using ok True a by (force simp: Stream_func_start_read_def guard_defs split: sum.splits option.splits)
qed

lemma ok_Stream_func_stop_read:
  assumes ok: "ok fr w" and h: "held fr w x" and k: "kind (objs w ! x) = KHandle c" and c: "stream_class c"
  shows "ok fr (snd (Stream_func_stop_read x w))"
proof (cases "initialized (hs w x) \<and> \<not> uv_is_closing x w")
  case False
  then show ?thesis using ok by (auto simp: Stream_func_stop_read_def guard_defs)
next
  case True
  then have o: "open_handle w x c" by (intro open_handleI [OF ok h k]) auto
  note D = open_handleD [OF ok o]
  obtain l where l: "u_loop (uvh w x) = Some l" using D(7) by blast
  have "uv_inv (uv_read_stop x w)"
    by (rule uv_inv_read_stop [OF okD(2) [OF ok] l])
      (use o D(6) c in \<open>auto simp: open_handle_def stream_type_def stream_class_type\<close>)
  moreover have "\<not> u_reading (uvh (uv_read_stop x w) x)"
    by (simp add: uv_read_stop_def Let_def uv_defs)
  ultimately have "ok fr (PYUV_HANDLE_DECREF x (clear_slot x (cb_slot c) (uv_read_stop x w)))"
    using ok_stopped_clear [OF ok o h, of "uv_read_stop x w"] c
    by (auto simp: quiet local_steps cb_slot_def stream_class_def reads_class_def tp_clear_defs)
  then show ?thesis using True c by (simp add: Stream_func_stop_read_def guard_defs cb_slot_def)
qed

lemma ok_read_stop:
  assumes ok: "ok fr w" and i: "initialized (hs w x)" and ncl: "\<not> u_closed (uvh w x)"
    and t: "stream_type (uvh w x)"
  shows "ok fr (uv_read_stop x w)"
proof -
  obtain l where l: "u_loop (uvh w x) = Some l" using wf_loop_valid [OF okD(1) [OF ok] i ncl] by blast
  have f: "fires c (uvh (uv_read_stop x w) x) \<Longrightarrow> fires c (uvh w x)" for c
    by (cases c) (auto simp: uv_read_stop_def Let_def uv_defs split: if_splits)
  show ?thesis
    by (rule ok_quiet_fields [OF ok, where x = x])
      (use uv_inv_read_stop [OF okD(2) [OF ok] l ncl t] f in \<open>auto simp: quiet local_steps\<close>,
        auto simp: uv_read_stop_def Let_def uv_defs split: if_splits)
qed

text \<open>Whether the slab is handed out: no deallocation changes it.\<close>

lemma in_use_upd [simp]:
  "in_use (loops (upd_uvl l f w) m) = in_use (loops w m)" "loops (upd_uv h g w) = loops w"
  "loops (upd_obj x k w) = loops w"
  by (simp_all add: upd_defs)

lemma in_use_stop [simp]: "in_use (loops (uv__handle_stop h w) m) = in_use (loops w m)"
  by (simp add: uv__handle_stop_def uv__active_handle_rm_def Let_def)

lemma in_use_stops [simp]:
  "in_use (loops (uv_timer_stop h w) m) = in_use (loops w m)"
  "in_use (loops (uv_watcher_stop fld h w) m) = in_use (loops w m)"
  "in_use (loops (uv__async_close h w) m) = in_use (loops w m)"
  "in_use (loops (uv__poll_stop h w) m) = in_use (loops w m)"
  "in_use (loops (uv__signal_stop h w) m) = in_use (loops w m)"
  "in_use (loops (uv_read_stop h w) m) = in_use (loops w m)"
  by (simp_all add: uv_timer_stop_def uv_watcher_stop_def uv__async_close_def uv__poll_stop_def
      uv__signal_stop_def uv_read_stop_def Let_def)

lemma in_use_close [simp]: "in_use (loops (uv_close h cb w) m) = in_use (loops w m)"
proof -
  have "in_use (loops (uv__type_close h w) m) = in_use (loops w m)" for w
    by (auto simp: uv__type_close_def uv__stream_close_def uv__pipe_close_def uv__udp_close_def split: option.split uv_handle_type.split)
  then show ?thesis by (simp add: uv_close_def Let_def uv__make_close_pending_def)
qed

lemma in_use_dealloc: "tp_dealloc x w = (ys, w') \<Longrightarrow> in_use (loops w' m) = in_use (loops w m)"
  by (cases "kind (objs w ! x)")
    (auto simp: tp_dealloc_def Loop_tp_dealloc_def Handle_tp_dealloc_def Let_def
      resurrect_object_def free_obj_def uv_loop_close_def upd_Loop_def split: if_splits)

lemma in_use_release [simp]: "in_use (loops (release xs w) m) = in_use (loops w m)"
proof (induction xs w rule: release.induct)
  case (1 w)
  then show ?case by simp
next
  case (2 y ys w)
  obtain zs w' where d: "tp_dealloc y (dec_count y w) = (zs, w')" by fastforce
  have e: "in_use (loops w' m) = in_use (loops w m)"
    using in_use_dealloc [OF d] by (simp add: dec_count_def)
  have c: "in_use (loops (dec_count y w) m) = in_use (loops w m)" by (simp add: dec_count_def)
  show ?case using 2 d e c by (simp add: release.simps(2))
qed

lemma ok_in_use: "ok fr w \<Longrightarrow> ok fr (upd_Loop l (\<lambda>x. x\<lparr>in_use := b\<rparr>) w)"
  by (rule ok_upd_Loop) simp_all

context python_program
begin

text \<open>A callback that fails for an error or succeeds with \<open>None\<close>.\<close>

lemma ok_err_obj:
  assumes "ok fr w" and "err_obj b w = (e, w')"
  shows "ok (add_mset e fr) w'" "undisturbed w w'"
  using assms ok_PyInt_FromLong [OF assms(1)] ok_INCREF [OF assms(1) wf_none [OF okD(1) [OF assms(1)]]] stable_INCREF
  by (auto simp: err_obj_def split: if_splits)

section \<open>Completion\<close>

lemma finish_req_ok:
  assumes ok: "ok (mset (rq_refs r) + fr) w" and k: "kind (objs w ! rq_obj r) = KHandle c"
    and i: "initialized (hs w (rq_obj r))"
  shows "\<exists>w'. finish_req py status r w = Some w' \<and> ok (mset (rq_refs r) + fr) w'"
proof (cases "rq_callback r = Py_None")
  case True
  then show ?thesis using ok by (simp add: finish_req_def)
next
  case False
  let ?x = "rq_obj r" and ?c = "rq_callback r" and ?fr = "mset (rq_refs r) + fr"
  obtain e w1 where e: "err_obj (status < 0) w = (e, w1)" by fastforce
  note E = ok_err_obj [OF ok e]
  have in_fr: "?x \<in># ?fr" "?c \<in># ?fr" by (simp_all add: rq_refs_def)
  have v: "valid w ?x" by (rule wf_valid_frame [OF okD(1) [OF ok] in_fr(1)])
  have k1: "kind (objs w1 ! ?x) = KHandle c" "initialized (hs w1 ?x)"
    using E(2) v k i by (auto simp: undisturbed_def valid_def)
  have v1: "valid w1 y" if "y \<in> {?x, ?c, e}" for y
    by (rule wf_valid_frame [OF okD(1) [OF E(1)]]) (use that in_fr in auto)
  have "\<exists>w'. call_callback py (Some ?c) [?x, e] (\<lambda>v. slot_of v ?x S_loop) w1 = Some w' \<and>
      ok (add_mset e ?fr) w' \<and> undisturbed w1 w'"
    by (rule call_callback_ok [OF E(1)])
      (use v1 in_fr loop_field_there [OF E(1) _ k1] in auto)
  then obtain w2 where "call_callback py (Some ?c) [?x, e] (\<lambda>v. slot_of v ?x S_loop) w1 = Some w2"
    "ok (add_mset e ?fr) w2" by blast
  then show ?thesis using e False ok_DECREF by (auto simp: finish_req_def)
qed

lemma ok_take_req: "ok fr w \<Longrightarrow> r \<in> set (pend w) \<Longrightarrow> \<not> pointed r w \<Longrightarrow>
    ok (mset (rq_refs r) + fr) (uv__take_req r w)"
  unfolding uv__take_req_def by (intro ok_req_register ok_remove_req)

lemma pyuv__stream_write_cb_ok:
  assumes "ok (mset (rq_refs r) + fr) w" and "kind (objs w ! rq_obj r) = KHandle c"
    and "initialized (hs w (rq_obj r))"
  shows "\<exists>w'. pyuv__stream_write_cb py status r w = Some w' \<and> ok fr w'"
proof -
  from finish_req_ok [OF assms] obtain w2 where
    w2: "finish_req py status r w = Some w2" "ok (mset (rq_refs r) + fr) w2" by blast
  have "ok (mset (rq_views r) + (add_mset (rq_callback r) (mset_opt (rq_send_handle r) + add_mset (rq_obj r) fr))) w2"
    using w2(2) by (cases "rq_send_handle r") (simp_all add: rq_refs_def ac_simps add_mset_commute)
  from ok_DECREF [OF ok_write_dropped [OF this]] w2(1) show ?thesis
    by (auto simp: pyuv__stream_write_cb_def)
qed

lemma pyuv__stream_shutdown_cb_ok:
  assumes "ok (mset (rq_refs r) + fr) w" and "kind (objs w ! rq_obj r) = KHandle c"
    and "initialized (hs w (rq_obj r))" and "rq_views r = []" "rq_send_handle r = None"
  shows "\<exists>w'. pyuv__stream_shutdown_cb py status r w = Some w' \<and> ok fr w'"
proof -
  from finish_req_ok [OF assms(1-3)] obtain w2 where
    w2: "finish_req py status r w = Some w2" "ok (mset (rq_refs r) + fr) w2" by blast
  have "ok (add_mset (rq_callback r) (add_mset (rq_obj r) fr)) w2"
    using w2(2) assms(4,5) by (simp add: rq_refs_def add_mset_commute)
  from ok_DECREF [OF ok_DECREF [OF this]] w2(1) show ?thesis
    by (auto simp: pyuv__stream_shutdown_cb_def)
qed

end

end
