(* ===== verification/Stability.thy ===== *)
theory Stability
  imports Stream_Rules
begin

text \<open>
  Every method is \<open>undisturbed\<close>: whatever a program calls while one of its callbacks runs, the
  handle that the callback belongs to is found as the C code after the call expects it. The
  rules are one per building block of the methods; the collection \<open>stable\<close> gathers those
  for whole methods.
\<close>

section \<open>Building blocks\<close>

lemma stable_quiet: "uv_quiet w w' \<Longrightarrow> undisturbed w w'"
  by (auto simp: undisturbed_def uv_quiet_def valid_def intro: follows_quiet)

lemma stable_XDECREF: "undisturbed w (Py_XDECREF v w)"
  by (cases v) (simp_all add: Py_XDECREF_def stable_release)

lemma stable_put_slot:
  assumes "\<not> u_closed (uvh w x) \<or> s \<noteq> S_loop \<and> s \<noteq> S_on_close_cb"
  shows "undisturbed w (put_slot x s v w)"
  using assms
  by (auto simp: undisturbed_def put_slot_def valid_def upd_obj_nth upd_obj_kind split: if_splits)

lemma stable_assign_slot:
  assumes "\<not> u_closed (uvh w x) \<or> s \<noteq> S_loop \<and> s \<noteq> S_on_close_cb"
  shows "undisturbed w (assign_slot x s v w)"
  unfolding assign_slot_def Let_def
  by (rule stable_trans [OF stable_INCREF stable_trans [OF stable_put_slot stable_XDECREF]])
    (use assms in simp)

lemma stable_clear_slot:
  assumes "\<not> u_closed (uvh w x) \<or> s \<noteq> S_loop \<and> s \<noteq> S_on_close_cb"
  shows "undisturbed w (clear_slot x s w)"
  unfolding clear_slot_def Let_def
  by (rule stable_trans [OF stable_put_slot stable_XDECREF]) (use assms in simp)

lemma stable_hs:
  assumes "objs w' = objs w"
    and "\<And>h. initialized (hs w h) \<Longrightarrow> initialized (hs w' h) \<and> u_loop (uvh w' h) = u_loop (uvh w h) \<and>
      u_caught (uvh w' h) = u_caught (uvh w h) \<and> u_dispatched (uvh w' h) = u_dispatched (uvh w h) \<and>
      u_closed (uvh w' h) = u_closed (uvh w h)"
    and "\<And>h. u_closed (uvh w h) \<Longrightarrow> u_closed (uvh w' h)" "\<And>h. u_closing (uvh w h) \<Longrightarrow> u_closing (uvh w' h)"
    and "trace w' = trace w" "pend_grows w w'"
    and "\<And>h. initialized (hs w h) \<Longrightarrow> follows (uvh w h) (uvh w' h)"
    and "\<And>l. same_local (uvl w l) (uvl w' l)" "\<And>h. u_processing (uvh w' h) \<Longrightarrow> u_processing (uvh w h)"
  shows "undisturbed w w'"
  using assms by (auto simp: undisturbed_def valid_def)

lemma stable_upd_handle:
  assumes "\<And>h. uv (f h) = uv h" "\<And>h. initialized h \<Longrightarrow> initialized (f h)"
  shows "undisturbed w (upd_handle x f w)"
  by (rule stable_hs) (use assms in \<open>auto simp: upd_handle_def split: if_splits\<close>)

lemma stable_upd_uvl: "(\<And>lp. same_local lp (f lp)) \<Longrightarrow> undisturbed w (upd_uvl l f w)"
  by (rule stable_quiet) (simp add: uv_quiet_upd_uvl)

lemma stable_upd_Loop: "(\<And>L. same_local (lp L) (lp (f L))) \<Longrightarrow> undisturbed w (upd_Loop l f w)"
  by (rule stable_hs) (simp_all add: upd_Loop_def)

lemma stable_HANDLE_INCREF: "undisturbed w (PYUV_HANDLE_INCREF x w)"
  by (auto simp: PYUV_HANDLE_INCREF_def intro!: stable_trans [OF stable_upd_handle stable_INCREF])

lemma stable_HANDLE_DECREF: "undisturbed w (PYUV_HANDLE_DECREF x w)"
  by (auto simp: PYUV_HANDLE_DECREF_def intro!: stable_trans [OF stable_upd_handle stable_release])

lemma stable_uv_close: "undisturbed w (uv_close x cb w)"
proof -
  have "undisturbed w (upd_uv x (\<lambda>u. u\<lparr>u_closing := True, u_close_cb := Some cb\<rparr>) w)"
    by (rule stable_hs) (auto simp: upd_uv_def split: if_splits)
  from stable_trans [OF this stable_quiet [OF uv_close_quiet]] show ?thesis .
qed

lemma stable_req:
  assumes "\<not> u_closing (uvh w (rq_obj r))" and "rq_status r = None \<or> \<not> u_processing (uvh w (rq_obj r))"
  shows "undisturbed w (add_req r w)"
proof -
  have "pend_grows w (add_req r w)"
    unfolding pend_grows_def by (rule exI [of _ "[r]"]) (use assms in \<open>auto simp: add_req_def\<close>)
  then show ?thesis by (intro stable_hs) (simp_all add: add_req_def)
qed

text \<open>The struct of a handle that is not initialised may change in any way but to closed.\<close>

lemma stable_uninit:
  assumes "\<not> initialized (hs w x)" and "\<not> uv_is_closing x w" and "objs w' = objs w"
    and "pend w' = pend w" "trace w' = trace w" and "\<And>l. same_local (uvl w l) (uvl w' l)"
    and "\<And>h. h \<noteq> x \<Longrightarrow> hs w' h = hs w h" "u_processing (uvh w' x) \<Longrightarrow> u_processing (uvh w x)"
  shows "undisturbed w w'"
  by (rule stable_hs) (use assms in \<open>auto simp: uv_is_closing_def intro!: follows_same, metis+\<close>)

lemma stable_initialize_handle: 
  assumes "\<not> u_closed (uvh w x)"
  shows "undisturbed w (initialize_handle x l w)"
  unfolding initialize_handle_def Let_def
  by (rule stable_trans [OF stable_INCREF stable_trans [OF stable_put_slot
        stable_trans [OF stable_XDECREF stable_upd_handle]]])
    (use assms in simp_all)

section \<open>Methods\<close>

lemma uninit_not_closed: "ok fr w \<Longrightarrow> \<not> initialized (hs w x) \<Longrightarrow> \<not> uv_is_closing x w"
  using wf_handle_ok [OF okD(1), of fr w x] by (auto simp: handle_ok_def uv_is_closing_def)

lemmas stable_blocks = stable_quiet stable_XDECREF stable_release stable_INCREF stable_log_event
  stable_HANDLE_INCREF stable_HANDLE_DECREF stable_uv_close stable_req stable_upd_uvl stable_upd_Loop

lemma stable_started: "uv_quiet w w1 \<Longrightarrow> s \<noteq> S_loop \<Longrightarrow> s \<noteq> S_on_close_cb \<Longrightarrow>
    undisturbed w (PYUV_HANDLE_INCREF x (assign_slot x s v w1))"
  by (rule stable_trans [OF stable_quiet stable_trans [OF stable_assign_slot stable_HANDLE_INCREF]]) auto

lemma stable_stopped: "uv_quiet w w1 \<Longrightarrow> undisturbed w (PYUV_HANDLE_DECREF x w1)"
  by (rule stable_trans [OF stable_quiet stable_HANDLE_DECREF])

lemma stable_stopped_clear: "uv_quiet w w1 \<Longrightarrow> s \<noteq> S_loop \<Longrightarrow> s \<noteq> S_on_close_cb \<Longrightarrow>
    undisturbed w (PYUV_HANDLE_DECREF x (clear_slot x s w1))"
  by (rule stable_trans [OF stable_quiet stable_trans [OF stable_clear_slot stable_HANDLE_DECREF]]) auto

lemma stable_initialized:
  assumes "\<not> initialized (hs w x)" and "\<not> uv_is_closing x w" and "objs w1 = objs w"
    and "pend w1 = pend w" "trace w1 = trace w" and "\<And>l. same_local (uvl w l) (uvl w1 l)"
    and "uv_local x w w1" and "\<not> u_closed (uvh w1 x)" "u_processing (uvh w1 x) \<Longrightarrow> u_processing (uvh w x)"
  shows "undisturbed w (initialize_handle x l w1)"
  by (rule stable_trans [OF stable_uninit [OF assms(1-6)] stable_initialize_handle [OF assms(8)]])
    (use assms(7,9) in \<open>simp_all add: uv_local_def\<close>)

lemma uv_local_init [local_steps]:
  "uv_local x w (uv__handle_init l x t w)" "uv_local x w (snd (uv_async_init os l x w))"
  by (auto simp: uv_async_init_def Let_def uv__handle_init_def intro!: local_steps)

lemma stable_watcher_init:
  assumes "\<not> initialized (hs w x)" and "\<not> uv_is_closing x w"
  shows "undisturbed w (initialize_handle x l (uv__handle_init l x t w))"
  by (rule stable_initialized [OF assms]) (simp_all add: uv_defs uv_local_init)

lemma stable_tp_init [stable]:
  assumes "ok fr w"
  shows "undisturbed w (snd (Idle_tp_init x args w))" "undisturbed w (snd (Prepare_tp_init x args w))"
    "undisturbed w (snd (Check_tp_init x args w))" "undisturbed w (snd (Timer_tp_init x args w))"
    "undisturbed w (snd (Signal_tp_init os x args2 w))" "undisturbed w (snd (Poll_tp_init os x args3 w))"
    "undisturbed w (snd (SignalChecker_tp_init os x args3 w))"
  using uninit_not_closed [OF assms, of x] stable_watcher_init
  by (auto simp: Idle_tp_init_def Prepare_tp_init_def Check_tp_init_def Timer_tp_init_def Signal_tp_init_def
      Poll_tp_init_def SignalChecker_tp_init_def guard_defs uv_idle_init_def uv_prepare_init_def
      uv_check_init_def uv_timer_init_def uv_signal_init_def uv_poll_init_socket_def uv_defs uv_is_closing_def
      split: sum.splits intro!: stable_initialized local_steps)

lemma async_init_frame [simp]:
  "objs (snd (uv_async_init os l x w)) = objs w" "pend (snd (uv_async_init os l x w)) = pend w"
  "trace (snd (uv_async_init os l x w)) = trace w"
  "same_local (uvl w m) (uvl (snd (uv_async_init os l x w)) m)"
  "u_processing (uvh (snd (uv_async_init os l x w)) y) \<Longrightarrow> u_processing (uvh w y)"
  by (auto simp: uv_async_init_def Let_def uv_defs split: if_splits)

lemma stable_async_init:
  assumes "\<not> initialized (hs w x)" and "\<not> uv_is_closing x w"
  shows "undisturbed w (snd (uv_async_init os l x w))"
    "undisturbed w (initialize_handle x l (put_slot x S_callback (Some c) (Py_INCREF c (snd (uv_async_init os l x w)))))"
proof -
  have n: "\<not> u_closed (uvh (snd (uv_async_init os l x w)) x)"
    using assms by (simp add: uv_async_init_def Let_def uv_defs uv_is_closing_def)
  show u: "undisturbed w (snd (uv_async_init os l x w))"
    by (rule stable_uninit [OF assms]) (use uv_local_init(2) [where x = x and w = w and os = os] async_init_frame(5) [of os l x w] in \<open>auto simp: uv_local_def\<close>)
  show "undisturbed w (initialize_handle x l (put_slot x S_callback (Some c) (Py_INCREF c (snd (uv_async_init os l x w)))))"
    by (rule stable_trans [OF u stable_trans [OF stable_INCREF
            stable_trans [OF stable_put_slot stable_initialize_handle]]]) (use n in simp_all)
qed

lemma stable_Async_tp_init [stable]:
  assumes "ok fr w"
  shows "undisturbed w (snd (Async_tp_init os x args w))"
proof (cases "initialized (hs w x)")
  case True
  then show ?thesis by (simp add: Async_tp_init_def guard_defs)
next
  case False
  from stable_async_init [OF False uninit_not_closed [OF assms False], where os = os] show ?thesis
    by (auto simp: Async_tp_init_def guard_defs Let_def split: sum.splits prod.splits) (metis snd_conv)+
qed

text \<open>What libuv does in a \<open>start\<close> or a \<open>stop\<close> is quiet.\<close>

lemma quiet_results:
  "uv_idle_start x w = (e, w1) \<Longrightarrow> uv_quiet w w1" "uv_prepare_start x w = (e, w1) \<Longrightarrow> uv_quiet w w1"
  "uv_check_start x w = (e, w1) \<Longrightarrow> uv_quiet w w1"
  "uv_timer_start x t r w = (e, w1) \<Longrightarrow> uv_quiet w w1" "uv_timer_again x w = (e, w1) \<Longrightarrow> uv_quiet w w1"
  "uv_async_send x w = (e, w1) \<Longrightarrow> uv_quiet w w1" "uv_signal_start os x n w = (e, w1) \<Longrightarrow> uv_quiet w w1"
  by (metis snd_conv uv_quiet_refl uv_quiet_watcher(1) loop_queues(1-3) uv_quiet_timer_start uv_quiet_timer(1) uv_quiet_misc(1,3))+

lemma quiet_stops:
  "unlink_queue fld \<Longrightarrow> uv_quiet w (uv_watcher_stop fld x w)" "uv_quiet w (uv_timer_stop x w)" "uv_quiet w (uv__signal_stop x w)"
  "uv_quiet w (uv__poll_stop x w)" "uv_quiet w (uv_read_stop x w)" "uv_quiet w (uv_timer_set_repeat x r w)"
  "uv_quiet w (uv_ref x w)" "uv_quiet w (uv_unref x w)"
  by (simp_all add: quiet)

lemmas method_steps = stable_started stable_stopped stable_stopped_clear stable_quiet quiet_results
  quiet_stops uv_quiet_poll_start uv_quiet_read_start

lemma stable_watchers [stable]:
  "undisturbed w (snd (Idle_func_start x args w))" "undisturbed w (snd (Idle_func_stop x w))"
  "undisturbed w (snd (Prepare_func_start x args w))" "undisturbed w (snd (Prepare_func_stop x w))"
  "undisturbed w (snd (Check_func_start x args w))" "undisturbed w (snd (Check_func_stop x w))"
  by (auto simp: Idle_func_start_def Idle_func_stop_def Prepare_func_start_def Prepare_func_stop_def
      Check_func_start_def Check_func_stop_def guard_defs split: sum.splits prod.splits
      intro!: stable_started stable_stopped_clear quiet_stops intro: quiet_results stable_quiet)

lemma stable_Timer [stable]:
  "undisturbed w (snd (Timer_func_start ub x args1 w))" "undisturbed w (snd (Timer_func_stop x w))"
  "undisturbed w (snd (Timer_func_again x w))" "undisturbed w (snd (Timer_repeat_set ub x args2 w))"
  by (auto simp: Timer_func_start_def Timer_func_stop_def Timer_func_again_def Timer_repeat_set_def
      guard_defs Let_def split: sum.splits prod.splits option.splits
      intro!: stable_started stable_stopped stable_stopped_clear quiet_stops
      intro: quiet_results stable_quiet)

lemma stable_event_handles [stable]:
  "undisturbed w (snd (Async_func_send x w))"
  "undisturbed w (snd (Signal_func_start os x args1 w))" "undisturbed w (snd (Signal_func_stop x w))"
  "undisturbed w (snd (Poll_func_start x args2 w))"
  "undisturbed w (snd (SignalChecker_func_start x w))" "undisturbed w (snd (SignalChecker_func_stop x w))"
  by (auto simp: Async_func_send_def Signal_func_start_def Signal_func_stop_def Poll_func_start_def
      SignalChecker_func_start_def SignalChecker_func_stop_def
      guard_defs Let_def split: sum.splits prod.splits option.splits
      intro!: stable_started stable_stopped stable_stopped_clear quiet_stops
      intro: quiet_results stable_quiet uv_quiet_poll_start stable_trans [OF stable_quiet stable_HANDLE_INCREF])

lemma stable_Poll_func_stop [stable]: "undisturbed w (snd (Poll_func_stop x w))"
  by (simp add: Poll_func_stop_def guard_defs stable_stopped_clear quiet_stops)

lemma stable_Handle [stable]:
  "undisturbed w (snd (Handle_func_close x args1 w))" "undisturbed w (snd (Handle_ref_set x args2 w))"
  "undisturbed w (snd (Handle_tp_new c w))" "undisturbed w (snd (Handle_dict_set x val d w))"
  using undisturbed_GenericNew [of w "KHandle c"]
  by (auto simp: Handle_func_close_def Handle_ref_set_def Handle_tp_new_def Handle_dict_set_def guard_defs
      Let_def uv_is_closing_def split: sum.splits prod.splits option.splits
      intro!: stable_assign_slot stable_trans [OF stable_INCREF stable_trans [OF stable_put_slot
        stable_trans [OF stable_INCREF stable_uv_close]]] intro: stable_quiet quiet_stops)

lemma stable_dict_get [stable]:
  "undisturbed w (snd (Handle_dict_get x w))" "undisturbed w (snd (Loop_dict_get x w))"
  using undisturbed_GenericNew [of w "KObject False"]
  by (auto simp: Handle_dict_get_def Loop_dict_get_def Let_def stable_INCREF split: option.splits prod.splits
      intro!: stable_trans [OF _ stable_trans [OF stable_put_slot stable_INCREF]])

lemma stable_fresh_loop:
  assumes "undisturbed w w1" and "length (objs w) \<le> l"
  shows "undisturbed w (upd_Loop l f w1)"
  using assms by (auto simp: undisturbed_def upd_Loop_def valid_def pend_grows_def)

lemma stable_new_loop [stable]: "undisturbed w (snd (new_loop os now na d w))"
proof -
  obtain x w1 where n: "PyType_GenericNew KLoop w = (x, w1)" by fastforce
  then have x: "length (objs w) \<le> x" by (simp add: PyType_GenericNew_def)
  have u: "undisturbed w w1" using undisturbed_GenericNew [of w KLoop] n by simp
  show ?thesis
    using n by (auto simp: new_loop_def uv_loop_init_def Let_def
        intro!: stable_trans [OF stable_fresh_loop [OF u x] stable_release] stable_fresh_loop x u)
qed

lemma stable_Loop [stable]:
  "undisturbed w (snd (Loop_func_stop l w))" "undisturbed w (snd (Loop_func_update_time now l w))"
  "undisturbed w (snd (Loop_dict_set l val d w))" "undisturbed w (snd (Loop_func_excepthook l args w))"
  by (auto simp: Loop_func_stop_def Loop_func_update_time_def Loop_dict_set_def Loop_func_excepthook_def
      guard_defs split: option.splits sum.splits
      intro!: stable_upd_uvl stable_assign_slot stable_log_event)

lemma stable_fold_release: "undisturbed w w' \<Longrightarrow> undisturbed w (release xs w')"
  by (rule stable_trans [OF _ stable_release])

lemma stable_Stream_read [stable]:
  "undisturbed w (snd (Stream_func_start_read x args w))" "undisturbed w (snd (Stream_func_stop_read x w))"
  by (auto simp: Stream_func_start_read_def Stream_func_stop_read_def guard_defs
      split: sum.splits option.splits
      intro!: stable_started stable_stopped_clear quiet_stops intro: stable_quiet uv_quiet_read_start)

lemma stable_shutting_down: "undisturbed w (shutting_down h w)"
  unfolding shutting_down_def by (rule stable_hs) (auto simp: upd_uv_def split: if_splits)

lemma stable_Stream_shutdown [stable]: "undisturbed w (snd (Stream_func_shutdown mem x args w))"
proof -
  have "undisturbed w w2" "err < 0 \<Longrightarrow> undisturbed w (Py_DECREF c w2)"
    "\<not> err < 0 \<Longrightarrow> rq_obj r = x \<Longrightarrow> rq_status r = None \<Longrightarrow> undisturbed w (add_req r (Py_INCREF x w2))"
    if s: "uv_shutdown x (Py_INCREF c w) = Some (err, w2)" for c err w2 r
  proof -
    let ?w1 = "uv__req_register (loop_of w x) (Py_INCREF c w)"
    have "uv_quiet (Py_INCREF c w) ?w1" by (simp add: quiet)
    from stable_trans [OF stable_INCREF stable_quiet [OF this]] have u1: "undisturbed w ?w1" .
    show u: "undisturbed w w2"
      using uv_shutdown_cases(2) [OF s] stable_trans [OF u1 stable_shutting_down] stable_INCREF by auto
    show "undisturbed w (Py_DECREF c w2)" by (rule stable_trans [OF u stable_release])
    show "undisturbed w (add_req r (Py_INCREF x w2))" if "\<not> err < 0" "rq_obj r = x" "rq_status r = None"
    proof -
      have n: "\<not> u_closing (uvh w x)" "w2 = shutting_down x ?w1"
        using uv_shutdown_cases(2) [OF s] that(1) by (auto simp: UV_ENOTCONN_def)
      have "\<not> u_closing (uvh (Py_INCREF x w2) (rq_obj r))"
        using n that(2) by (simp add: shutting_down_def uv_defs uv__req_register_def)
      from stable_trans [OF stable_trans [OF u stable_INCREF] stable_req [OF this]] that(3) show ?thesis by simp
    qed
  qed
  then show ?thesis
    by (auto simp: Stream_func_shutdown_def guard_defs Let_def stable_INCREF split: sum.splits option.splits)
qed

text \<open>A write that is queued adds a request of the stream, which is not closing.\<close>

lemma stable_queued:
  assumes u: "undisturbed w w1" and c: "\<not> u_closing (uvh w1 x)" and s: "uv_write2 ipc b x s w1 = Some (e, w2)"
    and r: "rq_obj r = x" "rq_status r = None"
  shows "undisturbed w (add_req r (Py_INCREF x w2))"
proof -
  have q: "uv_quiet w1 w2" by (rule write_quiet [OF s])
  have u2: "undisturbed w w2" by (rule stable_trans [OF u stable_quiet [OF q]])
  have "\<not> u_closing (uvh (Py_INCREF x w2) (rq_obj r))" using q c r by (simp add: uv_quiet_def)
  from stable_trans [OF stable_trans [OF u2 stable_INCREF] stable_req [OF this]] r(2)
  show "undisturbed w (add_req r (Py_INCREF x w2))" by simp
qed

lemma stable_write_bytes:
  assumes c: "\<not> u_closing (uvh w x)"
  shows "undisturbed w (snd (pyuv__stream_write_bytes mem bok ipc b x d cb s w))"
proof -
  let ?w1 = "fold Py_INCREF (d # cb # opt_list s) w"
  have f: "undisturbed w ?w1" by (rule stable_fold_INCREF)
  have c1: "\<not> u_closing (uvh ?w1 x)" using c by simp
  have "undisturbed w (Py_DECREF d (Py_XDECREF s (Py_DECREF cb w2)))"
    if "uv_write2 ipc b x s ?w1 = Some (e, w2)" for e w2
  proof -
    have u: "undisturbed w w2" by (rule stable_trans [OF f stable_quiet [OF write_quiet [OF that]]])
    show ?thesis
      by (rule stable_trans [OF u stable_trans [OF stable_release stable_trans [OF stable_XDECREF stable_release]]])
  qed
  moreover have "undisturbed w (add_req \<lparr>rq_type = WriteReq, rq_obj = x, rq_callback = cb,
      rq_send_handle = s, rq_views = [d], rq_status = None\<rparr> (Py_INCREF x w2))"
    if "uv_write2 ipc b x s ?w1 = Some (e, w2)" for e w2
    by (rule stable_queued [OF f c1 that]) simp_all
  ultimately show ?thesis using f
    by (auto simp: pyuv__stream_write_bytes_def Let_def split: option.splits)
qed

lemma stable_PySequence_Fast: "undisturbed w (snd (PySequence_Fast fast d w))"
  by (simp add: PySequence_Fast_def stable_INCREF undisturbed_GenericNew)

lemma stable_write_sequence:
  assumes c: "\<not> u_closing (uvh w x)" and v: "x < length (objs w)"
  shows "undisturbed w (snd (pyuv__stream_write_sequence mem bok ipc b x d fast items cb s w))"
proof -
  obtain df w0 where f: "PySequence_Fast fast d w = (df, w0)" by fastforce
  have u0: "undisturbed w w0" using stable_PySequence_Fast [of w fast d] f by simp
  have c0: "hs w0 x = hs w x"
    using f v by (auto simp: PySequence_Fast_def PyType_GenericNew_def split: if_splits)
  let ?w1 = "fold Py_INCREF (takeWhile bok items) w0"
  let ?w2 = "fold Py_INCREF (cb # opt_list s) ?w1"
  have u1: "undisturbed w ?w1" by (rule stable_trans [OF u0 stable_fold_INCREF])
  have u2: "undisturbed w ?w2" by (rule stable_trans [OF u1 stable_fold_INCREF])
  have c2: "\<not> u_closing (uvh ?w2 x)" using c c0 by simp
  have rel: "undisturbed w (Py_DECREF df (release ys v))" if "undisturbed w v" for v ys
    by (rule stable_trans [OF that stable_trans [OF stable_release stable_release]])
  have "undisturbed w (Py_DECREF df (release items (Py_XDECREF s (Py_DECREF cb w3))))"
    if "uv_write2 ipc b x s ?w2 = Some (e, w3)" for e w3
    by (rule rel, rule stable_trans [OF stable_trans [OF u2 stable_quiet [OF write_quiet [OF that]]] stable_trans [OF stable_release stable_XDECREF]])
  moreover have "undisturbed w (add_req \<lparr>rq_type = WriteReq, rq_obj = x, rq_callback = cb,
      rq_send_handle = s, rq_views = items, rq_status = None\<rparr> (Py_INCREF x w3))"
    if "uv_write2 ipc b x s ?w2 = Some (e, w3)" for e w3
    by (rule stable_queued [OF u2 c2 that]) simp_all
  moreover have "undisturbed w (Py_DECREF df w0)" by (rule stable_trans [OF u0 stable_release])
  ultimately show ?thesis using f u1 u2 rel [OF u1]
    by (auto simp: pyuv__stream_write_sequence_def Let_def split: option.splits)
qed

text \<open>\<open>write\<close>: the guard refuses a stream that is closing.\<close>

lemma stable_Stream_func_write [stable]:
  assumes "x < length (objs w)"
  shows "undisturbed w (snd (Stream_func_write mem bok b x args w))"
  using stable_write_bytes [of w x] stable_write_sequence [of w x, OF _ assms]
  by (auto simp: Stream_func_write_def guard_defs Let_def uv_is_closing_def split: sum.splits data_arg.splits option.splits)

lemma stable_Stream_func_try_write [stable]: "undisturbed w (snd (Stream_func_try_write r x args w))"
  by (auto simp: Stream_func_try_write_def guard_defs Let_def split: sum.splits
      intro: stable_trans [OF stable_INCREF stable_release])

end
