(* ===== verification/Api_Base.thy ===== *)
theory Api_Base
  imports Stability
begin

text \<open>
  What the calls of the extension share: how a method is found on an object, what a call returns,
  and what it means that a call keeps the invariant.
\<close>

text \<open>The objects a call names: the program must have a reference to each.\<close>

abbreviation arg_names :: "('a \<Rightarrow> oid list) \<Rightarrow> 'a args \<Rightarrow> oid list" where
  "arg_names f a \<equiv> (case a of Inl e \<Rightarrow> [] | Inr v \<Rightarrow> f v)"

text \<open>
  A method is found on an object of its type only, and \<open>PyArg_ParseTuple\<close> checks a loop
  argument against \<open>LoopType\<close>. \<open>Some x\<close> is a new reference that the call returns.
\<close>

definition as_none :: "'a result \<times> world \<Rightarrow> oid option result \<times> world" where
  "as_none p = (case fst p of Ok _ \<Rightarrow> Ok None | Raise e \<Rightarrow> Raise e | Abort \<Rightarrow> Abort, snd p)"

definition as_some :: "oid result \<times> world \<Rightarrow> oid option result \<times> world" where
  "as_some p = (case fst p of Ok x \<Rightarrow> Ok (Some x) | Raise e \<Rightarrow> Raise e | Abort \<Rightarrow> Abort, snd p)"

definition on_class :: "(hclass \<Rightarrow> bool) \<Rightarrow> oid \<Rightarrow> world \<Rightarrow> oid option result \<times> world \<Rightarrow> oid option result \<times> world" where
  "on_class P x w k =
     (case kind (objs w ! x) of KHandle c \<Rightarrow> if P c then k else (Raise OtherError, w)
      | _ \<Rightarrow> (Raise OtherError, w))"

definition on_loop :: "oid \<Rightarrow> world \<Rightarrow> oid option result \<times> world \<Rightarrow> oid option result \<times> world" where
  "on_loop l w k = (if kind (objs w ! l) = KLoop then k else (Raise OtherError, w))"

definition loop_arg :: "('a \<Rightarrow> oid) \<Rightarrow> world \<Rightarrow> 'a args \<Rightarrow> 'a args" where
  "loop_arg f w a = (case a of Inl e \<Rightarrow> Inl e
     | Inr v \<Rightarrow> if kind (objs w ! f v) = KLoop then Inr v else Inl TypeError)"

text \<open>\<open>keeps fr w p\<close>: unless the process aborted the invariant holds, with the result in the frame.\<close>

definition keeps :: "oid multiset \<Rightarrow> world \<Rightarrow> oid option result \<times> world \<Rightarrow> bool" where
  "keeps fr w p \<longleftrightarrow> undisturbed w (snd p) \<and>
     (case fst p of Ok r \<Rightarrow> ok (mset_opt r + fr) (snd p) | Raise e \<Rightarrow> ok fr (snd p) | Abort \<Rightarrow> True)"

lemma keeps_none: "undisturbed w (snd p) \<Longrightarrow> ok fr (snd p) \<or> fst p = Abort \<Longrightarrow> keeps fr w (as_none p)"
  by (auto simp: keeps_def as_none_def split: result.splits)

lemma keeps_some: "undisturbed w (snd p) \<Longrightarrow>
    (case fst p of Ok x \<Rightarrow> ok (add_mset x fr) (snd p) | Raise e \<Rightarrow> ok fr (snd p) | Abort \<Rightarrow> True) \<Longrightarrow>
    keeps fr w (as_some p)"
  by (auto simp: keeps_def as_some_def split: result.splits)

lemma keeps_on_class:
  assumes "ok fr w" and "\<And>c. kind (objs w ! x) = KHandle c \<Longrightarrow> P c \<Longrightarrow> keeps fr w k"
  shows "keeps fr w (on_class P x w k)"
  using assms by (auto simp: on_class_def keeps_def split: kind.splits)

lemma keeps_on_loop:
  assumes "ok fr w" and "kind (objs w ! l) = KLoop \<Longrightarrow> keeps fr w k"
  shows "keeps fr w (on_loop l w k)"
  using assms by (auto simp: on_loop_def keeps_def)

lemma loop_argD: "loop_arg f w a = Inr v \<Longrightarrow> a = Inr v \<and> kind (objs w ! f v) = KLoop"
  by (auto simp: loop_arg_def split: sum.splits if_splits)

lemma held_loop: "ok fr w \<Longrightarrow> held fr w l \<Longrightarrow> kind (objs w ! l) = KLoop \<Longrightarrow> is_loop w l"
  using held_valid [OF okD(1)] by (auto simp: is_loop_def)

end
