(* ===== verification/Addresses.thy ===== *)
theory Addresses
  imports Pyuv_Prelude
begin

text \<open>
  Addresses: the text form of IPv4 and IPv6 addresses (deps/libuv/src/inet.c), and the
  conversion between a Python address tuple and a \<open>struct sockaddr\<close>
  (\<open>pyuv_parse_addr_tuple\<close> and \<open>makesockaddr\<close> of src/common.c). The host is little-endian.
\<close>

section \<open>Digits\<close>

definition digit :: "nat \<Rightarrow> char" where
  "digit n = char_of (48 + n)"

definition digit_val :: "char \<Rightarrow> nat option" where
  "digit_val c = (let n = of_char c :: nat in if 48 \<le> n \<and> n \<le> 57 then Some (n - 48) else None)"

definition xdigit :: "nat \<Rightarrow> char" where
  "xdigit n = char_of (if n < 10 then 48 + n else 87 + n)"

definition xdigit_val :: "char \<Rightarrow> nat option" where
  "xdigit_val c = (let n = of_char c :: nat in
     if 48 \<le> n \<and> n \<le> 57 then Some (n - 48)
     else if 97 \<le> n \<and> n \<le> 102 then Some (n - 87)
     else if 65 \<le> n \<and> n \<le> 70 then Some (n - 55)
     else None)"

text \<open>\<open>%u\<close> and \<open>%x\<close> of \<open>printf\<close>.\<close>

fun dec :: "nat \<Rightarrow> string" where
  "dec n = (if n < 10 then [digit n] else dec (n div 10) @ [digit (n mod 10)])"

fun hex :: "nat \<Rightarrow> string" where
  "hex n = (if n < 16 then [xdigit n] else hex (n div 16) @ [xdigit (n mod 16)])"

declare dec.simps [simp del] hex.simps [simp del]

section \<open>IPv4 (inet.c)\<close>

type_synonym bytes = "8 word list"

text \<open>
  The loop of \<open>inet_pton4\<close>: \<open>saw\<close> is \<open>saw_digit\<close>, \<open>tmp\<close> the octets written so far with the one
  under \<open>tp\<close> first.
\<close>

fun pton4_loop :: "string \<Rightarrow> bool \<Rightarrow> nat \<Rightarrow> nat list \<Rightarrow> nat list option" where
  "pton4_loop [] saw octets tmp = (if octets < 4 then None else Some (rev tmp))"
| "pton4_loop (ch # src) saw octets [] = None"
| "pton4_loop (ch # src) saw octets (cur # tmp) =
     (case digit_val ch of
        Some d \<Rightarrow>
          let nw = cur * 10 + d
          in if saw \<and> cur = 0 then None
             else if nw > 255 then None
             else if \<not> saw then
               (if octets + 1 > 4 then None else pton4_loop src True (octets + 1) (nw # tmp))
             else pton4_loop src True octets (nw # tmp)
      | None \<Rightarrow>
          if ch = CHR ''.'' \<and> saw then
            (if octets = 4 then None else pton4_loop src False octets (0 # cur # tmp))
          else None)"

definition inet_pton4 :: "string \<Rightarrow> bytes option" where
  "inet_pton4 src = map_option (map of_nat) (pton4_loop src False 0 [0])"

definition inet_ntop4 :: "bytes \<Rightarrow> string" where
  "inet_ntop4 src = concat [dec (unat (src ! 0)), ''.'', dec (unat (src ! 1)), ''.'',
     dec (unat (src ! 2)), ''.'', dec (unat (src ! 3))]"

section \<open>IPv6 (inet.c)\<close>

text \<open>
  The loop of \<open>inet_pton6\<close>. \<open>out\<close>: the bytes written so far; \<open>colon\<close>: how many there were when
  the double colon was seen; \<open>seen\<close>: \<open>seen_xdigits\<close>; \<open>curtok\<close>: the token that started last.
  The result is the state after the loop.
\<close>

definition word_bytes :: "nat \<Rightarrow> bytes" where
  "word_bytes v = [of_nat (v div 256), of_nat v]"

fun pton6_loop :: "string \<Rightarrow> string \<Rightarrow> bytes \<Rightarrow> nat option \<Rightarrow> nat \<Rightarrow> nat \<Rightarrow> (bytes \<times> nat option \<times> nat \<times> nat) option" where
  "pton6_loop [] curtok out colon seen val = Some (out, colon, seen, val)"
| "pton6_loop (ch # src) curtok out colon seen val =
     (case xdigit_val ch of
        Some d \<Rightarrow>
          if seen + 1 > 4 then None
          else pton6_loop src curtok out colon (seen + 1) (val * 16 + d)
      | None \<Rightarrow>
          if ch = CHR '':'' then
            (if seen = 0 then
               (if colon \<noteq> None then None else pton6_loop src src out (Some (length out)) seen val)
             else if src = [] then None
             else if length out + 2 > 16 then None
             else pton6_loop src src (out @ word_bytes val) colon 0 0)
          else if ch = CHR ''.'' \<and> length out + 4 \<le> 16 then
            (case inet_pton4 curtok of
               Some v4 \<Rightarrow> Some (out @ v4, colon, 0, 0)
             | None \<Rightarrow> None)
          else None)"

text \<open>After the loop: the last group, then the double colon is expanded.\<close>

definition inet_pton6 :: "string \<Rightarrow> bytes option" where
  "inet_pton6 src =
     (case (case src of
              c # rest \<Rightarrow> if c = CHR '':'' then (case rest of d # _ \<Rightarrow> if d = CHR '':'' then Some rest else None | [] \<Rightarrow> None)
                          else Some src
            | [] \<Rightarrow> Some src) of
        None \<Rightarrow> None
      | Some s \<Rightarrow>
          case pton6_loop s s [] None 0 0 of
            None \<Rightarrow> None
          | Some (out, colon, seen, val) \<Rightarrow>
              if seen \<noteq> 0 \<and> length out + 2 > 16 then None
              else let out = (if seen \<noteq> 0 then out @ word_bytes val else out)
                   in case colon of
                        Some c \<Rightarrow>
                          if length out = 16 then None
                          else Some (take c out @ replicate (16 - length out) 0 @ drop c out)
                      | None \<Rightarrow> if length out = 16 then Some out else None)"

text \<open>
  \<open>inet_ntop6\<close>: the words, the longest run of zero words (the first of the longest), and the
  text; \<open>best\<close> is \<open>None\<close> for a base of -1.
\<close>

definition words6 :: "bytes \<Rightarrow> nat list" where
  "words6 src = map (\<lambda>i. unat (src ! (2 * i)) * 256 + unat (src ! (2 * i + 1))) [0..<8]"

text \<open>A run is its base and its length.\<close>

definition better :: "(nat \<times> nat) option \<Rightarrow> (nat \<times> nat) option \<Rightarrow> (nat \<times> nat) option" where
  "better best cur =
     (case cur of None \<Rightarrow> best
      | Some c \<Rightarrow> (case best of None \<Rightarrow> Some c | Some b \<Rightarrow> if snd c > snd b then Some c else Some b))"

fun runs6 :: "nat list \<Rightarrow> nat \<Rightarrow> (nat \<times> nat) option \<Rightarrow> (nat \<times> nat) option \<Rightarrow> (nat \<times> nat) option" where
  "runs6 [] i best cur = better best cur"
| "runs6 (v # vs) i best cur =
     (if v = 0 then runs6 vs (i + 1) best (case cur of None \<Rightarrow> Some (i, 1) | Some (b, n) \<Rightarrow> Some (b, n + 1))
      else runs6 vs (i + 1) (better best cur) None)"

definition best_run :: "nat list \<Rightarrow> (nat \<times> nat) option" where
  "best_run ws =
     (case runs6 ws 0 None None of Some (b, n) \<Rightarrow> if n < 2 then None else Some (b, n) | None \<Rightarrow> None)"

fun ntop6_loop :: "bytes \<Rightarrow> nat list \<Rightarrow> (nat \<times> nat) option \<Rightarrow> nat list \<Rightarrow> string" where
  "ntop6_loop src ws best [] = []"
| "ntop6_loop src ws best (i # is) =
     (case best of
        Some (b, n) \<Rightarrow>
          if b \<le> i \<and> i < b + n then (if i = b then '':'' else []) @ ntop6_loop src ws best is
          else (if i \<noteq> 0 then '':'' else []) @
               (if i = 6 \<and> b = 0 \<and> (n = 6 \<or> (n = 7 \<and> ws ! 7 \<noteq> 1) \<or> (n = 5 \<and> ws ! 5 = 65535))
                then inet_ntop4 (drop 12 src)
                else hex (ws ! i) @ ntop6_loop src ws best is)
      | None \<Rightarrow> (if i \<noteq> 0 then '':'' else []) @ hex (ws ! i) @ ntop6_loop src ws best is)"

definition inet_ntop6 :: "bytes \<Rightarrow> string" where
  "inet_ntop6 src =
     (let ws = words6 src; best = best_run ws
      in ntop6_loop src ws best [0..<8] @
         (case best of Some (b, n) \<Rightarrow> if b + n = 8 then '':'' else [] | None \<Rightarrow> []))"

text \<open>\<open>uv_inet_pton\<close> drops a zone of an IPv6 address; the buffer holds 45 characters.\<close>

definition uv_inet_pton6 :: "string \<Rightarrow> bytes option" where
  "uv_inet_pton6 src =
     (if CHR ''%'' \<in> set src then
        let s = takeWhile (\<lambda>c. c \<noteq> CHR ''%'') src in if length s > 45 then None else inet_pton6 s
      else inet_pton6 src)"

section \<open>Address tuples (common.c)\<close>

text \<open>\<open>sin_port\<close>, \<open>sin6_port\<close> and \<open>sin6_flowinfo\<close> are stored in network order.\<close>

datatype sockaddr =
    AF_INET (sin_port: "16 word") (sin_addr: bytes)
  | AF_INET6 (sin6_port: "16 word") (sin6_addr: bytes) (sin6_flowinfo: "32 word") (sin6_scope: "32 word")
  | AF_OTHER int

definition htons :: "16 word \<Rightarrow> 16 word" where
  "htons x = or (push_bit 8 x) (drop_bit 8 x)"

definition htonl :: "32 word \<Rightarrow> 32 word" where
  "htonl x = or (or (push_bit 24 x) (push_bit 8 (and x 0xFF00)))
     (or (drop_bit 8 (and x 0xFF0000)) (drop_bit 24 x))"

text \<open>The address argument: not a tuple, or what \<open>PyArg_ParseTuple\<close> makes of it.\<close>

datatype addr_arg = NotTuple | BadTuple pyexc | AddrTuple string int "32 word" "32 word"

definition pyuv_parse_addr_tuple :: "addr_arg \<Rightarrow> pyexc + sockaddr" where
  "pyuv_parse_addr_tuple addr =
     (case addr of
        NotTuple \<Rightarrow> Inl TypeError
      | BadTuple e \<Rightarrow> Inl e
      | AddrTuple host port flowinfo scope_id \<Rightarrow>
          if port < 0 \<or> port > 0xffff then Inl OverflowError
          else if flowinfo > 0xfffff then Inl OverflowError
          else let sport = htons (word_of_int port)
               in if host = [] then Inr (AF_INET sport [0, 0, 0, 0])
                  else if host = ''<broadcast>'' then Inr (AF_INET sport [255, 255, 255, 255])
                  else case inet_pton4 host of
                         Some a \<Rightarrow> Inr (AF_INET sport a)
                       | None \<Rightarrow>
                           case uv_inet_pton6 host of
                             Some a \<Rightarrow> Inr (AF_INET6 sport a flowinfo scope_id)
                           | None \<Rightarrow> Inl ValueError)"

text \<open>What Python gets; \<open>NoAddress\<close> is \<open>None\<close>.\<close>

datatype py_addr = Addr4 string int | Addr6 string int int int | NoAddress

definition makesockaddr :: "sockaddr \<Rightarrow> py_addr" where
  "makesockaddr addr =
     (case addr of
        AF_INET port a \<Rightarrow> Addr4 (inet_ntop4 a) (uint (htons port))
      | AF_INET6 port a flow scope \<Rightarrow> Addr6 (inet_ntop6 a) (uint (htons port)) (uint (htonl flow)) (uint scope)
      | AF_OTHER f \<Rightarrow> NoAddress)"

section \<open>IPv4 text is parsed exactly\<close>

lemma digit_val_digit [simp]: "n < 10 \<Longrightarrow> digit_val (digit n) = Some n"
  by (simp add: digit_def digit_val_def Let_def)

lemma digit_val_Some: "digit_val c = Some d \<Longrightarrow> c = digit d \<and> d < 10"
  by (auto simp: digit_def digit_val_def Let_def split: if_splits)

lemma digit_val_dot [simp]: "digit_val CHR ''.'' = None"
  by (simp add: digit_val_def)

lemma dec_digit: "n < 10 \<Longrightarrow> dec n = [digit n]"
  by (simp add: dec.simps [of n])

lemma dec_snoc: "0 < n \<Longrightarrow> d < 10 \<Longrightarrow> dec (n * 10 + d) = dec n @ [digit d]"
  by (simp add: dec.simps [of "n * 10 + d"])

lemma two_digits: "n div 100 * 10 + n div 10 mod 10 = n div (10::nat)"
proof -
  have "n div 100 = n div 10 div 10" by (simp add: div_mult2_eq [symmetric])
  then show ?thesis by (metis div_mult_mod_eq)
qed

lemma dec_cases:
  assumes "n < 256"
  obtains "n < 10" "dec n = [digit n]"
  | "10 \<le> n" "n < 100" "dec n = [digit (n div 10), digit (n mod 10)]"
  | "100 \<le> n" "dec n = [digit (n div 100), digit (n div 10 mod 10), digit (n mod 10)]"
proof -
  consider "n < 10" | "10 \<le> n" "n < 100" | "100 \<le> n" by linarith
  then show ?thesis
  proof cases
    case 1
    then show ?thesis using that(1) dec_digit by simp
  next
    case 2
    then show ?thesis using that(2) dec_snoc [of "n div 10" "n mod 10"] dec_digit [of "n div 10"] by simp
  next
    case 3
    then have "n div 100 < 10" "0 < n div 100" using assms by simp_all
    moreover have "n div 100 * 10 + n div 10 mod 10 = n div 10" by (rule two_digits)
    moreover have "n div 10 * 10 + n mod 10 = n" by simp
    moreover have "0 < n div 10" using 3 by simp
    ultimately have "dec (n div 10) = [digit (n div 100), digit (n div 10 mod 10)]" "dec n = dec (n div 10) @ [digit (n mod 10)]"
      using dec_snoc [of "n div 100" "n div 10 mod 10"] dec_digit [of "n div 100"]
        dec_snoc [of "n div 10" "n mod 10"] by simp_all
    then show ?thesis using that(3) 3 by simp
  qed
qed

text \<open>The parser reads back one octet.\<close>

lemma pton4_octet:
  assumes n: "n < 256" and o: "octets < 4"
  shows "pton4_loop (dec n @ rest) False octets (0 # tmp) = pton4_loop rest True (octets + 1) (n # tmp)"
  using n
proof (cases rule: dec_cases)
  case 1
  then show ?thesis using o by simp
next
  case 2
  then have "n div 10 < 10" "n div 10 \<noteq> 0" "n div 10 * 10 + n mod 10 = n" by auto
  then show ?thesis using o n by (simp add: Let_def 2(3) del: div_mult_mod_eq)
next
  case 3
  have d: "n div 100 < 10" "n div 100 \<noteq> 0" "n div 100 * 10 + n div 10 mod 10 = n div 10"
    "n div 10 * 10 + n mod 10 = n" "n div 10 < 256" "n div 10 \<noteq> 0" "n div 10 mod 10 < 10" "n mod 10 < 10"
    using n 3 two_digits [of n] by simp_all
  have "\<not> 255 < n div 10" "\<not> 255 < n div 100" using n by simp_all
  then show ?thesis using o n by (simp add: Let_def 3(2) d del: div_mult_mod_eq not_less)
qed

lemma unat_byte: "unat (x :: 8 word) < 256"
  by (rule order_less_le_trans [OF unsigned_less]) simp

lemma length_4: "length xs = 4 \<longleftrightarrow> (\<exists>a b c d. xs = [a, b, c, d])"
  by (auto simp: numeral_eq_Suc length_Suc_conv)

lemma pton4_last:
  "n < 256 \<Longrightarrow> octets < 4 \<Longrightarrow>
    pton4_loop (dec n) False octets (0 # tmp) = (if octets + 1 < 4 then None else Some (rev (n # tmp)))"
  using pton4_octet [of n octets "[]" tmp] by simp

lemma pton4_ntop4: "length b = 4 \<Longrightarrow> inet_pton4 (inet_ntop4 b) = Some b"
  by (auto simp: length_4 inet_pton4_def inet_ntop4_def pton4_octet pton4_last unat_byte)

text \<open>And nothing else: what it accepts is the canonical text.\<close>

fun dotted :: "nat list \<Rightarrow> string" where
  "dotted [] = []"
| "dotted [v] = dec v"
| "dotted (v # vs) = dec v @ CHR ''.'' # dotted vs"

lemma pton4_loop_canonical:
  assumes "pton4_loop s saw octets (cur # tmp) = Some r"
    and "cur < 256" and "\<not> saw \<Longrightarrow> cur = 0 \<and> octets < 4" and "octets = length tmp + of_bool saw" "octets \<le> 4"
  shows "\<exists>v vs. r = rev tmp @ v # vs \<and> length r = 4 \<and> (\<forall>x\<in>set (v # vs). x < 256) \<and>
    (if saw then dec cur else []) @ s = dotted (v # vs)"
  using assms
proof (induction s arbitrary: saw octets cur tmp)
  case Nil
  then show ?case by (cases saw) (auto split: if_splits)
next
  case (Cons ch s)
  show ?case
  proof (cases "digit_val ch")
    case (Some d)
    let ?nw = "cur * 10 + d"
    have d: "ch = digit d" "d < 10" using digit_val_Some [OF Some] by auto
    have k: "\<not> (saw \<and> cur = 0)" "?nw < 256"
      and l: "pton4_loop s True (if saw then octets else octets + 1) (?nw # tmp) = Some r"
      using Cons.prems(1) Some by (auto simp: Let_def split: if_splits)
    have "\<exists>v vs. r = rev tmp @ v # vs \<and> length r = 4 \<and> (\<forall>x\<in>set (v # vs). x < 256) \<and>
        (if True then dec ?nw else []) @ s = dotted (v # vs)"
      by (rule Cons.IH [OF l k(2)]) (cases saw; use Cons.prems(3-5) in auto)+
    moreover have "dec ?nw @ s = (if saw then dec cur else []) @ ch # s"
      using k d Cons.prems(3) dec_snoc [of cur d] dec_digit [of d] by auto
    ultimately show ?thesis by simp
  next
    case None
    then have k: "ch = CHR ''.''" "saw" "octets \<noteq> 4"
      and l: "pton4_loop s False octets (0 # cur # tmp) = Some r"
      using Cons.prems(1) by (auto split: if_splits)
    have "\<exists>v vs. r = rev (cur # tmp) @ v # vs \<and> length r = 4 \<and> (\<forall>x\<in>set (v # vs). x < 256) \<and>
        (if False then dec 0 else []) @ s = dotted (v # vs)"
      by (rule Cons.IH [OF l]) (use Cons.prems k in auto)
    then obtain v vs where "r = rev (cur # tmp) @ v # vs" "length r = 4" "\<forall>x\<in>set (v # vs). x < 256"
      "s = dotted (v # vs)" by auto
    then show ?thesis using k Cons.prems(2) by (intro exI [of _ cur] exI [of _ "v # vs"]) auto
  qed
qed

lemma ntop4_canonical:
  assumes "inet_pton4 s = Some b"
  shows "length b = 4 \<and> s = inet_ntop4 b"
proof -
  obtain r where r: "pton4_loop s False 0 [0] = Some r" "b = map of_nat r"
    using assms by (auto simp: inet_pton4_def)
  from pton4_loop_canonical [OF r(1)] have "length r = 4" "\<forall>x\<in>set r. x < 256" "s = dotted r" by auto
  then show ?thesis using r(2)
    by (auto simp: length_4 inet_ntop4_def unat_of_nat take_bit_eq_mod)
qed

text \<open>Network order is undone by swapping again.\<close>

lemma htons_htons [simp]: "htons (htons x) = x"
  unfolding htons_def by (rule bit_word_eqI) (auto simp: bit_simps)

lemma port_kept: "0 \<le> p \<Longrightarrow> p \<le> 0xffff \<Longrightarrow> uint (htons (htons (word_of_int p))) = p"
  by (simp add: uint_word_of_int)

end
