(* ===== verification/Fs_Handles.thy ===== *)
theory Fs_Handles
  imports Stability
begin

text \<open>
  The classes \<open>FSEvent\<close> and \<open>FSPoll\<close> (src/fs.c), with \<open>uv_fs_event_t\<close> of
  unix/linux-inotify.c and \<open>uv_fs_poll_t\<close> of fs-poll.c. The inotify descriptor and the
  internal timer of a poll context are not represented; the \<open>stat\<close> request of a poll context
  counts as an active request of its loop. What the operating system answers is an argument.
\<close>

section \<open>libuv\<close>

definition uv_fs_event_init :: "oid \<Rightarrow> oid \<Rightarrow> world \<Rightarrow> int \<times> world" where
  "uv_fs_event_init l h w = (0, uv__handle_init l h UV_FS_EVENT w)"

definition uv_fs_event_start :: "int \<Rightarrow> oid \<Rightarrow> string \<Rightarrow> world \<Rightarrow> int \<times> world" where
  "uv_fs_event_start os h path w =
     (if u_active (uvh w h) then (UV_EINVAL, w)
      else if os \<noteq> 0 then (os, w)
      else (0, upd_uv h (\<lambda>u. u\<lparr>u_path := Some path\<rparr>) (uv__handle_start h w)))"

definition uv_fs_event_stop :: "oid \<Rightarrow> world \<Rightarrow> world" where
  "uv_fs_event_stop h w =
     (if \<not> u_active (uvh w h) then w
      else uv__handle_stop h (upd_uv h (\<lambda>u. u\<lparr>u_path := None\<rparr>) w))"

definition uv_fs_poll_init :: "oid \<Rightarrow> oid \<Rightarrow> world \<Rightarrow> int \<times> world" where
  "uv_fs_poll_init l h w = (0, uv__handle_init l h UV_FS_POLL w)"

text \<open>A handle that is active already is left as it is; an interval of 0 becomes 1.\<close>

definition uv_fs_poll_start :: "int \<Rightarrow> oid \<Rightarrow> string \<Rightarrow> 32 word \<Rightarrow> world \<Rightarrow> int \<times> world" where
  "uv_fs_poll_start os h path interval w =
     (if u_active (uvh w h) then (0, w)
      else if os \<noteq> 0 then (os, w)
      else (0, uv__handle_start h
              (upd_uv h (\<lambda>u. u\<lparr>u_path := Some path, u_interval := (if interval = 0 then 1 else interval)\<rparr>)
                (uv__req_register (loop_of w h) w))))"

text \<open>A \<open>stat\<close> in flight outlives the stop: its completion finds no parent handle.\<close>

definition uv_fs_poll_stop :: "oid \<Rightarrow> world \<Rightarrow> world" where
  "uv_fs_poll_stop h w =
     (if \<not> u_active (uvh w h) then w
      else uv__handle_stop h (upd_uv h (\<lambda>u. u\<lparr>u_path := None\<rparr>) w))"

text \<open>\<open>uv_fs_event_getpath\<close> and \<open>uv_fs_poll_getpath\<close>; \<open>buf_len\<close> is the size of the buffer.\<close>

definition uv_fs_getpath :: "nat \<Rightarrow> oid \<Rightarrow> world \<Rightarrow> int + string" where
  "uv_fs_getpath buf_len h w =
     (if \<not> u_active (uvh w h) then Inl UV_EINVAL
      else case u_path (uvh w h) of
             None \<Rightarrow> Inl UV_EINVAL
           | Some p \<Rightarrow> if buf_len \<le> length p then Inl UV_ENOBUFS else Inr p)"

section \<open>FSEvent\<close>

definition FSEvent_tp_new :: "world \<Rightarrow> oid result \<times> world" where
  "FSEvent_tp_new = Handle_tp_new FSEventC"

definition FSEvent_tp_init :: "oid \<Rightarrow> oid args \<Rightarrow> world \<Rightarrow> unit result \<times> world" where
  "FSEvent_tp_init self args w =
     RAISE_IF_HANDLE_INITIALIZED self w
     (PyArg_Parse args w (\<lambda>loop.
       let (err, w1) = uv_fs_event_init loop self w
       in if err < 0 then (Raise (UVExc FSEventError err), w1)
          else (Ok (), initialize_handle self loop w1)))"

text \<open>The flags are passed on to libuv, which does not read them on Linux.\<close>

definition FSEvent_func_start :: "int \<Rightarrow> oid \<Rightarrow> (string \<times> oid) args \<Rightarrow> world \<Rightarrow> unit result \<times> world" where
  "FSEvent_func_start os self args w =
     RAISE_IF_HANDLE_NOT_INITIALIZED self w
     (RAISE_IF_HANDLE_CLOSED self w
     (PyArg_Parse args w (\<lambda>(path, callback).
       if \<not> PyCallable_Check w callback then (Raise TypeError, w)
       else let (err, w1) = uv_fs_event_start os self path w
            in if err < 0 then (Raise (UVExc FSEventError err), w1)
               else (Ok (), PYUV_HANDLE_INCREF self (assign_slot self S_callback callback w1)))))"

definition FSEvent_func_stop :: "oid \<Rightarrow> world \<Rightarrow> unit result \<times> world" where
  "FSEvent_func_stop self w =
     RAISE_IF_HANDLE_NOT_INITIALIZED self w
     (RAISE_IF_HANDLE_CLOSED self w
     (let (err, w1) = (0::int, uv_fs_event_stop self w)
      in if err < 0 then (Raise (UVExc FSEventError err), w1)
         else (Ok (), PYUV_HANDLE_DECREF self (clear_slot self S_callback w1))))"

definition PATH_MAX :: nat where "PATH_MAX = 4096"

definition FSEvent_path_get :: "oid \<Rightarrow> world \<Rightarrow> string result \<times> world" where
  "FSEvent_path_get self w =
     RAISE_IF_HANDLE_NOT_INITIALIZED self w
     (case uv_fs_getpath PATH_MAX self w of Inl err \<Rightarrow> (Ok [], w) | Inr p \<Rightarrow> (Ok p, w))"

text \<open>
  The file name of an event: \<open>Py_BuildValue\<close> fails on a name that cannot be decoded, and the
  callback then drops a reference to \<open>NULL\<close>: the process crashes (\<open>None\<close>).
\<close>

datatype filename = NoFilename | Filename bool

definition pyuv__fsevent_cb :: "python \<Rightarrow> filename \<Rightarrow> int \<Rightarrow> oid \<Rightarrow> world \<Rightarrow> world option" where
  "pyuv__fsevent_cb py filename status self w =
     (let w1 = Py_INCREF self w
      in case (case filename of
                 NoFilename \<Rightarrow> Some (Py_None, Py_INCREF Py_None w1)
               | Filename decodes \<Rightarrow> if decodes then Some (PyType_GenericNew (KObject False) w1) else None) of
           None \<Rightarrow> None
         | Some (py_filename, w2) \<Rightarrow>
             let (errorno, w3) = err_obj (status < 0) w2;
                 (py_events, w4) = PyInt_FromLong w3
             in case call_callback py (slot_of w4 self S_callback) [self, py_filename, py_events, errorno]
                       (\<lambda>v. slot_of v self S_loop) w4 of
                  None \<Rightarrow> None
                | Some w5 \<Rightarrow> Some (Py_DECREF self (release [py_events, py_filename, errorno] w5)))"

section \<open>FSPoll\<close>

definition FSPoll_tp_new :: "world \<Rightarrow> oid result \<times> world" where
  "FSPoll_tp_new = Handle_tp_new FSPollC"

definition FSPoll_tp_init :: "oid \<Rightarrow> oid args \<Rightarrow> world \<Rightarrow> unit result \<times> world" where
  "FSPoll_tp_init self args w =
     RAISE_IF_HANDLE_INITIALIZED self w
     (PyArg_Parse args w (\<lambda>loop.
       let (err, w1) = uv_fs_poll_init loop self w
       in if err < 0 then (Raise (UVExc FSPollError err), w1)
          else (Ok (), initialize_handle self loop w1)))"

text \<open>
  \<open>(unsigned int)interval*1000\<close>: the cast comes first, so the fraction of a second is lost, and
  the product wraps around. Out of range the cast is undefined; \<open>ub\<close> says what it gives.
\<close>

definition uint_cast :: "(double \<Rightarrow> 32 word) \<Rightarrow> double \<Rightarrow> 32 word" where
  "uint_cast ub d =
     (case d of
        Dbl q \<Rightarrow> let z = (if 0 \<le> q then \<lfloor>q\<rfloor> else \<lceil>q\<rceil>)
                 in if 0 \<le> z \<and> z < 4294967296 then word_of_int z else ub d
      | _ \<Rightarrow> ub d)"

definition FSPoll_func_start ::
    "(double \<Rightarrow> 32 word) \<Rightarrow> int \<Rightarrow> oid \<Rightarrow> (string \<times> double \<times> oid) args \<Rightarrow> world \<Rightarrow> unit result \<times> world" where
  "FSPoll_func_start ub os self args w =
     RAISE_IF_HANDLE_NOT_INITIALIZED self w
     (RAISE_IF_HANDLE_CLOSED self w
     (PyArg_Parse args w (\<lambda>(path, interval, callback).
       if \<not> PyCallable_Check w callback then (Raise TypeError, w)
       else if dless interval (Dbl 0) then (Raise ValueError, w)
       else let (err, w1) = uv_fs_poll_start os self path (uint_cast ub interval * 1000) w
            in if err < 0 then (Raise (UVExc FSPollError err), w1)
               else (Ok (), PYUV_HANDLE_INCREF self (assign_slot self S_callback callback w1)))))"

definition FSPoll_func_stop :: "oid \<Rightarrow> world \<Rightarrow> unit result \<times> world" where
  "FSPoll_func_stop self w =
     RAISE_IF_HANDLE_NOT_INITIALIZED self w
     (RAISE_IF_HANDLE_CLOSED self w
     (let (err, w1) = (0::int, uv_fs_poll_stop self w)
      in if err < 0 then (Raise (UVExc FSPollError err), w1)
         else (Ok (), PYUV_HANDLE_DECREF self (clear_slot self S_callback w1))))"

definition FSPoll_path_get :: "oid \<Rightarrow> world \<Rightarrow> string result \<times> world" where
  "FSPoll_path_get self w =
     RAISE_IF_HANDLE_NOT_INITIALIZED self w
     (case uv_fs_getpath PATH_MAX self w of Inl err \<Rightarrow> (Ok [], w) | Inr p \<Rightarrow> (Ok p, w))"

text \<open>
  \<open>PyStructSequence_New\<close> may fail; the error is cleared and \<open>None\<close> takes the place of the
  result. None of the three objects made for the call is released.
\<close>

definition stat_obj :: "bool \<Rightarrow> world \<Rightarrow> oid \<times> world" where
  "stat_obj made w = (if made then PyType_GenericNew (KObject False) w else (Py_None, Py_INCREF Py_None w))"

definition pyuv__fspoll_cb :: "python \<Rightarrow> bool \<Rightarrow> bool \<Rightarrow> int \<Rightarrow> oid \<Rightarrow> world \<Rightarrow> world option" where
  "pyuv__fspoll_cb py made_prev made_curr status self w =
     (let w1 = Py_INCREF self w;
          (errorno, w2) = err_obj (status < 0) w1;
          (prev_stat_data, w3) = stat_obj (0 \<le> status \<and> made_prev) w2;
          (curr_stat_data, w4) = stat_obj (0 \<le> status \<and> made_curr) w3
      in case call_callback py (slot_of w4 self S_callback) [self, prev_stat_data, curr_stat_data, errorno]
                (\<lambda>v. slot_of v self S_loop) w4 of
           None \<Rightarrow> None
         | Some w5 \<Rightarrow> Some (Py_DECREF self w5))"

text \<open>
  \<open>poll_cb\<close> of fs-poll.c: the \<open>stat\<close> of a poll context on loop \<open>l\<close> completes. \<open>parent\<close> is
  \<open>parent_handle\<close>; \<open>report\<close> is the status to report, if the result is worth a report.
\<close>

definition uv__fs_poll_cb ::
    "python \<Rightarrow> bool \<Rightarrow> bool \<Rightarrow> oid option \<Rightarrow> int option \<Rightarrow> oid \<Rightarrow> world \<Rightarrow> world option" where
  "uv__fs_poll_cb py mp mc parent report l w =
     (let w1 = uv__req_unregister l w
      in case (parent, report) of
           (Some h, Some status) \<Rightarrow> pyuv__fspoll_cb py mp mc status h w1
         | _ \<Rightarrow> Some w1)"

section \<open>Handles without a queue of their own\<close>

text \<open>
  The types whose active handles libuv keeps in no queue: a start is the flag, then fields that
  the invariant does not read.
\<close>

definition plain_type :: "uv_handle_type \<Rightarrow> bool" where
  "plain_type t \<longleftrightarrow> t \<in> {UV_TCP, UV_NAMED_PIPE, UV_TTY, UV_UDP, UV_POLL, UV_PROCESS, UV_FS_EVENT, UV_FS_POLL}"

lemma plain_type_queue [simp]: "plain_type t \<Longrightarrow> type_queue t l = None"
  by (auto simp: plain_type_def)

lemma uv_inv_plain_start:
  assumes inv: "uv_inv w" and l: "u_loop (uvh w h) = Some l" and op: "\<not> u_closing (uvh w h)"
    and t: "u_type (uvh w h) = Some t" "plain_type t"
  shows "uv_inv (uv__handle_start h w)"
proof (cases "u_active (uvh w h)")
  case True
  then show ?thesis using inv by (simp add: uv__handle_start_def)
next
  case False
  have nc: "\<not> u_closed (uvh w h)" using uv_inv_uh [OF inv, of h] op by (auto simp: uh_ok_def)
  show ?thesis
    by (rule uv_inv_started [OF inv l op False, where u = "(uvh w h)\<lparr>u_active := True\<rparr>"])
      (use l op t nc False in \<open>auto simp: uv_defs plain_type_def\<close>)
qed

lemma uv_inv_plain_stop:
  assumes inv: "uv_inv w" and l: "u_loop (uvh w h) = Some l" and nc: "\<not> u_closed (uvh w h)"
    and t: "u_type (uvh w h) = Some t" "plain_type t"
  shows "uv_inv (uv__handle_stop h w)"
  by (rule uv_inv_stopped [OF inv l nc stopped_plain]) (use t in \<open>auto simp: plain_type_def\<close>)

text \<open>A struct that libuv initialises as one of these types.\<close>

lemma ok_plain_initialized:
  assumes ok: "ok fr w" and h: "held fr w x" and k: "kind (objs w ! x) = KHandle c"
    and c: "plain_type (uv_type_of c)" and ni: "\<not> initialized (hs w x)" and l: "is_loop w l"
  shows "ok fr (initialize_handle x l (uv__handle_init l x (uv_type_of c) w))"
proof -
  note U = uninitD [OF ok h k ni]
  have t: "uv_type_of c \<noteq> UV_SIGNAL" using c by (auto simp: plain_type_def)
  show ?thesis
  proof (rule ok_initialized [OF ok_imp_but [OF ok] h k ni U(1,2) l])
    show "uv_inv (uv__handle_init l x (uv_type_of c) w)"
      by (rule uv_inv_handle_init [OF okD(2) [OF ok] U(3)]) (use t in simp)
  qed (use c U(9,10) in \<open>cases c; auto simp: plain_type_def uv_defs init_other\<close>)+
qed

section \<open>The methods keep the invariant\<close>

lemma uv_fs_event_start_step:
  assumes ok: "ok fr w" and o: "open_handle w x FSEventC" and s: "uv_fs_event_start os x p w = (e, w1)"
  shows "uv_quiet w w1" "uv_local x w w1" "uv_inv w1"
proof -
  note D = open_handleD [OF ok o]
  obtain l where l: "u_loop (uvh w x) = Some l" using D(7) by blast
  have "uv_inv (uv__handle_start x w)"
    by (rule uv_inv_plain_start [OF okD(2) [OF ok] l]) (use o D(6) in \<open>auto simp: open_handle_def plain_type_def\<close>)
  then have "uv_inv (upd_uv x (\<lambda>u. u\<lparr>u_path := Some p\<rparr>) (uv__handle_start x w))"
    by (rule uv_inv_upd_uv) simp_all
  then show "uv_inv w1" "uv_quiet w w1" "uv_local x w w1"
    using s okD(2) [OF ok]
    by (auto simp: uv_fs_event_start_def split: if_splits intro!: quiet local_steps)
qed

lemma uv_fs_poll_start_step:
  assumes ok: "ok fr w" and o: "open_handle w x FSPollC" and s: "uv_fs_poll_start os x p n w = (e, w1)"
  shows "uv_quiet w w1" "uv_local x w w1" "uv_inv w1"
proof -
  note D = open_handleD [OF ok o]
  obtain l where l: "u_loop (uvh w x) = Some l" using D(7) by blast
  let ?v = "upd_uv x (\<lambda>u. u\<lparr>u_path := Some p, u_interval := (if n = 0 then 1 else n)\<rparr>) (uv__req_register (loop_of w x) w)"
  have "uv_inv (uv__req_register (loop_of w x) w)"
    unfolding uv__req_register_def by (rule uv_inv_upd_uvl [OF okD(2) [OF ok]]) simp_all
  then have "uv_inv ?v" by (rule uv_inv_upd_uv) simp_all
  then have "uv_inv (uv__handle_start x ?v)"
    by (rule uv_inv_plain_start)
      (use l o D(6) in \<open>auto simp: open_handle_def plain_type_def uv_defs uv__req_register_def\<close>)
  then show "uv_inv w1" "uv_quiet w w1" "uv_local x w w1"
    using s okD(2) [OF ok]
    by (auto simp: uv_fs_poll_start_def uv__req_register_def split: if_splits intro!: quiet local_steps)
qed

lemma fs_poll_stop_eq: "uv_fs_poll_stop = uv_fs_event_stop"
  by (simp add: uv_fs_poll_stop_def uv_fs_event_stop_def fun_eq_iff)

lemma uv_fs_stop_step:
  assumes ok: "ok fr w" and o: "open_handle w x c" and c: "c \<in> {FSEventC, FSPollC}"
  shows "uv_quiet w (uv_fs_event_stop x w)" "uv_local x w (uv_fs_event_stop x w)"
    "uv_inv (uv_fs_event_stop x w)" "\<not> u_active (uvh (uv_fs_event_stop x w) x)"
proof -
  note D = open_handleD [OF ok o]
  obtain l where l: "u_loop (uvh w x) = Some l" using D(7) by blast
  let ?v = "upd_uv x (\<lambda>u. u\<lparr>u_path := None\<rparr>) w"
  have "uv_inv ?v" by (rule uv_inv_upd_uv [OF okD(2) [OF ok]]) simp_all
  then have "uv_inv (uv__handle_stop x ?v)"
    by (rule uv_inv_plain_stop)
      (use l o D(6) c in \<open>auto simp: open_handle_def plain_type_def uv_defs\<close>)
  then show "uv_inv (uv_fs_event_stop x w)" "uv_quiet w (uv_fs_event_stop x w)"
    "uv_local x w (uv_fs_event_stop x w)" "\<not> u_active (uvh (uv_fs_event_stop x w) x)"
    using okD(2) [OF ok]
    by (auto simp: uv_fs_event_stop_def uv_defs intro!: quiet local_steps)
qed

lemma ok_FSEvent_tp_init:
  assumes ok: "ok fr w" and h: "held fr w x" and k: "kind (objs w ! x) = KHandle FSEventC"
    and a: "\<And>l. args = Inr l \<Longrightarrow> is_loop w l"
  shows "ok fr (snd (FSEvent_tp_init x args w))"
  using ok a ok_plain_initialized [OF ok h k]
  by (auto simp: FSEvent_tp_init_def uv_fs_event_init_def guard_defs plain_type_def split: sum.splits)

lemma ok_FSPoll_tp_init:
  assumes ok: "ok fr w" and h: "held fr w x" and k: "kind (objs w ! x) = KHandle FSPollC"
    and a: "\<And>l. args = Inr l \<Longrightarrow> is_loop w l"
  shows "ok fr (snd (FSPoll_tp_init x args w))"
  using ok a ok_plain_initialized [OF ok h k]
  by (auto simp: FSPoll_tp_init_def uv_fs_poll_init_def guard_defs plain_type_def split: sum.splits)

lemma ok_FSEvent_func_start:
  assumes ok: "ok fr w" and h: "held fr w x" and k: "kind (objs w ! x) = KHandle FSEventC"
    and a: "\<And>p f. args = Inr (p, f) \<Longrightarrow> held fr w f" and os: "os \<le> 0"
  shows "ok fr (snd (FSEvent_func_start os x args w))"
proof (cases "initialized (hs w x) \<and> \<not> uv_is_closing x w")
  case False
  then show ?thesis using ok by (auto simp: FSEvent_func_start_def guard_defs)
next
  case True
  then have o: "open_handle w x FSEventC" by (intro open_handleI [OF ok h k]) auto
  have "if e < 0 then ok fr w1 else ok fr (PYUV_HANDLE_INCREF x (assign_slot x S_callback f w1))"
    if f: "held fr w f" and p: "uv_fs_event_start os x p w = (e, w1)" for f p e w1
  proof (cases "e < 0")
    case True
    then have "w1 = w" using p by (auto simp: uv_fs_event_start_def split: if_splits)
    then show ?thesis using ok True by simp
  next
    case False
    then show ?thesis
      using ok_started [OF ok o h f uv_fs_event_start_step [OF ok o p]]
      by (simp add: cb_slot_def reads_class_def tp_clear_defs)
  qed
  note step = this
  show ?thesis
  proof (cases args)
    case (Inl e)
    then show ?thesis using ok True by (simp add: FSEvent_func_start_def guard_defs)
  next
    case (Inr b)
    obtain p f where b: "b = (p, f)" by fastforce
    obtain e w1 where s: "uv_fs_event_start os x p w = (e, w1)" by fastforce
    have "held fr w f" using a Inr b by simp
    from step [OF this s] show ?thesis
      using ok True Inr b s by (simp add: FSEvent_func_start_def guard_defs)
  qed
qed

lemma ok_FSPoll_func_start:
  assumes ok: "ok fr w" and h: "held fr w x" and k: "kind (objs w ! x) = KHandle FSPollC"
    and a: "\<And>p n f. args = Inr (p, n, f) \<Longrightarrow> held fr w f" and os: "os \<le> 0"
  shows "ok fr (snd (FSPoll_func_start ub os x args w))"
proof (cases "initialized (hs w x) \<and> \<not> uv_is_closing x w")
  case False
  then show ?thesis using ok by (auto simp: FSPoll_func_start_def guard_defs)
next
  case True
  then have o: "open_handle w x FSPollC" by (intro open_handleI [OF ok h k]) auto
  have "if e < 0 then ok fr w1 else ok fr (PYUV_HANDLE_INCREF x (assign_slot x S_callback f w1))"
    if f: "held fr w f" and p: "uv_fs_poll_start os x p n w = (e, w1)" for f p n e w1
  proof (cases "e < 0")
    case True
    then have "w1 = w" using p by (auto simp: uv_fs_poll_start_def split: if_splits)
    then show ?thesis using ok True by simp
  next
    case False
    then show ?thesis
      using ok_started [OF ok o h f uv_fs_poll_start_step [OF ok o p]]
      by (simp add: cb_slot_def reads_class_def tp_clear_defs)
  qed
  note step = this
  show ?thesis
  proof (cases args)
    case (Inl e)
    then show ?thesis using ok True by (simp add: FSPoll_func_start_def guard_defs)
  next
    case (Inr b)
    obtain p n f where b: "b = (p, n, f)" by (metis prod_cases3)
    obtain e w1 where s: "uv_fs_poll_start os x p (uint_cast ub n * 1000) w = (e, w1)" by fastforce
    have "held fr w f" using a Inr b by simp
    from step [OF this s] show ?thesis
      using ok True Inr b s by (simp add: FSPoll_func_start_def guard_defs)
  qed
qed

lemma ok_fs_stop:
  assumes ok: "ok fr w" and h: "held fr w x" and k: "kind (objs w ! x) = KHandle c" and c: "c \<in> {FSEventC, FSPollC}"
  shows "c = FSEventC \<Longrightarrow> ok fr (snd (FSEvent_func_stop x w))"
    "c = FSPollC \<Longrightarrow> ok fr (snd (FSPoll_func_stop x w))"
proof -
  have "ok fr (PYUV_HANDLE_DECREF x (clear_slot x S_callback (uv_fs_event_stop x w)))"
    if "initialized (hs w x)" "\<not> uv_is_closing x w"
  proof -
    have o: "open_handle w x c" by (rule open_handleI [OF ok h k that])
    note S = uv_fs_stop_step [OF ok o c]
    from ok_stopped_clear [OF ok o h S(1-3)] S(4) c show ?thesis
      by (auto simp: cb_slot_def reads_class_def tp_clear_defs)
  qed
  then show "c = FSEventC \<Longrightarrow> ok fr (snd (FSEvent_func_stop x w))"
    "c = FSPollC \<Longrightarrow> ok fr (snd (FSPoll_func_stop x w))"
    using ok by (simp_all add: FSEvent_func_stop_def FSPoll_func_stop_def guard_defs fs_poll_stop_eq)
qed

section \<open>They leave running callbacks undisturbed\<close>

lemma stable_FS_init [stable]:
  assumes "ok fr w"
  shows "undisturbed w (snd (FSEvent_tp_init x args w))" "undisturbed w (snd (FSPoll_tp_init x args w))"
  using uninit_not_closed [OF assms, of x] stable_watcher_init
  by (auto simp: FSEvent_tp_init_def FSPoll_tp_init_def uv_fs_event_init_def uv_fs_poll_init_def guard_defs
      split: sum.splits)

lemma quiet_fs:
  "uv_quiet w (uv_fs_event_stop x w)"
  "uv_fs_event_start os x p w = (e, w1) \<Longrightarrow> uv_quiet w w1"
  "uv_fs_poll_start os x p n w = (e, w1) \<Longrightarrow> uv_quiet w w1"
  by (auto simp: uv_fs_event_stop_def uv_fs_event_start_def uv_fs_poll_start_def uv__req_register_def
      split: if_splits intro!: quiet)

lemma stable_FS [stable]:
  "undisturbed w (snd (FSEvent_func_start os x args1 w))" "undisturbed w (snd (FSEvent_func_stop x w))"
  "undisturbed w (snd (FSPoll_func_start ub os x args2 w))" "undisturbed w (snd (FSPoll_func_stop x w))"
  by (auto simp: FSEvent_func_start_def FSEvent_func_stop_def FSPoll_func_start_def FSPoll_func_stop_def
      fs_poll_stop_eq guard_defs split: sum.splits prod.splits
      intro!: stable_started stable_stopped_clear quiet_fs(1) intro: quiet_fs stable_quiet)

section \<open>The callbacks\<close>

context python_program
begin

lemma ok_stat_obj:
  assumes "ok fr w" and "stat_obj b w = (d, w')"
  shows "ok (add_mset d fr) w'" "undisturbed w w'"
  using assms ok_GenericNew_object [OF assms(1), of False d w'] stable_INCREF
    ok_INCREF [OF assms(1) wf_none [OF okD(1) [OF assms(1)]]]
  by (auto simp: stat_obj_def split: if_splits)

text \<open>
  A callback with three objects made for it: the frame holds the handle and the objects; what
  the C code releases afterwards is \<open>done\<close>.
\<close>

lemma callback3_ok:
  assumes ok: "ok (add_mset x (mset extra + fr)) w" and k: "kind (objs w ! x) = KHandle c"
    and i: "initialized (hs w x)"
  shows "\<exists>w'. call_callback py (slot_of w x S_callback) (x # extra) (\<lambda>v. slot_of v x S_loop) w = Some w' \<and>
    ok (add_mset x (mset extra + fr)) w' \<and> undisturbed w w'"
proof -
  have v: "valid w y" if "y \<in> set (x # extra)" for y
    by (rule wf_valid_frame [OF okD(1) [OF ok]]) (use that in auto)
  have f: "valid w f" if "slot_of w x S_callback = Some f" for f
    using wf_valid_slot [OF okD(1) [OF ok] _ that] v by (auto simp: valid_def)
  show ?thesis
    by (rule call_callback_ok [OF ok f]) (use v loop_field_there [OF ok _ k i] in auto)
qed

lemma pyuv__fsevent_cb_ok:
  assumes ok: "ok fr w" and v: "valid w x" and k: "kind (objs w ! x) = KHandle FSEventC"
    and i: "initialized (hs w x)" and d: "f \<noteq> Filename False"
  shows "\<exists>w'. pyuv__fsevent_cb py f status x w = Some w' \<and> ok fr w' \<and> undisturbed w w'"
proof -
  let ?w1 = "Py_INCREF x w"
  have o1: "ok (add_mset x fr) ?w1" by (rule ok_INCREF [OF ok v])
  obtain n w2 where n: "stat_obj (f = Filename True) ?w1 = (n, w2)" by fastforce
  note O2 = ok_stat_obj [OF o1 n]
  obtain e w3 where e: "err_obj (status < 0) w2 = (e, w3)" by fastforce
  note O3 = ok_err_obj [OF O2(1) e]
  obtain ev w4 where ev: "PyInt_FromLong w3 = (ev, w4)" by fastforce
  note O4 = ok_PyInt_FromLong [OF O3(1) ev]
  have s4: "undisturbed w w4"
    by (rule stable_trans [OF stable_INCREF stable_trans [OF O2(2) stable_trans [OF O3(2) O4(2)]]])
  have k4: "kind (objs w4 ! x) = KHandle FSEventC" "initialized (hs w4 x)"
    using s4 v k i by (auto simp: undisturbed_def valid_def)
  have o4: "ok (add_mset x (mset [n, ev, e] + fr)) w4"
    using O4(1) by (simp add: add_mset_commute)
  from callback3_ok [OF o4 k4] obtain w5 where
    w5: "call_callback py (slot_of w4 x S_callback) [x, n, ev, e] (\<lambda>v. slot_of v x S_loop) w4 = Some w5"
    "ok (add_mset x (mset [n, ev, e] + fr)) w5" "undisturbed w4 w5" by auto
  have "ok (add_mset x fr) (release [ev, n, e] w5)"
    by (rule ok_release) (use w5(2) in \<open>simp add: add_mset_commute\<close>)
  then have "ok fr (Py_DECREF x (release [ev, n, e] w5))" by (rule ok_DECREF)
  moreover have "undisturbed w (Py_DECREF x (release [ev, n, e] w5))"
    by (rule stable_trans [OF s4 stable_trans [OF w5(3) stable_trans [OF stable_release stable_release]]])
  moreover have "pyuv__fsevent_cb py f status x w = Some (Py_DECREF x (release [ev, n, e] w5))"
    using n e ev w5(1) d
    by (cases f) (auto simp: pyuv__fsevent_cb_def stat_obj_def Let_def)
  ultimately show ?thesis by blast
qed

text \<open>Three references are leaked by every report of a poll.\<close>

lemma pyuv__fspoll_cb_ok:
  assumes ok: "ok fr w" and v: "valid w x" and k: "kind (objs w ! x) = KHandle FSPollC"
    and i: "initialized (hs w x)"
  shows "\<exists>w' leak. pyuv__fspoll_cb py mp mc status x w = Some w' \<and> ok (leak + fr) w' \<and> undisturbed w w' \<and>
    size leak = 3"
proof -
  let ?w1 = "Py_INCREF x w"
  have o1: "ok (add_mset x fr) ?w1" by (rule ok_INCREF [OF ok v])
  obtain e w2 where e: "err_obj (status < 0) ?w1 = (e, w2)" by fastforce
  note O2 = ok_err_obj [OF o1 e]
  obtain p w3 where p: "stat_obj (0 \<le> status \<and> mp) w2 = (p, w3)" by fastforce
  note O3 = ok_stat_obj [OF O2(1) p]
  obtain c w4 where c: "stat_obj (0 \<le> status \<and> mc) w3 = (c, w4)" by fastforce
  note O4 = ok_stat_obj [OF O3(1) c]
  have s4: "undisturbed w w4"
    by (rule stable_trans [OF stable_INCREF stable_trans [OF O2(2) stable_trans [OF O3(2) O4(2)]]])
  have k4: "kind (objs w4 ! x) = KHandle FSPollC" "initialized (hs w4 x)"
    using s4 v k i by (auto simp: undisturbed_def valid_def)
  have o4: "ok (add_mset x (mset [p, c, e] + fr)) w4"
    using O4(1) by (simp add: add_mset_commute)
  from callback3_ok [OF o4 k4] obtain w5 where
    w5: "call_callback py (slot_of w4 x S_callback) [x, p, c, e] (\<lambda>v. slot_of v x S_loop) w4 = Some w5"
    "ok (add_mset x (mset [p, c, e] + fr)) w5" "undisturbed w4 w5" by auto
  have "ok (mset [p, c, e] + fr) (Py_DECREF x w5)" by (rule ok_DECREF [OF w5(2)])
  moreover have "undisturbed w (Py_DECREF x w5)"
    by (rule stable_trans [OF s4 stable_trans [OF w5(3) stable_release]])
  moreover have "pyuv__fspoll_cb py mp mc status x w = Some (Py_DECREF x w5)"
    using e p c w5(1) by (simp add: pyuv__fspoll_cb_def Let_def)
  ultimately show ?thesis by (intro exI [of _ "Py_DECREF x w5"] exI [of _ "mset [p, c, e]"]) simp
qed

end

end
