(* ===== verification/Sockets.thy ===== *)
theory Sockets
  imports Stability Addresses Fs_Handles
begin

text \<open>
  The sockets of libuv: opening a descriptor as a stream, \<open>listen\<close> and \<open>accept\<close>
  (unix/stream.c), TCP (unix/tcp.c, uv-common.c), pipes (unix/pipe.c), terminals (unix/tty.c) and
  the descriptor part of UDP (unix/udp.c). The operating system is a record of answers, one for
  each system call: a number \<open>n > 0\<close> is the \<open>errno\<close> \<open>n\<close> and 0 is success; \<open>os_socket\<close> is the
  result of \<open>uv__socket\<close>, a descriptor or a negative error. The result \<open>None\<close> is a failed
  \<open>assert\<close>. Whether a descriptor is polled for input is not represented.
\<close>

record os_answers =
  os_socket :: int
  os_nonblock :: nat
  os_nodelay :: nat
  os_keepalive :: nat
  os_reuse :: nat
  os_v6only :: nat
  os_bind :: nat
  os_connect :: nat
  os_listen :: nat
  os_single_accept :: bool

definition UV_EAGAIN :: int where "UV_EAGAIN = -11"
definition UV_EALREADY :: int where "UV_EALREADY = -114"
definition UV_EACCES :: int where "UV_EACCES = -13"

definition EADDRINUSE :: nat where "EADDRINUSE = 98"
definition EAFNOSUPPORT :: nat where "EAFNOSUPPORT = 97"
definition ECONNREFUSED :: nat where "ECONNREFUSED = 111"
definition EINPROGRESS :: nat where "EINPROGRESS = 115"
definition ENOENT :: nat where "ENOENT = 2"

text \<open>The numbers of the address families on Linux; 0 is \<open>AF_UNSPEC\<close>, 1 is \<open>AF_UNIX\<close>.\<close>

fun sa_family :: "sockaddr \<Rightarrow> int" where
  "sa_family (AF_INET p a) = 2"
| "sa_family (AF_INET6 p a f s) = 10"
| "sa_family (AF_OTHER n) = n"

section \<open>Streams\<close>

text \<open>
  \<open>connect_req\<close> and \<open>shutdown_req\<close> become \<open>NULL\<close>, \<open>connection_cb\<close> too, and the watcher runs
  \<open>uv__stream_io\<close>. The spare descriptor of the loop (\<open>emfile_fd\<close>) is not represented.
\<close>

definition uv__stream_init :: "oid \<Rightarrow> oid \<Rightarrow> uv_handle_type \<Rightarrow> world \<Rightarrow> world" where
  "uv__stream_init l h t w =
     upd_uv h (\<lambda>u. u\<lparr>u_connect := False, u_shutting := False, u_listening := False, u_accepted := None,
         u_queued := [], u_delayed := 0, u_fd := - 1, u_pollout := False\<rparr>)
       (uv__handle_init l h t w)"

definition stream_opened :: "int \<Rightarrow> uv_handle \<Rightarrow> uv_handle" where
  "stream_opened fd u = u\<lparr>u_fd := fd\<rparr>"

definition stream_flags :: "bool \<Rightarrow> bool \<Rightarrow> uv_handle \<Rightarrow> uv_handle" where
  "stream_flags r wr u = u\<lparr>u_readable := u_readable u \<or> r, u_writable := u_writable u \<or> wr\<rparr>"

definition uv__stream_open ::
    "os_answers \<Rightarrow> oid \<Rightarrow> int \<Rightarrow> bool \<Rightarrow> bool \<Rightarrow> world \<Rightarrow> (int \<times> world) option" where
  "uv__stream_open os h fd r wr w =
     (if \<not> (u_fd (uvh w h) = - 1 \<or> u_fd (uvh w h) = fd) then Some (UV_EBUSY, w)
      else if fd < 0 then None
      else let w1 = upd_uv h (stream_flags r wr) w; u = uvh w1 h
           in if u_type u = Some UV_TCP \<and> u_nodelay u \<and> os_nodelay os \<noteq> 0
                then Some (- int (os_nodelay os), w1)
              else if u_type u = Some UV_TCP \<and> u_keepalive u \<and> os_keepalive os \<noteq> 0
                then Some (- int (os_keepalive os), w1)
              else Some (0, upd_uv h (stream_opened fd) w1))"

section \<open>TCP\<close>

definition maybe_new_socket ::
    "os_answers \<Rightarrow> oid \<Rightarrow> int \<Rightarrow> bool \<Rightarrow> bool \<Rightarrow> world \<Rightarrow> (int \<times> world) option" where
  "maybe_new_socket os h domain r wr w =
     (if domain = 0 \<or> u_fd (uvh w h) \<noteq> - 1 then Some (0, upd_uv h (stream_flags r wr) w)
      else if os_socket os < 0 then Some (os_socket os, w)
      else uv__stream_open os h (os_socket os) r wr w)"

text \<open>
  When no socket can be made the handle is taken out of the queue of the loop again. Its loop
  pointer is forgotten with it here; in the code the pointer stays, for nobody but
  \<open>uv_accept\<close> to compare with.
\<close>

definition uv_tcp_init_ex ::
    "os_answers \<Rightarrow> oid \<Rightarrow> oid \<Rightarrow> 32 word \<Rightarrow> world \<Rightarrow> (int \<times> world) option" where
  "uv_tcp_init_ex os l h flags w =
     (let domain = uint (and flags 0xFF)
      in if domain \<noteq> 2 \<and> domain \<noteq> 10 \<and> domain \<noteq> 0 then Some (UV_EINVAL, w)
         else if and flags (not 0xFF) \<noteq> 0 then Some (UV_EINVAL, w)
         else let w1 = uv__stream_init l h UV_TCP w
              in if domain = 0 then Some (0, w1)
                 else case maybe_new_socket os h domain False False w1 of
                        None \<Rightarrow> None
                      | Some (err, w2) \<Rightarrow>
                          if err \<noteq> 0
                          then Some (err, upd_uvl l (\<lambda>lp. lp\<lparr>handle_queue := removeAll h (handle_queue lp)\<rparr>)
                                 (upd_uv h (\<lambda>u. u\<lparr>u_loop := None\<rparr>) w2))
                          else Some (0, w2))"

text \<open>\<open>UV_TCP_IPV6ONLY\<close> is the flag 1.\<close>

definition uv__tcp_bind ::
    "os_answers \<Rightarrow> oid \<Rightarrow> sockaddr \<Rightarrow> 32 word \<Rightarrow> world \<Rightarrow> (int \<times> world) option" where
  "uv__tcp_bind os h addr flags w =
     (if and flags 1 \<noteq> 0 \<and> sa_family addr \<noteq> 10 then Some (UV_EINVAL, w)
      else case maybe_new_socket os h (sa_family addr) True True w of
             None \<Rightarrow> None
           | Some (err, w1) \<Rightarrow>
               if err \<noteq> 0 then Some (err, w1)
               else if os_reuse os \<noteq> 0 then Some (- int (os_reuse os), w1)
               else if sa_family addr = 10 \<and> os_v6only os \<noteq> 0 then Some (- int (os_v6only os), w1)
               else if os_bind os \<noteq> 0 \<and> os_bind os \<noteq> EADDRINUSE
                 then Some (if os_bind os = EAFNOSUPPORT then UV_EINVAL else - int (os_bind os), w1)
               else Some (0, upd_uv h (\<lambda>u. u\<lparr>u_delayed := - int (os_bind os), u_bound := True,
                       u_ipv6 := u_ipv6 u \<or> sa_family addr = 10\<rparr>) w1))"

definition uv_tcp_bind ::
    "os_answers \<Rightarrow> oid \<Rightarrow> sockaddr \<Rightarrow> 32 word \<Rightarrow> world \<Rightarrow> (int \<times> world) option" where
  "uv_tcp_bind os h addr flags w =
     (if u_type (uvh w h) \<noteq> Some UV_TCP then Some (UV_EINVAL, w)
      else case addr of AF_OTHER f \<Rightarrow> Some (UV_EINVAL, w) | _ \<Rightarrow> uv__tcp_bind os h addr flags w)"

text \<open>\<open>connect_req\<close> is set and the stream waits for \<open>POLLOUT\<close>.\<close>

definition connecting :: "oid \<Rightarrow> bool \<Rightarrow> world \<Rightarrow> world" where
  "connecting h p w = upd_uv h (\<lambda>u. u\<lparr>u_connect := True, u_pollout := u_pollout u \<or> p\<rparr>) w"

definition uv__tcp_connect :: "os_answers \<Rightarrow> oid \<Rightarrow> sockaddr \<Rightarrow> world \<Rightarrow> (int \<times> world) option" where
  "uv__tcp_connect os h addr w =
     (if u_type (uvh w h) \<noteq> Some UV_TCP then None
      else if u_connect (uvh w h) then Some (UV_EALREADY, w)
      else case maybe_new_socket os h (sa_family addr) True True w of
             None \<Rightarrow> None
           | Some (err, w1) \<Rightarrow>
               if err \<noteq> 0 then Some (err, w1)
               else let e = os_connect os;
                        w2 = upd_uv h (\<lambda>u. u\<lparr>u_delayed := (if e = ECONNREFUSED then - int e else 0)\<rparr>) w1
                    in if e \<noteq> 0 \<and> e \<noteq> EINPROGRESS \<and> e \<noteq> ECONNREFUSED then Some (- int e, w2)
                       else Some (0, connecting h True (uv__req_register (loop_of w2 h) w2)))"

definition uv_tcp_connect :: "os_answers \<Rightarrow> oid \<Rightarrow> sockaddr \<Rightarrow> world \<Rightarrow> (int \<times> world) option" where
  "uv_tcp_connect os h addr w =
     (if u_type (uvh w h) \<noteq> Some UV_TCP then Some (UV_EINVAL, w)
      else case addr of AF_OTHER f \<Rightarrow> Some (UV_EINVAL, w) | _ \<Rightarrow> uv__tcp_connect os h addr w)"

definition uv_tcp_open :: "os_answers \<Rightarrow> oid \<Rightarrow> int \<Rightarrow> world \<Rightarrow> (int \<times> world) option" where
  "uv_tcp_open os h fd w =
     (if os_nonblock os \<noteq> 0 then Some (- int (os_nonblock os), w)
      else uv__stream_open os h fd True True w)"

text \<open>\<open>name\<close> is what \<open>getsockname\<close> or \<open>getpeername\<close> answers.\<close>

definition uv_tcp_getsockname :: "(nat + sockaddr) \<Rightarrow> oid \<Rightarrow> world \<Rightarrow> int + sockaddr" where
  "uv_tcp_getsockname name h w =
     (if u_delayed (uvh w h) \<noteq> 0 then Inl (u_delayed (uvh w h))
      else if u_fd (uvh w h) < 0 then Inl UV_EINVAL
      else case name of Inl e \<Rightarrow> Inl (- int e) | Inr a \<Rightarrow> Inr a)"

definition uv_tcp_getpeername :: "(nat + sockaddr) \<Rightarrow> oid \<Rightarrow> world \<Rightarrow> int + sockaddr" where
  "uv_tcp_getpeername name h w =
     (if u_delayed (uvh w h) \<noteq> 0 then Inl (u_delayed (uvh w h))
      else if u_fd (uvh w h) < 0 then Inl UV_EINVAL
      else case name of Inl e \<Rightarrow> Inl (- int e) | Inr a \<Rightarrow> Inr a)"

text \<open>The watcher of a stream that listens runs \<open>uv__server_io\<close>.\<close>

definition listening :: "uv_handle \<Rightarrow> uv_handle" where
  "listening u = u\<lparr>u_listening := True\<rparr>"

definition uv_tcp_listen :: "os_answers \<Rightarrow> oid \<Rightarrow> world \<Rightarrow> (int \<times> world) option" where
  "uv_tcp_listen os h w =
     (if u_delayed (uvh w h) \<noteq> 0 then Some (u_delayed (uvh w h), w)
      else let w1 = upd_uv h (\<lambda>u. u\<lparr>u_single_accept := u_single_accept u \<or> os_single_accept os\<rparr>) w
           in case maybe_new_socket os h 2 True False w1 of
                None \<Rightarrow> None
              | Some (err, w2) \<Rightarrow>
                  if err \<noteq> 0 then Some (err, w2)
                  else if os_listen os \<noteq> 0 then Some (- int (os_listen os), w2)
                  else Some (0, upd_uv h listening (upd_uv h (\<lambda>u. u\<lparr>u_bound := True\<rparr>) w2)))"

definition uv_tcp_nodelay :: "os_answers \<Rightarrow> oid \<Rightarrow> bool \<Rightarrow> world \<Rightarrow> int \<times> world" where
  "uv_tcp_nodelay os h on w =
     (if u_fd (uvh w h) \<noteq> - 1 \<and> os_nodelay os \<noteq> 0 then (- int (os_nodelay os), w)
      else (0, upd_uv h (\<lambda>u. u\<lparr>u_nodelay := on\<rparr>) w))"

definition uv_tcp_keepalive :: "os_answers \<Rightarrow> oid \<Rightarrow> bool \<Rightarrow> world \<Rightarrow> int \<times> world" where
  "uv_tcp_keepalive os h on w =
     (if u_fd (uvh w h) \<noteq> - 1 \<and> os_keepalive os \<noteq> 0 then (- int (os_keepalive os), w)
      else (0, upd_uv h (\<lambda>u. u\<lparr>u_keepalive := on\<rparr>) w))"

definition uv_tcp_simultaneous_accepts :: "oid \<Rightarrow> bool \<Rightarrow> world \<Rightarrow> int \<times> world" where
  "uv_tcp_simultaneous_accepts h enable w = (0, upd_uv h (\<lambda>u. u\<lparr>u_single_accept := \<not> enable\<rparr>) w)"

section \<open>Pipes\<close>

definition uv_pipe_init :: "oid \<Rightarrow> oid \<Rightarrow> bool \<Rightarrow> world \<Rightarrow> int \<times> world" where
  "uv_pipe_init l h ipc w =
     (0, upd_uv h (\<lambda>u. u\<lparr>u_fname := None, u_ipc := ipc\<rparr>) (uv__stream_init l h UV_NAMED_PIPE w))"

definition uv_pipe_bind :: "os_answers \<Rightarrow> oid \<Rightarrow> string \<Rightarrow> world \<Rightarrow> int \<times> world" where
  "uv_pipe_bind os h name w =
     (if 0 \<le> u_fd (uvh w h) then (UV_EINVAL, w)
      else if os_socket os < 0 then (os_socket os, w)
      else if os_bind os \<noteq> 0 then (if os_bind os = ENOENT then UV_EACCES else - int (os_bind os), w)
      else (0, upd_uv h (stream_opened (os_socket os)) (upd_uv h (\<lambda>u. u\<lparr>u_bound := True, u_fname := Some name\<rparr>) w)))"

definition uv_pipe_listen :: "os_answers \<Rightarrow> oid \<Rightarrow> world \<Rightarrow> (int \<times> world) option" where
  "uv_pipe_listen os h w =
     (if u_fd (uvh w h) = - 1 then Some (UV_EINVAL, w)
      else if os_listen os \<noteq> 0 then Some (- int (os_listen os), w)
      else Some (0, upd_uv h listening w))"

definition uv_pipe_open :: "os_answers \<Rightarrow> oid \<Rightarrow> int \<Rightarrow> world \<Rightarrow> (int \<times> world) option" where
  "uv_pipe_open os h fd w =
     (if os_nonblock os \<noteq> 0 then Some (- int (os_nonblock os), w)
      else uv__stream_open os h fd True True w)"

text \<open>
  An error is not returned: it becomes the delayed error, which the watcher reports. A connect
  that is under way loses its \<open>connect_req\<close> to the new one.
\<close>

definition uv_pipe_connect :: "os_answers \<Rightarrow> oid \<Rightarrow> world \<Rightarrow> world option" where
  "uv_pipe_connect os h w =
     (let new_sock = (u_fd (uvh w h) = - 1);
          w1 = (if new_sock \<and> 0 \<le> os_socket os then upd_uv h (stream_opened (os_socket os)) w else w);
          e = os_connect os
      in case (if new_sock \<and> os_socket os < 0 then Some (os_socket os, w1)
               else if e \<noteq> 0 \<and> e \<noteq> EINPROGRESS then Some (- int e, w1)
               else if new_sock then uv__stream_open os h (u_fd (uvh w1 h)) True True w1
               else Some (0, w1)) of
           None \<Rightarrow> None
         | Some (err, w2) \<Rightarrow>
             let w3 = upd_uv h (\<lambda>u. u\<lparr>u_delayed := err\<rparr>) w2
             in Some (connecting h (err = 0) (uv__req_register (loop_of w3 h) w3)))"

definition uv_pipe_pending_count :: "oid \<Rightarrow> world \<Rightarrow> nat" where
  "uv_pipe_pending_count h w =
     (let u = uvh w h in
      if \<not> u_ipc u then 0 else if u_accepted u = None then 0 else length (u_queued u) + 1)"

text \<open>\<open>guess\<close> is what \<open>uv__handle_type\<close> finds out about a descriptor.\<close>

definition uv_pipe_pending_type :: "(nat \<Rightarrow> uv_handle_type option) \<Rightarrow> oid \<Rightarrow> world \<Rightarrow> uv_handle_type option" where
  "uv_pipe_pending_type guess h w =
     (let u = uvh w h in if \<not> u_ipc u then None else if u_accepted u = None then None else guess (the (u_accepted u)))"

section \<open>Terminals\<close>

text \<open>
  What \<open>uv_guess_handle\<close> finds: a file or an unknown descriptor, a terminal, or another kind. Of
  a terminal also the result of opening it a second time, which is tried for a slave device only, and
  the error of \<open>uv__dup2_cloexec\<close>. Whether the descriptor blocks is not represented.
\<close>

datatype fd_guess = Guess_File | Guess_TTY "int option" nat | Guess_Other

definition EINVAL :: nat where "EINVAL = 22"

definition tty_descriptor :: "fd_guess \<Rightarrow> int \<Rightarrow> int + int" where
  "tty_descriptor g fd =
     (case g of
        Guess_File \<Rightarrow> Inl UV_EINVAL
      | Guess_Other \<Rightarrow> Inr fd
      | Guess_TTY reopened dup \<Rightarrow>
          (case reopened of
             None \<Rightarrow> Inr fd
           | Some newfd \<Rightarrow> if dup \<noteq> 0 \<and> dup \<noteq> EINVAL then Inl (- int dup) else Inr newfd))"

text \<open>The result of \<open>uv__stream_open\<close> is not looked at.\<close>

definition uv_tty_init :: "(int \<Rightarrow> fd_guess) \<Rightarrow> os_answers \<Rightarrow> oid \<Rightarrow> oid \<Rightarrow> int \<Rightarrow> bool \<Rightarrow> world \<Rightarrow> (int \<times> world) option" where
  "uv_tty_init guess os l h fd readable w =
     (case tty_descriptor (guess fd) fd of
        Inl err \<Rightarrow> Some (err, w)
      | Inr fd' \<Rightarrow>
          (case uv__stream_open os h fd' readable (\<not> readable) (uv__stream_init l h UV_TTY w) of
             None \<Rightarrow> None
           | Some (_, w1) \<Rightarrow> Some (0, upd_uv h (\<lambda>u. u\<lparr>u_mode := 0\<rparr>) w1)))"

text \<open>\<open>os\<close> is the answer of \<open>tcgetattr\<close> and \<open>tcsetattr\<close>, the terminal settings themselves are not kept.\<close>

definition uv_tty_set_mode :: "nat \<Rightarrow> oid \<Rightarrow> int \<Rightarrow> world \<Rightarrow> int \<times> world" where
  "uv_tty_set_mode os h mode w =
     (if u_mode (uvh w h) = mode then (0, w)
      else if os \<noteq> 0 then (- int os, w)
      else (0, upd_uv h (\<lambda>u. u\<lparr>u_mode := mode\<rparr>) w))"

section \<open>Listen and accept\<close>

definition uv_listen :: "os_answers \<Rightarrow> oid \<Rightarrow> world \<Rightarrow> (int \<times> world) option" where
  "uv_listen os h w =
     (case (case u_type (uvh w h) of
              Some UV_TCP \<Rightarrow> uv_tcp_listen os h w
            | Some UV_NAMED_PIPE \<Rightarrow> uv_pipe_listen os h w
            | _ \<Rightarrow> Some (UV_EINVAL, w)) of
        None \<Rightarrow> None
      | Some (err, w1) \<Rightarrow> Some (err, if err = 0 then uv__handle_start h w1 else w1))"

text \<open>A descriptor that is negative is refused by the first system call (\<open>EBADF\<close>).\<close>

definition uv_udp_open :: "os_answers \<Rightarrow> oid \<Rightarrow> int \<Rightarrow> world \<Rightarrow> int \<times> world" where
  "uv_udp_open os h sock w =
     (if u_fd (uvh w h) \<noteq> - 1 then (UV_EBUSY, w)
      else if sock < 0 then (UV_EBADF, w)
      else if os_nonblock os \<noteq> 0 then (- int (os_nonblock os), w)
      else if os_reuse os \<noteq> 0 then (- int (os_reuse os), w)
      else (0, upd_uv h (stream_opened sock) w))"

text \<open>The next descriptor takes the place of the one that was accepted.\<close>

definition next_accepted :: "uv_handle \<Rightarrow> uv_handle" where
  "next_accepted u =
     (case u_queued u of
        [] \<Rightarrow> u\<lparr>u_accepted := None\<rparr>
      | fd # fds \<Rightarrow> u\<lparr>u_accepted := Some fd, u_queued := fds\<rparr>)"

definition uv_accept :: "os_answers \<Rightarrow> oid \<Rightarrow> oid \<Rightarrow> world \<Rightarrow> (int \<times> world) option" where
  "uv_accept os server client w =
     (if u_loop (uvh w server) \<noteq> u_loop (uvh w client) then None
      else case u_accepted (uvh w server) of
             None \<Rightarrow> Some (UV_EAGAIN, w)
           | Some fd \<Rightarrow>
              let t = u_type (uvh w client)
              in if t \<noteq> Some UV_NAMED_PIPE \<and> t \<noteq> Some UV_TCP \<and> t \<noteq> Some UV_UDP then Some (UV_EINVAL, w)
              else case (if t = Some UV_UDP then Some (uv_udp_open os client (int fd) w)
                         else uv__stream_open os client (int fd) True True w) of
                     None \<Rightarrow> None
                   | Some (err, w1) \<Rightarrow>
                       let w2 = (if err = 0 then upd_uv client (\<lambda>u. u\<lparr>u_bound := True\<rparr>) w1 else w1)
                       in Some (err, upd_uv server next_accepted w2))"

end
