(* ===== verification/Socket_Rules.thy ===== *)
theory Socket_Rules
  imports Sockets
begin

text \<open>
  The socket operations of libuv keep the invariant of the state: a step changes the struct of
  the handles it is about and nothing else, and of those only what the invariant does not read.
  Listening, connecting and initialising have rules of their own.
\<close>

section \<open>All results of a call that may fail\<close>

definition all_results :: "('a \<Rightarrow> world \<Rightarrow> bool) \<Rightarrow> ('a \<times> world) option \<Rightarrow> bool" where
  "all_results P r \<longleftrightarrow> (\<forall>e w'. r = Some (e, w') \<longrightarrow> P e w')"

named_theorems results \<open>rules that take the body of a call apart\<close>

lemma all_resultsD: "all_results P r \<Longrightarrow> r = Some (e, w') \<Longrightarrow> P e w'"
  by (simp add: all_results_def)

lemma results_None [results]: "all_results P None"
  by (simp add: all_results_def)

lemma results_Some [results]: "P e w' \<Longrightarrow> all_results P (Some (e, w'))"
  by (simp add: all_results_def)

lemma results_if [results]:
  "(b \<Longrightarrow> all_results P r) \<Longrightarrow> (\<not> b \<Longrightarrow> all_results P r') \<Longrightarrow> all_results P (if b then r else r')"
  by simp

lemma results_case:
  assumes "all_results Q r" and "\<And>e w1. Q e w1 \<Longrightarrow> all_results P (f e w1)"
  shows "all_results P (case r of None \<Rightarrow> None | Some (e, w1) \<Rightarrow> f e w1)"
  using assms by (auto simp: all_results_def split: option.splits)

lemma results_mono: "all_results Q r \<Longrightarrow> (\<And>e w'. Q e w' \<Longrightarrow> P e w') \<Longrightarrow> all_results P r"
  by (simp add: all_results_def)

section \<open>Steps on the struct of a handle\<close>

definition sock_same :: "Handle \<Rightarrow> Handle \<Rightarrow> bool" where
  "sock_same x y \<longleftrightarrow> pyref y = pyref x \<and> initialized y = initialized x \<and> u_type (uv y) = u_type (uv x) \<and>
     u_closing (uv y) = u_closing (uv x) \<and> u_closed (uv y) = u_closed (uv x) \<and> u_loop (uv y) = u_loop (uv x) \<and>
     u_listening (uv y) = u_listening (uv x) \<and> u_connect (uv y) = u_connect (uv x) \<and>
     u_shutting (uv y) = u_shutting (uv x) \<and> u_reading (uv y) = u_reading (uv x) \<and>
     u_active (uv y) = u_active (uv x)"

definition sock_step :: "oid set \<Rightarrow> world \<Rightarrow> world \<Rightarrow> bool" where
  "sock_step A w w' \<longleftrightarrow> (\<forall>fr. ok fr w \<longrightarrow> ok fr w') \<and> (uv_inv w \<longrightarrow> uv_inv w') \<and> undisturbed w w' \<and>
     objs w' = objs w \<and> ext w' = ext w \<and> pend w' = pend w \<and> trace w' = trace w \<and> loops w' = loops w \<and>
     (\<forall>h. sock_same (hs w h) (hs w' h)) \<and> (\<forall>h. h \<notin> A \<longrightarrow> hs w' h = hs w h)"

lemma sock_step_refl [simp]: "sock_step A w w"
  by (simp add: sock_step_def sock_same_def)

lemma sock_step_trans: "sock_step A a b \<Longrightarrow> sock_step A b c \<Longrightarrow> sock_step A a c"
  unfolding sock_step_def sock_same_def by (auto intro: stable_trans)

lemma sock_stepD:
  assumes "sock_step A w w'"
  shows "ok fr w \<Longrightarrow> ok fr w'" "uv_inv w \<Longrightarrow> uv_inv w'" "undisturbed w w'" "objs w' = objs w" "ext w' = ext w"
    "pend w' = pend w" "trace w' = trace w" "loops w' = loops w" "sock_same (hs w h) (hs w' h)"
    "h \<notin> A \<Longrightarrow> hs w' h = hs w h"
  using assms by (auto simp: sock_step_def)

lemma sock_step_mono: "sock_step A w w' \<Longrightarrow> A \<subseteq> B \<Longrightarrow> sock_step B w w'"
  by (auto simp: sock_step_def)

definition sock_fun :: "(uv_handle \<Rightarrow> uv_handle) \<Rightarrow> bool" where
  "sock_fun f \<longleftrightarrow> (\<forall>u. u_type (f u) = u_type u \<and> u_closing (f u) = u_closing u \<and> u_closed (f u) = u_closed u \<and>
     u_loop (f u) = u_loop u \<and> u_listening (f u) = u_listening u \<and> u_connect (f u) = u_connect u \<and>
     u_shutting (f u) = u_shutting u \<and> u_reading (f u) = u_reading u \<and> u_active (f u) = u_active u \<and>
     u_ref (f u) = u_ref u \<and> u_signum (f u) = u_signum u \<and> u_caught (f u) = u_caught u \<and>
     u_dispatched (f u) = u_dispatched u \<and> u_close_cb (f u) = u_close_cb u \<and> u_timer_cb (f u) = u_timer_cb u \<and>
     u_processing (f u) = u_processing u)"

lemma sock_funD:
  assumes "sock_fun f"
  shows "u_type (f u) = u_type u" "u_closing (f u) = u_closing u" "u_closed (f u) = u_closed u" "u_loop (f u) = u_loop u"
    "u_listening (f u) = u_listening u" "u_connect (f u) = u_connect u" "u_shutting (f u) = u_shutting u"
    "u_reading (f u) = u_reading u" "u_active (f u) = u_active u" "u_ref (f u) = u_ref u" "u_signum (f u) = u_signum u"
    "u_caught (f u) = u_caught u" "u_dispatched (f u) = u_dispatched u" "u_close_cb (f u) = u_close_cb u"
    "u_timer_cb (f u) = u_timer_cb u" "u_processing (f u) = u_processing u"
  using assms unfolding sock_fun_def by blast+

lemma upd_uv_cong: "f (uvh w h) = g (uvh w h) \<Longrightarrow> upd_uv h f w = upd_uv h g w"
  by (simp add: upd_uv_def)

lemma sock_step_upd_fd:
  assumes f: "sock_fun f" and fd: "follows (uvh w h) (f (uvh w h))" "0 \<le> u_fd (uvh w h) \<longrightarrow> 0 \<le> u_fd (f (uvh w h))"
  shows "sock_step {h} w (upd_uv h f w)"
proof -
  define g where "g u = (if u = uvh w h then f u else u)" for u
  have e: "upd_uv h f w = upd_uv h g w" by (rule upd_uv_cong) (simp add: g_def)
  have "0 \<le> u_fd (g u)" if "0 \<le> u_fd u" for u using fd(2) that by (auto simp: g_def)
  then have "ok fr (upd_uv h g w)" if "ok fr w" for fr
    by (intro ok_upd_uv [OF that]) (simp_all add: g_def sock_funD [OF f] split: if_splits)
  moreover have "uv_inv (upd_uv h f w)" if "uv_inv w"
    by (rule uv_inv_upd_uv [OF that]) (simp_all add: sock_funD [OF f])
  moreover have "undisturbed w (upd_uv h f w)"
    by (rule stable_hs) (use fd(1) in \<open>auto simp: sock_funD [OF f] upd_uv_def split: if_splits\<close>)
  ultimately show ?thesis
    unfolding sock_step_def sock_same_def e [symmetric] by (simp add: upd_uv_def sock_funD [OF f])
qed

lemma sock_step_upd:
  assumes "sock_fun f" and "\<And>u. u_fd (f u) = u_fd u" and "\<And>u. u_accepted (f u) = u_accepted u"
  shows "sock_step {h} w (upd_uv h f w)"
  by (rule sock_step_upd_fd) (use assms sock_funD [OF assms(1)] in simp_all)

lemma sock_fun_flags [simp]: "sock_fun (stream_flags r wr)" "sock_fun (stream_opened fd)" "sock_fun next_accepted"
  "u_fd (stream_flags r wr u) = u_fd u" "u_fd (stream_opened fd u) = fd" "u_fd (next_accepted u) = u_fd u"
  "u_accepted (stream_flags r wr u) = u_accepted u" "u_accepted (stream_opened fd u) = u_accepted u"
  by (auto simp: sock_fun_def stream_flags_def stream_opened_def next_accepted_def split: list.splits)

lemma sock_step_opened:
  assumes "u_fd (uvh w h) = - 1 \<or> u_fd (uvh w h) = fd \<or> u_fd (uvh w h) < 0 \<and> \<not> u_closing (uvh w h)" and "0 \<le> fd"
  shows "sock_step {h} w (upd_uv h (stream_opened fd) w)"
  by (rule sock_step_upd_fd) (use assms in \<open>auto simp: follows_def fd_follows_def stream_opened_def\<close>)

lemma stream_open_step:
  assumes "uv__stream_open os h fd r wr w = Some (e, w')"
  shows "sock_step {h} w w'" "e = 0 \<Longrightarrow> u_fd (uvh w' h) = fd \<and> 0 \<le> fd"
proof -
  let ?w1 = "upd_uv h (stream_flags r wr) w"
  have 1: "sock_step {h} w ?w1" by (rule sock_step_upd) simp_all
  have fd1: "u_fd (uvh ?w1 h) = u_fd (uvh w h)" by (simp add: uv_defs)
  have 2: "sock_step {h} ?w1 (upd_uv h (stream_opened fd) ?w1)"
    if "u_fd (uvh w h) = - 1 \<or> u_fd (uvh w h) = fd" "0 \<le> fd"
    by (rule sock_step_opened) (use that fd1 in auto)
  show "sock_step {h} w w'"
    using assms 1 sock_step_trans [OF 1 2]
    by (auto simp: uv__stream_open_def Let_def split: if_splits)
  show "e = 0 \<Longrightarrow> u_fd (uvh w' h) = fd \<and> 0 \<le> fd"
    using assms by (auto simp: uv__stream_open_def Let_def uv_defs UV_EBUSY_def split: if_splits)
qed

lemma new_socket_step: "maybe_new_socket os h d r wr w = Some (e, w') \<Longrightarrow> sock_step {h} w w'"
  using stream_open_step(1) [of os h "os_socket os" r wr w e w'] sock_step_upd [of "stream_flags r wr" h w]
  by (auto simp: maybe_new_socket_def split: if_splits)

lemma new_socket_results: "all_results (\<lambda>e w'. sock_step {h} w w') (maybe_new_socket os h d r wr w)"
  using new_socket_step by (simp add: all_results_def)

lemma sock_step_then:
  assumes "sock_step {h} w w1" and "sock_fun f" and "\<And>u. u_fd (f u) = u_fd u" "\<And>u. u_accepted (f u) = u_accepted u"
  shows "sock_step {h} w (upd_uv h f w1)"
  by (rule sock_step_trans [OF assms(1) sock_step_upd [OF assms(2-4)]])

lemma tcp_bind_results: "all_results (\<lambda>e w'. sock_step {h} w w') (uv__tcp_bind os h addr flags w)"
  unfolding uv__tcp_bind_def
  by (intro results results_case [OF new_socket_results]; (assumption | rule sock_step_refl sock_step_then)?)
    (auto simp: sock_fun_def)

lemma tcp_bind_step: "uv_tcp_bind os h addr flags w = Some (e, w') \<Longrightarrow> sock_step {h} w w'"
  using all_resultsD [OF tcp_bind_results]
  by (auto simp: uv_tcp_bind_def split: sockaddr.splits if_splits)

lemma opens_step:
  "uv_tcp_open os h fd w = Some (e, w') \<Longrightarrow> sock_step {h} w w'"
  "uv_pipe_open os h fd w = Some (e, w') \<Longrightarrow> sock_step {h} w w'"
  using stream_open_step(1) by (auto simp: uv_tcp_open_def uv_pipe_open_def split: if_splits)

lemma tcp_options_step:
  "uv_tcp_nodelay os h b w = (e, w') \<Longrightarrow> sock_step {h} w w'"
  "uv_tcp_keepalive os h b w = (e, w') \<Longrightarrow> sock_step {h} w w'"
  "uv_tcp_simultaneous_accepts h b w = (e, w') \<Longrightarrow> sock_step {h} w w'"
  "uv_tty_set_mode n h m w = (e, w') \<Longrightarrow> sock_step {h} w w'"
  using sock_step_upd [of "\<lambda>u. u\<lparr>u_nodelay := b\<rparr>" h w] sock_step_upd [of "\<lambda>u. u\<lparr>u_keepalive := b\<rparr>" h w]
    sock_step_upd [of "\<lambda>u. u\<lparr>u_single_accept := \<not> b\<rparr>" h w] sock_step_upd [of "\<lambda>u. u\<lparr>u_mode := m\<rparr>" h w]
  by (auto simp: uv_tcp_nodelay_def uv_tcp_keepalive_def uv_tcp_simultaneous_accepts_def uv_tty_set_mode_def
      sock_fun_def split: if_splits)

lemma pipe_bind_step: "\<not> u_closing (uvh w h) \<Longrightarrow> uv_pipe_bind os h name w = (e, w') \<Longrightarrow> sock_step {h} w w'"
proof -
  assume fd: "\<not> u_closing (uvh w h)" and b: "uv_pipe_bind os h name w = (e, w')"
  let ?w1 = "upd_uv h (\<lambda>u. u\<lparr>u_bound := True, u_fname := Some name\<rparr>) w"
  have 1: "sock_step {h} w ?w1" by (rule sock_step_upd) (simp_all add: sock_fun_def)
  have 2: "sock_step {h} ?w1 (upd_uv h (stream_opened (os_socket os)) ?w1)"
    if "\<not> 0 \<le> u_fd (uvh w h)" "0 \<le> os_socket os"
    by (rule sock_step_opened) (use that fd in \<open>auto simp: uv_defs\<close>)
  show ?thesis
    using b fd sock_step_trans [OF 1 2] by (auto simp: uv_pipe_bind_def split: if_splits)
qed

text \<open>A descriptor that another handle accepted is never negative.\<close>

lemma accept_step:
  assumes "uv_accept os s c w = Some (e, w')"
  shows "sock_step {s, c} w w'"
proof -
  have o: "sock_step {s, c} w w1" if "uv__stream_open os c fd True True w = Some (e, w1)" for fd w1
    using sock_step_mono [OF stream_open_step(1) [OF that]] by blast
  have u: "sock_step {s, c} w w1" if "uv_udp_open os c (int fd) w = (e, w1)" for fd w1
  proof -
    have "sock_step {c} w (upd_uv c (stream_opened (int fd)) w)" if "u_fd (uvh w c) = - 1"
      by (rule sock_step_opened) (use that in auto)
    then have "sock_step {c} w w1" using that by (auto simp: uv_udp_open_def split: if_splits)
    then show ?thesis by (rule sock_step_mono) simp
  qed
  have b: "sock_step {s, c} w1 (upd_uv c (\<lambda>u. u\<lparr>u_bound := True\<rparr>) w1)" for w1
    by (rule sock_step_mono [OF sock_step_upd]) (simp_all add: sock_fun_def)
  have n: "sock_step {s, c} w1 (upd_uv s next_accepted w1)" if "u_accepted (uvh w1 s) \<noteq> None" for w1
    by (rule sock_step_mono [OF sock_step_upd_fd])
      (use that sock_funD(16) [of next_accepted] in \<open>auto simp: follows_def\<close>)
  have a: "sock_step {s, c} w (upd_uv s next_accepted (if e = 0 then upd_uv c (\<lambda>u. u\<lparr>u_bound := True\<rparr>) w1 else w1))"
    if "sock_step {s, c} w w1" "u_accepted (uvh w1 s) \<noteq> None" for w1
  proof -
    have "sock_step {s, c} w (if e = 0 then upd_uv c (\<lambda>u. u\<lparr>u_bound := True\<rparr>) w1 else w1)"
      using that(1) sock_step_trans [OF that(1) b] by simp
    then show ?thesis by (rule sock_step_trans [OF _ n]) (use that(2) in \<open>auto simp: upd_uv_def\<close>)
  qed
  have 1: "u_accepted (uvh w1 x) = u_accepted (uvh w x)" if "uv__stream_open os c fd True True w = Some (e, w1)" for fd w1 x
    using that by (auto simp: uv__stream_open_def Let_def upd_uv_def stream_flags_def stream_opened_def split: if_splits)
  have 2: "u_accepted (uvh w1 x) = u_accepted (uvh w x)" if "uv_udp_open os c fd w = (e, w1)" for fd w1 x
    using that by (auto simp: uv_udp_open_def upd_uv_def stream_opened_def split: if_splits)
  show ?thesis
    using assms o u a 1 2 by (auto simp: uv_accept_def Let_def split: option.splits if_splits prod.splits)
qed

section \<open>Listening\<close>

definition listened :: "oid \<Rightarrow> world \<Rightarrow> int \<Rightarrow> world \<Rightarrow> bool" where
  "listened h w e w' \<longleftrightarrow> (\<exists>w1. sock_step {h} w w1 \<and> w' = (if e = 0 then upd_uv h listening w1 else w1))"

lemma listened_fail: "e \<noteq> 0 \<Longrightarrow> sock_step {h} w w' \<Longrightarrow> listened h w e w'"
  by (simp add: listened_def)

lemma listened_now: "sock_step {h} w w1 \<Longrightarrow> listened h w 0 (upd_uv h listening w1)"
  by (auto simp: listened_def)

lemma tcp_listen_results: "all_results (listened h w) (uv_tcp_listen os h w)"
proof -
  let ?w1 = "upd_uv h (\<lambda>u. u\<lparr>u_single_accept := u_single_accept u \<or> os_single_accept os\<rparr>) w"
  have 1: "sock_step {h} w ?w1" by (rule sock_step_upd) (simp_all add: sock_fun_def)
  have n: "all_results (\<lambda>e w2. sock_step {h} w w2) (maybe_new_socket os h 2 True False ?w1)"
    by (rule results_mono [OF new_socket_results]) (rule sock_step_trans [OF 1])
  show ?thesis
    unfolding uv_tcp_listen_def Let_def
    by (intro results results_case [OF n] listened_fail listened_now sock_step_then)
      (auto simp: sock_fun_def)
qed

lemma pipe_listen_results: "all_results (listened h w) (uv_pipe_listen os h w)"
  unfolding uv_pipe_listen_def
  by (intro results listened_fail listened_now) (auto simp: UV_EINVAL_def)

lemma listen_cases:
  assumes "uv_listen os h w = Some (e, w')"
  shows "\<exists>w1. sock_step {h} w w1 \<and> (e \<noteq> 0 \<longrightarrow> w' = w1) \<and> (e = 0 \<longrightarrow> w' = uv__handle_start h (upd_uv h listening w1) \<and>
    u_type (uvh w h) \<in> {Some UV_TCP, Some UV_NAMED_PIPE})"
proof -
  have e: "listened h w UV_EINVAL w" by (rule listened_fail) (simp_all add: UV_EINVAL_def)
  have "all_results (\<lambda>e w1. listened h w e w1 \<and> (e = 0 \<longrightarrow> u_type (uvh w h) \<in> {Some UV_TCP, Some UV_NAMED_PIPE}))
      (case u_type (uvh w h) of
         Some UV_TCP \<Rightarrow> uv_tcp_listen os h w
       | Some UV_NAMED_PIPE \<Rightarrow> uv_pipe_listen os h w
       | _ \<Rightarrow> Some (UV_EINVAL, w))"
    using results_mono [OF tcp_listen_results] results_mono [OF pipe_listen_results] e
    by (auto simp: UV_EINVAL_def split: option.split uv_handle_type.split intro!: results)
  then show ?thesis
    using assms unfolding uv_listen_def all_results_def listened_def
    by (cases "e = 0") (auto split: option.splits)
qed

lemma ok_assign_conn:
  assumes b: "ok_but x fr w" and h: "held fr w x" and v: "valid w v" and k: "kind (objs w ! x) = KHandle c"
    and c: "c \<in> {TCPC, PipeC}" and i: "initialized (hs w x)" "slot_of w x S_loop \<noteq> None"
    and f: "field_ok c (hs w x) ((slots (objs w ! x))(S_on_new_connection_cb := Some v))"
  shows "ok fr (assign_slot x S_on_new_connection_cb v w)"
proof -
  have x: "x < length (objs w)" using held_valid [OF ok_butD(1) [OF b] h] by (simp add: valid_def)
  have s: "S_on_new_connection_cb \<in> set (subtype_clear (kind (objs w ! x)))"
    using k c by (auto simp: tp_clear_defs)
  note A = ok_but_assign_slot [OF b v x s]
  have "cb_ok (assign_slot x S_on_new_connection_cb v w) x"
    using f i k A(2,3) [OF _ h] by (simp add: cb_ok_def)
  with A(1) show ?thesis by (intro ok_but_ok) simp_all
qed

lemma ok_listening:
  assumes ok: "ok fr w" and o: "open_handle w x c" and c: "c \<in> {TCPC, PipeC}" and h: "held fr w x" and v: "held fr w v"
  shows "ok fr (assign_slot x S_on_new_connection_cb v (uv__handle_start x (upd_uv x listening w)))"
proof -
  note D = open_handleD [OF ok o]
  let ?w1 = "upd_uv x listening w" and ?w2 = "uv__handle_start x (upd_uv x listening w)"
  have k: "kind (objs w ! x) = KHandle c" "initialized (hs w x)" "\<not> u_closing (uvh w x)" using o by (auto simp: open_handle_def)
  obtain l where l: "u_loop (uvh w x) = Some l" using D(7) by blast
  have e1: "objs ?w1 = objs w" "ext ?w1 = ext w" by (simp_all add: upd_uv_def)
  have "wf_refs fr ?w1" by (rule wf_req_pointers [OF okD(1) [OF ok]]) (simp_all add: listening_def)
  moreover have inv1: "uv_inv ?w1" by (rule uv_inv_upd_uv [OF okD(2) [OF ok]]) (simp_all add: listening_def)
  moreover have "cb_ok ?w1 y" if "y \<noteq> x" for y
    by (rule cb_ok_cong [OF okD(3) [OF ok, of y]]) (use that in \<open>simp_all add: upd_uv_def\<close>)
  ultimately have b1: "ok_but x fr ?w1" by (simp add: ok_but_def)
  have "uv_inv ?w2"
    by (rule uv_inv_plain_start [OF inv1, of _ l "uv_type_of c"])
      (use l k c D(6) in \<open>auto simp: uv_defs listening_def plain_type_def\<close>)
  then have b2: "ok_but x fr ?w2"
    by (intro ok_but_quiet [OF b1]) (simp_all add: quiet local_steps)
  have q: "uv_quiet ?w1 ?w2" by (simp add: quiet)
  then have e2: "objs ?w2 = objs w" "ext ?w2 = ext w" using e1 by (auto simp: uv_quiet_def)
  have u2: "initialized (hs ?w2 x)" "u_closing (uvh ?w2 x) = u_closing (uvh w x)" "u_reading (uvh ?w2 x) = u_reading (uvh w x)"
    "u_fd (uvh ?w2 x) = u_fd (uvh w x)" "pyref (hs ?w2 x) = pyref (hs w x)" "u_listening (uvh ?w2 x)"
    using k by (simp_all add: uv__handle_start_def uv__active_handle_add_def Let_def upd_uv_def upd_uvl_def listening_def)
  have "valid ?w2 v" using held_valid [OF okD(1) [OF ok] v] e2 by (simp add: valid_def)
  moreover have "field_ok c (hs ?w2 x) ((slots (objs ?w2 ! x))(S_on_new_connection_cb := Some v))"
    using D(3) k c u2 by (auto simp: field_ok_def e2 reads_class_def keeps_alive_def)
  ultimately show ?thesis
    using b2 h k(1) D(4) c by (intro ok_assign_conn) (simp_all add: held_def e2 u2)
qed

lemma stable_listening: "undisturbed w (assign_slot x S_on_new_connection_cb v (uv__handle_start x (upd_uv x listening w)))"
proof -
  have "undisturbed w (upd_uv x listening w)"
    by (rule stable_hs) (auto simp: upd_uv_def listening_def split: if_splits)
  moreover have "undisturbed (upd_uv x listening w) (uv__handle_start x (upd_uv x listening w))"
    by (rule stable_quiet) (simp add: quiet)
  ultimately show ?thesis using stable_trans stable_assign_slot by blast
qed

section \<open>Connecting\<close>

text \<open>\<open>connect_req\<close> is set before pyuv has taken its references; the order does not show.\<close>

lemma connecting_commutes:
  "add_req r (Py_INCREF x (connecting h p w)) = connecting h p (add_req r (Py_INCREF x w))"
  by (simp add: add_req_def Py_INCREF_def connecting_def upd_defs)

lemma ok_connecting: "ok fr w \<Longrightarrow> has_req ConnectReq h w \<Longrightarrow> ok fr (connecting h p w)"
  unfolding connecting_def by (rule ok_upd_uv) simp_all

lemma stable_connecting: "undisturbed w (connecting h p w)"
  unfolding connecting_def by (rule stable_hs) (auto simp: upd_uv_def split: if_splits)

lemma connect_queued:
  assumes ok: "ok (add_mset v fr) w" and i: "initialized (hs w x)" and h: "valid w x" and nc: "\<not> u_closing (uvh w x)"
    and t: "u_type (uvh w x) \<in> {Some UV_TCP, Some UV_NAMED_PIPE}"
    and r: "r = \<lparr>rq_type = ConnectReq, rq_obj = x, rq_callback = v, rq_send_handle = None, rq_views = [], rq_status = None\<rparr>"
  shows "ok fr (add_req r (Py_INCREF x (connecting x p (uv__req_register l w))))"
    "undisturbed w (add_req r (Py_INCREF x (connecting x p (uv__req_register l w))))"
proof -
  let ?w1 = "uv__req_register l w" and ?w2 = "Py_INCREF x (uv__req_register l w)"
  have o1: "ok (add_mset v fr) ?w1" by (rule ok_req_register [OF ok])
  have e: "hs ?w1 = hs w" "objs ?w1 = objs w" by (simp_all add: uv__req_register_def upd_uvl_def)
  have "ok (add_mset x (add_mset v fr)) ?w2"
    by (rule ok_INCREF [OF o1]) (use h in \<open>simp add: valid_def e\<close>)
  then have o2: "ok (mset (rq_refs r) + fr) ?w2" by (simp add: r rq_refs_def)
  have o3: "ok fr (add_req r ?w2)"
    by (rule ok_add_req [OF o2]) (use i t in \<open>simp_all add: r e req_fits_def\<close>)
  have "has_req ConnectReq x (add_req r ?w2)" by (simp add: has_req_def r add_req_def)
  from ok_connecting [OF o3 this, of p] show "ok fr (add_req r (Py_INCREF x (connecting x p ?w1)))"
    by (simp only: connecting_commutes)
  have s: "undisturbed w ?w2" unfolding uv__req_register_def by (rule stable_trans [OF stable_upd_uvl stable_INCREF]) simp
  have "undisturbed ?w2 (add_req r ?w2)"
    by (rule stable_req) (use nc in \<open>simp_all add: r e\<close>)
  from stable_trans [OF stable_trans [OF s this] stable_connecting]
  show "undisturbed w (add_req r (Py_INCREF x (connecting x p ?w1)))"
    by (simp only: connecting_commutes)
qed

definition connected :: "oid \<Rightarrow> world \<Rightarrow> int \<Rightarrow> world \<Rightarrow> bool" where
  "connected h w e w' \<longleftrightarrow> (\<exists>w1 p. sock_step {h} w w1 \<and>
     w' = (if e = 0 then connecting h p (uv__req_register (loop_of w1 h) w1) else w1))"

lemma connected_fail: "e \<noteq> 0 \<Longrightarrow> sock_step {h} w w' \<Longrightarrow> connected h w e w'"
  by (simp add: connected_def)

lemma connected_now: "sock_step {h} w w1 \<Longrightarrow> connected h w 0 (connecting h p (uv__req_register (loop_of w1 h) w1))"
  by (auto simp: connected_def)

lemma tcp_connect_results: "all_results (connected h w) (uv__tcp_connect os h addr w)"
  unfolding uv__tcp_connect_def Let_def
  by (intro results results_case [OF new_socket_results] connected_fail connected_now sock_step_then)
    (auto simp: sock_fun_def UV_EALREADY_def)

lemma tcp_connect_cases:
  assumes "uv_tcp_connect os h addr w = Some (e, w')"
  shows "connected h w e w'" "e = 0 \<Longrightarrow> u_type (uvh w h) = Some UV_TCP"
proof -
  show "connected h w e w'"
    using assms all_resultsD [OF tcp_connect_results] connected_fail [of UV_EINVAL h w w]
    by (auto simp: uv_tcp_connect_def UV_EINVAL_def split: sockaddr.splits if_splits)
  show "e = 0 \<Longrightarrow> u_type (uvh w h) = Some UV_TCP"
    using assms by (auto simp: uv_tcp_connect_def UV_EINVAL_def split: if_splits)
qed

lemma pipe_connect_cases:
  assumes "uv_pipe_connect os h w = Some w'"
  shows "connected h w 0 w'"
proof -
  define w1 where "w1 = (if u_fd (uvh w h) = - 1 \<and> 0 \<le> os_socket os then upd_uv h (stream_opened (os_socket os)) w else w)"
  define r where "r = (if u_fd (uvh w h) = - 1 \<and> os_socket os < 0 then Some (os_socket os, w1)
      else if os_connect os \<noteq> 0 \<and> os_connect os \<noteq> EINPROGRESS then Some (- int (os_connect os), w1)
      else if u_fd (uvh w h) = - 1 then uv__stream_open os h (u_fd (uvh w1 h)) True True w1
      else Some (0, w1))"
  have 1: "sock_step {h} w w1"
    unfolding w1_def using sock_step_opened [of w h "os_socket os"] by auto
  have o: "all_results (\<lambda>e w2. sock_step {h} w w2) (uv__stream_open os h fd True True w1)" for fd
    using sock_step_trans [OF 1 stream_open_step(1)] by (auto simp: all_results_def)
  have "all_results (\<lambda>e w2. sock_step {h} w w2) r"
    unfolding r_def by (intro results o) (simp_all add: 1)
  moreover obtain err w2 where r: "r = Some (err, w2)" and
    w': "w' = (let w3 = upd_uv h (\<lambda>u. u\<lparr>u_delayed := err\<rparr>) w2
      in connecting h (err = 0) (uv__req_register (loop_of w3 h) w3))"
    using assms unfolding uv_pipe_connect_def Let_def w1_def [symmetric] r_def [symmetric]
    by (auto split: option.splits)
  ultimately have "sock_step {h} w w2" by (auto simp: all_results_def)
  then have "sock_step {h} w (upd_uv h (\<lambda>u. u\<lparr>u_delayed := err\<rparr>) w2)"
    by (rule sock_step_then) (simp_all add: sock_fun_def)
  then show ?thesis unfolding w' Let_def by (rule connected_now)
qed

section \<open>Initialising\<close>

text \<open>The struct of a socket handle as libuv leaves it.\<close>

definition sock_inited :: "oid \<Rightarrow> oid \<Rightarrow> uv_handle_type \<Rightarrow> world \<Rightarrow> world \<Rightarrow> bool" where
  "sock_inited l x t w w1 \<longleftrightarrow> objs w1 = objs w \<and> ext w1 = ext w \<and> pend w1 = pend w \<and> trace w1 = trace w \<and>
     (\<forall>y. y \<noteq> x \<longrightarrow> hs w1 y = hs w y) \<and> uv_inv w1 \<and> u_loop (uvh w1 x) = Some l \<and> u_type (uvh w1 x) = Some t \<and>
     \<not> u_closing (uvh w1 x) \<and> \<not> u_closed (uvh w1 x) \<and> \<not> u_reading (uvh w1 x) \<and> \<not> u_listening (uvh w1 x) \<and>
     \<not> u_shutting (uvh w1 x) \<and> \<not> u_connect (uvh w1 x) \<and> \<not> u_active (uvh w1 x) \<and>
     \<not> u_processing (uvh w1 x) \<and> (\<forall>m. same_local (uvl w m) (uvl w1 m))"

definition socket_class :: "hclass \<Rightarrow> bool" where
  "socket_class c \<longleftrightarrow> c \<in> {TCPC, PipeC, TTYC, UDPC}"

lemma sock_inited_step: "sock_inited l x t w w1 \<Longrightarrow> sock_step {x} w1 w2 \<Longrightarrow> sock_inited l x t w w2"
proof -
  assume i: "sock_inited l x t w w1" and s: "sock_step {x} w1 w2"
  note S = sock_stepD [OF s]
  have "\<not> u_processing (uvh w2 x)" using i undisturbed_processing [OF S(3), of x] by (auto simp: sock_inited_def)
  moreover have "uvl w2 m = uvl w1 m" for m using S(8) by simp
  moreover have "hs w2 y = hs w1 y" if "y \<noteq> x" for y using S(10) that by simp
  ultimately show ?thesis using i S(2,4-7) S(9) [of x] by (simp add: sock_inited_def sock_same_def)
qed

lemma sock_inited_upd:
  "sock_inited l x t w w1 \<Longrightarrow> sock_fun f \<Longrightarrow> sock_inited l x t w (upd_uv x f w1)"
  unfolding sock_inited_def
  by (auto simp: sock_funD upd_uv_def intro: uv_inv_upd_uv [of w1 f x, unfolded upd_uv_def])

lemma sock_inited_handle:
  assumes "uv_inv w" and "u_loop (uvh w x) = None" and "t \<noteq> UV_SIGNAL"
    and f: "f = id \<or> f = (\<lambda>u. u\<lparr>u_connect := False, u_shutting := False, u_listening := False, u_accepted := None,
         u_queued := [], u_delayed := 0, u_fd := - 1, u_pollout := False\<rparr>)"
    and n: "\<not> u_listening (uvh w x)" "\<not> u_connect (uvh w x)"
  shows "sock_inited l x t w (upd_uv x f (uv__handle_init l x t w))"
proof -
  have "uv_inv (uv__handle_init l x t w)" by (rule uv_inv_handle_init [OF assms(1,2)]) (use assms(3) in simp)
  then have "uv_inv (upd_uv x f (uv__handle_init l x t w))" by (rule uv_inv_upd_uv) (use f in auto)
  then show ?thesis
    using f n by (auto simp: sock_inited_def uv_defs init_other upd_uv_other)
qed

lemma ok_sock_init:
  assumes ok: "ok fr w" and h: "held fr w x" and k: "kind (objs w ! x) = KHandle c" and c: "socket_class c"
    and ni: "\<not> initialized (hs w x)" and l: "is_loop w l" and s: "sock_inited l x (uv_type_of c) w w1"
  shows "ok fr (initialize_handle x l w1) \<and> undisturbed w (initialize_handle x l w1)"
proof
  note U = uninitD [OF ok h k ni]
  have nf: "\<not> fires c (uvh w1 x)" using s c by (cases c) (simp_all add: sock_inited_def socket_class_def)
  show "ok fr (initialize_handle x l w1)"
    by (rule ok_initialized [OF ok_imp_but [OF ok] h k ni U(1,2) l])
      (use s nf in \<open>simp_all add: sock_inited_def\<close>)
  show "undisturbed w (initialize_handle x l w1)"
    by (rule stable_initialized) (use ni U(5,7) s in \<open>auto simp: sock_inited_def uv_is_closing_def uv_local_def\<close>)
qed

text \<open>A struct that was set up and is not in a loop: nothing refers to it.\<close>

lemma uv_inv_unused:
  assumes inv: "uv_inv w" and n: "u_loop (uvh w x) = None" "u_loop u = None" "uh_ok u"
    and e: "\<And>y. uvh w' y = (if y = x then u else uvh w y)" "\<And>l. uvl w' l = uvl w l"
  shows "uv_inv w'"
proof -
  have "loop_ok w' l" for l
  proof -
    have i: "loop_ok w l" using inv by (simp add: uv_inv_def)
    then have "x \<notin> set (handle_queue (uvl w l))" using n(1) by (auto simp: loop_ok_def)
    then have "filter (\<lambda>h. counted (uvh w' h)) (handle_queue (uvl w l)) = filter (\<lambda>h. counted (uvh w h)) (handle_queue (uvl w l))"
      by (intro filter_cong) (auto simp: e)
    then show ?thesis using i n by (auto simp: loop_ok_def e)
  qed
  moreover have "uh_ok (uvh w' y)" for y using inv n(3) by (simp add: uv_inv_def e)
  ultimately show ?thesis by (simp add: uv_inv_def)
qed

lemma ok_failed_init:
  assumes ok: "ok fr w" and h: "held fr w x" and k: "kind (objs w ! x) = KHandle c"
    and ni: "\<not> initialized (hs w x)" and s: "sock_step {x} (uv__stream_init l x UV_TCP w) w2"
  defines "w' \<equiv> upd_uvl l (\<lambda>lp. lp\<lparr>handle_queue := removeAll x (handle_queue lp)\<rparr>)
      (upd_uv x (\<lambda>u. u\<lparr>u_loop := None\<rparr>) w2)"
  shows "ok fr w' \<and> undisturbed w w'"
proof
  note U = uninitD [OF ok h k ni]
  let ?w1 = "uv__stream_init l x UV_TCP w"
  have i: "sock_inited l x UV_TCP w ?w1"
    unfolding uv__stream_init_def by (rule sock_inited_handle [OF okD(2) [OF ok] U(3)]) (use U in simp_all)
  have i2: "sock_inited l x UV_TCP w w2" by (rule sock_inited_step [OF i s])
  have nq: "x \<notin> set (handle_queue (uvl w m))" for m
    using okD(2) [OF ok] U(3) by (auto simp: uv_inv_def loop_ok_def)
  have "loops ?w1 = (loops w)(l := (loops w l)\<lparr>lp := (uvl w l)\<lparr>handle_queue := handle_queue (uvl w l) @ [x]\<rparr>\<rparr>)"
    by (simp add: uv__stream_init_def uv__handle_init_def upd_uv_def upd_uvl_def)
  then have lw: "loops w' = loops w"
    using sock_stepD(8) [OF s] nq by (simp add: w'_def upd_uv_def upd_uvl_def removeAll_id)
  have e: "objs w' = objs w" "ext w' = ext w" "pend w' = pend w" "trace w' = trace w"
    using i2 by (simp_all add: w'_def sock_inited_def upd_uv_def upd_uvl_def)
  let ?s = "(hs w2 x)\<lparr>uv := (uvh w2 x)\<lparr>u_loop := None\<rparr>\<rparr>"
  have hw: "hs w' = (hs w)(x := ?s)"
    using i2 by (auto simp: w'_def sock_inited_def upd_uv_def upd_uvl_def)
  have p2: "pyref (hs w2 x) = pyref (hs w x)" "initialized (hs w2 x) = initialized (hs w x)"
    using sock_stepD(9) [OF s, of x]
    by (simp_all add: sock_same_def uv__stream_init_def uv__handle_init_def upd_uv_def upd_uvl_def)
  have "wf_refs fr (w\<lparr>hs := (hs w)(x := ?s)\<rparr>)"
  proof (rule wf_hs_upd [OF okD(1) [OF ok]])
    show "handle_ok (w\<lparr>hs := (hs w)(x := ?s)\<rparr>) x"
      using wf_handle_ok [OF okD(1) [OF ok], of x] ni i2 p2 by (auto simp: handle_ok_def sock_inited_def)
  qed (use p2 i2 U in \<open>simp add: self_refs_def sock_inited_def\<close>)
  then have "wf_refs fr w'" by (rule wf_same_ledger [rotated]) (simp add: same_ledger_def e hw)
  moreover have "uv_inv w'"
    by (rule uv_inv_unused [OF okD(2) [OF ok] U(3), where u = "uv ?s"])
      (use i2 uv_inv_uh [of w2 x] in \<open>auto simp: hw lw sock_inited_def uh_ok_def\<close>)
  moreover have "cb_ok w' y" for y
  proof (cases "y = x")
    case True
    have "field_ok c (hs w x) (slots (objs w ! x))"
      using okD(3) [OF ok, of x] k held_valid [OF okD(1) [OF ok] h] by (auto simp: cb_ok_def valid_def)
    then show ?thesis using True i2 ni p2 k
      by (auto simp: cb_ok_def hw e field_ok_def sock_inited_def)
  next
    case False
    then show ?thesis by (intro cb_ok_cong [OF okD(3) [OF ok, of y]]) (simp_all add: hw e)
  qed
  ultimately show "ok fr w'" by (simp add: ok_def)
  show "undisturbed w w'"
    by (rule stable_uninit [OF ni]) (use U(5,7) i2 in \<open>simp_all add: e hw lw uv_is_closing_def sock_inited_def\<close>)
qed

text \<open>What \<open>__init__\<close> of the stream classes does with the answer of libuv.\<close>

definition tcp_inited :: "oid \<Rightarrow> oid \<Rightarrow> world \<Rightarrow> int \<Rightarrow> world \<Rightarrow> bool" where
  "tcp_inited l x w e w' \<longleftrightarrow>
     e = 0 \<and> sock_step {x} (uv__stream_init l x UV_TCP w) w' \<or> e \<noteq> 0 \<and> w' = w \<or>
     e \<noteq> 0 \<and> (\<exists>w2. sock_step {x} (uv__stream_init l x UV_TCP w) w2 \<and>
       w' = upd_uvl l (\<lambda>lp. lp\<lparr>handle_queue := removeAll x (handle_queue lp)\<rparr>)
         (upd_uv x (\<lambda>u. u\<lparr>u_loop := None\<rparr>) w2))"

lemma tcp_inited_intros:
  "sock_step {x} (uv__stream_init l x UV_TCP w) w' \<Longrightarrow> tcp_inited l x w 0 w'"
  "e \<noteq> 0 \<Longrightarrow> tcp_inited l x w e w"
  "e \<noteq> 0 \<Longrightarrow> sock_step {x} (uv__stream_init l x UV_TCP w) w2 \<Longrightarrow>
    tcp_inited l x w e (upd_uvl l (\<lambda>lp. lp\<lparr>handle_queue := removeAll x (handle_queue lp)\<rparr>)
      (upd_uv x (\<lambda>u. u\<lparr>u_loop := None\<rparr>) w2))"
  by (auto simp: tcp_inited_def)

lemma tcp_init_results: "all_results (tcp_inited l x w) (uv_tcp_init_ex os l x flags w)"
  unfolding uv_tcp_init_ex_def Let_def
  by (intro results results_case [OF new_socket_results]; (rule tcp_inited_intros)?)
    (simp_all add: UV_EINVAL_def)

end
