(* ===== verification/Tcp.thy ===== *)
theory Tcp
  imports Socket_Rules
begin

text \<open>
  The class \<open>TCP\<close> (src/tcp.c): its methods, with the rules that each of them keeps the
  invariant of the state and leaves running callbacks undisturbed.
\<close>

section \<open>The shape of the methods\<close>

text \<open>A libuv call whose failure becomes an exception of the class.\<close>

definition uv_result :: "uvexc \<Rightarrow> (int \<times> world) option \<Rightarrow> world \<Rightarrow> unit result \<times> world" where
  "uv_result exc r w =
     (case r of
        None \<Rightarrow> (Abort, w)
      | Some (err, w1) \<Rightarrow> if err < 0 then (Raise (UVExc exc err), w1) else (Ok (), w1))"

definition keeping :: "oid multiset \<Rightarrow> world \<Rightarrow> 'a result \<times> world \<Rightarrow> bool" where
  "keeping fr w p \<longleftrightarrow> (ok fr (snd p) \<or> fst p = Abort) \<and> undisturbed w (snd p)"

lemma keepingI: "ok fr w' \<and> undisturbed w w' \<Longrightarrow> keeping fr w (r, w')"
  by (simp add: keeping_def)

lemma keeping_abort: "undisturbed w w' \<Longrightarrow> keeping fr w (Abort, w')"
  by (simp add: keeping_def)

lemma keeping_same: "ok fr w \<Longrightarrow> keeping fr w (r, w)"
  by (simp add: keeping_def)

lemma keeping_method:
  assumes "ok fr w" and "\<And>a. initialized (hs w x) \<Longrightarrow> \<not> uv_is_closing x w \<Longrightarrow> args = Inr a \<Longrightarrow> keeping fr w (f a)"
  shows "keeping fr w (RAISE_IF_HANDLE_NOT_INITIALIZED x w (RAISE_IF_HANDLE_CLOSED x w (PyArg_Parse args w f)))"
  using assms by (auto simp: guard_defs keeping_same split: sum.splits)

lemma keeping_method0:
  assumes "ok fr w" and "initialized (hs w x) \<Longrightarrow> \<not> uv_is_closing x w \<Longrightarrow> keeping fr w k"
  shows "keeping fr w (RAISE_IF_HANDLE_NOT_INITIALIZED x w (RAISE_IF_HANDLE_CLOSED x w k))"
  using assms by (auto simp: guard_defs keeping_same)

lemma keeping_init:
  assumes "ok fr w" and "\<And>a. \<not> initialized (hs w x) \<Longrightarrow> args = Inr a \<Longrightarrow> keeping fr w (f a)"
  shows "keeping fr w (RAISE_IF_HANDLE_INITIALIZED x w (PyArg_Parse args w f))"
  using assms by (auto simp: guard_defs keeping_same split: sum.splits)

lemma keeping_sock:
  assumes "ok fr w" and "sock_step A w w'"
  shows "keeping fr w (r, w')"
  using sock_stepD(1,3) [OF assms(2)] assms(1) by (simp add: keeping_def)

lemma keeping_uv_result:
  assumes "ok fr w" and "\<And>e w'. r = Some (e, w') \<Longrightarrow> sock_step A w w'"
  shows "keeping fr w (uv_result exc r w)"
  using assms keeping_sock [OF assms(1)] by (auto simp: uv_result_def keeping_abort split: option.splits)

section \<open>Socket options\<close>

text \<open>
  \<open>uv__socket_sockopt\<close> of unix/core.c: a value of 0 asks for the option, any other sets it.
  \<open>getopt\<close> and \<open>setopt\<close> are the answers of \<open>getsockopt\<close> and \<open>setsockopt\<close>.
\<close>

definition UV_ENOTSUP :: int where "UV_ENOTSUP = -95"

definition uv__socket_sockopt :: "(nat + int) \<Rightarrow> (int \<Rightarrow> nat) \<Rightarrow> oid \<Rightarrow> int \<Rightarrow> world \<Rightarrow> int + int" where
  "uv__socket_sockopt getopt setopt h value w =
     (if u_type (uvh w h) \<notin> {Some UV_TCP, Some UV_NAMED_PIPE, Some UV_UDP} then Inl UV_ENOTSUP
      else if value = 0 then (case getopt of Inl e \<Rightarrow> Inl (- int e) | Inr v \<Rightarrow> Inr v)
      else if setopt value \<noteq> 0 then Inl (- int (setopt value)) else Inr value)"

definition buffer_size_get :: "uvexc \<Rightarrow> (nat + int) \<Rightarrow> (int \<Rightarrow> nat) \<Rightarrow> oid \<Rightarrow> world \<Rightarrow> int result \<times> world" where
  "buffer_size_get exc getopt setopt self w =
     RAISE_IF_HANDLE_NOT_INITIALIZED self w
     (case uv__socket_sockopt getopt setopt self 0 w of
        Inl err \<Rightarrow> (if err < 0 then Raise (UVExc exc err) else Ok 0, w)
      | Inr v \<Rightarrow> (Ok v, w))"

text \<open>\<open>None\<close> deletes the attribute; the value is an int, which \<open>PyInt_AsLong\<close> may refuse.\<close>

definition buffer_size_set ::
    "uvexc \<Rightarrow> (nat + int) \<Rightarrow> (int \<Rightarrow> nat) \<Rightarrow> oid \<Rightarrow> int args option \<Rightarrow> world \<Rightarrow> unit result \<times> world" where
  "buffer_size_set exc getopt setopt self value w =
     RAISE_IF_HANDLE_NOT_INITIALIZED self w
     (case value of
        None \<Rightarrow> (Raise TypeError, w)
      | Some a \<Rightarrow> PyArg_Parse a w (\<lambda>n.
          case uv__socket_sockopt getopt setopt self (sint (word_of_int n :: 32 word)) w of
            Inl err \<Rightarrow> (if err < 0 then Raise (UVExc exc err) else Ok (), w)
          | Inr v \<Rightarrow> (Ok (), w)))"

section \<open>Methods\<close>

definition TCP_tp_new :: "world \<Rightarrow> oid result \<times> world" where
  "TCP_tp_new = Handle_tp_new TCPC"

definition TCP_tp_init :: "os_answers \<Rightarrow> oid \<Rightarrow> (oid \<times> int) args \<Rightarrow> world \<Rightarrow> unit result \<times> world" where
  "TCP_tp_init os self args w =
     RAISE_IF_HANDLE_INITIALIZED self w
     (PyArg_Parse args w (\<lambda>(loop, family).
       case uv_tcp_init_ex os loop self (word_of_int family) w of
         None \<Rightarrow> (Abort, w)
       | Some (err, w1) \<Rightarrow>
           if err < 0 then (Raise (UVExc TCPError err), w1)
           else (Ok (), initialize_handle self loop w1)))"

definition TCP_func_bind :: "os_answers \<Rightarrow> oid \<Rightarrow> (addr_arg \<times> int) args \<Rightarrow> world \<Rightarrow> unit result \<times> world" where
  "TCP_func_bind os self args w =
     RAISE_IF_HANDLE_NOT_INITIALIZED self w
     (RAISE_IF_HANDLE_CLOSED self w
     (PyArg_Parse args w (\<lambda>(addr, flags).
       case pyuv_parse_addr_tuple addr of
         Inl e \<Rightarrow> (Raise e, w)
       | Inr ss \<Rightarrow> uv_result TCPError (uv_tcp_bind os self ss (word_of_int flags) w) w)))"

text \<open>The callback and the backlog, which is 511 when it is not given.\<close>

definition TCP_func_listen :: "os_answers \<Rightarrow> oid \<Rightarrow> (oid \<times> int option) args \<Rightarrow> world \<Rightarrow> unit result \<times> world" where
  "TCP_func_listen os self args w =
     RAISE_IF_HANDLE_NOT_INITIALIZED self w
     (RAISE_IF_HANDLE_CLOSED self w
     (PyArg_Parse args w (\<lambda>(callback, bl).
       let backlog = (case bl of None \<Rightarrow> 511 | Some n \<Rightarrow> n)
       in if backlog < 0 then (Raise ValueError, w)
          else if \<not> PyCallable_Check w callback then (Raise TypeError, w)
          else case uv_listen os self w of
                 None \<Rightarrow> (Abort, w)
               | Some (err, w1) \<Rightarrow>
                   if err < 0 then (Raise (UVExc TCPError err), w1)
                   else (Ok (), assign_slot self S_on_new_connection_cb callback w1))))"

definition is_stream :: "world \<Rightarrow> oid \<Rightarrow> bool" where
  "is_stream w x = (case kind (objs w ! x) of KHandle c \<Rightarrow> stream_class c | _ \<Rightarrow> False)"

definition TCP_func_accept :: "os_answers \<Rightarrow> oid \<Rightarrow> oid args \<Rightarrow> world \<Rightarrow> unit result \<times> world" where
  "TCP_func_accept os self args w =
     RAISE_IF_HANDLE_NOT_INITIALIZED self w
     (RAISE_IF_HANDLE_CLOSED self w
     (PyArg_Parse args w (\<lambda>client.
       if \<not> is_stream w client then (Raise TypeError, w)
       else uv_result TCPError (uv_accept os self client w) w)))"

definition connect_ctx :: "oid \<Rightarrow> oid \<Rightarrow> request_ctx" where
  "connect_ctx self callback =
     \<lparr>rq_type = ConnectReq, rq_obj = self, rq_callback = callback, rq_send_handle = None, rq_views = [], rq_status = None\<rparr>"

definition TCP_func_connect ::
    "bool \<Rightarrow> os_answers \<Rightarrow> oid \<Rightarrow> (addr_arg \<times> oid) args \<Rightarrow> world \<Rightarrow> unit result \<times> world" where
  "TCP_func_connect mem os self args w =
     RAISE_IF_HANDLE_NOT_INITIALIZED self w
     (RAISE_IF_HANDLE_CLOSED self w
     (PyArg_Parse args w (\<lambda>(addr, callback).
       if \<not> PyCallable_Check w callback then (Raise TypeError, w)
       else case pyuv_parse_addr_tuple addr of
         Inl e \<Rightarrow> (Raise e, w)
       | Inr ss \<Rightarrow>
           let w1 = Py_INCREF callback w
           in if \<not> mem then (Raise MemoryError, Py_DECREF callback w1)
              else case uv_tcp_connect os self ss w1 of
                     None \<Rightarrow> (Abort, w1)
                   | Some (err, w2) \<Rightarrow>
                       if err < 0 then (Raise (UVExc TCPError err), Py_DECREF callback w2)
                       else (Ok (), add_req (connect_ctx self callback) (Py_INCREF self w2)))))"

definition sock_name_result :: "uvexc \<Rightarrow> int + sockaddr \<Rightarrow> py_addr result" where
  "sock_name_result exc r =
     (case r of Inl err \<Rightarrow> if err < 0 then Raise (UVExc exc err) else Ok NoAddress | Inr a \<Rightarrow> Ok (makesockaddr a))"

definition TCP_func_getsockname :: "(nat + sockaddr) \<Rightarrow> oid \<Rightarrow> world \<Rightarrow> py_addr result \<times> world" where
  "TCP_func_getsockname name self w =
     RAISE_IF_HANDLE_NOT_INITIALIZED self w
     (RAISE_IF_HANDLE_CLOSED self w (sock_name_result TCPError (uv_tcp_getsockname name self w), w))"

definition TCP_func_getpeername :: "(nat + sockaddr) \<Rightarrow> oid \<Rightarrow> world \<Rightarrow> py_addr result \<times> world" where
  "TCP_func_getpeername name self w =
     RAISE_IF_HANDLE_NOT_INITIALIZED self w
     (RAISE_IF_HANDLE_CLOSED self w (sock_name_result TCPError (uv_tcp_getpeername name self w), w))"

definition TCP_family_get :: "(nat + sockaddr) \<Rightarrow> oid \<Rightarrow> world \<Rightarrow> int result \<times> world" where
  "TCP_family_get name self w =
     RAISE_IF_HANDLE_NOT_INITIALIZED self w
     (case uv_tcp_getsockname name self w of
        Inl err \<Rightarrow> (if err < 0 then Raise (UVExc TCPError err) else Ok 0, w)
      | Inr a \<Rightarrow> (Ok (sa_family a), w))"

definition TCP_func_nodelay :: "os_answers \<Rightarrow> oid \<Rightarrow> bool args \<Rightarrow> world \<Rightarrow> unit result \<times> world" where
  "TCP_func_nodelay os self args w =
     RAISE_IF_HANDLE_NOT_INITIALIZED self w
     (RAISE_IF_HANDLE_CLOSED self w
     (PyArg_Parse args w (\<lambda>enable. uv_result TCPError (Some (uv_tcp_nodelay os self enable w)) w)))"

text \<open>The delay is passed on to \<open>setsockopt\<close>.\<close>

definition TCP_func_keepalive :: "os_answers \<Rightarrow> oid \<Rightarrow> (bool \<times> 32 word) args \<Rightarrow> world \<Rightarrow> unit result \<times> world" where
  "TCP_func_keepalive os self args w =
     RAISE_IF_HANDLE_NOT_INITIALIZED self w
     (RAISE_IF_HANDLE_CLOSED self w
     (PyArg_Parse args w (\<lambda>(enable, delay). uv_result TCPError (Some (uv_tcp_keepalive os self enable w)) w)))"

definition TCP_func_simultaneous_accepts :: "oid \<Rightarrow> bool args \<Rightarrow> world \<Rightarrow> unit result \<times> world" where
  "TCP_func_simultaneous_accepts self args w =
     RAISE_IF_HANDLE_NOT_INITIALIZED self w
     (RAISE_IF_HANDLE_CLOSED self w
     (PyArg_Parse args w (\<lambda>enable. uv_result TCPError (Some (uv_tcp_simultaneous_accepts self enable w)) w)))"

text \<open>The descriptor is a C \<open>long\<close> that is cast to \<open>int\<close>.\<close>

definition int_cast :: "int \<Rightarrow> int" where
  "int_cast n = sint (word_of_int n :: 32 word)"

definition TCP_func_open :: "os_answers \<Rightarrow> oid \<Rightarrow> int args \<Rightarrow> world \<Rightarrow> unit result \<times> world" where
  "TCP_func_open os self args w =
     RAISE_IF_HANDLE_NOT_INITIALIZED self w
     (RAISE_IF_HANDLE_CLOSED self w
     (PyArg_Parse args w (\<lambda>fd. uv_result TCPError (uv_tcp_open os self (int_cast fd) w) w)))"

definition TCP_sndbuf_get :: "(nat + int) \<Rightarrow> (int \<Rightarrow> nat) \<Rightarrow> oid \<Rightarrow> world \<Rightarrow> int result \<times> world" where
  "TCP_sndbuf_get = buffer_size_get TCPError"

definition TCP_rcvbuf_get :: "(nat + int) \<Rightarrow> (int \<Rightarrow> nat) \<Rightarrow> oid \<Rightarrow> world \<Rightarrow> int result \<times> world" where
  "TCP_rcvbuf_get = buffer_size_get TCPError"

definition TCP_sndbuf_set ::
    "(nat + int) \<Rightarrow> (int \<Rightarrow> nat) \<Rightarrow> oid \<Rightarrow> int args option \<Rightarrow> world \<Rightarrow> unit result \<times> world" where
  "TCP_sndbuf_set = buffer_size_set TCPError"

definition TCP_rcvbuf_set ::
    "(nat + int) \<Rightarrow> (int \<Rightarrow> nat) \<Rightarrow> oid \<Rightarrow> int args option \<Rightarrow> world \<Rightarrow> unit result \<times> world" where
  "TCP_rcvbuf_set = buffer_size_set TCPError"

section \<open>The methods keep the invariant\<close>

lemma keeping_sock_init:
  assumes ok: "ok fr w" and h: "held fr w x" and k: "kind (objs w ! x) = KHandle c" and c: "socket_class c"
    and ni: "\<not> initialized (hs w x)" and l: "is_loop w l" and s: "sock_inited l x (uv_type_of c) w w1"
  shows "keeping fr w (r, initialize_handle x l w1)"
  by (rule keepingI) (rule ok_sock_init [OF assms])

lemma stream_inited:
  assumes ok: "ok fr w" and h: "held fr w x" and k: "kind (objs w ! x) = KHandle c" and ni: "\<not> initialized (hs w x)"
    and t: "t \<noteq> UV_SIGNAL"
  shows "sock_inited l x t w (uv__stream_init l x t w)"
proof -
  note U = uninitD [OF ok h k ni]
  show ?thesis
    unfolding uv__stream_init_def by (rule sock_inited_handle [OF okD(2) [OF ok] U(3) t]) (use U in simp_all)
qed

lemma keeping_TCP_tp_init:
  assumes ok: "ok fr w" and h: "held fr w x" and k: "kind (objs w ! x) = KHandle TCPC"
    and a: "\<And>l f. args = Inr (l, f) \<Longrightarrow> is_loop w l"
  shows "keeping fr w (TCP_tp_init os x args w)"
  unfolding TCP_tp_init_def
proof (rule keeping_init [OF ok], clarify)
  fix l f assume ni: "\<not> initialized (hs w x)" and ar: "args = Inr (l, f)"
  note t = tcp_init_results [of l x w os "word_of_int f"]
  have i: "sock_inited l x UV_TCP w (uv__stream_init l x UV_TCP w)" by (rule stream_inited [OF ok h k ni]) simp
  show "keeping fr w (case uv_tcp_init_ex os l x (word_of_int f) w of None \<Rightarrow> (Abort, w)
      | Some (err, w1) \<Rightarrow> if err < 0 then (Raise (UVExc TCPError err), w1) else (Ok (), initialize_handle x l w1))"
  proof (cases "uv_tcp_init_ex os l x (word_of_int f) w")
    case None
    then show ?thesis by (simp add: keeping_abort)
  next
    case (Some p)
    obtain err w1 where p: "p = (err, w1)" by fastforce
    have c: "tcp_inited l x w err w1" using t Some p by (auto simp: all_results_def)
    consider "err = 0" "sock_step {x} (uv__stream_init l x UV_TCP w) w1" | "err \<noteq> 0" "ok fr w1 \<and> undisturbed w w1"
      using c ok ok_failed_init [OF ok h k ni] unfolding tcp_inited_def by auto
    then show ?thesis
    proof cases
      case 1
      have "keeping fr w (Ok (), initialize_handle x l w1)"
        by (rule keeping_sock_init [OF ok h k _ ni a [OF ar]])
          (use sock_inited_step [OF i 1(2)] in \<open>simp_all add: socket_class_def\<close>)
      then show ?thesis using Some p 1 by simp
    next
      case 2
      have "0 \<le> err \<Longrightarrow> False" using 2(1) Some p
        by (auto simp: uv_tcp_init_ex_def Let_def UV_EINVAL_def maybe_new_socket_def uv__stream_open_def UV_EBUSY_def
            split: if_splits option.splits)
      then show ?thesis using Some p 2 by (auto simp: keeping_def)
    qed
  qed
qed

lemma keeping_TCP_bind: "ok fr w \<Longrightarrow> keeping fr w (TCP_func_bind os x args w)"
  unfolding TCP_func_bind_def
  by (rule keeping_method, assumption)
    (auto split: sum.split intro!: keeping_same keeping_uv_result [where A = "{x}"] tcp_bind_step)

lemma keeping_TCP_options:
  assumes "ok fr w"
  shows "keeping fr w (TCP_func_nodelay os x a w)" "keeping fr w (TCP_func_keepalive os x a2 w)"
    "keeping fr w (TCP_func_simultaneous_accepts x a w)" "keeping fr w (TCP_func_open os x a3 w)"
  unfolding TCP_func_nodelay_def TCP_func_keepalive_def TCP_func_simultaneous_accepts_def TCP_func_open_def
  by (rule keeping_method [OF assms];
      auto intro!: keeping_uv_result [OF assms, where A = "{x}"] intro: tcp_options_step opens_step)+

lemma keeping_TCP_accept: "ok fr w \<Longrightarrow> keeping fr w (TCP_func_accept os x args w)"
  unfolding TCP_func_accept_def
  by (rule keeping_method) (auto intro: keeping_same keeping_uv_result accept_step)

text \<open>\<open>listen\<close> of both classes that can listen.\<close>

lemma keeping_listen:
  assumes ok: "ok fr w" and h: "held fr w x" and k: "kind (objs w ! x) = KHandle c" and c: "c \<in> {TCPC, PipeC}"
    and i: "initialized (hs w x)" and nc: "\<not> uv_is_closing x w" and v: "held fr w v"
    and l: "uv_listen os x w = Some (err, w1)"
  shows "keeping fr w (r, w1) \<or> err = 0" "keeping fr w (r, assign_slot x S_on_new_connection_cb v w1)"
proof -
  from listen_cases [OF l] obtain w0 where w0: "sock_step {x} w w0" "err \<noteq> 0 \<Longrightarrow> w1 = w0"
    "err = 0 \<Longrightarrow> w1 = uv__handle_start x (upd_uv x listening w0)" by blast
  have o0: "ok fr w0" "undisturbed w w0" using sock_stepD(1,3) [OF w0(1)] ok by auto
  have e: "objs w0 = objs w" "ext w0 = ext w" using sock_stepD(4,5) [OF w0(1)] by auto
  have h0: "held fr w0 x" "held fr w0 v" using h v by (simp_all add: held_def e)
  have op: "open_handle w0 x c"
    by (rule open_handleI [OF o0(1) h0(1)]) (use k i nc sock_stepD(9) [OF w0(1), of x] in
        \<open>simp_all add: e sock_same_def uv_is_closing_def\<close>)
  show "keeping fr w (r, w1) \<or> err = 0" using w0(2) o0 by (auto intro: keepingI)
  show "keeping fr w (r, assign_slot x S_on_new_connection_cb v w1)"
  proof (cases "err = 0")
    case True
    show ?thesis
      using ok_listening [OF o0(1) op c h0] stable_trans [OF o0(2) stable_listening] w0(3) [OF True]
      by (intro keepingI) simp
  next
    case False
    note D = open_handleD [OF o0(1) op]
    have "ok fr (assign_slot x S_on_new_connection_cb v w0)"
      by (rule ok_assign_conn [OF ok_imp_but [OF o0(1)] h0(1) held_valid [OF okD(1) [OF o0(1)] h0(2)] _ c])
        (use k D(3,4) op e in \<open>auto simp: open_handle_def field_ok_def\<close>)
    then show ?thesis
      using w0(2) [OF False] stable_trans [OF o0(2) stable_assign_slot] by (intro keepingI) simp
  qed
qed

lemma keeping_TCP_listen:
  assumes ok: "ok fr w" and h: "held fr w x" and k: "kind (objs w ! x) = KHandle TCPC"
    and a: "\<And>f n. args = Inr (f, n) \<Longrightarrow> held fr w f"
  shows "keeping fr w (TCP_func_listen os x args w)"
  unfolding TCP_func_listen_def Let_def
proof (rule keeping_method [OF ok], clarify)
  fix f n assume i: "initialized (hs w x)" "\<not> uv_is_closing x w" and ar: "args = Inr (f, n)"
  show "keeping fr w (if (case n of None \<Rightarrow> 511 | Some n \<Rightarrow> n) < 0 then (Raise ValueError, w)
      else if \<not> PyCallable_Check w f then (Raise TypeError, w)
      else case uv_listen os x w of None \<Rightarrow> (Abort, w)
        | Some (err, w1) \<Rightarrow> if err < 0 then (Raise (UVExc TCPError err), w1)
            else (Ok (), assign_slot x S_on_new_connection_cb f w1))"
  proof (cases "uv_listen os x w")
    case None
    then show ?thesis by (simp add: keeping_same [OF ok] keeping_abort)
  next
    case (Some p)
    obtain err w1 where "p = (err, w1)" by fastforce
    with Some have "uv_listen os x w = Some (err, w1)" by simp
    note L = keeping_listen [OF ok h k _ i a [OF ar] this]
    show ?thesis
      using Some \<open>p = (err, w1)\<close> L(1) [of "Raise (UVExc TCPError err)"] L(2) [of "Ok ()"]
      by (auto simp: keeping_same [OF ok])
  qed
qed

text \<open>\<open>connect\<close> of both classes that can connect.\<close>

lemma keeping_connect:
  assumes ok: "ok (add_mset f fr) w" and h: "held fr w x" and i: "initialized (hs w x)" and nc: "\<not> uv_is_closing x w"
    and t: "u_type (uvh w x) \<in> {Some UV_TCP, Some UV_NAMED_PIPE}" and c: "connected x w e w2"
  shows "e = 0 \<Longrightarrow> ok fr (add_req (connect_ctx x f) (Py_INCREF x w2)) \<and> undisturbed w (add_req (connect_ctx x f) (Py_INCREF x w2))"
    "e \<noteq> 0 \<Longrightarrow> ok fr (Py_DECREF f w2) \<and> undisturbed w (Py_DECREF f w2)"
    "e \<noteq> 0 \<Longrightarrow> ok (add_mset f fr) w2"
proof -
  from c obtain w1 p where w1: "sock_step {x} w w1"
    "w2 = (if e = 0 then connecting x p (uv__req_register (loop_of w1 x) w1) else w1)" unfolding connected_def by blast
  have o1: "ok (add_mset f fr) w1" "undisturbed w w1" using sock_stepD(1,3) [OF w1(1)] ok by auto
  have e: "objs w1 = objs w" using sock_stepD(4) [OF w1(1)] .
  have v: "valid w1 x" using held_valid [OF okD(1) [OF ok], of x] h by (auto simp: held_def valid_def e)
  have s: "initialized (hs w1 x)" "\<not> u_closing (uvh w1 x)" "u_type (uvh w1 x) \<in> {Some UV_TCP, Some UV_NAMED_PIPE}"
    using sock_stepD(9) [OF w1(1), of x] i nc t by (auto simp: sock_same_def uv_is_closing_def)
  show "ok fr (add_req (connect_ctx x f) (Py_INCREF x w2)) \<and> undisturbed w (add_req (connect_ctx x f) (Py_INCREF x w2))"
    if "e = 0"
    using that w1(2) connect_queued [OF o1(1) s(1) v s(2,3), of "connect_ctx x f"] stable_trans [OF o1(2)]
    by (auto simp: connect_ctx_def)
  show "ok fr (Py_DECREF f w2) \<and> undisturbed w (Py_DECREF f w2)" "ok (add_mset f fr) w2" if "e \<noteq> 0"
    using that w1(2) o1 ok_DECREF [OF o1(1)] stable_trans [OF o1(2) stable_release] by auto
qed

lemma keeping_TCP_connect:
  assumes ok: "ok fr w" and h: "held fr w x" and a: "\<And>ad f. args = Inr (ad, f) \<Longrightarrow> held fr w f"
  shows "keeping fr w (TCP_func_connect mem os x args w)"
  unfolding TCP_func_connect_def Let_def
proof (rule keeping_method [OF ok], clarify)
  fix ad f assume i: "initialized (hs w x)" "\<not> uv_is_closing x w" and ar: "args = Inr (ad, f)"
  let ?w1 = "Py_INCREF f w"
  have o1: "ok (add_mset f fr) ?w1" by (rule ok_INCREF [OF ok held_valid [OF okD(1) [OF ok] a [OF ar]]])
  have h1: "held fr ?w1 x" and i1: "initialized (hs ?w1 x)" "\<not> uv_is_closing x ?w1"
    using h i by (simp_all add: held_def uv_is_closing_def)
  have m: "keeping fr w (Raise MemoryError, Py_DECREF f ?w1)"
    by (rule keepingI) (use ok_DECREF [OF o1] stable_trans [OF stable_INCREF stable_release] in blast)
  have c: "keeping fr w (if err < 0 then (Raise (UVExc TCPError err), Py_DECREF f w2)
      else (Ok (), add_req (connect_ctx x f) (Py_INCREF x w2)))"
    if "uv_tcp_connect os x ss ?w1 = Some (err, w2)" for ss err w2
  proof (cases "err = 0")
    case True
    note C = tcp_connect_cases [OF that]
    have t: "u_type (uvh ?w1 x) \<in> {Some UV_TCP, Some UV_NAMED_PIPE}" using C(2) [OF True] by simp
    from keeping_connect(1) [OF o1 h1 i1 t C(1) True] show ?thesis
      using True stable_trans [OF stable_INCREF] by (auto intro: keepingI)
  next
    case False
    note C = tcp_connect_cases(1) [OF that]
    have "err < 0" using that False
      by (auto simp: uv_tcp_connect_def uv__tcp_connect_def Let_def UV_EINVAL_def UV_EALREADY_def maybe_new_socket_def
          uv__stream_open_def UV_EBUSY_def split: if_splits option.splits sockaddr.splits)
    moreover obtain w1' where "sock_step {x} ?w1 w2" using C False unfolding connected_def by auto
    then have "ok (add_mset f fr) w2" "undisturbed ?w1 w2" using sock_stepD(1,3) o1 by blast+
    then have "ok fr (Py_DECREF f w2) \<and> undisturbed w (Py_DECREF f w2)"
      using ok_DECREF stable_trans [OF stable_INCREF stable_trans [OF _ stable_release]] by blast
    ultimately show ?thesis by (simp add: keepingI)
  qed
  show "keeping fr w (if \<not> PyCallable_Check w f then (Raise TypeError, w)
      else case pyuv_parse_addr_tuple ad of Inl e \<Rightarrow> (Raise e, w)
        | Inr ss \<Rightarrow> if \<not> mem then (Raise MemoryError, Py_DECREF f ?w1)
            else case uv_tcp_connect os x ss ?w1 of None \<Rightarrow> (Abort, ?w1)
              | Some (err, w2) \<Rightarrow> if err < 0 then (Raise (UVExc TCPError err), Py_DECREF f w2)
                  else (Ok (), add_req (connect_ctx x f) (Py_INCREF x w2)))"
    using m c by (auto simp: keeping_same [OF ok] keeping_abort [OF stable_INCREF] split: sum.splits option.splits)
qed

end
