(* ===== verification/Pipe.thy ===== *)
theory Pipe
  imports Tcp
begin

text \<open>
  The class \<open>Pipe\<close> (src/pipe.c) with its abstract sockets (src/abstract.c), and the class \<open>TTY\<close>
  (src/tty.c). A pipe name is a string; a name that starts with a null character belongs to the
  abstract namespace of Linux. The timer that reports an abstract connect is represented by its
  request, which counts as an active request of the loop.
\<close>

section \<open>Abstract sockets\<close>

text \<open>A name that is too long for \<open>sun_path\<close> is cut off; the name is not used otherwise.\<close>

definition clip_path :: "string \<Rightarrow> string" where
  "clip_path name = (if 108 \<le> length name then take 107 name else name)"

text \<open>\<open>bound\<close> and \<open>conn\<close> answer \<open>bind\<close> and \<open>connect\<close> for a name.\<close>

definition Pipe_func_bind_abstract ::
    "os_answers \<Rightarrow> (string \<Rightarrow> nat) \<Rightarrow> oid \<Rightarrow> string \<Rightarrow> world \<Rightarrow> unit result \<times> world" where
  "Pipe_func_bind_abstract os bound self name w =
     (if os_socket os < 0 then (Raise (UVExc PipeError (os_socket os)), w)
      else if bound (clip_path name) \<noteq> 0 then (Raise (UVExc PipeError (- int (bound (clip_path name)))), w)
      else uv_result PipeError (uv_pipe_open os self (os_socket os) w) w)"

definition abstract_ctx :: "oid \<Rightarrow> oid \<Rightarrow> request_ctx" where
  "abstract_ctx self callback =
     \<lparr>rq_type = AbstractReq, rq_obj = self, rq_callback = callback, rq_send_handle = None, rq_views = [], rq_status = None\<rparr>"

definition Pipe_func_connect_abstract ::
    "bool \<Rightarrow> os_answers \<Rightarrow> (string \<Rightarrow> nat) \<Rightarrow> oid \<Rightarrow> string \<Rightarrow> oid \<Rightarrow> world \<Rightarrow> unit result \<times> world" where
  "Pipe_func_connect_abstract mem os conn self name callback w =
     (if os_socket os < 0 then (Raise (UVExc PipeError (os_socket os)), w)
      else if conn (clip_path name) \<noteq> 0 then (Raise (UVExc PipeError (- int (conn (clip_path name)))), w)
      else case uv_pipe_open os self (os_socket os) w of
             None \<Rightarrow> (Abort, w)
           | Some (err, w1) \<Rightarrow>
               if err < 0 then (Raise (UVExc PipeError err), w1)
               else if \<not> mem then (Raise MemoryError, w1)
               else (Ok (), add_req (abstract_ctx self callback)
                      (uv__req_register (loop_of w1 self) (Py_INCREF callback (Py_INCREF self w1)))))"

text \<open>The timer fires; it is closed and freed by libuv.\<close>

definition pyuv__pipe_connect_abstract_cb :: "python \<Rightarrow> request_ctx \<Rightarrow> world \<Rightarrow> world option" where
  "pyuv__pipe_connect_abstract_cb py req w =
     (case call_callback py (Some (rq_callback req)) [rq_obj req, Py_None]
             (\<lambda>v. slot_of v (rq_obj req) S_loop) (Py_INCREF Py_None w) of
        None \<Rightarrow> None
      | Some w1 \<Rightarrow> Some (Py_DECREF (rq_obj req) (Py_DECREF (rq_callback req) (Py_DECREF Py_None w1))))"

section \<open>Methods of Pipe\<close>

definition Pipe_tp_new :: "world \<Rightarrow> oid result \<times> world" where
  "Pipe_tp_new = Handle_tp_new PipeC"

definition Pipe_tp_init :: "oid \<Rightarrow> (oid \<times> bool) args \<Rightarrow> world \<Rightarrow> unit result \<times> world" where
  "Pipe_tp_init self args w =
     RAISE_IF_HANDLE_INITIALIZED self w
     (PyArg_Parse args w (\<lambda>(loop, ipc).
       let (err, w1) = uv_pipe_init loop self ipc w
       in if err < 0 then (Raise (UVExc PipeError err), w1)
          else (Ok (), initialize_handle self loop w1)))"

definition is_abstract :: "string \<Rightarrow> bool" where
  "is_abstract name = (case name of [] \<Rightarrow> False | c # _ \<Rightarrow> c = CHR 0x00)"

text \<open>For a name in the file system libuv sees the string up to its first null character.\<close>

definition c_string :: "string \<Rightarrow> string" where
  "c_string = takeWhile (\<lambda>c. c \<noteq> CHR 0x00)"

definition Pipe_func_bind :: "os_answers \<Rightarrow> (string \<Rightarrow> nat) \<Rightarrow> oid \<Rightarrow> string args \<Rightarrow> world \<Rightarrow> unit result \<times> world" where
  "Pipe_func_bind os bound self args w =
     RAISE_IF_HANDLE_NOT_INITIALIZED self w
     (RAISE_IF_HANDLE_CLOSED self w
     (PyArg_Parse args w (\<lambda>name.
       if is_abstract name then Pipe_func_bind_abstract os bound self name w
       else uv_result PipeError (Some (uv_pipe_bind os self (c_string name) w)) w)))"

definition Pipe_func_listen :: "os_answers \<Rightarrow> oid \<Rightarrow> (oid \<times> int option) args \<Rightarrow> world \<Rightarrow> unit result \<times> world" where
  "Pipe_func_listen os self args w =
     RAISE_IF_HANDLE_NOT_INITIALIZED self w
     (RAISE_IF_HANDLE_CLOSED self w
     (PyArg_Parse args w (\<lambda>(callback, bl).
       let backlog = (case bl of None \<Rightarrow> 511 | Some n \<Rightarrow> n)
       in if backlog < 0 then (Raise ValueError, w)
          else if \<not> PyCallable_Check w callback then (Raise TypeError, w)
          else case uv_listen os self w of
                 None \<Rightarrow> (Abort, w)
               | Some (err, w1) \<Rightarrow>
                   if err < 0 then (Raise (UVExc PipeError err), w1)
                   else (Ok (), assign_slot self S_on_new_connection_cb callback w1))))"

text \<open>What can go over a pipe: a TCP or Pipe object that is initialised, or a UDP object.\<close>

definition transferable :: "world \<Rightarrow> oid \<Rightarrow> bool" where
  "transferable w x =
     (if is_stream w x then u_type (uvh w x) \<in> {Some UV_TCP, Some UV_NAMED_PIPE}
      else kind (objs w ! x) = KHandle UDPC)"

definition Pipe_func_accept :: "os_answers \<Rightarrow> oid \<Rightarrow> oid args \<Rightarrow> world \<Rightarrow> unit result \<times> world" where
  "Pipe_func_accept os self args w =
     RAISE_IF_HANDLE_NOT_INITIALIZED self w
     (RAISE_IF_HANDLE_CLOSED self w
     (PyArg_Parse args w (\<lambda>client.
       if \<not> transferable w client then (Raise TypeError, w)
       else uv_result PipeError (uv_accept os self client w) w)))"

definition Pipe_func_connect ::
    "bool \<Rightarrow> os_answers \<Rightarrow> (string \<Rightarrow> nat) \<Rightarrow> oid \<Rightarrow> (string \<times> oid) args \<Rightarrow> world \<Rightarrow> unit result \<times> world" where
  "Pipe_func_connect mem os conn self args w =
     RAISE_IF_HANDLE_NOT_INITIALIZED self w
     (RAISE_IF_HANDLE_CLOSED self w
     (PyArg_Parse args w (\<lambda>(name, callback).
       if \<not> PyCallable_Check w callback then (Raise TypeError, w)
       else if is_abstract name then Pipe_func_connect_abstract mem os conn self name callback w
       else let w1 = Py_INCREF callback w
            in if \<not> mem then (Raise MemoryError, Py_DECREF callback w1)
               else case uv_pipe_connect os self w1 of
                      None \<Rightarrow> (Abort, w1)
                    | Some w2 \<Rightarrow> (Ok (), add_req (connect_ctx self callback) (Py_INCREF self w2)))))"

definition Pipe_func_open :: "os_answers \<Rightarrow> oid \<Rightarrow> int args \<Rightarrow> world \<Rightarrow> unit result \<times> world" where
  "Pipe_func_open os self args w =
     RAISE_IF_HANDLE_NOT_INITIALIZED self w
     (RAISE_IF_HANDLE_CLOSED self w
     (PyArg_Parse args w (\<lambda>fd. uv_result PipeError (uv_pipe_open os self (int_cast fd) w) w)))"

text \<open>Nothing happens outside Windows.\<close>

definition Pipe_func_pending_instances :: "oid \<Rightarrow> int args \<Rightarrow> world \<Rightarrow> unit result \<times> world" where
  "Pipe_func_pending_instances self args w =
     RAISE_IF_HANDLE_NOT_INITIALIZED self w
     (RAISE_IF_HANDLE_CLOSED self w (PyArg_Parse args w (\<lambda>count. (Ok (), w))))"

definition Pipe_func_pending_handle_type ::
    "(nat \<Rightarrow> uv_handle_type option) \<Rightarrow> oid \<Rightarrow> world \<Rightarrow> uv_handle_type option result \<times> world" where
  "Pipe_func_pending_handle_type guess self w =
     RAISE_IF_HANDLE_NOT_INITIALIZED self w
     (RAISE_IF_HANDLE_CLOSED self w (Ok (uv_pipe_pending_type guess self w), w))"

text \<open>The data, the callback and the handle to send along.\<close>

definition Pipe_func_write ::
    "bool \<Rightarrow> (oid \<Rightarrow> bool) \<Rightarrow> bool \<Rightarrow> oid \<Rightarrow> (data_arg \<times> oid option \<times> oid option) args \<Rightarrow> world
      \<Rightarrow> unit result \<times> world" where
  "Pipe_func_write mem buf_ok blocks self args w =
     RAISE_IF_HANDLE_NOT_INITIALIZED self w
     (RAISE_IF_HANDLE_CLOSED self w
     (PyArg_Parse args w (\<lambda>(data, cb, send).
       let callback = (case cb of None \<Rightarrow> Py_None | Some c \<Rightarrow> c);
           send_handle = (if send = Some Py_None then None else send);
           ipc = u_ipc (uvh w self)
       in if callback \<noteq> Py_None \<and> \<not> PyCallable_Check w callback then (Raise TypeError, w)
          else if \<not> pred_option (transferable w) send_handle then (Raise TypeError, w)
          else case data of
                 Buffer d \<Rightarrow> pyuv__stream_write_bytes mem buf_ok ipc blocks self d callback send_handle w
               | Sequence d fast items \<Rightarrow>
                   pyuv__stream_write_sequence mem buf_ok ipc blocks self d fast items callback send_handle w
               | OtherData \<Rightarrow> (Raise TypeError, w))))"

text \<open>
  \<open>uv__pipe_getsockpeername\<close>: the name is the path in the address, which is not terminated for an
  abstract socket; it must leave room for the terminator in the buffer.
\<close>

definition uv__pipe_getsockpeername :: "(nat + string) \<Rightarrow> nat \<Rightarrow> int + string" where
  "uv__pipe_getsockpeername name buf_len =
     (case name of
        Inl e \<Rightarrow> Inl (- int e)
      | Inr path \<Rightarrow>
          let p = (if is_abstract path then path else c_string path)
          in if buf_len \<le> length p then Inl UV_ENOBUFS else Inr p)"

definition pipe_name_result :: "int + string \<Rightarrow> string result" where
  "pipe_name_result r =
     (case r of Inl err \<Rightarrow> if err < 0 then Raise (UVExc PipeError err) else Ok [] | Inr p \<Rightarrow> Ok p)"

definition Pipe_func_getsockname :: "(nat + string) \<Rightarrow> oid \<Rightarrow> world \<Rightarrow> string result \<times> world" where
  "Pipe_func_getsockname name self w =
     RAISE_IF_HANDLE_NOT_INITIALIZED self w
     (RAISE_IF_HANDLE_CLOSED self w (pipe_name_result (uv__pipe_getsockpeername name PATH_MAX), w))"

definition Pipe_func_getpeername :: "(nat + string) \<Rightarrow> oid \<Rightarrow> world \<Rightarrow> string result \<times> world" where
  "Pipe_func_getpeername name self w =
     RAISE_IF_HANDLE_NOT_INITIALIZED self w
     (RAISE_IF_HANDLE_CLOSED self w (pipe_name_result (uv__pipe_getsockpeername name PATH_MAX), w))"

definition Pipe_sndbuf_get :: "(nat + int) \<Rightarrow> (int \<Rightarrow> nat) \<Rightarrow> oid \<Rightarrow> world \<Rightarrow> int result \<times> world" where
  "Pipe_sndbuf_get = buffer_size_get PipeError"

definition Pipe_rcvbuf_get :: "(nat + int) \<Rightarrow> (int \<Rightarrow> nat) \<Rightarrow> oid \<Rightarrow> world \<Rightarrow> int result \<times> world" where
  "Pipe_rcvbuf_get = buffer_size_get PipeError"

definition Pipe_sndbuf_set ::
    "(nat + int) \<Rightarrow> (int \<Rightarrow> nat) \<Rightarrow> oid \<Rightarrow> int args option \<Rightarrow> world \<Rightarrow> unit result \<times> world" where
  "Pipe_sndbuf_set = buffer_size_set PipeError"

definition Pipe_rcvbuf_set ::
    "(nat + int) \<Rightarrow> (int \<Rightarrow> nat) \<Rightarrow> oid \<Rightarrow> int args option \<Rightarrow> world \<Rightarrow> unit result \<times> world" where
  "Pipe_rcvbuf_set = buffer_size_set PipeError"

definition Pipe_ipc_get :: "oid \<Rightarrow> world \<Rightarrow> bool result \<times> world" where
  "Pipe_ipc_get self w = RAISE_IF_HANDLE_NOT_INITIALIZED self w (Ok (u_ipc (uvh w self)), w)"

section \<open>TTY\<close>

definition TTY_tp_new :: "world \<Rightarrow> oid result \<times> world" where
  "TTY_tp_new = Handle_tp_new TTYC"

definition TTY_tp_init ::
    "(int \<Rightarrow> fd_guess) \<Rightarrow> os_answers \<Rightarrow> oid \<Rightarrow> (oid \<times> int \<times> bool) args \<Rightarrow> world \<Rightarrow> unit result \<times> world" where
  "TTY_tp_init guess os self args w =
     RAISE_IF_HANDLE_INITIALIZED self w
     (PyArg_Parse args w (\<lambda>(loop, fd, readable).
       case uv_tty_init guess os loop self fd readable w of
         None \<Rightarrow> (Abort, w)
       | Some (err, w1) \<Rightarrow>
           if err < 0 then (Raise (UVExc TTYError err), w1)
           else (Ok (), initialize_handle self loop w1)))"

definition TTY_func_set_mode :: "nat \<Rightarrow> oid \<Rightarrow> int args \<Rightarrow> world \<Rightarrow> unit result \<times> world" where
  "TTY_func_set_mode os self args w =
     RAISE_IF_HANDLE_NOT_INITIALIZED self w
     (RAISE_IF_HANDLE_CLOSED self w
     (PyArg_Parse args w (\<lambda>mode. uv_result TTYError (Some (uv_tty_set_mode os self mode w)) w)))"

text \<open>\<open>wsize\<close> is the answer of \<open>ioctl\<close>: width and height.\<close>

definition TTY_func_get_winsize :: "(nat + nat \<times> nat) \<Rightarrow> oid \<Rightarrow> world \<Rightarrow> (nat \<times> nat) result \<times> world" where
  "TTY_func_get_winsize wsize self w =
     RAISE_IF_HANDLE_NOT_INITIALIZED self w
     (RAISE_IF_HANDLE_CLOSED self w
     (case wsize of
        Inl e \<Rightarrow> (if 0 < e then Raise (UVExc TTYError (- int e)) else Ok (0, 0), w)
      | Inr wh \<Rightarrow> (Ok wh, w)))"

section \<open>The methods keep the invariant\<close>

lemma keeping_Pipe_tp_init:
  assumes ok: "ok fr w" and h: "held fr w x" and k: "kind (objs w ! x) = KHandle PipeC"
    and a: "\<And>l f. args = Inr (l, f) \<Longrightarrow> is_loop w l"
  shows "keeping fr w (Pipe_tp_init x args w)"
  unfolding Pipe_tp_init_def
proof (rule keeping_init [OF ok], clarify)
  fix l f assume ni: "\<not> initialized (hs w x)" and ar: "args = Inr (l, f)"
  have "sock_inited l x UV_NAMED_PIPE w (upd_uv x (\<lambda>u. u\<lparr>u_fname := None, u_ipc := f\<rparr>) (uv__stream_init l x UV_NAMED_PIPE w))"
    by (rule sock_inited_upd [OF stream_inited [OF ok h k ni]]) (simp_all add: sock_fun_def)
  then show "keeping fr w (let (err, w1) = uv_pipe_init l x f w
      in if err < 0 then (Raise (UVExc PipeError err), w1) else (Ok (), initialize_handle x l w1))"
    using keeping_sock_init [OF ok h k _ ni a [OF ar]] by (simp add: uv_pipe_init_def socket_class_def)
qed

lemma keeping_TTY_tp_init:
  assumes ok: "ok fr w" and h: "held fr w x" and k: "kind (objs w ! x) = KHandle TTYC"
    and a: "\<And>l f r. args = Inr (l, f, r) \<Longrightarrow> is_loop w l"
  shows "keeping fr w (TTY_tp_init guess os x args w)"
  unfolding TTY_tp_init_def
proof (rule keeping_init [OF ok], clarify)
  fix l fd r assume ni: "\<not> initialized (hs w x)" and ar: "args = Inr (l, fd, r)"
  have i: "sock_inited l x UV_TTY w (uv__stream_init l x UV_TTY w)" by (rule stream_inited [OF ok h k ni]) simp
  have "sock_inited l x UV_TTY w (upd_uv x (\<lambda>u. u\<lparr>u_mode := 0\<rparr>) w1)"
    if "uv__stream_open os x fd' r (\<not> r) (uv__stream_init l x UV_TTY w) = Some (e, w1)" for fd' e w1
    by (rule sock_inited_upd [OF sock_inited_step [OF i stream_open_step(1) [OF that]]]) (simp_all add: sock_fun_def)
  then have n: "all_results (\<lambda>e w1. e < 0 \<and> w1 = w \<or> e = 0 \<and> sock_inited l x UV_TTY w w1) (uv_tty_init guess os l x fd r w)"
    unfolding uv_tty_init_def
    by (auto simp: all_results_def tty_descriptor_def UV_EINVAL_def split: sum.splits option.splits fd_guess.splits if_splits)
  show "keeping fr w (case uv_tty_init guess os l x fd r w of None \<Rightarrow> (Abort, w)
      | Some (err, w1) \<Rightarrow> if err < 0 then (Raise (UVExc TTYError err), w1) else (Ok (), initialize_handle x l w1))"
    using n keeping_sock_init [OF ok h k _ ni a [OF ar]]
    by (auto simp: all_results_def socket_class_def keeping_same [OF ok] keeping_abort split: option.splits)
qed

lemma keeping_Pipe_bind: "ok fr w \<Longrightarrow> keeping fr w (Pipe_func_bind os bound x args w)"
  unfolding Pipe_func_bind_def Pipe_func_bind_abstract_def
  by (rule keeping_method)
    (auto simp: uv_is_closing_def intro!: keeping_same keeping_uv_result [where A = "{x}"]
      intro: pipe_bind_step opens_step)

lemma keeping_Pipe_open: "ok fr w \<Longrightarrow> keeping fr w (Pipe_func_open os x args w)"
  unfolding Pipe_func_open_def
  by (rule keeping_method) (auto intro!: keeping_uv_result [where A = "{x}"] intro: opens_step)

lemma keeping_Pipe_accept: "ok fr w \<Longrightarrow> keeping fr w (Pipe_func_accept os x args w)"
  unfolding Pipe_func_accept_def
  by (rule keeping_method) (auto intro: keeping_same keeping_uv_result accept_step)

lemma keeping_Pipe_pending: "ok fr w \<Longrightarrow> keeping fr w (Pipe_func_pending_instances x args w)"
  unfolding Pipe_func_pending_instances_def by (rule keeping_method) (auto intro: keeping_same)

lemma keeping_TTY_set_mode: "ok fr w \<Longrightarrow> keeping fr w (TTY_func_set_mode os x args w)"
  unfolding TTY_func_set_mode_def
  by (rule keeping_method) (auto intro!: keeping_uv_result [where A = "{x}"] intro: tcp_options_step(4))

lemma keeping_Pipe_listen:
  assumes ok: "ok fr w" and h: "held fr w x" and k: "kind (objs w ! x) = KHandle PipeC"
    and a: "\<And>f n. args = Inr (f, n) \<Longrightarrow> held fr w f"
  shows "keeping fr w (Pipe_func_listen os x args w)"
  unfolding Pipe_func_listen_def Let_def
proof (rule keeping_method [OF ok], clarify)
  fix f n assume i: "initialized (hs w x)" "\<not> uv_is_closing x w" and ar: "args = Inr (f, n)"
  show "keeping fr w (if (case n of None \<Rightarrow> 511 | Some n \<Rightarrow> n) < 0 then (Raise ValueError, w)
      else if \<not> PyCallable_Check w f then (Raise TypeError, w)
      else case uv_listen os x w of None \<Rightarrow> (Abort, w)
        | Some (err, w1) \<Rightarrow> if err < 0 then (Raise (UVExc PipeError err), w1)
            else (Ok (), assign_slot x S_on_new_connection_cb f w1))"
  proof (cases "uv_listen os x w")
    case None
    then show ?thesis by (simp add: keeping_same [OF ok] keeping_abort)
  next
    case (Some p)
    obtain err w1 where "p = (err, w1)" by fastforce
    with Some have "uv_listen os x w = Some (err, w1)" by simp
    note L = keeping_listen [OF ok h k _ i a [OF ar] this]
    show ?thesis
      using Some \<open>p = (err, w1)\<close> L(1) [of "Raise (UVExc PipeError err)"] L(2) [of "Ok ()"]
      by (auto simp: keeping_same [OF ok])
  qed
qed

text \<open>The abstract connect: the request counts with the loop and holds the pipe and the callback.\<close>

lemma abstract_queued:
  assumes ok: "ok fr w" and h: "held fr w x" "held fr w f" and i: "initialized (hs w x)" "\<not> u_closing (uvh w x)"
    and t: "u_type (uvh w x) = Some UV_NAMED_PIPE"
  shows "keeping fr w (r, add_req (abstract_ctx x f) (uv__req_register l (Py_INCREF f (Py_INCREF x w))))"
proof (rule keepingI, rule conjI)
  let ?w2 = "Py_INCREF f (Py_INCREF x w)"
  note v = held_valid [OF okD(1) [OF ok]]
  have "ok (add_mset f (add_mset x fr)) ?w2"
    by (rule ok_INCREF [OF ok_INCREF [OF ok v [OF h(1)]]]) (use v [OF h(2)] in \<open>simp add: valid_def\<close>)
  then have o: "ok (mset (rq_refs (abstract_ctx x f)) + fr) (uv__req_register l ?w2)"
    by (intro ok_req_register) (simp add: abstract_ctx_def rq_refs_def add_mset_commute)
  have e: "hs (uv__req_register l ?w2) = hs w" by (simp add: uv__req_register_def upd_uvl_def)
  show "ok fr (add_req (abstract_ctx x f) (uv__req_register l ?w2))"
    by (rule ok_add_req [OF o]) (use i t in \<open>simp_all add: abstract_ctx_def e req_fits_def\<close>)
  have "undisturbed w (uv__req_register l ?w2)" unfolding uv__req_register_def
    by (rule stable_trans [OF stable_trans [OF stable_INCREF stable_INCREF] stable_upd_uvl]) simp
  moreover have "undisturbed (uv__req_register l ?w2) (add_req (abstract_ctx x f) (uv__req_register l ?w2))"
    by (rule stable_req) (use i in \<open>simp_all add: abstract_ctx_def e\<close>)
  ultimately show "undisturbed w (add_req (abstract_ctx x f) (uv__req_register l ?w2))" by (rule stable_trans)
qed

lemma keeping_connect_abstract:
  assumes ok: "ok fr w" and h: "held fr w x" "held fr w f" and i: "initialized (hs w x)" "\<not> u_closing (uvh w x)"
    and t: "u_type (uvh w x) = Some UV_NAMED_PIPE"
  shows "keeping fr w (Pipe_func_connect_abstract mem os conn x name f w)"
proof (cases "uv_pipe_open os x (os_socket os) w")
  case None
  then show ?thesis by (simp add: Pipe_func_connect_abstract_def keeping_same [OF ok] keeping_abort)
next
  case (Some p)
  obtain err w1 where p: "p = (err, w1)" by fastforce
  have s: "sock_step {x} w w1" using Some p opens_step by blast
  have o1: "ok fr w1" "undisturbed w w1" using sock_stepD(1,3) [OF s] ok by auto
  have h1: "held fr w1 x" "held fr w1 f"
    using h sock_stepD(4,5) [OF s] by (simp_all add: held_def)
  have i1: "initialized (hs w1 x)" "\<not> u_closing (uvh w1 x)" "u_type (uvh w1 x) = Some UV_NAMED_PIPE"
    using i t sock_stepD(9) [OF s, of x] by (auto simp: sock_same_def)
  have "keeping fr w (Ok (), add_req (abstract_ctx x f) (uv__req_register l (Py_INCREF f (Py_INCREF x w1))))" for l
    using abstract_queued [OF o1(1) h1 i1] stable_trans [OF o1(2)] by (auto simp: keeping_def)
  then show ?thesis
    using Some p o1 by (auto simp: Pipe_func_connect_abstract_def keeping_same [OF ok] intro: keepingI)
qed

lemma keeping_Pipe_connect:
  assumes ok: "ok fr w" and h: "held fr w x" and k: "kind (objs w ! x) = KHandle PipeC"
    and a: "\<And>name f. args = Inr (name, f) \<Longrightarrow> held fr w f"
  shows "keeping fr w (Pipe_func_connect mem os conn x args w)"
  unfolding Pipe_func_connect_def Let_def
proof (rule keeping_method [OF ok], clarify)
  fix name f assume i: "initialized (hs w x)" "\<not> uv_is_closing x w" and ar: "args = Inr (name, f)"
  let ?w1 = "Py_INCREF f w"
  have o1: "ok (add_mset f fr) ?w1" by (rule ok_INCREF [OF ok held_valid [OF okD(1) [OF ok] a [OF ar]]])
  have h1: "held fr ?w1 x" and i1: "initialized (hs ?w1 x)" "\<not> uv_is_closing x ?w1"
    using h i by (simp_all add: held_def uv_is_closing_def)
  have op: "open_handle w x PipeC" by (rule open_handleI [OF ok h k]) (use i in auto)
  have t: "u_type (uvh w x) = Some UV_NAMED_PIPE" using open_handleD [OF ok op] by simp
  have ab: "keeping fr w (Pipe_func_connect_abstract mem os conn x name f w)"
    by (rule keeping_connect_abstract [OF ok h a [OF ar] i(1) _ t]) (use i in \<open>simp add: uv_is_closing_def\<close>)
  have m: "keeping fr w (Raise MemoryError, Py_DECREF f ?w1)"
    by (rule keepingI) (use ok_DECREF [OF o1] stable_trans [OF stable_INCREF stable_release] in blast)
  have c: "keeping fr w (Ok (), add_req (connect_ctx x f) (Py_INCREF x w2))"
    if "uv_pipe_connect os x ?w1 = Some w2" for w2
    using keeping_connect(1) [OF o1 h1 i1 _ pipe_connect_cases [OF that]] t stable_trans [OF stable_INCREF]
    by (auto intro!: keepingI)
  show "keeping fr w (if \<not> PyCallable_Check w f then (Raise TypeError, w)
      else if is_abstract name then Pipe_func_connect_abstract mem os conn x name f w
      else if \<not> mem then (Raise MemoryError, Py_DECREF f ?w1)
           else case uv_pipe_connect os x ?w1 of None \<Rightarrow> (Abort, ?w1)
             | Some w2 \<Rightarrow> (Ok (), add_req (connect_ctx x f) (Py_INCREF x w2)))"
    using m c ab by (auto simp: keeping_same [OF ok] keeping_abort [OF stable_INCREF] split: option.splits)
qed

section \<open>Writing\<close>

text \<open>
  Writing keeps the invariant up to the reference to the result of \<open>PySequence_Fast\<close>, which a
  successful write of a sequence never gives back.
\<close>

primrec leaked :: "data_arg \<Rightarrow> world \<Rightarrow> oid option" where
  "leaked (Buffer d) w = None"
| "leaked (Sequence d fast items) w = Some (fst (PySequence_Fast fast d w))"
| "leaked OtherData w = None"

definition leaking :: "oid multiset \<Rightarrow> oid option \<Rightarrow> world \<Rightarrow> unit result \<times> world \<Rightarrow> bool" where
  "leaking fr l w p \<longleftrightarrow> undisturbed w (snd p) \<and>
     (case fst p of Ok _ \<Rightarrow> ok (mset_opt l + fr) (snd p) | Raise e \<Rightarrow> ok fr (snd p) | Abort \<Rightarrow> True)"

primrec data_names :: "data_arg \<Rightarrow> oid list" where
  "data_names (Buffer d) = [d]"
| "data_names (Sequence d fast items) = d # items"
| "data_names OtherData = []"

lemma leaking_raise: "ok fr w \<Longrightarrow> leaking fr l w (Raise e, w)"
  by (simp add: leaking_def)

lemma leaking_write:
  assumes ok: "ok fr w" and i: "initialized (hs w x)" "\<not> uv_is_closing x w"
    and h: "held fr w x" "held fr w c" "\<And>y. s = Some y \<Longrightarrow> held fr w y" "\<And>y. y \<in> set (data_names d) \<Longrightarrow> held fr w y"
  shows "leaking fr (leaked d w) w (case d of
      Buffer y \<Rightarrow> pyuv__stream_write_bytes mem bok ipc b x y c s w
    | Sequence y fast items \<Rightarrow> pyuv__stream_write_sequence mem bok ipc b x y fast items c s w
    | OtherData \<Rightarrow> (Raise TypeError, w))"
proof (cases d)
  case (Buffer y)
  obtain res w' where r: "pyuv__stream_write_bytes mem bok ipc b x y c s w = (res, w')" by fastforce
  have "ok fr w' \<or> res = Abort"
    by (rule ok_pyuv__stream_write_bytes [OF ok i(1) h(1) _ h(2) h(3) r]) (use h(4) Buffer in simp)
  moreover have "undisturbed w w'"
    using stable_write_bytes [of w x mem bok ipc b y c s] i(2) r by (simp add: uv_is_closing_def)
  ultimately show ?thesis using r Buffer by (auto simp: leaking_def split: result.splits)
next
  case (Sequence y fast items)
  obtain res w' where r: "pyuv__stream_write_sequence mem bok ipc b x y fast items c s w = (res, w')" by fastforce
  have "res = Abort \<or> (\<exists>e. res = Raise e) \<and> ok fr w' \<or>
      res = Ok () \<and> ok (add_mset (fst (PySequence_Fast fast y w)) fr) w'"
    by (rule ok_pyuv__stream_write_sequence [OF ok i(1) h(1) _ h(2) h(3) _ r]) (use h(4) Sequence in simp_all)
  moreover have "undisturbed w w'"
    using stable_write_sequence [of w x mem bok ipc b y fast items c s] i(2) r held_valid [OF okD(1) [OF ok] h(1)]
    by (auto simp: uv_is_closing_def valid_def)
  ultimately show ?thesis using r Sequence by (auto simp: leaking_def split: result.splits)
next
  case OtherData
  then show ?thesis by (simp add: leaking_raise [OF ok])
qed

text \<open>Both \<open>write\<close> methods: of the base class and the one of \<open>Pipe\<close>, which can send a handle.\<close>

definition write_leak :: "('a \<Rightarrow> data_arg) \<Rightarrow> 'a args \<Rightarrow> world \<Rightarrow> oid option" where
  "write_leak f args w = (case args of Inl e \<Rightarrow> None | Inr a \<Rightarrow> leaked (f a) w)"

lemma leaking_method:
  assumes "ok fr w"
    and "\<And>a. initialized (hs w x) \<Longrightarrow> \<not> uv_is_closing x w \<Longrightarrow> args = Inr a \<Longrightarrow> leaking fr (leaked (dat a) w) w (f a)"
  shows "leaking fr (write_leak dat args w) w
    (RAISE_IF_HANDLE_NOT_INITIALIZED x w (RAISE_IF_HANDLE_CLOSED x w (PyArg_Parse args w f)))"
  using assms by (auto simp: guard_defs leaking_raise write_leak_def split: sum.splits)

lemma held_none: "ok fr w \<Longrightarrow> held fr w Py_None"
  using okD(1) [of fr w] by (simp add: held_def wf_refs_def none_ok_def)

lemma leaking_Stream_write:
  assumes ok: "ok fr w" and h: "held fr w x"
    and a: "\<And>d cb y. args = Inr (d, cb) \<Longrightarrow> y \<in> set (data_names d @ opt_list cb) \<Longrightarrow> held fr w y"
  shows "leaking fr (write_leak fst args w) w (Stream_func_write mem bok b x args w)"
  unfolding Stream_func_write_def Let_def
proof (rule leaking_method [OF ok], clarify, unfold fst_conv)
  fix d cb assume i: "initialized (hs w x)" "\<not> uv_is_closing x w" and ar: "args = Inr (d, cb)"
  have "held fr w (case cb of None \<Rightarrow> Py_None | Some c \<Rightarrow> c)"
    using a [OF ar] held_none [OF ok] by (auto split: option.splits)
  from leaking_write [OF ok i h this, of None d mem bok False b] a [OF ar]
  show "leaking fr (leaked d w) w
      (if (case cb of None \<Rightarrow> Py_None | Some c \<Rightarrow> c) \<noteq> Py_None \<and> \<not> PyCallable_Check w (case cb of None \<Rightarrow> Py_None | Some c \<Rightarrow> c)
       then (Raise TypeError, w)
       else case d of Buffer d \<Rightarrow> pyuv__stream_write_bytes mem bok False b x d (case cb of None \<Rightarrow> Py_None | Some c \<Rightarrow> c) None w
         | Sequence d fast items \<Rightarrow>
             pyuv__stream_write_sequence mem bok False b x d fast items (case cb of None \<Rightarrow> Py_None | Some c \<Rightarrow> c) None w
         | OtherData \<Rightarrow> (Raise TypeError, w))"
    by (simp add: leaking_raise [OF ok])
qed

lemma leaking_Pipe_write:
  assumes ok: "ok fr w" and h: "held fr w x"
    and a: "\<And>d cb s y. args = Inr (d, cb, s) \<Longrightarrow> y \<in> set (data_names d @ opt_list cb @ opt_list s) \<Longrightarrow> held fr w y"
  shows "leaking fr (write_leak fst args w) w (Pipe_func_write mem bok b x args w)"
  unfolding Pipe_func_write_def Let_def
proof (rule leaking_method [OF ok], clarify, unfold fst_conv)
  fix d cb s assume i: "initialized (hs w x)" "\<not> uv_is_closing x w" and ar: "args = Inr (d, cb, s)"
  define c where "c = (case cb of None \<Rightarrow> Py_None | Some c \<Rightarrow> c)"
  define sh where "sh = (if s = Some Py_None then None else s)"
  have c: "held fr w c" using a [OF ar] held_none [OF ok] by (auto simp: c_def split: option.splits)
  have s: "held fr w y" if "sh = Some y" for y using a [OF ar] that by (auto simp: sh_def split: if_splits)
  have d: "held fr w y" if "y \<in> set (data_names d)" for y using a [OF ar] that by simp
  from leaking_write [where s = sh and d = d, OF ok i h c s d, of mem bok "u_ipc (uvh w x)" b]
  show "leaking fr (leaked d w) w
      (if (case cb of None \<Rightarrow> Py_None | Some c \<Rightarrow> c) \<noteq> Py_None \<and> \<not> PyCallable_Check w (case cb of None \<Rightarrow> Py_None | Some c \<Rightarrow> c)
       then (Raise TypeError, w)
       else if \<not> pred_option (transferable w) (if s = Some Py_None then None else s) then (Raise TypeError, w)
       else case d of
           Buffer d \<Rightarrow> pyuv__stream_write_bytes mem bok (u_ipc (uvh w x)) b x d (case cb of None \<Rightarrow> Py_None | Some c \<Rightarrow> c)
             (if s = Some Py_None then None else s) w
         | Sequence d fast items \<Rightarrow> pyuv__stream_write_sequence mem bok (u_ipc (uvh w x)) b x d fast items
             (case cb of None \<Rightarrow> Py_None | Some c \<Rightarrow> c) (if s = Some Py_None then None else s) w
         | OtherData \<Rightarrow> (Raise TypeError, w))"
    unfolding c_def [symmetric] sh_def [symmetric] by (simp add: leaking_raise [OF ok])
qed

end
