(* ===== verification/Udp.thy ===== *)
theory Udp
  imports Pipe
begin

text \<open>
  UDP: the handles of libuv (unix/udp.c, uv-common.c) and the class \<open>UDP\<close> (src/udp.c). For a UDP
  handle \<open>u_reading\<close> and \<open>u_pollout\<close> say whether its watcher polls for input and for output; it
  polls for input exactly while \<open>recv_cb\<close> is set. The \<open>write_queue\<close> are the pending sends without
  a status, the \<open>write_completed_queue\<close> those with one. As for streams, pyuv enters a request in
  \<open>pend\<close> after the call of libuv that queued it.
\<close>

section \<open>Binding\<close>

text \<open>\<open>UV_UDP_IPV6ONLY\<close> is the flag 1, \<open>UV_UDP_REUSEADDR\<close> the flag 4.\<close>

definition uv__udp_bind :: "os_answers \<Rightarrow> oid \<Rightarrow> sockaddr \<Rightarrow> 32 word \<Rightarrow> world \<Rightarrow> int \<times> world" where
  "uv__udp_bind os h addr flags w =
     (if and flags (not 5) \<noteq> 0 then (UV_EINVAL, w)
      else if and flags 1 \<noteq> 0 \<and> sa_family addr \<noteq> 10 then (UV_EINVAL, w)
      else case (if u_fd (uvh w h) = - 1
                 then if os_socket os < 0 then Inl (os_socket os) else Inr (upd_uv h (stream_opened (os_socket os)) w)
                 else Inr w) of
             Inl err \<Rightarrow> (err, w)
           | Inr w1 \<Rightarrow>
               if and flags 4 \<noteq> 0 \<and> os_reuse os \<noteq> 0 then (- int (os_reuse os), w1)
               else if and flags 1 \<noteq> 0 \<and> os_v6only os \<noteq> 0 then (- int (os_v6only os), w1)
               else if os_bind os \<noteq> 0
                 then (if os_bind os = EAFNOSUPPORT then UV_EINVAL else - int (os_bind os), w1)
               else (0, upd_uv h (\<lambda>u. u\<lparr>u_bound := True, u_ipv6 := u_ipv6 u \<or> sa_family addr = 10\<rparr>) w1))"

definition uv_udp_bind :: "os_answers \<Rightarrow> oid \<Rightarrow> sockaddr \<Rightarrow> 32 word \<Rightarrow> world \<Rightarrow> int \<times> world" where
  "uv_udp_bind os h addr flags w =
     (if u_type (uvh w h) \<noteq> Some UV_UDP then (UV_EINVAL, w)
      else case addr of AF_OTHER f \<Rightarrow> (UV_EINVAL, w) | _ \<Rightarrow> uv__udp_bind os h addr flags w)"

text \<open>An unbound handle is bound to the wildcard address; another family is an \<open>abort\<close>.\<close>

definition uv__udp_maybe_deferred_bind ::
    "os_answers \<Rightarrow> oid \<Rightarrow> int \<Rightarrow> 32 word \<Rightarrow> world \<Rightarrow> (int \<times> world) option" where
  "uv__udp_maybe_deferred_bind os h domain flags w =
     (if u_fd (uvh w h) \<noteq> - 1 then Some (0, w)
      else if domain = 2 then Some (uv__udp_bind os h (AF_INET 0 [0, 0, 0, 0]) flags w)
      else if domain = 10 then Some (uv__udp_bind os h (AF_INET6 0 (replicate 16 0) 0 0) flags w)
      else None)"

definition uv_udp_init_ex :: "os_answers \<Rightarrow> oid \<Rightarrow> oid \<Rightarrow> 32 word \<Rightarrow> world \<Rightarrow> int \<times> world" where
  "uv_udp_init_ex os l h flags w =
     (let domain = uint (and flags 0xFF)
      in if domain \<noteq> 2 \<and> domain \<noteq> 10 \<and> domain \<noteq> 0 then (UV_EINVAL, w)
         else if and flags (not 0xFF) \<noteq> 0 then (UV_EINVAL, w)
         else if domain \<noteq> 0 \<and> os_socket os < 0 then (os_socket os, w)
         else (0, upd_uv h (\<lambda>u. u\<lparr>u_pollout := False, u_fd := (if domain = 0 then - 1 else os_socket os)\<rparr>)
                    (uv__handle_init l h UV_UDP w)))"

definition uv_udp_getsockname :: "(nat + sockaddr) \<Rightarrow> oid \<Rightarrow> world \<Rightarrow> int + sockaddr" where
  "uv_udp_getsockname name h w =
     (if u_fd (uvh w h) = - 1 then Inl UV_EINVAL
      else case name of Inl e \<Rightarrow> Inl (- int e) | Inr a \<Rightarrow> Inr a)"

section \<open>Sending\<close>

definition pending_sends :: "oid \<Rightarrow> world \<Rightarrow> request_ctx list" where
  "pending_sends h w = filter (\<lambda>r. rq_type r = SendReq \<and> rq_obj r = h) (pend w)"

definition write_queue :: "oid \<Rightarrow> world \<Rightarrow> request_ctx list" where
  "write_queue h w = filter (\<lambda>r. rq_status r = None) (pending_sends h w)"

definition write_completed_queue :: "oid \<Rightarrow> world \<Rightarrow> request_ctx list" where
  "write_completed_queue h w = filter (\<lambda>r. rq_status r \<noteq> None) (pending_sends h w)"

text \<open>The head of the write queue moves to the end of the completed queue.\<close>

fun complete_send :: "oid \<Rightarrow> int \<Rightarrow> request_ctx list \<Rightarrow> request_ctx list" where
  "complete_send h s [] = []"
| "complete_send h s (r # rs) =
     (if rq_type r = SendReq \<and> rq_obj r = h \<and> rq_status r = None then r\<lparr>rq_status := Some s\<rparr> # rs
      else r # complete_send h s rs)"

text \<open>\<open>sizes\<close>: what \<open>sendmsg\<close> answers, in order, up to the first \<open>EAGAIN\<close>.\<close>

definition uv__udp_sendmsg :: "int list \<Rightarrow> oid \<Rightarrow> world \<Rightarrow> world" where
  "uv__udp_sendmsg sizes h w = w\<lparr>pend := fold (complete_send h) sizes (pend w)\<rparr>"

text \<open>
  The result has the status of the new request when it could be sent at once (\<open>sent\<close>, what
  \<open>sendmsg\<close> answers for it; \<open>None\<close> is \<open>EAGAIN\<close>). The last \<open>None\<close> is the \<open>assert\<close> of
  \<open>uv__io_start\<close>.
\<close>

definition uv__udp_send ::
    "os_answers \<Rightarrow> int option \<Rightarrow> oid \<Rightarrow> sockaddr \<Rightarrow> world \<Rightarrow> (int \<times> int option \<times> world) option" where
  "uv__udp_send os sent h addr w =
     (case uv__udp_maybe_deferred_bind os h (sa_family addr) 0 w of
        None \<Rightarrow> None
      | Some (err, w1) \<Rightarrow>
          if err \<noteq> 0 then Some (err, None, w1)
          else let empty_queue = (pending_sends h w1 = []);
                   w2 = uv__handle_start h (uv__req_register (loop_of w1 h) w1)
               in if empty_queue \<and> \<not> u_processing (uvh w2 h) \<and> sent \<noteq> None then Some (0, sent, w2)
                  else if u_fd (uvh w2 h) < 0 then None
                  else Some (0, None, upd_uv h (\<lambda>u. u\<lparr>u_pollout := True\<rparr>) w2))"

definition uv_udp_send ::
    "os_answers \<Rightarrow> int option \<Rightarrow> oid \<Rightarrow> sockaddr \<Rightarrow> world \<Rightarrow> (int \<times> int option \<times> world) option" where
  "uv_udp_send os sent h addr w =
     (if u_type (uvh w h) \<noteq> Some UV_UDP then Some (UV_EINVAL, None, w)
      else case addr of AF_OTHER f \<Rightarrow> Some (UV_EINVAL, None, w) | _ \<Rightarrow> uv__udp_send os sent h addr w)"

text \<open>\<open>sent\<close>: the bytes sent, or an error.\<close>

definition uv_udp_try_send ::
    "os_answers \<Rightarrow> (nat + nat) \<Rightarrow> oid \<Rightarrow> sockaddr \<Rightarrow> world \<Rightarrow> (int \<times> world) option" where
  "uv_udp_try_send os sent h addr w =
     (if u_type (uvh w h) \<noteq> Some UV_UDP then Some (UV_EINVAL, w)
      else case addr of
             AF_OTHER f \<Rightarrow> Some (UV_EINVAL, w)
           | _ \<Rightarrow>
              if pending_sends h w \<noteq> [] then Some (UV_EAGAIN, w)
              else case uv__udp_maybe_deferred_bind os h (sa_family addr) 0 w of
                     None \<Rightarrow> None
                   | Some (err, w1) \<Rightarrow>
                       if err \<noteq> 0 then Some (err, w1)
                       else Some (case sent of Inl e \<Rightarrow> - int e | Inr n \<Rightarrow> int n, w1))"

section \<open>Receiving\<close>

definition uv_udp_recv_start :: "os_answers \<Rightarrow> oid \<Rightarrow> world \<Rightarrow> (int \<times> world) option" where
  "uv_udp_recv_start os h w =
     (if u_type (uvh w h) \<noteq> Some UV_UDP then Some (UV_EINVAL, w)
      else if u_reading (uvh w h) then Some (UV_EALREADY, w)
      else case uv__udp_maybe_deferred_bind os h 2 0 w of
             None \<Rightarrow> None
           | Some (err, w1) \<Rightarrow>
               if err \<noteq> 0 then Some (err, w1)
               else if u_fd (uvh w1 h) < 0 then None
               else Some (0, uv__handle_start h (upd_uv h (\<lambda>u. u\<lparr>u_reading := True\<rparr>) w1)))"

definition uv_udp_recv_stop :: "oid \<Rightarrow> world \<Rightarrow> int \<times> world" where
  "uv_udp_recv_stop h w =
     (if u_type (uvh w h) \<noteq> Some UV_UDP then (UV_EINVAL, w)
      else let w1 = upd_uv h (\<lambda>u. u\<lparr>u_reading := False\<rparr>) w
           in (0, if u_pollout (uvh w1 h) then w1 else uv__handle_stop h w1))"

section \<open>Options\<close>

text \<open>\<open>uv_ip4_addr\<close> and \<open>uv_ip6_addr\<close> of uv-common.c, the second for the address alone.\<close>

definition uv_ip4_addr :: "string \<Rightarrow> bytes option" where
  "uv_ip4_addr ip = inet_pton4 ip"

definition uv_ip6_addr :: "string \<Rightarrow> bytes option" where
  "uv_ip6_addr ip =
     (if CHR ''%'' \<in> set ip then uv_inet_pton6 (take 39 (takeWhile (\<lambda>c. c \<noteq> CHR ''%'') ip)) else uv_inet_pton6 ip)"

text \<open>
  The options do not change the state beyond the deferred bind; \<open>opt\<close> is what \<open>setsockopt\<close>
  answers. \<open>UV_LEAVE_GROUP\<close> is 0, \<open>UV_JOIN_GROUP\<close> is 1.
\<close>

definition set_membership :: "nat \<Rightarrow> (string \<Rightarrow> bytes option) \<Rightarrow> string option \<Rightarrow> int \<Rightarrow> int" where
  "set_membership opt parse interface_addr membership =
     (if (\<exists>i. interface_addr = Some i \<and> parse i = None) then UV_EINVAL
      else if membership \<noteq> 0 \<and> membership \<noteq> 1 then UV_EINVAL
      else - int opt)"

definition uv_udp_set_membership ::
    "os_answers \<Rightarrow> nat \<Rightarrow> oid \<Rightarrow> string \<Rightarrow> string option \<Rightarrow> int \<Rightarrow> world \<Rightarrow> (int \<times> world) option" where
  "uv_udp_set_membership os opt h multicast_addr interface_addr membership w =
     (if uv_ip4_addr multicast_addr \<noteq> None then
        (case uv__udp_maybe_deferred_bind os h 2 4 w of
           None \<Rightarrow> None
         | Some (err, w1) \<Rightarrow> Some (if err \<noteq> 0 then err else set_membership opt uv_ip4_addr interface_addr membership, w1))
      else if uv_ip6_addr multicast_addr \<noteq> None then
        (case uv__udp_maybe_deferred_bind os h 10 4 w of
           None \<Rightarrow> None
         | Some (err, w1) \<Rightarrow> Some (if err \<noteq> 0 then err else set_membership opt uv_ip6_addr interface_addr membership, w1))
      else Some (UV_EINVAL, w))"

text \<open>\<open>uv__setsockopt_maybe_char\<close> and the functions that call it; \<open>opt ipv6\<close> answers \<open>setsockopt\<close>.\<close>

definition uv__setsockopt :: "(bool \<Rightarrow> nat) \<Rightarrow> oid \<Rightarrow> world \<Rightarrow> int" where
  "uv__setsockopt opt h w = - int (opt (u_ipv6 (uvh w h)))"

definition uv__setsockopt_maybe_char :: "(bool \<Rightarrow> nat) \<Rightarrow> oid \<Rightarrow> int \<Rightarrow> world \<Rightarrow> int" where
  "uv__setsockopt_maybe_char opt h val w =
     (if val < 0 \<or> val > 255 then UV_EINVAL else uv__setsockopt opt h w)"

definition uv_udp_set_ttl :: "(bool \<Rightarrow> nat) \<Rightarrow> oid \<Rightarrow> int \<Rightarrow> world \<Rightarrow> int" where
  "uv_udp_set_ttl opt h ttl w =
     (if ttl < 1 \<or> ttl > 255 then UV_EINVAL else uv__setsockopt_maybe_char opt h ttl w)"

definition uv_udp_set_multicast_ttl :: "(bool \<Rightarrow> nat) \<Rightarrow> oid \<Rightarrow> int \<Rightarrow> world \<Rightarrow> int" where
  "uv_udp_set_multicast_ttl opt h ttl w = uv__setsockopt_maybe_char opt h ttl w"

definition uv_udp_set_multicast_loop :: "(bool \<Rightarrow> nat) \<Rightarrow> oid \<Rightarrow> bool \<Rightarrow> world \<Rightarrow> int" where
  "uv_udp_set_multicast_loop opt h on w = uv__setsockopt_maybe_char opt h (of_bool on) w"

definition uv_udp_set_broadcast :: "nat \<Rightarrow> int" where
  "uv_udp_set_broadcast opt = - int opt"

text \<open>\<open>opt ipv6\<close>: the option is set for the family of the interface address.\<close>

definition uv_udp_set_multicast_interface :: "(bool \<Rightarrow> nat) \<Rightarrow> oid \<Rightarrow> string option \<Rightarrow> world \<Rightarrow> int" where
  "uv_udp_set_multicast_interface opt h interface_addr w =
     (case interface_addr of
        None \<Rightarrow> - int (opt (u_ipv6 (uvh w h)))
      | Some i \<Rightarrow> if uv_ip4_addr i \<noteq> None then - int (opt False)
                  else if uv_ip6_addr i \<noteq> None then - int (opt True)
                  else UV_EINVAL)"

section \<open>Methods\<close>

definition UDP_tp_new :: "world \<Rightarrow> oid result \<times> world" where
  "UDP_tp_new = Handle_tp_new UDPC"

definition UDP_tp_init :: "os_answers \<Rightarrow> oid \<Rightarrow> (oid \<times> int) args \<Rightarrow> world \<Rightarrow> unit result \<times> world" where
  "UDP_tp_init os self args w =
     RAISE_IF_HANDLE_INITIALIZED self w
     (PyArg_Parse args w (\<lambda>(loop, family).
       let (err, w1) = uv_udp_init_ex os loop self (word_of_int family) w
       in if err < 0 then (Raise (UVExc UDPError err), w1)
          else (Ok (), initialize_handle self loop w1)))"

definition UDP_func_bind :: "os_answers \<Rightarrow> oid \<Rightarrow> (addr_arg \<times> int) args \<Rightarrow> world \<Rightarrow> unit result \<times> world" where
  "UDP_func_bind os self args w =
     RAISE_IF_HANDLE_NOT_INITIALIZED self w
     (RAISE_IF_HANDLE_CLOSED self w
     (PyArg_Parse args w (\<lambda>(addr, flags).
       case pyuv_parse_addr_tuple addr of
         Inl e \<Rightarrow> (Raise e, w)
       | Inr ss \<Rightarrow> uv_result UDPError (Some (uv_udp_bind os self ss (word_of_int flags) w)) w)))"

definition UDP_func_start_recv :: "os_answers \<Rightarrow> oid \<Rightarrow> oid args \<Rightarrow> world \<Rightarrow> unit result \<times> world" where
  "UDP_func_start_recv os self args w =
     RAISE_IF_HANDLE_NOT_INITIALIZED self w
     (RAISE_IF_HANDLE_CLOSED self w
     (PyArg_Parse args w (\<lambda>callback.
       if \<not> PyCallable_Check w callback then (Raise TypeError, w)
       else case uv_udp_recv_start os self w of
              None \<Rightarrow> (Abort, w)
            | Some (err, w1) \<Rightarrow>
                if err < 0 then (Raise (UVExc UDPError err), w1)
                else (Ok (), PYUV_HANDLE_INCREF self (assign_slot self S_on_read_cb callback w1)))))"

definition UDP_func_stop_recv :: "oid \<Rightarrow> world \<Rightarrow> unit result \<times> world" where
  "UDP_func_stop_recv self w =
     RAISE_IF_HANDLE_NOT_INITIALIZED self w
     (RAISE_IF_HANDLE_CLOSED self w
     (let (err, w1) = uv_udp_recv_stop self w
      in if err < 0 then (Raise (UVExc UDPError err), w1)
         else (Ok (), PYUV_HANDLE_DECREF self (clear_slot self S_on_read_cb w1))))"

text \<open>The view of the data is taken by \<open>PyArg_ParseTuple\<close> and released on every path.\<close>

definition UDP_func_try_send ::
    "os_answers \<Rightarrow> (nat + nat) \<Rightarrow> oid \<Rightarrow> (addr_arg \<times> oid) args \<Rightarrow> world \<Rightarrow> int result \<times> world" where
  "UDP_func_try_send os sent self args w =
     RAISE_IF_HANDLE_NOT_INITIALIZED self w
     (RAISE_IF_HANDLE_CLOSED self w
     (PyArg_Parse args w (\<lambda>(addr, data).
       let w1 = Py_INCREF data w
       in case pyuv_parse_addr_tuple addr of
            Inl e \<Rightarrow> (Raise e, Py_DECREF data w1)
          | Inr ss \<Rightarrow>
              (case uv_udp_try_send os sent self ss w1 of
                 None \<Rightarrow> (Abort, w1)
               | Some (err, w2) \<Rightarrow>
                   (if err < 0 then Raise (UVExc UDPError err) else Ok err, Py_DECREF data w2)))))"

definition send_ctx :: "oid \<Rightarrow> oid \<Rightarrow> oid list \<Rightarrow> int option \<Rightarrow> request_ctx" where
  "send_ctx self callback views status =
     \<lparr>rq_type = SendReq, rq_obj = self, rq_callback = callback, rq_send_handle = None, rq_views = views,
      rq_status = status\<rparr>"

definition pyuv__udp_send_bytes ::
    "bool \<Rightarrow> (oid \<Rightarrow> bool) \<Rightarrow> os_answers \<Rightarrow> int option \<Rightarrow> oid \<Rightarrow> sockaddr \<Rightarrow> oid \<Rightarrow> oid \<Rightarrow> world \<Rightarrow> unit result \<times> world" where
  "pyuv__udp_send_bytes mem buf_ok os sent self addr data callback w =
     (if \<not> mem then (Raise MemoryError, w)
      else if \<not> buf_ok data then (Raise OtherError, w)
      else let w1 = fold Py_INCREF [data, callback] w
           in case uv_udp_send os sent self addr w1 of
                None \<Rightarrow> (Abort, w1)
              | Some (err, status, w2) \<Rightarrow>
                  if err < 0 then (Raise (UVExc UDPError err), Py_DECREF data (Py_DECREF callback w2))
                  else (Ok (), add_req (send_ctx self callback [data] status) (Py_INCREF self w2)))"

definition pyuv__udp_send_sequence ::
    "bool \<Rightarrow> (oid \<Rightarrow> bool) \<Rightarrow> os_answers \<Rightarrow> int option \<Rightarrow> oid \<Rightarrow> sockaddr \<Rightarrow> oid \<Rightarrow> bool \<Rightarrow> oid list \<Rightarrow> oid \<Rightarrow> world
      \<Rightarrow> unit result \<times> world" where
  "pyuv__udp_send_sequence mem buf_ok os sent self addr data is_fast items callback w =
     (let (data_fast, w0) = PySequence_Fast is_fast data w
      in if 2147483647 < length items then (Raise ValueError, Py_DECREF data_fast w0)
         else if items = [] then (Raise ValueError, Py_DECREF data_fast w0)
         else if \<not> mem then (Raise MemoryError, Py_DECREF data_fast w0)
         else let good = takeWhile buf_ok items;
                  w1 = fold Py_INCREF good w0
              in if good \<noteq> items then (Raise OtherError, Py_DECREF data_fast (release good w1))
                 else let w2 = Py_INCREF callback w1
                      in case uv_udp_send os sent self addr w2 of
                           None \<Rightarrow> (Abort, w2)
                         | Some (err, status, w3) \<Rightarrow>
                             if err < 0
                             then (Raise (UVExc UDPError err),
                                   Py_DECREF data_fast (release items (Py_DECREF callback w3)))
                             else (Ok (), add_req (send_ctx self callback items status) (Py_INCREF self w3)))"

definition UDP_func_send ::
    "bool \<Rightarrow> (oid \<Rightarrow> bool) \<Rightarrow> os_answers \<Rightarrow> int option \<Rightarrow> oid \<Rightarrow> (addr_arg \<times> data_arg \<times> oid option) args \<Rightarrow> world
      \<Rightarrow> unit result \<times> world" where
  "UDP_func_send mem buf_ok os sent self args w =
     RAISE_IF_HANDLE_NOT_INITIALIZED self w
     (RAISE_IF_HANDLE_CLOSED self w
     (PyArg_Parse args w (\<lambda>(addr, data, cb).
       let callback = (case cb of None \<Rightarrow> Py_None | Some c \<Rightarrow> c)
       in if callback \<noteq> Py_None \<and> \<not> PyCallable_Check w callback then (Raise TypeError, w)
          else case pyuv_parse_addr_tuple addr of
                 Inl e \<Rightarrow> (Raise e, w)
               | Inr ss \<Rightarrow>
                   (case data of
                      Buffer d \<Rightarrow> pyuv__udp_send_bytes mem buf_ok os sent self ss d callback w
                    | Sequence d fast items \<Rightarrow> pyuv__udp_send_sequence mem buf_ok os sent self ss d fast items callback w
                    | OtherData \<Rightarrow> (Raise TypeError, w)))))"

definition UDP_func_set_membership ::
    "os_answers \<Rightarrow> nat \<Rightarrow> oid \<Rightarrow> (string \<times> int \<times> string option) args \<Rightarrow> world \<Rightarrow> unit result \<times> world" where
  "UDP_func_set_membership os opt self args w =
     RAISE_IF_HANDLE_NOT_INITIALIZED self w
     (RAISE_IF_HANDLE_CLOSED self w
     (PyArg_Parse args w (\<lambda>(multicast_address, membership, interface_address).
       uv_result UDPError (uv_udp_set_membership os opt self multicast_address interface_address membership w) w)))"

definition UDP_func_set_multicast_interface ::
    "(bool \<Rightarrow> nat) \<Rightarrow> oid \<Rightarrow> string option args \<Rightarrow> world \<Rightarrow> unit result \<times> world" where
  "UDP_func_set_multicast_interface opt self args w =
     RAISE_IF_HANDLE_NOT_INITIALIZED self w
     (RAISE_IF_HANDLE_CLOSED self w
     (PyArg_Parse args w (\<lambda>i. uv_result UDPError (Some (uv_udp_set_multicast_interface opt self i w, w)) w)))"

definition UDP_func_getsockname :: "(nat + sockaddr) \<Rightarrow> oid \<Rightarrow> world \<Rightarrow> py_addr result \<times> world" where
  "UDP_func_getsockname name self w =
     RAISE_IF_HANDLE_NOT_INITIALIZED self w
     (RAISE_IF_HANDLE_CLOSED self w (sock_name_result UDPError (uv_udp_getsockname name self w), w))"

definition UDP_func_set_multicast_ttl :: "(bool \<Rightarrow> nat) \<Rightarrow> oid \<Rightarrow> int args \<Rightarrow> world \<Rightarrow> unit result \<times> world" where
  "UDP_func_set_multicast_ttl opt self args w =
     RAISE_IF_HANDLE_NOT_INITIALIZED self w
     (RAISE_IF_HANDLE_CLOSED self w
     (PyArg_Parse args w (\<lambda>ttl.
       if ttl < 0 \<or> ttl > 255 then (Raise ValueError, w)
       else uv_result UDPError (Some (uv_udp_set_multicast_ttl opt self ttl w, w)) w)))"

definition UDP_func_set_ttl :: "(bool \<Rightarrow> nat) \<Rightarrow> oid \<Rightarrow> int args \<Rightarrow> world \<Rightarrow> unit result \<times> world" where
  "UDP_func_set_ttl opt self args w =
     RAISE_IF_HANDLE_NOT_INITIALIZED self w
     (RAISE_IF_HANDLE_CLOSED self w
     (PyArg_Parse args w (\<lambda>ttl.
       if ttl < 0 \<or> ttl > 255 then (Raise ValueError, w)
       else uv_result UDPError (Some (uv_udp_set_ttl opt self ttl w, w)) w)))"

definition UDP_func_set_broadcast :: "nat \<Rightarrow> oid \<Rightarrow> bool args \<Rightarrow> world \<Rightarrow> unit result \<times> world" where
  "UDP_func_set_broadcast opt self args w =
     RAISE_IF_HANDLE_NOT_INITIALIZED self w
     (RAISE_IF_HANDLE_CLOSED self w
     (PyArg_Parse args w (\<lambda>enable. uv_result UDPError (Some (uv_udp_set_broadcast opt, w)) w)))"

definition UDP_func_set_multicast_loop :: "(bool \<Rightarrow> nat) \<Rightarrow> oid \<Rightarrow> bool args \<Rightarrow> world \<Rightarrow> unit result \<times> world" where
  "UDP_func_set_multicast_loop opt self args w =
     RAISE_IF_HANDLE_NOT_INITIALIZED self w
     (RAISE_IF_HANDLE_CLOSED self w
     (PyArg_Parse args w (\<lambda>enable. uv_result UDPError (Some (uv_udp_set_multicast_loop opt self enable w, w)) w)))"

text \<open>The error of \<open>uv_udp_open\<close> is not looked at.\<close>

definition UDP_func_open :: "os_answers \<Rightarrow> oid \<Rightarrow> int args \<Rightarrow> world \<Rightarrow> unit result \<times> world" where
  "UDP_func_open os self args w =
     RAISE_IF_HANDLE_NOT_INITIALIZED self w
     (RAISE_IF_HANDLE_CLOSED self w
     (PyArg_Parse args w (\<lambda>fd. (Ok (), snd (uv_udp_open os self (int_cast fd) w)))))"

definition UDP_func_fileno :: "oid \<Rightarrow> world \<Rightarrow> int result \<times> world" where
  "UDP_func_fileno self w =
     RAISE_IF_HANDLE_NOT_INITIALIZED self w
     (RAISE_IF_HANDLE_CLOSED self w
     (if uv_is_closing self w \<or> u_fd (uvh w self) = - 1 then Raise (UVExc UDPError UV_EBADF)
      else Ok (u_fd (uvh w self)), w))"

definition UDP_family_get :: "(nat + sockaddr) \<Rightarrow> oid \<Rightarrow> world \<Rightarrow> int result \<times> world" where
  "UDP_family_get name self w =
     RAISE_IF_HANDLE_NOT_INITIALIZED self w
     (case uv_udp_getsockname name self w of
        Inl err \<Rightarrow> (if err < 0 then Raise (UVExc UDPError err) else Ok 0, w)
      | Inr a \<Rightarrow> (Ok (sa_family a), w))"

definition UDP_sndbuf_get :: "(nat + int) \<Rightarrow> (int \<Rightarrow> nat) \<Rightarrow> oid \<Rightarrow> world \<Rightarrow> int result \<times> world" where
  "UDP_sndbuf_get = buffer_size_get UDPError"

definition UDP_rcvbuf_get :: "(nat + int) \<Rightarrow> (int \<Rightarrow> nat) \<Rightarrow> oid \<Rightarrow> world \<Rightarrow> int result \<times> world" where
  "UDP_rcvbuf_get = buffer_size_get UDPError"

definition UDP_sndbuf_set ::
    "(nat + int) \<Rightarrow> (int \<Rightarrow> nat) \<Rightarrow> oid \<Rightarrow> int args option \<Rightarrow> world \<Rightarrow> unit result \<times> world" where
  "UDP_sndbuf_set = buffer_size_set UDPError"

definition UDP_rcvbuf_set ::
    "(nat + int) \<Rightarrow> (int \<Rightarrow> nat) \<Rightarrow> oid \<Rightarrow> int args option \<Rightarrow> world \<Rightarrow> unit result \<times> world" where
  "UDP_rcvbuf_set = buffer_size_set UDPError"

text \<open>
  \<open>send_queue_size\<close> counts the bytes of the pending sends; \<open>len\<close> is the length of the buffer of an
  object, which cannot change while a view of it is held.
\<close>

definition UDP_send_queue_size_get :: "(oid \<Rightarrow> nat) \<Rightarrow> oid \<Rightarrow> world \<Rightarrow> nat result \<times> world" where
  "UDP_send_queue_size_get len self w =
     RAISE_IF_HANDLE_NOT_INITIALIZED self w
     (Ok (sum_list (map (\<lambda>r. sum_list (map len (rq_views r))) (pending_sends self w))), w)"

end
