(* ===== verification/Udp_Rules.thy ===== *)
theory Udp_Rules
  imports Udp
begin

text \<open>
  The methods of \<open>UDP\<close> keep the invariant of the state and leave running callbacks undisturbed.
\<close>

section \<open>Steps of libuv\<close>

lemma udp_bind_step:
  assumes "uv__udp_bind os h addr flags w = (e, w')"
  shows "sock_step {h} w w'" "e \<le> 0"
proof -
  have o: "sock_step {h} w (upd_uv h (stream_opened (os_socket os)) w)" if "u_fd (uvh w h) = - 1" "0 \<le> os_socket os"
    by (rule sock_step_opened) (use that in auto)
  have b: "sock_step {h} w (upd_uv h (\<lambda>u. u\<lparr>u_bound := True, u_ipv6 := b u\<rparr>) w1)" if "sock_step {h} w w1" for w1 b
    by (rule sock_step_then [OF that]) (simp_all add: sock_fun_def)
  show "sock_step {h} w w'"
    using assms o b by (auto simp: uv__udp_bind_def split: if_splits)
  show "e \<le> 0"
    using assms by (auto simp: uv__udp_bind_def UV_EINVAL_def split: if_splits)
qed

lemma deferred_bind_step:
  assumes "uv__udp_maybe_deferred_bind os h d fl w = Some (e, w')"
  shows "sock_step {h} w w'" "e \<le> 0"
  using assms udp_bind_step by (auto simp: uv__udp_maybe_deferred_bind_def split: if_splits)

lemma udp_bind_call: "uv_udp_bind os h addr fl w = (e, w') \<Longrightarrow> sock_step {h} w w'"
  using udp_bind_step(1) by (auto simp: uv_udp_bind_def split: sockaddr.splits if_splits)

lemma udp_open_step: "uv_udp_open os h fd w = (e, w') \<Longrightarrow> sock_step {h} w w'"
  using sock_step_opened [of w h fd] by (auto simp: uv_udp_open_def split: if_splits)

lemma udp_membership_step:
  "uv_udp_set_membership os opt h m i b w = Some (e, w') \<Longrightarrow> sock_step {h} w w'"
  using deferred_bind_step(1) by (auto simp: uv_udp_set_membership_def split: if_splits option.splits)

lemma udp_try_send_step: "uv_udp_try_send os sent h addr w = Some (e, w') \<Longrightarrow> sock_step {h} w w'"
  using deferred_bind_step(1)
  by (auto simp: uv_udp_try_send_def split: if_splits option.splits sockaddr.splits)

lemma udp_inited:
  assumes "ok fr w" and "held fr w x" and "kind (objs w ! x) = KHandle UDPC" and "\<not> initialized (hs w x)"
    and "uv_udp_init_ex os l x flags w = (e, w')"
  shows "e = 0 \<and> sock_inited l x UV_UDP w w' \<or> e < 0 \<and> w' = w"
proof -
  note U = uninitD [OF assms(1-4)]
  have "sock_inited l x UV_UDP w (upd_uv x id (uv__handle_init l x UV_UDP w))"
    by (rule sock_inited_handle [OF okD(2) [OF assms(1)] U(3)]) (use U in simp_all)
  moreover have "upd_uv x id (uv__handle_init l x UV_UDP w) = uv__handle_init l x UV_UDP w"
    by (simp add: upd_uv_def)
  ultimately have i: "sock_inited l x UV_UDP w (uv__handle_init l x UV_UDP w)" by simp
  have "sock_inited l x UV_UDP w (upd_uv x (\<lambda>u. u\<lparr>u_pollout := False, u_fd := fd\<rparr>) (uv__handle_init l x UV_UDP w))" for fd
    by (rule sock_inited_upd [OF i]) (simp add: sock_fun_def)
  then show ?thesis
    using assms(5) by (auto simp: uv_udp_init_ex_def Let_def UV_EINVAL_def split: if_splits)
qed

text \<open>A UDP handle starts or stops to be active.\<close>

lemma udp_active:
  assumes ok: "ok fr w" and v: "valid w h" and k: "kind (objs w ! h) = KHandle UDPC" and i: "initialized (hs w h)"
  shows "\<not> u_closing (uvh w h) \<Longrightarrow> ok fr (uv__handle_start h w)"
    "\<not> u_closed (uvh w h) \<Longrightarrow> ok fr (uv__handle_stop h w)"
proof -
  have t: "u_type (uvh w h) = Some UV_UDP"
    using wf_handle_ok [OF okD(1) [OF ok], of h] k i v by (auto simp: handle_ok_def)
  have l: "\<exists>l. u_loop (uvh w h) = Some l" if "\<not> u_closed (uvh w h)"
    using wf_loop_valid [OF okD(1) [OF ok] i that] by blast
  have f: "(fires c u1 \<longrightarrow> fires c u) \<and> (keeps_alive c \<and> u_active u1 \<longrightarrow> u_active u)"
    if "kind (objs w ! h) = KHandle c" for c u1 u using that k by (simp add: keeps_alive_def)
  have r: "u_reading (uvh (uv__handle_start h w) h) = u_reading (uvh w h)" "u_fd (uvh (uv__handle_start h w) h) = u_fd (uvh w h)"
    "u_reading (uvh (uv__handle_stop h w) h) = u_reading (uvh w h)" "u_fd (uvh (uv__handle_stop h w) h) = u_fd (uvh w h)"
    by (simp_all add: uv__handle_start_def uv__handle_stop_def uv__active_handle_add_def uv__active_handle_rm_def Let_def uv_defs)
  show "ok fr (uv__handle_start h w)" if nc: "\<not> u_closing (uvh w h)"
  proof -
    have n: "\<not> u_closed (uvh w h)" using nc uv_inv_uh [OF okD(2) [OF ok], of h] by (auto simp: uh_ok_def)
    obtain l where "u_loop (uvh w h) = Some l" using l [OF n] by blast
    then have "uv_inv (uv__handle_start h w)"
      by (rule uv_inv_plain_start [OF okD(2) [OF ok] _ nc t]) (simp add: plain_type_def)
    then show ?thesis
      by (intro ok_quiet_fields [OF ok, where x = h])
        (use f in \<open>auto simp: quiet local_steps r\<close>)
  qed
  show "ok fr (uv__handle_stop h w)" if nc: "\<not> u_closed (uvh w h)"
  proof -
    obtain l where "u_loop (uvh w h) = Some l" using l [OF nc] by blast
    then have "uv_inv (uv__handle_stop h w)"
      by (rule uv_inv_plain_stop [OF okD(2) [OF ok] _ nc t]) (simp add: plain_type_def)
    then show ?thesis
      by (intro ok_quiet_fields [OF ok, where x = h])
        (use f in \<open>auto simp: quiet local_steps r\<close>)
  qed
qed

definition send_queued :: "oid \<Rightarrow> world \<Rightarrow> world" where
  "send_queued h w = uv__handle_start h (uv__req_register (loop_of w h) w)"

lemma send_queued_same:
  assumes "w' = send_queued h w \<or> w' = upd_uv h (\<lambda>u. u\<lparr>u_pollout := True\<rparr>) (send_queued h w)"
  shows "uv_quiet w w'" "u_processing (uvh w' x) = u_processing (uvh w x)"
proof -
  show q: "uv_quiet w w'" using assms by (auto simp: send_queued_def quiet)
  show "u_processing (uvh w' x) = u_processing (uvh w x)" using q by (simp add: uv_quiet_def)
qed

lemma udp_send_cases:
  assumes "uv_udp_send os sent h addr w = Some (e, st, w')"
  obtains (failed) "e < 0" "sock_step {h} w w'"
  | (queued) w1 where "e = 0" "sock_step {h} w w1" "u_type (uvh w h) = Some UV_UDP"
      "w' = send_queued h w1 \<and> st = sent \<and> \<not> u_processing (uvh w1 h) \<or>
       w' = upd_uv h (\<lambda>u. u\<lparr>u_pollout := True\<rparr>) (send_queued h w1) \<and> st = None"
proof -
  have p: "u_processing (uvh (uv__handle_start h (uv__req_register (loop_of w1 h) w1)) h) = u_processing (uvh w1 h)" for w1
    using send_queued_same(2) [of "send_queued h w1" h w1 h] by (simp add: send_queued_def)
  from assms consider "e < 0" "w' = w"
    | "u_type (uvh w h) = Some UV_UDP" "uv__udp_send os sent h addr w = Some (e, st, w')"
    by (auto simp: uv_udp_send_def UV_EINVAL_def split: if_splits sockaddr.splits)
  then show thesis
  proof cases
    case 1
    then show thesis using failed by simp
  next
    case 2
    from 2(2) obtain err w1 where b: "uv__udp_maybe_deferred_bind os h (sa_family addr) 0 w = Some (err, w1)"
      by (auto simp: uv__udp_send_def split: option.splits)
    note B = deferred_bind_step [OF b]
    show thesis
    proof (cases "err = 0")
      case False
      then show thesis using 2(2) b B failed by (auto simp: uv__udp_send_def)
    next
      case True
      then show thesis
        using 2 b B(1) queued [of w1] by (auto simp: uv__udp_send_def Let_def p send_queued_def split: if_splits)
    qed
  qed
qed

lemma ok_send_queued:
  assumes "ok fr w" and "valid w h" and "kind (objs w ! h) = KHandle UDPC" and "initialized (hs w h)" and "\<not> u_closing (uvh w h)"
    and "w' = send_queued h w \<or> w' = upd_uv h (\<lambda>u. u\<lparr>u_pollout := True\<rparr>) (send_queued h w)"
  shows "ok fr w'"
proof -
  let ?w1 = "uv__req_register (loop_of w h) w"
  have e: "hs ?w1 = hs w" "objs ?w1 = objs w" by (simp_all add: uv__req_register_def upd_uvl_def)
  have "ok fr (uv__handle_start h ?w1)"
    by (rule udp_active(1) [OF ok_req_register(1) [OF assms(1)]]) (use assms in \<open>simp_all add: e valid_def\<close>)
  then have o: "ok fr (send_queued h w)" by (simp add: send_queued_def)
  have "ok fr (upd_uv h (\<lambda>u. u\<lparr>u_pollout := True\<rparr>) (send_queued h w))" by (rule ok_upd_uv [OF o]) simp_all
  with o show ?thesis using assms(6) by auto
qed

section \<open>The methods\<close>

lemma keeping_UDP_tp_init:
  assumes ok: "ok fr w" and h: "held fr w x" and k: "kind (objs w ! x) = KHandle UDPC"
    and a: "\<And>l f. args = Inr (l, f) \<Longrightarrow> is_loop w l"
  shows "keeping fr w (UDP_tp_init os x args w)"
  unfolding UDP_tp_init_def
proof (rule keeping_init [OF ok], clarify)
  fix l f assume ni: "\<not> initialized (hs w x)" and ar: "args = Inr (l, f)"
  obtain e w1 where e: "uv_udp_init_ex os l x (word_of_int f) w = (e, w1)" by fastforce
  show "keeping fr w (let (err, w1) = uv_udp_init_ex os l x (word_of_int f) w
      in if err < 0 then (Raise (UVExc UDPError err), w1) else (Ok (), initialize_handle x l w1))"
    using udp_inited [OF ok h k ni e] keeping_sock_init [OF ok h k _ ni a [OF ar]] e keeping_same [OF ok]
    by (auto simp: socket_class_def)
qed

lemma keeping_UDP_options:
  assumes "ok fr w"
  shows "keeping fr w (UDP_func_bind os x a1 w)" "keeping fr w (UDP_func_set_membership os o1 x a2 w)"
    "keeping fr w (UDP_func_set_multicast_interface o2 x a3 w)" "keeping fr w (UDP_func_set_multicast_ttl o2 x a4 w)"
    "keeping fr w (UDP_func_set_ttl o2 x a4 w)" "keeping fr w (UDP_func_set_broadcast o1 x a5 w)"
    "keeping fr w (UDP_func_set_multicast_loop o2 x a5 w)"
  unfolding UDP_func_bind_def UDP_func_set_membership_def UDP_func_set_multicast_interface_def
    UDP_func_set_multicast_ttl_def UDP_func_set_ttl_def UDP_func_set_broadcast_def UDP_func_set_multicast_loop_def
  by (rule keeping_method [OF assms];
      auto split: sum.split intro!: keeping_same [OF assms] keeping_uv_result [OF assms, where A = "{x}"]
        intro: udp_bind_call udp_membership_step)+

lemma keeping_UDP_open: "ok fr w \<Longrightarrow> keeping fr w (UDP_func_open os x args w)"
  unfolding UDP_func_open_def
  by (rule keeping_method) (auto intro!: keeping_sock udp_open_step [OF prod.collapse [symmetric]])

lemma keeping_UDP_try_send:
  assumes ok: "ok fr w" and a: "\<And>ad d. args = Inr (ad, d) \<Longrightarrow> held fr w d"
  shows "keeping fr w (UDP_func_try_send os sent x args w)"
  unfolding UDP_func_try_send_def Let_def
proof (rule keeping_method [OF ok], clarify)
  fix ad d assume ar: "args = Inr (ad, d)"
  let ?w1 = "Py_INCREF d w"
  have o1: "ok (add_mset d fr) ?w1" by (rule ok_INCREF [OF ok held_valid [OF okD(1) [OF ok] a [OF ar]]])
  have drop: "keeping fr w (r, Py_DECREF d w2)" if "sock_step A ?w1 w2" for A w2 and r :: "int result"
    using ok_DECREF [OF sock_stepD(1) [OF that o1]]
      stable_trans [OF stable_INCREF stable_trans [OF sock_stepD(3) [OF that] stable_release]]
    by (intro keepingI) simp
  show "keeping fr w (case pyuv_parse_addr_tuple ad of Inl e \<Rightarrow> (Raise e, Py_DECREF d ?w1)
      | Inr ss \<Rightarrow> (case uv_udp_try_send os sent x ss ?w1 of None \<Rightarrow> (Abort, ?w1)
          | Some (err, w2) \<Rightarrow> (if err < 0 then Raise (UVExc UDPError err) else Ok err, Py_DECREF d w2)))"
    using drop [OF sock_step_refl] drop [OF udp_try_send_step] keeping_abort [OF stable_INCREF, of fr w d]
    by (auto split: sum.splits option.splits)
qed

lemma udp_recv_start_cases:
  assumes "uv_udp_recv_start os x w = Some (e, w')"
  shows "e < 0 \<and> sock_step {x} w w' \<or> e = 0 \<and> (\<exists>w1. sock_step {x} w w1 \<and> \<not> u_fd (uvh w1 x) < 0 \<and>
    w' = uv__handle_start x (upd_uv x (\<lambda>u. u\<lparr>u_reading := True\<rparr>) w1))"
proof (cases "u_type (uvh w x) = Some UV_UDP \<and> \<not> u_reading (uvh w x)")
  case False
  then show ?thesis using assms by (auto simp: uv_udp_recv_start_def UV_EINVAL_def UV_EALREADY_def split: if_splits)
next
  case True
  then obtain err w1 where b: "uv__udp_maybe_deferred_bind os x 2 0 w = Some (err, w1)"
    using assms by (auto simp: uv_udp_recv_start_def split: option.splits)
  show ?thesis
    using deferred_bind_step [OF b] True assms b by (auto simp: uv_udp_recv_start_def split: if_splits)
qed

lemma keeping_UDP_start_recv:
  assumes ok: "ok fr w" and h: "held fr w x" and k: "kind (objs w ! x) = KHandle UDPC"
    and a: "\<And>f. args = Inr f \<Longrightarrow> held fr w f"
  shows "keeping fr w (UDP_func_start_recv os x args w)"
  unfolding UDP_func_start_recv_def
proof (rule keeping_method [OF ok])
  fix f assume i: "initialized (hs w x)" "\<not> uv_is_closing x w" and ar: "args = Inr f"
  have st: "keeping fr w (Ok (), PYUV_HANDLE_INCREF x (assign_slot x S_on_read_cb f
      (uv__handle_start x (upd_uv x (\<lambda>u. u\<lparr>u_reading := True\<rparr>) w1))))"
    if s: "sock_step {x} w w1" and fd: "\<not> u_fd (uvh w1 x) < 0" for w1
  proof -
    let ?w2 = "uv__handle_start x (upd_uv x (\<lambda>u. u\<lparr>u_reading := True\<rparr>) w1)"
    have o1: "ok fr w1" "undisturbed w w1" using sock_stepD(1,3) [OF s] ok by auto
    have e: "objs w1 = objs w" "ext w1 = ext w" using sock_stepD(4,5) [OF s] by auto
    have h1: "held fr w1 x" "held fr w1 f" using h a [OF ar] by (simp_all add: held_def e)
    have op: "open_handle w1 x UDPC"
      by (rule open_handleI [OF o1(1) h1(1)]) (use k i sock_stepD(9) [OF s, of x] in
          \<open>simp_all add: e sock_same_def uv_is_closing_def\<close>)
    note D = open_handleD [OF o1(1) op]
    obtain l where l: "u_loop (uvh w1 x) = Some l" using D(7) by blast
    have "uv_inv (upd_uv x (\<lambda>u. u\<lparr>u_reading := True\<rparr>) w1)" by (rule uv_inv_upd_uv [OF okD(2) [OF o1(1)]]) simp_all
    then have inv: "uv_inv ?w2"
      by (rule uv_inv_plain_start [where t = UV_UDP]) (use l op D(6) in \<open>simp_all add: uv_defs open_handle_def plain_type_def\<close>)
    have q: "uv_quiet w1 ?w2" by (simp add: quiet)
    have loc: "uv_local x w1 ?w2" by (intro local_steps) (simp add: uv_local_def)
    have fd2: "0 \<le> u_fd (uvh ?w2 x)"
      using fd by (simp add: uv__handle_start_def uv__active_handle_add_def Let_def uv_defs)
    have "ok fr (PYUV_HANDLE_INCREF x (assign_slot x S_on_read_cb f ?w2))"
      using ok_started [OF o1(1) op h1 q loc inv] fd2 by (simp add: cb_slot_def reads_class_def tp_clear_defs)
    moreover have "undisturbed w1 (PYUV_HANDLE_INCREF x (assign_slot x S_on_read_cb f ?w2))"
      by (rule stable_started [OF q]) simp_all
    ultimately show ?thesis using stable_trans [OF o1(2)] by (intro keepingI) simp
  qed
  show "keeping fr w (if \<not> PyCallable_Check w f then (Raise TypeError, w)
      else case uv_udp_recv_start os x w of None \<Rightarrow> (Abort, w)
        | Some (err, w1) \<Rightarrow> if err < 0 then (Raise (UVExc UDPError err), w1)
            else (Ok (), PYUV_HANDLE_INCREF x (assign_slot x S_on_read_cb f w1)))"
  proof (cases "uv_udp_recv_start os x w")
    case None
    then show ?thesis by (simp add: keeping_same [OF ok] keeping_abort)
  next
    case (Some p)
    obtain e w' where p: "p = (e, w')" by fastforce
    from udp_recv_start_cases [of os x w e w'] Some p st keeping_sock [OF ok] show ?thesis
      by (auto simp: keeping_same [OF ok])
  qed
qed

lemma keeping_UDP_stop_recv:
  assumes ok: "ok fr w" and h: "held fr w x" and k: "kind (objs w ! x) = KHandle UDPC"
  shows "keeping fr w (UDP_func_stop_recv x w)"
  unfolding UDP_func_stop_recv_def
proof (rule keeping_method0 [OF ok])
  assume i: "initialized (hs w x)" "\<not> uv_is_closing x w"
  have op: "open_handle w x UDPC" by (rule open_handleI [OF ok h k]) (use i in auto)
  note D = open_handleD [OF ok op]
  let ?w1 = "upd_uv x (\<lambda>u. u\<lparr>u_reading := False\<rparr>) w"
  define w2 where "w2 = (if u_pollout (uvh ?w1 x) then ?w1 else uv__handle_stop x ?w1)"
  obtain l where l: "u_loop (uvh w x) = Some l" using D(7) by blast
  have "uv_inv ?w1" by (rule uv_inv_upd_uv [OF okD(2) [OF ok]]) simp_all
  moreover from this have "uv_inv (uv__handle_stop x ?w1)"
    by (rule uv_inv_plain_stop [where t = UV_UDP])
      (use l op D(6) uv_inv_uh [OF okD(2) [OF ok], of x] in \<open>auto simp: uv_defs open_handle_def plain_type_def uh_ok_def\<close>)
  ultimately have inv: "uv_inv w2" by (simp add: w2_def)
  have q: "uv_quiet w w2" by (simp add: w2_def quiet)
  have "uv_local x w ?w1" "uv_local x w (uv__handle_stop x ?w1)" by (intro local_steps; simp add: uv_local_def)+
  then have loc: "uv_local x w w2" by (simp add: w2_def)
  have rd: "\<not> u_reading (uvh w2 x)"
    by (simp add: w2_def uv__handle_stop_def uv__active_handle_rm_def Let_def uv_defs)
  have "ok fr (PYUV_HANDLE_DECREF x (clear_slot x S_on_read_cb w2))"
    using ok_stopped_clear [OF ok op h q loc inv] rd by (simp add: cb_slot_def reads_class_def tp_clear_defs)
  moreover have "undisturbed w (PYUV_HANDLE_DECREF x (clear_slot x S_on_read_cb w2))"
    by (rule stable_stopped_clear [OF q]) simp_all
  ultimately show "keeping fr w (let (err, w1) = uv_udp_recv_stop x w
      in if err < 0 then (Raise (UVExc UDPError err), w1)
         else (Ok (), PYUV_HANDLE_DECREF x (clear_slot x S_on_read_cb w1)))"
    using D(6) by (simp add: uv_udp_recv_stop_def Let_def w2_def keepingI)
qed

section \<open>Sending\<close>

text \<open>The two ends of \<open>uv_udp_send\<close>: the request is queued, or the views and the callback are dropped.\<close>

lemma send_ends:
  assumes ok: "ok (mset views + add_mset c fr) w1" and u: "undisturbed w w1" and v: "valid w1 x"
    and k: "kind (objs w1 ! x) = KHandle UDPC" and i: "initialized (hs w1 x)" "\<not> u_closing (uvh w1 x)"
    and s: "uv_udp_send os sent x addr w1 = Some (err, st, w2)"
  shows "err < 0 \<Longrightarrow> ok (mset views + fr) (Py_DECREF c w2) \<and> undisturbed w (Py_DECREF c w2)"
    "\<not> err < 0 \<Longrightarrow> ok fr (add_req (send_ctx x c views st) (Py_INCREF x w2)) \<and>
      undisturbed w (add_req (send_ctx x c views st) (Py_INCREF x w2))"
proof -
  show "ok (mset views + fr) (Py_DECREF c w2) \<and> undisturbed w (Py_DECREF c w2)" if "err < 0"
  proof -
    have "sock_step {x} w1 w2" using that by (rule_tac udp_send_cases [OF s]) auto
    note S = sock_stepD(1,3) [OF this]
    have "ok (add_mset c (mset views + fr)) w2" using S(1) [OF ok] by simp
    from ok_DECREF [OF this] show ?thesis using stable_trans [OF u stable_trans [OF S(2) stable_release]] by blast
  qed
  show "ok fr (add_req (send_ctx x c views st) (Py_INCREF x w2)) \<and>
      undisturbed w (add_req (send_ctx x c views st) (Py_INCREF x w2))" if n: "\<not> err < 0"
  proof -
    obtain w0 where w0: "sock_step {x} w1 w0" "u_type (uvh w1 x) = Some UV_UDP"
      "w2 = send_queued x w0 \<and> st = sent \<and> \<not> u_processing (uvh w0 x) \<or>
       w2 = upd_uv x (\<lambda>u. u\<lparr>u_pollout := True\<rparr>) (send_queued x w0) \<and> st = None"
      by (rule udp_send_cases [OF s]) (use n in auto)
    note S = sock_stepD(1,3) [OF w0(1)]
    have e0: "objs w0 = objs w1" by (rule sock_stepD(4) [OF w0(1)])
    have s0: "initialized (hs w0 x)" "\<not> u_closing (uvh w0 x)" "u_type (uvh w0 x) = Some UV_UDP"
      using i w0(2) sock_stepD(9) [OF w0(1), of x] by (auto simp: sock_same_def)
    have w2: "w2 = send_queued x w0 \<or> w2 = upd_uv x (\<lambda>u. u\<lparr>u_pollout := True\<rparr>) (send_queued x w0)"
      using w0(3) by blast
    note Q = send_queued_same [OF w2]
    have o2: "ok (mset views + add_mset c fr) w2"
      by (rule ok_send_queued [OF S(1) [OF ok] _ _ s0(1,2) w2]) (use v k in \<open>simp_all add: e0 valid_def\<close>)
    have v2: "valid w2 x" using v Q(1) by (simp add: valid_def uv_quiet_def e0)
    let ?r = "send_ctx x c views st" and ?w3 = "Py_INCREF x w2"
    have "ok (add_mset x (mset views + add_mset c fr)) ?w3" by (rule ok_INCREF [OF o2 v2])
    then have o3: "ok (mset (rq_refs ?r) + fr) ?w3" by (simp add: rq_refs_def send_ctx_def ac_simps add_mset_commute)
    have s2: "initialized (hs w2 x)" "\<not> u_closing (uvh w2 x)" "u_type (uvh w2 x) = Some UV_UDP"
      using Q(1) s0 by (auto simp: uv_quiet_def)
    have "ok fr (add_req ?r ?w3)"
      by (rule ok_add_req [OF o3]) (use s2 in \<open>simp_all add: send_ctx_def req_fits_def\<close>)
    moreover have "undisturbed ?w3 (add_req ?r ?w3)"
      by (rule stable_req) (use s2 w0(3) Q(2) [of x] in \<open>auto simp: send_ctx_def\<close>)
    then have "undisturbed w (add_req ?r ?w3)"
      using stable_trans [OF stable_trans [OF stable_trans [OF u S(2)] stable_quiet [OF Q(1)]] stable_trans [OF stable_INCREF]]
      by blast
    ultimately show ?thesis by blast
  qed
qed

lemma leaking_send_bytes:
  assumes ok: "ok fr w" and i: "initialized (hs w x)" "\<not> u_closing (uvh w x)" and k: "kind (objs w ! x) = KHandle UDPC"
    and h: "held fr w x" "held fr w d" "held fr w c"
  shows "leaking fr None w (pyuv__udp_send_bytes mem bok os sent x addr d c w)"
proof -
  have v: "valid w y" if "held fr w y" for y by (rule held_valid [OF okD(1) [OF ok] that])
  let ?w1 = "fold Py_INCREF [d, c] w"
  have o1: "ok (mset [d] + add_mset c fr) ?w1"
    using ok_fold_INCREF [OF ok, of "[d, c]"] v h by (auto simp: add_mset_commute)
  have u1: "undisturbed w ?w1" by (rule stable_fold_INCREF)
  have f: "valid ?w1 x" "kind (objs ?w1 ! x) = KHandle UDPC" "initialized (hs ?w1 x)" "\<not> u_closing (uvh ?w1 x)"
    using v [OF h(1)] k i by (simp_all add: valid_def)
  have "leaking fr None w (Raise (UVExc UDPError err), Py_DECREF d (Py_DECREF c w2))"
    if s: "uv_udp_send os sent x addr ?w1 = Some (err, st, w2)" and n: "err < 0" for err st w2
  proof -
    note E = send_ends(1) [OF o1 u1 f s n]
    have "ok (add_mset d fr) (Py_DECREF c w2)" using E by simp
    from ok_DECREF [OF this] show ?thesis using E stable_trans [OF _ stable_release] by (auto simp: leaking_def)
  qed
  moreover have "leaking fr None w (Ok (), add_req (send_ctx x c [d] st) (Py_INCREF x w2))"
    if "uv_udp_send os sent x addr ?w1 = Some (err, st, w2)" "\<not> err < 0" for err st w2
    using send_ends(2) [OF o1 u1 f that] by (simp add: leaking_def)
  ultimately show ?thesis
    using leaking_raise [OF ok] u1
    by (auto simp: pyuv__udp_send_bytes_def Let_def leaking_def split: option.splits)
qed

text \<open>\<open>PySequence_Fast\<close> gives a new reference and leaves the handles alone.\<close>

lemma fast_step:
  assumes ok: "ok fr w" and f: "PySequence_Fast fast d w = (df, w0)" and v: "valid w d"
  shows "ok (add_mset df fr) w0" "undisturbed w w0" "valid w y \<Longrightarrow> valid w0 y" "y < length (objs w) \<Longrightarrow> hs w0 y = hs w y"
proof -
  have g: "ok (add_mset df fr) w0" if "PyType_GenericNew (KObject False) w = (df, w0)"
    using ok_GenericNew_object [OF ok that] by auto
  show "ok (add_mset df fr) w0" using f g ok_INCREF [OF ok v] by (auto simp: PySequence_Fast_def split: if_splits)
  show "undisturbed w w0" using stable_PySequence_Fast [of w fast d] f by simp
  show "valid w y \<Longrightarrow> valid w0 y" "y < length (objs w) \<Longrightarrow> hs w0 y = hs w y"
    using f by (auto simp: PySequence_Fast_def PyType_GenericNew_def valid_def nth_append split: if_splits)
qed

lemma leaking_send_sequence:
  assumes ok: "ok fr w" and i: "initialized (hs w x)" "\<not> u_closing (uvh w x)" and k: "kind (objs w ! x) = KHandle UDPC"
    and h: "held fr w x" "held fr w d" "held fr w c" and it: "\<And>y. y \<in> set items \<Longrightarrow> held fr w y"
  shows "leaking fr (Some (fst (PySequence_Fast fast d w))) w
    (pyuv__udp_send_sequence mem bok os sent x addr d fast items c w)"
proof -
  have v: "valid w y" if "held fr w y" for y by (rule held_valid [OF okD(1) [OF ok] that])
  obtain df w0 where f: "PySequence_Fast fast d w = (df, w0)" by fastforce
  note F = fast_step [OF ok f v [OF h(2)]]
  let ?fr = "add_mset df fr"
  have v0: "valid w0 y" if "held fr w y" for y by (rule F(3) [OF v [OF that]])
  let ?w1 = "fold Py_INCREF items w0" and ?w2 = "Py_INCREF c (fold Py_INCREF items w0)"
  have o1: "ok (mset items + ?fr) ?w1" by (rule ok_fold_INCREF [OF F(1)]) (use it v0 in blast)
  have "ok (add_mset c (mset items + ?fr)) ?w2"
    by (rule ok_INCREF [OF o1]) (use v0 [OF h(3)] in simp)
  then have o2: "ok (mset items + add_mset c ?fr) ?w2" by simp
  have u1: "undisturbed w ?w1" by (rule stable_trans [OF F(2) stable_fold_INCREF])
  have u2: "undisturbed w ?w2" by (rule stable_trans [OF u1 stable_INCREF])
  have g: "valid ?w2 x" "kind (objs ?w2 ! x) = KHandle UDPC" "initialized (hs ?w2 x)" "\<not> u_closing (uvh ?w2 x)"
  proof -
    have x: "x < length (objs w)" using v [OF h(1)] by (simp add: valid_def)
    show "valid ?w2 x" "initialized (hs ?w2 x)" "\<not> u_closing (uvh ?w2 x)"
      using v0 [OF h(1)] F(4) [OF x] i by simp_all
    show "kind (objs ?w2 ! x) = KHandle UDPC" using u2 x k unfolding undisturbed_def by metis
  qed
  have rel: "leaking fr (Some df) w (Raise e, Py_DECREF df (release ys w'))"
    if "ok (mset ys + ?fr) w'" "undisturbed w w'" for e ys w'
    using ok_DECREF [OF ok_release [OF that(1)]] stable_trans [OF that(2) stable_trans [OF stable_release stable_release]]
    by (simp add: leaking_def)
  have "leaking fr (Some df) w (Raise e, Py_DECREF df w0)" for e
    using rel [of "[]" w0] F(1,2) by simp
  moreover have "leaking fr (Some df) w (Raise e, Py_DECREF df (release (takeWhile bok items) (fold Py_INCREF (takeWhile bok items) w0)))" for e
    by (rule rel [OF ok_fold_INCREF [OF F(1)] stable_trans [OF F(2) stable_fold_INCREF]])
      (use it v0 set_takeWhileD in fastforce)
  moreover have "leaking fr (Some df) w (Raise e, Py_DECREF df (release items (Py_DECREF c w3)))"
    if "uv_udp_send os sent x addr ?w2 = Some (err, st, w3)" "err < 0" for err st w3 e
    using send_ends(1) [OF o2 u2 g that] rel by blast
  moreover have "leaking fr (Some df) w (Ok (), add_req (send_ctx x c items st) (Py_INCREF x w3))"
    if "uv_udp_send os sent x addr ?w2 = Some (err, st, w3)" "\<not> err < 0" for err st w3
    using send_ends(2) [OF o2 u2 g that] by (simp add: leaking_def)
  moreover have "leaking fr (Some df) w (Abort, ?w2)" using u2 by (simp add: leaking_def)
  ultimately show ?thesis
    by (cases "takeWhile bok items = items")
      (auto simp: pyuv__udp_send_sequence_def Let_def f simp del: takeWhile_eq_all_conv split: option.splits)
qed

lemma leaking_UDP_send:
  assumes ok: "ok fr w" and h: "held fr w x" and k: "kind (objs w ! x) = KHandle UDPC"
    and a: "\<And>ad d cb y. args = Inr (ad, d, cb) \<Longrightarrow> y \<in> set (data_names d @ opt_list cb) \<Longrightarrow> held fr w y"
  shows "leaking fr (write_leak (fst \<circ> snd) args w) w (UDP_func_send mem bok os sent x args w)"
  unfolding UDP_func_send_def Let_def
proof (rule leaking_method [OF ok], clarify, unfold comp_def fst_conv snd_conv)
  fix ad d cb assume i: "initialized (hs w x)" "\<not> uv_is_closing x w" and ar: "args = Inr (ad, d, cb)"
  define c where "c = (case cb of None \<Rightarrow> Py_None | Some c \<Rightarrow> c)"
  have c: "held fr w c" using a [OF ar] held_none [OF ok] by (auto simp: c_def split: option.splits)
  have nc: "\<not> u_closing (uvh w x)" using i(2) by (simp add: uv_is_closing_def)
  have "leaking fr (leaked d w) w (case d of
      Buffer y \<Rightarrow> pyuv__udp_send_bytes mem bok os sent x ss y c w
    | Sequence y fast items \<Rightarrow> pyuv__udp_send_sequence mem bok os sent x ss y fast items c w
    | OtherData \<Rightarrow> (Raise TypeError, w))" for ss
    using leaking_send_bytes [OF ok i(1) nc k h _ c] leaking_send_sequence [OF ok i(1) nc k h _ c] a [OF ar]
      leaking_raise [OF ok] by (cases d) auto
  then show "leaking fr (leaked d w) w
      (if (case cb of None \<Rightarrow> Py_None | Some c \<Rightarrow> c) \<noteq> Py_None \<and> \<not> PyCallable_Check w (case cb of None \<Rightarrow> Py_None | Some c \<Rightarrow> c)
       then (Raise TypeError, w)
       else case pyuv_parse_addr_tuple ad of Inl e \<Rightarrow> (Raise e, w)
         | Inr ss \<Rightarrow> (case d of
             Buffer d \<Rightarrow> pyuv__udp_send_bytes mem bok os sent x ss d (case cb of None \<Rightarrow> Py_None | Some c \<Rightarrow> c) w
           | Sequence d fast items \<Rightarrow>
               pyuv__udp_send_sequence mem bok os sent x ss d fast items (case cb of None \<Rightarrow> Py_None | Some c \<Rightarrow> c) w
           | OtherData \<Rightarrow> (Raise TypeError, w)))"
    unfolding c_def [symmetric] by (auto simp: leaking_raise [OF ok] split: sum.splits)
qed

end
