(* ===== verification/Socket_Api.thy ===== *)
theory Socket_Api
  imports Api_Base Udp_Rules
begin

text \<open>
  The calls of the socket classes (TCP, Pipe, TTY, UDP), of the file watchers (FSEvent, FSPoll)
  and the writes of every stream, with the answers of the operating system as arguments of the
  call. Each keeps the invariant.
\<close>

datatype tcp_op =
    TCPInit os_answers "(oid \<times> int) args" | TCPBind os_answers "(addr_arg \<times> int) args"
  | TCPListen os_answers "(oid \<times> int option) args" | TCPAccept os_answers "oid args"
  | TCPConnect bool os_answers "(addr_arg \<times> oid) args" | TCPNodelay os_answers "bool args"
  | TCPKeepalive os_answers "(bool \<times> 32 word) args" | TCPSimultaneous "bool args" | TCPOpen os_answers "int args"

datatype pipe_op =
    PipeInit "(oid \<times> bool) args" | PipeBind os_answers "string \<Rightarrow> nat" "string args"
  | PipeListen os_answers "(oid \<times> int option) args" | PipeAccept os_answers "oid args"
  | PipeConnect bool os_answers "string \<Rightarrow> nat" "(string \<times> oid) args" | PipeOpen os_answers "int args"
  | PipePending "int args" | PipeWrite bool "oid \<Rightarrow> bool" bool "(data_arg \<times> oid option \<times> oid option) args"

datatype tty_op = TTYInit "int \<Rightarrow> fd_guess" os_answers "(oid \<times> int \<times> bool) args" | TTYMode nat "int args"

datatype udp_op =
    UDPInit os_answers "(oid \<times> int) args" | UDPBind os_answers "(addr_arg \<times> int) args"
  | UDPStart os_answers "oid args" | UDPStop | UDPOpen os_answers "int args"
  | UDPTrySend os_answers "nat + nat" "(addr_arg \<times> oid) args"
  | UDPSend bool "oid \<Rightarrow> bool" os_answers "int option" "(addr_arg \<times> data_arg \<times> oid option) args"
  | UDPMembership os_answers nat "(string \<times> int \<times> string option) args"
  | UDPInterface "bool \<Rightarrow> nat" "string option args" | UDPTtl bool "bool \<Rightarrow> nat" "int args"
  | UDPBroadcast nat "bool args" | UDPLoop "bool \<Rightarrow> nat" "bool args"

datatype write_op =
    SWrite bool "oid \<Rightarrow> bool" bool "(data_arg \<times> oid option) args" | STryWrite int "oid args"

datatype fs_op =
    EInit "oid args" | EStart nat "(string \<times> oid) args" | EStop
  | FInit "oid args" | FStart "double \<Rightarrow> 32 word" nat "(string \<times> double \<times> oid) args" | FStop

text \<open>The objects that a call names.\<close>

primrec tcp_names :: "tcp_op \<Rightarrow> oid list" where
  "tcp_names (TCPInit os a) = arg_names (\<lambda>(l, f). [l]) a"
| "tcp_names (TCPBind os a) = []"
| "tcp_names (TCPListen os a) = arg_names (\<lambda>(f, n). [f]) a"
| "tcp_names (TCPAccept os a) = arg_names (\<lambda>c. [c]) a"
| "tcp_names (TCPConnect m os a) = arg_names (\<lambda>(ad, f). [f]) a"
| "tcp_names (TCPNodelay os a) = []"
| "tcp_names (TCPKeepalive os b) = []"
| "tcp_names (TCPSimultaneous a) = []"
| "tcp_names (TCPOpen os c) = []"

primrec pipe_names :: "pipe_op \<Rightarrow> oid list" where
  "pipe_names (PipeInit a) = arg_names (\<lambda>(l, f). [l]) a"
| "pipe_names (PipeBind os b a) = []"
| "pipe_names (PipeListen os a) = arg_names (\<lambda>(f, n). [f]) a"
| "pipe_names (PipeAccept os a) = arg_names (\<lambda>c. [c]) a"
| "pipe_names (PipeConnect m os c a) = arg_names (\<lambda>(n, f). [f]) a"
| "pipe_names (PipeOpen os a) = []"
| "pipe_names (PipePending a) = []"
| "pipe_names (PipeWrite m bo b a) = arg_names (\<lambda>(d, cb, s). data_names d @ opt_list cb @ opt_list s) a"

primrec tty_names :: "tty_op \<Rightarrow> oid list" where
  "tty_names (TTYInit g os a) = arg_names (\<lambda>(l, f, r). [l]) a"
| "tty_names (TTYMode os a) = []"

primrec udp_names :: "udp_op \<Rightarrow> oid list" where
  "udp_names (UDPInit os a) = arg_names (\<lambda>(l, f). [l]) a"
| "udp_names (UDPBind os a) = []"
| "udp_names (UDPStart os a) = arg_names (\<lambda>f. [f]) a"
| "udp_names UDPStop = []"
| "udp_names (UDPOpen os a) = []"
| "udp_names (UDPTrySend os s a) = arg_names (\<lambda>(ad, d). [d]) a"
| "udp_names (UDPSend m bo os s a) = arg_names (\<lambda>(ad, d, cb). data_names d @ opt_list cb) a"
| "udp_names (UDPMembership os n a) = []"
| "udp_names (UDPInterface f a) = []"
| "udp_names (UDPTtl m f a) = []"
| "udp_names (UDPBroadcast n a) = []"
| "udp_names (UDPLoop f a) = []"

primrec write_names :: "write_op \<Rightarrow> oid list" where
  "write_names (SWrite m bo b a) = arg_names (\<lambda>(d, cb). data_names d @ opt_list cb) a"
| "write_names (STryWrite r a) = arg_names (\<lambda>d. [d]) a"

primrec fs_names :: "fs_op \<Rightarrow> oid list" where
  "fs_names (EInit a) = arg_names (\<lambda>l. [l]) a"
| "fs_names (EStart n a) = arg_names (\<lambda>(p, f). [f]) a"
| "fs_names EStop = []"
| "fs_names (FInit a) = arg_names (\<lambda>l. [l]) a"
| "fs_names (FStart ub n a) = arg_names (\<lambda>(p, i, f). [f]) a"
| "fs_names FStop = []"

section \<open>Dispatch\<close>

text \<open>
  The reference that a write of a sequence leaks is never given back; it is counted as one of the
  program's references.
\<close>

definition as_leak :: "oid option \<Rightarrow> unit result \<times> world \<Rightarrow> oid option result \<times> world" where
  "as_leak l p = (case fst p of Ok _ \<Rightarrow> Ok l | Raise e \<Rightarrow> Raise e | Abort \<Rightarrow> Abort, snd p)"

primrec tcp_api :: "oid \<Rightarrow> tcp_op \<Rightarrow> world \<Rightarrow> oid option result \<times> world" where
  "tcp_api x (TCPInit os a) w = as_none (TCP_tp_init os x (loop_arg fst w a) w)"
| "tcp_api x (TCPBind os a) w = as_none (TCP_func_bind os x a w)"
| "tcp_api x (TCPListen os a) w = as_none (TCP_func_listen os x a w)"
| "tcp_api x (TCPAccept os a) w = as_none (TCP_func_accept os x a w)"
| "tcp_api x (TCPConnect m os a) w = as_none (TCP_func_connect m os x a w)"
| "tcp_api x (TCPNodelay os a) w = as_none (TCP_func_nodelay os x a w)"
| "tcp_api x (TCPKeepalive os b) w = as_none (TCP_func_keepalive os x b w)"
| "tcp_api x (TCPSimultaneous a) w = as_none (TCP_func_simultaneous_accepts x a w)"
| "tcp_api x (TCPOpen os c) w = as_none (TCP_func_open os x c w)"

primrec pipe_api :: "oid \<Rightarrow> pipe_op \<Rightarrow> world \<Rightarrow> oid option result \<times> world" where
  "pipe_api x (PipeInit a) w = as_none (Pipe_tp_init x (loop_arg fst w a) w)"
| "pipe_api x (PipeBind os b a) w = as_none (Pipe_func_bind os b x a w)"
| "pipe_api x (PipeListen os a) w = as_none (Pipe_func_listen os x a w)"
| "pipe_api x (PipeAccept os a) w = as_none (Pipe_func_accept os x a w)"
| "pipe_api x (PipeConnect m os c a) w = as_none (Pipe_func_connect m os c x a w)"
| "pipe_api x (PipeOpen os a) w = as_none (Pipe_func_open os x a w)"
| "pipe_api x (PipePending a) w = as_none (Pipe_func_pending_instances x a w)"
| "pipe_api x (PipeWrite m bo b a) w = as_leak (write_leak fst a w) (Pipe_func_write m bo b x a w)"

primrec tty_api :: "oid \<Rightarrow> tty_op \<Rightarrow> world \<Rightarrow> oid option result \<times> world" where
  "tty_api x (TTYInit g os a) w = as_none (TTY_tp_init g os x (loop_arg fst w a) w)"
| "tty_api x (TTYMode os a) w = as_none (TTY_func_set_mode os x a w)"

primrec udp_api :: "oid \<Rightarrow> udp_op \<Rightarrow> world \<Rightarrow> oid option result \<times> world" where
  "udp_api x (UDPInit os a) w = as_none (UDP_tp_init os x (loop_arg fst w a) w)"
| "udp_api x (UDPBind os a) w = as_none (UDP_func_bind os x a w)"
| "udp_api x (UDPStart os a) w = as_none (UDP_func_start_recv os x a w)"
| "udp_api x UDPStop w = as_none (UDP_func_stop_recv x w)"
| "udp_api x (UDPOpen os a) w = as_none (UDP_func_open os x a w)"
| "udp_api x (UDPTrySend os s a) w = as_none (UDP_func_try_send os s x a w)"
| "udp_api x (UDPSend m bo os s a) w = as_leak (write_leak (fst \<circ> snd) a w) (UDP_func_send m bo os s x a w)"
| "udp_api x (UDPMembership os n a) w = as_none (UDP_func_set_membership os n x a w)"
| "udp_api x (UDPInterface f a) w = as_none (UDP_func_set_multicast_interface f x a w)"
| "udp_api x (UDPTtl m f a) w =
     as_none (if m then UDP_func_set_multicast_ttl f x a w else UDP_func_set_ttl f x a w)"
| "udp_api x (UDPBroadcast n a) w = as_none (UDP_func_set_broadcast n x a w)"
| "udp_api x (UDPLoop f a) w = as_none (UDP_func_set_multicast_loop f x a w)"

primrec write_api :: "oid \<Rightarrow> write_op \<Rightarrow> world \<Rightarrow> oid option result \<times> world" where
  "write_api x (SWrite m bo b a) w = as_leak (write_leak fst a w) (Stream_func_write m bo b x a w)"
| "write_api x (STryWrite r a) w = as_none (Stream_func_try_write r x a w)"

text \<open>The file watchers are two classes.\<close>

primrec fs_class :: "fs_op \<Rightarrow> hclass" where
  "fs_class (EInit a) = FSEventC"
| "fs_class (EStart n a) = FSEventC"
| "fs_class EStop = FSEventC"
| "fs_class (FInit a) = FSPollC"
| "fs_class (FStart ub n a) = FSPollC"
| "fs_class FStop = FSPollC"

primrec fs_api :: "oid \<Rightarrow> fs_op \<Rightarrow> world \<Rightarrow> oid option result \<times> world" where
  "fs_api x (EInit a) w = as_none (FSEvent_tp_init x (loop_arg id w a) w)"
| "fs_api x (EStart n a) w = as_none (FSEvent_func_start (- int n) x a w)"
| "fs_api x EStop w = as_none (FSEvent_func_stop x w)"
| "fs_api x (FInit a) w = as_none (FSPoll_tp_init x (loop_arg id w a) w)"
| "fs_api x (FStart ub n a) w = as_none (FSPoll_func_start ub (- int n) x a w)"
| "fs_api x FStop w = as_none (FSPoll_func_stop x w)"

section \<open>The invariant\<close>

lemma keeps_keeping: "keeping fr w p \<Longrightarrow> keeps fr w (as_none p)"
  by (rule keeps_none) (auto simp: keeping_def)

lemma keeps_leaking: "leaking fr l w p \<Longrightarrow> keeps fr w (as_leak l p)"
  by (auto simp: keeps_def leaking_def as_leak_def split: result.splits)

lemma loop_arg_held:
  assumes "ok fr w" and "loop_arg f w a = Inr v" and "\<And>v. a = Inr v \<Longrightarrow> held fr w (f v)"
  shows "is_loop w (f v)"
  using loop_argD [OF assms(2)] assms(3) held_loop [OF assms(1)] by auto

lemma tcp_api_keeps:
  assumes ok: "ok fr w" and h: "held fr w x" "\<And>y. y \<in> set (tcp_names f) \<Longrightarrow> held fr w y"
    and k: "kind (objs w ! x) = KHandle TCPC"
  shows "keeps fr w (tcp_api x f w)"
proof (cases f)
  case (TCPInit os a)
  then show ?thesis
    using h(2) by (auto intro!: keeps_keeping keeping_TCP_tp_init [OF ok h(1) k] dest!: loop_arg_held [OF ok])
next
  case (TCPListen os a)
  then show ?thesis using h(2) by (auto intro!: keeps_keeping keeping_TCP_listen [OF ok h(1) k])
next
  case (TCPConnect m os a)
  then show ?thesis using h(2) by (auto intro!: keeps_keeping keeping_TCP_connect [OF ok h(1)])
qed (auto intro!: keeps_keeping keeping_TCP_bind keeping_TCP_accept keeping_TCP_options ok)

lemma pipe_api_keeps:
  assumes ok: "ok fr w" and h: "held fr w x" "\<And>y. y \<in> set (pipe_names f) \<Longrightarrow> held fr w y"
    and k: "kind (objs w ! x) = KHandle PipeC"
  shows "keeps fr w (pipe_api x f w)"
proof (cases f)
  case (PipeInit a)
  then show ?thesis
    using h(2) by (auto intro!: keeps_keeping keeping_Pipe_tp_init [OF ok h(1) k] dest!: loop_arg_held [OF ok])
next
  case (PipeListen os a)
  then show ?thesis using h(2) by (auto intro!: keeps_keeping keeping_Pipe_listen [OF ok h(1) k])
next
  case (PipeConnect m os c a)
  then show ?thesis using h(2) by (auto intro!: keeps_keeping keeping_Pipe_connect [OF ok h(1) k])
next
  case (PipeWrite m bo b a)
  then show ?thesis using h(2) by (auto intro!: keeps_leaking leaking_Pipe_write [OF ok h(1)])
qed (auto intro!: keeps_keeping keeping_Pipe_bind keeping_Pipe_accept keeping_Pipe_open keeping_Pipe_pending ok)

lemma tty_api_keeps:
  assumes ok: "ok fr w" and h: "held fr w x" "\<And>y. y \<in> set (tty_names f) \<Longrightarrow> held fr w y"
    and k: "kind (objs w ! x) = KHandle TTYC"
  shows "keeps fr w (tty_api x f w)"
  using h(2) by (cases f)
    (auto intro!: keeps_keeping keeping_TTY_set_mode ok keeping_TTY_tp_init [OF ok h(1) k] dest!: loop_arg_held [OF ok])

lemma udp_api_keeps:
  assumes ok: "ok fr w" and h: "held fr w x" "\<And>y. y \<in> set (udp_names f) \<Longrightarrow> held fr w y"
    and k: "kind (objs w ! x) = KHandle UDPC"
  shows "keeps fr w (udp_api x f w)"
proof (cases f)
  case (UDPInit os a)
  then show ?thesis
    using h(2) by (auto intro!: keeps_keeping keeping_UDP_tp_init [OF ok h(1) k] dest!: loop_arg_held [OF ok])
next
  case (UDPStart os a)
  then show ?thesis using h(2) by (auto intro!: keeps_keeping keeping_UDP_start_recv [OF ok h(1) k])
next
  case UDPStop
  then show ?thesis by (auto intro!: keeps_keeping keeping_UDP_stop_recv [OF ok h(1) k])
next
  case (UDPTrySend os s a)
  then show ?thesis using h(2) by (auto intro!: keeps_keeping keeping_UDP_try_send [OF ok])
next
  case (UDPSend m bo os s a)
  then show ?thesis using h(2) by (auto intro!: keeps_leaking leaking_UDP_send [OF ok h(1) k])
qed (auto intro!: keeps_keeping keeping_UDP_options keeping_UDP_open ok)

lemma write_api_keeps:
  assumes ok: "ok fr w" and h: "held fr w x" "\<And>y. y \<in> set (write_names f) \<Longrightarrow> held fr w y"
  shows "keeps fr w (write_api x f w)"
proof (cases f)
  case (SWrite m bo b a)
  then show ?thesis using h(2) by (auto intro!: keeps_leaking leaking_Stream_write [OF ok h(1)])
next
  case (STryWrite r a)
  have "ok fr (Py_DECREF d (Py_INCREF d w))" if "a = Inr d" for d
    using ok_DECREF [OF ok_INCREF [OF ok held_valid [OF okD(1) [OF ok]]]] h(2) [of d] that STryWrite by simp
  then have "ok fr (snd (Stream_func_try_write r x a w))"
    using ok by (auto simp: Stream_func_try_write_def guard_defs Let_def split: sum.splits)
  then show ?thesis using STryWrite by (auto intro!: keeps_none stable)
qed

lemma fs_api_keeps:
  assumes ok: "ok fr w" and h: "held fr w x" "\<And>y. y \<in> set (fs_names f) \<Longrightarrow> held fr w y"
    and k: "kind (objs w ! x) = KHandle (fs_class f)"
  shows "keeps fr w (fs_api x f w)"
proof (cases f)
  case (EInit a)
  then show ?thesis using h(2) k
    by (auto intro!: keeps_none stable ok disjI1 ok_FSEvent_tp_init [OF ok h(1)] dest!: loop_arg_held [OF ok])
next
  case (EStart n a)
  then show ?thesis using h(2) k by (auto intro!: keeps_none stable ok disjI1 ok_FSEvent_func_start [OF ok h(1)])
next
  case (FInit a)
  then show ?thesis using h(2) k
    by (auto intro!: keeps_none stable ok disjI1 ok_FSPoll_tp_init [OF ok h(1)] dest!: loop_arg_held [OF ok])
next
  case (FStart ub n a)
  then show ?thesis using h(2) k by (auto intro!: keeps_none stable ok disjI1 ok_FSPoll_func_start [OF ok h(1)])
qed (use k in \<open>auto intro!: keeps_none stable ok disjI1 ok_fs_stop [OF ok h(1)]\<close>)

end
