(* ===== verification/Api.thy ===== *)
theory Api
  imports Socket_Api
begin

text \<open>
  The interface of the extension as one function: \<open>call\<close> is what a Python program can ask for,
  with its arguments and with what the operating system answers; \<open>api\<close> performs it. Every
  call keeps the invariant of the state and leaves running callbacks undisturbed.
\<close>

section \<open>Calls\<close>

text \<open>
  An error of libuv is a natural number \<open>n\<close> that stands for the code \<open>- n\<close>; 0 is success.
\<close>

datatype watcher_op = WInit "oid args" | WStart "oid args" | WStop

datatype timer_op =
    TInit "oid args" | TStart "(oid \<times> double \<times> double) args" | TStop | TAgain
  | TRepeat "double args option"

datatype async_op = AInit nat "(oid \<times> oid option) args" | ASend

datatype signal_op = SInit nat "oid args" | SStart nat "(oid \<times> int) args" | SStop

datatype poll_op = PInit nat "(oid \<times> int) args" | PStart "(int \<times> oid) args" | PStop

datatype checker_op = KInit nat "(oid \<times> int) args" | KStart | KStop

datatype stream_op = RShutdown bool "oid option args" | RStart "oid args" | RStop

datatype handle_op = HClose "oid option args" | HRef "int args" | HDictSet "oid option" bool | HDictGet

datatype loop_op = LStop | LUpdateTime "64 word" | LDictSet "oid option" bool | LDictGet

datatype call =
    New hclass | NewLoop nat "64 word" bool | NewObject bool
  | IdleCall oid watcher_op | PrepareCall oid watcher_op | CheckCall oid watcher_op
  | TimerCall oid timer_op | AsyncCall oid async_op | SignalCall oid signal_op
  | PollCall oid poll_op | CheckerCall oid checker_op | StreamCall oid stream_op
  | TCPCall oid tcp_op | PipeCall oid pipe_op | TTYCall oid tty_op | UDPCall oid udp_op
  | WriteCall oid write_op | FSCall oid fs_op
  | HandleCall oid handle_op | LoopCall oid loop_op

text \<open>The objects a call names: the program must have a reference to each.\<close>

primrec watcher_names :: "watcher_op \<Rightarrow> oid list" where
  "watcher_names (WInit a) = arg_names (\<lambda>l. [l]) a"
| "watcher_names (WStart a) = arg_names (\<lambda>f. [f]) a"
| "watcher_names WStop = []"

primrec timer_names :: "timer_op \<Rightarrow> oid list" where
  "timer_names (TInit a) = arg_names (\<lambda>l. [l]) a"
| "timer_names (TStart a) = arg_names (\<lambda>(f, t, r). [f]) a"
| "timer_names TStop = []"
| "timer_names TAgain = []"
| "timer_names (TRepeat v) = []"

primrec async_names :: "async_op \<Rightarrow> oid list" where
  "async_names (AInit n a) = arg_names (\<lambda>(l, f). l # opt_list f) a"
| "async_names ASend = []"

primrec signal_names :: "signal_op \<Rightarrow> oid list" where
  "signal_names (SInit n a) = arg_names (\<lambda>l. [l]) a"
| "signal_names (SStart n a) = arg_names (\<lambda>(f, s). [f]) a"
| "signal_names SStop = []"

primrec poll_names :: "poll_op \<Rightarrow> oid list" where
  "poll_names (PInit n a) = arg_names (\<lambda>(l, fd). [l]) a"
| "poll_names (PStart a) = arg_names (\<lambda>(e, f). [f]) a"
| "poll_names PStop = []"

primrec checker_names :: "checker_op \<Rightarrow> oid list" where
  "checker_names (KInit n a) = arg_names (\<lambda>(l, fd). [l]) a"
| "checker_names KStart = []"
| "checker_names KStop = []"

primrec stream_names :: "stream_op \<Rightarrow> oid list" where
  "stream_names (RShutdown m a) = arg_names opt_list a"
| "stream_names (RStart a) = arg_names (\<lambda>f. [f]) a"
| "stream_names RStop = []"

primrec handle_names :: "handle_op \<Rightarrow> oid list" where
  "handle_names (HClose a) = arg_names opt_list a"
| "handle_names (HRef a) = []"
| "handle_names (HDictSet v d) = opt_list v"
| "handle_names HDictGet = []"

primrec loop_names :: "loop_op \<Rightarrow> oid list" where
  "loop_names LStop = []"
| "loop_names (LUpdateTime t) = []"
| "loop_names (LDictSet v d) = opt_list v"
| "loop_names LDictGet = []"

primrec names :: "call \<Rightarrow> oid list" where
  "names (New c) = []"
| "names (NewLoop n t b) = []"
| "names (NewObject b) = []"
| "names (IdleCall x f) = x # watcher_names f"
| "names (PrepareCall x f) = x # watcher_names f"
| "names (CheckCall x f) = x # watcher_names f"
| "names (TimerCall x f) = x # timer_names f"
| "names (AsyncCall x f) = x # async_names f"
| "names (SignalCall x f) = x # signal_names f"
| "names (PollCall x f) = x # poll_names f"
| "names (CheckerCall x f) = x # checker_names f"
| "names (StreamCall x f) = x # stream_names f"
| "names (TCPCall x f) = x # tcp_names f"
| "names (PipeCall x f) = x # pipe_names f"
| "names (TTYCall x f) = x # tty_names f"
| "names (UDPCall x f) = x # udp_names f"
| "names (WriteCall x f) = x # write_names f"
| "names (FSCall x f) = x # fs_names f"
| "names (HandleCall x f) = x # handle_names f"
| "names (LoopCall x f) = x # loop_names f"

section \<open>Dispatch\<close>

primrec idle_api :: "oid \<Rightarrow> watcher_op \<Rightarrow> world \<Rightarrow> oid option result \<times> world" where
  "idle_api x (WInit a) w = as_none (Idle_tp_init x (loop_arg id w a) w)"
| "idle_api x (WStart a) w = as_none (Idle_func_start x a w)"
| "idle_api x WStop w = as_none (Idle_func_stop x w)"

primrec prepare_api :: "oid \<Rightarrow> watcher_op \<Rightarrow> world \<Rightarrow> oid option result \<times> world" where
  "prepare_api x (WInit a) w = as_none (Prepare_tp_init x (loop_arg id w a) w)"
| "prepare_api x (WStart a) w = as_none (Prepare_func_start x a w)"
| "prepare_api x WStop w = as_none (Prepare_func_stop x w)"

primrec check_api :: "oid \<Rightarrow> watcher_op \<Rightarrow> world \<Rightarrow> oid option result \<times> world" where
  "check_api x (WInit a) w = as_none (Check_tp_init x (loop_arg id w a) w)"
| "check_api x (WStart a) w = as_none (Check_func_start x a w)"
| "check_api x WStop w = as_none (Check_func_stop x w)"

primrec timer_api :: "(double \<Rightarrow> 64 word) \<Rightarrow> oid \<Rightarrow> timer_op \<Rightarrow> world \<Rightarrow> oid option result \<times> world" where
  "timer_api ub x (TInit a) w = as_none (Timer_tp_init x (loop_arg id w a) w)"
| "timer_api ub x (TStart a) w = as_none (Timer_func_start ub x a w)"
| "timer_api ub x TStop w = as_none (Timer_func_stop x w)"
| "timer_api ub x TAgain w = as_none (Timer_func_again x w)"
| "timer_api ub x (TRepeat v) w = as_none (Timer_repeat_set ub x v w)"

primrec async_api :: "oid \<Rightarrow> async_op \<Rightarrow> world \<Rightarrow> oid option result \<times> world" where
  "async_api x (AInit n a) w = as_none (Async_tp_init (- int n) x (loop_arg fst w a) w)"
| "async_api x ASend w = as_none (Async_func_send x w)"

primrec signal_api :: "oid \<Rightarrow> signal_op \<Rightarrow> world \<Rightarrow> oid option result \<times> world" where
  "signal_api x (SInit n a) w = as_none (Signal_tp_init (- int n) x (loop_arg id w a) w)"
| "signal_api x (SStart n a) w = as_none (Signal_func_start (- int n) x a w)"
| "signal_api x SStop w = as_none (Signal_func_stop x w)"

primrec poll_api :: "oid \<Rightarrow> poll_op \<Rightarrow> world \<Rightarrow> oid option result \<times> world" where
  "poll_api x (PInit n a) w = as_none (Poll_tp_init (- int n) x (loop_arg fst w a) w)"
| "poll_api x (PStart a) w = as_none (Poll_func_start x a w)"
| "poll_api x PStop w = as_none (Poll_func_stop x w)"

primrec checker_api :: "oid \<Rightarrow> checker_op \<Rightarrow> world \<Rightarrow> oid option result \<times> world" where
  "checker_api x (KInit n a) w = as_none (SignalChecker_tp_init (- int n) x (loop_arg fst w a) w)"
| "checker_api x KStart w = as_none (SignalChecker_func_start x w)"
| "checker_api x KStop w = as_none (SignalChecker_func_stop x w)"

primrec stream_api :: "oid \<Rightarrow> stream_op \<Rightarrow> world \<Rightarrow> oid option result \<times> world" where
  "stream_api x (RShutdown m a) w = as_none (Stream_func_shutdown m x a w)"
| "stream_api x (RStart a) w = as_none (Stream_func_start_read x a w)"
| "stream_api x RStop w = as_none (Stream_func_stop_read x w)"

primrec handle_api :: "oid \<Rightarrow> handle_op \<Rightarrow> world \<Rightarrow> oid option result \<times> world" where
  "handle_api x (HClose a) w = as_none (Handle_func_close x a w)"
| "handle_api x (HRef a) w = as_none (Handle_ref_set x a w)"
| "handle_api x (HDictSet v d) w = as_none (Handle_dict_set x v d w)"
| "handle_api x HDictGet w = as_some (Handle_dict_get x w)"

primrec loop_api :: "oid \<Rightarrow> loop_op \<Rightarrow> world \<Rightarrow> oid option result \<times> world" where
  "loop_api l LStop w = as_none (Loop_func_stop l w)"
| "loop_api l (LUpdateTime t) w = as_none (Loop_func_update_time t l w)"
| "loop_api l (LDictSet v d) w = as_none (Loop_dict_set l v d w)"
| "loop_api l LDictGet w = as_some (Loop_dict_get l w)"

primrec api :: "(double \<Rightarrow> 64 word) \<Rightarrow> call \<Rightarrow> world \<Rightarrow> oid option result \<times> world" where
  "api ub (New c) w = as_some (Handle_tp_new c w)"
| "api ub (NewLoop n t b) w = as_some (Loop_tp_new (- int n) t b w)"
| "api ub (NewObject b) w = (let (x, w1) = PyType_GenericNew (KObject b) w in (Ok (Some x), w1))"
| "api ub (IdleCall x f) w = on_class ((=) IdleC) x w (idle_api x f w)"
| "api ub (PrepareCall x f) w = on_class ((=) PrepareC) x w (prepare_api x f w)"
| "api ub (CheckCall x f) w = on_class ((=) CheckC) x w (check_api x f w)"
| "api ub (TimerCall x f) w = on_class ((=) TimerC) x w (timer_api ub x f w)"
| "api ub (AsyncCall x f) w = on_class ((=) AsyncC) x w (async_api x f w)"
| "api ub (SignalCall x f) w = on_class ((=) SignalC) x w (signal_api x f w)"
| "api ub (PollCall x f) w = on_class ((=) PollC) x w (poll_api x f w)"
| "api ub (CheckerCall x f) w = on_class ((=) SignalCheckerC) x w (checker_api x f w)"
| "api ub (StreamCall x f) w = on_class stream_class x w (stream_api x f w)"
| "api ub (TCPCall x f) w = on_class ((=) TCPC) x w (tcp_api x f w)"
| "api ub (PipeCall x f) w = on_class ((=) PipeC) x w (pipe_api x f w)"
| "api ub (TTYCall x f) w = on_class ((=) TTYC) x w (tty_api x f w)"
| "api ub (UDPCall x f) w = on_class ((=) UDPC) x w (udp_api x f w)"
| "api ub (WriteCall x f) w = on_class stream_class x w (write_api x f w)"
| "api ub (FSCall x f) w = on_class ((=) (fs_class f)) x w (fs_api x f w)"
| "api ub (HandleCall x f) w = on_class (\<lambda>_. True) x w (handle_api x f w)"
| "api ub (LoopCall x f) w = on_loop x w (loop_api x f w)"

section \<open>Every call is safe\<close>

lemma watcher_api_keeps:
  assumes ok: "ok fr w" and h: "held fr w x" "\<And>y. y \<in> set (watcher_names f) \<Longrightarrow> held fr w y"
  shows "kind (objs w ! x) = KHandle IdleC \<Longrightarrow> keeps fr w (idle_api x f w)"
    "kind (objs w ! x) = KHandle PrepareC \<Longrightarrow> keeps fr w (prepare_api x f w)"
    "kind (objs w ! x) = KHandle CheckC \<Longrightarrow> keeps fr w (check_api x f w)"
proof -
  have l: "is_loop w l" if "f = WInit a" "loop_arg id w a = Inr l" for a l
    using loop_argD [OF that(2)] held_loop [OF ok, of l] h(2) [of l] that(1) by auto
  have g: "held fr w c" if "f = WStart a" "a = Inr c" for a c using h(2) [of c] that by auto
  show "keeps fr w (idle_api x f w)" if "kind (objs w ! x) = KHandle IdleC"
    using l g ok_Idle_tp_init [OF ok h(1) that] ok_Idle_func_start [OF ok h(1) that]
      ok_Idle_func_stop [OF ok h(1) that]
    by (cases f) (auto intro!: keeps_none stable ok disjI1)
  show "keeps fr w (prepare_api x f w)" if "kind (objs w ! x) = KHandle PrepareC"
    using l g ok_Prepare_tp_init [OF ok h(1) that] ok_Prepare_func_start [OF ok h(1) that]
      ok_Prepare_func_stop [OF ok h(1) that]
    by (cases f) (auto intro!: keeps_none stable ok disjI1)
  show "keeps fr w (check_api x f w)" if "kind (objs w ! x) = KHandle CheckC"
    using l g ok_Check_tp_init [OF ok h(1) that] ok_Check_func_start [OF ok h(1) that]
      ok_Check_func_stop [OF ok h(1) that]
    by (cases f) (auto intro!: keeps_none stable ok disjI1)
qed

lemma timer_api_keeps:
  assumes ok: "ok fr w" and h: "held fr w x" "\<And>y. y \<in> set (timer_names f) \<Longrightarrow> held fr w y"
    and k: "kind (objs w ! x) = KHandle TimerC"
  shows "keeps fr w (timer_api ub x f w)"
proof -
  have l: "is_loop w l" if "f = TInit a" "loop_arg id w a = Inr l" for a l
    using loop_argD [OF that(2)] held_loop [OF ok, of l] h(2) [of l] that(1) by auto
  have g: "held fr w c" if "f = TStart a" "a = Inr (c, t, r)" for a c t r using h(2) [of c] that by auto
  show ?thesis
    using l g ok_Timer_tp_init [OF ok h(1) k] ok_Timer_func_start [OF ok h(1) k]
      ok_Timer_func_stop [OF ok h(1) k] ok_Timer_func_again [OF ok h(1) k] ok_Timer_repeat_set [OF ok h(1) k]
    by (cases f) (auto intro!: keeps_none stable ok disjI1)
qed

lemma async_api_keeps:
  assumes ok: "ok fr w" and h: "held fr w x" "\<And>y. y \<in> set (async_names f) \<Longrightarrow> held fr w y"
    and k: "kind (objs w ! x) = KHandle AsyncC"
  shows "keeps fr w (async_api x f w)"
proof -
  have l: "is_loop w l \<and> (\<forall>g. c = Some g \<longrightarrow> held fr w g)" if "f = AInit n a" "loop_arg fst w a = Inr (l, c)" for n a l c
    using loop_argD [OF that(2)] held_loop [OF ok, of l] h(2) that(1) by (auto split: option.splits)
  show ?thesis
    using l ok_Async_tp_init [OF ok h(1) k] ok_Async_func_send [OF ok h(1) k]
    by (cases f) (auto intro!: keeps_none stable ok disjI1)
qed

lemma signal_api_keeps:
  assumes ok: "ok fr w" and h: "held fr w x" "\<And>y. y \<in> set (signal_names f) \<Longrightarrow> held fr w y"
    and k: "kind (objs w ! x) = KHandle SignalC"
  shows "keeps fr w (signal_api x f w)"
proof -
  have l: "is_loop w l" if "f = SInit n a" "loop_arg id w a = Inr l" for a l n
    using loop_argD [OF that(2)] held_loop [OF ok, of l] h(2) [of l] that(1) by auto
  have g: "held fr w c" if "f = SStart n a" "a = Inr (c, s)" for n a c s using h(2) [of c] that by auto
  show ?thesis
    using l g ok_Signal_tp_init [OF ok h(1) k] ok_Signal_func_start [OF ok h(1) k]
      ok_Signal_func_stop [OF ok h(1) k]
    by (cases f) (auto intro!: keeps_none stable ok disjI1)
qed

lemma poll_api_keeps:
  assumes ok: "ok fr w" and h: "held fr w x" "\<And>y. y \<in> set (poll_names f) \<Longrightarrow> held fr w y"
    and k: "kind (objs w ! x) = KHandle PollC"
  shows "keeps fr w (poll_api x f w)"
proof -
  have l: "is_loop w l" if "f = PInit n a" "loop_arg fst w a = Inr (l, fd)" for a l n fd
    using loop_argD [OF that(2)] held_loop [OF ok, of l] h(2) [of l] that(1) by auto
  have g: "held fr w c" if "f = PStart a" "a = Inr (e, c)" for a c e using h(2) [of c] that by auto
  show ?thesis
    using l g ok_Poll_tp_init [OF ok h(1) k] ok_Poll_func_start [OF ok h(1) k]
      ok_Poll_func_stop [OF ok h(1) k]
    by (cases f) (auto intro!: keeps_none stable ok disjI1)
qed

lemma checker_api_keeps:
  assumes ok: "ok fr w" and h: "held fr w x" "\<And>y. y \<in> set (checker_names f) \<Longrightarrow> held fr w y"
    and k: "kind (objs w ! x) = KHandle SignalCheckerC"
  shows "keeps fr w (checker_api x f w)"
proof -
  have l: "is_loop w l" if "f = KInit n a" "loop_arg fst w a = Inr (l, fd)" for a l n fd
    using loop_argD [OF that(2)] held_loop [OF ok, of l] h(2) [of l] that(1) by auto
  show ?thesis
    using l ok_SignalChecker_tp_init [OF ok h(1) k] ok_SignalChecker_func_start [OF ok h(1) k]
      ok_SignalChecker_func_stop [OF ok h(1) k]
    by (cases f) (auto intro!: keeps_none stable ok disjI1)
qed

lemma stream_api_keeps:
  assumes ok: "ok fr w" and h: "held fr w x" "\<And>y. y \<in> set (stream_names f) \<Longrightarrow> held fr w y"
    and k: "kind (objs w ! x) = KHandle c" "stream_class c"
  shows "keeps fr w (stream_api x f w)"
proof -
  have g: "ok fr (snd (Stream_func_shutdown n x a w)) \<or> fst (Stream_func_shutdown n x a w) = Abort"
    if "f = RShutdown n a" for a n
    by (rule ok_Stream_func_shutdown [OF ok h(1)]) (use h(2) that in auto)
  have g': "held fr w c" if "f = RStart a" "a = Inr c" for a c using h(2) [of c] that by auto
  show ?thesis
    using g g' ok_Stream_func_start_read [OF ok h(1) k]
      ok_Stream_func_stop_read [OF ok h(1) k]
    by (cases f) (auto intro!: keeps_none stable)
qed

lemma handle_api_keeps:
  assumes ok: "ok fr w" and h: "held fr w x" "\<And>y. y \<in> set (handle_names f) \<Longrightarrow> held fr w y"
    and k: "kind (objs w ! x) = KHandle c"
  shows "keeps fr w (handle_api x f w)"
proof -
  have g: "held fr w c" if "f = HClose a" "a = Inr (Some c)" for a c using h(2) [of c] that by auto
  have g': "held fr w c" if "f = HDictSet (Some c) d" for c d using h(2) [of c] that by auto
  have d: "case fst (Handle_dict_get x w) of Ok y \<Rightarrow> ok (add_mset y fr) (snd (Handle_dict_get x w))
      | Raise e \<Rightarrow> ok fr (snd (Handle_dict_get x w)) | Abort \<Rightarrow> True"
    using ok_Handle_dict_get [OF ok h(1) k, of "fst (Handle_dict_get x w)" "snd (Handle_dict_get x w)"] by auto
  show ?thesis
    using g g' d ok_Handle_func_close [OF ok h(1) k] ok_Handle_ref_set [OF ok h(1) k]
      ok_Handle_dict_set [OF ok h(1) k]
    by (cases f) (auto intro!: keeps_none keeps_some stable disjI1)
qed

lemma ok_Loop_dict_get:
  assumes ok: "ok fr w" and l: "is_loop w l" and g: "Loop_dict_get l w = (r, w')"
  shows "\<exists>d. r = Ok d \<and> ok (add_mset d fr) w' \<and> slot_of w' l S_dict = Some d"
proof (cases "slot_of w l S_dict")
  case (Some d)
  have v: "valid w d"
    by (rule wf_valid_slot [OF okD(1) [OF ok] _ Some]) (use l in \<open>auto simp: is_loop_def valid_def\<close>)
  show ?thesis using g Some ok_INCREF [OF ok v] by (auto simp: Loop_dict_get_def)
next
  case None
  obtain d w1 where n: "PyType_GenericNew (KObject False) w = (d, w1)" by fastforce
  note N = ok_new_object [OF ok n, of False]
  have dl: "d \<noteq> l" using N(1) l by (auto simp: is_loop_def valid_def)
  have l1: "l < length (objs w1)" "kind (objs w1 ! l) = KLoop" "slot_of w1 l S_dict = None"
    using n l None by (auto simp: PyType_GenericNew_def is_loop_def valid_def nth_append)
  have b: "ok_but l (mset_opt (Some d) + fr) w1" using N(2) by (simp add: ok_imp_but)
  from ok_but_put_slot [OF b, of S_dict] l1
  have "ok_but l fr (put_slot l S_dict (Some d) w1)" by (simp add: Loop_tp_clear_def)
  moreover have "cb_ok (put_slot l S_dict (Some d) w1) l" using l1 by (simp add: cb_ok_def)
  ultimately have o2: "ok fr (put_slot l S_dict (Some d) w1)" by (rule ok_but_ok)
  have s: "slot_of (put_slot l S_dict (Some d) w1) l S_dict = Some d" using l1 by (simp add: nth_put_slot)
  have "valid (put_slot l S_dict (Some d) w1) d"
    by (rule wf_valid_slot [OF okD(1) [OF o2] _ s]) (use l1 in simp)
  from ok_INCREF [OF o2 this] g None n s show ?thesis by (auto simp: Loop_dict_get_def)
qed

lemma loop_api_keeps:
  assumes ok: "ok fr w" and h: "held fr w l" "\<And>y. y \<in> set (loop_names f) \<Longrightarrow> held fr w y"
    and k: "kind (objs w ! l) = KLoop"
  shows "keeps fr w (loop_api l f w)"
proof -
  have l: "is_loop w l" by (rule held_loop [OF ok h(1) k])
  have g': "held fr w c" if "f = LDictSet (Some c) d" for c d using h(2) [of c] that by auto
  have d: "case fst (Loop_dict_get l w) of Ok y \<Rightarrow> ok (add_mset y fr) (snd (Loop_dict_get l w))
      | Raise e \<Rightarrow> ok fr (snd (Loop_dict_get l w)) | Abort \<Rightarrow> True"
    using ok_Loop_dict_get [OF ok l, of "fst (Loop_dict_get l w)" "snd (Loop_dict_get l w)"] by auto
  show ?thesis
    using g' d ok_Loop_func_stop [OF ok] ok_Loop_func_update_time [OF ok] ok_Loop_dict_set [OF ok l]
    by (cases f) (auto intro!: keeps_none keeps_some stable disjI1)
qed

theorem api_keeps:
  assumes ok: "ok fr w" and h: "\<And>x. x \<in> set (names c) \<Longrightarrow> held fr w x"
  shows "keeps fr w (api ub c w)"
proof (cases c)
  case (New k)
  then show ?thesis
    using ok_Handle_tp_new [OF ok, of k "fst (Handle_tp_new k w)" "snd (Handle_tp_new k w)"]
    by (auto intro!: keeps_some stable)
next
  case (NewLoop n t b)
  then show ?thesis
    using ok_new_loop [OF ok, of "- int n" t b False "fst (Loop_tp_new (- int n) t b w)" "snd (Loop_tp_new (- int n) t b w)"]
    by (auto simp: Loop_tp_new_def intro!: keeps_some stable split: result.splits)
next
  case (NewObject b)
  then show ?thesis
    using ok_GenericNew_object [OF ok, of b "fst (PyType_GenericNew (KObject b) w)" "snd (PyType_GenericNew (KObject b) w)"]
    by (auto simp: keeps_def split: prod.splits)
next
  case (IdleCall x f)
  then show ?thesis using watcher_api_keeps(1) [OF ok, of x f] h by (auto intro!: keeps_on_class [OF ok])
next
  case (PrepareCall x f)
  then show ?thesis using watcher_api_keeps(2) [OF ok, of x f] h by (auto intro!: keeps_on_class [OF ok])
next
  case (CheckCall x f)
  then show ?thesis using watcher_api_keeps(3) [OF ok, of x f] h by (auto intro!: keeps_on_class [OF ok])
next
  case (TimerCall x f)
  then show ?thesis using timer_api_keeps [OF ok, of x f] h by (auto intro!: keeps_on_class [OF ok])
next
  case (AsyncCall x f)
  then show ?thesis using async_api_keeps [OF ok, of x f] h by (auto intro!: keeps_on_class [OF ok])
next
  case (SignalCall x f)
  then show ?thesis using signal_api_keeps [OF ok, of x f] h by (auto intro!: keeps_on_class [OF ok])
next
  case (PollCall x f)
  then show ?thesis using poll_api_keeps [OF ok, of x f] h by (auto intro!: keeps_on_class [OF ok])
next
  case (CheckerCall x f)
  then show ?thesis using checker_api_keeps [OF ok, of x f] h by (auto intro!: keeps_on_class [OF ok])
next
  case (StreamCall x f)
  then show ?thesis using stream_api_keeps [OF ok, of x f] h by (auto intro!: keeps_on_class [OF ok])
next
  case (TCPCall x f)
  then show ?thesis using tcp_api_keeps [OF ok, of x f] h by (auto intro!: keeps_on_class [OF ok])
next
  case (PipeCall x f)
  then show ?thesis using pipe_api_keeps [OF ok, of x f] h by (auto intro!: keeps_on_class [OF ok])
next
  case (TTYCall x f)
  then show ?thesis using tty_api_keeps [OF ok, of x f] h by (auto intro!: keeps_on_class [OF ok])
next
  case (UDPCall x f)
  then show ?thesis using udp_api_keeps [OF ok, of x f] h by (auto intro!: keeps_on_class [OF ok])
next
  case (WriteCall x f)
  then show ?thesis using write_api_keeps [OF ok, of x f] h by (auto intro!: keeps_on_class [OF ok])
next
  case (FSCall x f)
  then show ?thesis using fs_api_keeps [OF ok, of x f] h by (auto intro!: keeps_on_class [OF ok])
next
  case (HandleCall x f)
  then show ?thesis using handle_api_keeps [OF ok, of x f] h by (auto intro!: keeps_on_class [OF ok])
next
  case (LoopCall x f)
  then show ?thesis using loop_api_keeps [OF ok, of x f] h by (auto intro!: keeps_on_loop [OF ok])
qed

end
