(* ===== verification/Stream_Io.thy ===== *)
theory Stream_Io
  imports Stability
begin

text \<open>
  What the event loop does with a stream (unix/stream.c): reading, the completion of writes,
  shutdown and connect requests, and the destruction of a stream that was closed, with the
  callbacks of pyuv that each of them runs. What the operating system answers is an argument:
  the results of \<open>read\<close>, the status of the writes, of \<open>shutdown\<close> and of \<open>connect\<close>.
\<close>

section \<open>Reading\<close>

text \<open>
  The answers of \<open>read\<close> or \<open>recvmsg\<close>: \<open>EAGAIN\<close>, another error, end of file, or a number of bytes
  with the descriptors that came along (IPC pipes) and whether the buffer was filled.
\<close>

datatype read_answer = RAgain | RErr nat | REof | RData nat "nat list" bool

definition UV_EOF :: int where "UV_EOF = -4095"

text \<open>\<open>uv__stream_recv_cmsg\<close> and \<open>uv__stream_queue_fd\<close>: allocations inside libuv succeed.\<close>

definition receive_fd :: "nat \<Rightarrow> uv_handle \<Rightarrow> uv_handle" where
  "receive_fd fd u =
     (case u_accepted u of
        None \<Rightarrow> u\<lparr>u_accepted := Some fd\<rparr>
      | Some _ \<Rightarrow> u\<lparr>u_queued := u_queued u @ [fd]\<rparr>)"

definition uv__stream_recv_cmsg :: "nat list \<Rightarrow> oid \<Rightarrow> world \<Rightarrow> world" where
  "uv__stream_recv_cmsg fds h w = fold (\<lambda>fd. upd_uv h (receive_fd fd)) fds w"

definition uv__stream_eof :: "python \<Rightarrow> oid \<Rightarrow> world \<Rightarrow> world option" where
  "uv__stream_eof py h w =
     (let w1 = upd_uv h (\<lambda>u. u\<lparr>u_read_eof := True\<rparr>) w;
          w2 = (if u_pollout (uvh w1 h) then w1 else uv__handle_stop h w1)
      in case pyuv__stream_read_cb py UV_EOF h w2 of
           None \<Rightarrow> None
         | Some w3 \<Rightarrow> Some (upd_uv h (\<lambda>u. u\<lparr>u_reading := False\<rparr>) w3))"

text \<open>
  The loop of \<open>uv__read\<close>; \<open>n\<close> is \<open>count\<close>, and \<open>ans n\<close> is the answer at that count. A failed
  \<open>assert\<close> is \<open>None\<close>. The end of the error case is that of \<open>uv_read_stop\<close>.
\<close>

fun uv__read_loop :: "python \<Rightarrow> nat \<Rightarrow> (nat \<Rightarrow> read_answer) \<Rightarrow> oid \<Rightarrow> world \<Rightarrow> world option" where
  "uv__read_loop py 0 ans h w = Some w"
| "uv__read_loop py (Suc n) ans h w =
     (if \<not> u_reading (uvh w h) then Some w
      else case pyuv__alloc_cb h w of
             None \<Rightarrow> None
           | Some (got, w1) \<Rightarrow>
               if \<not> got then pyuv__stream_read_cb py UV_ENOBUFS h w1
               else if u_fd (uvh w1 h) < 0 then None
               else case ans n of
                      RAgain \<Rightarrow> pyuv__stream_read_cb py 0 h w1
                    | RErr e \<Rightarrow>
                        (case pyuv__stream_read_cb py (- int e) h w1 of
                           None \<Rightarrow> None
                         | Some w2 \<Rightarrow> Some (uv_read_stop h w2))
                    | REof \<Rightarrow> uv__stream_eof py h w1
                    | RData k fds filled \<Rightarrow>
                        (case pyuv__stream_read_cb py (int k) h
                                (if u_type (uvh w1 h) = Some UV_NAMED_PIPE \<and> u_ipc (uvh w1 h)
                                 then uv__stream_recv_cmsg fds h w1 else w1) of
                           None \<Rightarrow> None
                         | Some w2 \<Rightarrow>
                             if filled then uv__read_loop py n ans h w2
                             else Some (upd_uv h (\<lambda>u. u\<lparr>u_read_partial := True\<rparr>) w2)))"

definition uv__read :: "python \<Rightarrow> (nat \<Rightarrow> read_answer) \<Rightarrow> oid \<Rightarrow> world \<Rightarrow> world option" where
  "uv__read py ans h w = uv__read_loop py 32 ans h (upd_uv h (\<lambda>u. u\<lparr>u_read_partial := False\<rparr>) w)"

section \<open>Requests\<close>

text \<open>The first request of a kind of a stream: the head of its queue.\<close>

definition next_req :: "req_type \<Rightarrow> oid \<Rightarrow> world \<Rightarrow> request_ctx option" where
  "next_req t h w = List.find (\<lambda>r. rq_type r = t \<and> rq_obj r = h) (pend w)"

text \<open>\<open>connect_req\<close> points to the last connect request of a stream.\<close>

definition connect_req :: "oid \<Rightarrow> world \<Rightarrow> request_ctx option" where
  "connect_req h w = List.find (\<lambda>r. rq_type r = ConnectReq \<and> rq_obj r = h) (rev (pend w))"

text \<open>The connect callbacks of tcp.c and pipe.c.\<close>

definition pyuv__tcp_connect_cb :: "python \<Rightarrow> int \<Rightarrow> request_ctx \<Rightarrow> world \<Rightarrow> world option" where
  "pyuv__tcp_connect_cb py status req w =
     (let (py_errorno, w1) = err_obj (status \<noteq> 0) w
      in case call_callback py (Some (rq_callback req)) [rq_obj req, py_errorno]
                (\<lambda>v. slot_of v (rq_obj req) S_loop) w1 of
           None \<Rightarrow> None
         | Some w2 \<Rightarrow> Some (Py_DECREF (rq_obj req) (Py_DECREF (rq_callback req) (Py_DECREF py_errorno w2))))"

definition pyuv__pipe_connect_cb :: "python \<Rightarrow> int \<Rightarrow> request_ctx \<Rightarrow> world \<Rightarrow> world option" where
  "pyuv__pipe_connect_cb = pyuv__tcp_connect_cb"

text \<open>\<open>uv__write_callbacks\<close>: the completed writes, in order, with the status of each.\<close>

fun uv__write_callbacks :: "python \<Rightarrow> int list \<Rightarrow> oid \<Rightarrow> world \<Rightarrow> world option" where
  "uv__write_callbacks py [] h w = Some w"
| "uv__write_callbacks py (s # ss) h w =
     (case next_req WriteReq h w of
        None \<Rightarrow> Some w
      | Some r \<Rightarrow>
          (case pyuv__stream_write_cb py s r (uv__take_req r w) of
             None \<Rightarrow> None
           | Some w1 \<Rightarrow> uv__write_callbacks py ss h w1))"

text \<open>\<open>uv__stream_flush_write_queue\<close> then \<open>uv__write_callbacks\<close>: every write in the queue fails.\<close>

definition pending_writes :: "oid \<Rightarrow> world \<Rightarrow> request_ctx list" where
  "pending_writes h w = filter (\<lambda>r. rq_type r = WriteReq \<and> rq_obj r = h) (pend w)"

definition flush_writes :: "python \<Rightarrow> int \<Rightarrow> oid \<Rightarrow> world \<Rightarrow> world option" where
  "flush_writes py error h w = uv__write_callbacks py (replicate (length (pending_writes h w)) error) h w"

text \<open>\<open>err\<close> is what \<open>shutdown(2)\<close> answers.\<close>

definition uv__drain :: "python \<Rightarrow> int \<Rightarrow> oid \<Rightarrow> world \<Rightarrow> world option" where
  "uv__drain py err h w =
     (let w1 = upd_uv h (\<lambda>u. u\<lparr>u_pollout := False\<rparr>) w; u = uvh w1 h
      in if u_shutting u \<and> \<not> u_closing u \<and> \<not> u_shut u
         then (case next_req ShutdownReq h w1 of
                 None \<Rightarrow> None
               | Some r \<Rightarrow> pyuv__stream_shutdown_cb py err r
                   (upd_uv h (\<lambda>u. u\<lparr>u_shut := err = 0\<rparr>)
                     (uv__take_req r (upd_uv h (\<lambda>u. u\<lparr>u_shutting := False\<rparr>) w1))))
         else Some w1)"

definition UV_EINPROGRESS :: int where "UV_EINPROGRESS = -115"

text \<open>\<open>so_error\<close> is the negated \<open>SO_ERROR\<close> of the socket.\<close>

definition uv__stream_connect :: "python \<Rightarrow> int \<Rightarrow> oid \<Rightarrow> world \<Rightarrow> world option" where
  "uv__stream_connect py so_error h w =
     (let delayed = u_delayed (uvh w h);
          error = (if delayed \<noteq> 0 then delayed else so_error);
          w1 = upd_uv h (\<lambda>u. u\<lparr>u_delayed := 0\<rparr>) w
      in if u_type (uvh w h) \<noteq> Some UV_TCP \<and> u_type (uvh w h) \<noteq> Some UV_NAMED_PIPE then None
         else if delayed = 0 \<and> u_fd (uvh w h) < 0 then None
         else if error = UV_EINPROGRESS then Some w1
         else case connect_req h w1 of
                None \<Rightarrow> None
              | Some r \<Rightarrow>
                  let w2 = uv__take_req r (upd_uv h (\<lambda>u. u\<lparr>u_connect := False\<rparr>) w1);
                      w3 = (if error < 0 \<or> next_req WriteReq h w2 = None
                            then upd_uv h (\<lambda>u. u\<lparr>u_pollout := False\<rparr>) w2 else w2)
                  in case pyuv__tcp_connect_cb py error r w3 of
                       None \<Rightarrow> None
                     | Some w4 \<Rightarrow>
                         if u_fd (uvh w4 h) = - 1 then Some w4
                         else if error < 0 then flush_writes py UV_ECANCELED h w4
                         else Some w4)"

section \<open>Events\<close>

text \<open>
  What \<open>poll\<close> reports for the descriptor of a stream, and the answers to the system calls that
  handling it makes: the reads, the status of the writes that are complete, \<open>shutdown\<close> and the
  socket error of a connect.
\<close>

record stream_event =
  ev_in :: bool
  ev_out :: bool
  ev_err :: bool
  ev_hup :: bool
  os_reads :: "nat \<Rightarrow> read_answer"
  os_writes :: "int list"
  os_shutdown :: int
  os_connect :: int

definition uv__stream_io :: "python \<Rightarrow> stream_event \<Rightarrow> oid \<Rightarrow> world \<Rightarrow> world option" where
  "uv__stream_io py e h w =
     (if u_type (uvh w h) \<notin> {Some UV_TCP, Some UV_NAMED_PIPE, Some UV_TTY} then None
      else if u_closing (uvh w h) then None
      else if u_connect (uvh w h) then uv__stream_connect py (os_connect e) h w
      else if u_fd (uvh w h) < 0 then None
      else case (if ev_in e \<or> ev_err e \<or> ev_hup e then uv__read py (os_reads e) h w else Some w) of
             None \<Rightarrow> None
           | Some w1 \<Rightarrow>
               if u_fd (uvh w1 h) = - 1 then Some w1
               else case (if ev_hup e \<and> u_reading (uvh w1 h) \<and> u_read_partial (uvh w1 h)
                             \<and> \<not> u_read_eof (uvh w1 h)
                          then uv__stream_eof py h w1 else Some w1) of
                      None \<Rightarrow> None
                    | Some w2 \<Rightarrow>
                        if u_fd (uvh w2 h) = - 1 then Some w2
                        else if ev_out e \<or> ev_err e \<or> ev_hup e
                        then (if u_fd (uvh w2 h) < 0 then None
                              else case uv__write_callbacks py (os_writes e) h w2 of
                                     None \<Rightarrow> None
                                   | Some w3 \<Rightarrow>
                                       if next_req WriteReq h w3 = None then uv__drain py (os_shutdown e) h w3
                                       else Some w3)
                        else Some w2)"

text \<open>
  \<open>uv__stream_destroy\<close>, when the close of a stream finishes: the connect request, the writes in
  the order they were queued, then the shutdown request fail with \<open>ECANCELED\<close>. It runs just
  before the handle leaves the loop; libuv has set the flag \<open>UV_CLOSED\<close> by then, which nothing
  reads in between.
\<close>

definition cancel_connect :: "python \<Rightarrow> oid \<Rightarrow> world \<Rightarrow> world option" where
  "cancel_connect py h w =
     (if u_connect (uvh w h)
      then (case connect_req h w of
              None \<Rightarrow> None
            | Some r \<Rightarrow> pyuv__tcp_connect_cb py UV_ECANCELED r
                (uv__take_req r (upd_uv h (\<lambda>u. u\<lparr>u_connect := False\<rparr>) w)))
      else Some w)"

definition cancel_shutdown :: "python \<Rightarrow> oid \<Rightarrow> world \<Rightarrow> world option" where
  "cancel_shutdown py h w =
     (if u_shutting (uvh w h)
      then (case next_req ShutdownReq h w of
              None \<Rightarrow> None
            | Some r \<Rightarrow> pyuv__stream_shutdown_cb py UV_ECANCELED r
                (uv__take_req r (upd_uv h (\<lambda>u. u\<lparr>u_shutting := False\<rparr>) w)))
      else Some w)"

definition uv__stream_destroy :: "python \<Rightarrow> oid \<Rightarrow> world \<Rightarrow> world option" where
  "uv__stream_destroy py h w =
     (case cancel_connect py h w of
        None \<Rightarrow> None
      | Some w1 \<Rightarrow>
          (case flush_writes py UV_ECANCELED h w1 of
             None \<Rightarrow> None
           | Some w2 \<Rightarrow> cancel_shutdown py h w2))"

section \<open>What stays of a handle\<close>

text \<open>
  What an event keeps of the handle it is about; unlike \<open>undisturbed\<close> it allows requests to be
  completed.
\<close>

definition stays :: "oid \<Rightarrow> world \<Rightarrow> world \<Rightarrow> bool" where
  "stays h w w' \<longleftrightarrow> h < length (objs w') \<and> kind (objs w' ! h) = kind (objs w ! h) \<and> initialized (hs w' h) \<and>
     u_closed (uvh w' h) = u_closed (uvh w h) \<and> u_loop (uvh w' h) = u_loop (uvh w h) \<and>
     (u_closing (uvh w h) \<longrightarrow> u_closing (uvh w' h)) \<and> fd_follows (uvh w h) (uvh w' h) \<and> calm w w'"

lemma stays_trans: "stays h a b \<Longrightarrow> stays h b c \<Longrightarrow> stays h a c"
  unfolding stays_def by (auto intro: fd_follows_trans calm_trans)

lemma stays_undisturbed: "undisturbed w w' \<Longrightarrow> initialized (hs w h) \<Longrightarrow> h < length (objs w) \<Longrightarrow> stays h w w'"
  using calm_undisturbed [of w w'] by (auto simp: stays_def undisturbed_def follows_def)

text \<open>The handle of an event: a stream that libuv still knows.\<close>

definition io_handle :: "oid \<Rightarrow> hclass \<Rightarrow> world \<Rightarrow> bool" where
  "io_handle h c w \<longleftrightarrow> kind (objs w ! h) = KHandle c \<and> initialized (hs w h) \<and> \<not> u_closed (uvh w h)"

lemma stays_io_handle: "stays h w w' \<Longrightarrow> io_handle h c w \<Longrightarrow> io_handle h c w'"
  by (simp add: stays_def io_handle_def)

lemma io_handleD:
  assumes "ok fr w" and "io_handle h c w"
  shows "valid w h" "h < length (objs w)" "u_type (uvh w h) = Some (uv_type_of c)"
proof -
  show v: "valid w h"
    using wf_loop_valid [OF okD(1) [OF assms(1)], of h] assms(2) by (auto simp: io_handle_def is_handle_def)
  then show "h < length (objs w)" by (simp add: valid_def)
  show "u_type (uvh w h) = Some (uv_type_of c)"
    using wf_handle_ok [OF okD(1) [OF assms(1)], of h] assms(2) by (auto simp: handle_ok_def io_handle_def)
qed

lemma undisturbed_io:
  assumes "ok fr w" and "io_handle h c w" and "undisturbed w w'"
  shows "stays h w w'" "io_handle h c w'"
proof -
  show "stays h w w'"
    by (rule stays_undisturbed [OF assms(3) _ io_handleD(2) [OF assms(1,2)]]) (use assms(2) in \<open>simp add: io_handle_def\<close>)
  then show "io_handle h c w'" by (rule stays_io_handle [OF _ assms(2)])
qed

text \<open>A step of libuv on its own flags.\<close>

lemma stays_upd_uv:
  assumes "ok fr w" and "io_handle h c w" and "\<And>u. u_closed (f u) = u_closed u" "\<And>u. u_closing (f u) = u_closing u"
    "\<And>u. u_loop (f u) = u_loop u" "\<And>u. u_fd (f u) = u_fd u" "u_processing (f (uvh w h)) \<Longrightarrow> u_processing (uvh w h)"
  shows "stays h w (upd_uv h f w)"
proof -
  have "calm w (upd_uv h f w)" by (rule calm_same) (use assms(3,7) in \<open>auto simp: upd_uv_def split: if_splits\<close>)
  then show ?thesis using io_handleD(2) [OF assms(1,2)] assms(2-) by (simp add: stays_def upd_uv_def io_handle_def)
qed

lemma reading_there:
  assumes "ok fr w" and "io_handle h c w" and "stream_class c" and "u_reading (uvh w h)"
  shows "0 \<le> u_fd (uvh w h)" "\<not> u_closing (uvh w h)"
  using okD(3) [OF assms(1), of h] assms(2-) io_handleD(1) [OF assms(1,2)]
  by (auto simp: cb_ok_def field_ok_def io_handle_def valid_def)

lemma ok_fields: 
  assumes "ok fr w"
  shows "ok fr (upd_uv h (\<lambda>u. u\<lparr>u_read_partial := b\<rparr>) w)" "ok fr (upd_uv h (\<lambda>u. u\<lparr>u_read_eof := b\<rparr>) w)"
    "ok fr (upd_uv h (\<lambda>u. u\<lparr>u_reading := False\<rparr>) w)" "ok fr (upd_uv h (\<lambda>u. u\<lparr>u_pollout := b\<rparr>) w)"
    "ok fr (upd_uv h (\<lambda>u. u\<lparr>u_shutting := False\<rparr>) w)" "ok fr (upd_uv h (\<lambda>u. u\<lparr>u_connect := False\<rparr>) w)"
    "ok fr (upd_uv h (\<lambda>u. u\<lparr>u_delayed := n\<rparr>) w)" "ok fr (upd_uv h (\<lambda>u. u\<lparr>u_shut := b\<rparr>) w)"
    "ok fr (upd_uv h (receive_fd fd) w)"
  by (rule ok_upd_uv [OF assms]; simp add: receive_fd_def split: option.splits; fail)+

lemma ok_recv_cmsg: "ok fr w \<Longrightarrow> ok fr (uv__stream_recv_cmsg fds h w)"
  unfolding uv__stream_recv_cmsg_def by (induction fds arbitrary: w) (simp_all add: ok_fields(9))

lemma stays_recv_cmsg:
  assumes "ok fr w" and "io_handle h c w"
  shows "stays h w (uv__stream_recv_cmsg fds h w)"
  using assms
proof (induction fds arbitrary: w)
  case Nil
  then show ?case
    using stays_undisturbed [OF stable_refl _ io_handleD(2) [OF Nil]]
    by (simp add: uv__stream_recv_cmsg_def io_handle_def)
next
  case (Cons fd fds)
  let ?w1 = "upd_uv h (receive_fd fd) w"
  have s: "stays h w ?w1" by (rule stays_upd_uv [OF Cons.prems]) (simp_all add: receive_fd_def split: option.splits)
  from Cons.IH [OF ok_fields(9) [OF Cons.prems(1)] stays_io_handle [OF s Cons.prems(2)]] stays_trans [OF s]
  show ?case by (simp add: uv__stream_recv_cmsg_def)
qed

lemma alloc_step:
  assumes "ok fr w" and "io_handle h c w"
  shows "\<exists>got w1. pyuv__alloc_cb h w = Some (got, w1) \<and> ok fr w1 \<and> hs w1 = hs w \<and> objs w1 = objs w \<and>
    undisturbed w w1"
proof -
  obtain l where l: "u_loop (uvh w h) = Some l" "is_loop w l"
    using wf_loop_valid [OF okD(1) [OF assms(1)], of h] assms(2) by (auto simp: io_handle_def)
  then show ?thesis
    using assms(1) ok_in_use [OF assms(1), of l True] stable_upd_Loop
    by (cases "in_use (loops w l)") (auto simp: pyuv__alloc_cb_def Let_def)
qed

lemma ok_stream_stop:
  assumes ok: "ok fr w" and io: "io_handle h c w" and c: "stream_class c"
  shows "ok fr (uv_read_stop h w)" "stays h w (uv_read_stop h w)" "ok fr (uv__handle_stop h w)"
    "stays h w (uv__handle_stop h w)"
proof -
  have t: "stream_type (uvh w h)" using io_handleD(3) [OF ok io] c by (simp add: stream_type_def stream_class_type)
  obtain l where l: "u_loop (uvh w h) = Some l"
    using wf_loop_valid [OF okD(1) [OF ok], of h] io by (auto simp: io_handle_def)
  have i: "initialized (hs w h)" "\<not> u_closed (uvh w h)" "h < length (objs w)"
    using io io_handleD(2) [OF ok io] by (auto simp: io_handle_def)
  show "ok fr (uv_read_stop h w)" by (rule ok_read_stop [OF ok i(1,2) t])
  have f: "fires d (u\<lparr>u_active := False\<rparr>) \<Longrightarrow> fires d u" for d u by (cases d) auto
  show "ok fr (uv__handle_stop h w)"
    by (rule ok_quiet_fields [OF ok, where x = h])
      (use uv_inv_handle_stop_stream [OF okD(2) [OF ok] l i(2) t] f in \<open>auto simp: quiet local_steps uv_defs\<close>)
  show "stays h w (uv_read_stop h w)" "stays h w (uv__handle_stop h w)"
    by (rule stays_undisturbed [OF stable_quiet i(1,3)]; simp add: quiet)+
qed

context python_program
begin

lemma read_call_ok:
  assumes ok: "ok (add_mset x fr) w" and k: "kind (objs w ! x) = KHandle c" and i: "initialized (hs w x)"
    and ncl: "\<not> u_closed (uvh w x)"
    and ow: "ok (mset [d, e] + add_mset x fr) w2" and un: "undisturbed w w2"
  shows "\<exists>w'. (case call_callback py (slot_of w2 x S_on_read_cb) [x, d, e] (\<lambda>v. slot_of v x S_loop) w2 of
      None \<Rightarrow> None
    | Some w3 \<Rightarrow> let w4 = release [d, e] w3; loop = loop_of w4 x
        in if \<not> is_loop w4 loop then None
           else Some (Py_DECREF x (upd_Loop loop (\<lambda>l. l\<lparr>in_use := False\<rparr>) w4))) = Some w' \<and>
    ok fr w' \<and> in_use (loops w' (loop_of w x)) = False \<and> undisturbed w w'"
proof -
  have v: "valid w x" by (rule wf_valid_frame [OF okD(1) [OF ok]]) simp
  have k2: "kind (objs w2 ! x) = KHandle c" "initialized (hs w2 x)"
    using un v k i by (auto simp: undisturbed_def valid_def)
  have v2: "valid w2 y" if "y \<in> set [x, d, e]" for y
    by (rule wf_valid_frame [OF okD(1) [OF ow]]) (use that in auto)
  have f: "valid w2 f" if "slot_of w2 x S_on_read_cb = Some f" for f
    using wf_valid_slot [OF okD(1) [OF ow] _ that] v2 by (auto simp: valid_def)
  have ow': "ok (add_mset x (mset [d, e] + fr)) w2" using ow by simp
  have "\<exists>w'. call_callback py (slot_of w2 x S_on_read_cb) [x, d, e] (\<lambda>v. slot_of v x S_loop) w2 = Some w' \<and>
      ok (mset [d, e] + add_mset x fr) w' \<and> undisturbed w2 w'"
    by (rule call_callback_ok [OF ow f v2])
      (use loop_field_there [OF ow _ k2] in auto)
  then obtain w3 where w3: "call_callback py (slot_of w2 x S_on_read_cb) [x, d, e] (\<lambda>v. slot_of v x S_loop) w2 = Some w3"
    "ok (mset [d, e] + add_mset x fr) w3" "undisturbed w2 w3" by blast
  let ?w4 = "release [d, e] w3"
  have o4: "ok (add_mset x fr) ?w4" by (rule ok_release [OF w3(2)])
  have u4: "undisturbed w ?w4" by (rule stable_trans [OF un stable_trans [OF w3(3) stable_release]])
  have s4: "initialized (hs ?w4 x)" "\<not> u_closed (uvh ?w4 x)" "u_loop (uvh ?w4 x) = u_loop (uvh w x)"
    using u4 v i ncl by (auto simp: undisturbed_def valid_def)
  obtain l where l: "u_loop (uvh ?w4 x) = Some l" "is_loop ?w4 l"
    using wf_loop_valid [OF okD(1) [OF o4] s4(1,2)] by blast
  let ?w5 = "upd_Loop l (\<lambda>l. l\<lparr>in_use := False\<rparr>) ?w4"
  have o5: "ok (add_mset x fr) ?w5" by (rule ok_in_use [OF o4])
  have "undisturbed w (Py_DECREF x ?w5)"
    by (rule stable_trans [OF u4 stable_trans [OF stable_upd_Loop stable_release]]) simp
  moreover have "loop_of w x = l" using l(1) s4(3) by (metis option.sel)
  moreover have "\<not> in_use (loops (Py_DECREF x ?w5) l)" by (simp add: upd_Loop_def)
  ultimately show ?thesis
    using w3(1) l ok_DECREF [OF o5] by (simp add: Let_def)
qed

lemma pyuv__stream_read_cb_ok:
  assumes ok: "ok fr w" and v: "valid w x" and k: "kind (objs w ! x) = KHandle c" and sc: "stream_class c"
    and i: "initialized (hs w x)" and ncl: "\<not> u_closed (uvh w x)"
  shows "\<exists>w'. pyuv__stream_read_cb py nread x w = Some w' \<and> ok fr w' \<and>
    \<not> in_use (loops w' (loop_of w x)) \<and> undisturbed w w'"
proof -
  let ?w1 = "Py_INCREF x w"
  have o1: "ok (add_mset x fr) ?w1" by (rule ok_INCREF [OF ok v])
  obtain d e w2 where c: "(if 0 \<le> nread
      then let (d, v) = PyType_GenericNew (KObject False) ?w1 in (d, Py_None, Py_INCREF Py_None v)
      else let v = Py_INCREF Py_None ?w1; (e, v') = PyInt_FromLong v
           in (Py_None, e, uv_read_stop x v')) = (d, e, w2)"
    by (metis prod_cases3)
  have "ok (mset [d, e] + add_mset x fr) w2 \<and> undisturbed ?w1 w2"
  proof (cases "0 \<le> nread")
    case True
    obtain m v where m: "PyType_GenericNew (KObject False) ?w1 = (m, v)" by fastforce
    note N = ok_GenericNew_object [OF o1 m]
    have o2: "ok (add_mset m (add_mset x fr)) v" "undisturbed ?w1 v" using N by auto
    show ?thesis
      using c True m ok_INCREF [OF o2(1) wf_none [OF okD(1) [OF o2(1)]]] stable_trans [OF o2(2) stable_INCREF]
      by (auto simp: add_mset_commute)
  next
    case False
    let ?v = "Py_INCREF Py_None ?w1"
    obtain m v where m: "PyInt_FromLong ?v = (m, v)" by fastforce
    have oN: "ok (add_mset Py_None (add_mset x fr)) ?v"
      by (rule ok_INCREF [OF o1 wf_none [OF okD(1) [OF o1]]])
    note P = ok_PyInt_FromLong [OF oN m]
    have u: "undisturbed ?w1 v" by (rule stable_trans [OF stable_INCREF P(2)])
    have f: "initialized (hs v x)" "\<not> u_closed (uvh v x)" "kind (objs v ! x) = KHandle c"
      using u \<open>valid w x\<close> i ncl k by (auto simp: undisturbed_def valid_def)
    have "stream_type (uvh v x)"
      using wf_handle_ok [OF okD(1) [OF P(1)], of x] f sc
      by (auto simp: handle_ok_def stream_type_def stream_class_type)
    from ok_read_stop [OF P(1) f(1,2) this] have o3: "ok (add_mset m (add_mset Py_None (add_mset x fr))) (uv_read_stop x v)" .
    have q: "uv_quiet v (uv_read_stop x v)" by (simp add: quiet)
    have "undisturbed v (uv_read_stop x v)" by (rule stable_quiet [OF q])
    then show ?thesis
      using c False m o3 stable_trans [OF u] by (auto simp: Let_def add_mset_commute)
  qed
  then have o2: "ok (mset [d, e] + add_mset x fr) w2" and u2: "undisturbed ?w1 w2" by auto
  obtain w' where w': "(case call_callback py (slot_of w2 x S_on_read_cb) [x, d, e] (\<lambda>v. slot_of v x S_loop) w2 of
      None \<Rightarrow> None
    | Some w3 \<Rightarrow> let w4 = release [d, e] w3; loop = loop_of w4 x
        in if \<not> is_loop w4 loop then None
           else Some (Py_DECREF x (upd_Loop loop (\<lambda>l. l\<lparr>in_use := False\<rparr>) w4))) = Some w'"
    "ok fr w'" "\<not> in_use (loops w' (loop_of w x))" "undisturbed ?w1 w'"
    using read_call_ok [OF o1 _ _ _ o2 u2, of c] k i ncl by auto
  have "pyuv__stream_read_cb py nread x w = Some w'"
    using w'(1) c by (simp add: pyuv__stream_read_cb_def Let_def)
  then show ?thesis using w'(2,3) stable_trans [OF stable_INCREF w'(4)] by blast
qed

text \<open>The read callback in the middle of an event.\<close>

lemma read_cb_step:
  assumes "ok fr w" and "io_handle h c w" and "stream_class c"
  shows "\<exists>w'. pyuv__stream_read_cb py n h w = Some w' \<and> ok fr w' \<and> stays h w w' \<and> io_handle h c w'"
  using pyuv__stream_read_cb_ok [OF assms(1) io_handleD(1) [OF assms(1,2)] _ assms(3), of n] assms(2)
    undisturbed_io [OF assms(1,2)] by (auto simp: io_handle_def)

lemma uv__stream_eof_ok:
  assumes ok: "ok fr w" and io: "io_handle h c w" and c: "stream_class c"
  shows "\<exists>w'. uv__stream_eof py h w = Some w' \<and> ok fr w' \<and> stays h w w' \<and> io_handle h c w'"
proof -
  let ?w1 = "upd_uv h (\<lambda>u. u\<lparr>u_read_eof := True\<rparr>) w"
  have o1: "ok fr ?w1" by (rule ok_fields(2) [OF ok])
  have s1: "stays h w ?w1" by (rule stays_upd_uv [OF ok io]) simp_all
  define w2 where "w2 = (if u_pollout (uvh ?w1 h) then ?w1 else uv__handle_stop h ?w1)"
  note S = ok_stream_stop [OF o1 stays_io_handle [OF s1 io] c]
  have o2: "ok fr w2" "stays h w w2" using o1 s1 S(3) stays_trans [OF s1 S(4)] by (auto simp: w2_def)
  from read_cb_step [OF o2(1) stays_io_handle [OF o2(2) io] c, of UV_EOF] obtain w3 where
    w3: "pyuv__stream_read_cb py UV_EOF h w2 = Some w3" "ok fr w3" "stays h w2 w3" "io_handle h c w3" by blast
  let ?w4 = "upd_uv h (\<lambda>u. u\<lparr>u_reading := False\<rparr>) w3"
  have s4: "stays h w3 ?w4" by (rule stays_upd_uv [OF w3(2,4)]) simp_all
  have "stays h w ?w4" by (rule stays_trans [OF stays_trans [OF o2(2) w3(3)] s4])
  then show ?thesis
    using w3(1) ok_fields(3) [OF w3(2), of h] stays_io_handle [OF s4 w3(4)]
    by (simp add: uv__stream_eof_def w2_def Let_def)
qed

text \<open>The loop of \<open>uv__read\<close> never fails an assertion, whatever \<open>read\<close> answers.\<close>

lemma uv__read_loop_ok:
  assumes "ok fr w" and "io_handle h c w" and c: "stream_class c"
  shows "\<exists>w'. uv__read_loop py n ans h w = Some w' \<and> ok fr w' \<and> stays h w w' \<and> io_handle h c w'"
  using assms(1,2)
proof (induction n arbitrary: w)
  case 0
  then show ?case
    using stays_undisturbed [OF stable_refl _ io_handleD(2) [OF 0]] by (simp add: io_handle_def)
next
  case (Suc n)
  note ok = Suc.prems(1) and io = Suc.prems(2)
  have refl: "stays h w w"
    using stays_undisturbed [OF stable_refl _ io_handleD(2) [OF ok io]] io by (simp add: io_handle_def)
  show ?case
  proof (cases "u_reading (uvh w h)")
    case False
    then show ?thesis using ok io refl by simp
  next
    case True
    obtain got w1 where a: "pyuv__alloc_cb h w = Some (got, w1)" "ok fr w1" "hs w1 = hs w" "objs w1 = objs w"
      "undisturbed w w1" using alloc_step [OF ok io] by blast
    have io1: "io_handle h c w1" using io by (simp add: io_handle_def a)
    have s1: "stays h w w1" by (rule undisturbed_io(1) [OF ok io a(5)])
    have fd: "0 \<le> u_fd (uvh w1 h)" using reading_there(1) [OF ok io c True] by (simp add: a)
    define w1' where "w1' k fds filled = (if u_type (uvh w1 h) = Some UV_NAMED_PIPE \<and> u_ipc (uvh w1 h)
      then uv__stream_recv_cmsg fds h w1 else w1)" for k :: nat and fds and filled :: bool
    have D: "ok fr (w1' k fds filled)" "stays h w (w1' k fds filled)" "io_handle h c (w1' k fds filled)" for k fds filled
    proof -
      have s: "stays h w1 (uv__stream_recv_cmsg fds h w1)"
        by (rule stays_recv_cmsg [OF a(2) io1])
      show "ok fr (w1' k fds filled)" using a(2) ok_recv_cmsg [OF a(2)] by (simp add: w1'_def)
      show "stays h w (w1' k fds filled)" using s1 stays_trans [OF s1 s] by (simp add: w1'_def)
      then show "io_handle h c (w1' k fds filled)" by (rule stays_io_handle [OF _ io])
    qed
    show ?thesis
    proof (cases "got")
      case False
      with read_cb_step [OF a(2) io1 c, of UV_ENOBUFS] a(1) True stays_trans [OF s1] show ?thesis by auto
    next
      case g: True
      show ?thesis
      proof (cases "ans n")
        case RAgain
        with read_cb_step [OF a(2) io1 c, of 0] a(1) True g fd stays_trans [OF s1] show ?thesis by auto
      next
        case (RErr e)
        from read_cb_step [OF a(2) io1 c, of "- int e"] obtain w2 where
          w2: "pyuv__stream_read_cb py (- int e) h w1 = Some w2" "ok fr w2" "stays h w1 w2" "io_handle h c w2" by blast
        note S = ok_stream_stop [OF w2(2,4) c]
        show ?thesis
          using RErr w2 a(1) True g fd S(1) stays_trans [OF stays_trans [OF s1 w2(3)] S(2)] stays_io_handle [OF S(2) w2(4)]
          by simp
      next
        case REof
        with uv__stream_eof_ok [OF a(2) io1 c] a(1) True g fd stays_trans [OF s1] show ?thesis by auto
      next
        case (RData k fds filled)
        from read_cb_step [OF D(1,3) c, of "int k"] obtain w2 where
          w2: "pyuv__stream_read_cb py (int k) h (w1' k fds filled) = Some w2" "ok fr w2"
            "stays h (w1' k fds filled) w2" "io_handle h c w2" by blast
        have s2: "stays h w w2" by (rule stays_trans [OF D(2) w2(3)])
        show ?thesis
        proof (cases filled)
          case True
          from Suc.IH [OF w2(2,4)] obtain w' where "uv__read_loop py n ans h w2 = Some w'" "ok fr w'"
            "stays h w2 w'" "io_handle h c w'" by blast
          then show ?thesis
            using RData w2(1) a(1) g fd \<open>u_reading (uvh w h)\<close> True stays_trans [OF s2] by (simp add: w1'_def)
        next
          case False
          let ?w3 = "upd_uv h (\<lambda>u. u\<lparr>u_read_partial := True\<rparr>) w2"
          have s3: "stays h w2 ?w3" by (rule stays_upd_uv [OF w2(2,4)]) simp_all
          show ?thesis
            using RData w2(1) a(1) g fd \<open>u_reading (uvh w h)\<close> False stays_trans [OF s2 s3]
              ok_fields(1) [OF w2(2), of h True] stays_io_handle [OF s3 w2(4)] by (simp add: w1'_def)
        qed
      qed
    qed
  qed
qed

lemma uv__read_ok:
  assumes "ok fr w" and "io_handle h c w" and "stream_class c"
  shows "\<exists>w'. uv__read py ans h w = Some w' \<and> ok fr w' \<and> stays h w w' \<and> io_handle h c w'"
proof -
  let ?w1 = "upd_uv h (\<lambda>u. u\<lparr>u_read_partial := False\<rparr>) w"
  have s: "stays h w ?w1" by (rule stays_upd_uv [OF assms(1,2)]) simp_all
  from uv__read_loop_ok [OF ok_fields(1) [OF assms(1)] stays_io_handle [OF s assms(2)] assms(3), of 32 ans]
  show ?thesis using stays_trans [OF s] by (auto simp: uv__read_def)
qed

end

end
