(* ===== verification/Stream_Done.thy ===== *)
theory Stream_Done
  imports Stream_Io
begin

text \<open>
  The completion of requests: each callback finds its stream alive, whatever order the loop
  takes, and a stream that is destroyed has run the callback of every write it still owed, in
  the order of the writes.
\<close>

section \<open>The trace of a callback\<close>

lemma trace_fold_INCREF [simp]: "trace (fold Py_INCREF xs w) = trace w"
  by (induction xs arbitrary: w) simp_all

lemma undisturbed_trace: "undisturbed w w' \<Longrightarrow> prefix (trace w) (trace w')"
  by (simp add: undisturbed_def)

definition called_with :: "oid \<Rightarrow> oid list \<Rightarrow> world \<Rightarrow> world \<Rightarrow> bool" where
  "called_with f args w w' \<longleftrightarrow> prefix (trace w @ [Called f args]) (trace w')"

context python_program
begin

lemma call_callback_traced:
  assumes "ok fr w" and "valid w f" and "\<And>x. x \<in> set args \<Longrightarrow> valid w x"
    and lf: "\<And>v. ok fr v \<Longrightarrow> undisturbed w v \<Longrightarrow> \<exists>l. loop_field v = Some l \<and> valid v l"
    and c: "call_callback py (Some f) args loop_field w = Some w'"
  shows "called_with f args w w'"
proof -
  let ?w1 = "log_event (Called f args) (fold Py_INCREF args w)"
  have o1: "ok (mset args + fr) ?w1"
    using ok_fold_INCREF [OF assms(1), of args] assms(3) by (auto intro: ok_log_event)
  have "valid ?w1 f = valid (fold Py_INCREF args w) f" unfolding valid_def log_event_frame ..
  then have v1: "valid ?w1 f" using assms(2) by simp
  obtain r w2 where p: "py_call py f args ?w1 = (r, w2)" by fastforce
  have s: "undisturbed ?w1 w2" using call_ok [OF o1 v1 _ p] by auto
  have t: "prefix (trace w @ [Called f args]) (trace (release args w2))"
    using undisturbed_trace [OF s] by (simp add: log_event_def)
  have q: "PyObject_Call py (Some f) args w = (r, release args w2)"
    using p by (simp add: PyObject_Call_def)
  show ?thesis
  proof (cases r)
    case (Some x)
    then have "w' = Py_DECREF x (release args w2)" using c q by (simp add: call_callback_def)
    then show ?thesis using t by (simp add: called_with_def)
  next
    case None
    note P = PyObject_Call_ok [OF assms(1) _ assms(3) q]
    have o2: "ok fr (release args w2)" "undisturbed w (release args w2)" using P None assms(2) by auto
    from lf [OF this] obtain l where l: "loop_field (release args w2) = Some l" "valid (release args w2) l" by blast
    from handle_uncaught_exception_ok [OF o2(1) l(2)] c q None l(1)
    have "undisturbed (release args w2) w'" by (auto simp: call_callback_def)
    from undisturbed_trace [OF this] t show ?thesis
      using prefix_order.trans unfolding called_with_def by blast
  qed
qed

end

section \<open>The callbacks of requests\<close>

text \<open>A request that was taken off the list: its references are in the frame.\<close>

definition taken :: "request_ctx \<Rightarrow> oid multiset \<Rightarrow> world \<Rightarrow> bool" where
  "taken r fr w \<longleftrightarrow> ok (mset (rq_refs r) + fr) w \<and> initialized (hs w (rq_obj r)) \<and>
     (\<exists>c. kind (objs w ! rq_obj r) = KHandle c)"

definition ran_cb :: "request_ctx \<Rightarrow> world \<Rightarrow> world \<Rightarrow> bool" where
  "ran_cb r w w' \<longleftrightarrow> (rq_callback r \<noteq> Py_None \<longrightarrow> (\<exists>e. called_with (rq_callback r) [rq_obj r, e] w w'))"

context python_program
begin

lemma request_call:
  assumes t: "taken r fr w" and e: "err_obj b w = (e, w1)"
  shows "\<exists>w2. call_callback py (Some (rq_callback r)) [rq_obj r, e] (\<lambda>v. slot_of v (rq_obj r) S_loop) w1 = Some w2 \<and>
    ok (add_mset e (mset (rq_refs r) + fr)) w2 \<and> undisturbed w w2 \<and> called_with (rq_callback r) [rq_obj r, e] w w2"
proof -
  let ?x = "rq_obj r" and ?c = "rq_callback r" and ?fr = "mset (rq_refs r) + fr"
  obtain c where k: "kind (objs w ! ?x) = KHandle c" and i: "initialized (hs w ?x)" and ok: "ok ?fr w"
    using t by (auto simp: taken_def)
  note E = ok_err_obj [OF ok e]
  have in_fr: "?x \<in># ?fr" "?c \<in># ?fr" by (simp_all add: rq_refs_def)
  have v: "valid w ?x" by (rule wf_valid_frame [OF okD(1) [OF ok] in_fr(1)])
  have k1: "kind (objs w1 ! ?x) = KHandle c" "initialized (hs w1 ?x)"
    using E(2) v k i by (auto simp: undisturbed_def valid_def)
  have v1: "valid w1 y" if "y \<in> {?x, ?c, e}" for y
    by (rule wf_valid_frame [OF okD(1) [OF E(1)]]) (use that in_fr in auto)
  have lf: "\<exists>l. slot_of v ?x S_loop = Some l \<and> valid v l" if "ok (add_mset e ?fr) v" "undisturbed w1 v" for v
    by (rule loop_field_there [OF E(1) _ k1 that]) (use in_fr in simp)
  have "\<exists>w2. call_callback py (Some ?c) [?x, e] (\<lambda>v. slot_of v ?x S_loop) w1 = Some w2 \<and>
      ok (add_mset e ?fr) w2 \<and> undisturbed w1 w2"
    by (rule call_callback_ok [OF E(1)]) (use v1 lf in auto)
  then obtain w2 where w2: "call_callback py (Some ?c) [?x, e] (\<lambda>v. slot_of v ?x S_loop) w1 = Some w2"
    "ok (add_mset e ?fr) w2" "undisturbed w1 w2" by blast
  have "called_with ?c [?x, e] w1 w2"
    by (rule call_callback_traced [OF E(1) _ _ lf w2(1)]) (use v1 in auto)
  then have "called_with ?c [?x, e] w w2"
    using e by (auto simp: called_with_def err_obj_def PyInt_FromLong_def PyType_GenericNew_def split: if_splits)
  then show ?thesis using w2 stable_trans [OF E(2) w2(3)] by blast
qed

lemma called_with_release: "called_with f args w w2 \<Longrightarrow> called_with f args w (release xs w2)"
  by (simp add: called_with_def)

lemma finish_req_step:
  assumes t: "taken r fr w"
  shows "\<exists>w'. finish_req py status r w = Some w' \<and> ok (mset (rq_refs r) + fr) w' \<and> undisturbed w w' \<and> ran_cb r w w'"
proof (cases "rq_callback r = Py_None")
  case True
  then show ?thesis using t by (simp add: finish_req_def taken_def ran_cb_def)
next
  case False
  obtain e w1 where e: "err_obj (status < 0) w = (e, w1)" by fastforce
  from request_call [OF t e] obtain w2 where
    w2: "call_callback py (Some (rq_callback r)) [rq_obj r, e] (\<lambda>v. slot_of v (rq_obj r) S_loop) w1 = Some w2"
      "ok (add_mset e (mset (rq_refs r) + fr)) w2" "undisturbed w w2"
      "called_with (rq_callback r) [rq_obj r, e] w w2" by blast
  have "ran_cb r w (Py_DECREF e w2)" unfolding ran_cb_def using called_with_release [OF w2(4)] by blast
  then show ?thesis
    using e False w2(1) ok_DECREF [OF w2(2)] stable_trans [OF w2(3) stable_release]
    by (simp add: finish_req_def)
qed

lemma ran_more: "ran_cb r w w1 \<Longrightarrow> trace w2 = trace w1 \<Longrightarrow> ran_cb r w w2"
  by (simp add: ran_cb_def called_with_def)

text \<open>The three callbacks of a stream: what each leaves.\<close>

lemma write_cb_step:
  assumes t: "taken r fr w"
  shows "\<exists>w'. pyuv__stream_write_cb py status r w = Some w' \<and> ok fr w' \<and> undisturbed w w' \<and> ran_cb r w w'"
proof -
  from finish_req_step [OF t] obtain w2 where
    w2: "finish_req py status r w = Some w2" "ok (mset (rq_refs r) + fr) w2" "undisturbed w w2" "ran_cb r w w2" by blast
  have "ok (mset (rq_views r) + (add_mset (rq_callback r) (mset_opt (rq_send_handle r) + add_mset (rq_obj r) fr))) w2"
    using w2(2) by (cases "rq_send_handle r") (simp_all add: rq_refs_def ac_simps add_mset_commute)
  from ok_DECREF [OF ok_write_dropped [OF this]] show ?thesis
    using w2 stable_trans [OF w2(3) stable_trans [OF stable_release stable_trans [OF stable_XDECREF
        stable_trans [OF stable_release stable_release]]]] ran_more [OF w2(4)]
    by (auto simp: pyuv__stream_write_cb_def)
qed

lemma shutdown_cb_step:
  assumes t: "taken r fr w" and "rq_views r = []" "rq_send_handle r = None"
  shows "\<exists>w'. pyuv__stream_shutdown_cb py status r w = Some w' \<and> ok fr w' \<and> undisturbed w w' \<and> ran_cb r w w'"
proof -
  from finish_req_step [OF t] obtain w2 where
    w2: "finish_req py status r w = Some w2" "ok (mset (rq_refs r) + fr) w2" "undisturbed w w2" "ran_cb r w w2" by blast
  have "ok (add_mset (rq_callback r) (add_mset (rq_obj r) fr)) w2"
    using w2(2) assms(2,3) by (simp add: rq_refs_def add_mset_commute)
  from ok_DECREF [OF ok_DECREF [OF this]] show ?thesis
    using w2 stable_trans [OF w2(3) stable_trans [OF stable_release stable_release]] ran_more [OF w2(4)]
    by (auto simp: pyuv__stream_shutdown_cb_def)
qed

lemma connect_cb_step:
  assumes t: "taken r fr w" and "rq_views r = []" "rq_send_handle r = None"
  shows "\<exists>w'. pyuv__tcp_connect_cb py status r w = Some w' \<and> ok fr w' \<and> undisturbed w w' \<and>
    (\<exists>e. called_with (rq_callback r) [rq_obj r, e] w w')"
proof -
  obtain e w1 where e: "err_obj (status \<noteq> 0) w = (e, w1)" by fastforce
  from request_call [OF t e] obtain w2 where
    w2: "call_callback py (Some (rq_callback r)) [rq_obj r, e] (\<lambda>v. slot_of v (rq_obj r) S_loop) w1 = Some w2"
      "ok (add_mset e (mset (rq_refs r) + fr)) w2" "undisturbed w w2"
      "called_with (rq_callback r) [rq_obj r, e] w w2" by blast
  have "ok (add_mset e (add_mset (rq_callback r) (add_mset (rq_obj r) fr))) w2"
    using w2(2) assms(2,3) by (simp add: rq_refs_def add_mset_commute)
  note o = ok_DECREF [OF ok_DECREF [OF ok_DECREF [OF this]]]
  let ?w3 = "Py_DECREF (rq_obj r) (Py_DECREF (rq_callback r) (Py_DECREF e w2))"
  have "undisturbed w ?w3"
    by (rule stable_trans [OF w2(3) stable_trans [OF stable_release stable_trans [OF stable_release stable_release]]])
  moreover have "called_with (rq_callback r) [rq_obj r, e] w ?w3"
    by (intro called_with_release w2(4))
  moreover have "pyuv__tcp_connect_cb py status r w = Some ?w3"
    using e w2(1) by (simp add: pyuv__tcp_connect_cb_def)
  ultimately show ?thesis using o by blast
qed

section \<open>Completing\<close>

lemma taken_req:
  assumes ok: "ok fr w" and r: "r \<in> set (pend w)" and p: "\<not> pointed r w"
  shows "taken r fr (uv__take_req r w)"
proof -
  have "initialized (hs w (rq_obj r))" by (rule wf_req(1) [OF okD(1) [OF ok] r])
  moreover from this have "\<exists>c. kind (objs w ! rq_obj r) = KHandle c"
    using wf_handle_ok [OF okD(1) [OF ok], of "rq_obj r"] by (auto simp: handle_ok_def)
  ultimately show ?thesis
    using ok_take_req [OF ok r p] by (simp add: taken_def uv__take_req_def uv__req_unregister_def)
qed

end

lemma take_req_frame [simp]:
  "hs (uv__take_req r w) = hs w" "objs (uv__take_req r w) = objs w" "trace (uv__take_req r w) = trace w"
  "pend (uv__take_req r w) = remove1 r (pend w)"
  by (simp_all add: uv__take_req_def uv__req_unregister_def remove_req_def upd_uvl_def)

lemma calm_take: "calm w (uv__take_req r w)"
  by (rule calm_same) (simp_all add: uv__take_req_def uv__req_unregister_def remove_req_def upd_uvl_def)

lemma stays_take: "ok fr w \<Longrightarrow> io_handle h c w \<Longrightarrow> stays h w (uv__take_req r w)"
  using io_handleD(2) calm_take by (simp add: stays_def io_handle_def)

lemma find_SomeD: "List.find P xs = Some x \<Longrightarrow> x \<in> set xs \<and> P x"
  by (induction xs) (auto split: if_splits)

lemma next_reqD: "next_req t h w = Some r \<Longrightarrow> r \<in> set (pend w) \<and> rq_type r = t \<and> rq_obj r = h"
  unfolding next_req_def by (drule find_SomeD) simp

lemma connect_reqD: "connect_req h w = Some r \<Longrightarrow> r \<in> set (pend w) \<and> rq_type r = ConnectReq \<and> rq_obj r = h"
  unfolding connect_req_def by (drule find_SomeD) simp

lemma find_exists: "x \<in> set xs \<Longrightarrow> P x \<Longrightarrow> \<exists>y. List.find P xs = Some y"
  by (induction xs) auto

lemma has_req_next: "has_req t h w \<Longrightarrow> \<exists>r. next_req t h w = Some r"
  unfolding has_req_def next_req_def by (auto intro: find_exists)

lemma has_req_connect: "has_req ConnectReq h w \<Longrightarrow> \<exists>r. connect_req h w = Some r"
  unfolding has_req_def connect_req_def by (auto intro: find_exists)

text \<open>The pointers of an open stream: the assertions on \<open>shutdown_req\<close> and \<open>connect_req\<close>.\<close>

lemma io_handle_reqs:
  assumes "ok fr w" and "io_handle h c w"
  shows "u_shutting (uvh w h) \<Longrightarrow> \<exists>r. next_req ShutdownReq h w = Some r"
    "u_connect (uvh w h) \<Longrightarrow> \<exists>r. connect_req h w = Some r"
    "u_connect (uvh w h) \<Longrightarrow> u_type (uvh w h) \<in> {Some UV_TCP, Some UV_NAMED_PIPE}"
proof -
  have h: "(u_shutting (uvh w h) \<longrightarrow> has_req ShutdownReq h w) \<and> (u_connect (uvh w h) \<longrightarrow> has_req ConnectReq h w)"
    using wf_handle_ok [OF okD(1) [OF assms(1)], of h] assms(2) by (auto simp: handle_ok_def io_handle_def)
  show "u_shutting (uvh w h) \<Longrightarrow> \<exists>r. next_req ShutdownReq h w = Some r" using h has_req_next by blast
  show "u_connect (uvh w h) \<Longrightarrow> \<exists>r. connect_req h w = Some r" using h has_req_connect by blast
  show "u_type (uvh w h) \<in> {Some UV_TCP, Some UV_NAMED_PIPE}" if "u_connect (uvh w h)"
  proof -
    obtain r where r: "r \<in> set (pend w)" "rq_type r = ConnectReq" "rq_obj r = h"
      using h \<open>u_connect (uvh w h)\<close> by (auto simp: has_req_def)
    from wf_req(2) [OF okD(1) [OF assms(1)] r(1)] r(2,3) show ?thesis by (simp add: req_fits_def)
  qed
qed

lemma req_plain:
  assumes "ok fr w" and "r \<in> set (pend w)" and "rq_type r \<in> {ShutdownReq, ConnectReq}"
  shows "rq_views r = []" "rq_send_handle r = None"
  using wf_req(2) [OF okD(1) [OF assms(1)] assms(2)] assms(3) by (auto simp: req_fits_def)

context python_program
begin

lemma taken_io: 
  assumes "ok fr w" and "io_handle h c w" and "undisturbed (uv__take_req r w) w'"
  shows "stays h w w'" "io_handle h c w'"
proof -
  have "stays h (uv__take_req r w) w'"
    by (rule stays_undisturbed [OF assms(3)]) (use assms(2) io_handleD(2) [OF assms(1,2)] in \<open>simp_all add: io_handle_def\<close>)
  then show "stays h w w'" by (rule stays_trans [OF stays_take [OF assms(1,2)]])
  then show "io_handle h c w'" by (rule stays_io_handle [OF _ assms(2)])
qed

lemma uv__write_callbacks_ok:
  assumes "ok fr w" and "io_handle h c w"
  shows "\<exists>w'. uv__write_callbacks py ss h w = Some w' \<and> ok fr w' \<and> stays h w w' \<and> io_handle h c w'"
  using assms
proof (induction ss arbitrary: w)
  case Nil
  then show ?case
    using undisturbed_io(1) [OF Nil stable_refl] by simp
next
  case (Cons s ss)
  note ok = Cons.prems(1) and io = Cons.prems(2)
  show ?case
  proof (cases "next_req WriteReq h w")
    case None
    then show ?thesis using ok io undisturbed_io(1) [OF ok io stable_refl] by simp
  next
    case (Some r)
    note r = next_reqD [OF Some]
    have "taken r fr (uv__take_req r w)" by (rule taken_req [OF ok]) (use r in \<open>auto simp: pointed_def\<close>)
    from write_cb_step [OF this, of s] obtain w1 where
      w1: "pyuv__stream_write_cb py s r (uv__take_req r w) = Some w1" "ok fr w1"
        "undisturbed (uv__take_req r w) w1" by blast
    note T = taken_io [OF ok io w1(3)]
    from Cons.IH [OF w1(2) T(2)] obtain w' where "uv__write_callbacks py ss h w1 = Some w'" "ok fr w'"
      "stays h w1 w'" "io_handle h c w'" by blast
    then show ?thesis using Some w1(1) stays_trans [OF T(1)] by simp
  qed
qed

text \<open>A request that the stream points to: the pointer is cleared, then the callback runs.\<close>

lemma pointer_cleared:
  assumes ok: "ok fr w" and io: "io_handle h c w" and r: "r \<in> set (pend w)" "rq_obj r = h"
    and f: "f = (\<lambda>u. u\<lparr>u_shutting := False\<rparr>) \<and> rq_type r = ShutdownReq \<or>
      f = (\<lambda>u. u\<lparr>u_connect := False\<rparr>) \<and> rq_type r = ConnectReq"
  shows "taken r fr (uv__take_req r (upd_uv h f w))" "stays h w (uv__take_req r (upd_uv h f w))"
proof -
  have o1: "ok fr (upd_uv h f w)" using f ok_fields(5,6) [OF ok] by auto
  show "taken r fr (uv__take_req r (upd_uv h f w))"
    by (rule taken_req [OF o1]) (use r f in \<open>auto simp: pointed_def uv_defs\<close>)
  have s: "stays h w (upd_uv h f w)" by (rule stays_upd_uv [OF ok io]) (use f in auto)
  from stays_trans [OF s stays_take [OF o1 stays_io_handle [OF s io]]]
  show "stays h w (uv__take_req r (upd_uv h f w))" .
qed

lemma taken_upd_uv:
  assumes "taken r fr w" and "ok (mset (rq_refs r) + fr) (upd_uv h f w)"
  shows "taken r fr (upd_uv h f w)"
  using assms by (auto simp: taken_def upd_uv_def)

lemma uv__drain_ok:
  assumes ok: "ok fr w" and io: "io_handle h c w"
  shows "\<exists>w'. uv__drain py err h w = Some w' \<and> ok fr w' \<and> stays h w w' \<and> io_handle h c w'"
proof -
  let ?w1 = "upd_uv h (\<lambda>u. u\<lparr>u_pollout := False\<rparr>) w"
  have o1: "ok fr ?w1" by (rule ok_fields(4) [OF ok])
  have s1: "stays h w ?w1" by (rule stays_upd_uv [OF ok io]) simp_all
  have io1: "io_handle h c ?w1" by (rule stays_io_handle [OF s1 io])
  show ?thesis
  proof (cases "u_shutting (uvh ?w1 h) \<and> \<not> u_closing (uvh ?w1 h) \<and> \<not> u_shut (uvh ?w1 h)")
    case False
    then show ?thesis using o1 s1 io1 by (auto simp: uv__drain_def Let_def)
  next
    case True
    with io_handle_reqs(1) [OF o1 io1] obtain r where r: "next_req ShutdownReq h ?w1 = Some r" by blast
    note R = next_reqD [OF r]
    let ?w2 = "uv__take_req r (upd_uv h (\<lambda>u. u\<lparr>u_shutting := False\<rparr>) ?w1)"
    note C = pointer_cleared [OF o1 io1 _ _, of r "\<lambda>u. u\<lparr>u_shutting := False\<rparr>"]
    have t2: "taken r fr ?w2" "stays h ?w1 ?w2" using C R by auto
    let ?w3 = "upd_uv h (\<lambda>u. u\<lparr>u_shut := err = 0\<rparr>) ?w2"
    have o2: "ok (mset (rq_refs r) + fr) ?w2" using t2(1) by (simp add: taken_def)
    have io2: "io_handle h c ?w2" by (rule stays_io_handle [OF t2(2) io1])
    have t3: "taken r fr ?w3" by (rule taken_upd_uv [OF t2(1) ok_fields(8) [OF o2]])
    have s3: "stays h ?w2 ?w3" by (rule stays_upd_uv [OF o2 io2]) simp_all
    have p: "rq_views r = []" "rq_send_handle r = None" using req_plain [OF o1, of r] R by auto
    from shutdown_cb_step [OF t3 p, of err] obtain w4 where
      w4: "pyuv__stream_shutdown_cb py err r ?w3 = Some w4" "ok fr w4" "undisturbed ?w3 w4" by blast
    have o3: "ok (mset (rq_refs r) + fr) ?w3" by (rule ok_fields(8) [OF o2])
    note U = undisturbed_io [OF o3 stays_io_handle [OF s3 io2] w4(3)]
    have "stays h w w4" by (rule stays_trans [OF stays_trans [OF stays_trans [OF s1 t2(2)] s3] U(1)])
    then show ?thesis using True r w4(1,2) U(2) by (auto simp: uv__drain_def Let_def)
  qed
qed

lemma flush_writes_ok:
  assumes "ok fr w" and "io_handle h c w"
  shows "\<exists>w'. flush_writes py e h w = Some w' \<and> ok fr w' \<and> stays h w w' \<and> io_handle h c w'"
  unfolding flush_writes_def by (rule uv__write_callbacks_ok [OF assms])

section \<open>An event of a stream\<close>

lemma uv__stream_connect_ok:
  assumes ok: "ok fr w" and io: "io_handle h c w" and cn: "u_connect (uvh w h)"
    and fd: "u_delayed (uvh w h) \<noteq> 0 \<or> 0 \<le> u_fd (uvh w h)"
  shows "\<exists>w'. uv__stream_connect py so h w = Some w' \<and> ok fr w' \<and> stays h w w' \<and> io_handle h c w'"
proof -
  define error where "error = (if u_delayed (uvh w h) \<noteq> 0 then u_delayed (uvh w h) else so)"
  let ?w1 = "upd_uv h (\<lambda>u. u\<lparr>u_delayed := 0\<rparr>) w"
  have o1: "ok fr ?w1" by (rule ok_fields(7) [OF ok])
  have s1: "stays h w ?w1" by (rule stays_upd_uv [OF ok io]) simp_all
  have io1: "io_handle h c ?w1" by (rule stays_io_handle [OF s1 io])
  have cn1: "u_connect (uvh ?w1 h)" using cn by (simp add: uv_defs)
  have t: "u_type (uvh w h) \<in> {Some UV_TCP, Some UV_NAMED_PIPE}" by (rule io_handle_reqs(3) [OF ok io cn])
  from io_handle_reqs(2) [OF o1 io1 cn1] obtain r where r: "connect_req h ?w1 = Some r" by blast
  note R = connect_reqD [OF r]
  define w2 where "w2 = uv__take_req r (upd_uv h (\<lambda>u. u\<lparr>u_connect := False\<rparr>) ?w1)"
  have t2: "taken r fr w2" "stays h ?w1 w2"
    using pointer_cleared [OF o1 io1, of r "\<lambda>u. u\<lparr>u_connect := False\<rparr>"] R by (auto simp: w2_def)
  have o2: "ok (mset (rq_refs r) + fr) w2" using t2(1) by (simp add: taken_def)
  have io2: "io_handle h c w2" by (rule stays_io_handle [OF t2(2) io1])
  define w3 where "w3 = (if error < 0 \<or> next_req WriteReq h w2 = None
    then upd_uv h (\<lambda>u. u\<lparr>u_pollout := False\<rparr>) w2 else w2)"
  have u3: "stays h w2 (upd_uv h (\<lambda>u. u\<lparr>u_pollout := False\<rparr>) w2)" by (rule stays_upd_uv [OF o2 io2]) simp_all
  have t3: "taken r fr w3" "stays h w2 w3"
    using t2(1) taken_upd_uv [OF t2(1) ok_fields(4) [OF o2], of h False] u3 undisturbed_io(1) [OF o2 io2 stable_refl]
    by (auto simp: w3_def)
  have o3: "ok (mset (rq_refs r) + fr) w3" using t3(1) by (simp add: taken_def)
  have p: "rq_views r = []" "rq_send_handle r = None" using req_plain [OF o1, of r] R by auto
  from connect_cb_step [OF t3(1) p, of error] obtain w4 where
    w4: "pyuv__tcp_connect_cb py error r w3 = Some w4" "ok fr w4" "undisturbed w3 w4" by blast
  note U = undisturbed_io [OF o3 stays_io_handle [OF t3(2) io2] w4(3)]
  have s4: "stays h w w4" by (rule stays_trans [OF stays_trans [OF stays_trans [OF s1 t2(2)] t3(2)] U(1)])
  from flush_writes_ok [OF w4(2) U(2), of UV_ECANCELED] obtain w5 where
    w5: "flush_writes py UV_ECANCELED h w4 = Some w5" "ok fr w5" "stays h w4 w5" "io_handle h c w5" by blast
  have eq: "uv__stream_connect py so h w = (if error = UV_EINPROGRESS then Some ?w1
      else if u_fd (uvh w4 h) = - 1 then Some w4 else if error < 0 then Some w5 else Some w4)"
    unfolding uv__stream_connect_def Let_def error_def [symmetric] r option.case w2_def [symmetric]
      w3_def [symmetric] w4(1) w5(1) using t fd by auto
  show ?thesis
    using eq o1 s1 io1 w4(2) s4 U(2) w5 stays_trans [OF s4 w5(3)] by auto
qed

text \<open>
  Whatever \<open>poll\<close> reports and the system calls answer, the handling of an event of a stream fails
  no assertion of libuv and keeps the invariant.
\<close>

lemma uv__stream_io_ok:
  assumes ok: "ok fr w" and io: "io_handle h c w" and c: "stream_class c"
    and op: "\<not> u_closing (uvh w h)" and fd: "0 \<le> u_fd (uvh w h) \<or> u_connect (uvh w h) \<and> u_delayed (uvh w h) \<noteq> 0"
  shows "\<exists>w'. uv__stream_io py e h w = Some w' \<and> ok fr w' \<and> stays h w w' \<and> io_handle h c w'"
proof -
  have t: "u_type (uvh w h) \<in> {Some UV_TCP, Some UV_NAMED_PIPE, Some UV_TTY}"
    using io_handleD(3) [OF ok io] c by (simp add: stream_class_type)
  have refl: "stays h v v" if "ok fr v" "io_handle h c v" for v
    by (rule undisturbed_io(1) [OF that stable_refl])
  show ?thesis
  proof (cases "u_connect (uvh w h)")
    case True
    then show ?thesis using uv__stream_connect_ok [OF ok io True] t op fd by (auto simp: uv__stream_io_def)
  next
    case False
    then have fd0: "0 \<le> u_fd (uvh w h)" using fd by simp
    have pos: "0 \<le> u_fd (uvh v h)" if "stays h w v" "u_fd (uvh v h) \<noteq> - 1" for v
      using that fd0 by (auto simp: stays_def fd_follows_def)
    from uv__read_ok [OF ok io c, of "os_reads e"] obtain w1 where
      w1: "(if ev_in e \<or> ev_err e \<or> ev_hup e then uv__read py (os_reads e) h w else Some w) = Some w1"
        "ok fr w1" "stays h w w1" "io_handle h c w1"
      using ok io refl [OF ok io] by (cases "ev_in e \<or> ev_err e \<or> ev_hup e") auto
    from uv__stream_eof_ok [OF w1(2,4) c] obtain w2 where
      w2: "(if ev_hup e \<and> u_reading (uvh w1 h) \<and> u_read_partial (uvh w1 h) \<and> \<not> u_read_eof (uvh w1 h)
          then uv__stream_eof py h w1 else Some w1) = Some w2"
        "ok fr w2" "stays h w1 w2" "io_handle h c w2"
      using w1(2,4) refl [OF w1(2,4)]
      by (cases "ev_hup e \<and> u_reading (uvh w1 h) \<and> u_read_partial (uvh w1 h) \<and> \<not> u_read_eof (uvh w1 h)") auto
    have s2: "stays h w w2" by (rule stays_trans [OF w1(3) w2(3)])
    from uv__write_callbacks_ok [OF w2(2,4), of "os_writes e"] obtain w3 where
      w3: "uv__write_callbacks py (os_writes e) h w2 = Some w3" "ok fr w3" "stays h w2 w3" "io_handle h c w3" by blast
    from uv__drain_ok [OF w3(2,4), of "os_shutdown e"] obtain w4 where
      w4: "uv__drain py (os_shutdown e) h w3 = Some w4" "ok fr w4" "stays h w3 w4" "io_handle h c w4" by blast
    have s3: "stays h w w3" "stays h w w4" using stays_trans [OF s2 w3(3)] stays_trans [OF _ w4(3)] by blast+
    have "\<not> u_fd (uvh w h) < 0" "u_fd (uvh w2 h) \<noteq> - 1 \<Longrightarrow> \<not> u_fd (uvh w2 h) < 0"
      using fd0 pos [OF s2] by auto
    then show ?thesis
      using False t op w1 w2(2,4) s2 w3 w4 s3 by (simp add: uv__stream_io_def w1(1) w2(1))
  qed
qed

section \<open>Destroying a stream\<close>

lemma cancel_connect_ok:
  assumes ok: "ok fr w" and io: "io_handle h c w"
  shows "\<exists>w'. cancel_connect py h w = Some w' \<and> ok fr w' \<and> stays h w w' \<and> io_handle h c w'"
proof (cases "u_connect (uvh w h)")
  case False
  then show ?thesis using ok io undisturbed_io(1) [OF ok io stable_refl] by (simp add: cancel_connect_def)
next
  case True
  with io_handle_reqs(2) [OF ok io] obtain r where r: "connect_req h w = Some r" by blast
  note R = connect_reqD [OF r]
  let ?w1 = "uv__take_req r (upd_uv h (\<lambda>u. u\<lparr>u_connect := False\<rparr>) w)"
  have t: "taken r fr ?w1" "stays h w ?w1"
    using pointer_cleared [OF ok io, of r "\<lambda>u. u\<lparr>u_connect := False\<rparr>"] R by auto
  have o1: "ok (mset (rq_refs r) + fr) ?w1" using t(1) by (simp add: taken_def)
  have p: "rq_views r = []" "rq_send_handle r = None" using req_plain [OF ok, of r] R by auto
  from connect_cb_step [OF t(1) p, of UV_ECANCELED] obtain w2 where
    w2: "pyuv__tcp_connect_cb py UV_ECANCELED r ?w1 = Some w2" "ok fr w2" "undisturbed ?w1 w2" by blast
  note U = undisturbed_io [OF o1 stays_io_handle [OF t(2) io] w2(3)]
  show ?thesis using True r w2(1,2) U(2) stays_trans [OF t(2) U(1)] by (simp add: cancel_connect_def)
qed

lemma cancel_shutdown_ok:
  assumes ok: "ok fr w" and io: "io_handle h c w"
  shows "\<exists>w'. cancel_shutdown py h w = Some w' \<and> ok fr w' \<and> stays h w w' \<and> io_handle h c w' \<and>
    (u_closing (uvh w h) \<and> pending_writes h w = [] \<longrightarrow> pending_writes h w' = []) \<and> prefix (trace w) (trace w')"
proof (cases "u_shutting (uvh w h)")
  case False
  then show ?thesis using ok io undisturbed_io(1) [OF ok io stable_refl] by (simp add: cancel_shutdown_def)
next
  case True
  with io_handle_reqs(1) [OF ok io] obtain r where r: "next_req ShutdownReq h w = Some r" by blast
  note R = next_reqD [OF r]
  let ?w1 = "uv__take_req r (upd_uv h (\<lambda>u. u\<lparr>u_shutting := False\<rparr>) w)"
  have t: "taken r fr ?w1" "stays h w ?w1"
    using pointer_cleared [OF ok io, of r "\<lambda>u. u\<lparr>u_shutting := False\<rparr>"] R by auto
  have o1: "ok (mset (rq_refs r) + fr) ?w1" using t(1) by (simp add: taken_def)
  have p: "rq_views r = []" "rq_send_handle r = None" using req_plain [OF ok, of r] R by auto
  from shutdown_cb_step [OF t(1) p, of UV_ECANCELED] obtain w2 where
    w2: "pyuv__stream_shutdown_cb py UV_ECANCELED r ?w1 = Some w2" "ok fr w2" "undisturbed ?w1 w2" by blast
  note U = undisturbed_io [OF o1 stays_io_handle [OF t(2) io] w2(3)]
  have cl: "u_closing (uvh w h) \<Longrightarrow> u_closing (uvh ?w1 h)" by (simp add: uv_defs)
  have "pending_writes h ?w1 = [] \<Longrightarrow> u_closing (uvh w h) \<Longrightarrow> pending_writes h w2 = []"
    using w2(3) cl io_handleD(2) [OF o1 stays_io_handle [OF t(2) io]]
    by (force simp: undisturbed_def pend_grows_def pending_writes_def filter_empty_conv)
  moreover have "pending_writes h w = [] \<Longrightarrow> pending_writes h ?w1 = []"
    by (auto simp: pending_writes_def filter_remove1 uv_defs)
  moreover have "prefix (trace w) (trace w2)" using undisturbed_trace [OF w2(3)] by (simp add: uv_defs)
  ultimately show ?thesis using True r w2(1,2) U(2) stays_trans [OF t(2) U(1)] by (auto simp: cancel_shutdown_def)
qed

end

text \<open>
  The callables that were called between two states with the stream as first argument, and the
  callbacks that a list of requests owes.
\<close>

definition called_on :: "oid \<Rightarrow> event list \<Rightarrow> oid list" where
  "called_on h es = List.map_filter (\<lambda>e. case e of Called f (x # _) \<Rightarrow> if x = h then Some f else None | _ \<Rightarrow> None) es"

definition new_events :: "world \<Rightarrow> world \<Rightarrow> event list" where
  "new_events w w' = drop (length (trace w)) (trace w')"

definition owed_callbacks :: "request_ctx list \<Rightarrow> oid list" where
  "owed_callbacks rs = filter (\<lambda>f. f \<noteq> Py_None) (map rq_callback rs)"

lemma new_events_trans:
  assumes "prefix (trace a) (trace b)" and "prefix (trace b) (trace c)"
  shows "new_events a c = new_events a b @ new_events b c"
  using assms by (auto simp: new_events_def prefix_def)

lemma called_on_append: "called_on h (xs @ ys) = called_on h xs @ called_on h ys"
  by (induction xs) (simp_all add: called_on_def List.map_filter_simps split: event.splits list.splits option.splits)

lemma ran_called_on:
  assumes "ran_cb r w w'" and "rq_callback r \<noteq> Py_None"
  shows "subseq [rq_callback r] (called_on (rq_obj r) (new_events w w'))"
proof -
  obtain e es where "trace w' = trace w @ Called (rq_callback r) [rq_obj r, e] # es"
    using assms by (auto simp: ran_cb_def called_with_def prefix_def)
  then show ?thesis
    by (simp add: new_events_def called_on_def List.map_filter_simps)
qed

lemma find_hd_filter: "List.find P xs = (case filter P xs of [] \<Rightarrow> None | x # _ \<Rightarrow> Some x)"
  by (induction xs) auto

lemma next_req_hd:
  "next_req WriteReq h w = (case pending_writes h w of [] \<Rightarrow> None | r # _ \<Rightarrow> Some r)"
  unfolding next_req_def pending_writes_def by (rule find_hd_filter)

lemma pending_writes_take:
  assumes "pending_writes h w = r # rs"
  shows "pending_writes h (uv__take_req r w) = rs"
  using assms by (simp add: pending_writes_def filter_remove1)

context python_program
begin

text \<open>While the stream closes no write joins the queue, so the loop empties it in its order.\<close>

lemma uv__write_callbacks_flushes:
  assumes "ok fr w" and "io_handle h c w" and "u_closing (uvh w h)" and "length ss = length (pending_writes h w)"
  shows "\<exists>w'. uv__write_callbacks py ss h w = Some w' \<and> ok fr w' \<and> stays h w w' \<and> io_handle h c w' \<and>
    pending_writes h w' = [] \<and> prefix (trace w) (trace w') \<and>
    subseq (owed_callbacks (pending_writes h w)) (called_on h (new_events w w'))"
  using assms
proof (induction ss arbitrary: w)
  case Nil
  then show ?case using undisturbed_io(1) [OF Nil(1,2) stable_refl] by (simp add: owed_callbacks_def)
next
  case (Cons s ss)
  note ok = Cons.prems(1) and io = Cons.prems(2)
  obtain r rs where rs: "pending_writes h w = r # rs" "length ss = length rs"
    using Cons.prems(4) by (cases "pending_writes h w") auto
  have n: "next_req WriteReq h w = Some r" by (simp add: next_req_hd rs)
  note r = next_reqD [OF n]
  let ?w0 = "uv__take_req r w"
  have "taken r fr ?w0" by (rule taken_req [OF ok]) (use r in \<open>auto simp: pointed_def\<close>)
  from write_cb_step [OF this, of s] obtain w1 where
    w1: "pyuv__stream_write_cb py s r ?w0 = Some w1" "ok fr w1" "undisturbed ?w0 w1" "ran_cb r ?w0 w1" by blast
  note T = taken_io [OF ok io w1(3)]
  have cl: "u_closing (uvh ?w0 h)" "u_closing (uvh w1 h)"
    using Cons.prems(3) T(1) by (simp_all add: stays_def)
  have "pending_writes h w1 = pending_writes h ?w0"
    using w1(3) cl(1) io_handleD(2) [OF ok io]
    by (force simp: undisturbed_def pend_grows_def pending_writes_def filter_empty_conv)
  then have p1: "pending_writes h w1 = rs" by (simp add: pending_writes_take [OF rs(1)])
  with Cons.IH [OF w1(2) T(2) cl(2)] rs(2) obtain w' where
    w': "uv__write_callbacks py ss h w1 = Some w'" "ok fr w'" "stays h w1 w'" "io_handle h c w'"
      "pending_writes h w' = []" "prefix (trace w1) (trace w')"
      "subseq (owed_callbacks rs) (called_on h (new_events w1 w'))" by auto
  have pre: "prefix (trace w) (trace w1)" using undisturbed_trace [OF w1(3)] by simp
  have nw: "new_events ?w0 w1 = new_events w w1" by (simp add: new_events_def)
  have "subseq (owed_callbacks (r # rs)) (called_on h (new_events w w1) @ called_on h (new_events w1 w'))"
  proof (cases "rq_callback r = Py_None")
    case True
    then show ?thesis using w'(7) by (simp add: owed_callbacks_def list_emb_append2)
  next
    case False
    have "subseq ([rq_callback r] @ owed_callbacks rs)
        (called_on h (new_events w w1) @ called_on h (new_events w1 w'))"
      using ran_called_on [OF w1(4) False] r w'(7) nw by (intro list_emb_append_mono) auto
    then show ?thesis using False by (simp add: owed_callbacks_def)
  qed
  then show ?case
    using n w1(1) w' rs stays_trans [OF T(1) w'(3)] prefix_order.trans [OF pre w'(6)]
    by (simp add: new_events_trans [OF pre w'(6)] called_on_append)
qed

text \<open>
  The end of a stream that was closed: no assertion fails, no write is left, and every write that
  was still queued got its callback, in the order of the queue.
\<close>

lemma cancel_connect_writes:
  assumes "ok fr w" and "io_handle h c w" and "u_closing (uvh w h)" and c: "cancel_connect py h w = Some w'"
  shows "pending_writes h w' = pending_writes h w \<and> prefix (trace w) (trace w')"
proof (cases "u_connect (uvh w h)")
  case False
  then show ?thesis using c by (simp add: cancel_connect_def)
next
  case True
  with io_handle_reqs(2) [OF assms(1,2)] obtain r where r: "connect_req h w = Some r" by blast
  note R = connect_reqD [OF r]
  let ?w1 = "uv__take_req r (upd_uv h (\<lambda>u. u\<lparr>u_connect := False\<rparr>) w)"
  have t: "taken r fr ?w1" "stays h w ?w1"
    using pointer_cleared [OF assms(1,2), of r "\<lambda>u. u\<lparr>u_connect := False\<rparr>"] R by auto
  have p: "rq_views r = []" "rq_send_handle r = None" using req_plain [OF assms(1), of r] R by auto
  from connect_cb_step [OF t(1) p, of UV_ECANCELED] r c True have u: "undisturbed ?w1 w'"
    by (auto simp: cancel_connect_def)
  have "u_closing (uvh ?w1 h)" "h < length (objs ?w1)" using t(2) assms(3) by (simp_all add: stays_def)
  then have "pending_writes h w' = pending_writes h ?w1"
    using u by (force simp: undisturbed_def pend_grows_def pending_writes_def filter_empty_conv)
  moreover have "pending_writes h ?w1 = pending_writes h w"
    using R by (auto simp: pending_writes_def filter_remove1 uv_defs remove1_idem)
  ultimately show ?thesis using undisturbed_trace [OF u] by (simp add: uv_defs)
qed

lemma uv__stream_destroy_ok:
  assumes ok: "ok fr w" and io: "io_handle h c w" and cl: "u_closing (uvh w h)"
  shows "\<exists>w'. uv__stream_destroy py h w = Some w' \<and> ok fr w' \<and> stays h w w' \<and> io_handle h c w' \<and>
    pending_writes h w' = [] \<and> subseq (owed_callbacks (pending_writes h w)) (called_on h (new_events w w'))"
proof -
  from cancel_connect_ok [OF ok io] obtain w1 where
    w1: "cancel_connect py h w = Some w1" "ok fr w1" "stays h w w1" "io_handle h c w1" by blast
  note C = cancel_connect_writes [OF ok io cl w1(1)]
  have cl1: "u_closing (uvh w1 h)" using w1(3) cl by (simp add: stays_def)
  from uv__write_callbacks_flushes [OF w1(2,4) cl1, of "replicate (length (pending_writes h w1)) UV_ECANCELED"]
  obtain w2 where w2: "flush_writes py UV_ECANCELED h w1 = Some w2" "ok fr w2" "stays h w1 w2" "io_handle h c w2"
    "pending_writes h w2 = []" "prefix (trace w1) (trace w2)"
    "subseq (owed_callbacks (pending_writes h w1)) (called_on h (new_events w1 w2))"
    by (auto simp: flush_writes_def)
  have cl2: "u_closing (uvh w2 h)" using w2(3) cl1 by (simp add: stays_def)
  from cancel_shutdown_ok [OF w2(2,4)] obtain w3 where
    w3: "cancel_shutdown py h w2 = Some w3" "ok fr w3" "stays h w2 w3" "io_handle h c w3"
      "pending_writes h w3 = []" "prefix (trace w2) (trace w3)" using cl2 w2(5) by blast
  have p: "prefix (trace w) (trace w1)" "prefix (trace w1) (trace w3)"
    using C prefix_order.trans [OF w2(6) w3(6)] by auto
  have e: "new_events w w3 = new_events w w1 @ new_events w1 w2 @ new_events w2 w3"
    by (simp add: new_events_trans [OF p] new_events_trans [OF w2(6) w3(6)])
  have "subseq (owed_callbacks (pending_writes h w)) (called_on h (new_events w w3))"
    unfolding e called_on_append
    by (rule list_emb_append2, rule subseq_order.trans [OF _ subseq_rev_drop_many])
      (use w2(7) C in simp_all)
  then show ?thesis
    using w1(1) w2(1) w3 stays_trans [OF stays_trans [OF w1(3) w2(3)] w3(3)] by (simp add: uv__stream_destroy_def)
qed

end

end
