(* ===== verification/Server.thy ===== *)
theory Server
  imports Stream_Done Pipe
begin

text \<open>
  What the event loop does with a stream that listens: \<open>uv__server_io\<close> (unix/stream.c) and the
  listen callbacks of src/tcp.c and src/pipe.c; and the end of an abstract connect (src/abstract.c).
\<close>

section \<open>Connections\<close>

definition pyuv__tcp_listen_cb :: "python \<Rightarrow> int \<Rightarrow> oid \<Rightarrow> world \<Rightarrow> world option" where
  "pyuv__tcp_listen_cb py status self w =
     (let (py_errorno, w2) = err_obj (status \<noteq> 0) (Py_INCREF self w)
      in case call_callback py (slot_of w2 self S_on_new_connection_cb) [self, py_errorno]
                (\<lambda>v. slot_of v self S_loop) w2 of
           None \<Rightarrow> None
         | Some w3 \<Rightarrow> Some (Py_DECREF self (Py_DECREF py_errorno w3)))"

definition pyuv__pipe_listen_cb :: "python \<Rightarrow> int \<Rightarrow> oid \<Rightarrow> world \<Rightarrow> world option" where
  "pyuv__pipe_listen_cb = pyuv__tcp_listen_cb"

text \<open>
  The answers of \<open>uv__accept\<close>: \<open>EAGAIN\<close>, a connection that was aborted, an error; for want of
  descriptors (\<open>EMFILE\<close>, \<open>ENFILE\<close>) the result of \<open>uv__emfile_trick\<close>; or a connection.
\<close>

datatype accept_answer = AAgain | AAborted | AErr nat | AEmfile nat | AConn nat

definition EAGAIN :: nat where "EAGAIN = 11"

text \<open>
  The loop of \<open>uv__server_io\<close>, by the answers of \<open>accept\<close>; after the last one it answers
  \<open>EAGAIN\<close>. \<open>None\<close> is a failed \<open>assert\<close>.
\<close>

fun uv__server_loop :: "python \<Rightarrow> accept_answer list \<Rightarrow> oid \<Rightarrow> world \<Rightarrow> world option" where
  "uv__server_loop py [] h w =
     (if u_fd (uvh w h) = - 1 then Some w else if u_accepted (uvh w h) \<noteq> None then None else Some w)"
| "uv__server_loop py (a # as) h w =
     (if u_fd (uvh w h) = - 1 then Some w
      else if u_accepted (uvh w h) \<noteq> None then None
      else case a of
             AAgain \<Rightarrow> Some w
           | AAborted \<Rightarrow> uv__server_loop py as h w
           | AErr e \<Rightarrow>
               (case pyuv__tcp_listen_cb py (- int e) h w of
                  None \<Rightarrow> None
                | Some w1 \<Rightarrow> uv__server_loop py as h w1)
           | AEmfile e \<Rightarrow>
               if e = EAGAIN then Some w
               else (case pyuv__tcp_listen_cb py (- int e) h w of
                       None \<Rightarrow> None
                     | Some w1 \<Rightarrow> uv__server_loop py as h w1)
           | AConn fd \<Rightarrow>
               (case pyuv__tcp_listen_cb py 0 h (upd_uv h (\<lambda>u. u\<lparr>u_accepted := Some fd\<rparr>) w) of
                  None \<Rightarrow> None
                | Some w1 \<Rightarrow>
                    if u_accepted (uvh w1 h) \<noteq> None then Some w1 else uv__server_loop py as h w1))"

definition uv__server_io :: "python \<Rightarrow> bool \<Rightarrow> accept_answer list \<Rightarrow> oid \<Rightarrow> world \<Rightarrow> world option" where
  "uv__server_io py pollin as h w =
     (if \<not> pollin then None
      else if u_accepted (uvh w h) \<noteq> None then None
      else if u_closing (uvh w h) then None
      else uv__server_loop py as h w)"

lemma ok_accepted: "ok fr w \<Longrightarrow> ok fr (upd_uv h (\<lambda>u. u\<lparr>u_accepted := a\<rparr>) w)"
  by (rule ok_upd_uv) simp_all

context python_program
begin

lemma listen_cb_ok:
  assumes ok: "ok fr w" and io: "io_handle h c w"
  shows "\<exists>w'. pyuv__tcp_listen_cb py status h w = Some w' \<and> ok fr w' \<and> undisturbed w w'"
proof -
  let ?w1 = "Py_INCREF h w"
  have v: "valid w h" by (rule io_handleD(1) [OF ok io])
  have o1: "ok (add_mset h fr) ?w1" by (rule ok_INCREF [OF ok v])
  obtain e w2 where e: "err_obj (status \<noteq> 0) ?w1 = (e, w2)" by fastforce
  note E = ok_err_obj [OF o1 e]
  have k: "kind (objs w2 ! h) = KHandle c" "initialized (hs w2 h)"
    using E(2) v io by (auto simp: undisturbed_def valid_def io_handle_def)
  have v2: "valid w2 y" if "y \<in> set [h, e]" for y
    by (rule wf_valid_frame [OF okD(1) [OF E(1)]]) (use that in auto)
  have f: "valid w2 f" if "slot_of w2 h S_on_new_connection_cb = Some f" for f
    using wf_valid_slot [OF okD(1) [OF E(1)] _ that] v2 by (auto simp: valid_def)
  have "\<exists>w3. call_callback py (slot_of w2 h S_on_new_connection_cb) [h, e] (\<lambda>v. slot_of v h S_loop) w2 = Some w3 \<and>
      ok (add_mset e (add_mset h fr)) w3 \<and> undisturbed w2 w3"
    by (rule call_callback_ok [OF E(1) f v2]) (use loop_field_there [OF E(1) _ k] in auto)
  then obtain w3 where w3: "call_callback py (slot_of w2 h S_on_new_connection_cb) [h, e] (\<lambda>v. slot_of v h S_loop) w2 = Some w3"
    "ok (add_mset e (add_mset h fr)) w3" "undisturbed w2 w3" by blast
  have "ok fr (Py_DECREF h (Py_DECREF e w3))" by (rule ok_DECREF [OF ok_DECREF [OF w3(2)]])
  moreover have "undisturbed w (Py_DECREF h (Py_DECREF e w3))"
    by (rule stable_trans [OF stable_INCREF stable_trans [OF E(2) stable_trans [OF w3(3)
        stable_trans [OF stable_release stable_release]]]])
  ultimately show ?thesis using e w3(1) by (simp add: pyuv__tcp_listen_cb_def)
qed

text \<open>
  The loop fails no assertion: only it takes connections in, so that none is waiting when it
  accepts the next one.
\<close>

lemma listen_cb_none:
  assumes "ok fr w" and "io_handle h c w" and "pyuv__tcp_listen_cb py status h w = Some w'" and "u_accepted (uvh w h) = None"
  shows "u_accepted (uvh w' h) = None"
proof -
  have "undisturbed w w'" using listen_cb_ok [OF assms(1,2), of status] assms(3) by auto
  then show ?thesis
    using assms(2,4) io_handleD(2) [OF assms(1,2)] by (auto simp: undisturbed_def follows_def io_handle_def)
qed

lemma uv__server_loop_ok:
  assumes "ok fr w" and "io_handle h c w" and "u_accepted (uvh w h) = None"
  shows "\<exists>w'. uv__server_loop py as h w = Some w' \<and> ok fr w' \<and> stays h w w'"
  using assms
proof (induction as arbitrary: w)
  case Nil
  then show ?case using undisturbed_io(1) [OF Nil(1,2) stable_refl] by simp
next
  case (Cons a as)
  note ok = Cons.prems(1) and io = Cons.prems(2) and na = Cons.prems(3)
  have refl: "stays h w w" by (rule undisturbed_io(1) [OF ok io stable_refl])
  have err: "\<exists>w'. (case pyuv__tcp_listen_cb py s h w of None \<Rightarrow> None | Some w1 \<Rightarrow> uv__server_loop py as h w1) = Some w' \<and>
      ok fr w' \<and> stays h w w'" for s
  proof -
    obtain w1 where w1: "pyuv__tcp_listen_cb py s h w = Some w1" "ok fr w1" "undisturbed w w1"
      using listen_cb_ok [OF ok io] by blast
    note U = undisturbed_io [OF ok io w1(3)]
    show ?thesis
      using Cons.IH [OF w1(2) U(2) listen_cb_none [OF ok io w1(1) na]] w1(1) stays_trans [OF U(1)] by auto
  qed
  let ?w1 = "\<lambda>fd. upd_uv h (\<lambda>u. u\<lparr>u_accepted := Some fd\<rparr>) w"
  have conn: "\<exists>w'. (case pyuv__tcp_listen_cb py 0 h (?w1 fd) of None \<Rightarrow> None
      | Some w1 \<Rightarrow> if u_accepted (uvh w1 h) \<noteq> None then Some w1 else uv__server_loop py as h w1) = Some w' \<and>
      ok fr w' \<and> stays h w w'" for fd
  proof -
    have s: "stays h w (?w1 fd)" by (rule stays_upd_uv [OF ok io]) simp_all
    note o1 = ok_accepted [OF ok, of h "Some fd"] and io1 = stays_io_handle [OF s io]
    obtain w2 where w2: "pyuv__tcp_listen_cb py 0 h (?w1 fd) = Some w2" "ok fr w2" "undisturbed (?w1 fd) w2"
      using listen_cb_ok [OF o1 io1] by blast
    note U = undisturbed_io [OF o1 io1 w2(3)]
    have "stays h w w2" by (rule stays_trans [OF s U(1)])
    then show ?thesis
      using w2 Cons.IH [OF w2(2) U(2)] stays_trans [of h w w2] by (cases "u_accepted (uvh w2 h)") auto
  qed
  show ?case
    using err conn Cons.IH [OF ok io na] ok refl na by (cases a) auto
qed

lemma uv__server_io_ok:
  assumes "ok fr w" and "io_handle h c w" and "u_accepted (uvh w h) = None" and "\<not> u_closing (uvh w h)"
  shows "\<exists>w'. uv__server_io py True as h w = Some w' \<and> ok fr w' \<and> stays h w w'"
  using uv__server_loop_ok [OF assms(1-3)] assms(3,4) by (simp add: uv__server_io_def)

section \<open>Abstract connects\<close>

text \<open>The timer of an abstract connect fires: the request is over and its references are returned.\<close>

lemma abstract_connect_ok:
  assumes t: "taken r fr w" and v: "rq_views r = []" "rq_send_handle r = None"
  shows "\<exists>w'. pyuv__pipe_connect_abstract_cb py r w = Some w' \<and> ok fr w' \<and> calm w w'"
proof -
  have e: "err_obj False w = (Py_None, Py_INCREF Py_None w)" by (simp add: err_obj_def)
  from request_call [OF t e] obtain w2 where
    w2: "call_callback py (Some (rq_callback r)) [rq_obj r, Py_None] (\<lambda>v. slot_of v (rq_obj r) S_loop) (Py_INCREF Py_None w) = Some w2"
      "ok (add_mset Py_None (mset (rq_refs r) + fr)) w2" "undisturbed w w2" by blast
  have "ok (add_mset (rq_callback r) (add_mset (rq_obj r) fr)) (Py_DECREF Py_None w2)"
    using ok_DECREF [OF w2(2)] v by (simp add: rq_refs_def add_mset_commute)
  from ok_DECREF [OF ok_DECREF [OF this]] show ?thesis
    using w2(1) calm_undisturbed [OF w2(3)] by (simp add: pyuv__pipe_connect_abstract_cb_def)
qed

end

end
