(* ===== verification/Udp_Io.thy ===== *)
theory Udp_Io
  imports Stream_Done Udp_Rules
begin

text \<open>
  What the event loop does with a UDP handle (unix/udp.c): receiving, the queue of sends and the
  end of a handle that was closed, with the callbacks of src/udp.c. What \<open>recvmsg\<close> and
  \<open>sendmsg\<close> answer is an argument.
\<close>

section \<open>Receiving\<close>

text \<open>
  \<open>ASSERT (flags == 0)\<close> fails for a datagram that was cut off (\<open>partial\<close>), \<open>ASSERT (addr)\<close>
  for data without an address. The int made of the flags is passed to the call and never released.
\<close>

definition address_obj :: "sockaddr \<Rightarrow> world \<Rightarrow> oid \<times> world" where
  "address_obj a w =
     (if makesockaddr a = NoAddress then (Py_None, Py_INCREF Py_None w) else PyType_GenericNew (KObject False) w)"

definition recv_args :: "int \<Rightarrow> sockaddr option \<Rightarrow> world \<Rightarrow> (oid \<times> oid \<times> oid \<times> world) option" where
  "recv_args nread addr w =
     (if 0 \<le> nread
      then (case addr of
              None \<Rightarrow> None
            | Some a \<Rightarrow>
                let (address_tuple, w1) = address_obj a w;
                    (data, w2) = PyType_GenericNew (KObject False) w1
                in Some (address_tuple, data, Py_None, Py_INCREF Py_None w2))
      else let (py_errorno, w1) = PyInt_FromLong (Py_INCREF Py_None (Py_INCREF Py_None w))
           in Some (Py_None, Py_None, py_errorno, w1))"

definition unlock_buffer :: "oid \<Rightarrow> world \<Rightarrow> world option" where
  "unlock_buffer self w =
     (let loop = loop_of w self
      in if \<not> is_loop w loop then None
         else Some (Py_DECREF self (upd_Loop loop (\<lambda>l. l\<lparr>in_use := False\<rparr>) w)))"

definition pyuv__udp_recv_cd :: "python \<Rightarrow> int \<Rightarrow> sockaddr option \<Rightarrow> bool \<Rightarrow> oid \<Rightarrow> world \<Rightarrow> world option" where
  "pyuv__udp_recv_cd py nread addr partial self w =
     (if partial then None
      else let w1 = Py_INCREF self w
           in if nread = 0 \<and> addr = None then unlock_buffer self w1
              else case recv_args nread addr w1 of
                     None \<Rightarrow> None
                   | Some (address_tuple, data, py_errorno, w2) \<Rightarrow>
                       let (flags, w3) = PyInt_FromLong w2
                       in case call_callback py (slot_of w3 self S_on_read_cb)
                                 [self, address_tuple, flags, data, py_errorno] (\<lambda>v. slot_of v self S_loop) w3 of
                            None \<Rightarrow> None
                          | Some w4 \<Rightarrow> unlock_buffer self (release [address_tuple, data, py_errorno] w4))"

text \<open>
  The answers of \<open>recvmsg\<close>: \<open>EAGAIN\<close>, another error, or a datagram with its length, its source
  and whether it was cut off.
\<close>

datatype recvmsg_answer = UAgain | UErr nat | UData nat "sockaddr option" bool

text \<open>The loop of \<open>uv__udp_recvmsg\<close>: it runs at most 33 times, \<open>ans n\<close> with \<open>n\<close> runs left after it.\<close>

fun uv__udp_recv_loop :: "python \<Rightarrow> nat \<Rightarrow> (nat \<Rightarrow> recvmsg_answer) \<Rightarrow> oid \<Rightarrow> world \<Rightarrow> world option" where
  "uv__udp_recv_loop py 0 ans h w = Some w"
| "uv__udp_recv_loop py (Suc n) ans h w =
     (case pyuv__alloc_cb h w of
        None \<Rightarrow> None
      | Some (got, w1) \<Rightarrow>
          if \<not> got then pyuv__udp_recv_cd py UV_ENOBUFS None False h w1
          else case ans n of
                 UAgain \<Rightarrow> pyuv__udp_recv_cd py 0 None False h w1
               | UErr e \<Rightarrow> pyuv__udp_recv_cd py (- int e) None False h w1
               | UData k addr partial \<Rightarrow>
                   (case pyuv__udp_recv_cd py (int k) addr partial h w1 of
                      None \<Rightarrow> None
                    | Some w2 \<Rightarrow>
                        if u_fd (uvh w2 h) \<noteq> - 1 \<and> u_reading (uvh w2 h) then uv__udp_recv_loop py n ans h w2
                        else Some w2))"

definition uv__udp_recvmsg :: "python \<Rightarrow> (nat \<Rightarrow> recvmsg_answer) \<Rightarrow> oid \<Rightarrow> world \<Rightarrow> world option" where
  "uv__udp_recvmsg py ans h w =
     (if \<not> u_reading (uvh w h) then None else uv__udp_recv_loop py 33 ans h w)"

section \<open>Sending\<close>

definition pyuv__udp_send_cb :: "python \<Rightarrow> int \<Rightarrow> request_ctx \<Rightarrow> world \<Rightarrow> world option" where
  "pyuv__udp_send_cb py status req w =
     (case finish_req py status req w of
        None \<Rightarrow> None
      | Some w1 \<Rightarrow> Some (Py_DECREF (rq_obj req) (release (rq_views req) (Py_DECREF (rq_callback req) w1))))"

definition next_completed :: "oid \<Rightarrow> world \<Rightarrow> request_ctx option" where
  "next_completed h w = List.find (\<lambda>r. rq_type r = SendReq \<and> rq_obj r = h \<and> rq_status r \<noteq> None) (pend w)"

text \<open>
  The loop of \<open>uv__udp_run_completed\<close>, until the completed queue is empty: the callbacks may send
  again. A status of 0 or more is reported as 0. The loop may fail an assertion of a callback, or
  not end: both are \<open>None\<close>.
\<close>

partial_function (option) uv__udp_completed :: "python \<Rightarrow> oid \<Rightarrow> world \<Rightarrow> world option" where
  "uv__udp_completed py h w =
     (case next_completed h w of
        None \<Rightarrow> Some w
      | Some r \<Rightarrow>
          (let status = the (rq_status r)
           in case pyuv__udp_send_cb py (if 0 \<le> status then 0 else status) r (uv__take_req r w) of
                None \<Rightarrow> None
              | Some w1 \<Rightarrow> uv__udp_completed py h w1))"

definition uv__udp_run_completed :: "python \<Rightarrow> oid \<Rightarrow> world \<Rightarrow> world option" where
  "uv__udp_run_completed py h w =
     (if u_processing (uvh w h) then None
      else case uv__udp_completed py h (upd_uv h (\<lambda>u. u\<lparr>u_processing := True\<rparr>) w) of
             None \<Rightarrow> None
           | Some w1 \<Rightarrow>
               let w2 = (if write_queue h w1 = []
                         then let v = upd_uv h (\<lambda>u. u\<lparr>u_pollout := False\<rparr>) w1
                              in if u_reading (uvh v h) then v else uv__handle_stop h v
                         else w1)
               in Some (upd_uv h (\<lambda>u. u\<lparr>u_processing := False\<rparr>) w2))"

text \<open>\<open>pollin\<close> and \<open>pollout\<close>: what \<open>poll\<close> reports.\<close>

definition uv__udp_io ::
    "python \<Rightarrow> bool \<Rightarrow> bool \<Rightarrow> (nat \<Rightarrow> recvmsg_answer) \<Rightarrow> int list \<Rightarrow> oid \<Rightarrow> world \<Rightarrow> world option" where
  "uv__udp_io py pollin pollout ans sent h w =
     (if u_type (uvh w h) \<noteq> Some UV_UDP then None
      else case (if pollin then uv__udp_recvmsg py ans h w else Some w) of
             None \<Rightarrow> None
           | Some w1 \<Rightarrow>
               if pollout then uv__udp_run_completed py h (uv__udp_sendmsg sent h w1) else Some w1)"

section \<open>The end of a handle\<close>

definition uv__udp_finish_close :: "python \<Rightarrow> oid \<Rightarrow> world \<Rightarrow> world option" where
  "uv__udp_finish_close py h w =
     (if u_reading (uvh w h) \<or> u_pollout (uvh w h) \<or> u_fd (uvh w h) \<noteq> - 1 then None
      else case uv__udp_run_completed py h
                  (uv__udp_sendmsg (replicate (length (write_queue h w)) UV_ECANCELED) h w) of
             None \<Rightarrow> None
           | Some w1 \<Rightarrow> if pending_sends h w1 \<noteq> [] then None else Some w1)"

section \<open>The status of a send\<close>

text \<open>The invariant does not read it.\<close>

definition unsent :: "request_ctx \<Rightarrow> request_ctx" where
  "unsent r = r\<lparr>rq_status := None\<rparr>"

lemma unsent_same [simp]: "rq_refs (unsent r) = rq_refs r" "rq_type (unsent r) = rq_type r" "rq_obj (unsent r) = rq_obj r"
  "req_fits (unsent r) t = req_fits r t" "rq_callback (unsent r) = rq_callback r"
  by (simp_all add: unsent_def rq_refs_def req_fits_def)

lemma ok_status:
  assumes ok: "ok fr w" and m: "map unsent ps = map unsent (pend w)"
  shows "ok fr (w\<lparr>pend := ps\<rparr>)"
proof -
  have "map (rq_refs \<circ> unsent) ps = map (rq_refs \<circ> unsent) (pend w)" using m by (metis map_map)
  then have r: "map rq_refs ps = map rq_refs (pend w)" by (simp add: comp_def)
  have s: "unsent ` set ps = unsent ` set (pend w)" using m by (metis set_map)
  have b: "(\<exists>r \<in> set ps. P (unsent r)) = (\<exists>r \<in> set (pend w). P (unsent r))"
    "(\<forall>r \<in> set ps. P (unsent r)) = (\<forall>r \<in> set (pend w). P (unsent r))" for P
    using s by (metis (no_types, lifting) imageE imageI)+
  have h: "has_req t h (w\<lparr>pend := ps\<rparr>) = has_req t h w" for t h
    using b(1) [of "\<lambda>r. rq_type r = t \<and> rq_obj r = h"] by (simp add: has_req_def)
  have f: "(\<forall>r \<in> set ps. rq_obj r = h \<longrightarrow> A \<and> req_fits r t) = (\<forall>r \<in> set (pend w). rq_obj r = h \<longrightarrow> A \<and> req_fits r t)" for h A t
    using b(2) [of "\<lambda>r. rq_obj r = h \<longrightarrow> A \<and> req_fits r t"] by simp
  have "owned (w\<lparr>pend := ps\<rparr>) x = owned w x" for x
    by (simp add: owned_def req_refs_def self_refs_def r)
  moreover have v: "objs (w\<lparr>pend := ps\<rparr>) = objs w" "hs (w\<lparr>pend := ps\<rparr>) = hs w" "pend (w\<lparr>pend := ps\<rparr>) = ps"
    by simp_all
  moreover have "handle_ok (w\<lparr>pend := ps\<rparr>) x = handle_ok w x" for x
    unfolding handle_ok_def h by (simp only: f v is_handle_def valid_def)
  ultimately have "wf_refs fr (w\<lparr>pend := ps\<rparr>)"
    using okD(1) [OF ok] by (simp add: wf_refs_def counts_ok_def live_ok_def slots_ok_def none_ok_def)
  then show ?thesis
    using okD(2,3) [OF ok] by (auto intro!: okI uv_inv_same [OF okD(2) [OF ok]] cb_ok_cong [OF okD(3) [OF ok]])
qed

lemma unsent_complete [simp]: "map unsent (complete_send h s rs) = map unsent rs"
  by (induction rs) (auto simp: unsent_def)

lemma unsent_completes: "map unsent (fold (complete_send h) ss rs) = map unsent rs"
  by (induction ss arbitrary: rs) simp_all

lemma ok_sendmsg: "ok fr w \<Longrightarrow> ok fr (uv__udp_sendmsg ss h w)"
  unfolding uv__udp_sendmsg_def by (rule ok_status) (simp_all add: unsent_completes)

lemma calm_sendmsg [simp]: "calm w (uv__udp_sendmsg sent h w)"
  by (rule calm_same) (simp_all add: uv__udp_sendmsg_def)

lemma sendmsg_frame [simp]:
  "hs (uv__udp_sendmsg ss h w) = hs w" "objs (uv__udp_sendmsg ss h w) = objs w" "trace (uv__udp_sendmsg ss h w) = trace w"
  by (simp_all add: uv__udp_sendmsg_def)

lemma pending_unsent: "map unsent (pending_sends h w) = filter (\<lambda>r. rq_type r = SendReq \<and> rq_obj r = h) (map unsent (pend w))"
  by (simp add: pending_sends_def filter_map comp_def)

lemma pending_sendmsg: "map unsent (pending_sends h (uv__udp_sendmsg ss h' w)) = map unsent (pending_sends h w)"
  by (simp add: pending_unsent uv__udp_sendmsg_def unsent_completes)

section \<open>Receiving fails no assertion\<close>

text \<open>\<open>recvmsg\<close> gives whole datagrams, and an address with any data.\<close>

definition whole_datagram :: "recvmsg_answer \<Rightarrow> bool" where
  "whole_datagram a = (case a of UData k addr partial \<Rightarrow> \<not> partial \<and> (addr = None \<longrightarrow> k = 0) | _ \<Rightarrow> True)"

lemma recv_args_ok:
  assumes ok: "ok fr w" and r: "recv_args nread addr w = Some (a, d, e, w')"
  shows "ok (mset [a, d, e] + fr) w'" "undisturbed w w'"
proof -
  have n: "ok (add_mset Py_None fr) (Py_INCREF Py_None v)" if "ok fr v" for fr v
    by (rule ok_INCREF [OF that wf_none [OF okD(1) [OF that]]])
  have "ok (mset [a, d, e] + fr) w' \<and> undisturbed w w'"
  proof (cases "0 \<le> nread")
    case True
    then obtain ad w1 w2 where s: "addr = Some ad" "address_obj ad w = (a, w1)" "PyType_GenericNew (KObject False) w1 = (d, w2)"
      "e = Py_None" "w' = Py_INCREF Py_None w2"
      using r by (auto simp: recv_args_def split: option.splits prod.splits)
    have 1: "ok (add_mset a fr) w1" "undisturbed w w1"
      using s(2) n [OF ok] ok_GenericNew_object [OF ok] stable_INCREF
      by (auto simp: address_obj_def split: if_splits)
    note 2 = ok_GenericNew_object [OF 1(1) s(3)]
    have "ok (add_mset d (add_mset a fr)) w2" "undisturbed w1 w2" using 2 by auto
    then show ?thesis
      using n [of "add_mset d (add_mset a fr)" w2] s(4,5) stable_trans [OF stable_trans [OF 1(2)] stable_INCREF]
      by (auto simp: add_mset_commute)
  next
    case False
    then obtain w1 where s: "PyInt_FromLong (Py_INCREF Py_None (Py_INCREF Py_None w)) = (e, w')" "a = Py_None" "d = Py_None"
      using r by (auto simp: recv_args_def split: prod.splits)
    have "ok (add_mset Py_None (add_mset Py_None fr)) (Py_INCREF Py_None (Py_INCREF Py_None w))" by (intro n ok)
    from ok_PyInt_FromLong [OF this s(1)] show ?thesis
      using s(2,3) stable_trans [OF stable_trans [OF stable_INCREF stable_INCREF]] by (auto simp: add_mset_commute)
  qed
  then show "ok (mset [a, d, e] + fr) w'" "undisturbed w w'" by auto
qed

lemma unlock_ok:
  assumes ok: "ok (add_mset x fr) w" and i: "initialized (hs w x)" "\<not> u_closed (uvh w x)"
  shows "\<exists>w'. unlock_buffer x w = Some w' \<and> ok fr w' \<and> undisturbed w w'"
proof -
  obtain l where l: "u_loop (uvh w x) = Some l" "is_loop w l" using wf_loop_valid [OF okD(1) [OF ok] i] by blast
  then show ?thesis
    using ok_DECREF [OF ok_in_use [OF ok, of l False]] stable_trans [OF stable_upd_Loop stable_release]
    by (simp add: unlock_buffer_def Let_def)
qed

context python_program
begin

lemma recv_cd_ok:
  assumes ok: "ok fr w" and io: "io_handle h c w" and g: "0 < nread \<Longrightarrow> addr \<noteq> None"
  shows "\<exists>w' leak. pyuv__udp_recv_cd py nread addr False h w = Some w' \<and> ok (leak + fr) w' \<and> undisturbed w w' \<and>
    size leak \<le> 1"
proof -
  let ?w1 = "Py_INCREF h w"
  have v: "valid w h" by (rule io_handleD(1) [OF ok io])
  have o1: "ok (add_mset h fr) ?w1" by (rule ok_INCREF [OF ok v])
  have u1: "undisturbed w ?w1" by (rule stable_INCREF)
  have op: "initialized (hs v h) \<and> \<not> u_closed (uvh v h) \<and> kind (objs v ! h) = KHandle c" if "undisturbed w v" for v
    using that io \<open>valid w h\<close> by (auto simp: undisturbed_def valid_def io_handle_def)
  show ?thesis
  proof (cases "nread = 0 \<and> addr = None")
    case True
    from unlock_ok [OF o1] op [OF u1] obtain w' where "unlock_buffer h ?w1 = Some w'" "ok fr w'" "undisturbed ?w1 w'" by blast
    then show ?thesis using True stable_trans [OF u1]
      by (intro exI [of _ w'] exI [of _ "{#}"]) (auto simp: pyuv__udp_recv_cd_def)
  next
    case False
    obtain a d e w2 where r: "recv_args nread addr ?w1 = Some (a, d, e, w2)"
      using False g by (cases "recv_args nread addr ?w1") (auto simp: recv_args_def split: option.splits prod.splits if_splits)
    note R = recv_args_ok [OF o1 r]
    obtain fl w3 where fl: "PyInt_FromLong w2 = (fl, w3)" by fastforce
    note F = ok_PyInt_FromLong [OF R(1) fl]
    have u3: "undisturbed w w3" by (rule stable_trans [OF stable_trans [OF u1 R(2)] F(2)])
    have v3: "valid w3 y" if "y \<in> set [h, a, fl, d, e]" for y
      by (rule wf_valid_frame [OF okD(1) [OF F(1)]]) (use that in auto)
    have f: "valid w3 f" if "slot_of w3 h S_on_read_cb = Some f" for f
      using wf_valid_slot [OF okD(1) [OF F(1)] _ that] v3 by (auto simp: valid_def)
    have lf: "\<exists>l. slot_of v h S_loop = Some l \<and> valid v l"
      if "ok (add_mset fl (mset [a, d, e] + add_mset h fr)) v" "undisturbed w3 v" for v
      by (rule loop_field_there [OF F(1) _ _ _ that]) (use op [OF u3] in auto)
    have "\<exists>w4. call_callback py (slot_of w3 h S_on_read_cb) [h, a, fl, d, e] (\<lambda>v. slot_of v h S_loop) w3 = Some w4 \<and>
        ok (add_mset fl (mset [a, d, e] + add_mset h fr)) w4 \<and> undisturbed w3 w4"
      by (rule call_callback_ok [OF F(1) f v3 lf]) auto
    then obtain w4 where w4: "call_callback py (slot_of w3 h S_on_read_cb) [h, a, fl, d, e] (\<lambda>v. slot_of v h S_loop) w3 = Some w4"
      "ok (add_mset fl (mset [a, d, e] + add_mset h fr)) w4" "undisturbed w3 w4" by blast
    let ?w5 = "release [a, d, e] w4"
    have o5: "ok (add_mset h (add_mset fl fr)) ?w5"
      using ok_release [of "[a, d, e]" "add_mset h (add_mset fl fr)" w4] w4(2) by (simp add: add_mset_commute)
    have u5: "undisturbed w ?w5" by (rule stable_trans [OF u3 stable_trans [OF w4(3) stable_release]])
    from unlock_ok [OF o5] op [OF u5] obtain w' where
      w': "unlock_buffer h ?w5 = Some w'" "ok (add_mset fl fr) w'" "undisturbed ?w5 w'" by blast
    have "pyuv__udp_recv_cd py nread addr False h w = Some w'"
      using False r fl w4(1) w'(1) by (auto simp: pyuv__udp_recv_cd_def Let_def)
    then show ?thesis using w' stable_trans [OF u5]
      by (intro exI [of _ w'] exI [of _ "{#fl#}"]) auto
  qed
qed

lemma uv__udp_recv_loop_ok:
  assumes "ok fr w" and "io_handle h c w" and a: "\<And>n. whole_datagram (ans n)"
  shows "\<exists>w' leak. uv__udp_recv_loop py n ans h w = Some w' \<and> ok (leak + fr) w' \<and> undisturbed w w' \<and> size leak \<le> n"
  using assms(1,2)
proof (induction n arbitrary: fr w)
  case 0
  then show ?case by (intro exI [of _ w] exI [of _ "{#}"]) simp
next
  case (Suc n)
  note ok = Suc.prems(1) and io = Suc.prems(2)
  obtain got w1 where al: "pyuv__alloc_cb h w = Some (got, w1)" "ok fr w1" "hs w1 = hs w" "objs w1 = objs w"
    "undisturbed w w1" using alloc_step [OF ok io] by blast
  have io1: "io_handle h c w1" using io by (simp add: io_handle_def al)
  have cb: "\<exists>w' leak. pyuv__udp_recv_cd py k addr False h w1 = Some w' \<and> ok (leak + fr) w' \<and> undisturbed w w' \<and>
      size leak \<le> 1" if "0 < k \<Longrightarrow> addr \<noteq> None" for k addr
    using recv_cd_ok [OF al(2) io1 that] stable_trans [OF al(5)] by blast
  have one: "\<exists>w' leak. pyuv__udp_recv_cd py k None False h w1 = Some w' \<and> ok (leak + fr) w' \<and> undisturbed w w' \<and>
      size leak \<le> Suc n" if "k \<le> 0" for k
    using cb [of k None] that by fastforce
  show ?case
  proof (cases "\<exists>k addr p. ans n = UData k addr p \<and> got")
    case False
    then show ?thesis
      using al(1) one [of UV_ENOBUFS] one [of 0] one [of "- int e" for e]
      by (cases got; cases "ans n") (auto simp: UV_ENOBUFS_def)
  next
    case True
    then obtain k addr where d: "ans n = UData k addr False" "got" "addr = None \<Longrightarrow> k = 0"
      using a [of n] by (auto simp: whole_datagram_def)
    obtain w2 l1 where w2: "pyuv__udp_recv_cd py (int k) addr False h w1 = Some w2" "ok (l1 + fr) w2"
      "undisturbed w w2" "size l1 \<le> 1" using cb [of "int k" addr] d(3) by auto
    show ?thesis
    proof (cases "u_fd (uvh w2 h) \<noteq> - 1 \<and> u_reading (uvh w2 h)")
      case False
      then show ?thesis using al(1) d w2 by (intro exI [of _ w2] exI [of _ l1]) auto
    next
      case True
      obtain w' l2 where w': "uv__udp_recv_loop py n ans h w2 = Some w'" "ok (l2 + (l1 + fr)) w'" "undisturbed w2 w'"
        "size l2 \<le> n" using Suc.IH [OF w2(2) undisturbed_io(2) [OF ok io w2(3)]] by blast
      have "uv__udp_recv_loop py (Suc n) ans h w = Some w'" using al(1) d w2(1) True w'(1) by simp
      moreover have "ok ((l2 + l1) + fr) w'" using w'(2) by (simp add: ac_simps)
      moreover have "size (l2 + l1) \<le> Suc n" using w2(4) w'(4) by simp
      ultimately show ?thesis using stable_trans [OF w2(3) w'(3)] by blast
    qed
  qed
qed

section \<open>Completed sends\<close>

lemma send_cb_step:
  assumes t: "taken r fr w" and s: "rq_send_handle r = None"
  shows "\<exists>w'. pyuv__udp_send_cb py status r w = Some w' \<and> ok fr w' \<and> undisturbed w w' \<and> ran_cb r w w'"
proof -
  from finish_req_step [OF t] obtain w2 where
    w2: "finish_req py status r w = Some w2" "ok (mset (rq_refs r) + fr) w2" "undisturbed w w2" "ran_cb r w w2" by blast
  have "ok (add_mset (rq_callback r) (mset (rq_views r) + add_mset (rq_obj r) fr)) w2"
    using w2(2) s by (simp add: rq_refs_def ac_simps add_mset_commute)
  from ok_DECREF [OF ok_release [OF ok_DECREF [OF this]]] show ?thesis
    using w2 stable_trans [OF w2(3) stable_trans [OF stable_release stable_trans [OF stable_release stable_release]]]
      ran_more [OF w2(4)] by (auto simp: pyuv__udp_send_cb_def)
qed

end

lemma next_completed_hd:
  "next_completed h w = (case write_completed_queue h w of [] \<Rightarrow> None | r # _ \<Rightarrow> Some r)"
  by (simp add: next_completed_def write_completed_queue_def pending_sends_def find_hd_filter conj_ac)

lemma completedD:
  assumes "r \<in> set (write_completed_queue h w)"
  shows "r \<in> set (pend w)" "rq_type r = SendReq" "rq_obj r = h" "rq_status r \<noteq> None"
  using assms by (auto simp: write_completed_queue_def pending_sends_def)

lemma completed_take:
  assumes "write_completed_queue h w = r # rs"
  shows "write_completed_queue h (uv__take_req r w) = rs"
  using assms by (simp add: write_completed_queue_def pending_sends_def filter_remove1)

text \<open>While the completed sends are processed no other send completes: the program can only queue.\<close>

lemma completed_processing:
  assumes "undisturbed w w'" and "h < length (objs w)" and "initialized (hs w h)" and "u_processing (uvh w h)"
  shows "write_completed_queue h w' = write_completed_queue h w" "u_processing (uvh w' h)"
proof -
  obtain rs where rs: "pend w' = pend w @ rs" "\<And>r. r \<in> set rs \<Longrightarrow> rq_obj r = h \<Longrightarrow> rq_status r = None"
    using assms unfolding undisturbed_def pend_grows_def by blast
  then have "filter (\<lambda>r. rq_status r \<noteq> None) (filter (\<lambda>r. rq_type r = SendReq \<and> rq_obj r = h) rs) = []"
    by (auto simp: filter_empty_conv)
  then show "write_completed_queue h w' = write_completed_queue h w"
    using rs(1) by (simp add: write_completed_queue_def pending_sends_def)
  show "u_processing (uvh w' h)" using assms by (auto simp: undisturbed_def follows_def)
qed

lemma closing_sends:
  assumes "undisturbed w w'" and "u_closing (uvh w h)" and "h < length (objs w)"
  shows "pending_sends h w' = pending_sends h w"
  using assms by (force simp: undisturbed_def pend_grows_def pending_sends_def filter_empty_conv)

context python_program
begin

lemma uv__udp_completed_ok:
  assumes "ok fr w" and "io_handle h c w" and "u_processing (uvh w h)"
  shows "\<exists>w'. uv__udp_completed py h w = Some w' \<and> ok fr w' \<and> stays h w w' \<and> io_handle h c w' \<and>
    write_completed_queue h w' = [] \<and> (u_closing (uvh w h) \<longrightarrow> write_queue h w' = write_queue h w) \<and> prefix (trace w) (trace w') \<and>
    subseq (owed_callbacks (write_completed_queue h w)) (called_on h (new_events w w'))"
  using assms
proof (induction "length (write_completed_queue h w)" arbitrary: w)
  case 0
  have q: "write_completed_queue h w = []" using 0(1) by simp
  then have "next_completed h w = None" by (simp add: next_completed_hd)
  then show ?case using undisturbed_io(1) [OF 0(2,3) stable_refl] 0 q
    by (subst uv__udp_completed.simps) (simp add: owed_callbacks_def)
next
  case (Suc n)
  note ok = Suc.prems(1) and io = Suc.prems(2)
  obtain r rs where rs: "write_completed_queue h w = r # rs" "n = length rs"
    using Suc.hyps(2) by (cases "write_completed_queue h w") auto
  have n: "next_completed h w = Some r" by (simp add: next_completed_hd rs)
  have r: "r \<in> set (pend w)" "rq_type r = SendReq" "rq_obj r = h"
    using completedD [of r h w] rs(1) by auto
  let ?w0 = "uv__take_req r w" and ?s = "if 0 \<le> the (rq_status r) then 0 else the (rq_status r)"
  have t: "taken r fr ?w0" by (rule taken_req [OF ok r(1)]) (use r in \<open>auto simp: pointed_def\<close>)
  have "rq_send_handle r = None" using wf_req(2) [OF okD(1) [OF ok] r(1)] r(2) by (auto simp: req_fits_def)
  from send_cb_step [OF t this, of ?s] obtain w1 where
    w1: "pyuv__udp_send_cb py ?s r ?w0 = Some w1" "ok fr w1" "undisturbed ?w0 w1" "ran_cb r ?w0 w1" by blast
  note T = taken_io [OF ok io w1(3)]
  note P = completed_processing [OF w1(3), of h]
  have q1: "write_completed_queue h w1 = rs" "u_processing (uvh w1 h)"
    using P io Suc.prems(3) io_handleD(2) [OF ok io] completed_take [OF rs(1)] by (auto simp: io_handle_def)
  from Suc.hyps(1) [OF _ w1(2) T(2) q1(2)] rs(2) q1(1) obtain w' where
    w': "uv__udp_completed py h w1 = Some w'" "ok fr w'" "stays h w1 w'" "io_handle h c w'"
      "write_completed_queue h w' = []" "u_closing (uvh w1 h) \<longrightarrow> write_queue h w' = write_queue h w1"
      "prefix (trace w1) (trace w')" "subseq (owed_callbacks rs) (called_on h (new_events w1 w'))" by auto
  have pre: "prefix (trace w) (trace w1)" using undisturbed_trace [OF w1(3)] by simp
  have nw: "new_events ?w0 w1 = new_events w w1" by (simp add: new_events_def)
  have "subseq (owed_callbacks (r # rs)) (called_on h (new_events w w1) @ called_on h (new_events w1 w'))"
  proof (cases "rq_callback r = Py_None")
    case True
    then show ?thesis using w'(8) by (simp add: owed_callbacks_def list_emb_append2)
  next
    case False
    have "subseq ([rq_callback r] @ owed_callbacks rs)
        (called_on h (new_events w w1) @ called_on h (new_events w1 w'))"
      using ran_called_on [OF w1(4) False] r w'(8) nw by (intro list_emb_append_mono) auto
    then show ?thesis using False by (simp add: owed_callbacks_def)
  qed
  moreover have "uv__udp_completed py h w = Some w'"
    using n w1(1) w'(1) by (subst uv__udp_completed.simps) (simp add: Let_def)
  moreover have "write_queue h w' = write_queue h w" if cl: "u_closing (uvh w h)"
  proof -
    have "write_queue h w1 = write_queue h ?w0"
      using closing_sends [OF w1(3)] cl io_handleD(2) [OF ok io] by (simp add: write_queue_def)
    also have "\<dots> = write_queue h w"
      using completedD(4) [of r h w] rs(1) by (simp add: write_queue_def pending_sends_def filter_remove1 remove1_idem)
    finally show ?thesis using w'(6) T(1) cl by (simp add: stays_def)
  qed
  ultimately show ?case
    using w' rs stays_trans [OF T(1) w'(3)] prefix_order.trans [OF pre w'(7)]
    by (simp add: new_events_trans [OF pre w'(7)] called_on_append)
qed

text \<open>
  All completed sends are processed, in their order, each with its callback; the guard against
  recursion is gone at the end, so that the next event can process again.
\<close>

lemma stays_processed:
  assumes "stays h (upd_uv h (\<lambda>u. u\<lparr>u_processing := True\<rparr>) w) w'" and "\<not> u_processing (uvh w' h)"
  shows "stays h w w'"
proof -
  have "calm w w'" using assms by (auto simp: stays_def calm_def upd_uv_def split: if_splits)
  then show ?thesis using assms(1) by (simp add: stays_def upd_uv_def fd_follows_def)
qed

lemma uv__udp_run_completed_ok:
  assumes ok: "ok fr w" and io: "io_handle h UDPC w" and np: "\<not> u_processing (uvh w h)"
  shows "\<exists>w'. uv__udp_run_completed py h w = Some w' \<and> ok fr w' \<and> stays h w w' \<and> io_handle h UDPC w' \<and>
    write_completed_queue h w' = [] \<and> \<not> u_processing (uvh w' h) \<and>
    (u_closing (uvh w h) \<longrightarrow> write_queue h w' = write_queue h w) \<and> prefix (trace w) (trace w') \<and>
    subseq (owed_callbacks (write_completed_queue h w)) (called_on h (new_events w w'))"
proof -
  let ?f = "\<lambda>b u. u\<lparr>u_processing := b\<rparr>" let ?w0 = "upd_uv h (?f True) w"
  have o0: "ok fr ?w0" by (rule ok_upd_uv [OF ok]; simp)
  have i0: "io_handle h UDPC ?w0" using io by (simp add: io_handle_def upd_uv_def)
  have q0: "write_completed_queue h ?w0 = write_completed_queue h w" "write_queue h ?w0 = write_queue h w" "trace ?w0 = trace w" "u_processing (uvh ?w0 h)"
    by (simp_all add: write_completed_queue_def write_queue_def pending_sends_def upd_uv_def)
  from uv__udp_completed_ok [OF o0 i0 q0(4)] obtain w1 where
    w1: "uv__udp_completed py h ?w0 = Some w1" "ok fr w1" "stays h ?w0 w1" "io_handle h UDPC w1"
      "write_completed_queue h w1 = []" "prefix (trace w) (trace w1)"
      "subseq (owed_callbacks (write_completed_queue h w)) (called_on h (new_events ?w0 w1))"
      "u_closing (uvh ?w0 h) \<longrightarrow> write_queue h w1 = write_queue h w"
    using q0 by auto
  let ?v = "upd_uv h (\<lambda>u. u\<lparr>u_pollout := False\<rparr>) w1"
  define w2 where "w2 = (if write_queue h w1 = [] then if u_reading (uvh ?v h) then ?v else uv__handle_stop h ?v else w1)"
  have sv: "stays h w1 ?v" and ov: "ok fr ?v"
    by (rule stays_upd_uv [OF w1(2,4)]; simp) (rule ok_fields(4) [OF w1(2)])
  note iov = stays_io_handle [OF sv w1(4)]
  have os: "ok fr (uv__handle_stop h ?v)"
    by (rule udp_active(2) [OF ov io_handleD(1) [OF ov iov]]) (use iov in \<open>auto simp: io_handle_def\<close>)
  have ss: "stays h ?v (uv__handle_stop h ?v)"
    using undisturbed_io(1) [OF ov iov stable_refl] calm_undisturbed [OF stable_quiet [OF uv_quiet_flags(2) [OF uv_quiet_refl]], of ?v h]
    unfolding stays_def
    by (simp add: uv__handle_stop_def uv__active_handle_rm_def Let_def upd_uv_def upd_uvl_def)
  have w2: "ok fr w2" "stays h w1 w2" "pend w2 = pend w1" "trace w2 = trace w1"
    using w1(2) os ov sv stays_trans [OF sv ss] undisturbed_io(1) [OF w1(2,4) stable_refl]
    by (auto simp: w2_def uv__handle_stop_def uv__active_handle_rm_def Let_def uv_defs)
  note io2 = stays_io_handle [OF w2(2) w1(4)]
  let ?w' = "upd_uv h (?f False) w2"
  have s3: "stays h w2 ?w'" and o3: "ok fr ?w'"
    by (rule stays_upd_uv [OF w2(1) io2]; simp) (rule ok_upd_uv [OF w2(1)]; simp)
  have "uv__udp_run_completed py h w = Some ?w'"
    using np w1(1) by (simp add: uv__udp_run_completed_def w2_def Let_def)
  moreover have "stays h ?w0 ?w'"
    by (rule stays_trans [OF w1(3) stays_trans [OF w2(2) s3]])
  then have "stays h w ?w'" by (rule stays_processed) (simp add: upd_uv_def)
  moreover have "write_completed_queue h ?w' = []" "\<not> u_processing (uvh ?w' h)" "trace ?w' = trace w1"
    "u_closing (uvh w h) \<longrightarrow> write_queue h ?w' = write_queue h w"
    using w1(5,8) w2(3,4) by (simp_all add: write_completed_queue_def write_queue_def pending_sends_def uv_defs)
  moreover from this have "new_events w ?w' = new_events ?w0 w1" by (simp add: new_events_def uv_defs)
  ultimately show ?thesis
    using o3 w1(6,7) stays_io_handle [OF s3 io2] by auto
qed

text \<open>
  An event of a UDP handle fails no assertion as long as the kernel gives whole datagrams with
  their source, and reports only what the handle waits for. At most one object leaks for each of
  the 33 runs: the flags.
\<close>

lemma uv__udp_recv_loop_processing:
  assumes ok: "ok fr w" and io: "io_handle h c w" and u: "undisturbed w w'" and np: "\<not> u_processing (uvh w h)"
  shows "\<not> u_processing (uvh w' h)"
  using u io np io_handleD(2) [OF ok io] by (auto simp: undisturbed_def follows_def io_handle_def)

lemma uv__udp_io_ok:
  assumes ok: "ok fr w" and io: "io_handle h UDPC w" and np: "\<not> u_processing (uvh w h)"
    and rd: "pollin \<Longrightarrow> u_reading (uvh w h)" and a: "\<And>n. whole_datagram (ans n)"
  shows "\<exists>w' leak. uv__udp_io py pollin pollout ans sent h w = Some w' \<and> ok (leak + fr) w' \<and> stays h w w' \<and>
    size leak \<le> 33"
proof -
  have t: "u_type (uvh w h) = Some UV_UDP" using io_handleD(3) [OF ok io] by simp
  have "\<exists>w1 leak. (if pollin then uv__udp_recvmsg py ans h w else Some w) = Some w1 \<and> ok (leak + fr) w1 \<and>
      undisturbed w w1 \<and> size leak \<le> 33"
  proof (cases pollin)
    case True
    then show ?thesis using uv__udp_recv_loop_ok [OF ok io a, where n = 33] rd by (simp add: uv__udp_recvmsg_def)
  next
    case False
    then show ?thesis using ok by (intro exI [of _ w] exI [of _ "{#}"]) simp
  qed
  then obtain w1 leak where
    w1: "(if pollin then uv__udp_recvmsg py ans h w else Some w) = Some w1" "ok (leak + fr) w1" "undisturbed w w1"
      "size leak \<le> 33" by blast
  note U = undisturbed_io [OF ok io w1(3)]
  let ?w2 = "uv__udp_sendmsg sent h w1"
  have o2: "ok (leak + fr) ?w2" by (rule ok_sendmsg [OF w1(2)])
  have s2: "stays h w1 ?w2" and np2: "\<not> u_processing (uvh ?w2 h)"
    using undisturbed_io(1) [OF w1(2) U(2) stable_refl] uv__udp_recv_loop_processing [OF ok io w1(3) np]
    by (simp_all add: stays_def)
  from uv__udp_run_completed_ok [OF o2 stays_io_handle [OF s2 U(2)] np2] obtain w3 where
    w3: "uv__udp_run_completed py h ?w2 = Some w3" "ok (leak + fr) w3" "stays h ?w2 w3" by blast
  have "stays h w w3" by (rule stays_trans [OF stays_trans [OF U(1) s2] w3(3)])
  then show ?thesis
    using t w1 w3(1,2) U(1) by (intro exI [of _ "if pollout then w3 else w1"] exI [of _ leak]) (simp add: uv__udp_io_def)
qed

text \<open>
  A closed handle: every send that was still queued is over after the end of the handle, with its
  callback called, in the order of the queue.
\<close>

lemma completed_all:
  assumes "length ss = length (filter P rs)"
    and P: "\<And>r. P r \<longleftrightarrow> rq_type r = SendReq \<and> rq_obj r = h \<and> rq_status r = None"
  shows "filter P (fold (complete_send h) ss rs) = []"
proof -
  have one: "map unsent (filter P (complete_send h s rs)) = tl (map unsent (filter P rs))" for s rs
    by (induction rs) (auto simp: P)
  have "length (filter P (complete_send h s rs)) = length (filter P rs) - 1" for s rs
    using arg_cong [OF one [of s rs], of length] by simp
  then show ?thesis using assms(1) by (induction ss arbitrary: rs) auto
qed

lemma write_queue_cancelled:
  "write_queue h (uv__udp_sendmsg (replicate (length (write_queue h w)) s) h w) = []"
  using completed_all [of "replicate (length (write_queue h w)) s" "\<lambda>r. rq_type r = SendReq \<and> rq_obj r = h \<and> rq_status r = None"
      "pend w" h]
  by (simp add: write_queue_def pending_sends_def uv__udp_sendmsg_def conj_ac)

lemma pending_completed: "write_queue h w = [] \<Longrightarrow> write_completed_queue h w = pending_sends h w"
  by (auto simp: write_queue_def write_completed_queue_def filter_empty_conv filter_id_conv)

lemma owed_unsent: "map unsent rs = map unsent rs' \<Longrightarrow> owed_callbacks rs = owed_callbacks rs'"
proof -
  have "map rq_callback rs = map rq_callback (map unsent rs)" for rs by simp
  then show "map unsent rs = map unsent rs' \<Longrightarrow> owed_callbacks rs = owed_callbacks rs'"
    unfolding owed_callbacks_def by metis
qed

lemma uv__udp_finish_close_ok:
  assumes ok: "ok fr w" and io: "io_handle h UDPC w" and cl: "u_closing (uvh w h)"
    and g: "\<not> u_pollout (uvh w h)" "u_fd (uvh w h) = - 1" "\<not> u_processing (uvh w h)"
  shows "\<exists>w'. uv__udp_finish_close py h w = Some w' \<and> ok fr w' \<and> stays h w w' \<and> io_handle h UDPC w' \<and>
    pending_sends h w' = [] \<and> subseq (owed_callbacks (pending_sends h w)) (called_on h (new_events w w'))"
proof -
  have nr: "\<not> u_reading (uvh w h)"
    using okD(3) [OF ok, of h] io cl io_handleD(1) [OF ok io]
    by (auto simp: cb_ok_def field_ok_def io_handle_def valid_def reads_class_def)
  let ?w1 = "uv__udp_sendmsg (replicate (length (write_queue h w)) UV_ECANCELED) h w"
  note o1 = ok_sendmsg [OF ok, of "replicate (length (write_queue h w)) UV_ECANCELED" h]
  have s1: "stays h w ?w1" using undisturbed_io(1) [OF ok io stable_refl] by (simp add: stays_def)
  note wq = write_queue_cancelled [of h w UV_ECANCELED]
  have np: "\<not> u_processing (uvh ?w1 h)" and cl1: "u_closing (uvh ?w1 h)" using g(3) cl by simp_all
  from uv__udp_run_completed_ok [OF o1 stays_io_handle [OF s1 io] np] cl1 wq obtain w2 where
    w2: "uv__udp_run_completed py h ?w1 = Some w2" "ok fr w2" "stays h ?w1 w2" "io_handle h UDPC w2"
      "write_completed_queue h w2 = []" "write_queue h w2 = []"
      "subseq (owed_callbacks (write_completed_queue h ?w1)) (called_on h (new_events ?w1 w2))" by auto
  have p: "pending_sends h w2 = []" using pending_completed [OF w2(6)] w2(5) by simp
  have "owed_callbacks (write_completed_queue h ?w1) = owed_callbacks (pending_sends h w)"
    unfolding pending_completed [OF wq] by (rule owed_unsent [OF pending_sendmsg])
  moreover have "new_events ?w1 w2 = new_events w w2" by (simp add: new_events_def)
  ultimately show ?thesis
    using w2 g nr p stays_trans [OF s1 w2(3)] by (simp add: uv__udp_finish_close_def)
qed

end

end
