(* ===== verification/Event_Loop.thy ===== *)
theory Event_Loop
  imports Server Udp_Io Fs_Handles
begin

text \<open>
  \<open>uv_run\<close> and the phases of a turn: \<open>uv__run_timers\<close> (unix/timer.c), \<open>uv__run_idle\<close>,
  \<open>uv__run_prepare\<close>, \<open>uv__run_check\<close> (unix/loop-watcher.c), \<open>uv__run_closing_handles\<close> and
  \<open>uv__finish_close\<close> (unix/core.c). What the operating system answers is an argument: the time
  at each \<open>uv__update_time\<close>, and the events of each \<open>uv__io_poll\<close> as a function of its timeout.
\<close>

section \<open>Outcomes\<close>

text \<open>
  A failed \<open>assert\<close> names the handle it is about and the state in which the call that failed
  began. \<open>Runs_on\<close>: the bound is used up, or the operating system has not answered further.
\<close>

datatype 'a outcome = Returns 'a | Aborts oid world | Runs_on

fun and_then :: "'a outcome \<Rightarrow> ('a \<Rightarrow> 'b outcome) \<Rightarrow> 'b outcome" where
  "and_then (Returns a) f = f a"
| "and_then (Aborts h w) f = Aborts h w"
| "and_then Runs_on f = Runs_on"

definition attempt :: "oid \<Rightarrow> world \<Rightarrow> world option \<Rightarrow> world outcome" where
  "attempt h w r = (case r of None \<Rightarrow> Aborts h w | Some w' \<Rightarrow> Returns w')"

section \<open>Timers\<close>

text \<open>
  The loop of \<open>uv__run_timers\<close>, at most \<open>n\<close> times: a callback that starts timers that are due
  at once keeps it busy for ever.
\<close>

fun uv__run_timers :: "python \<Rightarrow> nat \<Rightarrow> oid \<Rightarrow> world \<Rightarrow> world outcome" where
  "uv__run_timers py 0 l w = Runs_on"
| "uv__run_timers py (Suc n) l w =
     (case earliest_timer w (timer_heap (uvl w l)) of
        None \<Rightarrow> Returns w
      | Some h \<Rightarrow>
          if uv_time (uvl w l) < u_timeout (uvh w h) then Returns w
          else and_then (attempt h w (pyuv__timer_cb py h (snd (uv_timer_again h (uv_timer_stop h w)))))
                 (uv__run_timers py n l))"

section \<open>Idle, prepare and check watchers\<close>

text \<open>
  \<open>QUEUE_MOVE\<close> into the local queue, and the step that puts its first handle back at the end of
  the queue of the loop.
\<close>

definition queue_move :: "uv_handle_type \<Rightarrow> (uv_loop \<Rightarrow> oid list) \<Rightarrow> queue_field \<Rightarrow> oid \<Rightarrow> world \<Rightarrow> world" where
  "queue_move t handles field l w =
     upd_uvl l (\<lambda>lp. field (\<lambda>_. []) (lp\<lparr>moved := (moved lp)(t := handles lp)\<rparr>)) w"

definition requeue :: "uv_handle_type \<Rightarrow> queue_field \<Rightarrow> oid \<Rightarrow> oid \<Rightarrow> world \<Rightarrow> world" where
  "requeue t field l h w =
     upd_uvl l (\<lambda>lp. field (\<lambda>q. q @ [h]) (lp\<lparr>moved := (moved lp)(t := tl (moved lp t))\<rparr>)) w"

text \<open>
  The loop over the local queue, which only shrinks: a callback may stop handles that wait in it
  but adds none. The length at the start bounds it.
\<close>

fun run_moved :: "(oid \<Rightarrow> world \<Rightarrow> world option) \<Rightarrow> uv_handle_type \<Rightarrow> queue_field \<Rightarrow> nat \<Rightarrow> oid \<Rightarrow> world
    \<Rightarrow> world outcome" where
  "run_moved cb t field 0 l w = (if moved (uvl w l) t = [] then Returns w else Runs_on)"
| "run_moved cb t field (Suc n) l w =
     (case moved (uvl w l) t of
        [] \<Rightarrow> Returns w
      | h # q \<Rightarrow> and_then (attempt h w (cb h (requeue t field l h w))) (run_moved cb t field n l))"

definition uv__run_idle :: "python \<Rightarrow> oid \<Rightarrow> world \<Rightarrow> world outcome" where
  "uv__run_idle py l w =
     run_moved (pyuv__idle_cb py) UV_IDLE idle_handles_update (length (idle_handles (uvl w l))) l
       (queue_move UV_IDLE idle_handles idle_handles_update l w)"

definition uv__run_prepare :: "python \<Rightarrow> oid \<Rightarrow> world \<Rightarrow> world outcome" where
  "uv__run_prepare py l w =
     run_moved (pyuv__prepare_cb py) UV_PREPARE prepare_handles_update (length (prepare_handles (uvl w l))) l
       (queue_move UV_PREPARE prepare_handles prepare_handles_update l w)"

definition uv__run_check :: "python \<Rightarrow> oid \<Rightarrow> world \<Rightarrow> world outcome" where
  "uv__run_check py l w =
     run_moved (pyuv__check_cb py) UV_CHECK check_handles_update (length (check_handles (uvl w l))) l
       (queue_move UV_CHECK check_handles check_handles_update l w)"

section \<open>Closing handles\<close>

text \<open>
  \<open>uv__finish_close\<close> of core.c with the callbacks it makes. The flag \<open>UV_CLOSED\<close> is set before the
  requests are cancelled in the code and after that here: meanwhile only \<open>uv__is_closing\<close> reads
  it, for which \<open>UV_CLOSING\<close> is enough.
\<close>

definition close_type :: "python \<Rightarrow> oid \<Rightarrow> world \<Rightarrow> world option" where
  "close_type py h w =
     (case u_type (uvh w h) of
        None \<Rightarrow> None
      | Some t \<Rightarrow>
          if t \<in> {UV_NAMED_PIPE, UV_TCP, UV_TTY} then uv__stream_destroy py h w
          else if t = UV_UDP then uv__udp_finish_close py h w
          else Some w)"

definition finish_handle :: "python \<Rightarrow> oid \<Rightarrow> oid \<Rightarrow> world \<Rightarrow> world option" where
  "finish_handle py l h w =
     (if \<not> u_closing (uvh w h) \<or> u_closed (uvh w h) then None
      else case close_type py h w of
             None \<Rightarrow> None
           | Some w1 \<Rightarrow>
               let w2 = uv__finish_close h (pop_closing l h w1)
               in case u_close_cb (uvh w2 h) of
                    None \<Rightarrow> Some w2
                  | Some cb \<Rightarrow> run_close_cb py cb h w2)"

fun finish_all :: "python \<Rightarrow> oid \<Rightarrow> oid list \<Rightarrow> world \<Rightarrow> world outcome" where
  "finish_all py l [] w = Returns w"
| "finish_all py l (h # rest) w = and_then (attempt h w (finish_handle py l h w)) (finish_all py l rest)"

definition detach_closing :: "oid \<Rightarrow> world \<Rightarrow> world" where
  "detach_closing l w = upd_uvl l (\<lambda>lp. lp\<lparr>finishing := closing_handles lp, closing_handles := []\<rparr>) w"

definition uv__run_closing_handles :: "python \<Rightarrow> oid \<Rightarrow> world \<Rightarrow> world outcome" where
  "uv__run_closing_handles py l w = finish_all py l (closing_handles (uvl w l)) (detach_closing l w)"

section \<open>Input and output\<close>

text \<open>
  What \<open>uv__io_poll\<close> reports, one event for one handle: it wakes an async handle, the handler of
  a signal ran, a message of the signal pipe is read, a poll handle, a stream, a listening stream
  or a UDP handle is ready, a file or a path has changed (with the poll context that saw it), and
  the timer of an abstract connect fires.
\<close>

datatype io_event =
    AsyncEv oid
  | CaughtEv oid
  | SignalEv int oid
  | PollEv bool oid
  | StreamEv stream_event oid
  | ServerEv bool "accept_answer list" oid
  | UdpEv bool bool "nat \<Rightarrow> recvmsg_answer" "int list" oid
  | FSEventEv filename int oid
  | FSPollEv bool bool "int option" "oid option"
  | AbstractEv request_ctx

definition watched :: "oid \<Rightarrow> oid \<Rightarrow> world \<Rightarrow> bool" where
  "watched l h w \<longleftrightarrow> u_loop (uvh w h) = Some l \<and> \<not> u_closing (uvh w h) \<and> \<not> u_closed (uvh w h)"

text \<open>
  An event reaches a handle only while libuv watches it: stopping or closing it in an earlier
  callback withdraws the event (\<open>uv__platform_invalidate_fd\<close>). \<open>SignalChecker\<close> handles are left
  out; \<open>pyuv__check_signals\<close> drops a reference that it never took.
\<close>

definition uv__io_event :: "python \<Rightarrow> oid \<Rightarrow> io_event \<Rightarrow> world \<Rightarrow> world outcome" where
  "uv__io_event py l e w =
     (case e of
        AsyncEv h \<Rightarrow>
          if watched l h w \<and> u_type (uvh w h) = Some UV_ASYNC then attempt h w (uv__async_dispatch py h w)
          else Returns w
      | CaughtEv h \<Rightarrow>
          if watched l h w \<and> u_type (uvh w h) = Some UV_SIGNAL \<and> u_active (uvh w h)
          then Returns (uv__signal_caught h w) else Returns w
      | SignalEv sig h \<Rightarrow>
          if u_loop (uvh w h) = Some l \<and> \<not> u_closed (uvh w h) \<and> u_type (uvh w h) = Some UV_SIGNAL \<and> sig \<noteq> 0
             \<and> u_dispatched (uvh w h) < u_caught (uvh w h)
          then attempt h w (uv__signal_dispatch py sig h w) else Returns w
      | PollEv err h \<Rightarrow>
          if watched l h w \<and> kind (objs w ! h) = KHandle PollC \<and> u_active (uvh w h)
          then attempt h w (uv__poll_io py err h w) else Returns w
      | StreamEv ev h \<Rightarrow>
          if watched l h w \<and> u_type (uvh w h) \<in> {Some UV_TCP, Some UV_NAMED_PIPE, Some UV_TTY}
             \<and> \<not> u_listening (uvh w h)
             \<and> (0 \<le> u_fd (uvh w h) \<or> u_connect (uvh w h) \<and> u_delayed (uvh w h) \<noteq> 0)
          then attempt h w (uv__stream_io py ev h w) else Returns w
      | ServerEv pollin as h \<Rightarrow>
          if watched l h w \<and> u_type (uvh w h) \<in> {Some UV_TCP, Some UV_NAMED_PIPE} \<and> u_listening (uvh w h)
          then attempt h w (uv__server_io py pollin as h w) else Returns w
      | UdpEv pollin pollout ans sent h \<Rightarrow>
          if watched l h w \<and> u_type (uvh w h) = Some UV_UDP
          then attempt h w (uv__udp_io py (pollin \<and> u_reading (uvh w h)) (pollout \<and> u_pollout (uvh w h)) ans sent h w)
          else Returns w
      | FSEventEv f status h \<Rightarrow>
          if watched l h w \<and> u_type (uvh w h) = Some UV_FS_EVENT \<and> u_active (uvh w h)
          then attempt h w (pyuv__fsevent_cb py f status h w) else Returns w
      | FSPollEv mp mc report parent \<Rightarrow>
          (case parent of
             None \<Rightarrow> attempt l w (uv__fs_poll_cb py mp mc None report l w)
           | Some h \<Rightarrow>
               if watched l h w \<and> u_type (uvh w h) = Some UV_FS_POLL \<and> u_active (uvh w h)
               then attempt h w (uv__fs_poll_cb py mp mc (Some h) report l w) else Returns w)
      | AbstractEv r \<Rightarrow>
          if r \<in> set (pend w) \<and> rq_type r = AbstractReq
          then attempt (rq_obj r) w (pyuv__pipe_connect_abstract_cb py r (uv__take_req r w)) else Returns w)"

fun uv__io_events :: "python \<Rightarrow> oid \<Rightarrow> io_event list \<Rightarrow> world \<Rightarrow> world outcome" where
  "uv__io_events py l [] w = Returns w"
| "uv__io_events py l (e # es) w = and_then (uv__io_event py l e w) (uv__io_events py l es)"

section \<open>Turns\<close>

text \<open>
  What the operating system answers in one turn: the time, the watchers that were fed to the
  pending queue, what \<open>epoll_wait\<close> reports for a timeout and the time after it, and the time at
  the end of the turn.
\<close>

record os_turn =
  os_time :: "64 word"
  os_pending :: "io_event list"
  os_poll :: "int \<Rightarrow> 64 word \<times> io_event list"
  os_after :: "64 word"

definition uv__update_time :: "64 word \<Rightarrow> oid \<Rightarrow> world \<Rightarrow> world" where
  "uv__update_time now l w = upd_uvl l (\<lambda>lp. lp\<lparr>uv_time := now\<rparr>) w"

definition uv__io_poll :: "python \<Rightarrow> (int \<Rightarrow> 64 word \<times> io_event list) \<Rightarrow> int \<Rightarrow> oid \<Rightarrow> world \<Rightarrow> world outcome" where
  "uv__io_poll py poll timeout l w =
     (let (now, events) = poll timeout in uv__io_events py l events (uv__update_time now l w))"

text \<open>\<open>UV_RUN_DEFAULT\<close>, \<open>UV_RUN_ONCE\<close> and \<open>UV_RUN_NOWAIT\<close> are 0, 1 and 2.\<close>

definition poll_timeout :: "int \<Rightarrow> bool \<Rightarrow> oid \<Rightarrow> world \<Rightarrow> int" where
  "poll_timeout mode ran_pending l w =
     (if mode = 1 \<and> \<not> ran_pending \<or> mode = 0 then uv_backend_timeout l w else 0)"

definition uv__turn :: "python \<Rightarrow> int \<Rightarrow> nat \<Rightarrow> os_turn \<Rightarrow> oid \<Rightarrow> world \<Rightarrow> world outcome" where
  "uv__turn py mode fuel os l w =
     and_then (uv__run_timers py fuel l (uv__update_time (os_time os) l w)) (\<lambda>w1.
     and_then (uv__io_events py l (os_pending os) w1) (\<lambda>w2.
     and_then (uv__run_idle py l w2) (\<lambda>w3.
     and_then (uv__run_prepare py l w3) (\<lambda>w4.
     and_then (uv__io_poll py (os_poll os) (poll_timeout mode (os_pending os \<noteq> []) l w4) l w4) (\<lambda>w5.
     and_then (uv__run_check py l w5) (\<lambda>w6.
     and_then (uv__run_closing_handles py l w6) (\<lambda>w7.
       if mode = 1 then uv__run_timers py fuel l (uv__update_time (os_after os) l w7) else Returns w7)))))))"

text \<open>The loop of \<open>uv_run\<close>, one answer of the operating system for each turn.\<close>

fun uv__turns :: "python \<Rightarrow> int \<Rightarrow> nat \<Rightarrow> os_turn list \<Rightarrow> oid \<Rightarrow> world \<Rightarrow> world outcome" where
  "uv__turns py mode fuel [] l w =
     (if uv__loop_alive l w \<and> \<not> stop_flag (uvl w l) then Runs_on else Returns w)"
| "uv__turns py mode fuel (os # oss) l w =
     (if uv__loop_alive l w \<and> \<not> stop_flag (uvl w l)
      then and_then (uv__turn py mode fuel os l w)
             (\<lambda>w1. if mode = 1 \<or> mode = 2 then Returns w1 else uv__turns py mode fuel oss l w1)
      else Returns w)"

definition uv_run :: "python \<Rightarrow> nat \<Rightarrow> 64 word \<Rightarrow> os_turn list \<Rightarrow> int \<Rightarrow> oid \<Rightarrow> world \<Rightarrow> (bool \<times> world) outcome" where
  "uv_run py fuel now oss mode l w =
     (let w0 = (if uv__loop_alive l w then w else uv__update_time now l w)
      in and_then (uv__turns py mode fuel oss l w0)
           (\<lambda>w1. Returns (uv__loop_alive l w1, upd_uvl l (\<lambda>lp. lp\<lparr>stop_flag := False\<rparr>) w1)))"

section \<open>What every phase keeps\<close>

text \<open>Between the phases no local queue is in use, and no handle processes its sends.\<close>

definition settled :: "oid \<Rightarrow> world \<Rightarrow> bool" where
  "settled l w \<longleftrightarrow> l < length (objs w) \<and> (\<forall>t. moved (uvl w l) t = []) \<and> finishing (uvl w l) = [] \<and>
     (\<forall>x. \<not> u_processing (uvh w x))"

lemma calm_moved:
  assumes "calm w w'" and "l < length (objs w)"
  shows "l < length (objs w')" "length (moved (uvl w' l) t) \<le> length (moved (uvl w l) t)"
    "finishing (uvl w' l) = finishing (uvl w l)"
  using assms by (auto simp: calm_def same_local_def)

lemma settled_calm: "settled l w \<Longrightarrow> calm w w' \<Longrightarrow> settled l w'"
  by (auto simp: settled_def calm_def same_local_def)

text \<open>
  The assertions that can fail. A UDP handle that was given a descriptor while it was closing
  (\<open>Pipe.accept\<close> does not check) fails those of \<open>uv__udp_finish_close\<close>. A listening stream that
  is listened to again before its connection was accepted, or whose watcher was fed by a connect
  or a write, fails those of \<open>uv__server_io\<close>.
\<close>

definition doomed :: "oid \<Rightarrow> world \<Rightarrow> bool" where
  "doomed h w \<longleftrightarrow>
     u_type (uvh w h) = Some UV_UDP \<and> u_closing (uvh w h) \<and> (u_pollout (uvh w h) \<or> u_fd (uvh w h) \<noteq> - 1) \<or>
     u_listening (uvh w h) \<and> \<not> u_closing (uvh w h)"

definition good :: "oid \<Rightarrow> oid multiset \<Rightarrow> world outcome \<Rightarrow> bool" where
  "good l fr r \<longleftrightarrow>
     (case r of
        Returns w \<Rightarrow> (\<exists>fr'. fr \<subseteq># fr' \<and> ok fr' w) \<and> settled l w
      | Aborts h w \<Rightarrow> doomed h w
      | Runs_on \<Rightarrow> True)"

lemma good_simps [simp]:
  "good l fr (Returns w) \<longleftrightarrow> (\<exists>fr'. fr \<subseteq># fr' \<and> ok fr' w) \<and> settled l w"
  "good l fr (Aborts h w) = doomed h w" "good l fr Runs_on"
  by (simp_all add: good_def)

lemma good_then:
  assumes "good l fr r" and "\<And>fr' w. fr \<subseteq># fr' \<Longrightarrow> ok fr' w \<Longrightarrow> settled l w \<Longrightarrow> good l fr' (f w)"
  shows "good l fr (and_then r f)"
proof (cases r)
  case (Returns w)
  then obtain fr' where w: "fr \<subseteq># fr'" "ok fr' w" "settled l w" using assms(1) by auto
  from assms(2) [OF this] show ?thesis
    using w(1) Returns by (auto simp: good_def split: outcome.splits intro: subset_mset.trans)
qed (use assms(1) in simp_all)

lemma good_attempt:
  assumes "settled l w" and "\<exists>w' leak. r = Some w' \<and> ok (leak + fr) w' \<and> calm w w'"
  shows "good l fr (attempt h w r)"
proof -
  obtain w' leak where w': "r = Some w'" "ok (leak + fr) w'" "calm w w'" using assms(2) by blast
  have "\<exists>fr'. fr \<subseteq># fr' \<and> ok fr' w'" by (intro exI [of _ "leak + fr"]) (simp add: w'(2))
  then show ?thesis using w'(1) settled_calm [OF assms(1) w'(3)] by (simp add: attempt_def)
qed

lemma good_attempt_same:
  assumes "settled l w" and "\<exists>w'. r = Some w' \<and> ok fr w' \<and> calm w w'"
  shows "good l fr (attempt h w r)"
proof (rule good_attempt [OF assms(1)])
  obtain w' where "r = Some w'" "ok ({#} + fr) w'" "calm w w'" using assms(2) by auto
  then show "\<exists>w' leak. r = Some w' \<and> ok (leak + fr) w' \<and> calm w w'" by blast
qed

text \<open>A handle that a loop knows is live and has its class.\<close>

lemma known_handle:
  assumes ok: "ok fr w" and l: "u_loop (uvh w h) = Some l" and nc: "\<not> u_closed (uvh w h)"
  obtains c where "valid w h" "kind (objs w ! h) = KHandle c" "initialized (hs w h)"
    "u_type (uvh w h) = Some (uv_type_of c)" "io_handle h c w"
proof -
  have "handle_ok w h" by (rule wf_handle_ok [OF okD(1) [OF ok]])
  then have "is_handle w h \<and> initialized (hs w h) \<and> (\<exists>c. kind (objs w ! h) = KHandle c \<and> u_type (uvh w h) = Some (uv_type_of c))"
    using l nc by (auto simp: handle_ok_def)
  then show ?thesis using that nc by (auto simp: is_handle_def io_handle_def)
qed

lemma class_types [simp]:
  "uv_type_of c = UV_IDLE \<longleftrightarrow> c = IdleC" "uv_type_of c = UV_PREPARE \<longleftrightarrow> c = PrepareC" "uv_type_of c = UV_CHECK \<longleftrightarrow> c = CheckC"
  "uv_type_of c = UV_TIMER \<longleftrightarrow> c = TimerC" "uv_type_of c = UV_ASYNC \<longleftrightarrow> c = AsyncC" "uv_type_of c = UV_SIGNAL \<longleftrightarrow> c = SignalC"
  "uv_type_of c = UV_FS_EVENT \<longleftrightarrow> c = FSEventC" "uv_type_of c = UV_FS_POLL \<longleftrightarrow> c = FSPollC"
  "uv_type_of c = UV_UDP \<longleftrightarrow> c = UDPC" "uv_type_of c = UV_TCP \<longleftrightarrow> c = TCPC" "uv_type_of c = UV_NAMED_PIPE \<longleftrightarrow> c = PipeC"
  "uv_type_of c = UV_TTY \<longleftrightarrow> c = TTYC"
  by (cases c; simp)+

lemmas class_types' [simp] = class_types [THEN trans [OF eq_commute]]

lemma calm_quiet: "uv_quiet w w' \<Longrightarrow> calm w w'"
  by (rule calm_undisturbed [OF stable_quiet])

lemma earliest_timer_in: "earliest_timer w xs = Some h \<Longrightarrow> h \<in> set xs"
  by (induction xs arbitrary: h) (auto split: option.splits if_splits)

text \<open>
  The events. The two hypotheses are on what the operating system may answer: a file name that
  can be decoded, and datagrams with an address (a datagram from a socket that is not an IP socket
  has none, and \<open>pyuv__udp_recv_cd\<close> asserts it).
\<close>

definition plausible :: "io_event \<Rightarrow> bool" where
  "plausible e \<longleftrightarrow>
     (\<forall>a b ans sent h. e = UdpEv a b ans sent h \<longrightarrow> (\<forall>n. whole_datagram (ans n))) \<and>
     (\<forall>status h. e \<noteq> FSEventEv (Filename False) status h)"

definition plausible_turn :: "os_turn \<Rightarrow> bool" where
  "plausible_turn os \<longleftrightarrow> list_all plausible (os_pending os) \<and> (\<forall>t. list_all plausible (snd (os_poll os t)))"

definition plain_handle :: "oid \<Rightarrow> world \<Rightarrow> bool" where
  "plain_handle h w \<longleftrightarrow> u_type (uvh w h) \<notin> {Some UV_NAMED_PIPE, Some UV_TCP, Some UV_TTY, Some UV_UDP}"

section \<open>The queues\<close>

text \<open>A queue of watchers and its local queue are one queue to the invariant.\<close>

definition watcher_queue :: "uv_handle_type \<Rightarrow> (uv_loop \<Rightarrow> oid list) \<Rightarrow> queue_field \<Rightarrow> bool" where
  "watcher_queue t handles field \<longleftrightarrow>
     (t, handles, field) \<in> {(UV_IDLE, idle_handles, idle_handles_update), (UV_PREPARE, prepare_handles, prepare_handles_update),
       (UV_CHECK, check_handles, check_handles_update)}"

lemma watcher_queues [simp]:
  "watcher_queue UV_IDLE idle_handles idle_handles_update" "watcher_queue UV_PREPARE prepare_handles prepare_handles_update"
  "watcher_queue UV_CHECK check_handles check_handles_update"
  by (simp_all add: watcher_queue_def)

lemma watcher_queue_fields:
  assumes "watcher_queue t handles field"
  shows "type_queue t u = Some (handles u @ moved u t)"
    "active_handles (field f (u\<lparr>moved := m\<rparr>)) = active_handles u" "handle_queue (field f (u\<lparr>moved := m\<rparr>)) = handle_queue u"
    "all_closing (field f (u\<lparr>moved := m\<rparr>)) = all_closing u" "finishing (field f (u\<lparr>moved := m\<rparr>)) = finishing u"
    "moved (field f (u\<lparr>moved := m\<rparr>)) = m" "handles (field f (u\<lparr>moved := m\<rparr>)) = f (handles u)"
  using assms by (auto simp: watcher_queue_def all_closing_def)

lemma watcher_queue_type:
  assumes "watcher_queue t handles field" and "f (handles u) @ m t = handles u @ moved u t"
    and "\<And>t'. t' \<noteq> t \<Longrightarrow> m t' = moved u t'"
  shows "type_queue t' (field f (u\<lparr>moved := m\<rparr>)) = type_queue t' u"
  using assms by (cases t') (auto simp: watcher_queue_def)

lemma ok_requeue:
  assumes ok: "ok fr w" and q: "watcher_queue t handles field" and m: "moved (uvl w l) t = h # rest"
  shows "ok fr (requeue t field l h w)"
  unfolding requeue_def
  by (rule ok_loop_field [OF ok]) (use m in \<open>simp_all add: watcher_queue_fields [OF q] watcher_queue_type [OF q]\<close>)

lemma ok_queue_move:
  assumes ok: "ok fr w" and q: "watcher_queue t handles field" and m: "moved (uvl w l) t = []"
  shows "ok fr (queue_move t handles field l w)"
  unfolding queue_move_def
  by (rule ok_loop_field [OF ok]) (use m in \<open>simp_all add: watcher_queue_fields [OF q] watcher_queue_type [OF q]\<close>)

lemma requeue_frame [simp]:
  "objs (requeue t field l h w) = objs w" "hs (requeue t field l h w) = hs w"
  by (simp_all add: requeue_def upd_uvl_def)

lemma moved_requeue:
  "watcher_queue t handles field \<Longrightarrow> moved (uvl (requeue t field l h w) l) t = tl (moved (uvl w l) t)"
  by (simp add: requeue_def upd_uvl_def watcher_queue_fields)

lemma calm_requeue: "watcher_queue t handles field \<Longrightarrow> calm w (requeue t field l h w)"
  by (auto simp: calm_def requeue_def upd_uvl_def same_local_def watcher_queue_fields)

context python_program
begin

text \<open>
  \<open>uv__run_idle\<close>, \<open>uv__run_prepare\<close> and \<open>uv__run_check\<close> return, with the local queue empty.
\<close>

lemma run_moved_ok:
  assumes q: "watcher_queue t handles field" and c: "c \<in> {IdleC, PrepareC, CheckC}" "t = uv_type_of c"
    and cb: "\<And>fr w h. ok fr w \<Longrightarrow> valid w h \<Longrightarrow> kind (objs w ! h) = KHandle c \<Longrightarrow> initialized (hs w h) \<Longrightarrow>
      \<exists>w'. cb h w = Some w' \<and> ok fr w' \<and> undisturbed w w'"
  shows "ok fr w \<Longrightarrow> l < length (objs w) \<Longrightarrow> length (moved (uvl w l) t) \<le> n \<Longrightarrow>
    \<exists>w'. run_moved cb t field n l w = Returns w' \<and> ok fr w' \<and> calm w w' \<and> moved (uvl w' l) t = []"
proof (induction n arbitrary: w)
  case 0
  then show ?case by auto
next
  case (Suc n)
  show ?case
  proof (cases "moved (uvl w l) t")
    case Nil
    then show ?thesis using Suc.prems by auto
  next
    case (Cons h q')
    let ?w1 = "requeue t field l h w"
    have o1: "ok fr ?w1" by (rule ok_requeue [OF Suc.prems(1) q Cons])
    have "h \<in> set (handles (uvl w l) @ moved (uvl w l) t)" using Cons by simp
    then have l: "u_loop (uvh w h) = Some l" "u_type (uvh w h) = Some t" "u_active (uvh w h)"
      using uv_inv_queue(2) [OF okD(2) [OF Suc.prems(1)] watcher_queue_fields(1) [OF q], of h] by blast+
    moreover from this have nc: "\<not> u_closed (uvh w h)"
      using uv_inv_uh [OF okD(2) [OF Suc.prems(1)], of h] unfolding uh_ok_def by blast
    ultimately obtain c' where k: "valid w h" "kind (objs w ! h) = KHandle c'" "initialized (hs w h)" "t = uv_type_of c'"
      using known_handle [OF Suc.prems(1) l(1) nc] by (metis option.inject)
    have "c' = c" using c k(4) by auto
    obtain w2 where w2: "cb h ?w1 = Some w2" "ok fr w2" "undisturbed ?w1 w2"
      using cb [OF o1, of h] k(1-3) unfolding \<open>c' = c\<close> valid_def by auto
    have c1: "calm ?w1 w2" by (rule calm_undisturbed [OF w2(3)])
    then have "l < length (objs w2)" "length (moved (uvl w2 l) t) \<le> n"
      using Suc.prems(2,3) Cons moved_requeue [OF q, of l h w] calm_moved [OF c1, of l] order.trans by fastforce+
    from Suc.IH [OF w2(2) this] obtain w' where
      "run_moved cb t field n l w2 = Returns w'" "ok fr w'" "calm w2 w'" "moved (uvl w' l) t = []" by blast
    then show ?thesis
      using Cons w2(1) calm_trans [OF calm_trans [OF calm_requeue [OF q] c1]] by (auto simp: attempt_def)
  qed
qed

lemma run_queue_ok:
  assumes ok: "ok fr w" and s: "settled l w" and q: "watcher_queue t handles field"
    and c: "c \<in> {IdleC, PrepareC, CheckC}" "t = uv_type_of c"
    and cb: "\<And>fr w h. ok fr w \<Longrightarrow> valid w h \<Longrightarrow> kind (objs w ! h) = KHandle c \<Longrightarrow> initialized (hs w h) \<Longrightarrow>
      \<exists>w'. cb h w = Some w' \<and> ok fr w' \<and> undisturbed w w'"
  shows "\<exists>w'. run_moved cb t field (length (handles (uvl w l))) l (queue_move t handles field l w) = Returns w' \<and>
    ok fr w' \<and> settled l w'"
proof -
  let ?w1 = "queue_move t handles field l w"
  have o1: "ok fr ?w1" by (rule ok_queue_move [OF ok q]) (use s in \<open>simp add: settled_def\<close>)
  have m: "moved (uvl ?w1 l) = (moved (uvl w l))(t := handles (uvl w l))" "finishing (uvl ?w1 l) = finishing (uvl w l)"
    "hs ?w1 = hs w" "objs ?w1 = objs w"
    by (simp_all add: queue_move_def upd_uvl_def watcher_queue_fields [OF q])
  have l: "l < length (objs ?w1)" using s m(4) by (simp add: settled_def)
  have "length (moved (uvl ?w1 l) t) \<le> length (handles (uvl w l))" by (simp add: m(1))
  from run_moved_ok [where cb = cb, OF q c cb o1 l this] obtain w' where
    w': "run_moved cb t field (length (handles (uvl w l))) l ?w1 = Returns w'" "ok fr w'" "calm ?w1 w'" "moved (uvl w' l) t = []"
    by blast
  have "moved (uvl w' l) t' = []" for t'
    using w'(4) calm_moved(2) [OF w'(3) l, of t'] s by (cases "t' = t") (auto simp: m settled_def)
  then have "settled l w'"
    using s calm_moved(1,3) [OF w'(3) l] w'(3) by (simp add: settled_def m calm_def)
  then show ?thesis using w'(1,2) by blast
qed

lemma uv__run_idle_ok: "ok fr w \<Longrightarrow> settled l w \<Longrightarrow> \<exists>w'. uv__run_idle py l w = Returns w' \<and> ok fr w' \<and> settled l w'"
  unfolding uv__run_idle_def by (rule run_queue_ok [where c = IdleC]) (auto intro: pyuv__idle_cb_ok)

lemma uv__run_prepare_ok: "ok fr w \<Longrightarrow> settled l w \<Longrightarrow> \<exists>w'. uv__run_prepare py l w = Returns w' \<and> ok fr w' \<and> settled l w'"
  unfolding uv__run_prepare_def by (rule run_queue_ok [where c = PrepareC]) (auto intro: pyuv__prepare_cb_ok)

lemma uv__run_check_ok: "ok fr w \<Longrightarrow> settled l w \<Longrightarrow> \<exists>w'. uv__run_check py l w = Returns w' \<and> ok fr w' \<and> settled l w'"
  unfolding uv__run_check_def by (rule run_queue_ok [where c = CheckC]) (auto intro: pyuv__check_cb_ok)

text \<open>However long \<open>uv__run_timers\<close> runs, no timer callback fails an assertion.\<close>

lemma timer_step:
  assumes ok: "ok fr w" and m: "earliest_timer w (timer_heap (uvl w l)) = Some h"
  shows "\<exists>w'. pyuv__timer_cb py h (snd (uv_timer_again h (uv_timer_stop h w))) = Some w' \<and> ok fr w' \<and> calm w w'"
proof -
  have "h \<in> set (timer_heap (uvl w l))" using earliest_timer_in [OF m] .
  then have "u_loop (uvh w h) = Some l" "u_type (uvh w h) = Some UV_TIMER" "u_active (uvh w h)"
    using uv_inv_queue(2) [OF okD(2) [OF ok], of UV_TIMER l "timer_heap (uvl w l)" h] by simp_all
  note l = this
  have nc: "\<not> u_closing (uvh w h)" "\<not> u_closed (uvh w h)"
    using l(3) uv_inv_uh [OF okD(2) [OF ok], of h] unfolding uh_ok_def by blast+
  obtain c where k: "valid w h" "kind (objs w ! h) = KHandle c" "initialized (hs w h)" "u_type (uvh w h) = Some (uv_type_of c)"
    using known_handle [OF ok l(1) nc(2)] by metis
  have c: "c = TimerC" using k(4) l(2) by (cases c) auto
  have o: "open_handle w h TimerC" using k nc c by (simp add: open_handle_def)
  let ?w1 = "uv_timer_stop h w" let ?w2 = "snd (uv_timer_again h ?w1)"
  have i1: "uv_inv ?w1" by (rule uv_inv_timer_stop [OF okD(2) [OF ok] l(1) nc(2) l(2)])
  have q1: "uv_quiet w ?w1" by (simp add: quiet)
  have o1: "ok fr ?w1"
    by (rule ok_quiet_fields [OF ok q1 _ i1, where x = h])
      (use k(2) c in \<open>auto simp: timer_stop_keeps local_steps keeps_alive_def reads_class_def\<close>)
  have op1: "open_handle ?w1 h TimerC"
    using o q1 by (simp add: open_handle_def uv_quiet_def valid_def)
  have o2: "ok fr ?w2" by (rule ok_uv_timer_again [OF o1 op1])
  have q2: "uv_quiet w ?w2" by (rule uv_quiet_trans [OF q1]) (simp add: quiet)
  have "\<exists>w'. pyuv__timer_cb py h ?w2 = Some w' \<and> ok fr w' \<and> undisturbed ?w2 w'"
    by (rule pyuv__timer_cb_ok [OF o2]) (use o q2 in \<open>auto simp: open_handle_def uv_quiet_def valid_def\<close>)
  then show ?thesis using calm_trans [OF calm_quiet [OF q2] calm_undisturbed] by blast
qed

lemma uv__run_timers_good: "ok fr w \<Longrightarrow> settled l w \<Longrightarrow> good l fr (uv__run_timers py n l w)"
proof (induction n arbitrary: fr w)
  case 0
  then show ?case by simp
next
  case (Suc n)
  have "good l fr (Returns w)" using Suc.prems by (auto intro: exI [of _ fr])
  moreover have "good l fr (and_then (attempt h w (pyuv__timer_cb py h (snd (uv_timer_again h (uv_timer_stop h w)))))
      (uv__run_timers py n l))" if "earliest_timer w (timer_heap (uvl w l)) = Some h" for h
    by (rule good_then [OF good_attempt_same [OF Suc.prems(2) timer_step [OF Suc.prems(1) that]] Suc.IH])
  ultimately show ?case by (auto split: option.split)
qed

lemma good_skip: "ok fr w \<Longrightarrow> settled l w \<Longrightarrow> good l fr (Returns w)"
  by (auto intro: exI [of _ fr])

lemma signal_event_good:
  assumes ok: "ok fr w" and s: "settled l w" and h: "u_loop (uvh w h) = Some l" "\<not> u_closed (uvh w h)"
    and t: "u_type (uvh w h) = Some UV_SIGNAL" and n: "u_dispatched (uvh w h) < u_caught (uvh w h)" "sig \<noteq> 0"
  shows "good l fr (attempt h w (uv__signal_dispatch py sig h w))"
proof (rule good_attempt [OF s])
  obtain c where c: "valid w h" "kind (objs w ! h) = KHandle c" "initialized (hs w h)" "u_type (uvh w h) = Some (uv_type_of c)"
    using known_handle [OF ok h] by metis
  then have "c = SignalC" using t by simp
  then show "\<exists>w' leak. uv__signal_dispatch py sig h w = Some w' \<and> ok (leak + fr) w' \<and> calm w w'"
    using uv__signal_dispatch_ok [OF ok c(1) _ c(3) n] c(2) by blast
qed

lemma poll_event_good:
  assumes ok: "ok fr w" and s: "settled l w" and h: "watched l h w" and k: "kind (objs w ! h) = KHandle PollC"
  shows "good l fr (attempt h w (uv__poll_io py err h w))"
proof (rule good_attempt [OF s])
  obtain c where c: "valid w h" "kind (objs w ! h) = KHandle c" "initialized (hs w h)" "u_type (uvh w h) = Some (uv_type_of c)"
    using h known_handle [OF ok] unfolding watched_def by metis
  have q: "uv_quiet w (uv__poll_stop h w)" by (simp add: quiet)
  have o: "ok fr (uv__poll_stop h w)"
    by (rule ok_poll_error [OF ok c(3)]) (use h c k in \<open>auto simp: watched_def\<close>)
  have e: "\<exists>w' leak. pyuv__poll_cb py st h v = Some w' \<and> ok (leak + fr) w' \<and> calm w w'"
    if v: "ok fr v" and q: "uv_quiet w v" for st v
  proof -
    have "valid v h" "kind (objs v ! h) = KHandle PollC" "initialized (hs v h)"
      using q c k by (auto simp: uv_quiet_def valid_def)
    from pyuv__poll_cb_ok [OF v this, of st] obtain w' where
      "pyuv__poll_cb py st h v = Some w'" "ok ({#length (objs v), Py_None#} + fr) w'" "undisturbed v w'" by auto
    then show ?thesis using calm_trans [OF calm_quiet [OF q] calm_undisturbed] by blast
  qed
  from e [OF ok uv_quiet_refl, of 0] e [OF o q, of UV_EBADF]
  show "\<exists>w' leak. uv__poll_io py err h w = Some w' \<and> ok (leak + fr) w' \<and> calm w w'"
    unfolding uv__poll_io_def by (cases err) simp_all
qed

lemma fspoll_event_good:
  assumes ok: "ok fr w" and s: "settled l w"
    and h: "\<And>x. parent = Some x \<Longrightarrow> watched l x w \<and> u_type (uvh w x) = Some UV_FS_POLL"
  shows "good l fr (attempt h w (uv__fs_poll_cb py mp mc parent report l w))"
proof (rule good_attempt [OF s])
  let ?w1 = "uv__req_unregister l w"
  have o1: "ok fr ?w1" by (rule ok_req_register(2) [OF ok])
  have c1: "calm w ?w1" by (rule calm_same) (simp_all add: uv__req_unregister_def upd_uvl_def)
  have "\<exists>w' leak. pyuv__fspoll_cb py mp mc st x ?w1 = Some w' \<and> ok (leak + fr) w' \<and> calm w w'"
    if p: "parent = Some x" for x st
  proof -
    obtain c where c: "valid w x" "kind (objs w ! x) = KHandle c" "initialized (hs w x)" "u_type (uvh w x) = Some (uv_type_of c)"
      using h [OF p] known_handle [OF ok] unfolding watched_def by metis
    then have "c = FSPollC" using h [OF p] by simp
    then have "valid ?w1 x" "kind (objs ?w1 ! x) = KHandle FSPollC" "initialized (hs ?w1 x)"
      using c(1-3) by (simp_all add: valid_def uv__req_unregister_def upd_uvl_def)
    from pyuv__fspoll_cb_ok [OF o1 this, of mp mc st] show ?thesis
      using calm_trans [OF c1 calm_undisturbed] by blast
  qed
  moreover have "\<exists>w' leak. Some ?w1 = Some w' \<and> ok (leak + fr) w' \<and> calm w w'"
    by (intro exI [of _ ?w1] exI [of _ "{#}"]) (simp add: o1 c1)
  ultimately show "\<exists>w' leak. uv__fs_poll_cb py mp mc parent report l w = Some w' \<and> ok (leak + fr) w' \<and> calm w w'"
    unfolding uv__fs_poll_cb_def Let_def by (auto split: option.splits)
qed

lemma abstract_event_good:
  assumes ok: "ok fr w" and s: "settled l w" and r: "r \<in> set (pend w)" "rq_type r = AbstractReq"
  shows "good l fr (attempt h w (pyuv__pipe_connect_abstract_cb py r (uv__take_req r w)))"
proof (rule good_attempt_same [OF s])
  have t: "taken r fr (uv__take_req r w)" by (rule taken_req [OF ok r(1)]) (use r(2) in \<open>simp add: pointed_def\<close>)
  have "rq_views r = []" "rq_send_handle r = None"
    using wf_req(2) [OF okD(1) [OF ok] r(1)] r(2) by (auto simp: req_fits_def)
  from abstract_connect_ok [OF t this]
  show "\<exists>w'. pyuv__pipe_connect_abstract_cb py r (uv__take_req r w) = Some w' \<and> ok fr w' \<and> calm w w'"
    using calm_trans [OF calm_take] by blast
qed

lemma socket_event_good:
  assumes ok: "ok fr w" and s: "settled l w" and h: "watched l h w"
  shows "u_type (uvh w h) \<in> {Some UV_TCP, Some UV_NAMED_PIPE, Some UV_TTY} \<Longrightarrow>
      0 \<le> u_fd (uvh w h) \<or> u_connect (uvh w h) \<and> u_delayed (uvh w h) \<noteq> 0 \<Longrightarrow>
      good l fr (attempt h w (uv__stream_io py e h w))" (is "?s \<Longrightarrow> ?fd \<Longrightarrow> ?p")
    and "u_listening (uvh w h) \<Longrightarrow> good l fr (attempt h w (uv__server_io py pollin as h w))" (is "?l \<Longrightarrow> ?q")
    and "u_type (uvh w h) = Some UV_UDP \<Longrightarrow> (\<And>n. whole_datagram (ans n)) \<Longrightarrow>
      good l fr (attempt h w (uv__udp_io py (a \<and> u_reading (uvh w h)) b ans sent h w))"
proof -
  obtain c where c: "u_type (uvh w h) = Some (uv_type_of c)" "io_handle h c w"
    using h known_handle [OF ok] unfolding watched_def by metis
  have op: "\<not> u_closing (uvh w h)" using h by (simp add: watched_def)
  show ?p if "?s" "?fd"
  proof (rule good_attempt_same [OF s])
    have "stream_class c" using that(1) c(1) by (cases c) (auto simp: stream_class_def)
    from uv__stream_io_ok [OF ok c(2) this op that(2), of e]
    show "\<exists>w'. uv__stream_io py e h w = Some w' \<and> ok fr w' \<and> calm w w'" by (auto simp: stays_def)
  qed
  show ?q if ?l
  proof (cases "pollin \<and> u_accepted (uvh w h) = None")
    case True
    then show ?thesis
      using uv__server_io_ok [OF ok c(2) _ op, of as] by (intro good_attempt_same [OF s]) (auto simp: stays_def)
  next
    case False
    then show ?thesis using that op by (auto simp: uv__server_io_def attempt_def doomed_def)
  qed
  show "good l fr (attempt h w (uv__udp_io py (a \<and> u_reading (uvh w h)) b ans sent h w))"
    if "u_type (uvh w h) = Some UV_UDP" "\<And>n. whole_datagram (ans n)"
  proof (rule good_attempt [OF s])
    have "io_handle h UDPC w" using that(1) c by simp
    moreover have "\<not> u_processing (uvh w h)" using s by (simp add: settled_def)
    ultimately show "\<exists>w' leak. uv__udp_io py (a \<and> u_reading (uvh w h)) b ans sent h w = Some w' \<and> ok (leak + fr) w' \<and> calm w w'"
      using uv__udp_io_ok [OF ok, of h "a \<and> u_reading (uvh w h)" ans b sent] that(2) unfolding stays_def by blast
  qed
qed

lemma simple_event_good:
  assumes ok: "ok fr w" and s: "settled l w" and h: "watched l h w"
  shows "u_type (uvh w h) = Some UV_ASYNC \<Longrightarrow> good l fr (attempt h w (uv__async_dispatch py h w))" (is "_ \<Longrightarrow> ?a")
    and "u_type (uvh w h) = Some UV_FS_EVENT \<Longrightarrow> f \<noteq> Filename False \<Longrightarrow>
      good l fr (attempt h w (pyuv__fsevent_cb py f status h w))" (is "_ \<Longrightarrow> _ \<Longrightarrow> ?e")
    and "u_type (uvh w h) = Some UV_SIGNAL \<Longrightarrow> u_active (uvh w h) \<Longrightarrow> good l fr (Returns (uv__signal_caught h w))"
proof -
  obtain c where c: "valid w h" "kind (objs w ! h) = KHandle c" "initialized (hs w h)" "u_type (uvh w h) = Some (uv_type_of c)"
    using h known_handle [OF ok] unfolding watched_def by metis
  show ?a if t: "u_type (uvh w h) = Some UV_ASYNC"
  proof (rule good_attempt_same [OF s])
    let ?w1 = "upd_uv h (\<lambda>u. u\<lparr>u_pending := False\<rparr>) w"
    have k: "kind (objs w ! h) = KHandle AsyncC" using c t by simp
    have o1: "ok fr ?w1" by (rule ok_upd_uv [OF ok]) simp_all
    have c1: "calm w ?w1" by (rule calm_same) (auto simp: upd_uv_def split: if_splits)
    have "valid ?w1 h" "kind (objs ?w1 ! h) = KHandle AsyncC" "initialized (hs ?w1 h)"
      using c(1,3) k by (simp_all add: upd_uv_def valid_def)
    from pyuv__async_cb_ok [OF o1 this]
    show "\<exists>w'. uv__async_dispatch py h w = Some w' \<and> ok fr w' \<and> calm w w'"
      using calm_trans [OF c1 calm_undisturbed] ok unfolding uv__async_dispatch_def by auto
  qed
  show ?e if t: "u_type (uvh w h) = Some UV_FS_EVENT" and "f \<noteq> Filename False"
  proof (rule good_attempt_same [OF s])
    have "kind (objs w ! h) = KHandle FSEventC" using c t by simp
    from pyuv__fsevent_cb_ok [OF ok c(1) this c(3) that(2), of status]
    show "\<exists>w'. pyuv__fsevent_cb py f status h w = Some w' \<and> ok fr w' \<and> calm w w'"
      using calm_undisturbed by blast
  qed
  show "good l fr (Returns (uv__signal_caught h w))" if "u_type (uvh w h) = Some UV_SIGNAL" "u_active (uvh w h)"
  proof (rule good_skip [OF ok_signal_caught [OF ok that] settled_calm [OF s]])
    show "calm w (uv__signal_caught h w)"
      by (rule calm_same) (auto simp: uv__signal_caught_def upd_uv_def split: if_splits)
  qed
qed

lemma uv__io_event_good:
  assumes ok: "ok fr w" and s: "settled l w" and p: "plausible e"
  shows "good l fr (uv__io_event py l e w)"
proof -
  note k = good_skip [OF ok s]
  show ?thesis
  proof (cases e)
    case (UdpEv a b ans sent h)
    then have "\<And>n. whole_datagram (ans n)" using p by (simp add: plausible_def)
    then show ?thesis using k UdpEv socket_event_good(3) [OF ok s] by (simp add: uv__io_event_def)
  next
    case (FSEventEv f status h)
    then have "f \<noteq> Filename False" using p by (auto simp: plausible_def)
    then show ?thesis using k FSEventEv simple_event_good(2) [OF ok s] by (simp add: uv__io_event_def)
  next
    case (FSPollEv mp mc report parent)
    then show ?thesis using k fspoll_event_good [OF ok s, of parent] by (cases parent) (simp_all add: uv__io_event_def)
  next
    case (StreamEv ev h)
    then show ?thesis using k socket_event_good(1) [OF ok s, of h] by (simp add: uv__io_event_def)
  next
    case (PollEv err h)
    then show ?thesis using k poll_event_good [OF ok s, of h] by (simp add: uv__io_event_def)
  next
    case (SignalEv sig h)
    then show ?thesis using k signal_event_good [OF ok s, of h] by (simp add: uv__io_event_def)
  next
    case (AbstractEv r)
    then show ?thesis using k abstract_event_good [OF ok s, of r] by (simp add: uv__io_event_def)
  next
    case (ServerEv pollin as h)
    then show ?thesis using k socket_event_good(2) [OF ok s, of h] by (simp add: uv__io_event_def)
  next
    case (AsyncEv h)
    then show ?thesis using k simple_event_good(1) [OF ok s, of h] by (simp add: uv__io_event_def)
  next
    case (CaughtEv h)
    then show ?thesis using k simple_event_good(3) [OF ok s, of h] by (simp add: uv__io_event_def)
  qed
qed

lemma uv__io_events_good: "ok fr w \<Longrightarrow> settled l w \<Longrightarrow> list_all plausible es \<Longrightarrow> good l fr (uv__io_events py l es w)"
proof (induction es arbitrary: fr w)
  case Nil
  then show ?case by (simp add: good_skip [unfolded good_simps])
next
  case (Cons e es)
  then show ?case by (simp add: good_then [OF uv__io_event_good])
qed

end

section \<open>The end of a handle\<close>

text \<open>While \<open>uv__run_closing_handles\<close> runs, \<open>rest\<close> is what is left of its list.\<close>

definition between :: "oid \<Rightarrow> oid list \<Rightarrow> world \<Rightarrow> bool" where
  "between l rest w \<longleftrightarrow> l < length (objs w) \<and> (\<forall>t. moved (uvl w l) t = []) \<and> finishing (uvl w l) = rest \<and>
     (\<forall>x. \<not> u_processing (uvh w x))"

lemma settled_between: "settled l w \<longleftrightarrow> between l [] w"
  by (simp add: settled_def between_def)

lemma between_calm: "between l rest w \<Longrightarrow> calm w w' \<Longrightarrow> between l rest w'"
  by (auto simp: between_def calm_def same_local_def)

definition later :: "world \<Rightarrow> world \<Rightarrow> bool" where
  "later w w' \<longleftrightarrow> length (objs w) \<le> length (objs w') \<and>
     (\<forall>x < length (objs w). u_closed (uvh w x) \<longrightarrow> u_closed (uvh w' x)) \<and> prefix (trace w) (trace w')"

lemma later_refl [simp]: "later w w"
  by (simp add: later_def)

lemma later_trans: "later a b \<Longrightarrow> later b c \<Longrightarrow> later a c"
  using prefix_order.trans [of "trace a" "trace b" "trace c"] by (auto simp: later_def)

lemma later_calm: "calm w w' \<Longrightarrow> later w w'"
  by (simp add: calm_def later_def)

text \<open>The handle is marked closed and leaves the loop; the pending close hands over its reference.\<close>

lemma unref_frame:
  "uvh (uv_unref h w) h = uvh w h \<or> uvh (uv_unref h w) h = (uvh w h)\<lparr>u_ref := False\<rparr>"
  "y \<noteq> h \<Longrightarrow> hs (uv_unref h w) y = hs w y"
  "moved (uvl (uv_unref h w) l) = moved (uvl w l)" "finishing (uvl (uv_unref h w) l) = finishing (uvl w l)"
  by (cases "u_ref (uvh w h)"; simp add: uv_unref_def uv__active_handle_rm_def Let_def upd_uv_def upd_uvl_def)+

lemma mark_closed:
  assumes ok: "ok fr w" and b: "between l (h # rest) w" and n: "h \<notin> set rest"
    and l: "u_loop (uvh w h) = Some l" and d: "close_due (uvh w h)"
  defines "w2 \<equiv> uv__finish_close h (pop_closing l h w)"
  shows "ok (add_mset h fr) w2" "between l rest w2" "later w w2" "u_closed (uvh w2 h)" "objs w2 = objs w"
    "initialized (hs w2 h) = initialized (hs w h)" "u_close_cb (uvh w2 h) = u_close_cb (uvh w h)" "trace w2 = trace w"
proof -
  let ?w1 = "pop_closing l h w"
  have u: "hs ?w1 = hs w" "objs ?w1 = objs w" "trace ?w1 = trace w" by (simp_all add: pop_closing_def upd_uvl_def)
  have q: "uv_quiet (upd_uv h (\<lambda>u. u\<lparr>u_closed := True\<rparr>) ?w1) w2"
    unfolding w2_def by (rule uv__finish_close_quiet)
  have hs2: "hs w2 = hs (uv_unref h (upd_uv h (\<lambda>u. u\<lparr>u_closed := True\<rparr>) ?w1))"
    by (simp add: w2_def uv__finish_close_def Let_def upd_uvl_def)
  have v: "uvh (upd_uv h (\<lambda>u. u\<lparr>u_closed := True\<rparr>) ?w1) h = (uvh w h)\<lparr>u_closed := True\<rparr>"
    "y \<noteq> h \<Longrightarrow> hs (upd_uv h (\<lambda>u. u\<lparr>u_closed := True\<rparr>) ?w1) y = hs w y" for y
    by (simp_all add: upd_uv_def u)
  have f: "uvh w2 h = (uvh w h)\<lparr>u_closed := True\<rparr> \<or> uvh w2 h = (uvh w h)\<lparr>u_closed := True, u_ref := False\<rparr>"
    using unref_frame(1) [of h "upd_uv h (\<lambda>u. u\<lparr>u_closed := True\<rparr>) ?w1"] unfolding hs2 v(1) by simp
  have o: "hs w2 y = hs w y" if "y \<noteq> h" for y using unref_frame(2) [OF that] v(2) [OF that] by (simp add: hs2)
  have p: "pyref (hs w2 h) = pyref (hs w h)" "initialized (hs w2 h) = initialized (hs w h)" "objs w2 = objs w" "trace w2 = trace w"
    using q u by (simp_all add: uv_quiet_def upd_uv_def)
  show "objs w2 = objs w" "initialized (hs w2 h) = initialized (hs w h)" "trace w2 = trace w" by (rule p)+
  show c: "u_closed (uvh w2 h)" "u_close_cb (uvh w2 h) = u_close_cb (uvh w h)" using f by auto
  have pr: "u_processing (uvh w2 x) = u_processing (uvh w x)" for x using f o by (cases "x = h") auto
  have mv: "moved (uvl w2 m) = moved (uvl w m)" "finishing (uvl w2 l) = removeAll h (finishing (uvl w l))" for m
    by (simp_all add: w2_def uv__finish_close_def pop_closing_def Let_def upd_uvl_def unref_frame upd_uv_def)
  show "between l rest w2" using b n by (simp add: between_def p pr mv)
  show "later w w2" unfolding later_def p using o c(1) by (metis order_refl prefix_order.refl)
  have "wf_refs fr ?w1"
    by (rule wf_same_ledger [OF _ okD(1) [OF ok]]) (simp add: same_ledger_def pop_closing_def upd_uvl_def)
  then have "wf_refs (add_mset h fr) w2"
    unfolding w2_def by (rule wf_finish_close) (use d u in \<open>simp_all add: close_due_def\<close>)
  moreover have "uv_inv w2"
    unfolding w2_def by (rule uv_inv_finish_close [OF okD(2) [OF ok] l d]) (use b in \<open>simp add: between_def\<close>)
  moreover have "cb_ok w2 y" for y
  proof (cases "y = h")
    case True
    have "u_closing (uvh w h)" using d by (simp add: close_due_def)
    then show ?thesis
      using okD(3) [OF ok, of h] True f p unfolding cb_ok_def field_ok_def by auto
  next
    case False
    then show ?thesis by (intro cb_ok_cong [OF okD(3) [OF ok]]) (simp_all add: o p)
  qed
  ultimately show "ok (add_mset h fr) w2" by (rule okI)
qed

context python_program
begin

lemma close_type_ok:
  assumes ok: "ok fr w" and io: "io_handle h c w" and cl: "u_closing (uvh w h)" and nd: "\<not> doomed h w"
    and np: "\<not> u_processing (uvh w h)"
  shows "\<exists>w1. close_type py h w = Some w1 \<and> ok fr w1 \<and> stays h w w1 \<and> io_handle h c w1 \<and>
    (u_type (uvh w h) \<notin> {Some UV_NAMED_PIPE, Some UV_TCP, Some UV_TTY, Some UV_UDP} \<longrightarrow> w1 = w)"
proof -
  note t = io_handleD(3) [OF ok io]
  have g: "\<not> u_pollout (uvh w h)" "u_fd (uvh w h) = - 1" if "c = UDPC"
    using nd cl t that by (simp_all add: doomed_def)
  have "stays h w w" by (rule undisturbed_io(1) [OF ok io stable_refl])
  moreover have "\<exists>w1. uv__udp_finish_close py h w = Some w1 \<and> ok fr w1 \<and> stays h w w1 \<and> io_handle h c w1" if "c = UDPC"
    using uv__udp_finish_close_ok [OF ok _ cl g [OF that] np] io that by auto
  ultimately show ?thesis
    using uv__stream_destroy_ok [OF ok io cl] ok io t by (auto simp: close_type_def)
qed

text \<open>One handle of the closing list: afterwards it is closed, and off the list.\<close>

lemma finish_handle_ok:
  assumes ok: "ok fr w" and b: "between l (h # rest) w" and nd: "\<not> doomed h w"
  shows "\<exists>w'. finish_handle py l h w = Some w' \<and> ok fr w' \<and> between l rest w' \<and> later w w' \<and> u_closed (uvh w' h)"
proof -
  have m: "h \<in> set (all_closing (uvl w l))" "distinct (all_closing (uvl w l))"
    using b uv_inv_closing(1) [OF okD(2) [OF ok], of l] by (simp_all add: between_def all_closing_def)
  then have l: "u_loop (uvh w h) = Some l" and d: "close_due (uvh w h)"
    using uv_inv_closing(2) [OF okD(2) [OF ok], of h l] by simp_all
  have n: "h \<notin> set rest" using b m(2) by (simp add: between_def all_closing_def)
  have cl: "u_closing (uvh w h)" "\<not> u_closed (uvh w h)" using d by (simp_all add: close_due_def)
  obtain c where io: "io_handle h c w" using known_handle [OF ok l cl(2)] by metis
  obtain w1 where w1: "close_type py h w = Some w1" "ok fr w1" "stays h w w1" "io_handle h c w1"
    and same: "u_type (uvh w h) \<notin> {Some UV_NAMED_PIPE, Some UV_TCP, Some UV_TTY, Some UV_UDP} \<Longrightarrow> w1 = w"
    using close_type_ok [OF ok io cl(1) nd] b by (auto simp: between_def)
  have c1: "calm w w1" and cl1: "u_closing (uvh w1 h)" "\<not> u_closed (uvh w1 h)" and l1: "u_loop (uvh w1 h) = Some l"
    using w1(3) cl l by (simp_all add: stays_def)
  have b1: "between l (h # rest) w1" by (rule between_calm [OF b c1])
  have ty: "u_type (uvh w1 h) = u_type (uvh w h)" using io_handleD(3) [OF ok io] io_handleD(3) [OF w1(2,4)] by simp
  have d1: "close_due (uvh w1 h)"
    using cl1 ty same d by (cases "u_type (uvh w h) = Some UV_SIGNAL") (auto simp: close_due_def)
  note M = mark_closed [OF w1(2) b1 n l1 d1]
  let ?w2 = "uv__finish_close h (pop_closing l h w1)"
  have "handle_ok w1 h" by (rule wf_handle_ok [OF okD(1) [OF w1(2)]])
  then obtain cb where cb: "u_close_cb (uvh w1 h) = Some cb" "cb = pyuv__handle_close_cb \<Longrightarrow> slot_of w1 h S_on_close_cb \<noteq> None"
    using cl1 by (auto simp: handle_ok_def)
  have k: "initialized (hs ?w2 h)" "kind (objs ?w2 ! h) = KHandle c" using w1(4) M(5,6) by (simp_all add: io_handle_def)
  obtain w' where w': "run_close_cb py cb h ?w2 = Some w'" "ok fr w'" "calm ?w2 w'"
    using run_close_cb_ok [OF M(1,4) k, of cb] cb(2) M(5) by auto
  have "h < length (objs ?w2)" using io_handleD(2) [OF w1(2,4)] M(5) by simp
  then have "u_closed (uvh w' h)" using w'(3) M(4) by (simp add: calm_def)
  moreover have "finish_handle py l h w = Some w'" using cl w1(1) M(7) cb(1) w'(1) by (simp add: finish_handle_def Let_def)
  ultimately show ?thesis
    using w'(2) between_calm [OF M(2) w'(3)] later_trans [OF later_calm [OF c1] later_trans [OF M(3) later_calm [OF w'(3)]]] by blast
qed

text \<open>The callback given to \<open>close\<close> is called with the handle.\<close>

lemma run_close_cb_calls:
  assumes ok: "ok (add_mset x fr) w" and i: "initialized (hs w x)" and k: "kind (objs w ! x) = KHandle c"
    and f: "slot_of w x S_on_close_cb = Some f" "f \<noteq> Py_None" and r: "run_close_cb py pyuv__handle_close_cb x w = Some w'"
  shows "called_with f [x] w w'"
proof -
  have v: "valid w x" by (rule wf_valid_frame [OF okD(1) [OF ok]]) simp
  obtain w1 where c: "call_callback py (Some f) [x] (\<lambda>v. slot_of v x S_loop) w = Some w1"
      and w': "calm w1 w'"
    using r f by (auto simp: run_close_cb_def Let_def split: option.splits if_splits)
  have "valid w f" using wf_valid_slot [OF okD(1) [OF ok] _ f(1)] v by (auto simp: valid_def)
  then have "called_with f [x] w w1"
    by (rule call_callback_traced [OF ok _ _ _ c]) (use v loop_field_there [OF ok _ k i] in auto)
  then show ?thesis using w' prefix_order.trans unfolding called_with_def calm_def by blast
qed

lemma finish_handle_calls:
  assumes ok: "ok fr w" and b: "between l (h # rest) w" and p: "plain_handle h w"
    and cb: "u_close_cb (uvh w h) = Some pyuv__handle_close_cb" and f: "slot_of w h S_on_close_cb = Some f" "f \<noteq> Py_None"
  shows "\<exists>w'. finish_handle py l h w = Some w' \<and> ok fr w' \<and> u_closed (uvh w' h) \<and> called_with f [h] w w'"
proof -
  have nd: "\<not> doomed h w \<or> u_listening (uvh w h) \<and> \<not> u_closing (uvh w h)" using p by (auto simp: doomed_def plain_handle_def)
  have m: "h \<in> set (all_closing (uvl w l))" "distinct (all_closing (uvl w l))"
    using b uv_inv_closing(1) [OF okD(2) [OF ok], of l] by (simp_all add: between_def all_closing_def)
  then have l: "u_loop (uvh w h) = Some l" and d: "close_due (uvh w h)"
    using uv_inv_closing(2) [OF okD(2) [OF ok], of h l] by simp_all
  have n: "h \<notin> set rest" using b m(2) by (simp add: between_def all_closing_def)
  have cl: "u_closing (uvh w h)" "\<not> u_closed (uvh w h)" using d by (simp_all add: close_due_def)
  obtain w' where w': "finish_handle py l h w = Some w'" "ok fr w'" "u_closed (uvh w' h)"
    using finish_handle_ok [OF ok b] nd cl by blast
  obtain c where k: "kind (objs w ! h) = KHandle c" "initialized (hs w h)" "u_type (uvh w h) = Some (uv_type_of c)"
    using known_handle [OF ok l cl(2)] by metis
  note M = mark_closed [OF ok b n l d]
  let ?w2 = "uv__finish_close h (pop_closing l h w)"
  have "close_type py h w = Some w" using p k(3) by (auto simp: close_type_def plain_handle_def)
  then have r: "run_close_cb py pyuv__handle_close_cb h ?w2 = Some w'"
    using w'(1) cl cb M(7) by (simp add: finish_handle_def Let_def)
  have "called_with f [h] ?w2 w'" by (rule run_close_cb_calls [OF M(1) _ _ _ _ r]) (use k f M(5,6) in auto)
  then show ?thesis using w' M(8) by (simp add: called_with_def)
qed

text \<open>The whole list: an assertion fails for a doomed handle only, and otherwise every handle is closed.\<close>

lemma finish_all_ok:
  assumes "ok fr w" and "between l xs w"
  shows "case finish_all py l xs w of
      Returns w' \<Rightarrow> ok fr w' \<and> settled l w' \<and> later w w' \<and> (\<forall>h \<in> set xs. u_closed (uvh w' h))
    | Aborts h w' \<Rightarrow> doomed h w'
    | Runs_on \<Rightarrow> False"
  using assms
proof (induction xs arbitrary: w)
  case Nil
  then show ?case by (simp add: settled_between)
next
  case (Cons h xs)
  show ?case
  proof (cases "finish_handle py l h w")
    case None
    then show ?thesis using finish_handle_ok [OF Cons.prems] by (auto simp: attempt_def)
  next
    case (Some w1)
    show ?thesis
    proof (cases "doomed h w")
      case False
      then have w1: "ok fr w1" "between l xs w1" "later w w1" "u_closed (uvh w1 h)"
        using finish_handle_ok [OF Cons.prems False] Some by auto
      have hl: "h < length (objs w1)"
        using wf_handle_ok [OF okD(1) [OF w1(1)], of h] w1(4) by (auto simp: handle_ok_def)
      from Cons.IH [OF w1(1,2)] show ?thesis
        using Some w1(3,4) hl later_trans [OF w1(3)]
        by (auto simp: attempt_def later_def split: outcome.splits)
    next
      case True
      then show ?thesis
        using Some by (auto simp: finish_handle_def close_type_def doomed_def uv__udp_finish_close_def split: if_splits)
    qed
  qed
qed

lemma uv__run_closing_handles_ok:
  assumes ok: "ok fr w" and s: "settled l w"
  shows "case uv__run_closing_handles py l w of
      Returns w' \<Rightarrow> ok fr w' \<and> settled l w' \<and> later w w' \<and> (\<forall>h \<in> set (closing_handles (uvl w l)). u_closed (uvh w' h))
    | Aborts h w' \<Rightarrow> doomed h w'
    | Runs_on \<Rightarrow> False"
proof -
  let ?f = "\<lambda>lp. lp\<lparr>finishing := closing_handles lp, closing_handles := []\<rparr>"
  have f: "finishing (uvl w l) = []" using s by (simp add: settled_def)
  have "type_queue t (?f (uvl w l)) = type_queue t (uvl w l)" for t by (cases t) simp_all
  then have "ok fr (detach_closing l w)"
    unfolding detach_closing_def by (intro ok_loop_field [OF ok]) (simp_all add: all_closing_def f)
  moreover have "between l (closing_handles (uvl w l)) (detach_closing l w)"
    using s by (simp add: settled_def between_def detach_closing_def upd_uvl_def)
  ultimately have F: "case finish_all py l (closing_handles (uvl w l)) (detach_closing l w) of
      Returns w' \<Rightarrow> ok fr w' \<and> settled l w' \<and> later (detach_closing l w) w' \<and>
        (\<forall>h \<in> set (closing_handles (uvl w l)). u_closed (uvh w' h))
    | Aborts h w' \<Rightarrow> doomed h w'
    | Runs_on \<Rightarrow> False" by (rule finish_all_ok)
  have "later (detach_closing l w) w' = later w w'" for w'
    by (simp add: later_def detach_closing_def upd_uvl_def)
  then show ?thesis using F by (auto simp: uv__run_closing_handles_def split: outcome.splits)
qed

section \<open>Turns of the loop\<close>

lemma ok_update_time: "ok fr w \<Longrightarrow> ok fr (uv__update_time now l w)"
  unfolding uv__update_time_def by (rule ok_loop_field) simp_all

lemma settled_update_time: "settled l w \<Longrightarrow> settled l (uv__update_time now l w)"
  by (simp add: settled_def uv__update_time_def upd_uvl_def)

lemma good_same: "\<exists>w'. r = Returns w' \<and> ok fr w' \<and> settled l w' \<Longrightarrow> good l fr r"
  by (auto intro: exI [of _ fr])

lemma closing_good: "ok fr w \<Longrightarrow> settled l w \<Longrightarrow> good l fr (uv__run_closing_handles py l w)"
  using uv__run_closing_handles_ok [of fr w l] by (auto simp: good_def split: outcome.splits intro: exI [of _ fr])

lemma uv__turn_good:
  assumes "ok fr w" and "settled l w" and os: "plausible_turn os"
  shows "good l fr (uv__turn py mode fuel os l w)"
proof -
  have poll: "good l fr (uv__io_poll py (os_poll os) t l w)" if "ok fr w" "settled l w" for fr t w
    using uv__io_events_good [OF ok_update_time [OF that(1)] settled_update_time [OF that(2)]] os
    by (simp add: uv__io_poll_def split_beta plausible_turn_def)
  have pending: "good l fr (uv__io_events py l (os_pending os) w)" if "ok fr w" "settled l w" for fr w
    using uv__io_events_good [OF that] os by (simp add: plausible_turn_def)
  note timers = uv__run_timers_good [OF ok_update_time settled_update_time]
  show ?thesis
    unfolding uv__turn_def
    by (rule good_then [OF timers [OF assms(1,2)]], rule good_then [OF pending], assumption+,
        rule good_then [OF good_same [OF uv__run_idle_ok]], assumption+,
        rule good_then [OF good_same [OF uv__run_prepare_ok]], assumption+,
        rule good_then [OF poll], assumption+,
        rule good_then [OF good_same [OF uv__run_check_ok]], assumption+,
        rule good_then [OF closing_good], assumption+)
      (simp add: timers good_skip del: good_simps)
qed

lemma uv__turns_good:
  "ok fr w \<Longrightarrow> settled l w \<Longrightarrow> list_all plausible_turn oss \<Longrightarrow> good l fr (uv__turns py mode fuel oss l w)"
proof (induction oss arbitrary: fr w)
  case Nil
  then show ?case using good_skip by simp
next
  case (Cons os oss)
  have "good l fr (and_then (uv__turn py mode fuel os l w)
      (\<lambda>w1. if mode = 1 \<or> mode = 2 then Returns w1 else uv__turns py mode fuel oss l w1))"
    by (rule good_then [OF uv__turn_good]) (use Cons good_skip in \<open>auto simp del: good_simps\<close>)
  then show ?case using good_skip [OF Cons.prems(1,2)] by (simp del: good_simps)
qed

text \<open>
  \<open>uv_run\<close>: whatever the program does in its callbacks, the loop returns to a state that satisfies
  the invariant, or fails one of the assertions of \<open>doomed\<close>, or has not returned yet.
\<close>

theorem uv_run_ok:
  assumes "ok fr w" and "settled l w" and "list_all plausible_turn oss"
  shows "case uv_run py fuel now oss mode l w of
      Returns (r, w') \<Rightarrow> (\<exists>fr'. fr \<subseteq># fr' \<and> ok fr' w') \<and> settled l w' \<and> \<not> stop_flag (uvl w' l)
    | Aborts h w' \<Rightarrow> doomed h w'
    | Runs_on \<Rightarrow> True"
proof -
  let ?w0 = "if uv__loop_alive l w then w else uv__update_time now l w"
  have "ok fr ?w0" "settled l ?w0" using assms(1,2) by (simp_all add: ok_update_time settled_update_time)
  from uv__turns_good [OF this assms(3), of mode fuel]
  have G: "good l fr (uv__turns py mode fuel oss l ?w0)" .
  have "ok fr' v \<Longrightarrow> ok fr' (upd_uvl l (\<lambda>lp. lp\<lparr>stop_flag := False\<rparr>) v)" for fr' v
    by (rule ok_loop_field) simp_all
  moreover have "settled l v \<Longrightarrow> settled l (upd_uvl l (\<lambda>lp. lp\<lparr>stop_flag := False\<rparr>) v)" for v
    by (simp add: settled_def upd_uvl_def)
  moreover have "\<not> stop_flag (uvl (upd_uvl l (\<lambda>lp. lp\<lparr>stop_flag := False\<rparr>) v) l)" for v
    by (simp add: upd_uvl_def)
  ultimately show ?thesis
    using G by (cases "uv__turns py mode fuel oss l ?w0") (auto simp: uv_run_def Let_def)
qed

end

end
