(* ===== verification/Scripts.thy ===== *)
theory Scripts
  imports Api Event_Loop
begin

text \<open>
  Python programs made of calls of the extension: the contract \<open>python_program\<close> holds for
  every one of them. A function of the program is a list of statements; each looks at the
  state and decides what to do. The program may only name objects it has a reference to:
  its own, and the arguments of the call while it runs. A call that would abort the process
  is skipped, so these are the programs that do not crash it; \<open>Loop.run\<close> is not called from
  a callback (\<open>uv_run\<close> is not reentrant).
\<close>

datatype action = Invoke call | Keep oid | Drop oid | Skip

record program =
  body :: "oid \<Rightarrow> oid list \<Rightarrow> (world \<Rightarrow> action) list"
  returns :: "oid \<Rightarrow> oid list \<Rightarrow> world \<Rightarrow> oid option"
  hooks :: "oid \<Rightarrow> attr"

definition known :: "oid list \<Rightarrow> world \<Rightarrow> oid \<Rightarrow> bool" where
  "known args w x \<longleftrightarrow> x \<in> set args \<or> 0 < ext w x"

text \<open>What a call returns is kept in a variable of the program. It never gives up \<open>None\<close>.\<close>

definition run_action :: "(double \<Rightarrow> 64 word) \<Rightarrow> oid list \<Rightarrow> action \<Rightarrow> world \<Rightarrow> world" where
  "run_action ub args a w =
     (case a of
        Invoke c \<Rightarrow>
          if list_all (known args w) (names c)
          then (case api ub c w of
                  (Ok (Some x), w1) \<Rightarrow> ext_take x w1
                | (Abort, w1) \<Rightarrow> w
                | (_, w1) \<Rightarrow> w1)
          else w
      | Keep x \<Rightarrow> if known args w x then ext_take x (Py_INCREF x w) else w
      | Drop x \<Rightarrow> if 0 < ext w x \<and> x \<noteq> Py_None then Py_DECREF x (ext_give x w) else w
      | Skip \<Rightarrow> w)"

definition run_body :: "(double \<Rightarrow> 64 word) \<Rightarrow> oid list \<Rightarrow> (world \<Rightarrow> action) list \<Rightarrow> world \<Rightarrow> world" where
  "run_body ub args stmts w = fold (\<lambda>st w. run_action ub args (st w) w) stmts w"

text \<open>
  Only a function can be called. It raises an exception when \<open>returns\<close> says \<open>None\<close>; what it
  returns is a new reference, to \<open>Py_None\<close> if it names something it does not have.
\<close>

definition script_call :: "(double \<Rightarrow> 64 word) \<Rightarrow> program \<Rightarrow> oid \<Rightarrow> oid list \<Rightarrow> world \<Rightarrow> oid option \<times> world" where
  "script_call ub P f args w =
     (if \<not> PyCallable_Check w f then (None, w)
      else let w1 = run_body ub args (body P f args) w
           in case returns P f args w1 of
                None \<Rightarrow> (None, w1)
              | Some x \<Rightarrow> let y = (if known args w1 x then x else Py_None) in (Some y, Py_INCREF y w1))"

definition script_hook :: "program \<Rightarrow> oid \<Rightarrow> world \<Rightarrow> attr" where
  "script_hook P l w =
     (case hooks P l of AttrIs x \<Rightarrow> if 0 < ext w x then AttrIs x else AttrMissing | a \<Rightarrow> a)"

definition scripted :: "(double \<Rightarrow> 64 word) \<Rightarrow> program \<Rightarrow> python" where
  "scripted ub P = \<lparr>py_call = script_call ub P, py_excepthook = script_hook P\<rparr>"

section \<open>Scripts meet the contract\<close>

lemma known_held: "set args \<subseteq> set_mset fr \<Longrightarrow> known args w x \<Longrightarrow> held fr w x"
  by (auto simp: known_def held_def)

lemma ok_ext_take: "ok (add_mset x fr) w \<Longrightarrow> ok fr (ext_take x w)"
  by (rule okI) (auto intro: wf_ext_take okD uv_inv_same [OF okD(2)] cb_ok_cong [OF okD(3)])

lemma ok_ext_give: "ok fr w \<Longrightarrow> 0 < ext w x \<Longrightarrow> x \<noteq> Py_None \<Longrightarrow> ok (add_mset x fr) (ext_give x w)"
  by (rule okI) (auto intro: wf_ext_give okD uv_inv_same [OF okD(2)] cb_ok_cong [OF okD(3)])

lemma stable_ext: "undisturbed w (ext_take x w)" "undisturbed w (ext_give x w)"
  by (rule stable_hs; simp)+

lemma run_action_ok:
  assumes ok: "ok fr w" and a: "set args \<subseteq> set_mset fr"
  shows "ok fr (run_action ub args act w) \<and> undisturbed w (run_action ub args act w)"
proof (cases act)
  case (Invoke c)
  have "keeps fr w (api ub c w)" if "list_all (known args w) (names c)"
    by (rule api_keeps [OF ok]) (use that a known_held in \<open>auto simp: list_all_iff\<close>)
  then show ?thesis using ok Invoke
    by (auto simp: run_action_def keeps_def split: prod.splits result.splits option.splits
        intro: ok_ext_take stable_trans [OF _ stable_ext(1)])
next
  case (Keep x)
  have "ok fr (ext_take x (Py_INCREF x w))" if "known args w x"
    by (rule ok_ext_take [OF ok_INCREF [OF ok held_valid [OF okD(1) [OF ok] known_held [OF a that]]]])
  then show ?thesis using ok Keep
    by (auto simp: run_action_def intro: stable_trans [OF stable_INCREF stable_ext(1)])
next
  case (Drop x)
  have "ok fr (Py_DECREF x (ext_give x w))" if "0 < ext w x" "x \<noteq> Py_None"
    by (rule ok_DECREF [OF ok_ext_give [OF ok that]])
  then show ?thesis using ok Drop
    by (auto simp: run_action_def intro: stable_trans [OF stable_ext(2) stable_release])
next
  case Skip
  then show ?thesis using ok by (simp add: run_action_def)
qed

lemma run_body_ok:
  assumes "ok fr w" and "set args \<subseteq> set_mset fr"
  shows "ok fr (run_body ub args stmts w) \<and> undisturbed w (run_body ub args stmts w)"
  using assms(1)
proof (induction stmts arbitrary: w)
  case Nil
  then show ?case by (simp add: run_body_def)
next
  case (Cons st stmts)
  let ?w1 = "run_action ub args (st w) w"
  have s: "ok fr ?w1 \<and> undisturbed w ?w1" by (rule run_action_ok [OF Cons.prems assms(2)])
  with Cons.IH [of ?w1] show ?case
    using stable_trans [of w ?w1] by (simp add: run_body_def)
qed

interpretation scripts: python_program "scripted ub P" for ub P
proof
  fix fr w f args r w'
  assume ok: "ok fr w" and "valid w f" and a: "set args \<subseteq> set_mset fr"
    and c: "py_call (scripted ub P) f args w = (r, w')"
  let ?w1 = "run_body ub args (body P f args) w"
  note R = run_body_ok [OF ok a, of ub "body P f args"]
  have "ok (add_mset y fr) (Py_INCREF y ?w1) \<and> undisturbed w (Py_INCREF y ?w1)"
    if "known args ?w1 y \<or> y = Py_None" for y
  proof -
    have "valid ?w1 y"
      using that R known_held [OF a] held_valid [OF okD(1)] wf_none [OF okD(1)] by blast
    then show ?thesis using R ok_INCREF stable_trans [OF _ stable_INCREF] by blast
  qed
  then show "ok (mset_opt r + fr) w' \<and> undisturbed w w'"
    using c ok R by (auto simp: scripted_def script_call_def Let_def split: if_splits option.splits)
next
  fix fr w l x
  assume "ok fr w" and "valid w l" and "py_excepthook (scripted ub P) l w = AttrIs x"
  then show "valid w x"
    using held_valid [OF okD(1), of fr w x]
    by (auto simp: scripted_def script_hook_def held_def split: attr.splits if_splits)
qed

end
