(* ===== verification/Samples.thy ===== *)
theory Samples
  imports Scripts
begin

text \<open>
  Concrete states: \<open>boot\<close> is the interpreter right after the import of the extension, with
  \<open>None\<close> as its only object, and the other states are reached from it by calls. They are the
  inputs of the witnesses.
\<close>

definition boot :: world where
  "boot = \<lparr>objs = [\<lparr>refcnt = 1, live = True, kind = KObject False, slots = (\<lambda>_. None)\<rparr>],
     hs = (\<lambda>_. handle_zero), loops = (\<lambda>_. \<lparr>lp = uv_loop_zero, is_default = False, in_use = False, uv_open = False\<rparr>),
     ext = (\<lambda>x. if x = 0 then 1 else 0), pend = [], trace = []\<rparr>"

lemma ok_boot: "ok {#} boot"
proof (rule okI)
  have o: "owned boot x = (if x = 0 then 1 else 0)" for x
    by (simp add: boot_def owned_def slot_count_def self_refs_def req_refs_def handle_zero_def uv_zero_def)
  have "counts_ok {#} boot" unfolding counts_ok_def o by (simp add: boot_def)
  moreover have "live_ok boot" "slots_ok boot" "none_ok boot" "handle_ok boot h" for h
    by (simp_all add: boot_def live_ok_def slots_ok_def none_ok_def handle_ok_def handle_zero_def uv_zero_def)
  ultimately show "wf_refs {#} boot" by (simp add: wf_refs_def)
  have q: "q = []" if "type_queue t uv_loop_zero = Some q" for t q
    using that by (cases t) (auto simp: uv_loop_zero_def)
  have z: "uvl boot l = uv_loop_zero" "uvh boot h = uv_zero" for l h
    by (simp_all add: boot_def handle_zero_def)
  have "loop_ok boot l" for l
    unfolding loop_ok_def z using q by (auto dest!: q) (auto simp: uv_loop_zero_def uv_zero_def close_due_def all_closing_def)
  then show "uv_inv boot" by (simp add: uv_inv_def uh_ok_def z uv_zero_def)
  show "cb_ok boot h" for h
    by (simp add: cb_ok_def boot_def)
qed

section \<open>A loop and a handle\<close>

definition blank_loop :: Loop where
  "blank_loop = \<lparr>lp = uv_loop_zero, is_default = False, in_use = False, uv_open = False\<rparr>"

definition obj :: "int \<Rightarrow> kind \<Rightarrow> pyobj" where
  "obj n k = \<lparr>refcnt = n, live = True, kind = k, slots = (\<lambda>_. None)\<rparr>"

text \<open>A loop (1) whose clock shows 1000, a new handle (2) and a function (3).\<close>

definition new_calls :: "hclass \<Rightarrow> call list" where
  "new_calls c = [NewLoop 0 1000 True, New c, NewObject True]"

definition fresh :: "hclass \<Rightarrow> world" where
  "fresh c = run_body (\<lambda>_. 0) [] (map (\<lambda>c w. Invoke c) (new_calls c)) boot"

lemma ok_fresh: "ok {#} (fresh c)"
  unfolding fresh_def using run_body_ok [OF ok_boot] by simp

lemma fresh_eq: "fresh c =
    \<lparr>objs = [obj 1 (KObject False), obj 1 KLoop, obj 1 (KHandle c), obj 1 (KObject True)],
     hs = (\<lambda>_. handle_zero)(1 := handle_zero, 2 := handle_zero, 3 := handle_zero),
     loops = (\<lambda>_. blank_loop)(1 := blank_loop\<lparr>lp := uv_loop_zero\<lparr>uv_time := 1000\<rparr>, uv_open := True\<rparr>),
     ext = (\<lambda>x. if x = 0 then 1 else 0)(1 := 1, 2 := 1, 3 := 1), pend = [], trace = []\<rparr>"
  by (simp add: fresh_def new_calls_def run_body_def run_action_def Loop_tp_new_def new_loop_def as_some_def
      Handle_tp_new_def boot_def PyType_GenericNew_def uv_loop_init_def upd_Loop_def Let_def ext_take_def
      obj_def blank_loop_def new_obj_def numeral_eq_Suc)

text \<open>The state after the initialisation of a timer and of an idle handle.\<close>

definition timer_ready :: world where
  "timer_ready = snd (Timer_tp_init 2 (Inr 1) (fresh TimerC))"

definition idle_ready :: world where
  "idle_ready = snd (Idle_tp_init 2 (Inr 1) (fresh IdleC))"

lemma fresh_there:
  "is_loop (fresh c) 1" "held {#} (fresh c) 2" "held {#} (fresh c) 1" "held {#} (fresh c) 3"
  "kind (objs (fresh c) ! 2) = KHandle c" "kind (objs (fresh c) ! 3) = KObject True"
  by (simp_all add: fresh_eq obj_def is_loop_def valid_def held_def)

lemma ok_ready: "ok {#} timer_ready" "ok {#} idle_ready"
  unfolding timer_ready_def idle_ready_def
  using ok_Timer_tp_init [OF ok_fresh fresh_there(2,5), of "Inr 1"]
    ok_Idle_tp_init [OF ok_fresh fresh_there(2,5), of "Inr 1"] fresh_there(1) by auto

text \<open>The struct of the handle and of the loop once the handle is initialised.\<close>

definition ready_uv :: "uv_handle_type \<Rightarrow> uv_handle" where
  "ready_uv t = uv_zero\<lparr>u_loop := Some 1, u_type := Some t, u_ref := True\<rparr>"

definition ready_state :: "hclass \<Rightarrow> world" where
  "ready_state c =
    \<lparr>objs = [obj 1 (KObject False), obj 2 KLoop, (obj 1 (KHandle c))\<lparr>slots := [S_loop \<mapsto> 1]\<rparr>, obj 1 (KObject True)],
     hs = (\<lambda>_. handle_zero)(1 := handle_zero, 3 := handle_zero,
       2 := \<lparr>pyref = False, initialized = True, uv = ready_uv (uv_type_of c)\<rparr>),
     loops = (\<lambda>_. blank_loop)(1 := blank_loop\<lparr>lp := uv_loop_zero\<lparr>uv_time := 1000, handle_queue := [2]\<rparr>, uv_open := True\<rparr>),
     ext = (\<lambda>x. if x = 0 then 1 else 0)(1 := 1, 2 := 1, 3 := 1), pend = [], trace = []\<rparr>"

lemma ready_eq: "timer_ready = ready_state TimerC" "idle_ready = ready_state IdleC"
  by (simp_all add: timer_ready_def idle_ready_def Timer_tp_init_def Idle_tp_init_def guard_defs fresh_eq
      uv_timer_init_def uv_idle_init_def uv__handle_init_def upd_defs initialize_handle_def Let_def Py_XDECREF_def
      put_slot_def Py_INCREF_def ready_state_def ready_uv_def obj_def handle_zero_def uv_zero_def uv_loop_zero_def
      blank_loop_def fun_upd_twist numeral_eq_Suc)

end
