(* ===== verification/Socket_Samples.thy ===== *)
theory Socket_Samples
  imports Samples
begin

text \<open>
  Concrete states with sockets: a terminal that is closed while a write is queued, a UDP handle that is
  closed while a send is queued, and handles that read, receive and listen. All system calls succeed.
\<close>

definition fine :: os_answers where
  "fine = \<lparr>os_socket = 7, os_nonblock = 0, os_nodelay = 0, os_keepalive = 0, os_reuse = 0, os_v6only = 0,
     os_bind = 0, os_connect = 0, os_listen = 0, os_single_accept = False\<rparr>"

definition after :: "call list \<Rightarrow> world \<Rightarrow> world" where
  "after cs w = run_body (\<lambda>_. 0) [] (map (\<lambda>c w. Invoke c) cs) w"

lemma ok_after: "ok {#} w \<Longrightarrow> ok {#} (after cs w)"
  unfolding after_def using run_body_ok by simp

lemma after_simps [simp]: "after [] w = w" "after (c # cs) w = after cs (run_action (\<lambda>_. 0) [] (Invoke c) w)"
  by (simp_all add: after_def run_body_def)

lemmas evals = run_action_def known_def on_class_def on_loop_def as_none_def as_some_def as_leak_def loop_arg_def
  guard_defs fine_def Let_def upd_defs Py_INCREF_def put_slot_def initialize_handle_def Py_XDECREF_def
  uv__handle_init_def uv__stream_init_def uv__stream_open_def stream_flags_def stream_opened_def
  PyType_GenericNew_def new_obj_def ext_take_def add_req_def uv__req_register_def PyCallable_Check_def
  TTY_tp_init_def uv_tty_init_def tty_descriptor_def fresh_eq obj_def numeral_eq_Suc uv_is_closing_def
  uv__handle_start_def uv__active_handle_add_def handle_zero_def uv_zero_def uv_loop_zero_def blank_loop_def

definition tty_closing :: world where
  "tty_closing = after [NewObject False, TTYCall 2 (TTYInit (\<lambda>_. Guess_TTY None 0) fine (Inr (1, 1, False))),
     WriteCall 2 (SWrite True (\<lambda>_. True) True (Inr (Buffer 4, Some 3))), HandleCall 2 (HClose (Inr None))] (fresh TTYC)"

definition udp_closing :: world where
  "udp_closing = after [NewObject False, UDPCall 2 (UDPInit fine (Inr (1, 0))),
     UDPCall 2 (UDPSend True (\<lambda>_. True) fine None (Inr (AddrTuple [] 5000 0 0, Buffer 4, Some 3))),
     HandleCall 2 (HClose (Inr None))] (fresh UDPC)"

definition tty_reading :: world where
  "tty_reading = after [TTYCall 2 (TTYInit (\<lambda>_. Guess_TTY None 0) fine (Inr (1, 0, True))),
     StreamCall 2 (RStart (Inr 3))] (fresh TTYC)"

definition udp_receiving :: world where
  "udp_receiving = after [UDPCall 2 (UDPInit fine (Inr (1, 0))), UDPCall 2 (UDPStart fine (Inr 3))] (fresh UDPC)"

definition tcp_listening :: world where
  "tcp_listening = after [TCPCall 2 (TCPInit fine (Inr (1, 0))), TCPCall 2 (TCPBind fine (Inr (AddrTuple [] 80 0 0, 0))),
     TCPCall 2 (TCPListen fine (Inr (3, None)))] (fresh TCPC)"

lemma ok_samples: "ok {#} tty_closing" "ok {#} udp_closing" "ok {#} tty_reading" "ok {#} udp_receiving" "ok {#} tcp_listening"
  by (simp_all only: tty_closing_def udp_closing_def tty_reading_def udp_receiving_def tcp_listening_def ok_after [OF ok_fresh])

lemmas stream_evals = Stream_func_write_def pyuv__stream_write_bytes_def uv_write2_def write_leak_def stream_class_def
  uv__stream_close_def uv_read_stop_def uv__handle_stop_def Stream_func_start_read_def uv_read_start_def
  assign_slot_def PYUV_HANDLE_INCREF_def

lemmas close_evals = Handle_func_close_def uv_close_def uv__type_close_def uv__make_close_pending_def
  uv__active_handle_rm_def

lemmas udp_evals = UDP_tp_init_def uv_udp_init_ex_def UDP_func_send_def pyuv_parse_addr_tuple_def
  pyuv__udp_send_bytes_def uv_udp_send_def uv__udp_bind_def uv__udp_send_def uv__udp_maybe_deferred_bind_def uv__udp_close_def
  UDP_func_start_recv_def uv_udp_recv_start_def pending_sends_def send_ctx_def

lemmas tcp_evals = TCP_tp_init_def uv_tcp_init_ex_def TCP_func_bind_def uv_tcp_bind_def uv__tcp_bind_def
  maybe_new_socket_def TCP_func_listen_def uv_listen_def uv_tcp_listen_def listening_def uv_result_def

lemma tty_closing_facts:
  "io_handle 2 TTYC tty_closing" "u_closing (uvh tty_closing 2)" "owed_callbacks (pending_writes 2 tty_closing) = [3]"
  by (simp_all add: io_handle_def owed_callbacks_def pending_writes_def tty_closing_def evals stream_evals close_evals)

lemma tty_reading_facts:
  "io_handle 2 TTYC tty_reading" "\<not> u_closing (uvh tty_reading 2)" "u_fd (uvh tty_reading 2) = 0"
  by (simp_all add: io_handle_def tty_reading_def evals stream_evals)

lemma udp_closing_facts:
  "io_handle 2 UDPC udp_closing" "u_closing (uvh udp_closing 2)" "\<not> u_pollout (uvh udp_closing 2)"
  "u_fd (uvh udp_closing 2) = - 1" "\<not> u_processing (uvh udp_closing 2)"
  "owed_callbacks (pending_sends 2 udp_closing) = [3]"
  by (simp_all add: io_handle_def owed_callbacks_def udp_closing_def evals udp_evals close_evals stream_evals)

lemma udp_receiving_facts:
  "io_handle 2 UDPC udp_receiving" "u_reading (uvh udp_receiving 2)" "\<not> u_processing (uvh udp_receiving 2)"
  by (simp_all add: io_handle_def udp_receiving_def evals udp_evals stream_evals)

lemma tcp_listening_facts:
  "io_handle 2 TCPC tcp_listening" "u_accepted (uvh tcp_listening 2) = None" "\<not> u_closing (uvh tcp_listening 2)"
  "u_listening (uvh tcp_listening 2)"
  by (simp_all add: io_handle_def tcp_listening_def evals tcp_evals udp_evals stream_evals)

text \<open>A program whose callbacks give up the reference to the function 3; an event of a stream.\<close>

definition dropping :: program where
  "dropping = \<lparr>body = (\<lambda>f args. [\<lambda>w. Drop 3]), returns = (\<lambda>f args w. Some Py_None), hooks = (\<lambda>l. AttrMissing)\<rparr>"

definition data_then_eof :: stream_event where
  "data_then_eof = \<lparr>ev_in = True, ev_out = True, ev_err = False, ev_hup = True,
     os_reads = (\<lambda>n. if n = 0 then RData 4 [] False else REof), os_writes = [], os_shutdown = 0, os_connect = 0\<rparr>"

end
