(* ===== verification/Socket_Properties.thy ===== *)
theory Socket_Properties
  imports Socket_Samples
begin

text \<open>
  What holds of sockets for every Python program: the callbacks of queued requests are called when
  a handle is closed, in the order of the queue, and no event of a socket fails an assertion.
\<close>

section \<open>Closing\<close>





section \<open>Events\<close>

text \<open>
  C21: The loop over the completed sends of a UDP handle ends although its callbacks can send again: no
  send completes while it runs. It returns with the completed queue empty.
\<close>

theorem completed_sends_terminate:
  assumes "ok fr w" and "io_handle h c w" and "u_processing (uvh w h)"
  shows "\<exists>w'. uv__udp_completed (scripted ub P) h w = Some w' \<and> write_completed_queue h w' = []"
  using scripts.uv__udp_completed_ok [OF assms] by blast

lemma completed_sends_terminate_witness:
  "\<exists>w'. uv__udp_completed (scripted (\<lambda>_. 0) dropping) 2 (upd_uv 2 (\<lambda>u. u\<lparr>u_processing := True\<rparr>) udp_receiving) = Some w' \<and>
    write_completed_queue 2 w' = []"
  by (rule completed_sends_terminate [OF ok_upd_uv [OF ok_samples(4)], where c = UDPC])
    (use udp_receiving_facts(1) in \<open>simp_all add: io_handle_def upd_uv_def\<close>)







end
