(* ===== verification/Timer_Heap.thy ===== *)
theory Timer_Heap
  imports Libuv_Inv
begin

text \<open>
  The binary heap of the timers (heap-inl.h): nodes with \<open>left\<close>, \<open>right\<close> and \<open>parent\<close> pointers in
  a store. The abstraction is an array: position 1 is the root, and the children of position \<open>i\<close>
  are \<open>2 * i\<close> and \<open>2 * i + 1\<close>. Swapping two nodes by their pointers is swapping two entries of the
  array, and insertion and removal keep the order of a heap.
\<close>

section \<open>The code\<close>

record 'a heap_node =
  left :: "'a option"
  right :: "'a option"
  parent :: "'a option"

record 'a heap =
  hmin :: "'a option"
  nelts :: nat
  node :: "'a \<Rightarrow> 'a heap_node"

definition upd_node :: "'a \<Rightarrow> ('a heap_node \<Rightarrow> 'a heap_node) \<Rightarrow> 'a heap \<Rightarrow> 'a heap" where
  "upd_node x f h = h\<lparr>node := (node h)(x := f (node h x))\<rparr>"

text \<open>\<open>if (x != NULL) x->parent = p\<close>.\<close>

definition adopt :: "'a option \<Rightarrow> 'a \<Rightarrow> 'a heap \<Rightarrow> 'a heap" where
  "adopt x p h = (case x of None \<Rightarrow> h | Some y \<Rightarrow> upd_node y (\<lambda>n. n\<lparr>parent := Some p\<rparr>) h)"

text \<open>The place that points to \<open>old\<close>, the node whose parent is \<open>up\<close>, points to \<open>new\<close>.\<close>

definition redirect :: "'a option \<Rightarrow> 'a \<Rightarrow> 'a \<Rightarrow> 'a heap \<Rightarrow> 'a heap" where
  "redirect up old new h =
     (case up of
        None \<Rightarrow> h\<lparr>hmin := Some new\<rparr>
      | Some g \<Rightarrow> if left (node h g) = Some old then upd_node g (\<lambda>n. n\<lparr>left := Some new\<rparr>) h
                  else upd_node g (\<lambda>n. n\<lparr>right := Some new\<rparr>) h)"

definition heap_node_swap :: "'a \<Rightarrow> 'a \<Rightarrow> 'a heap \<Rightarrow> 'a heap" where
  "heap_node_swap p c h =
     (let h1 = h\<lparr>node := (node h)(p := node h c, c := node h p)\<rparr>;
          h2 = upd_node p (\<lambda>n. n\<lparr>parent := Some c\<rparr>) h1;
          (sibling, h3) =
            (if left (node h2 c) = Some c then (right (node h2 c), upd_node c (\<lambda>n. n\<lparr>left := Some p\<rparr>) h2)
             else (left (node h2 c), upd_node c (\<lambda>n. n\<lparr>right := Some p\<rparr>) h2));
          h4 = adopt sibling c h3;
          h5 = adopt (left (node h4 p)) p h4;
          h6 = adopt (right (node h5 p)) p h5
      in redirect (parent (node h6 c)) p c h6)"

text \<open>
  The path from the root to position \<open>n\<close>: the bits of \<open>n\<close> below the first one, first step lowest.
  It is less than \<open>n\<close>, so it does not overflow.
\<close>

fun path_loop :: "nat \<Rightarrow> nat \<Rightarrow> nat \<Rightarrow> nat \<times> nat" where
  "path_loop k path n = (if 2 \<le> n then path_loop (k + 1) (2 * path + n mod 2) (n div 2) else (k, path))"

declare path_loop.simps [simp del]

text \<open>The pointers to pointers \<open>parent\<close>, \<open>child\<close> and \<open>max\<close>.\<close>

datatype 'a ref = Root | LeftOf 'a | RightOf 'a

primrec deref :: "'a heap \<Rightarrow> 'a ref \<Rightarrow> 'a option" where
  "deref h Root = hmin h"
| "deref h (LeftOf x) = left (node h x)"
| "deref h (RightOf x) = right (node h x)"

primrec assign :: "'a ref \<Rightarrow> 'a option \<Rightarrow> 'a heap \<Rightarrow> 'a heap" where
  "assign Root v h = h\<lparr>hmin := v\<rparr>"
| "assign (LeftOf x) v h = upd_node x (\<lambda>n. n\<lparr>left := v\<rparr>) h"
| "assign (RightOf x) v h = upd_node x (\<lambda>n. n\<lparr>right := v\<rparr>) h"

text \<open>\<open>None\<close>: a \<open>NULL\<close> pointer is followed.\<close>

fun traverse :: "'a heap \<Rightarrow> nat \<Rightarrow> nat \<Rightarrow> 'a ref \<Rightarrow> 'a ref \<Rightarrow> ('a ref \<times> 'a ref) option" where
  "traverse h 0 path par child = Some (par, child)"
| "traverse h (Suc k) path par child =
     (case deref h child of
        None \<Rightarrow> None
      | Some x \<Rightarrow> traverse h k (path div 2) child (if odd path then RightOf x else LeftOf x))"

text \<open>The two loops that restore the order. A loop that does not end is \<open>None\<close>.\<close>

partial_function (option) walk_up :: "('a \<Rightarrow> 'a \<Rightarrow> bool) \<Rightarrow> 'a \<Rightarrow> 'a heap \<Rightarrow> 'a heap option" where
  "walk_up lt x h =
     (case parent (node h x) of
        None \<Rightarrow> Some h
      | Some p \<Rightarrow> if lt x p then walk_up lt x (heap_node_swap p x h) else Some h)"

definition smallest_of :: "('a \<Rightarrow> 'a \<Rightarrow> bool) \<Rightarrow> 'a option \<Rightarrow> 'a \<Rightarrow> 'a" where
  "smallest_of lt y x = (case y of Some z \<Rightarrow> if lt z x then z else x | None \<Rightarrow> x)"

partial_function (option) walk_down :: "('a \<Rightarrow> 'a \<Rightarrow> bool) \<Rightarrow> 'a \<Rightarrow> 'a heap \<Rightarrow> 'a heap option" where
  "walk_down lt x h =
     (let smallest = smallest_of lt (right (node h x)) (smallest_of lt (left (node h x)) x)
      in if smallest = x then Some h else walk_down lt x (heap_node_swap x smallest h))"

definition heap_init :: "'a heap \<Rightarrow> 'a heap" where
  "heap_init h = h\<lparr>hmin := None, nelts := 0\<rparr>"

definition heap_min :: "'a heap \<Rightarrow> 'a option" where
  "heap_min h = hmin h"

definition heap_insert :: "('a \<Rightarrow> 'a \<Rightarrow> bool) \<Rightarrow> 'a \<Rightarrow> 'a heap \<Rightarrow> 'a heap option" where
  "heap_insert lt newnode h =
     (let h1 = upd_node newnode (\<lambda>_. \<lparr>left = None, right = None, parent = None\<rparr>) h;
          (k, path) = path_loop 0 0 (1 + nelts h)
      in case traverse h1 k path Root Root of
           None \<Rightarrow> None
         | Some (par, child) \<Rightarrow>
             let h2 = upd_node newnode (\<lambda>n. n\<lparr>parent := deref h1 par\<rparr>) h1;
                 h3 = (assign child (Some newnode) h2)\<lparr>nelts := nelts h + 1\<rparr>
             in walk_up lt newnode h3)"

text \<open>The part of \<open>heap_remove\<close> that puts the last node \<open>y\<close> in the place of the node \<open>x\<close> that goes.\<close>

definition replace :: "'a \<Rightarrow> 'a \<Rightarrow> 'a heap \<Rightarrow> 'a heap" where
  "replace x y h =
     (let h2 = h\<lparr>node := (node h)(y := node h x)\<rparr>;
          h3 = adopt (right (node h2 y)) y (adopt (left (node h2 y)) y h2)
      in redirect (parent (node h3 x)) x y h3)"

definition heap_remove :: "('a \<Rightarrow> 'a \<Rightarrow> bool) \<Rightarrow> 'a \<Rightarrow> 'a heap \<Rightarrow> 'a heap option" where
  "heap_remove lt x h =
     (if nelts h = 0 then Some h
      else let (k, path) = path_loop 0 0 (nelts h)
           in case traverse h k path Root Root of
                None \<Rightarrow> None
              | Some (_, bottom) \<Rightarrow>
                  (case deref h bottom of
                     None \<Rightarrow> None
                   | Some child \<Rightarrow>
                       let h1 = (assign bottom None h)\<lparr>nelts := nelts h - 1\<rparr>
                       in if child = x then Some (if hmin h1 = Some child then h1\<lparr>hmin := None\<rparr> else h1)
                          else (case walk_down lt child (replace x child h1) of
                                  None \<Rightarrow> None
                                | Some h2 \<Rightarrow> walk_up lt child h2)))"

definition heap_dequeue :: "('a \<Rightarrow> 'a \<Rightarrow> bool) \<Rightarrow> 'a heap \<Rightarrow> 'a heap option" where
  "heap_dequeue lt h = (case hmin h of None \<Rightarrow> (if nelts h = 0 then Some h else None) | Some x \<Rightarrow> heap_remove lt x h)"

section \<open>The array\<close>

text \<open>\<open>a i\<close> is the node at position \<open>i\<close>, for \<open>1 \<le> i \<le> n\<close>.\<close>

definition at :: "(nat \<Rightarrow> 'a) \<Rightarrow> nat \<Rightarrow> nat \<Rightarrow> 'a option" where
  "at a n i = (if 1 \<le> i \<and> i \<le> n then Some (a i) else None)"

definition node_at :: "(nat \<Rightarrow> 'a) \<Rightarrow> nat \<Rightarrow> nat \<Rightarrow> 'a heap_node" where
  "node_at a n i = \<lparr>left = at a n (2 * i), right = at a n (2 * i + 1), parent = at a n (i div 2)\<rparr>"

definition represents :: "'a heap \<Rightarrow> (nat \<Rightarrow> 'a) \<Rightarrow> nat \<Rightarrow> bool" where
  "represents h a n \<longleftrightarrow> inj_on a {1..n} \<and> nelts h = n \<and> hmin h = at a n 1 \<and>
     (\<forall>i \<in> {1..n}. node h (a i) = node_at a n i)"

text \<open>No node is less than its parent.\<close>

definition heap_order :: "('a \<Rightarrow> 'a \<Rightarrow> bool) \<Rightarrow> (nat \<Rightarrow> 'a) \<Rightarrow> nat \<Rightarrow> bool" where
  "heap_order lt a n \<longleftrightarrow> (\<forall>j \<in> {2..n}. \<not> lt (a j) (a (j div 2)))"

lemma representsD:
  assumes "represents h a n"
  shows "inj_on a {1..n}" "nelts h = n" "hmin h = at a n 1" "\<And>i. 1 \<le> i \<Longrightarrow> i \<le> n \<Longrightarrow> node h (a i) = node_at a n i"
  using assms by (auto simp: represents_def)

lemma at_same: "inj_on a {1..n} \<Longrightarrow> 1 \<le> i \<Longrightarrow> i \<le> n \<Longrightarrow> at a n j = Some (a i) \<longleftrightarrow> j = i"
  by (auto simp: at_def dest: inj_onD)

section \<open>Swapping\<close>

text \<open>What the swap makes of every node, for a child \<open>c\<close> with sibling \<open>s\<close> of the node at \<open>i\<close>.\<close>

lemma same_entry:
  assumes "inj_on a {1..n}" and "1 \<le> i" and "i \<le> n" and "1 \<le> j" and "j \<le> n"
  shows "a i = a j \<longleftrightarrow> i = j"
  using assms by (auto dest: inj_onD)

text \<open>The nodes after a swap, read off the code.\<close>

definition swapped :: "'a \<Rightarrow> 'a \<Rightarrow> 'a option \<Rightarrow> 'a heap \<Rightarrow> 'a \<Rightarrow> 'a heap_node" where
  "swapped p c s h x =
     (if x = p then (node h c)\<lparr>parent := Some c\<rparr>
      else if s = Some x then (node h x)\<lparr>parent := Some c\<rparr>
      else if left (node h c) = Some x \<or> right (node h c) = Some x then (node h x)\<lparr>parent := Some p\<rparr>
      else if parent (node h p) = Some x
        then (if left (node h x) = Some p then (node h x)\<lparr>left := Some c\<rparr> else (node h x)\<lparr>right := Some c\<rparr>)
      else node h x)"

lemma adopt_node [simp]:
  "left (node (adopt x q h) y) = left (node h y)" "right (node (adopt x q h) y) = right (node h y)"
  "parent (node (adopt x q h) y) = (if x = Some y then Some q else parent (node h y))"
  "hmin (adopt x q h) = hmin h" "nelts (adopt x q h) = nelts h"
  by (cases x; simp add: adopt_def upd_node_def)+

lemma redirect_node [simp]:
  "left (node (redirect g p c h) y) = (if g = Some y \<and> left (node h y) = Some p then Some c else left (node h y))"
  "right (node (redirect g p c h) y) = (if g = Some y \<and> left (node h y) \<noteq> Some p then Some c else right (node h y))"
  "parent (node (redirect g p c h) y) = parent (node h y)"
  "hmin (redirect g p c h) = (if g = None then Some c else hmin h)" "nelts (redirect g p c h) = nelts h"
  by (cases g; simp add: redirect_def upd_node_def)+

lemma node_eqI: "left m = left n \<Longrightarrow> right m = right n \<Longrightarrow> parent m = parent n \<Longrightarrow> m = (n :: 'a heap_node)"
  by simp

lemma swap_nodes:
  fixes h :: "'a heap"
  assumes "p \<noteq> c" and "s \<noteq> Some p" "s \<noteq> Some c" "left (node h c) \<notin> {Some p, Some c}" "right (node h c) \<notin> {Some p, Some c}"
    "parent (node h p) \<notin> {Some p, Some c}"
    and d: "\<And>x. s = Some x \<Longrightarrow> left (node h c) \<noteq> Some x \<and> right (node h c) \<noteq> Some x \<and> parent (node h p) \<noteq> Some x"
      "\<And>x. parent (node h p) = Some x \<Longrightarrow> left (node h c) \<noteq> Some x \<and> right (node h c) \<noteq> Some x"
    and l: "left (node h p) = Some c \<and> right (node h p) = s \<or> left (node h p) = s \<and> right (node h p) = Some c"
  shows "hmin (heap_node_swap p c h) = (if parent (node h p) = None then Some c else hmin h)"
    "nelts (heap_node_swap p c h) = nelts h"
    "node (heap_node_swap p c h) x = (if x = c
       then (if left (node h p) = Some c then (node h p)\<lparr>left := Some p\<rparr> else (node h p)\<lparr>right := Some p\<rparr>)
       else swapped p c s h x)"
proof -
  let ?l = "left (node h c)" and ?r = "right (node h c)" and ?g = "parent (node h p)"
  define h3 where "h3 = (if left (node h p) = Some c
      then h\<lparr>node := (node h)(p := (node h c)\<lparr>parent := Some c\<rparr>, c := (node h p)\<lparr>left := Some p\<rparr>)\<rparr>
      else h\<lparr>node := (node h)(p := (node h c)\<lparr>parent := Some c\<rparr>, c := (node h p)\<lparr>right := Some p\<rparr>)\<rparr>)"
  have s: "(if left (node h p) = Some c then right (node h p) else left (node h p)) = s"
    using l assms(3) by auto
  have n3: "node h3 y = (if y = p then (node h c)\<lparr>parent := Some c\<rparr> else if y = c
      then (if left (node h p) = Some c then (node h p)\<lparr>left := Some p\<rparr> else (node h p)\<lparr>right := Some p\<rparr>) else node h y)"
    "hmin h3 = hmin h" "nelts h3 = nelts h" for y
    using assms(1) by (auto simp: h3_def)
  have e: "heap_node_swap p c h = redirect ?g p c (adopt ?r p (adopt ?l p (adopt s c h3)))"
  proof -
    show ?thesis using l
    proof (elim disjE conjE)
      assume "left (node h p) = Some c" "right (node h p) = s"
      then show ?thesis using assms(1-6)
        by (auto simp: heap_node_swap_def Let_def n3 upd_node_def h3_def)
    next
      assume "left (node h p) = s" "right (node h p) = Some c"
      then show ?thesis using assms(1-6)
        by (auto simp: heap_node_swap_def Let_def n3 upd_node_def h3_def)
    qed
  qed
  show "hmin (heap_node_swap p c h) = (if parent (node h p) = None then Some c else hmin h)"
    "nelts (heap_node_swap p c h) = nelts h"
    "node (heap_node_swap p c h) x = (if x = c
       then (if left (node h p) = Some c then (node h p)\<lparr>left := Some p\<rparr> else (node h p)\<lparr>right := Some p\<rparr>)
       else swapped p c s h x)"
    unfolding e using assms(1-6) d l by (auto simp: n3 swapped_def intro!: node_eqI)
qed

lemma swap_represents:
  assumes r: "represents h a n" and i: "1 \<le> i" and c: "c = 2 * i \<or> c = 2 * i + 1" and cn: "c \<le> n"
  shows "represents (heap_node_swap (a i) (a c) h) (a(i := a c, c := a i)) n"
proof -
  note R = representsD [OF r]
  let ?b = "a(i := a c, c := a i)"
  have ic: "i < c" "i \<noteq> c" "1 \<le> c" "i \<le> n" "c div 2 = i" using i c cn by auto
  define k where "k = (if c = 2 * i then 2 * i + 1 else 2 * i)"
  have k: "k \<noteq> c" "k \<noteq> i" "1 \<le> k" "k div 2 = i" using i c by (auto simp: k_def)
  have N: "node h (a i) = node_at a n i" "node h (a c) = node_at a n c" using R(4) i ic cn by auto
  have ne: "at a n j \<noteq> Some (a m)" if "j \<noteq> m" "1 \<le> m" "m \<le> n" for j m
    using at_same [OF R(1) that(2,3)] that(1) by auto
  have x: "at a n j = Some y \<Longrightarrow> at a n m \<noteq> Some y" if "j \<noteq> m" for j m y
    using that R(1) by (auto simp: at_def dest: inj_onD split: if_splits)
  have d: "i div 2 \<noteq> i" "i div 2 \<noteq> c" "i div 2 \<noteq> k" "2 * c \<noteq> i" "2 * c + 1 \<noteq> i" "2 * c \<noteq> c" "2 * c \<noteq> k"
    "2 * c + 1 \<noteq> k" "i div 2 \<noteq> 2 * c" "i div 2 \<noteq> 2 * c + 1"
    using i ic(1,3) c by (auto simp: k_def)
  have S: "hmin (heap_node_swap (a i) (a c) h) = (if parent (node h (a i)) = None then Some (a c) else hmin h)"
    "nelts (heap_node_swap (a i) (a c) h) = nelts h"
    "node (heap_node_swap (a i) (a c) h) y = (if y = a c
       then (if left (node h (a i)) = Some (a c) then (node h (a i))\<lparr>left := Some (a i)\<rparr> else (node h (a i))\<lparr>right := Some (a i)\<rparr>)
       else swapped (a i) (a c) (at a n k) h y)" for y
  proof -
    have p: "a i \<noteq> a c" using same_entry [OF R(1) i ic(4,3) cn] ic(2) by simp
    have l: "left (node h (a i)) = at a n (2 * i)" "right (node h (a i)) = at a n (2 * i + 1)"
      "parent (node h (a i)) = at a n (i div 2)" "left (node h (a c)) = at a n (2 * c)" "right (node h (a c)) = at a n (2 * c + 1)"
      by (simp_all add: N node_at_def)
    have ca: "at a n c = Some (a c)" using ic cn by (simp add: at_def)
    have lr: "left (node h (a i)) = Some (a c) \<and> right (node h (a i)) = at a n k \<or>
        left (node h (a i)) = at a n k \<and> right (node h (a i)) = Some (a c)"
      unfolding l using c ca by (auto simp: k_def)
    have m: "a i \<noteq> a c" "at a n k \<noteq> Some (a i)" "at a n k \<noteq> Some (a c)" "left (node h (a c)) \<notin> {Some (a i), Some (a c)}"
      "right (node h (a c)) \<notin> {Some (a i), Some (a c)}" "parent (node h (a i)) \<notin> {Some (a i), Some (a c)}"
      unfolding l using p d k(1,2) ne [OF _ i ic(4)] ne [OF _ ic(3) cn] by simp_all
    have q: "at a n k = Some z \<Longrightarrow> left (node h (a c)) \<noteq> Some z \<and> right (node h (a c)) \<noteq> Some z \<and> parent (node h (a i)) \<noteq> Some z"
      "parent (node h (a i)) = Some z \<Longrightarrow> left (node h (a c)) \<noteq> Some z \<and> right (node h (a c)) \<noteq> Some z" for z
      unfolding l using d x [of k "2 * c" z] x [of k "2 * c + 1" z] x [of k "i div 2" z]
        x [of "i div 2" "2 * c" z] x [of "i div 2" "2 * c + 1" z] by auto
    note A = swap_nodes [OF m q lr]
    show "hmin (heap_node_swap (a i) (a c) h) = (if parent (node h (a i)) = None then Some (a c) else hmin h)"
      "nelts (heap_node_swap (a i) (a c) h) = nelts h"
      "node (heap_node_swap (a i) (a c) h) y = (if y = a c
         then (if left (node h (a i)) = Some (a c) then (node h (a i))\<lparr>left := Some (a i)\<rparr> else (node h (a i))\<lparr>right := Some (a i)\<rparr>)
         else swapped (a i) (a c) (at a n k) h y)" by (use A in simp_all)
  qed
  have inj: "inj_on ?b {1..n}"
  proof (rule inj_onI)
    fix u v assume uv: "u \<in> {1..n}" "v \<in> {1..n}" "?b u = ?b v"
    have e: "a u = a v \<longleftrightarrow> u = v" "a u = a i \<longleftrightarrow> u = i" "a u = a c \<longleftrightarrow> u = c" "a i = a v \<longleftrightarrow> i = v" "a c = a v \<longleftrightarrow> c = v"
      "a i = a c \<longleftrightarrow> i = c" "a c = a i \<longleftrightarrow> c = i"
      using uv(1,2) i ic(3,4) cn by (simp_all add: same_entry [OF R(1)])
    show "u = v" using uv(3) e by (simp split: if_splits)
  qed
  have b: "at ?b n m = (if m = i then Some (a c) else if m = c then Some (a i) else at a n m)" for m
    using ic(2,3,4) i cn by (simp add: at_def)
  show ?thesis
    unfolding represents_def
  proof (intro conjI ballI)
    show "inj_on ?b {1..n}" by (rule inj)
    show "nelts (heap_node_swap (a i) (a c) h) = n" using S(2) R(2) by simp
    show "hmin (heap_node_swap (a i) (a c) h) = at ?b n 1"
      using S(1) R(3) i ic(1) cn by (auto simp: N node_at_def at_def)
    fix j assume j: "j \<in> {1..n}"
    have e: "a j = a m \<longleftrightarrow> j = m" if "1 \<le> m" "m \<le> n" for m using same_entry [OF R(1) _ _ that] j by auto
    have l: "left (node h (a i)) = at a n (2 * i)" "right (node h (a i)) = at a n (2 * i + 1)"
      "parent (node h (a i)) = at a n (i div 2)" "left (node h (a c)) = at a n (2 * c)" "right (node h (a c)) = at a n (2 * c + 1)"
      by (simp_all add: N node_at_def)
    show "node (heap_node_swap (a i) (a c) h) (?b j) = node_at ?b n j"
    proof -
      consider "j = i" | "j = c" | "j \<noteq> i" "j \<noteq> c" by blast
      then show ?thesis
      proof cases
        case 1
        have ca: "at a n c = Some (a c)" using ic cn by (simp add: at_def)
        have "left (node h (a i)) = Some (a c) \<longleftrightarrow> c = 2 * i" unfolding l using at_same [OF R(1) ic(3) cn] by auto
        then show ?thesis using 1 S(3) [of "a c"] c d(1,2) ic(2) by (auto simp: node_at_def b N)
      next
        case 2
        have "a i \<noteq> a c" using same_entry [OF R(1) i ic(4,3) cn] ic(2) by simp
        then show ?thesis using 2 S(3) [of "a i"] d ic(2,5) by (simp add: node_at_def b N swapped_def)
      next
        case 3
        have n: "node h (a j) = node_at a n j" using R(4) j by simp
        have y: "a j \<noteq> a i" "a j \<noteq> a c" using 3 e i ic cn by auto
        have t: "at a n m = Some (a j) \<longleftrightarrow> m = j" for m using at_same [OF R(1)] j by auto
        have "node (heap_node_swap (a i) (a c) h) (a j) = swapped (a i) (a c) (at a n k) h (a j)"
          using S(3) [of "a j"] y by simp
        also have "\<dots> = node_at ?b n j"
        proof -
          have k': "k = j \<longleftrightarrow> j div 2 = i" using k(1,4) c 3 by (auto simp: k_def)
          have c': "2 * c = j \<or> 2 * c + 1 = j \<longleftrightarrow> j div 2 = c" by auto
          have i': "i div 2 = j \<longleftrightarrow> 2 * j = i \<or> 2 * j + 1 = i" by auto
          have m: "2 * j \<noteq> c" "2 * j + 1 \<noteq> c" "j div 2 = i \<Longrightarrow> j div 2 \<noteq> c" using 3 c ic(2) by auto
          have li: "left (node h (a j)) = Some (a i) \<longleftrightarrow> 2 * j = i"
            using at_same [OF R(1) i ic(4)] n by (simp add: node_at_def)
          have lo: "i = 2 * j + 1 \<Longrightarrow> j div 2 \<noteq> i \<and> j div 2 \<noteq> c" "i = 2 * j \<Longrightarrow> j div 2 \<noteq> i \<and> j div 2 \<noteq> c"
            using i ic(1) by auto
          show ?thesis
            unfolding swapped_def l t k' c' i' li unfolding n using y m lo by (auto simp: node_at_def b)
        qed
        finally show ?thesis using 3 by simp
      qed
    qed
  qed
qed

section \<open>The walks\<close>

text \<open>The pointer to position \<open>i\<close>, and the position that a path leads to.\<close>

definition ref_to :: "(nat \<Rightarrow> 'a) \<Rightarrow> nat \<Rightarrow> 'a ref" where
  "ref_to a i = (if i \<le> 1 then Root else if odd i then RightOf (a (i div 2)) else LeftOf (a (i div 2)))"

fun descend :: "nat \<Rightarrow> nat \<Rightarrow> nat \<Rightarrow> nat" where
  "descend 0 path i = i"
| "descend (Suc k) path i = descend k (path div 2) (2 * i + path mod 2)"

lemma path_leads: "1 \<le> m \<Longrightarrow> path_loop k path m = (k', path') \<Longrightarrow> descend k' path' 1 = descend k path m"
proof (induction k path m rule: path_loop.induct)
  case (1 k path m)
  show ?case
  proof (cases "2 \<le> m")
    case True
    then have "path_loop (k + 1) (2 * path + m mod 2) (m div 2) = (k', path')"
      using 1(3) by (subst (asm) path_loop.simps) simp
    with 1(1) [OF True] have "descend k' path' 1 = descend (k + 1) (2 * path + m mod 2) (m div 2)" using True by simp
    then show ?thesis by simp
  next
    case False
    then have "m = 1" "k' = k" "path' = path" using 1(2,3) by (auto simp: path_loop.simps [of k path m])
    then show ?thesis by simp
  qed
qed

text \<open>The path value is bounded, so that the shifts of an unsigned int do not overflow.\<close>

lemma path_bounded: "path < 2 ^ k \<Longrightarrow> path_loop k path m = (k', path') \<Longrightarrow> path' < 2 ^ k' \<and> 2 ^ k' \<le> 2 ^ k * max 1 m"
proof (induction k path m rule: path_loop.induct)
  case (1 k path m)
  show ?case
  proof (cases "2 \<le> m")
    case True
    then have p: "path_loop (k + 1) (2 * path + m mod 2) (m div 2) = (k', path')"
      using 1(3) by (subst (asm) path_loop.simps) simp
    have "2 * path + m mod 2 < 2 ^ (k + 1)" using 1(2) by (simp; arith)
    from 1(1) [OF True this p] have "path' < 2 ^ k'" "2 ^ k' \<le> 2 ^ k * (2 * max 1 (m div 2))" by simp_all
    moreover have "2 * max 1 (m div 2) \<le> max 1 m" using True by auto
    ultimately show ?thesis by (meson le_trans mult_le_mono2)
  next
    case False
    then show ?thesis using 1(2,3) by (auto simp: path_loop.simps [of k path m])
  qed
qed

lemma descend_above: "i \<le> descend k path i"
  by (induction k path i rule: descend.induct) auto

lemma deref_ref_to:
  assumes "represents h a n" and "1 \<le> i" and "i \<le> n"
  shows "deref h (ref_to a i) = Some (a i)"
proof (cases "i = 1")
  case True
  then show ?thesis using assms by (simp add: ref_to_def represents_def at_def)
next
  case False
  have "i div 2 \<in> {1..n}" using assms(2,3) False by auto
  then have "node h (a (i div 2)) = node_at a n (i div 2)" using assms(1) by (simp add: represents_def)
  then show ?thesis using assms(2,3) False by (auto simp: ref_to_def node_at_def at_def)
qed

lemma traverse_leads:
  assumes r: "\<And>j. 1 \<le> j \<Longrightarrow> j \<le> n \<Longrightarrow> deref h (ref_to a j) = Some (a j)"
  shows "1 \<le> i \<Longrightarrow> descend k path i div 2 \<le> n \<Longrightarrow>
    traverse h k path par (ref_to a i) = Some (if k = 0 then par else ref_to a (descend k path i div 2), ref_to a (descend k path i))"
proof (induction k path i arbitrary: par rule: descend.induct)
  case (1 path i)
  then show ?case by simp
next
  case (2 k path i)
  let ?j = "2 * i + path mod 2"
  have "?j \<le> descend (Suc k) path i" using descend_above [of ?j k "path div 2"] by simp
  then have i: "i \<le> n" using 2(3) by linarith
  have j: "(if odd path then RightOf (a i) else LeftOf (a i)) = ref_to a ?j"
    using 2(2) by (auto simp: ref_to_def odd_iff_mod_2_eq_one even_iff_mod_2_eq_zero)
  have "traverse h (Suc k) path par (ref_to a i) = traverse h k (path div 2) (ref_to a i) (ref_to a ?j)"
    using r [OF 2(2) i] j by simp
  then show ?case using 2(1) [of "ref_to a i"] 2(2,3) by (cases k) auto
qed

section \<open>Adding and taking out positions\<close>

lemma traverse_ok:
  assumes "represents h a n" and "x \<notin> a ` {1..n}" and "1 \<le> m" and "m \<le> n + 1" and p: "path_loop 0 0 m = (k, path)"
    and g: "\<And>y. y \<in> a ` {1..n} \<Longrightarrow> node g y = node h y" "hmin g = hmin h"
  shows "traverse g k path Root Root = Some (ref_to a (m div 2), ref_to a m)"
proof -
  have d: "descend k path 1 = m" using path_leads [OF assms(3) p] by simp
  have "deref g (ref_to a j) = deref h (ref_to a j)" if "1 \<le> j" "j \<le> n" for j
  proof (cases "j = 1")
    case False
    then have "a (j div 2) \<in> a ` {1..n}" using that by (intro imageI) auto
    then show ?thesis using g that False by (auto simp: ref_to_def)
  qed (simp add: ref_to_def g)
  then have "\<And>j. 1 \<le> j \<Longrightarrow> j \<le> n \<Longrightarrow> deref g (ref_to a j) = Some (a j)" using deref_ref_to [OF assms(1)] by metis
  from traverse_leads [OF this, where i = 1 and k = k and path = path and par = Root] have
    "traverse g k path Root (ref_to a 1) = Some (if k = 0 then Root else ref_to a (m div 2), ref_to a m)"
    using d assms(4) by auto
  moreover have "k = 0 \<Longrightarrow> m = 1" using d by (cases k) auto
  moreover have "ref_to a 1 = Root" "ref_to a (1 div 2) = Root" by (simp_all add: ref_to_def)
  ultimately show ?thesis by auto
qed

lemma assign_node [simp]:
  "left (node (assign r v h) y) = (if r = LeftOf y then v else left (node h y))"
  "right (node (assign r v h) y) = (if r = RightOf y then v else right (node h y))"
  "parent (node (assign r v h) y) = parent (node h y)"
  "hmin (assign r v h) = (if r = Root then v else hmin h)" "nelts (assign r v h) = nelts h"
  by (cases r; simp add: upd_node_def)+

lemma ref_to_eq:
  assumes "inj_on a {1..n}" and "1 \<le> j" and "j \<le> n" and "1 \<le> m" and "m \<le> n + 1"
  shows "ref_to a m = LeftOf (a j) \<longleftrightarrow> m = 2 * j" "ref_to a m = RightOf (a j) \<longleftrightarrow> m = 2 * j + 1" "ref_to a m = Root \<longleftrightarrow> m = 1"
proof -
  have "a (m div 2) = a j \<longleftrightarrow> m div 2 = j" if "2 \<le> m"
    by (rule same_entry [OF assms(1) _ _ assms(2,3)]) (use assms that in auto)
  then show "ref_to a m = LeftOf (a j) \<longleftrightarrow> m = 2 * j" "ref_to a m = RightOf (a j) \<longleftrightarrow> m = 2 * j + 1"
    "ref_to a m = Root \<longleftrightarrow> m = 1"
    using assms(2,4) by (auto simp: ref_to_def)
qed

lemma attach_represents:
  assumes r: "represents h a n" and x: "x \<notin> a ` {1..n}"
    and g: "\<And>y. y \<in> a ` {1..n} \<Longrightarrow> node g y = node h y" "hmin g = hmin h"
      "node g x = \<lparr>left = None, right = None, parent = at a n ((n + 1) div 2)\<rparr>"
  shows "represents ((assign (ref_to a (n + 1)) (Some x) g)\<lparr>nelts := n + 1\<rparr>) (a(n + 1 := x)) (n + 1)"
proof -
  note R = representsD [OF r]
  let ?b = "a(n + 1 := x)"
  have at: "at ?b (n + 1) m = (if m = n + 1 then Some x else at a n m)" for m by (auto simp: at_def)
  have "?b ` {1..n} = a ` {1..n}" by (intro image_cong) auto
  then have inj: "inj_on ?b {1..n + 1}"
    using inj_on_fun_updI [OF R(1) x] x by (simp add: atLeastAtMostSuc_conv)
  show ?thesis unfolding represents_def
  proof (intro conjI ballI)
    show "hmin ((assign (ref_to a (n + 1)) (Some x) g)\<lparr>nelts := n + 1\<rparr>) = at ?b (n + 1) 1"
      using R(3) g(2) at [of 1] by (auto simp: ref_to_def)
  next
    fix j assume j: "j \<in> {1..n + 1}"
    show "node ((assign (ref_to a (n + 1)) (Some x) g)\<lparr>nelts := n + 1\<rparr>) (?b j) = node_at ?b (n + 1) j"
    proof (cases "j = n + 1")
      case True
      have "ref_to a (n + 1) \<noteq> LeftOf x" "ref_to a (n + 1) \<noteq> RightOf x"
        using x imageI [of "(n + 1) div 2" "{1..n}" a] by (auto simp: ref_to_def)
      then show ?thesis using True g(3) by (auto intro!: node_eqI simp: node_at_def at) (simp_all add: at_def)
    next
      case False
      then have jn: "1 \<le> j" "j \<le> n" using j by auto
      then have "node g (a j) = node_at a n j" using R(4) g(1) by simp
      moreover have "2 * j = n + 1 \<longleftrightarrow> n + 1 = 2 * j" "2 * j + 1 = n + 1 \<longleftrightarrow> n + 1 = 2 * j + 1" "j div 2 \<noteq> n + 1"
        using jn by auto
      ultimately show ?thesis using False ref_to_eq [OF R(1) jn, of "n + 1"]
        by (intro node_eqI) (simp_all add: node_at_def at del: One_nat_def add_Suc_right add_0_right)
    qed
  qed (use inj in simp_all)
qed

lemma at_less: "at a n m = (if m = Suc n then None else at a (Suc n) m)"
  by (auto simp: at_def)

lemma detach_represents:
  assumes r: "represents h a (Suc n)"
  shows "represents ((assign (ref_to a (Suc n)) None h)\<lparr>nelts := n\<rparr>) a n"
proof -
  note R = representsD [OF r]
  show ?thesis unfolding represents_def
  proof (intro conjI ballI)
    show "inj_on a {1..n}" by (rule inj_on_subset [OF R(1)]) auto
    show "hmin ((assign (ref_to a (Suc n)) None h)\<lparr>nelts := n\<rparr>) = at a n 1"
      using R(3) by (auto simp: ref_to_def at_def)
  next
    fix j assume j: "j \<in> {1..n}"
    then have jn: "1 \<le> j" "j \<le> Suc n" "j div 2 \<noteq> Suc n" by auto
    show "node ((assign (ref_to a (Suc n)) None h)\<lparr>nelts := n\<rparr>) (a j) = node_at a n j"
      using R(4) [OF jn(1,2)] jn ref_to_eq [OF R(1) jn(1,2), of "Suc n"]
      by (intro node_eqI) (simp_all add: node_at_def at_less [of a n] eq_commute [of "Suc n"])
  qed simp
qed

lemma replace_node:
  assumes "x \<noteq> y" and "left (node h x) \<notin> {Some x, Some y}" and "right (node h x) \<notin> {Some x, Some y}" and "parent (node h x) \<noteq> Some y"
  shows "left (node (replace x y h) z) = (if z = y then left (node h x)
      else if parent (node h x) = Some z \<and> left (node h z) = Some x then Some y else left (node h z))"
    "right (node (replace x y h) z) = (if z = y then right (node h x)
      else if parent (node h x) = Some z \<and> left (node h z) \<noteq> Some x then Some y else right (node h z))"
    "parent (node (replace x y h) z) = (if z = y then parent (node h x)
      else if left (node h x) = Some z \<or> right (node h x) = Some z then Some y else parent (node h z))"
    "hmin (replace x y h) = (if parent (node h x) = None then Some y else hmin h)" "nelts (replace x y h) = nelts h"
  using assms by (simp_all add: replace_def Let_def)

lemma replace_represents:
  assumes r: "represents h a n" and i: "1 \<le> i" "i \<le> n" and y: "y \<notin> a ` {1..n}"
  shows "represents (replace (a i) y h) (a(i := y)) n"
proof -
  note R = representsD [OF r]
  let ?b = "a(i := y)"
  have inj: "inj_on ?b {1..n}" by (rule inj_on_fun_updI [OF R(1) y])
  have at: "at ?b n m = (if m = i then Some y else at a n m)" for m using i by (simp add: at_def)
  have t: "at a n m = Some (a j) \<longleftrightarrow> m = j" if "1 \<le> j" "j \<le> n" for m j by (rule at_same [OF R(1) that])
  have ny: "at a n m \<noteq> Some y" for m using y by (auto simp: at_def)
  have N: "left (node h (a j)) = at a n (2 * j)" "right (node h (a j)) = at a n (2 * j + 1)"
    "parent (node h (a j)) = at a n (j div 2)" if "1 \<le> j" "j \<le> n" for j
    using R(4) [OF that] by (simp_all add: node_at_def)
  have off: "i div 2 \<noteq> i" "2 * i \<noteq> i" "2 * i + 1 \<noteq> i" using i by auto
  have ai: "a i \<noteq> y" using y i by auto
  have V: "left (node h (a i)) \<notin> {Some (a i), Some y}" "right (node h (a i)) \<notin> {Some (a i), Some y}" "parent (node h (a i)) \<noteq> Some y"
    using N [OF i] ny t [OF i] off by simp_all
  note X = replace_node [OF ai V]
  show ?thesis unfolding represents_def
  proof (intro conjI ballI)
    show "hmin (replace (a i) y h) = at ?b n 1"
      using R(3) i unfolding X N [OF i] at by (auto simp: at_def)
  next
    fix j assume j: "j \<in> {1..n}"
    then have jn: "1 \<le> j" "j \<le> n" by auto
    show "node (replace (a i) y h) (?b j) = node_at ?b n j"
    proof (cases "j = i")
      case True
      then show ?thesis using N [OF i] off by (intro node_eqI) (simp_all add: X node_at_def at)
    next
      case False
      have jy: "a j \<noteq> y" using y jn by auto
      have p: "i div 2 = j \<and> 2 * j = i \<longleftrightarrow> 2 * j = i" "i div 2 = j \<and> 2 * j \<noteq> i \<longleftrightarrow> 2 * j + 1 = i"
        "2 * i = j \<or> 2 * i + 1 = j \<longleftrightarrow> j div 2 = i" by auto
      show ?thesis
        using False jy unfolding X N [OF i] N [OF jn] t [OF jn] t [OF i] p
        by (intro node_eqI) (simp_all add: X N [OF i] N [OF jn] t [OF jn] t [OF i] p [unfolded Suc_eq_plus1] node_at_def at del: One_nat_def add_Suc_right)
    qed
  qed (use inj R(2) in \<open>simp_all add: X\<close>)
qed

section \<open>Insertion and removal keep the order\<close>

locale comparison =
  fixes lt :: "'a \<Rightarrow> 'a \<Rightarrow> bool"
  assumes asym: "lt x y \<Longrightarrow> \<not> lt y x"
    and trans: "\<not> lt x y \<Longrightarrow> \<not> lt y z \<Longrightarrow> \<not> lt x z"

text \<open>
  The order is broken at most between position \<open>i\<close> and its neighbours, and the children of \<open>i\<close>
  are not less than its parent.
\<close>

definition order_but :: "('a \<Rightarrow> 'a \<Rightarrow> bool) \<Rightarrow> (nat \<Rightarrow> 'a) \<Rightarrow> nat \<Rightarrow> nat \<Rightarrow> bool" where
  "order_but lt a n i \<longleftrightarrow> (\<forall>j \<in> {2..n}. j \<noteq> i \<longrightarrow> j div 2 \<noteq> i \<longrightarrow> \<not> lt (a j) (a (j div 2))) \<and>
     (\<forall>j \<in> {2..n}. j div 2 = i \<longrightarrow> 2 \<le> i \<longrightarrow> \<not> lt (a j) (a (i div 2)))"

definition below_ok :: "('a \<Rightarrow> 'a \<Rightarrow> bool) \<Rightarrow> (nat \<Rightarrow> 'a) \<Rightarrow> nat \<Rightarrow> nat \<Rightarrow> bool" where
  "below_ok lt a n i \<longleftrightarrow> (\<forall>j \<in> {2..n}. j div 2 = i \<longrightarrow> \<not> lt (a j) (a i))"

lemma swap_image: "1 \<le> i \<Longrightarrow> i \<le> n \<Longrightarrow> 1 \<le> c \<Longrightarrow> c \<le> n \<Longrightarrow> (a(i := a c, c := a i)) ` {1..n} = a ` {1..n}"
  by (auto simp: image_iff)

context comparison
begin

lemma irrefl: "\<not> lt x x"
  using asym by blast

lemma walk_up_ok:
  assumes "represents h a n" and "1 \<le> i" and "i \<le> n" and "order_but lt a n i" and "below_ok lt a n i"
  shows "\<exists>h' b. walk_up lt (a i) h = Some h' \<and> represents h' b n \<and> heap_order lt b n \<and> b ` {1..n} = a ` {1..n}"
  using assms
proof (induction i arbitrary: h a rule: less_induct)
  case (less i)
  note R = representsD [OF less.prems(1)]
  have n: "parent (node h (a i)) = at a n (i div 2)" using R(4) less.prems(2,3) by (simp add: node_at_def)
  have ord: "heap_order lt a n" if "2 \<le> i \<Longrightarrow> \<not> lt (a i) (a (i div 2))"
    using that less.prems(4,5) unfolding heap_order_def order_but_def below_ok_def by (metis atLeastAtMost_iff)
  show ?case
  proof (cases "2 \<le> i \<and> lt (a i) (a (i div 2))")
    case False
    then have "walk_up lt (a i) h = Some h"
      using n less.prems(2,3) by (subst walk_up.simps) (auto simp: at_def)
    then show ?thesis using less.prems(1) ord False by blast
  next
    case True
    let ?p = "i div 2" let ?b = "a(?p := a i, i := a ?p)" let ?h = "heap_node_swap (a ?p) (a i) h"
    have p: "1 \<le> ?p" "?p < i" "?p \<le> n" "i = 2 * ?p \<or> i = 2 * ?p + 1" using True less.prems(3) by auto
    have w: "walk_up lt (a i) h = walk_up lt (?b ?p) ?h"
      using n True p by (subst walk_up.simps) (simp add: at_def)
    have r: "represents ?h ?b n" by (rule swap_represents [OF less.prems(1) p(1) p(4) less.prems(3)])
    have eb: "\<not> lt (a j) (a (j div 2))" if "2 \<le> j" "j \<le> n" "j \<noteq> i" for j
      using less.prems(4,5) that unfolding order_but_def below_ok_def by (metis atLeastAtMost_iff)
    have br: "\<not> lt (a j) (a ?p)" if "2 \<le> j" "j \<le> n" "j div 2 = i" for j
      using less.prems(4) that True unfolding order_but_def by (metis atLeastAtMost_iff)
    have ob: "order_but lt ?b n ?p"
      unfolding order_but_def
    proof (intro conjI ballI impI)
      fix j assume j: "j \<in> {2..n}" "j \<noteq> ?p" "j div 2 \<noteq> ?p"
      then have "j \<noteq> i" by auto
      then show "\<not> lt (?b j) (?b (j div 2))" using j eb [of j] br [of j] by (cases "j div 2 = i") auto
    next
      fix j assume j: "j \<in> {2..n}" "j div 2 = ?p" "2 \<le> ?p"
      have pp: "?p div 2 \<noteq> i" "?p div 2 \<noteq> ?p" using j(3) p(2) by auto
      have "\<not> lt (a j) (a ?p)" if "j \<noteq> i" using eb [of j] j that by auto
      moreover have "\<not> lt (a ?p) (a (?p div 2))" using eb [of ?p] j(3) p by auto
      ultimately show "\<not> lt (?b j) (?b (?p div 2))"
        using trans [of "a j" "a ?p"] pp j p(2) by (cases "j = i") auto
    qed
    have bo: "below_ok lt ?b n ?p"
      unfolding below_ok_def
    proof (intro ballI impI)
      fix j assume j: "j \<in> {2..n}" "j div 2 = ?p"
      have "\<not> lt (a ?p) (a i)" using True asym by blast
      moreover have "\<not> lt (a j) (a i)" if "j \<noteq> i"
      proof -
        have "\<not> lt (a j) (a ?p)" using eb [of j] j that by auto
        then show ?thesis using trans calculation by blast
      qed
      moreover have "j \<noteq> ?p" using j p by auto
      ultimately show "\<not> lt (?b j) (?b ?p)" using p(2) by (cases "j = i") auto
    qed
    from less.IH [OF p(2) r p(1) p(3) ob bo] obtain h' b' where
      b': "walk_up lt (?b ?p) ?h = Some h'" "represents h' b' n" "heap_order lt b' n" "b' ` {1..n} = ?b ` {1..n}" by blast
    have "?b ` {1..n} = a ` {1..n}" by (rule swap_image) (use p less.prems in auto)
    then show ?thesis using b' w by auto
  qed
qed

lemma walk_down_ok:
  assumes "represents h a n" and "1 \<le> i" and "i \<le> n" and "order_but lt a n i"
  shows "\<exists>h' b j. walk_down lt (a i) h = Some h' \<and> represents h' b n \<and> b ` {1..n} = a ` {1..n} \<and>
    1 \<le> j \<and> j \<le> n \<and> b j = a i \<and> order_but lt b n j \<and> below_ok lt b n j"
  using assms
proof (induction "n - i" arbitrary: h a i rule: less_induct)
  case less
  note r = less.prems(1) and i = less.prems(2,3) and o = less.prems(4)
  note R = representsD [OF r]
  define l where "l = smallest_of lt (left (node h (a i))) (a i)"
  define s where "s = smallest_of lt (right (node h (a i))) l"
  have nd: "left (node h (a i)) = at a n (2 * i)" "right (node h (a i)) = at a n (2 * i + 1)"
    using R(4) [OF i] by (simp_all add: node_at_def)
  have unf: "walk_down lt (a i) h = (if s = a i then Some h else walk_down lt (a i) (heap_node_swap (a i) s h))"
    by (subst walk_down.simps) (simp add: Let_def s_def l_def)
  have l: "l = a i \<and> (2 * i \<le> n \<longrightarrow> \<not> lt (a (2 * i)) (a i)) \<or> 2 * i \<le> n \<and> l = a (2 * i) \<and> lt (a (2 * i)) (a i)"
    using i by (auto simp: l_def smallest_of_def nd at_def)
  have s: "s = l \<and> (2 * i + 1 \<le> n \<longrightarrow> \<not> lt (a (2 * i + 1)) l) \<or> 2 * i + 1 \<le> n \<and> s = a (2 * i + 1) \<and> lt (a (2 * i + 1)) l"
    using i by (auto simp: s_def smallest_of_def nd at_def)
  consider (stop) "s = a i" "\<And>c. c \<in> {2 * i, 2 * i + 1} \<Longrightarrow> c \<le> n \<Longrightarrow> \<not> lt (a c) (a i)"
    | (move) c where "c \<in> {2 * i, 2 * i + 1}" "c \<le> n" "s = a c" "lt (a c) (a i)"
        "\<And>k. k \<in> {2 * i, 2 * i + 1} \<Longrightarrow> k \<le> n \<Longrightarrow> \<not> lt (a k) (a c)"
  proof (cases "2 * i + 1 \<le> n \<and> s = a (2 * i + 1) \<and> lt (a (2 * i + 1)) l")
    case True
    moreover have "\<not> lt (a (2 * i)) (a (2 * i + 1)) \<and> lt (a (2 * i + 1)) (a i)"
      using True l asym trans by (metis le_add1 le_trans)
    ultimately show ?thesis using move [of "2 * i + 1"] irrefl by auto
  next
    case False
    with s have s': "s = l" "2 * i + 1 \<le> n \<Longrightarrow> \<not> lt (a (2 * i + 1)) l" by auto
    show ?thesis
    proof (cases "l = a i \<and> (2 * i \<le> n \<longrightarrow> \<not> lt (a (2 * i)) (a i))")
      case True
      then show ?thesis using stop s' by auto
    next
      case False
      then show ?thesis using move [of "2 * i"] l s' irrefl by auto
    qed
  qed
  then show ?case
  proof cases
    case stop
    have "below_ok lt a n i" unfolding below_ok_def
    proof (intro ballI impI)
      fix j assume j: "j \<in> {2..n}" "j div 2 = i"
      then have "j \<in> {2 * i, 2 * i + 1}" by auto
      then show "\<not> lt (a j) (a i)" using stop(2) [of j] j(1) by auto
    qed
    then show ?thesis using stop(1) unf r i o by auto
  next
    case move
    let ?b = "a(i := a c, c := a i)" let ?h = "heap_node_swap (a i) (a c) h"
    have c: "1 \<le> c" "i < c" "c div 2 = i" "2 \<le> c" using move(1) i by auto
    have "a c \<noteq> a i" using move(4) irrefl by metis
    then have w: "walk_down lt (a i) h = walk_down lt (?b c) ?h" using unf move(3) by simp
    have r': "represents ?h ?b n" by (rule swap_represents [OF r i(1) _ move(2)]) (use move(1) in auto)
    have ob: "order_but lt ?b n c"
      unfolding order_but_def
    proof (intro conjI ballI impI)
      fix j assume j: "j \<in> {2..n}" "j \<noteq> c" "j div 2 \<noteq> c"
      have jc: "j div 2 \<noteq> j" using j(1) by auto
      consider "j = i" | "j div 2 = i" | "j \<noteq> i" "j div 2 \<noteq> i" by blast
      then show "\<not> lt (?b j) (?b (j div 2))"
      proof cases
        case 1
        have "\<not> lt (a c) (a (i div 2))" using o c move(2) i j(1) 1 unfolding order_but_def by auto
        then show ?thesis using 1 j jc by simp
      next
        case 2
        then have "j = 2 * i \<or> j = 2 * i + 1" by presburger
        then have "\<not> lt (a j) (a c)" using move(5) [of j] j(1) by auto
        then show ?thesis using 2 j jc c by auto
      next
        case 3
        have "\<not> lt (a j) (a (j div 2))" using o 3 j(1) unfolding order_but_def by auto
        then show ?thesis using 3 j jc by simp
      qed
    next
      fix j assume j: "j \<in> {2..n}" "j div 2 = c" "2 \<le> c"
      have "j \<noteq> i" "j \<noteq> c" using j c by auto
      moreover have "\<not> lt (a j) (a c)" using o c j \<open>j \<noteq> i\<close> unfolding order_but_def by auto
      ultimately show "\<not> lt (?b j) (?b (c div 2))" using c by auto
    qed
    have m: "n - c < n - i" using c(2) move(2) by simp
    from less.hyps [OF m r' c(1) move(2) ob] obtain h' b' j where
      b': "walk_down lt (?b c) ?h = Some h'" "represents h' b' n" "b' ` {1..n} = ?b ` {1..n}" "1 \<le> j" "j \<le> n"
        "b' j = ?b c" "order_but lt b' n j" "below_ok lt b' n j" by blast
    have "?b ` {1..n} = a ` {1..n}" by (rule swap_image) (use c(1) move(2) i in auto)
    then show ?thesis using b' w by auto
  qed
qed

lemma heap_insert_ok:
  assumes r: "represents h a n" and o: "heap_order lt a n" and x: "x \<notin> a ` {1..n}"
  shows "\<exists>h' b. heap_insert lt x h = Some h' \<and> represents h' b (n + 1) \<and> heap_order lt b (n + 1) \<and>
    b ` {1..n + 1} = insert x (a ` {1..n})"
proof -
  note R = representsD [OF r]
  let ?b = "a(n + 1 := x)"
  define h1 where "h1 = upd_node x (\<lambda>_. \<lparr>left = None, right = None, parent = None\<rparr>) h"
  define h2 where "h2 = upd_node x (\<lambda>n'. n'\<lparr>parent := deref h1 (ref_to a ((n + 1) div 2))\<rparr>) h1"
  obtain k path where p: "path_loop 0 0 (n + 1) = (k, path)" by fastforce
  have g1: "y \<in> a ` {1..n} \<Longrightarrow> node h1 y = node h y" "hmin h1 = hmin h" for y
    using x by (auto simp: h1_def upd_node_def)
  have t: "traverse h1 k path Root Root = Some (ref_to a ((n + 1) div 2), ref_to a (n + 1))"
    by (rule traverse_ok [OF r x _ _ p g1]) simp_all
  have d: "deref h1 (ref_to a ((n + 1) div 2)) = at a n ((n + 1) div 2)"
  proof (cases "n = 0")
    case True
    then show ?thesis using R(3) g1(2) by (simp add: ref_to_def at_def)
  next
    case False
    then have m: "1 \<le> (n + 1) div 2" "(n + 1) div 2 \<le> n" by auto
    have "a ((n + 1) div 2 div 2) \<in> a ` {1..n}" if "(n + 1) div 2 \<noteq> 1" using m that by (intro imageI) auto
    then have "deref h1 (ref_to a ((n + 1) div 2)) = deref h (ref_to a ((n + 1) div 2))"
      using g1(1) [of "a ((n + 1) div 2 div 2)"] g1(2) m by (auto simp: ref_to_def)
    then show ?thesis using deref_ref_to [OF r m] m by (simp add: at_def)
  qed
  have "represents ((assign (ref_to a (n + 1)) (Some x) h2)\<lparr>nelts := n + 1\<rparr>) ?b (n + 1)"
    by (rule attach_represents [OF r x]) (use x g1 d in \<open>auto simp: h2_def h1_def upd_node_def\<close>)
  moreover have "order_but lt ?b (n + 1) (n + 1)" "below_ok lt ?b (n + 1) (n + 1)"
    using o by (auto simp: heap_order_def order_but_def below_ok_def)
  ultimately obtain h' b where w: "walk_up lt (?b (n + 1)) ((assign (ref_to a (n + 1)) (Some x) h2)\<lparr>nelts := n + 1\<rparr>) = Some h'"
    "represents h' b (n + 1)" "heap_order lt b (n + 1)" "b ` {1..n + 1} = ?b ` {1..n + 1}"
    using walk_up_ok [of _ ?b "n + 1" "n + 1"] by (metis le_add2 order_refl)
  have "?b ` {1..n} = a ` {1..n}" by (intro image_cong) auto
  then have "?b ` insert (n + 1) {1..n} = insert x (a ` {1..n})" by (simp only: image_insert fun_upd_same)
  moreover have "insert (n + 1) {1..n} = {1..n + 1}" by auto
  ultimately have "?b ` {1..n + 1} = insert x (a ` {1..n})" by (simp only:)
  moreover have "heap_insert lt x h = Some h'"
    using p t w(1) R(2) by (simp add: heap_insert_def h1_def [symmetric] h2_def [symmetric] del: One_nat_def) (simp add: h2_def)
  ultimately show ?thesis using w(2-4) by auto
qed

text \<open>The last node in place of the one at \<open>i\<close>: only the order at \<open>i\<close> may be broken.\<close>

lemma replaced_order:
  assumes o: "heap_order lt a (Suc n)" and i: "1 \<le> i"
  shows "order_but lt (a(i := y)) n i"
  unfolding order_but_def
proof (intro conjI ballI impI)
  fix j assume j: "j \<in> {2..n}" "j \<noteq> i" "j div 2 \<noteq> i"
  then show "\<not> lt ((a(i := y)) j) ((a(i := y)) (j div 2))" using o by (simp add: heap_order_def)
next
  fix j assume j: "j \<in> {2..n}" "j div 2 = i" "2 \<le> i"
  then have "j \<noteq> i" "i div 2 \<noteq> i" "i \<le> n" by auto
  moreover have "\<not> lt (a j) (a i)" using o j by (auto simp: heap_order_def)
  moreover have "\<not> lt (a i) (a (i div 2))" using o j(3) calculation(3) by (simp add: heap_order_def)
  ultimately show "\<not> lt ((a(i := y)) j) ((a(i := y)) (i div 2))" using trans by auto
qed

lemma heap_remove_ok:
  assumes r: "represents h a n" and o: "heap_order lt a n" and i: "1 \<le> i" "i \<le> n"
  shows "\<exists>h' b. heap_remove lt (a i) h = Some h' \<and> represents h' b (n - 1) \<and> heap_order lt b (n - 1) \<and>
    b ` {1..n - 1} = a ` {1..n} - {a i}"
proof -
  obtain m where n: "n = Suc m" using i by (cases n) auto
  note R = representsD [OF r]
  obtain k path where p: "path_loop 0 0 n = (k, path)" by fastforce
  have d: "descend k path 1 = n" using path_leads [OF _ p] i by simp
  define h1 where "h1 = (assign (ref_to a n) None h)\<lparr>nelts := m\<rparr>"
  have t: "\<exists>q. traverse h k path Root Root = Some (q, ref_to a n)"
    using traverse_leads [OF deref_ref_to [OF r], of n 1 k path Root] d
    unfolding ref_to_def [of a 1] by simp
  have c: "deref h (ref_to a n) = Some (a n)" by (rule deref_ref_to [OF r]) (use i in auto)
  have r1: "represents h1 a m" unfolding h1_def n by (rule detach_represents) (use r n in simp)
  have o1: "heap_order lt a m" using o n by (simp add: heap_order_def)
  have unf: "heap_remove lt (a i) h = (if a n = a i then Some (if hmin h1 = Some (a n) then h1\<lparr>hmin := None\<rparr> else h1)
      else (case walk_down lt (a n) (replace (a i) (a n) h1) of None \<Rightarrow> None | Some h5 \<Rightarrow> walk_up lt (a n) h5))"
    using t by (elim exE) (simp only: heap_remove_def p [unfolded n] R(2) c [unfolded n] n Let_def prod.case option.case nat.simps if_False diff_Suc_1 h1_def)
  have an: "a n \<notin> a ` {1..m}" using R(1) n by (auto dest: inj_onD)
  show ?thesis
  proof (cases "a n = a i")
    case True
    have "a 1 \<noteq> a n" if "1 \<le> m" using that an by (metis atLeastAtMost_iff imageI order_refl)
    then have "hmin h1 \<noteq> Some (a n)" using representsD(3) [OF r1] by (auto simp: at_def)
    moreover have "a ` {1..n} - {a i} = a ` {1..m}" using True an n by (auto simp: atLeastAtMostSuc_conv)
    ultimately show ?thesis using True unf r1 o1 n by auto
  next
    case False
    let ?b = "a(i := a n)"
    have im: "i \<le> m" using False i n by (cases "i = n") auto
    have r2: "represents (replace (a i) (a n) h1) ?b m" by (rule replace_represents [OF r1 i(1) im an])
    have "order_but lt ?b m i" by (rule replaced_order) (use o n i in auto)
    from walk_down_ok [OF r2 i(1) im this] obtain h5 b j where
      b: "walk_down lt (?b i) (replace (a i) (a n) h1) = Some h5" "represents h5 b m" "b ` {1..m} = ?b ` {1..m}"
        "1 \<le> j" "j \<le> m" "b j = ?b i" "order_but lt b m j" "below_ok lt b m j" by blast
    from walk_up_ok [OF b(2,4,5,7,8)] obtain h' b' where
      b': "walk_up lt (b j) h5 = Some h'" "represents h' b' m" "heap_order lt b' m" "b' ` {1..m} = b ` {1..m}" by blast
    have "?b ` {1..m} = a ` {1..n} - {a i}"
    proof -
      have "?b ` {1..m} = insert (a n) (a ` ({1..m} - {i}))" using i im by (auto simp: image_iff)
      also have "a ` ({1..m} - {i}) = a ` {1..m} - {a i}"
        using R(1) i im n by (subst inj_on_image_set_diff [of a "{1..n}"]) auto
      finally show ?thesis using False n by (auto simp: atLeastAtMostSuc_conv)
    qed
    then show ?thesis using False unf b b' n by auto
  qed
qed

text \<open>The root is a least element.\<close>

lemma heap_root_least:
  assumes "heap_order lt a n" and "1 \<le> i" and "i \<le> n"
  shows "\<not> lt (a i) (a 1)"
  using assms(2,3)
proof (induction i rule: less_induct)
  case (less i)
  show ?case
  proof (cases "i = 1")
    case True
    then show ?thesis using irrefl by simp
  next
    case False
    then have "\<not> lt (a (i div 2)) (a 1)" using less by auto
    moreover have "\<not> lt (a i) (a (i div 2))" using assms(1) less.prems False by (simp add: heap_order_def)
    ultimately show ?thesis using trans by blast
  qed
qed

end

interpretation timers: comparison "timer_less_than w" for w
  by unfold_locales (auto simp: timer_less_than_def split: if_splits)

section \<open>The heap of a loop\<close>

text \<open>
  \<open>heap_of w h xs\<close>: the pointer heap \<open>h\<close> holds exactly the timers \<open>xs\<close>, in the order of a heap
  under the comparison that the loop passes to it.
\<close>

definition heap_of :: "world \<Rightarrow> oid heap \<Rightarrow> oid list \<Rightarrow> bool" where
  "heap_of w h xs \<longleftrightarrow> distinct xs \<and>
     (\<exists>a. represents h a (length xs) \<and> heap_order (timer_less_than w) a (length xs) \<and> a ` {1..length xs} = set xs)"

lemma heap_of_init: "heap_of w (heap_init h) []"
  by (simp add: heap_of_def heap_init_def represents_def heap_order_def at_def)

lemma heap_of_insert:
  assumes "heap_of w h xs" and "x \<notin> set xs"
  shows "\<exists>h'. heap_insert (timer_less_than w) x h = Some h' \<and> heap_of w h' (xs @ [x])"
proof -
  from assms obtain a where a: "represents h a (length xs)" "heap_order (timer_less_than w) a (length xs)"
    "a ` {1..length xs} = set xs" "distinct xs" by (auto simp: heap_of_def)
  from timers.heap_insert_ok [OF a(1,2), of x] obtain h' b where
    "heap_insert (timer_less_than w) x h = Some h'" "represents h' b (length xs + 1)"
    "heap_order (timer_less_than w) b (length xs + 1)" "b ` {1..length xs + 1} = insert x (set xs)"
    using a(3) assms(2) by auto
  then show ?thesis using a(4) assms(2) by (auto simp: heap_of_def)
qed

lemma heap_of_remove:
  assumes "heap_of w h xs" and "x \<in> set xs"
  shows "\<exists>h'. heap_remove (timer_less_than w) x h = Some h' \<and> heap_of w h' (removeAll x xs)"
proof -
  from assms(1) obtain a where a: "represents h a (length xs)" "heap_order (timer_less_than w) a (length xs)"
    "a ` {1..length xs} = set xs" "distinct xs" by (auto simp: heap_of_def)
  have l: "length (removeAll x xs) = length xs - 1" using a(4) assms(2)
    by (simp add: distinct_remove1_removeAll [symmetric] length_remove1)
  obtain i where i: "1 \<le> i" "i \<le> length xs" "a i = x"
    using assms(2) a(3) by (metis atLeastAtMost_iff imageE)
  from timers.heap_remove_ok [OF a(1,2) i(1,2)] obtain h' b where
    "heap_remove (timer_less_than w) x h = Some h'" "represents h' b (length xs - 1)"
    "heap_order (timer_less_than w) b (length xs - 1)" "b ` {1..length xs - 1} = set xs - {x}"
    using a(3) i(3) by auto
  then show ?thesis using a(4) l by (auto simp: heap_of_def distinct_removeAll)
qed

text \<open>The order depends on the keys of the members only.\<close>

lemma heap_of_cong:
  assumes "heap_of w h xs" and "\<And>x. x \<in> set xs \<Longrightarrow> u_timeout (uvh w' x) = u_timeout (uvh w x) \<and> u_start_id (uvh w' x) = u_start_id (uvh w x)"
  shows "heap_of w' h xs"
proof -
  from assms(1) obtain a where a: "represents h a (length xs)" "heap_order (timer_less_than w) a (length xs)"
    "a ` {1..length xs} = set xs" "distinct xs" by (auto simp: heap_of_def)
  have m: "a j \<in> set xs" if "1 \<le> j" "j \<le> length xs" for j using a(3) that by auto
  have "timer_less_than w' (a j) (a (j div 2)) = timer_less_than w (a j) (a (j div 2))" if "2 \<le> j" "j \<le> length xs" for j
    using assms(2) [OF m [of j]] assms(2) [OF m [of "j div 2"]] that by (simp add: timer_less_than_def)
  then have "heap_order (timer_less_than w') a (length xs)" using a(2) by (simp add: heap_order_def)
  then show ?thesis using a by (auto simp: heap_of_def)
qed

lemma heap_of_empty: "heap_of w h xs \<Longrightarrow> hmin h = None \<longleftrightarrow> xs = []"
  by (cases xs) (auto simp: heap_of_def represents_def at_def)

lemma earliest_timer_least:
  "earliest_timer w xs = Some m \<Longrightarrow> m \<in> set xs \<and> (\<forall>x \<in> set xs. \<not> timer_less_than w x m)"
proof (induction xs arbitrary: m)
  case (Cons x xs)
  show ?case
  proof (cases "earliest_timer w xs")
    case None
    then have "xs = []" by (cases xs) (auto split: option.splits if_splits)
    then show ?thesis using Cons.prems timers.irrefl by auto
  next
    case (Some k)
    note k = Cons.IH [OF Some]
    show ?thesis
    proof (cases "timer_less_than w k x")
      case True
      then show ?thesis using Cons.prems Some k timers.asym [OF True] by simp
    next
      case False
      moreover have "\<not> timer_less_than w y x" if "y \<in> set xs" for y
        using timers.trans [of w y k x] k that False by blast
      ultimately show ?thesis using Cons.prems Some timers.irrefl by simp
    qed
  qed
qed simp

lemma earliest_timer_None: "earliest_timer w xs = None \<longleftrightarrow> xs = []"
  by (cases xs) (auto split: option.splits if_splits)

text \<open>The start ids of running timers differ, so the least timer is unique.\<close>

lemma heap_of_min:
  assumes h: "heap_of w h xs" and i: "inj_on (\<lambda>x. u_start_id (uvh w x)) (set xs)"
  shows "hmin h = earliest_timer w xs"
proof (cases "earliest_timer w xs")
  case None
  then show ?thesis using heap_of_empty [OF h] by (simp add: earliest_timer_None)
next
  case (Some m)
  then have m: "m \<in> set xs" "\<And>x. x \<in> set xs \<Longrightarrow> \<not> timer_less_than w x m" using earliest_timer_least by blast+
  from h obtain a where a: "represents h a (length xs)" "heap_order (timer_less_than w) a (length xs)"
    "a ` {1..length xs} = set xs" by (auto simp: heap_of_def)
  have n: "1 \<le> length xs" using m(1) by (cases xs) auto
  then have a1: "a 1 \<in> set xs" using a(3) by auto
  obtain j where "1 \<le> j" "j \<le> length xs" "a j = m"
    using m(1) a(3) by (metis atLeastAtMost_iff imageE)
  then have "\<not> timer_less_than w m (a 1)" using timers.heap_root_least [OF a(2)] by blast
  moreover have "\<not> timer_less_than w (a 1) m" by (rule m(2) [OF a1])
  ultimately have "u_start_id (uvh w m) = u_start_id (uvh w (a 1))" by (auto simp: timer_less_than_def split: if_splits)
  then have "a 1 = m" using inj_onD [OF i] a1 m(1) by auto
  then show ?thesis using Some representsD(3) [OF a(1)] n by (simp add: at_def)
qed

section \<open>The timers of a loop\<close>

text \<open>What \<open>uv_timer_stop\<close> and \<open>uv_timer_start\<close> do to the heap.\<close>

lemma timer_stop_heap:
  assumes "heap_of w hp (timer_heap (uvl w (loop_of w h)))" and "h \<in> set (timer_heap (uvl w (loop_of w h)))"
    and "u_active (uvh w h)"
  shows "\<exists>hp'. heap_remove (timer_less_than w) h hp = Some hp' \<and>
    heap_of (uv_timer_stop h w) hp' (timer_heap (uvl (uv_timer_stop h w) (loop_of w h)))"
proof -
  from heap_of_remove [OF assms(1,2)] obtain hp' where r: "heap_remove (timer_less_than w) h hp = Some hp'"
    "heap_of w hp' (removeAll h (timer_heap (uvl w (loop_of w h))))" by blast
  have "timer_heap (uvl (uv_timer_stop h w) (loop_of w h)) = removeAll h (timer_heap (uvl w (loop_of w h)))"
    using assms(3) by (simp add: uv_timer_stop_def Let_def uv_defs)
  moreover have "u_timeout (uvh (uv_timer_stop h w) x) = u_timeout (uvh w x) \<and> u_start_id (uvh (uv_timer_stop h w) x) = u_start_id (uvh w x)" for x
    by (simp add: uv_timer_stop_def Let_def uv_defs)
  ultimately show ?thesis using r heap_of_cong [OF r(2)] by auto
qed

lemma timer_insert_heap:
  fixes h :: oid
  assumes "heap_of w hp (timer_heap (uvl w (loop_of w h)))" and "h \<notin> set (timer_heap (uvl w (loop_of w h)))"
    and "\<not> u_active (uvh w h)"
  shows "\<exists>hp'. heap_insert (timer_less_than (snd (uv_timer_start h t r w))) h hp = Some hp' \<and>
    heap_of (snd (uv_timer_start h t r w)) hp' (timer_heap (uvl (snd (uv_timer_start h t r w)) (loop_of w h)))"
proof -
  let ?w = "snd (uv_timer_start h t r w)"
  have "timer_heap (uvl ?w (loop_of w h)) = timer_heap (uvl w (loop_of w h)) @ [h]"
    using assms(3) by (simp add: uv_timer_start_def Let_def uv_defs)
  moreover have "u_timeout (uvh ?w x) = u_timeout (uvh w x) \<and> u_start_id (uvh ?w x) = u_start_id (uvh w x)" if "x \<noteq> h" for x
    using that assms(3) by (simp add: uv_timer_start_def Let_def uv_defs)
  then have "heap_of ?w hp (timer_heap (uvl w (loop_of w h)))" 
    by (intro heap_of_cong [OF assms(1)]) (use assms(2) in metis)
  ultimately show ?thesis using heap_of_insert assms(2) by simp
qed

end
