(* ===== verification/Heap_Properties.thy ===== *)
theory Heap_Properties
  imports Timer_Heap Samples
begin

text \<open>
  The pointer heap of the timers implements the collection of running timers that the rest of the
  development uses.
\<close>

section \<open>Three timers\<close>

text \<open>
  Timers 1, 2 and 3 of loop 9 are due at 5, 2 and 8; timer 2 is the root, 1 its left and 3 its right
  child.
\<close>

definition due :: "oid \<Rightarrow> 64 word" where
  "due x = (if x = 1 then 5 else if x = 2 then 2 else 8)"

definition three_timers :: world where
  "three_timers = boot\<lparr>hs := (\<lambda>x. handle_zero\<lparr>uv := uv_zero\<lparr>u_loop := Some 9, u_type := Some UV_TIMER,
       u_active := x \<in> {1, 2, 3}, u_ref := True, u_timeout := due x, u_start_id := of_nat x\<rparr>\<rparr>),
     loops := (loops boot)(9 := \<lparr>lp = uv_loop_zero\<lparr>timer_counter := 4, active_handles := 3, timer_heap := [1, 2, 3]\<rparr>,
       is_default = False, in_use = True, uv_open = True\<rparr>)\<rparr>"

definition three_nodes :: "oid heap" where
  "three_nodes = \<lparr>hmin = Some 2, nelts = 3,
     node = (\<lambda>x. if x = 2 then \<lparr>left = Some 1, right = Some 3, parent = None\<rparr>
                 else \<lparr>left = None, right = None, parent = Some 2\<rparr>)\<rparr>"

lemma three_timers_simps [simp]:
  "uvh three_timers x = uv_zero\<lparr>u_loop := Some 9, u_type := Some UV_TIMER, u_active := x \<in> {1, 2, 3}, u_ref := True,
     u_timeout := due x, u_start_id := of_nat x\<rparr>"
  "uvl three_timers 9 = uv_loop_zero\<lparr>timer_counter := 4, active_handles := 3, timer_heap := [1, 2, 3]\<rparr>"
  "loop_of three_timers x = 9"
  by (simp_all add: three_timers_def)

text \<open>The same timers before they are started.\<close>

definition three_idle :: world where
  "three_idle = boot\<lparr>hs := (\<lambda>x. handle_zero\<lparr>uv := uv_zero\<lparr>u_loop := Some 9, u_type := Some UV_TIMER, u_ref := True\<rparr>\<rparr>),
     loops := (loops boot)(9 := \<lparr>lp = uv_loop_zero, is_default = False, in_use = True, uv_open = True\<rparr>)\<rparr>"

lemma three_idle_simps [simp]:
  "uvh three_idle x = uv_zero\<lparr>u_loop := Some 9, u_type := Some UV_TIMER, u_ref := True\<rparr>"
  "uvl three_idle 9 = uv_loop_zero"
  by (simp_all add: three_idle_def)

lemma three_heap: "heap_of three_timers three_nodes [1, 2, 3]"
proof -
  define a where "a = (\<lambda>i::nat. if i = 1 then 2 else if i = 2 then 1 else 3 :: nat)"
  have s: "{Suc 0..3} = {1, 2, 3}" "{2..3} = {2, 3 :: nat}" by auto
  have "represents three_nodes a 3"
    by (simp add: represents_def s three_nodes_def a_def node_at_def at_def)
  moreover have "heap_order (timer_less_than three_timers) a 3"
    by (simp add: heap_order_def s a_def timer_less_than_def due_def)
  moreover have "a ` {1..3} = {1, 2, 3}" by (simp add: s a_def insert_commute)
  moreover have "length [1, 2, 3 :: nat] = 3" by simp
  moreover have "distinct [1, 2, 3 :: nat]" "set [1, 2, 3 :: nat] = {1, 2, 3}" by simp_all
  ultimately show ?thesis unfolding heap_of_def by metis
qed

section \<open>The operations\<close>

text \<open>
  C36: \<open>uv_timer_start\<close> on the list of running timers is what the code does to the binary heap of pointers: the
  timer is taken out if it runs and is inserted with its new due time. Both operations end and follow no
  \<open>NULL\<close> pointer, and the heap then holds the running timers in heap order.
\<close>

theorem timer_start_refines:
  assumes hp: "heap_of w hp (timer_heap (uvl w (loop_of w h)))"
    and a: "u_active (uvh w h) \<longleftrightarrow> h \<in> set (timer_heap (uvl w (loop_of w h)))"
    and w': "w' = snd (uv_timer_start h timeout rpt w)"
  shows "\<exists>hp1 hp2. (if u_active (uvh w h) then heap_remove (timer_less_than w) h hp else Some hp) = Some hp1 \<and>
    heap_insert (timer_less_than w') h hp1 = Some hp2 \<and> heap_of w' hp2 (timer_heap (uvl w' (loop_of w h)))"
proof (cases "u_active (uvh w h)")
  case False
  then show ?thesis using timer_insert_heap [OF hp] a w' by auto
next
  case True
  let ?w = "uv_timer_stop h w"
  from timer_stop_heap [OF hp _ True] a True obtain hp1 where
    1: "heap_remove (timer_less_than w) h hp = Some hp1" "heap_of ?w hp1 (timer_heap (uvl ?w (loop_of w h)))" by blast
  have s: "loop_of ?w h = loop_of w h" "\<not> u_active (uvh ?w h)" "h \<notin> set (timer_heap (uvl ?w (loop_of w h)))"
    using True by (simp_all add: uv_timer_stop_def uv_defs)
  have "w' = snd (uv_timer_start h timeout rpt ?w)" using w' True s(2) by (simp add: uv_timer_start_def)
  then show ?thesis using timer_insert_heap [of ?w hp1 h timeout rpt] 1 s True by auto
qed

lemma timer_start_refines_witness:
  "\<exists>hp1 hp2. heap_remove (timer_less_than three_timers) 2 three_nodes = Some hp1 \<and>
    heap_insert (timer_less_than (snd (uv_timer_start 2 9 0 three_timers))) 2 hp1 = Some hp2 \<and>
    heap_of (snd (uv_timer_start 2 9 0 three_timers)) hp2 [1, 3, 2]"
proof -
  have "timer_heap (uvl (snd (uv_timer_start 2 9 0 three_timers)) 9) = [1, 3, 2]"
    by (simp add: uv_timer_start_def uv_timer_stop_def Let_def uv_defs)
  then show ?thesis using timer_start_refines [of three_timers three_nodes 2 _ 9 0] three_heap by simp
qed

text \<open>
  Sequences of operations on the timers of a loop \<open>l\<close>, each done to the world and to the pointer heap: the
  result is \<open>None\<close> when a \<open>NULL\<close> pointer is followed.
\<close>

datatype timer_move = Start oid "64 word" "64 word" | Stop oid | Clock "64 word"

primrec moved_world :: "oid \<Rightarrow> timer_move \<Rightarrow> world \<Rightarrow> world" where
  "moved_world l (Start h t r) w = snd (uv_timer_start h t r w)"
| "moved_world l (Stop h) w = uv_timer_stop h w"
| "moved_world l (Clock t) w = upd_uvl l (\<lambda>lp. lp\<lparr>uv_time := t\<rparr>) w"

primrec moved_heap :: "oid \<Rightarrow> timer_move \<Rightarrow> world \<Rightarrow> oid heap \<Rightarrow> oid heap option" where
  "moved_heap l (Start h t r) w hp =
     Option.bind (if u_active (uvh w h) then heap_remove (timer_less_than w) h hp else Some hp)
       (heap_insert (timer_less_than (snd (uv_timer_start h t r w))) h)"
| "moved_heap l (Stop h) w hp = (if u_active (uvh w h) then heap_remove (timer_less_than w) h hp else Some hp)"
| "moved_heap l (Clock t) w hp = Some hp"

fun timer_moves :: "oid \<Rightarrow> timer_move list \<Rightarrow> world \<Rightarrow> oid heap \<Rightarrow> (world \<times> oid heap) option" where
  "timer_moves l [] w hp = Some (w, hp)"
| "timer_moves l (m # ms) w hp = Option.bind (moved_heap l m w hp) (timer_moves l ms (moved_world l m w))"

abbreviation timer_of :: "oid \<Rightarrow> world \<Rightarrow> oid \<Rightarrow> bool" where
  "timer_of l w h \<equiv> u_loop (uvh w h) = Some l \<and> u_type (uvh w h) = Some UV_TIMER"

primrec moves_of :: "oid \<Rightarrow> world \<Rightarrow> timer_move \<Rightarrow> bool" where
  "moves_of l w (Start h t r) = timer_of l w h"
| "moves_of l w (Stop h) = timer_of l w h"
| "moves_of l w (Clock t) = True"

text \<open>The heap holds the running timers, whose start ids differ and lie below the counter.\<close>

definition timers_ok :: "oid \<Rightarrow> world \<Rightarrow> oid heap \<Rightarrow> bool" where
  "timers_ok l w hp \<longleftrightarrow> heap_of w hp (timer_heap (uvl w l)) \<and>
     (\<forall>h. timer_of l w h \<longrightarrow> (u_active (uvh w h) \<longleftrightarrow> h \<in> set (timer_heap (uvl w l)))) \<and>
     (\<forall>h \<in> set (timer_heap (uvl w l)). timer_of l w h \<and> u_start_id (uvh w h) < timer_counter (uvl w l)) \<and>
     inj_on (\<lambda>h. u_start_id (uvh w h)) (set (timer_heap (uvl w l)))"

lemma moves_of_world: "moves_of l (moved_world l m w) k = moves_of l w k"
  by (cases k; cases m) (simp_all add: uv_timer_start_def uv_timer_stop_def Let_def uv_defs)

lemma timers_ok_stop:
  assumes ok: "timers_ok l w hp" and h: "timer_of l w h" and a: "u_active (uvh w h)"
  shows "\<exists>hp'. heap_remove (timer_less_than w) h hp = Some hp' \<and> timers_ok l (uv_timer_stop h w) hp' \<and>
    timer_counter (uvl (uv_timer_stop h w) l) = timer_counter (uvl w l)"
proof -
  have "loop_of w h = l" using h by simp
  then obtain hp' where r: "heap_remove (timer_less_than w) h hp = Some hp'"
    "heap_of (uv_timer_stop h w) hp' (timer_heap (uvl (uv_timer_stop h w) l))"
    using timer_stop_heap [of w hp h] ok h a by (auto simp: timers_ok_def)
  have "timers_ok l (uv_timer_stop h w) hp'"
    using ok h a r(2) by (auto simp: timers_ok_def uv_timer_stop_def Let_def uv_defs inj_on_def)
  then show ?thesis using r(1) h a by (auto simp: uv_timer_stop_def Let_def uv_defs)
qed

lemma timers_ok_start:
  assumes ok: "timers_ok l w hp" and h: "timer_of l w h" and a: "\<not> u_active (uvh w h)"
    and c: "timer_counter (uvl w l) \<noteq> - 1"
  shows "\<exists>hp'. heap_insert (timer_less_than (snd (uv_timer_start h t r w))) h hp = Some hp' \<and>
    timers_ok l (snd (uv_timer_start h t r w)) hp' \<and>
    timer_counter (uvl (snd (uv_timer_start h t r w)) l) = timer_counter (uvl w l) + 1"
proof -
  have "loop_of w h = l" using h by simp
  then obtain hp' where r: "heap_insert (timer_less_than (snd (uv_timer_start h t r w))) h hp = Some hp'"
    "heap_of (snd (uv_timer_start h t r w)) hp' (timer_heap (uvl (snd (uv_timer_start h t r w)) l))"
    using timer_insert_heap [of w hp h t r] ok h a by (auto simp: timers_ok_def)
  have n: "timer_counter (uvl w l) < timer_counter (uvl w l) + 1"
  proof -
    have "unat (timer_counter (uvl w l)) \<noteq> 2 ^ 64 - 1"
      using c by (simp add: word_unat_eq_iff unsigned_minus_1_eq_mask mask_eq_exp_minus_1)
    moreover have "unat (timer_counter (uvl w l)) < 2 ^ 64" using unsigned_less [of "timer_counter (uvl w l)"] by simp
    ultimately have "unat (timer_counter (uvl w l)) + 1 < 2 ^ 64" by linarith
    then show ?thesis by (simp add: word_less_nat_alt unat_word_ariths)
  qed
  have "timers_ok l (snd (uv_timer_start h t r w)) hp'"
    using ok h a r(2) n unfolding timers_ok_def
    by (auto simp: uv_timer_start_def Let_def uv_defs inj_on_def dest: less_trans)
  then show ?thesis using r(1) h a by (auto simp: uv_timer_start_def Let_def uv_defs)
qed

lemma timers_ok_move:
  assumes ok: "timers_ok l w hp" and m: "moves_of l w m" and c: "timer_counter (uvl w l) \<noteq> - 1"
  shows "\<exists>hp'. moved_heap l m w hp = Some hp' \<and> timers_ok l (moved_world l m w) hp' \<and>
    timer_counter (uvl (moved_world l m w) l) \<in> {timer_counter (uvl w l), timer_counter (uvl w l) + 1}"
proof (cases m)
  case (Start h t r)
  show ?thesis
  proof (cases "u_active (uvh w h)")
    case True
    from timers_ok_stop [OF ok _ True] m Start obtain hp1 where
      1: "heap_remove (timer_less_than w) h hp = Some hp1" "timers_ok l (uv_timer_stop h w) hp1"
        "timer_counter (uvl (uv_timer_stop h w) l) = timer_counter (uvl w l)" by auto
    have s: "timer_of l (uv_timer_stop h w) h" "\<not> u_active (uvh (uv_timer_stop h w) h)"
      using True m Start by (simp_all add: uv_timer_stop_def uv_defs)
    have e: "snd (uv_timer_start h t r w) = snd (uv_timer_start h t r (uv_timer_stop h w))"
      using True s(2) by (simp add: uv_timer_start_def)
    from timers_ok_start [OF 1(2) s] c 1(3) show ?thesis using Start True 1(1) by (auto simp: e)
  next
    case False
    from timers_ok_start [OF ok _ False c] m Start show ?thesis using False by auto
  qed
next
  case (Stop h)
  then show ?thesis using timers_ok_stop [OF ok, of h] ok m by (cases "u_active (uvh w h)") (auto simp: uv_timer_stop_def)
next
  case (Clock t)
  have "heap_of (upd_uvl l (\<lambda>lp. lp\<lparr>uv_time := t\<rparr>) w) hp (timer_heap (uvl w l))"
    by (rule heap_of_cong [of w]) (use ok in \<open>simp_all add: timers_ok_def uv_defs\<close>)
  then show ?thesis using ok Clock by (auto simp: timers_ok_def uv_defs)
qed

lemma timers_ok_moves:
  assumes "timers_ok l w hp" and "list_all (moves_of l w) ms" and "unat (timer_counter (uvl w l)) + length ms < 2 ^ 64"
  shows "\<exists>w' hp'. timer_moves l ms w hp = Some (w', hp') \<and> timers_ok l w' hp'"
  using assms
proof (induction ms arbitrary: w hp)
  case (Cons m ms)
  have c: "timer_counter (uvl w l) \<noteq> - 1"
    using Cons.prems(3) by (auto simp: unsigned_minus_1_eq_mask mask_eq_exp_minus_1)
  from timers_ok_move [OF Cons.prems(1) _ c] Cons.prems(2) obtain hp1 where
    1: "moved_heap l m w hp = Some hp1" "timers_ok l (moved_world l m w) hp1"
      "timer_counter (uvl (moved_world l m w) l) \<in> {timer_counter (uvl w l), timer_counter (uvl w l) + 1}" by auto
  have "unat (timer_counter (uvl w l) + 1) \<le> unat (timer_counter (uvl w l)) + 1"
    by (simp add: unat_word_ariths)
  then have "unat (timer_counter (uvl (moved_world l m w) l)) + length ms < 2 ^ 64"
    using 1(3) Cons.prems(3) by auto
  then show ?case using Cons.IH [OF 1(2)] Cons.prems(2) 1(1) by (simp add: moves_of_world)
qed simp

text \<open>
  C37: From an empty loop, after any sequence of fewer than 2^64 starts and stops of its timers and of clock changes,
  in which no \<open>NULL\<close> pointer is followed, \<open>heap_min\<close> is \<open>NULL\<close> when no timer runs, and otherwise a running timer
  with the least due time, and among equals the one that was started first.
\<close>

theorem heap_root_is_next:
  assumes "timer_heap (uvl w l) = []" and "timer_counter (uvl w l) = 0" and "length ms < 2 ^ 64"
    and "\<And>h. timer_of l w h \<Longrightarrow> \<not> u_active (uvh w h)" and "list_all (moves_of l w) ms"
  shows "\<exists>w' hp'. timer_moves l ms w (heap_init hp) = Some (w', hp') \<and>
    (case heap_min hp' of
       None \<Rightarrow> \<forall>x. timer_of l w' x \<longrightarrow> \<not> u_active (uvh w' x)
     | Some m \<Rightarrow> timer_of l w' m \<and> u_active (uvh w' m) \<and>
         (\<forall>x. timer_of l w' x \<and> u_active (uvh w' x) \<and> x \<noteq> m \<longrightarrow> u_timeout (uvh w' m) < u_timeout (uvh w' x) \<or>
           u_timeout (uvh w' m) = u_timeout (uvh w' x) \<and> u_start_id (uvh w' m) < u_start_id (uvh w' x)))"
proof -
  have "timers_ok l w (heap_init hp)" using assms(1,4) heap_of_init by (simp add: timers_ok_def)
  from timers_ok_moves [OF this assms(5)] assms(2,3) obtain w' hp' where
    r: "timer_moves l ms w (heap_init hp) = Some (w', hp')" "timers_ok l w' hp'" by auto
  let ?q = "timer_heap (uvl w' l)"
  have i: "inj_on (\<lambda>h. u_start_id (uvh w' h)) (set ?q)" and m: "heap_min hp' = earliest_timer w' ?q"
    using r(2) heap_of_min by (auto simp: timers_ok_def heap_min_def)
  have a: "timer_of l w' x \<and> u_active (uvh w' x) \<longleftrightarrow> x \<in> set ?q" for x
    using r(2) by (auto simp: timers_ok_def)
  show ?thesis
  proof (cases "heap_min hp'")
    case None
    then have "?q = []" using m by (simp add: earliest_timer_None)
    then show ?thesis using r(1) None a by auto
  next
    case (Some k)
    then have "k \<in> set ?q" "\<And>x. x \<in> set ?q \<Longrightarrow> \<not> timer_less_than w' x k"
      using earliest_timer_least [of w' ?q k] m by auto
    moreover have "u_start_id (uvh w' x) \<noteq> u_start_id (uvh w' k)" if "x \<in> set ?q" "x \<noteq> k" "k \<in> set ?q" for x
      using inj_onD [OF i] that by blast
    ultimately have "timer_of l w' k \<and> u_active (uvh w' k) \<and>
         (\<forall>x. timer_of l w' x \<and> u_active (uvh w' x) \<and> x \<noteq> k \<longrightarrow> u_timeout (uvh w' k) < u_timeout (uvh w' x) \<or>
           u_timeout (uvh w' k) = u_timeout (uvh w' x) \<and> u_start_id (uvh w' k) < u_start_id (uvh w' x))"
      using a unfolding timer_less_than_def by (metis linorder_neqE)
    then show ?thesis using r(1) Some by auto
  qed
qed

lemma start_fields:
  "u_active (uvh (snd (uv_timer_start h t r w)) x) \<longleftrightarrow> x = h \<or> u_active (uvh w x)"
  "u_timeout (uvh (snd (uv_timer_start h t r w)) x) =
     (if x = h then clamped_timeout (uv_time (uvl w (loop_of w h))) t else u_timeout (uvh w x))"
  "u_start_id (uvh (snd (uv_timer_start h t r w)) x) =
     (if x = h then timer_counter (uvl w (loop_of w h)) else u_start_id (uvh w x))"
  "u_loop (uvh (snd (uv_timer_start h t r w)) x) = u_loop (uvh w x)"
  "u_type (uvh (snd (uv_timer_start h t r w)) x) = u_type (uvh w x)"
  "uv_time (uvl (snd (uv_timer_start h t r w)) k) = uv_time (uvl w k)"
  "timer_counter (uvl (snd (uv_timer_start h t r w)) k) =
     timer_counter (uvl w k) + of_bool (k = loop_of w h)"
  by (auto simp: uv_timer_start_def uv_timer_stop_def Let_def uv_defs)

lemma stop_fields:
  "u_active (uvh (uv_timer_stop h w) x) \<longleftrightarrow> x \<noteq> h \<and> u_active (uvh w x)"
  "u_timeout (uvh (uv_timer_stop h w) x) = u_timeout (uvh w x)"
  "u_start_id (uvh (uv_timer_stop h w) x) = u_start_id (uvh w x)"
  "u_loop (uvh (uv_timer_stop h w) x) = u_loop (uvh w x)" "u_type (uvh (uv_timer_stop h w) x) = u_type (uvh w x)"
  by (auto simp: uv_timer_stop_def uv_defs)

lemma timer_moves_world: "timer_moves l ms w hp = Some (w', hp') \<Longrightarrow> w' = fold (moved_world l) ms w"
  by (induction ms arbitrary: w hp) (auto split: bind_splits)

lemma heap_root_is_next_witness:
  "\<exists>w' hp'. timer_moves 9 [Start 1 9 0, Start 2 5 0, Start 3 5 0, Start 1 5 0, Stop 3] three_idle (heap_init three_nodes) = Some (w', hp') \<and>
    heap_min hp' = Some 2"
proof -
  let ?ms = "[Start 1 9 0, Start 2 5 0, Start 3 5 0, Start 1 5 0, Stop 3]"
  have "list_all (moves_of 9 three_idle) ?ms" by simp
  note N = heap_root_is_next [OF _ _ _ _ this, of three_nodes]
  have i: "timer_heap (uvl three_idle 9) = []" "timer_counter (uvl three_idle 9) = 0" "length ?ms < 2 ^ 64"
    "\<not> u_active (uvh three_idle h)" for h by (simp_all add: uv_loop_zero_def uv_zero_def)
  from N [OF i] obtain w' hp' where
    r: "timer_moves 9 ?ms three_idle (heap_init three_nodes) = Some (w', hp')" and
    c: "case heap_min hp' of
       None \<Rightarrow> \<forall>x. timer_of 9 w' x \<longrightarrow> \<not> u_active (uvh w' x)
     | Some m \<Rightarrow> timer_of 9 w' m \<and> u_active (uvh w' m) \<and>
         (\<forall>x. timer_of 9 w' x \<and> u_active (uvh w' x) \<and> x \<noteq> m \<longrightarrow> u_timeout (uvh w' m) < u_timeout (uvh w' x) \<or>
           u_timeout (uvh w' m) = u_timeout (uvh w' x) \<and> u_start_id (uvh w' m) < u_start_id (uvh w' x))"
    by blast
  have w': "w' = fold (moved_world 9) ?ms three_idle" by (rule timer_moves_world [OF r])
  have u: "u_active (uvh w' x) = (x = 1 \<or> x = 2)" "timer_of 9 w' x" "u_timeout (uvh w' 1) = 5" "u_timeout (uvh w' 2) = 5"
    "u_start_id (uvh w' 1) = 3" "u_start_id (uvh w' 2) = 1" for x
    unfolding w' by (auto simp: start_fields stop_fields clamped_timeout_def uv_loop_zero_def uv_zero_def)
  from c u have "heap_min hp' = Some 2" by (auto split: option.splits)
  then show ?thesis using r by blast
qed

text \<open>
  C38: Removal of any timer of the heap, not only the root, ends without following a \<open>NULL\<close> pointer and takes
  out exactly that timer; the walk down and the walk up after it restore the order.
\<close>

theorem heap_remove_ends:
  assumes "heap_of w hp xs" and "x \<in> set xs"
  shows "\<exists>hp'. heap_remove (timer_less_than w) x hp = Some hp' \<and> heap_of w hp' (removeAll x xs)"
  by (rule heap_of_remove [OF assms])

lemma heap_remove_ends_witness:
  "\<exists>hp'. heap_remove (timer_less_than three_timers) 1 three_nodes = Some hp' \<and> heap_of three_timers hp' [2, 3]"
  using heap_remove_ends [OF three_heap, of 1] by simp

end
