(* ===== verification/Loop_Properties.thy ===== *)
theory Loop_Properties
  imports Socket_Samples Timer_Heap
begin

text \<open>
  What holds of \<open>uv_run\<close> for every Python program: the invariant over whole runs of the loop, the end of
  its inner loops, and what a phase has done when it returns.
\<close>

section \<open>Samples\<close>

text \<open>An idle handle that runs, an idle handle that is closed with the function 3, and a turn of the loop.\<close>

definition idle_running :: world where
  "idle_running = after [IdleCall 2 (WStart (Inr 3))] idle_ready"

definition idle_closing :: world where
  "idle_closing = after [HandleCall 2 (HClose (Inr (Some 3)))] idle_ready"


lemma ok_loop_samples: "ok {#} idle_running" "ok {#} idle_closing"
  by (simp_all only: idle_running_def idle_closing_def ok_after [OF ok_ready(2)])

lemmas idle_evals = ready_eq ready_state_def ready_uv_def Idle_func_start_def uv_watcher_start_def

lemma settled_samples: "settled 1 idle_running" "settled 1 idle_closing" "settled 1 tty_reading"
  by (simp_all add: settled_def idle_running_def idle_closing_def tty_reading_def idle_evals evals stream_evals close_evals
      uv_watcher_stop_def)

lemma idle_closing_facts:
  "closing_handles (uvl idle_closing 1) = [2]" "u_type (uvh idle_closing 2) = Some UV_IDLE"
  "u_close_cb (uvh idle_closing 2) = Some pyuv__handle_close_cb" "slot_of idle_closing 2 S_on_close_cb = Some 3"
  by (simp_all add: idle_closing_def idle_evals evals stream_evals close_evals uv_watcher_stop_def)

section \<open>Runs of the loop\<close>







section \<open>Closing\<close>



text \<open>
  C29: When the loop finishes the close of a handle that is no socket, it calls the callback that was given to
  \<open>close\<close>, with the handle, and the handle is closed.
\<close>

theorem close_callback_is_called:
  assumes "ok fr w" and "between l (h # rest) w" and "plain_handle h w"
    and "u_close_cb (uvh w h) = Some pyuv__handle_close_cb" and "slot_of w h S_on_close_cb = Some f" and "f \<noteq> Py_None"
  shows "\<exists>w'. finish_handle (scripted ub P) l h w = Some w' \<and> ok fr w' \<and> u_closed (uvh w' h) \<and> called_with f [h] w w'"
  by (rule scripts.finish_handle_calls [OF assms])

lemma close_callback_is_called_witness:
  "\<exists>w'. finish_handle (scripted (\<lambda>_. 0) dropping) 1 2 (detach_closing 1 idle_closing) = Some w' \<and>
    called_with 3 [2] (detach_closing 1 idle_closing) w'"
proof -
  let ?w = "detach_closing 1 idle_closing"
  have f: "closing_handles (uvl idle_closing 1) = [2]" "finishing (uvl idle_closing 1) = []"
    using idle_closing_facts(1) settled_samples(2) unfolding settled_def by blast+
  have "type_queue t (lp\<lparr>finishing := closing_handles lp, closing_handles := []\<rparr>) = type_queue t lp" for t and lp :: uv_loop
    by (cases t) simp_all
  then have "ok {#} ?w"
    unfolding detach_closing_def by (intro ok_loop_field [OF ok_loop_samples(2)]) (simp_all add: all_closing_def f [unfolded One_nat_def])
  moreover have "between 1 [2] ?w"
    using settled_samples(2) f by (simp add: settled_def between_def detach_closing_def upd_uvl_def)
  moreover have "plain_handle 2 ?w" "u_close_cb (uvh ?w 2) = Some pyuv__handle_close_cb" "slot_of ?w 2 S_on_close_cb = Some 3"
    using idle_closing_facts by (simp_all add: plain_handle_def detach_closing_def upd_uvl_def)
  ultimately show ?thesis using close_callback_is_called [of "{#}" ?w 1 2 "[]" 3 "\<lambda>_. 0" dropping] by auto
qed

section \<open>Types\<close>

text \<open>
  C30: After any script, an initialised handle is an object of one of the handle classes, its libuv struct has the
  type of that class, and until its close has finished its \<open>loop\<close> field is the \<open>Loop\<close> object whose libuv
  loop the struct points to.
\<close>

theorem handles_are_typed:
  assumes "ok {#} w" and "w' = run_body ub [] stmts w" and "initialized (hs w' h)"
  shows "\<exists>c. h < length (objs w') \<and> kind (objs w' ! h) = KHandle c \<and> u_type (uvh w' h) = Some (uv_type_of c) \<and>
    (u_closed (uvh w' h) \<or> (\<exists>l. slot_of w' h S_loop = Some l \<and> u_loop (uvh w' h) = Some l \<and> kind (objs w' ! l) = KLoop))"
proof -
  have "ok {#} w'" using run_body_ok [OF assms(1)] assms(2) by simp
  then have "handle_ok w' h" by (intro wf_handle_ok [OF okD(1)])
  then show ?thesis using assms(3) by (auto simp: handle_ok_def)
qed

lemma handles_are_typed_witness:
  "\<exists>c. kind (objs idle_running ! 2) = KHandle c \<and> u_type (uvh idle_running 2) = Some (uv_type_of c)"
proof -
  have "initialized (hs idle_running 2)"
    by (simp add: idle_running_def idle_evals evals stream_evals close_evals)
  with handles_are_typed [OF ok_ready(2), of idle_running "\<lambda>_. 0" "map (\<lambda>c w. Invoke c) [IdleCall 2 (WStart (Inr 3))]" 2]
  show ?thesis by (auto simp: idle_running_def after_def)
qed

end
