(* ===== verification/Thread_Pool.thy ===== *)
theory Thread_Pool
  imports Libuv_Core
begin

text \<open>
  The thread pool of libuv (src/threadpool.c) as a state machine: \<open>uv__work_submit\<close>, the loop of
  \<open>worker\<close>, \<open>uv__work_cancel\<close> and \<open>uv__work_done\<close>, interleaved in any order. A \<open>struct uv__work\<close> is
  named by the request that embeds it. The mutexes make each step atomic.
\<close>

section \<open>State\<close>

text \<open>
  \<open>w->work\<close> is the function to run, \<open>NULL\<close> once it has run, or \<open>uv__cancelled\<close>; \<open>w_linked\<close> is
  \<open>!QUEUE_EMPTY(&w->wq)\<close>, that is, the link does not point to itself.
\<close>

datatype work_fn = WorkFn | WorkNull | WorkCancelled

record uv__work =
  w_loop :: oid
  w_work :: work_fn
  w_linked :: bool

text \<open>
  The queue of the pool, what the threads execute, the queue \<open>loop->wq\<close> of each loop and the local
  queue of its \<open>uv__work_done\<close>; the rest are histories: the work that was started and the calls
  of \<open>w->done\<close> with their status.
\<close>

record pool =
  pool_wq :: "oid list"
  executing :: "oid list"
  loop_wq :: "oid \<Rightarrow> oid list"
  done_wq :: "oid \<Rightarrow> oid list"
  works :: "oid \<Rightarrow> uv__work"
  started :: "oid list"
  reports :: "(oid \<times> int) list"

definition pool_init :: pool where
  "pool_init = \<lparr>pool_wq = [], executing = [], loop_wq = (\<lambda>_. []), done_wq = (\<lambda>_. []),
     works = (\<lambda>_. \<lparr>w_loop = 0, w_work = WorkNull, w_linked = False\<rparr>), started = [], reports = []\<rparr>"

section \<open>Steps\<close>

definition set_work :: "oid \<Rightarrow> (uv__work \<Rightarrow> uv__work) \<Rightarrow> pool \<Rightarrow> pool" where
  "set_work j f p = p\<lparr>works := (works p)(j := f (works p j))\<rparr>"

definition uv__work_submit :: "oid \<Rightarrow> oid \<Rightarrow> pool \<Rightarrow> pool" where
  "uv__work_submit l j p =
     (set_work j (\<lambda>_. \<lparr>w_loop = l, w_work = WorkFn, w_linked = True\<rparr>) p)\<lparr>pool_wq := pool_wq p @ [j]\<rparr>"

text \<open>
  A thread that is idle takes the head of the queue and re-initialises its link, and starts it
  outside the mutex; \<open>nthreads\<close> of them run. Then it puts the work on the queue of its loop.
\<close>

definition worker_takes :: "nat \<Rightarrow> pool \<Rightarrow> pool option" where
  "worker_takes nthreads p =
     (case pool_wq p of
        [] \<Rightarrow> None
      | j # q \<Rightarrow>
          if length (executing p) < nthreads
          then Some ((set_work j (\<lambda>w. w\<lparr>w_linked := False\<rparr>) p)
                 \<lparr>pool_wq := q, executing := executing p @ [j], started := started p @ [j]\<rparr>)
          else None)"

definition enqueue_done :: "oid \<Rightarrow> pool \<Rightarrow> pool" where
  "enqueue_done j p =
     (let l = w_loop (works p j)
      in (set_work j (\<lambda>w. w\<lparr>w_linked := True\<rparr>) p)\<lparr>loop_wq := (loop_wq p)(l := loop_wq p l @ [j])\<rparr>)"

definition worker_finishes :: "oid \<Rightarrow> pool \<Rightarrow> pool option" where
  "worker_finishes j p =
     (if j \<in> set (executing p)
      then Some (enqueue_done j (set_work j (\<lambda>w. w\<lparr>w_work := WorkNull\<rparr>) p\<lparr>executing := remove1 j (executing p)\<rparr>))
      else None)"

text \<open>\<open>QUEUE_REMOVE\<close> takes the work out of the queue it is in, if it is in one.\<close>

definition unlink_work :: "oid \<Rightarrow> pool \<Rightarrow> pool" where
  "unlink_work j p = p\<lparr>pool_wq := removeAll j (pool_wq p), loop_wq := (\<lambda>l. removeAll j (loop_wq p l)),
     done_wq := (\<lambda>l. removeAll j (done_wq p l))\<rparr>"

definition uv__work_cancel :: "oid \<Rightarrow> pool \<Rightarrow> int \<times> pool" where
  "uv__work_cancel j p =
     (if \<not> (w_linked (works p j) \<and> w_work (works p j) \<noteq> WorkNull) then (UV_EBUSY, p)
      else (0, enqueue_done j (set_work j (\<lambda>w. w\<lparr>w_work := WorkCancelled\<rparr>) (unlink_work j p))))"

text \<open>
  \<open>uv__work_done\<close> moves the queue of the loop and calls \<open>w->done\<close> for each of its works. It does
  not re-initialise the link of a work that it takes off.
\<close>

definition work_done_begins :: "oid \<Rightarrow> pool \<Rightarrow> pool" where
  "work_done_begins l p = p\<lparr>done_wq := (done_wq p)(l := loop_wq p l), loop_wq := (loop_wq p)(l := [])\<rparr>"

definition work_done_next :: "oid \<Rightarrow> pool \<Rightarrow> pool option" where
  "work_done_next l p =
     (case done_wq p l of
        [] \<Rightarrow> None
      | j # q \<Rightarrow>
          Some (p\<lparr>done_wq := (done_wq p)(l := q),
            reports := reports p @ [(j, if w_work (works p j) = WorkCancelled then UV_ECANCELED else 0)]\<rparr>))"

definition reported :: "pool \<Rightarrow> oid \<Rightarrow> bool" where
  "reported p j \<longleftrightarrow> j \<in> fst ` set (reports p)"

definition in_pool :: "pool \<Rightarrow> oid \<Rightarrow> bool" where
  "in_pool p j \<longleftrightarrow> j \<in> set (pool_wq p) \<or> j \<in> set (executing p) \<or> (\<exists>l. j \<in> set (loop_wq p l @ done_wq p l))"

text \<open>
  What may happen at any time: a request is submitted, a thread takes a work or finishes one, a
  request is cancelled. A request is submitted once, and it is cancelled only before its callback has been
  called: pyuv clears \<open>req_ptr\<close> when the callback returns.
\<close>

inductive bg_step :: "nat \<Rightarrow> pool \<Rightarrow> pool \<Rightarrow> bool" for nthreads where
  submit: "\<not> in_pool p j \<Longrightarrow> \<not> reported p j \<Longrightarrow> bg_step nthreads p (uv__work_submit l j p)"
| take: "worker_takes nthreads p = Some p' \<Longrightarrow> bg_step nthreads p p'"
| finish: "worker_finishes j p = Some p' \<Longrightarrow> bg_step nthreads p p'"
| cancel: "in_pool p j \<Longrightarrow> bg_step nthreads p (snd (uv__work_cancel j p))"

text \<open>A step of the pool is one of those, or one of \<open>uv__work_done\<close> in the thread of a loop.\<close>

inductive pool_step :: "nat \<Rightarrow> pool \<Rightarrow> pool \<Rightarrow> bool" for nthreads where
  background: "bg_step nthreads p p' \<Longrightarrow> pool_step nthreads p p'"
| begins: "done_wq p l = [] \<Longrightarrow> pool_step nthreads p (work_done_begins l p)"
| nxt: "work_done_next l p = Some p' \<Longrightarrow> pool_step nthreads p p'"

inductive_cases bg_stepE: "bg_step n p p'"
inductive_cases pool_stepE: "pool_step n p p'"

abbreviation bg_steps :: "nat \<Rightarrow> pool \<Rightarrow> pool \<Rightarrow> bool" where
  "bg_steps n \<equiv> (bg_step n)\<^sup>*\<^sup>*"

abbreviation pool_steps :: "nat \<Rightarrow> pool \<Rightarrow> pool \<Rightarrow> bool" where
  "pool_steps n \<equiv> (pool_step n)\<^sup>*\<^sup>*"

section \<open>The invariant\<close>

text \<open>
  What a state says of one work: its struct, whether it waits in the pool, is executed, is in a
  queue of loop \<open>l\<close>, has been started, and the statuses it was reported with. The fields of the
  struct say where the work is, so that it is in one place only.
\<close>

definition statuses :: "pool \<Rightarrow> oid \<Rightarrow> int list" where
  "statuses p j = map snd (filter (\<lambda>(k, e). k = j) (reports p))"

definition work_ok :: "uv__work \<Rightarrow> bool \<Rightarrow> bool \<Rightarrow> (oid \<Rightarrow> bool) \<Rightarrow> bool \<Rightarrow> int list \<Rightarrow> bool" where
  "work_ok w waits runs back begun es \<longleftrightarrow>
     (waits \<longrightarrow> \<not> runs \<and> (\<forall>l. \<not> back l) \<and> es = [] \<and> w_linked w \<and> w_work w = WorkFn \<and> \<not> begun) \<and>
     (runs \<longrightarrow> (\<forall>l. \<not> back l) \<and> es = [] \<and> \<not> w_linked w \<and> w_work w = WorkFn \<and> begun) \<and>
     (\<forall>l. back l \<longrightarrow> es = [] \<and> w_linked w \<and> w_loop w = l \<and>
        (w_work w = WorkNull \<and> begun \<or> w_work w = WorkCancelled \<and> \<not> begun)) \<and>
     (es \<noteq> [] \<longrightarrow> w_linked w \<and> (es = [0] \<and> w_work w = WorkNull \<and> begun \<or>
        es = [UV_ECANCELED] \<and> w_work w = WorkCancelled \<and> \<not> begun)) \<and>
     (begun \<or> w_work w \<noteq> WorkNull \<longrightarrow> waits \<or> runs \<or> (\<exists>l. back l) \<or> es \<noteq> [])"

definition in_loop :: "pool \<Rightarrow> oid \<Rightarrow> oid \<Rightarrow> bool" where
  "in_loop p j l \<longleftrightarrow> j \<in> set (loop_wq p l) \<or> j \<in> set (done_wq p l)"

definition pool_ok :: "pool \<Rightarrow> bool" where
  "pool_ok p \<longleftrightarrow>
     distinct (pool_wq p) \<and> distinct (executing p) \<and> (\<forall>l. distinct (loop_wq p l @ done_wq p l)) \<and> distinct (started p) \<and>
     (\<forall>j. work_ok (works p j) (j \<in> set (pool_wq p)) (j \<in> set (executing p)) (in_loop p j) (j \<in> set (started p)) (statuses p j))"

lemma pool_okD:
  assumes "pool_ok p"
  shows "distinct (pool_wq p)" "distinct (executing p)" "distinct (loop_wq p l)" "distinct (done_wq p l)"
    "set (loop_wq p l) \<inter> set (done_wq p l) = {}" "distinct (started p)"
    "work_ok (works p j) (j \<in> set (pool_wq p)) (j \<in> set (executing p)) (in_loop p j) (j \<in> set (started p)) (statuses p j)"
  using assms unfolding pool_ok_def distinct_append by blast+

lemma statuses_reported: "reported p j \<longleftrightarrow> statuses p j \<noteq> []"
  by (force simp: reported_def statuses_def filter_empty_conv)

lemma in_pool_eq: "in_pool p j \<longleftrightarrow> j \<in> set (pool_wq p) \<or> j \<in> set (executing p) \<or> (\<exists>l. in_loop p j l)"
  by (auto simp: in_pool_def in_loop_def)

lemma pool_ok_init: "pool_ok pool_init"
  by (simp add: pool_ok_def pool_init_def work_ok_def statuses_def in_loop_def)

text \<open>A step changes one work: the others are where they were.\<close>

lemma pool_okI:
  assumes ok: "pool_ok p" and d: "distinct (pool_wq p')" "distinct (executing p')" "\<And>l. distinct (loop_wq p' l @ done_wq p' l)"
      "distinct (started p')"
    and o: "\<And>k. k \<noteq> j \<Longrightarrow> works p' k = works p k \<and> (k \<in> set (pool_wq p') \<longleftrightarrow> k \<in> set (pool_wq p)) \<and>
      (k \<in> set (executing p') \<longleftrightarrow> k \<in> set (executing p)) \<and> in_loop p' k = in_loop p k \<and>
      (k \<in> set (started p') \<longleftrightarrow> k \<in> set (started p)) \<and> statuses p' k = statuses p k"
    and w: "work_ok (works p' j) (j \<in> set (pool_wq p')) (j \<in> set (executing p')) (in_loop p' j) (j \<in> set (started p')) (statuses p' j)"
  shows "pool_ok p'"
proof -
  have "work_ok (works p' k) (k \<in> set (pool_wq p')) (k \<in> set (executing p')) (in_loop p' k) (k \<in> set (started p')) (statuses p' k)" for k
  proof (cases "k = j")
    case False
    from o [OF False] show ?thesis using pool_okD(7) [OF ok, of k] by simp
  qed (use w in simp)
  then show ?thesis using d unfolding pool_ok_def by blast
qed

lemmas pool_defs = set_work_def in_loop_def fun_eq_iff statuses_def

lemma pool_ok_submit:
  assumes ok: "pool_ok p" and n: "\<not> in_pool p j" "\<not> reported p j"
  shows "pool_ok (uv__work_submit l j p)"
proof (rule pool_okI [OF ok, where j = j])
  have s: "j \<notin> set (started p)" "statuses p j = []"
    using pool_okD(7) [OF ok, of j] n by (auto simp: work_ok_def in_pool_eq statuses_reported)
  show "work_ok (works (uv__work_submit l j p) j) (j \<in> set (pool_wq (uv__work_submit l j p)))
      (j \<in> set (executing (uv__work_submit l j p))) (in_loop (uv__work_submit l j p) j)
      (j \<in> set (started (uv__work_submit l j p))) (statuses (uv__work_submit l j p) j)"
    using n(1) s by (simp add: uv__work_submit_def work_ok_def pool_defs in_pool_eq)
qed (use pool_okD(1-6) [OF ok] n in \<open>auto simp: uv__work_submit_def pool_defs in_pool_eq\<close>)

lemma pool_ok_take:
  assumes ok: "pool_ok p" and t: "worker_takes n p = Some p'"
  shows "pool_ok p'"
proof -
  obtain j q where q: "pool_wq p = j # q"
    and p': "p' = (set_work j (\<lambda>w. w\<lparr>w_linked := False\<rparr>) p)\<lparr>pool_wq := q, executing := executing p @ [j], started := started p @ [j]\<rparr>"
    using t by (auto simp: worker_takes_def split: list.splits if_splits)
  note D = pool_okD [OF ok]
  have w: "work_ok (works p j) True (j \<in> set (executing p)) (in_loop p j) (j \<in> set (started p)) (statuses p j)"
    using D(7) [of j] q by simp
  show ?thesis
  proof (rule pool_okI [OF ok, where j = j])
    show "work_ok (works p' j) (j \<in> set (pool_wq p')) (j \<in> set (executing p')) (in_loop p' j) (j \<in> set (started p')) (statuses p' j)"
      using w D(1) q by (simp add: p' work_ok_def pool_defs)
  qed (use D(1-6) w q in \<open>auto simp: p' work_ok_def pool_defs\<close>)
qed

lemma pool_ok_finish:
  assumes ok: "pool_ok p" and t: "worker_finishes j p = Some p'"
  shows "pool_ok p'"
proof -
  have e: "j \<in> set (executing p)"
    and p': "p' = enqueue_done j (set_work j (\<lambda>w. w\<lparr>w_work := WorkNull\<rparr>) p\<lparr>executing := remove1 j (executing p)\<rparr>)"
    using t by (auto simp: worker_finishes_def split: if_splits)
  note D = pool_okD [OF ok]
  have w: "work_ok (works p j) (j \<in> set (pool_wq p)) True (in_loop p j) (j \<in> set (started p)) (statuses p j)"
    using D(7) [of j] e by simp
  show ?thesis
  proof (rule pool_okI [OF ok, where j = j])
    show "work_ok (works p' j) (j \<in> set (pool_wq p')) (j \<in> set (executing p')) (in_loop p' j) (j \<in> set (started p')) (statuses p' j)"
      using w D(2) by (auto simp: p' work_ok_def pool_defs enqueue_done_def Let_def)
  qed (use D(1-6) w in \<open>auto simp: p' work_ok_def pool_defs enqueue_done_def Let_def\<close>)
qed

lemma pool_ok_cancel:
  assumes ok: "pool_ok p" and i: "in_pool p j"
  shows "pool_ok (snd (uv__work_cancel j p))"
proof (cases "w_linked (works p j) \<and> w_work (works p j) \<noteq> WorkNull")
  case False
  then show ?thesis using ok by (simp add: uv__work_cancel_def)
next
  case True
  define p' where "p' = enqueue_done j (set_work j (\<lambda>w. w\<lparr>w_work := WorkCancelled\<rparr>) (unlink_work j p))"
  note D = pool_okD [OF ok]
  have w: "work_ok (works p j) (j \<in> set (pool_wq p)) (j \<in> set (executing p)) (in_loop p j) (j \<in> set (started p)) (statuses p j)"
    by (rule D(7))
  have "pool_ok p'"
  proof (rule pool_okI [OF ok, where j = j])
    show "work_ok (works p' j) (j \<in> set (pool_wq p')) (j \<in> set (executing p')) (in_loop p' j) (j \<in> set (started p')) (statuses p' j)"
      using w True i by (auto simp: p'_def work_ok_def pool_defs enqueue_done_def unlink_work_def Let_def in_pool_eq)
  qed (use D(1-6) in \<open>auto simp: p'_def pool_defs enqueue_done_def unlink_work_def Let_def distinct_removeAll\<close>)
  then show ?thesis using True by (simp add: uv__work_cancel_def p'_def)
qed

lemma pool_ok_begins:
  assumes ok: "pool_ok p" and d: "done_wq p l = []"
  shows "pool_ok (work_done_begins l p)"
proof -
  let ?p' = "work_done_begins l p"
  note D = pool_okD [OF ok]
  have i: "in_loop ?p' k = in_loop p k" for k
    using d by (rule_tac ext) (simp add: in_loop_def work_done_begins_def)
  have same: "pool_wq ?p' = pool_wq p" "executing ?p' = executing p" "started ?p' = started p" "works ?p' = works p"
      "statuses ?p' = statuses p"
    by (simp_all add: work_done_begins_def statuses_def fun_eq_iff)
  have q: "distinct (loop_wq ?p' k @ done_wq ?p' k)" for k
    using D(3,4,5) [of k] d by (cases "k = l") (simp_all add: work_done_begins_def)
  show ?thesis
    unfolding pool_ok_def same i using D(1,2,6,7) q by blast
qed

lemma pool_ok_next:
  assumes ok: "pool_ok p" and t: "work_done_next l p = Some p'"
  shows "pool_ok p'"
proof -
  obtain j q where q: "done_wq p l = j # q" and p': "p' = p\<lparr>done_wq := (done_wq p)(l := q),
      reports := reports p @ [(j, if w_work (works p j) = WorkCancelled then UV_ECANCELED else 0)]\<rparr>"
    using t by (auto simp: work_done_next_def split: list.splits)
  note D = pool_okD [OF ok]
  have i: "in_loop p j l" using q by (simp add: in_loop_def)
  have w: "work_ok (works p j) (j \<in> set (pool_wq p)) (j \<in> set (executing p)) (in_loop p j) (j \<in> set (started p)) (statuses p j)"
    by (rule D(7))
  then have u: "in_loop p j k \<Longrightarrow> k = l" for k using i by (auto simp: work_ok_def)
  have o: "j \<notin> set (loop_wq p l)" "j \<notin> set q" using D(4,5) [of l] q by auto
  have n: "\<not> in_loop p' j k" for k
  proof (cases "k = l")
    case True
    then show ?thesis using o by (simp add: p' in_loop_def)
  next
    case False
    then have "\<not> in_loop p j k" using u by blast
    then show ?thesis using False by (simp add: p' in_loop_def)
  qed
  show ?thesis
  proof (rule pool_okI [OF ok, where j = j])
    show "work_ok (works p' j) (j \<in> set (pool_wq p')) (j \<in> set (executing p')) (in_loop p' j) (j \<in> set (started p')) (statuses p' j)"
      using w i n by (auto simp: p' work_ok_def statuses_def)
    show "distinct (loop_wq p' k @ done_wq p' k)" for k using D(3,4,5) [of k] D(4) [of l] q by (auto simp: p')
  qed (use D(1-6) q in \<open>auto simp: p' pool_defs\<close>)
qed

lemma pool_ok_bg: "bg_step n p p' \<Longrightarrow> pool_ok p \<Longrightarrow> pool_ok p'"
  by (induction rule: bg_step.induct) (auto intro: pool_ok_submit pool_ok_take pool_ok_finish pool_ok_cancel)

lemma pool_ok_step: "pool_step n p p' \<Longrightarrow> pool_ok p \<Longrightarrow> pool_ok p'"
  by (induction rule: pool_step.induct) (auto intro: pool_ok_bg pool_ok_begins pool_ok_next)

lemma pool_ok_steps: "pool_steps n p p' \<Longrightarrow> pool_ok p \<Longrightarrow> pool_ok p'"
  by (induction rule: rtranclp_induct) (auto intro: pool_ok_step)

lemma pool_ok_reachable: "pool_steps n pool_init p \<Longrightarrow> pool_ok p"
  by (rule pool_ok_steps [OF _ pool_ok_init])

text \<open>What a step about one work leaves alone, and where that work is.\<close>

lemma elsewhere:
  assumes "pool_wq p' = pool_wq p \<or> (k \<in> set (pool_wq p') \<longleftrightarrow> k \<in> set (pool_wq p))"
    and "k \<in> set (executing p') \<longleftrightarrow> k \<in> set (executing p)" and "\<And>l. in_loop p' k l = in_loop p k l"
  shows "in_pool p' k = in_pool p k"
  using assms by (auto simp: in_pool_eq)

lemma other_submit: "k \<noteq> j \<Longrightarrow> in_pool (uv__work_submit l j p) k = in_pool p k"
  by (rule elsewhere) (simp_all add: uv__work_submit_def set_work_def in_loop_def)

lemma other_take: "worker_takes n p = Some p' \<Longrightarrow> in_pool p' k = in_pool p k"
  by (auto simp: worker_takes_def set_work_def in_pool_eq in_loop_def split: list.splits if_splits)

lemma in_loop_enqueue: "k \<noteq> j \<Longrightarrow> in_loop (enqueue_done j p) k l = in_loop p k l"
  by (simp add: in_loop_def enqueue_done_def set_work_def Let_def)

lemma other_finish: "worker_finishes j p = Some p' \<Longrightarrow> k \<noteq> j \<Longrightarrow> in_pool p' k = in_pool p k"
proof (rule elsewhere)
  assume f: "worker_finishes j p = Some p'" and k: "k \<noteq> j"
  then show "in_loop p' k l = in_loop p k l" for l
    by (auto simp: worker_finishes_def in_loop_enqueue split: if_splits) (simp_all add: in_loop_def set_work_def)
qed (auto simp: worker_finishes_def enqueue_done_def set_work_def Let_def split: if_splits)

lemma other_cancel: "k \<noteq> j \<Longrightarrow> in_pool (snd (uv__work_cancel j p)) k = in_pool p k"
proof (rule elsewhere)
  assume k: "k \<noteq> j"
  then show "in_loop (snd (uv__work_cancel j p)) k l = in_loop p k l" for l
    by (auto simp: uv__work_cancel_def in_loop_enqueue) (simp_all add: in_loop_def set_work_def unlink_work_def)
qed (auto simp: uv__work_cancel_def enqueue_done_def unlink_work_def set_work_def Let_def)

lemma other_next:
  assumes "work_done_next l p = Some p'" and q: "done_wq p l = j # q" and "k \<noteq> j"
  shows "in_pool p' k = in_pool p k"
proof (rule elsewhere)
  show "in_loop p' k m = in_loop p k m" for m
    using assms by (cases "m = l") (auto simp: work_done_next_def in_loop_def)
qed (use assms in \<open>auto simp: work_done_next_def\<close>)

lemma other_begins: "done_wq p l = [] \<Longrightarrow> in_pool (work_done_begins l p) k = in_pool p k"
  by (rule elsewhere) (auto simp: work_done_begins_def in_loop_def)

lemma in_pool_enqueue: "in_pool (enqueue_done j p) j"
  by (auto simp: in_pool_eq in_loop_def enqueue_done_def set_work_def Let_def)

lemma stays_finish: "worker_finishes j p = Some p' \<Longrightarrow> in_pool p j \<and> in_pool p' j"
  by (auto simp: worker_finishes_def in_pool_enqueue split: if_splits) (simp add: in_pool_eq)

lemma stays_cancel: "in_pool p j \<Longrightarrow> in_pool (snd (uv__work_cancel j p)) j"
  by (auto simp: uv__work_cancel_def in_pool_enqueue)

lemma in_pool_submit: "in_pool (uv__work_submit l j p) j"
  by (simp add: uv__work_submit_def in_pool_eq)

lemma frame_submit:
  "works (uv__work_submit l j p) = (works p)(j := \<lparr>w_loop = l, w_work = WorkFn, w_linked = True\<rparr>)"
  "reported (uv__work_submit l j p) k = reported p k"
  by (simp_all add: uv__work_submit_def set_work_def reported_def)

lemma frame_cancel:
  "k \<noteq> j \<Longrightarrow> works (snd (uv__work_cancel j p)) k = works p k"
  "reported (snd (uv__work_cancel j p)) k = reported p k"
  by (simp_all add: uv__work_cancel_def enqueue_done_def unlink_work_def set_work_def reported_def Let_def)

lemma frame_finish:
  assumes "worker_finishes j p = Some p'"
  shows "works p' = (works p)(j := (works p j)\<lparr>w_work := WorkNull, w_linked := True\<rparr>)" "reported p' k = reported p k"
  using assms by (auto simp: worker_finishes_def enqueue_done_def set_work_def reported_def Let_def split: if_splits)

lemma frame_take:
  assumes "worker_takes n p = Some p'"
  shows "\<exists>j q. pool_wq p = j # q \<and> works p' = (works p)(j := (works p j)\<lparr>w_linked := False\<rparr>)" "reported p' k = reported p k"
  using assms by (auto simp: worker_takes_def set_work_def reported_def split: list.splits if_splits)

section \<open>What stays\<close>

text \<open>A work that was cancelled stays cancelled: no step starts it.\<close>

definition cancelled :: "pool \<Rightarrow> oid \<Rightarrow> bool" where
  "cancelled p j \<longleftrightarrow> w_work (works p j) = WorkCancelled \<and> j \<notin> set (started p)"

lemma cancelled_where: "pool_ok p \<Longrightarrow> cancelled p j \<Longrightarrow> j \<notin> set (pool_wq p) \<and> j \<notin> set (executing p) \<and> (in_pool p j \<or> reported p j)"
  using pool_okD(7) [of p j] unfolding cancelled_def work_ok_def in_pool_eq statuses_reported by auto

lemma cancelled_bg:
  assumes "bg_step n p p'" and "pool_ok p" and "cancelled p j"
  shows "cancelled p' j"
  using assms
proof (induction rule: bg_step.induct)
  case (submit p k l)
  then show ?case using cancelled_where [of p j]
    by (auto simp: cancelled_def uv__work_submit_def set_work_def)
next
  case (take p p')
  then show ?case using cancelled_where [of p j]
    by (auto simp: cancelled_def worker_takes_def set_work_def split: list.splits if_splits)
next
  case (finish k p p')
  then show ?case using cancelled_where [of p j]
    by (auto simp: cancelled_def worker_finishes_def enqueue_done_def set_work_def Let_def split: if_splits)
next
  case (cancel p k)
  then show ?case
    by (auto simp: cancelled_def uv__work_cancel_def enqueue_done_def unlink_work_def set_work_def Let_def)
qed

lemma cancelled_step:
  assumes "pool_step n p p'" and "pool_ok p" and "cancelled p j"
  shows "cancelled p' j"
  using assms
proof (induction rule: pool_step.induct)
  case (nxt l p p')
  then show ?case by (auto simp: cancelled_def work_done_next_def split: list.splits)
next
  case (background p p')
  then show ?case by (blast intro: cancelled_bg)
qed (simp add: cancelled_def work_done_begins_def)

lemma cancelled_steps:
  assumes "pool_steps n p p'" and "pool_ok p" and "cancelled p j"
  shows "cancelled p' j"
  using assms(1)
proof (induction rule: rtranclp_induct)
  case (step p1 p2)
  then show ?case using cancelled_step pool_ok_steps [OF _ assms(2)] by blast
qed (rule assms(3))

text \<open>The local queue of a loop only shrinks while \<open>uv__work_done\<close> is not at work.\<close>

lemma bg_done_wq:
  assumes "bg_steps n p p'"
  shows "length (done_wq p' l) \<le> length (done_wq p l) \<and> set (done_wq p' l) \<subseteq> set (done_wq p l)"
  using assms
proof (induction rule: rtranclp_induct)
  case (step a b)
  have "length (done_wq b l) \<le> length (done_wq a l) \<and> set (done_wq b l) \<subseteq> set (done_wq a l)"
    using step(2)
    by (induction rule: bg_step.induct)
      (auto simp: uv__work_submit_def worker_takes_def worker_finishes_def uv__work_cancel_def enqueue_done_def
        unlink_work_def set_work_def Let_def length_removeAll_less_eq split: list.splits if_splits)
  with step(3) show ?case by auto
qed simp

end
