(* ===== verification/Uv_Fs.thy ===== *)
theory Uv_Fs
  imports Thread_Pool Timers Addresses
begin

text \<open>
  The request structs of libuv that the thread pool works on: \<open>uv_fs_t\<close> with the operations of
  unix/fs.c on it, \<open>uv_getaddrinfo_t\<close> (unix/getaddrinfo.c) and \<open>uv_getnameinfo_t\<close>
  (unix/getnameinfo.c). What a system call does is a parameter, an \<open>fs_answer\<close>.
\<close>

section \<open>uv\_fs\_t\<close>

datatype uv_fs_type =
    UV_FS_OPEN | UV_FS_CLOSE | UV_FS_READ | UV_FS_WRITE | UV_FS_SENDFILE | UV_FS_STAT | UV_FS_LSTAT | UV_FS_FSTAT
  | UV_FS_FTRUNCATE | UV_FS_UTIME | UV_FS_FUTIME | UV_FS_ACCESS | UV_FS_CHMOD | UV_FS_FCHMOD | UV_FS_FSYNC
  | UV_FS_FDATASYNC | UV_FS_UNLINK | UV_FS_RMDIR | UV_FS_MKDIR | UV_FS_RENAME | UV_FS_SCANDIR | UV_FS_LINK
  | UV_FS_SYMLINK | UV_FS_READLINK | UV_FS_CHOWN | UV_FS_FCHOWN | UV_FS_REALPATH

record timespec =
  tv_sec :: int
  tv_nsec :: int

record struct_stat =
  s_dev :: int
  s_mode :: int
  s_nlink :: int
  s_uid :: int
  s_gid :: int
  s_rdev :: int
  s_ino :: int
  s_size :: int
  s_blksize :: int
  s_blocks :: int
  s_atim :: timespec
  s_mtim :: timespec
  s_ctim :: timespec

record uv_stat_t =
  st_dev :: int
  st_mode :: int
  st_nlink :: int
  st_uid :: int
  st_gid :: int
  st_rdev :: int
  st_ino :: int
  st_size :: int
  st_blksize :: int
  st_blocks :: int
  st_atim :: timespec
  st_mtim :: timespec
  st_ctim :: timespec
  st_birthtim :: timespec
  st_flags :: int
  st_gen :: int

definition stat_zero :: uv_stat_t where
  "stat_zero = (let t = \<lparr>tv_sec = 0, tv_nsec = 0\<rparr> in
     \<lparr>st_dev = 0, st_mode = 0, st_nlink = 0, st_uid = 0, st_gid = 0, st_rdev = 0, st_ino = 0, st_size = 0,
       st_blksize = 0, st_blocks = 0, st_atim = t, st_mtim = t, st_ctim = t, st_birthtim = t, st_flags = 0, st_gen = 0\<rparr>)"

text \<open>
  \<open>req->ptr\<close> is \<open>NULL\<close>, the address of \<open>req->statbuf\<close>, a string (readlink and realpath), or the
  entries of a directory with the libuv type of each.
\<close>

datatype fs_ptr = PtrNull | PtrStatbuf | PtrText string | PtrDents "(string \<times> int) list"

text \<open>
  \<open>fs_cb\<close>: there is a callback, so the request is asynchronous. A buffer is its length, and \<open>fs_data\<close> is
  what a read stores in it; \<open>fs_len\<close> is \<open>bufsml[0].len\<close>, which sendfile uses.
\<close>

record uv_fs_t =
  fs_type :: "uv_fs_type option"
  fs_result :: int
  fs_ptr :: fs_ptr
  fs_loop :: oid
  fs_path :: "string option"
  fs_new_path :: "string option"
  fs_cb :: bool
  fs_file :: int
  fs_flags :: int
  fs_mode :: int
  fs_uid :: int
  fs_gid :: int
  fs_off :: int
  fs_len :: int
  fs_atime :: double
  fs_mtime :: double
  fs_bufs :: "nat list"
  fs_nbufs :: nat
  fs_data :: string
  fs_statbuf :: uv_stat_t

definition fs_zero :: uv_fs_t where
  "fs_zero = \<lparr>fs_type = None, fs_result = 0, fs_ptr = PtrNull, fs_loop = 0, fs_path = None, fs_new_path = None,
     fs_cb = False, fs_file = 0, fs_flags = 0, fs_mode = 0, fs_uid = 0, fs_gid = 0, fs_off = 0, fs_len = 0,
     fs_atime = Dbl 0, fs_mtime = Dbl 0, fs_bufs = [], fs_nbufs = 0, fs_data = [], fs_statbuf = stat_zero\<rparr>"

text \<open>The fields that the macro \<open>INIT\<close> sets.\<close>

definition INIT :: "uv_fs_type \<Rightarrow> oid \<Rightarrow> bool \<Rightarrow> uv_fs_t \<Rightarrow> uv_fs_t" where
  "INIT t loop cb req = req\<lparr>fs_type := Some t, fs_result := 0, fs_ptr := PtrNull, fs_loop := loop, fs_path := None,
     fs_new_path := None, fs_cb := cb\<rparr>"

section \<open>uv\_\_fs\_work\<close>

text \<open>
  What the system call of a request does: its result, \<open>errno\<close>, and what it stores. \<open>a_mem\<close>: the
  allocation of the buffer for a path succeeds.
\<close>

record fs_answer =
  a_ret :: int
  a_errno :: int
  a_stat :: struct_stat
  a_text :: string
  a_dents :: "(string \<times> int) list"
  a_mem :: bool

definition EINTR :: int where "EINTR = 4"
definition ENOMEM :: int where "ENOMEM = 12"
definition UV_ENOMEM :: int where "UV_ENOMEM = -12"

definition uv__to_stat :: "struct_stat \<Rightarrow> uv_stat_t" where
  "uv__to_stat s = \<lparr>st_dev = s_dev s, st_mode = s_mode s, st_nlink = s_nlink s, st_uid = s_uid s, st_gid = s_gid s,
     st_rdev = s_rdev s, st_ino = s_ino s, st_size = s_size s, st_blksize = s_blksize s, st_blocks = s_blocks s,
     st_atim = s_atim s, st_mtim = s_mtim s, st_ctim = s_ctim s, st_birthtim = s_ctim s, st_flags = 0, st_gen = 0\<rparr>"

text \<open>Each of the following returns the result, \<open>errno\<close> and the request.\<close>

type_synonym fs_action = "uv_fs_t \<Rightarrow> int \<times> int \<times> uv_fs_t"

definition uv__fs_stat :: "fs_answer \<Rightarrow> fs_action" where
  "uv__fs_stat a req = (a_ret a, a_errno a, if a_ret a = 0 then req\<lparr>fs_statbuf := uv__to_stat (a_stat a)\<rparr> else req)"

definition uv__fs_lstat :: "fs_answer \<Rightarrow> fs_action" where
  "uv__fs_lstat a req = (a_ret a, a_errno a, if a_ret a = 0 then req\<lparr>fs_statbuf := uv__to_stat (a_stat a)\<rparr> else req)"

definition uv__fs_fstat :: "fs_answer \<Rightarrow> fs_action" where
  "uv__fs_fstat a req = (a_ret a, a_errno a, if a_ret a = 0 then req\<lparr>fs_statbuf := uv__to_stat (a_stat a)\<rparr> else req)"

text \<open>\<open>readlink\<close> stores at most \<open>a_ret\<close> bytes, which end at the first NUL.\<close>

definition uv__fs_readlink :: "fs_answer \<Rightarrow> fs_action" where
  "uv__fs_readlink a req =
     (if \<not> a_mem a then (-1, ENOMEM, req)
      else if a_ret a = -1 then (-1, a_errno a, req)
      else (0, a_errno a, req\<lparr>fs_ptr := PtrText (take (nat (a_ret a)) (a_text a))\<rparr>))"

definition uv__fs_realpath :: "fs_answer \<Rightarrow> fs_action" where
  "uv__fs_realpath a req =
     (if \<not> a_mem a then (-1, ENOMEM, req)
      else if a_ret a = -1 then (-1, a_errno a, req)
      else (0, a_errno a, req\<lparr>fs_ptr := PtrText (a_text a)\<rparr>))"

definition uv__fs_scandir_filter :: "string \<times> int \<Rightarrow> bool" where
  "uv__fs_scandir_filter d \<longleftrightarrow> fst d \<noteq> ''.'' \<and> fst d \<noteq> ''..''"

text \<open>
  \<open>scandir\<close> fails with \<open>-1\<close> or stores the entries that pass the filter, and returns how many. \<open>fs_nbufs\<close>
  becomes the index of the next entry. The order of the entries is that of the answer.
\<close>

definition uv__fs_scandir :: "fs_answer \<Rightarrow> fs_action" where
  "uv__fs_scandir a req =
     (let dents = filter uv__fs_scandir_filter (a_dents a);
          n = (if a_ret a = -1 then -1 else int (length dents));
          req1 = req\<lparr>fs_nbufs := 0\<rparr>
      in if n = 0 then (n, a_errno a, req1\<lparr>fs_ptr := PtrNull\<rparr>)
         else if n = -1 then (n, a_errno a, req1)
         else (n, a_errno a, req1\<lparr>fs_ptr := PtrDents dents\<rparr>))"

text \<open>
  \<open>uv__fs_buf_iter\<close> gives the buffers to \<open>process\<close>, at most \<open>iovmax\<close> (which is positive) at a time; \<open>process\<close> returns
  its result and \<open>errno\<close>. The result is the total, with the request at the state the loop leaves.
\<close>

function buf_iter_loop :: "nat \<Rightarrow> (uv_fs_t \<Rightarrow> int \<times> int) \<Rightarrow> int \<Rightarrow> int \<Rightarrow> uv_fs_t \<Rightarrow> nat list \<Rightarrow> int \<times> int \<times> uv_fs_t" where
  "buf_iter_loop iovmax process tot err req bufs =
     (if bufs = [] then (tot, err, req)
      else let req1 = req\<lparr>fs_bufs := bufs, fs_nbufs := min (length bufs) (max 1 iovmax)\<rparr>;
               (result, err1) = process req1
           in if result \<le> 0 then (if tot = 0 then result else tot, err1, req1)
              else buf_iter_loop iovmax process (tot + result) err1
                     (if 0 \<le> fs_off req1 then req1\<lparr>fs_off := fs_off req1 + result\<rparr> else req1)
                     (drop (fs_nbufs req1) bufs))"
  by pat_completeness auto
termination
  by (relation "measure (\<lambda>(_, _, _, _, _, bufs). length bufs)") auto

declare buf_iter_loop.simps [simp del]

definition uv__fs_buf_iter :: "nat \<Rightarrow> (uv_fs_t \<Rightarrow> int \<times> int) \<Rightarrow> fs_action" where
  "uv__fs_buf_iter iovmax process req =
     (let (tot, err, req1) = buf_iter_loop iovmax process 0 0 req (fs_bufs req)
      in if err = EINTR \<and> tot = -1 then (tot, err, req1)
         else (tot, err, req1\<lparr>fs_bufs := [], fs_nbufs := 0\<rparr>))"

text \<open>
  The \<open>switch\<close> of \<open>uv__fs_work\<close>. A request for which nothing was set is the default case, \<open>abort\<close>.
  A read or a write of pyuv has one buffer.
\<close>

definition IOV_MAX :: nat where "IOV_MAX = 1024"

definition fs_switch :: "fs_answer \<Rightarrow> uv_fs_type \<Rightarrow> fs_action" where
  "fs_switch a t =
     (case t of
        UV_FS_STAT \<Rightarrow> uv__fs_stat a
      | UV_FS_LSTAT \<Rightarrow> uv__fs_lstat a
      | UV_FS_FSTAT \<Rightarrow> uv__fs_fstat a
      | UV_FS_READLINK \<Rightarrow> uv__fs_readlink a
      | UV_FS_REALPATH \<Rightarrow> uv__fs_realpath a
      | UV_FS_SCANDIR \<Rightarrow> uv__fs_scandir a
      | UV_FS_READ \<Rightarrow> (\<lambda>req. uv__fs_buf_iter IOV_MAX (\<lambda>_. (a_ret a, a_errno a)) (req\<lparr>fs_data := take (nat (a_ret a)) (a_text a)\<rparr>))
      | UV_FS_WRITE \<Rightarrow> uv__fs_buf_iter IOV_MAX (\<lambda>_. (a_ret a, a_errno a))
      | _ \<Rightarrow> (\<lambda>req. (a_ret a, a_errno a, req)))"

text \<open>
  The loop of \<open>uv__fs_work\<close>: \<open>interrupted\<close> attempts fail with \<open>EINTR\<close>, the next one is answered by \<open>a\<close>
  and ends the loop. The call does not come back while it is interrupted; the caller chooses how often that is.
\<close>

definition set_result :: "uv_fs_type \<Rightarrow> int \<times> int \<times> uv_fs_t \<Rightarrow> uv_fs_t" where
  "set_result t x =
     (case x of (r, err, req) \<Rightarrow>
        let req1 = req\<lparr>fs_result := if r = -1 then - err else r\<rparr>
        in if r = 0 \<and> t \<in> {UV_FS_STAT, UV_FS_FSTAT, UV_FS_LSTAT} then req1\<lparr>fs_ptr := PtrStatbuf\<rparr> else req1)"

fun fs_attempts :: "nat \<Rightarrow> fs_answer \<Rightarrow> uv_fs_type \<Rightarrow> fs_action" where
  "fs_attempts 0 a t req = fs_switch a t req"
| "fs_attempts (Suc n) a t req =
     (let retry_on_eintr = (t \<noteq> UV_FS_CLOSE);
          (r, err, req1) = fs_switch (a\<lparr>a_ret := -1, a_errno := EINTR\<rparr>) t req
      in if r = -1 \<and> err = EINTR \<and> retry_on_eintr then fs_attempts n a t req1 else (r, err, req1))"

definition uv__fs_work :: "nat \<Rightarrow> fs_answer \<Rightarrow> uv_fs_t \<Rightarrow> uv_fs_t option" where
  "uv__fs_work interrupted a req =
     (case fs_type req of None \<Rightarrow> None | Some t \<Rightarrow> Some (set_result t (fs_attempts interrupted a t req)))"

section \<open>Reading the result\<close>

text \<open>\<open>uv__fs_done\<close> up to the call of the callback; \<open>None\<close> is the failure of its assertion.\<close>

definition uv__fs_done :: "int \<Rightarrow> uv_fs_t \<Rightarrow> uv_fs_t option" where
  "uv__fs_done status req =
     (if status = UV_ECANCELED
      then if fs_result req = 0 then Some (req\<lparr>fs_result := UV_ECANCELED\<rparr>) else None
      else Some req)"

definition uv_fs_scandir_next :: "uv_fs_t \<Rightarrow> int \<times> (string \<times> int) option \<times> uv_fs_t" where
  "uv_fs_scandir_next req =
     (if fs_result req < 0 then (fs_result req, None, req)
      else case fs_ptr req of
        PtrDents dents \<Rightarrow>
          if int (fs_nbufs req) = fs_result req then (-4095, None, req\<lparr>fs_ptr := PtrNull\<rparr>)
          else (0, Some (dents ! fs_nbufs req), req\<lparr>fs_nbufs := fs_nbufs req + 1\<rparr>)
      | _ \<Rightarrow> (-4095, None, req))"

text \<open>The loop that reads the entries; \<open>fuel\<close> is the number of entries and one more.\<close>

fun scandir_all :: "nat \<Rightarrow> uv_fs_t \<Rightarrow> ((string \<times> int) list \<times> uv_fs_t) option" where
  "scandir_all 0 req = None"
| "scandir_all (Suc fuel) req =
     (case uv_fs_scandir_next req of
        (_, None, req1) \<Rightarrow> Some ([], req1)
      | (_, Some d, req1) \<Rightarrow> map_option (\<lambda>(ds, r). (d # ds, r)) (scandir_all fuel req1))"

definition uv_fs_req_cleanup :: "uv_fs_t \<Rightarrow> uv_fs_t" where
  "uv_fs_req_cleanup req = req\<lparr>fs_path := None, fs_new_path := None, fs_ptr := PtrNull\<rparr>"

lemma scandir_rest:
  assumes "fs_ptr req = PtrDents dents" and "fs_result req = int (length dents)" and "fs_nbufs req \<le> length dents"
    and "length dents - fs_nbufs req < fuel"
  shows "\<exists>req'. scandir_all fuel req = Some (drop (fs_nbufs req) dents, req')"
  using assms
proof (induction fuel arbitrary: req)
  case (Suc fuel)
  show ?case
  proof (cases "fs_nbufs req = length dents")
    case False
    with Suc.IH [of "req\<lparr>fs_nbufs := fs_nbufs req + 1\<rparr>"] Suc.prems
    show ?thesis
      by (auto simp: uv_fs_scandir_next_def Cons_nth_drop_Suc [of "fs_nbufs req" dents, symmetric])
  qed (use Suc.prems in \<open>simp add: uv_fs_scandir_next_def\<close>)
qed simp

section \<open>Names and addresses\<close>

record addrinfo =
  ai_family :: int
  ai_socktype :: int
  ai_protocol :: int
  ai_canonname :: "string option"
  ai_addr :: "sockaddr option"

text \<open>
  \<open>uv_getaddrinfo_t\<close> and \<open>uv_getnameinfo_t\<close>. \<open>ai_addr\<close>
  is \<open>None\<close> when \<open>ai_addrlen\<close> is 0; \<open>gai_hints\<close>, \<open>gai_service\<close> and \<open>gai_hostname\<close> are the copies that the request owns.
\<close>

record uv_getaddrinfo_t =
  gai_loop :: oid
  gai_cb :: bool
  gai_addrinfo :: "addrinfo list"
  gai_hints :: "(int \<times> int \<times> int \<times> int) option"
  gai_service :: "string option"
  gai_hostname :: "string option"
  gai_retcode :: int

record uv_getnameinfo_t =
  gni_loop :: oid
  gni_cb :: bool
  gni_flags :: int
  gni_storage :: sockaddr
  gni_host :: string
  gni_service :: string
  gni_retcode :: int

definition gai_zero :: uv_getaddrinfo_t where
  "gai_zero = \<lparr>gai_loop = 0, gai_cb = False, gai_addrinfo = [], gai_hints = None, gai_service = None, gai_hostname = None,
     gai_retcode = 0\<rparr>"

definition gni_zero :: uv_getnameinfo_t where
  "gni_zero = \<lparr>gni_loop = 0, gni_cb = False, gni_flags = 0, gni_storage = AF_OTHER 0, gni_host = [], gni_service = [], gni_retcode = 0\<rparr>"

text \<open>
  The error codes: \<open>EAI_*\<close> of glibc and \<open>UV_EAI_*\<close>. \<open>None\<close> is the assertion about an unknown code; \<open>EAI_SYSTEM\<close>
  is \<open>errno\<close>. glibc defines \<open>EAI_NODATA\<close>, \<open>EAI_ADDRFAMILY\<close> and \<open>EAI_CANCELED\<close> under \<open>_GNU_SOURCE\<close>, and neither
  \<open>EAI_BADHINTS\<close> nor \<open>EAI_PROTOCOL\<close>.
\<close>

definition uv__getaddrinfo_translate_error :: "int \<Rightarrow> int \<Rightarrow> int option" where
  "uv__getaddrinfo_translate_error errno sys_err =
     (if sys_err = 0 then Some 0
      else if sys_err = -9 then Some (-3000)
      else if sys_err = -3 then Some (-3001)
      else if sys_err = -1 then Some (-3002)
      else if sys_err = -101 then Some (-3003)
      else if sys_err = -4 then Some (-3004)
      else if sys_err = -6 then Some (-3005)
      else if sys_err = -10 then Some (-3006)
      else if sys_err = -5 then Some (-3007)
      else if sys_err = -2 then Some (-3008)
      else if sys_err = -12 then Some (-3009)
      else if sys_err = -8 then Some (-3010)
      else if sys_err = -7 then Some (-3011)
      else if sys_err = -11 then Some (- errno)
      else None)"

definition UV_EAI_CANCELED :: int where "UV_EAI_CANCELED = -3003"

text \<open>\<open>getaddrinfo\<close> and \<open>getnameinfo\<close>: the return code, \<open>errno\<close> and what they store.\<close>

record dns_answer =
  d_err :: int
  d_errno :: int
  d_addrinfo :: "addrinfo list"
  d_host :: string
  d_service :: string

definition uv__getaddrinfo_work :: "dns_answer \<Rightarrow> uv_getaddrinfo_t \<Rightarrow> uv_getaddrinfo_t option" where
  "uv__getaddrinfo_work a req =
     map_option (\<lambda>rc. req\<lparr>gai_retcode := rc, gai_addrinfo := if d_err a = 0 then d_addrinfo a else gai_addrinfo req\<rparr>)
       (uv__getaddrinfo_translate_error (d_errno a) (d_err a))"

definition uv__getaddrinfo_done :: "int \<Rightarrow> uv_getaddrinfo_t \<Rightarrow> uv_getaddrinfo_t option" where
  "uv__getaddrinfo_done status req =
     (if gai_hints req = None \<and> gai_service req = None \<and> gai_hostname req = None then None
      else let req1 = req\<lparr>gai_hints := None, gai_service := None, gai_hostname := None\<rparr>
           in if status = UV_ECANCELED
              then if gai_retcode req1 = 0 then Some (req1\<lparr>gai_retcode := UV_EAI_CANCELED\<rparr>) else None
              else Some req1)"

definition is_AF_OTHER :: "sockaddr \<Rightarrow> bool" where
  "is_AF_OTHER a = (case a of AF_OTHER _ \<Rightarrow> True | _ \<Rightarrow> False)"

definition uv__getnameinfo_work :: "dns_answer \<Rightarrow> uv_getnameinfo_t \<Rightarrow> uv_getnameinfo_t option" where
  "uv__getnameinfo_work a req =
     (if \<not> is_AF_OTHER (gni_storage req)
      then map_option (\<lambda>rc. req\<lparr>gni_retcode := rc, gni_host := if d_err a = 0 then d_host a else gni_host req,
             gni_service := if d_err a = 0 then d_service a else gni_service req\<rparr>)
             (uv__getaddrinfo_translate_error (d_errno a) (d_err a))
      else None)"

definition uv__getnameinfo_done :: "int \<Rightarrow> uv_getnameinfo_t \<Rightarrow> (uv_getnameinfo_t \<times> (string \<times> string) option) option" where
  "uv__getnameinfo_done status req =
     (if status = UV_ECANCELED
      then if gni_retcode req = 0 then Some (req\<lparr>gni_retcode := UV_EAI_CANCELED\<rparr>, None) else None
      else if gni_retcode req = 0 then Some (req, Some (gni_host req, gni_service req))
      else Some (req, None))"

end
