(* ===== verification/Requests.thy ===== *)
theory Requests
  imports Uv_Fs Callbacks Loops Streams
begin

text \<open>
  The requests of pyuv that the thread pool works on: the classes of src/request.c. Their objects
  are a heap of their own, next to the one of \<open>Pyuv_World\<close>: no field of another struct refers to a
  request. The state has the thread pool, too, and the values of the objects that results are made of.
\<close>

section \<open>Objects\<close>

datatype req_class = GAIRequest | GNIRequest | WorkRequest | FSRequest

datatype rfield = F_loop | F_dict | F_callback | F_work_cb | F_done_cb | F_path | F_result | F_error

text \<open>
  \<open>req_ptr\<close>: \<open>self->req_ptr\<close> is not \<open>NULL\<close>. \<open>typed\<close>: \<open>req->type\<close> was set by libuv. \<open>view\<close> is the object
  whose buffer a write borrows. Of the embedded libuv requests only the one of the class is used.
\<close>

record request =
  rclass :: req_class
  rrefcnt :: int
  rlive :: bool
  rinit :: bool
  req_ptr :: bool
  rfields :: "rfield \<Rightarrow> oid option"
  view :: "oid option"
  typed :: bool
  r_fs :: uv_fs_t
  r_gai :: uv_getaddrinfo_t
  r_gni :: uv_getnameinfo_t

definition request_zero :: "req_class \<Rightarrow> request" where
  "request_zero c = \<lparr>rclass = c, rrefcnt = 1, rlive = True, rinit = False, req_ptr = False, rfields = (\<lambda>_. None),
     view = None, typed = False, r_fs = fs_zero, r_gai = gai_zero, r_gni = gni_zero\<rparr>"

text \<open>
  The value of an object that is made as a result: \<open>None\<close>, an int, bytes, a string, a stat result, a
  directory listing (an entry whose name does not decode has no name), a list of addresses, a pair of names.
\<close>

datatype stat_value = SInt int | SFloat timespec

datatype pyval =
    NoneV | IntV int | BytesV string | StrV string | StatV "stat_value list"
  | DirV "(string option \<times> int) list" | AddrsV "(int \<times> int \<times> int \<times> string \<times> py_addr) list" | NamesV string string

text \<open>
  The state: the world of the handles, the requests, the references that the Python program has to
  them, the thread pool, the values of objects, the history of the calls of Python and the static
  variable \<open>_stat_float_times\<close>.
\<close>

record rworld =
  core :: world
  reqs :: "request list"
  rext :: "nat \<Rightarrow> nat"
  thr_pool :: pool
  vals :: "oid \<Rightarrow> pyval"
  calls :: "(oid \<times> nat list \<times> oid list) list"
  stat_float :: int

definition on_core :: "(world \<Rightarrow> world) \<Rightarrow> rworld \<Rightarrow> rworld" where
  "on_core f S = S\<lparr>core := f (core S)\<rparr>"

definition upd_req :: "nat \<Rightarrow> (request \<Rightarrow> request) \<Rightarrow> rworld \<Rightarrow> rworld" where
  "upd_req r f S = S\<lparr>reqs := (reqs S)[r := f (reqs S ! r)]\<rparr>"

definition on_pool :: "(pool \<Rightarrow> pool) \<Rightarrow> rworld \<Rightarrow> rworld" where
  "on_pool f S = S\<lparr>thr_pool := f (thr_pool S)\<rparr>"

abbreviation rfield_of :: "rworld \<Rightarrow> nat \<Rightarrow> rfield \<Rightarrow> oid option" where
  "rfield_of S r f \<equiv> rfields (reqs S ! r) f"

section \<open>Reference counts\<close>

definition Request_tp_clear :: "rfield list" where
  "Request_tp_clear = [F_loop, F_dict]"

definition Request_tp_traverse :: "rfield list" where
  "Request_tp_traverse = [F_loop, F_dict]"

definition GAIRequest_tp_clear :: "rfield list" where
  "GAIRequest_tp_clear = F_callback # Request_tp_clear"

definition GAIRequest_tp_traverse :: "rfield list" where
  "GAIRequest_tp_traverse = F_callback # Request_tp_traverse"

definition GNIRequest_tp_clear :: "rfield list" where
  "GNIRequest_tp_clear = F_callback # Request_tp_clear"

definition GNIRequest_tp_traverse :: "rfield list" where
  "GNIRequest_tp_traverse = F_callback # Request_tp_traverse"

definition WorkRequest_tp_clear :: "rfield list" where
  "WorkRequest_tp_clear = F_work_cb # F_done_cb # Request_tp_clear"

definition WorkRequest_tp_traverse :: "rfield list" where
  "WorkRequest_tp_traverse = F_work_cb # F_done_cb # Request_tp_traverse"

definition FSRequest_tp_clear :: "rfield list" where
  "FSRequest_tp_clear = F_callback # F_path # F_result # F_error # Request_tp_clear"

definition FSRequest_tp_traverse :: "rfield list" where
  "FSRequest_tp_traverse = F_callback # F_path # F_result # F_error # Request_tp_traverse"

primrec request_tp_clear :: "req_class \<Rightarrow> rfield list" where
  "request_tp_clear GAIRequest = GAIRequest_tp_clear"
| "request_tp_clear GNIRequest = GNIRequest_tp_clear"
| "request_tp_clear WorkRequest = WorkRequest_tp_clear"
| "request_tp_clear FSRequest = FSRequest_tp_clear"

primrec request_tp_traverse :: "req_class \<Rightarrow> rfield list" where
  "request_tp_traverse GAIRequest = GAIRequest_tp_traverse"
| "request_tp_traverse GNIRequest = GNIRequest_tp_traverse"
| "request_tp_traverse WorkRequest = WorkRequest_tp_traverse"
| "request_tp_traverse FSRequest = FSRequest_tp_traverse"

lemmas request_clear_defs = Request_tp_clear_def GAIRequest_tp_clear_def GNIRequest_tp_clear_def
  WorkRequest_tp_clear_def FSRequest_tp_clear_def

lemmas request_traverse_defs = Request_tp_traverse_def GAIRequest_tp_traverse_def GNIRequest_tp_traverse_def
  WorkRequest_tp_traverse_def FSRequest_tp_traverse_def

text \<open>The objects that the fields of a request refer to, in the order of \<open>tp_clear\<close>.\<close>

definition field_refs :: "request \<Rightarrow> oid list" where
  "field_refs q = List.map_filter (rfields q) (request_tp_clear (rclass q))"

definition rq_INCREF :: "nat \<Rightarrow> rworld \<Rightarrow> rworld" where
  "rq_INCREF r S = upd_req r (\<lambda>q. q\<lparr>rrefcnt := rrefcnt q + 1\<rparr>) S"

text \<open>The inherited \<open>tp_dealloc\<close>: \<open>tp_clear\<close> of the type, then \<open>tp_free\<close>. It does not release a buffer.\<close>

definition Request_tp_dealloc :: "nat \<Rightarrow> rworld \<Rightarrow> rworld" where
  "Request_tp_dealloc r S =
     on_core (release (field_refs (reqs S ! r)))
       (upd_req r (\<lambda>q. q\<lparr>rlive := False, rfields := (\<lambda>_. None)\<rparr>) S)"

definition rq_DECREF :: "nat \<Rightarrow> rworld \<Rightarrow> rworld" where
  "rq_DECREF r S =
     (if r < length (reqs S) \<and> rlive (reqs S ! r)
      then let S1 = upd_req r (\<lambda>q. q\<lparr>rrefcnt := rrefcnt q - 1\<rparr>) S
           in if rrefcnt (reqs S1 ! r) = 0 then Request_tp_dealloc r S1 else S1
      else S)"

text \<open>A field that is overwritten without a \<open>Py_DECREF\<close>, and the usual assignment.\<close>

definition rq_put :: "nat \<Rightarrow> rfield \<Rightarrow> oid option \<Rightarrow> rworld \<Rightarrow> rworld" where
  "rq_put r f v S = upd_req r (\<lambda>q. q\<lparr>rfields := (rfields q)(f := v)\<rparr>) S"

definition rq_assign :: "nat \<Rightarrow> rfield \<Rightarrow> oid \<Rightarrow> rworld \<Rightarrow> rworld" where
  "rq_assign r f v S =
     (let tmp = rfield_of S r f in on_core (Py_XDECREF tmp) (rq_put r f (Some v) (on_core (Py_INCREF v) S)))"

section \<open>request.c\<close>

text \<open>The arguments of a constructor are what \<open>PyArg_ParseTuple\<close> makes of them; the loop is a \<open>Loop\<close> object.\<close>

definition rq_parse :: "'a args \<Rightarrow> rworld \<Rightarrow> ('a \<Rightarrow> 'b result \<times> rworld) \<Rightarrow> 'b result \<times> rworld" where
  "rq_parse args S k = (case args of Inl e \<Rightarrow> (Raise e, S) | Inr a \<Rightarrow> k a)"

definition Request_tp_new :: "req_class \<Rightarrow> rworld \<Rightarrow> nat \<times> rworld" where
  "Request_tp_new c S = (length (reqs S), S\<lparr>reqs := reqs S @ [request_zero c]\<rparr>)"

definition Request_tp_init :: "nat \<Rightarrow> oid args \<Rightarrow> rworld \<Rightarrow> unit result \<times> rworld" where
  "Request_tp_init self args S =
     (if rinit (reqs S ! self) then (Raise RuntimeError, S)
      else rq_parse args S (\<lambda>loop. (Ok (), upd_req self (\<lambda>q. q\<lparr>rinit := True\<rparr>) (rq_assign self F_loop loop S))))"

definition GAIRequest_tp_new :: "rworld \<Rightarrow> nat \<times> rworld" where
  "GAIRequest_tp_new S = (let (r, S1) = Request_tp_new GAIRequest S in (r, upd_req r (\<lambda>q. q\<lparr>req_ptr := True\<rparr>) S1))"

definition GAIRequest_tp_init :: "nat \<Rightarrow> (oid \<times> oid) args \<Rightarrow> rworld \<Rightarrow> unit result \<times> rworld" where
  "GAIRequest_tp_init self args S =
     rq_parse args S (\<lambda>(loop, callback).
       case Request_tp_init self (Inr loop) S of
         (Ok _, S1) \<Rightarrow> (Ok (), rq_assign self F_callback callback S1)
       | x \<Rightarrow> x)"

definition GNIRequest_tp_new :: "rworld \<Rightarrow> nat \<times> rworld" where
  "GNIRequest_tp_new S = (let (r, S1) = Request_tp_new GNIRequest S in (r, upd_req r (\<lambda>q. q\<lparr>req_ptr := True\<rparr>) S1))"

definition GNIRequest_tp_init :: "nat \<Rightarrow> (oid \<times> oid) args \<Rightarrow> rworld \<Rightarrow> unit result \<times> rworld" where
  "GNIRequest_tp_init self args S =
     rq_parse args S (\<lambda>(loop, callback).
       case Request_tp_init self (Inr loop) S of
         (Ok _, S1) \<Rightarrow> (Ok (), rq_assign self F_callback callback S1)
       | x \<Rightarrow> x)"

definition WorkRequest_tp_new :: "rworld \<Rightarrow> nat \<times> rworld" where
  "WorkRequest_tp_new S = (let (r, S1) = Request_tp_new WorkRequest S in (r, upd_req r (\<lambda>q. q\<lparr>req_ptr := True\<rparr>) S1))"

definition WorkRequest_tp_init :: "nat \<Rightarrow> (oid \<times> oid \<times> oid) args \<Rightarrow> rworld \<Rightarrow> unit result \<times> rworld" where
  "WorkRequest_tp_init self args S =
     rq_parse args S (\<lambda>(loop, work_cb, done_cb).
       case Request_tp_init self (Inr loop) S of
         (Ok _, S1) \<Rightarrow> (Ok (), rq_assign self F_done_cb done_cb (rq_assign self F_work_cb work_cb S1))
       | x \<Rightarrow> x)"

text \<open>\<open>path\<close>, \<open>result\<close> and \<open>error\<close> are \<open>NULL\<close> already: the struct was zeroed.\<close>

definition FSRequest_tp_new :: "rworld \<Rightarrow> nat \<times> rworld" where
  "FSRequest_tp_new S =
     (let (r, S1) = Request_tp_new FSRequest S
      in (r, rq_put r F_error None (rq_put r F_result None (rq_put r F_path None
                (upd_req r (\<lambda>q. q\<lparr>req_ptr := True\<rparr>) S1)))))"

definition FSRequest_tp_init :: "nat \<Rightarrow> (oid \<times> oid) args \<Rightarrow> rworld \<Rightarrow> unit result \<times> rworld" where
  "FSRequest_tp_init self args S =
     rq_parse args S (\<lambda>(loop, callback).
       case Request_tp_init self (Inr loop) S of
         (Ok _, S1) \<Rightarrow> (Ok (), rq_assign self F_callback callback S1)
       | x \<Rightarrow> x)"

text \<open>The call of a type object: \<open>tp_new\<close>, then \<open>tp_init\<close>; the object goes when that fails.\<close>

definition construct :: "(rworld \<Rightarrow> nat \<times> rworld) \<Rightarrow> (nat \<Rightarrow> rworld \<Rightarrow> unit result \<times> rworld) \<Rightarrow> rworld \<Rightarrow> nat result \<times> rworld" where
  "construct new init S =
     (let (r, S1) = new S
      in case init r S1 of
           (Ok _, S2) \<Rightarrow> (Ok r, S2)
         | (Raise e, S2) \<Rightarrow> (Raise e, rq_DECREF r S2)
         | (Abort, S2) \<Rightarrow> (Abort, S2))"

text \<open>\<open>uv_cancel\<close>: a request that libuv has not seen has the type 0.\<close>

definition uv_cancel :: "nat \<Rightarrow> rworld \<Rightarrow> int \<times> rworld" where
  "uv_cancel r S =
     (if \<not> typed (reqs S ! r) then (UV_EINVAL, S)
      else let (e, p) = uv__work_cancel r (thr_pool S) in (e, on_pool (\<lambda>_. p) S))"

definition Request_func_cancel :: "nat \<Rightarrow> rworld \<Rightarrow> bool \<times> rworld" where
  "Request_func_cancel self S =
     (if req_ptr (reqs S ! self)
      then let (e, S1) = uv_cancel self S in (e = 0, S1)
      else (False, S))"

definition Request_dict_get :: "nat \<Rightarrow> rworld \<Rightarrow> oid \<times> rworld" where
  "Request_dict_get self S =
     (case rfield_of S self F_dict of
        Some d \<Rightarrow> (d, on_core (Py_INCREF d) S)
      | None \<Rightarrow>
          let (d, w1) = PyType_GenericNew (KObject False) (core S)
          in (d, on_core (Py_INCREF d) (rq_put self F_dict (Some d) (on_core (\<lambda>_. w1) S))))"

text \<open>\<open>val\<close>: \<open>None\<close> for a deletion; \<open>is_dict\<close> is \<open>PyDict_Check\<close>.\<close>

definition Request_dict_set :: "(oid \<Rightarrow> bool) \<Rightarrow> nat \<Rightarrow> oid option \<Rightarrow> rworld \<Rightarrow> unit result \<times> rworld" where
  "Request_dict_set is_dict self val S =
     (case val of
        None \<Rightarrow> (Raise TypeError, S)
      | Some v \<Rightarrow> if \<not> is_dict v then (Raise TypeError, S) else (Ok (), rq_assign self F_dict v S))"

definition get_or_none :: "rfield \<Rightarrow> nat \<Rightarrow> rworld \<Rightarrow> oid \<times> rworld" where
  "get_or_none f self S =
     (case rfield_of S self f of
        Some x \<Rightarrow> (x, on_core (Py_INCREF x) S)
      | None \<Rightarrow> (Py_None, on_core (Py_INCREF Py_None) S))"

definition FSRequest_path_get :: "nat \<Rightarrow> rworld \<Rightarrow> oid \<times> rworld" where
  "FSRequest_path_get = get_or_none F_path"

definition FSRequest_result_get :: "nat \<Rightarrow> rworld \<Rightarrow> oid \<times> rworld" where
  "FSRequest_result_get = get_or_none F_result"

definition FSRequest_error_get :: "nat \<Rightarrow> rworld \<Rightarrow> oid \<times> rworld" where
  "FSRequest_error_get = get_or_none F_error"

section \<open>Calling Python\<close>

text \<open>As in \<open>Handle_Base\<close>, for programs that use requests: an argument of a call may be a request.\<close>

record rpython =
  rpy_call :: "oid \<Rightarrow> nat list \<Rightarrow> oid list \<Rightarrow> rworld \<Rightarrow> oid option \<times> rworld"
  rpy_excepthook :: "oid \<Rightarrow> rworld \<Rightarrow> attr"

definition log_call :: "oid \<Rightarrow> nat list \<Rightarrow> oid list \<Rightarrow> rworld \<Rightarrow> rworld" where
  "log_call f rs args S = S\<lparr>calls := calls S @ [(f, rs, args)]\<rparr>"

definition rq_Call :: "rpython \<Rightarrow> oid option \<Rightarrow> nat list \<Rightarrow> oid list \<Rightarrow> rworld \<Rightarrow> oid option \<times> rworld" where
  "rq_Call py callable rs args S =
     (case callable of
        None \<Rightarrow> (None, S)
      | Some f \<Rightarrow>
          let (x, S1) = rpy_call py f rs args (log_call f rs args (fold rq_INCREF rs (on_core (fold Py_INCREF args) S)))
          in (x, fold rq_DECREF rs (on_core (release args) S1)))"

definition rq_uncaught_exception :: "rpython \<Rightarrow> oid option \<Rightarrow> rworld \<Rightarrow> rworld option" where
  "rq_uncaught_exception py lo S =
     (case lo of
        None \<Rightarrow> None
      | Some l \<Rightarrow> Some (
          case rpy_excepthook py l S of
            AttrMissing \<Rightarrow> on_core (log_event PrintedUnhandled) S
          | AttrRaises \<Rightarrow> on_core (\<lambda>w. log_event PrintedUnhandled (log_event HookFailed w)) S
          | AttrIs hook \<Rightarrow>
              let S1 = on_core (Py_INCREF hook) S
              in if hook = Py_None then on_core (\<lambda>w. log_event PrintedUnhandled (Py_DECREF hook w)) S1
                 else case rpy_call py hook [] [] (on_core (log_event (CalledHook hook)) S1) of
                        (None, S2) \<Rightarrow> on_core (\<lambda>w. log_event PrintedUnhandled (Py_DECREF hook (log_event HookFailed w))) S2
                      | (Some x, S2) \<Rightarrow> on_core (\<lambda>w. Py_DECREF hook (Py_DECREF x w)) S2))"

text \<open>The callbacks read the loop of the request before the call and keep the pointer.\<close>

definition rq_callback :: "rpython \<Rightarrow> oid option \<Rightarrow> nat list \<Rightarrow> oid list \<Rightarrow> oid option \<Rightarrow> rworld \<Rightarrow> rworld option" where
  "rq_callback py callable rs args loop S =
     (case rq_Call py callable rs args S of
        (Some x, S1) \<Rightarrow> Some (on_core (Py_DECREF x) S1)
      | (None, S1) \<Rightarrow> rq_uncaught_exception py loop S1)"

text \<open>A new object with a value, or another reference to \<open>None\<close>.\<close>

definition new_value :: "pyval \<Rightarrow> rworld \<Rightarrow> oid \<times> rworld" where
  "new_value v S =
     (if v = NoneV then (Py_None, on_core (Py_INCREF Py_None) S)
      else let (x, w1) = PyType_GenericNew (KObject False) (core S)
           in (x, (on_core (\<lambda>_. w1) S)\<lparr>vals := (vals S)(x := v)\<rparr>))"

end
