(* ===== verification/Fs_Requests.thy ===== *)
theory Fs_Requests
  imports Requests
begin

text \<open>
  The file system functions: \<open>uv_fs_*\<close> of unix/fs.c, which start a request or carry it out, and
  the functions of src/fs.c that call them.
\<close>

section \<open>Starting a request\<close>

text \<open>
  What the operating system and the allocators do in one call: \<open>o_mem\<close>: libuv's allocation succeeds;
  \<open>o_pymem\<close>: so does that of the result object; \<open>o_decodes\<close>: the string is valid UTF-8, so that
  \<open>Py_BuildValue\<close> can decode it; a system call is interrupted \<open>o_interrupted\<close> times and then
  answered by \<open>o_answer\<close>.
\<close>

record fs_os =
  o_mem :: bool
  o_pymem :: bool
  o_decodes :: "string \<Rightarrow> bool"
  o_interrupted :: nat
  o_answer :: fs_answer

definition upd_fs :: "nat \<Rightarrow> (uv_fs_t \<Rightarrow> uv_fs_t) \<Rightarrow> rworld \<Rightarrow> rworld" where
  "upd_fs r f S = upd_req r (\<lambda>q. q\<lparr>r_fs := f (r_fs q)\<rparr>) S"

text \<open>The macros; \<open>None\<close> is \<open>abort\<close>.\<close>

definition fs_INIT :: "uv_fs_type \<Rightarrow> oid \<Rightarrow> nat \<Rightarrow> bool \<Rightarrow> rworld \<Rightarrow> rworld" where
  "fs_INIT t loop r cb S =
     (let S1 = upd_req r (\<lambda>q. q\<lparr>typed := True, r_fs := INIT t loop cb (r_fs q)\<rparr>) S
      in if cb then on_core (uv__req_register loop) S1 else S1)"

definition PATH :: "fs_os \<Rightarrow> oid \<Rightarrow> nat \<Rightarrow> string \<Rightarrow> bool \<Rightarrow> (rworld \<Rightarrow> (int \<times> rworld) option) \<Rightarrow> rworld \<Rightarrow> (int \<times> rworld) option" where
  "PATH E loop r path cb k S =
     (if cb \<and> \<not> o_mem E then Some (UV_ENOMEM, on_core (uv__req_unregister loop) S)
      else k (upd_fs r (\<lambda>q. q\<lparr>fs_path := Some path\<rparr>) S))"

definition PATH2 ::
    "fs_os \<Rightarrow> oid \<Rightarrow> nat \<Rightarrow> string \<Rightarrow> string \<Rightarrow> bool \<Rightarrow> (rworld \<Rightarrow> (int \<times> rworld) option) \<Rightarrow> rworld \<Rightarrow> (int \<times> rworld) option" where
  "PATH2 E loop r path new_path cb k S =
     (if cb \<and> \<not> o_mem E then Some (UV_ENOMEM, on_core (uv__req_unregister loop) S)
      else k (upd_fs r (\<lambda>q. q\<lparr>fs_path := Some path, fs_new_path := Some new_path\<rparr>) S))"

definition POST :: "fs_os \<Rightarrow> oid \<Rightarrow> nat \<Rightarrow> bool \<Rightarrow> rworld \<Rightarrow> (int \<times> rworld) option" where
  "POST E loop r cb S =
     (if cb then Some (0, on_pool (uv__work_submit loop r) S)
      else case uv__fs_work (o_interrupted E) (o_answer E) (r_fs (reqs S ! r)) of
             None \<Rightarrow> None
           | Some u \<Rightarrow> Some (fs_result u, upd_fs r (\<lambda>_. u) S))"

text \<open>A function of libuv that starts a request: the loop, the request, whether there is a callback.\<close>

type_synonym fs_start = "oid \<Rightarrow> nat \<Rightarrow> bool \<Rightarrow> rworld \<Rightarrow> (int \<times> rworld) option"

definition uv_fs_access :: "fs_os \<Rightarrow> string \<Rightarrow> int \<Rightarrow> fs_start" where
  "uv_fs_access E path flags loop r cb S =
     PATH E loop r path cb (\<lambda>S1. POST E loop r cb (upd_fs r (\<lambda>q. q\<lparr>fs_flags := flags\<rparr>) S1)) (fs_INIT UV_FS_ACCESS loop r cb S)"

definition uv_fs_chmod :: "fs_os \<Rightarrow> string \<Rightarrow> int \<Rightarrow> fs_start" where
  "uv_fs_chmod E path mode loop r cb S =
     PATH E loop r path cb (\<lambda>S1. POST E loop r cb (upd_fs r (\<lambda>q. q\<lparr>fs_mode := mode\<rparr>) S1)) (fs_INIT UV_FS_CHMOD loop r cb S)"

definition uv_fs_chown :: "fs_os \<Rightarrow> string \<Rightarrow> int \<Rightarrow> int \<Rightarrow> fs_start" where
  "uv_fs_chown E path uid gid loop r cb S =
     PATH E loop r path cb (\<lambda>S1. POST E loop r cb (upd_fs r (\<lambda>q. q\<lparr>fs_uid := uid, fs_gid := gid\<rparr>) S1))
       (fs_INIT UV_FS_CHOWN loop r cb S)"

definition uv_fs_close :: "fs_os \<Rightarrow> int \<Rightarrow> fs_start" where
  "uv_fs_close E file loop r cb S = POST E loop r cb (upd_fs r (\<lambda>q. q\<lparr>fs_file := file\<rparr>) (fs_INIT UV_FS_CLOSE loop r cb S))"

definition uv_fs_fchmod :: "fs_os \<Rightarrow> int \<Rightarrow> int \<Rightarrow> fs_start" where
  "uv_fs_fchmod E file mode loop r cb S =
     POST E loop r cb (upd_fs r (\<lambda>q. q\<lparr>fs_file := file, fs_mode := mode\<rparr>) (fs_INIT UV_FS_FCHMOD loop r cb S))"

definition uv_fs_fchown :: "fs_os \<Rightarrow> int \<Rightarrow> int \<Rightarrow> int \<Rightarrow> fs_start" where
  "uv_fs_fchown E file uid gid loop r cb S =
     POST E loop r cb (upd_fs r (\<lambda>q. q\<lparr>fs_file := file, fs_uid := uid, fs_gid := gid\<rparr>) (fs_INIT UV_FS_FCHOWN loop r cb S))"

definition uv_fs_fdatasync :: "fs_os \<Rightarrow> int \<Rightarrow> fs_start" where
  "uv_fs_fdatasync E file loop r cb S =
     POST E loop r cb (upd_fs r (\<lambda>q. q\<lparr>fs_file := file\<rparr>) (fs_INIT UV_FS_FDATASYNC loop r cb S))"

definition uv_fs_fstat :: "fs_os \<Rightarrow> int \<Rightarrow> fs_start" where
  "uv_fs_fstat E file loop r cb S = POST E loop r cb (upd_fs r (\<lambda>q. q\<lparr>fs_file := file\<rparr>) (fs_INIT UV_FS_FSTAT loop r cb S))"

definition uv_fs_fsync :: "fs_os \<Rightarrow> int \<Rightarrow> fs_start" where
  "uv_fs_fsync E file loop r cb S = POST E loop r cb (upd_fs r (\<lambda>q. q\<lparr>fs_file := file\<rparr>) (fs_INIT UV_FS_FSYNC loop r cb S))"

definition uv_fs_ftruncate :: "fs_os \<Rightarrow> int \<Rightarrow> int \<Rightarrow> fs_start" where
  "uv_fs_ftruncate E file off loop r cb S =
     POST E loop r cb (upd_fs r (\<lambda>q. q\<lparr>fs_file := file, fs_off := off\<rparr>) (fs_INIT UV_FS_FTRUNCATE loop r cb S))"

definition uv_fs_futime :: "fs_os \<Rightarrow> int \<Rightarrow> double \<Rightarrow> double \<Rightarrow> fs_start" where
  "uv_fs_futime E file atime mtime loop r cb S =
     POST E loop r cb (upd_fs r (\<lambda>q. q\<lparr>fs_file := file, fs_atime := atime, fs_mtime := mtime\<rparr>) (fs_INIT UV_FS_FUTIME loop r cb S))"

definition uv_fs_lstat :: "fs_os \<Rightarrow> string \<Rightarrow> fs_start" where
  "uv_fs_lstat E path loop r cb S = PATH E loop r path cb (POST E loop r cb) (fs_INIT UV_FS_LSTAT loop r cb S)"

definition uv_fs_link :: "fs_os \<Rightarrow> string \<Rightarrow> string \<Rightarrow> fs_start" where
  "uv_fs_link E path new_path loop r cb S =
     PATH2 E loop r path new_path cb (POST E loop r cb) (fs_INIT UV_FS_LINK loop r cb S)"

definition uv_fs_mkdir :: "fs_os \<Rightarrow> string \<Rightarrow> int \<Rightarrow> fs_start" where
  "uv_fs_mkdir E path mode loop r cb S =
     PATH E loop r path cb (\<lambda>S1. POST E loop r cb (upd_fs r (\<lambda>q. q\<lparr>fs_mode := mode\<rparr>) S1)) (fs_INIT UV_FS_MKDIR loop r cb S)"

definition uv_fs_open :: "fs_os \<Rightarrow> string \<Rightarrow> int \<Rightarrow> int \<Rightarrow> fs_start" where
  "uv_fs_open E path flags mode loop r cb S =
     PATH E loop r path cb (\<lambda>S1. POST E loop r cb (upd_fs r (\<lambda>q. q\<lparr>fs_flags := flags, fs_mode := mode\<rparr>) S1))
       (fs_INIT UV_FS_OPEN loop r cb S)"

text \<open>A buffer is small enough for \<open>bufsml\<close> (4 buffers); otherwise the array is allocated.\<close>

definition uv_fs_read :: "fs_os \<Rightarrow> int \<Rightarrow> nat list \<Rightarrow> int \<Rightarrow> fs_start" where
  "uv_fs_read E file bufs off loop r cb S =
     (if bufs = [] then Some (UV_EINVAL, S)
      else let S1 = upd_fs r (\<lambda>q. q\<lparr>fs_file := file, fs_nbufs := length bufs\<rparr>) (fs_INIT UV_FS_READ loop r cb S)
           in if length bufs > 4 \<and> \<not> o_mem E
              then Some (UV_ENOMEM, if cb then on_core (uv__req_unregister loop) S1 else S1)
              else POST E loop r cb (upd_fs r (\<lambda>q. q\<lparr>fs_bufs := bufs, fs_off := off\<rparr>) S1))"

definition uv_fs_scandir :: "fs_os \<Rightarrow> string \<Rightarrow> int \<Rightarrow> fs_start" where
  "uv_fs_scandir E path flags loop r cb S =
     PATH E loop r path cb (\<lambda>S1. POST E loop r cb (upd_fs r (\<lambda>q. q\<lparr>fs_flags := flags\<rparr>) S1)) (fs_INIT UV_FS_SCANDIR loop r cb S)"

definition uv_fs_readlink :: "fs_os \<Rightarrow> string \<Rightarrow> fs_start" where
  "uv_fs_readlink E path loop r cb S = PATH E loop r path cb (POST E loop r cb) (fs_INIT UV_FS_READLINK loop r cb S)"

definition uv_fs_realpath :: "fs_os \<Rightarrow> string \<Rightarrow> fs_start" where
  "uv_fs_realpath E path loop r cb S = PATH E loop r path cb (POST E loop r cb) (fs_INIT UV_FS_REALPATH loop r cb S)"

definition uv_fs_rename :: "fs_os \<Rightarrow> string \<Rightarrow> string \<Rightarrow> fs_start" where
  "uv_fs_rename E path new_path loop r cb S =
     PATH2 E loop r path new_path cb (POST E loop r cb) (fs_INIT UV_FS_RENAME loop r cb S)"

definition uv_fs_rmdir :: "fs_os \<Rightarrow> string \<Rightarrow> fs_start" where
  "uv_fs_rmdir E path loop r cb S = PATH E loop r path cb (POST E loop r cb) (fs_INIT UV_FS_RMDIR loop r cb S)"

definition uv_fs_sendfile :: "fs_os \<Rightarrow> int \<Rightarrow> int \<Rightarrow> int \<Rightarrow> int \<Rightarrow> fs_start" where
  "uv_fs_sendfile E out_fd in_fd off len loop r cb S =
     POST E loop r cb (upd_fs r (\<lambda>q. q\<lparr>fs_flags := in_fd, fs_file := out_fd, fs_off := off, fs_len := len mod 2 ^ 64\<rparr>)
       (fs_INIT UV_FS_SENDFILE loop r cb S))"

definition uv_fs_stat :: "fs_os \<Rightarrow> string \<Rightarrow> fs_start" where
  "uv_fs_stat E path loop r cb S = PATH E loop r path cb (POST E loop r cb) (fs_INIT UV_FS_STAT loop r cb S)"

definition uv_fs_symlink :: "fs_os \<Rightarrow> string \<Rightarrow> string \<Rightarrow> int \<Rightarrow> fs_start" where
  "uv_fs_symlink E path new_path flags loop r cb S =
     PATH2 E loop r path new_path cb (\<lambda>S1. POST E loop r cb (upd_fs r (\<lambda>q. q\<lparr>fs_flags := flags\<rparr>) S1))
       (fs_INIT UV_FS_SYMLINK loop r cb S)"

definition uv_fs_unlink :: "fs_os \<Rightarrow> string \<Rightarrow> fs_start" where
  "uv_fs_unlink E path loop r cb S = PATH E loop r path cb (POST E loop r cb) (fs_INIT UV_FS_UNLINK loop r cb S)"

definition uv_fs_utime :: "fs_os \<Rightarrow> string \<Rightarrow> double \<Rightarrow> double \<Rightarrow> fs_start" where
  "uv_fs_utime E path atime mtime loop r cb S =
     PATH E loop r path cb (\<lambda>S1. POST E loop r cb (upd_fs r (\<lambda>q. q\<lparr>fs_atime := atime, fs_mtime := mtime\<rparr>) S1))
       (fs_INIT UV_FS_UTIME loop r cb S)"

definition uv_fs_write :: "fs_os \<Rightarrow> int \<Rightarrow> nat list \<Rightarrow> int \<Rightarrow> fs_start" where
  "uv_fs_write E file bufs off loop r cb S =
     (if bufs = [] then Some (UV_EINVAL, S)
      else let S1 = upd_fs r (\<lambda>q. q\<lparr>fs_file := file, fs_nbufs := length bufs\<rparr>) (fs_INIT UV_FS_WRITE loop r cb S)
           in if length bufs > 4 \<and> \<not> o_mem E
              then Some (UV_ENOMEM, if cb then on_core (uv__req_unregister loop) S1 else S1)
              else POST E loop r cb (upd_fs r (\<lambda>q. q\<lparr>fs_bufs := bufs, fs_off := off\<rparr>) S1))"

section \<open>Results\<close>

definition stat_float_times :: "int args \<Rightarrow> rworld \<Rightarrow> bool option result \<times> rworld" where
  "stat_float_times args S =
     rq_parse args S (\<lambda>newval.
       if newval = -1 then (Ok (Some (stat_float S \<noteq> 0)), S)
       else (Ok None, S\<lparr>stat_float := newval\<rparr>))"

text \<open>The float is \<open>tv_sec + 1e-9 * tv_nsec\<close>, kept as the pair.\<close>

definition format_time :: "int \<Rightarrow> timespec \<Rightarrow> stat_value" where
  "format_time float t = (if float \<noteq> 0 then SFloat t else SInt (tv_sec t))"

definition stat_to_pyobj :: "int \<Rightarrow> uv_stat_t \<Rightarrow> stat_value list" where
  "stat_to_pyobj float st =
     [SInt (st_mode st), SInt (st_ino st), SInt (st_dev st), SInt (st_nlink st), SInt (st_uid st), SInt (st_gid st),
      SInt (st_size st), format_time float (st_atim st), format_time float (st_mtim st), format_time float (st_ctim st),
      SInt (st_blksize st), SInt (st_blocks st), SInt (st_rdev st), SInt (st_flags st), SInt (st_gen st),
      format_time float (st_birthtim st)]"

text \<open>
  The \<open>switch\<close> of \<open>pyuv__process_fs_req\<close>: the value of the result and the request afterwards;
  a result that cannot be built becomes \<open>None\<close>.
\<close>

definition fs_value :: "fs_os \<Rightarrow> int \<Rightarrow> uv_fs_t \<Rightarrow> pyval \<times> uv_fs_t" where
  "fs_value E float u =
     (case fs_type u of
        None \<Rightarrow> (NoneV, u)
      | Some t \<Rightarrow>
          if t \<in> {UV_FS_STAT, UV_FS_LSTAT, UV_FS_FSTAT} then
            (if o_pymem E then StatV (stat_to_pyobj float (fs_statbuf u)) else NoneV, u)
          else if t \<in> {UV_FS_READLINK, UV_FS_REALPATH} then
            (case fs_ptr u of
               PtrText s \<Rightarrow> if o_pymem E \<and> o_decodes E s then StrV s else NoneV
             | _ \<Rightarrow> NoneV, u)
          else if t \<in> {UV_FS_WRITE, UV_FS_OPEN, UV_FS_SENDFILE} then
            (if o_pymem E then IntV (fs_result u) else NoneV, u)
          else if t = UV_FS_READ then
            (if o_pymem E then BytesV (fs_data u) else NoneV, u)
          else if t = UV_FS_SCANDIR then
            (if o_pymem E
             then case scandir_all (nat (fs_result u) + 1) u of
                    Some (ds, u1) \<Rightarrow> (DirV (map (\<lambda>(n, ty). (if o_decodes E n then Some n else None, ty)) ds), u1)
                  | None \<Rightarrow> (NoneV, u)
             else (NoneV, u))
          else (NoneV, u))"

definition PyBuffer_Release :: "nat \<Rightarrow> rworld \<Rightarrow> rworld" where
  "PyBuffer_Release r S =
     (let v = view (reqs S ! r) in on_core (Py_XDECREF v) (upd_req r (\<lambda>q. q\<lparr>view := None\<rparr>) S))"

text \<open>
  \<open>pyuv__process_fs_req\<close>. The buffer of a write is released only where the result is not an error.
  \<open>None\<close>: an assertion fails.
\<close>

definition fs_path_value :: "fs_os \<Rightarrow> uv_fs_t \<Rightarrow> rworld \<Rightarrow> oid option \<times> rworld" where
  "fs_path_value E u S =
     (case fs_path u of
        Some p \<Rightarrow> if o_decodes E p then let (x, S1) = new_value (StrV p) S in (Some x, S1) else (None, S)
      | None \<Rightarrow> let (x, S1) = new_value NoneV S in (Some x, S1))"

definition fs_outcome :: "fs_os \<Rightarrow> nat \<Rightarrow> rworld \<Rightarrow> oid \<times> oid \<times> rworld" where
  "fs_outcome E r S =
     (let u = r_fs (reqs S ! r)
      in if fs_result u < 0 then
           let (errorno, S1) = new_value (IntV (fs_result u)) S; (x, S2) = new_value NoneV S1 in (x, errorno, S2)
         else
           let (errorno, S1) = new_value NoneV S;
               (v, u1) = fs_value E (stat_float S) u;
               (x, S2) = new_value v (upd_fs r (\<lambda>_. u1) S1)
           in (x, errorno, if fs_type u = Some UV_FS_WRITE then PyBuffer_Release r S2 else S2))"

definition pyuv__process_fs_req :: "rpython \<Rightarrow> fs_os \<Rightarrow> nat \<Rightarrow> rworld \<Rightarrow> rworld option" where
  "pyuv__process_fs_req py E r S =
     (let loop = rfield_of S r F_loop;
          (path, S1) = fs_path_value E (r_fs (reqs S ! r)) S;
          (x, errorno, S2) = fs_outcome E r S1;
          S3 = rq_put r F_error (Some errorno) (rq_put r F_result (Some x) (rq_put r F_path path S2))
      in map_option (\<lambda>S4. rq_DECREF r (upd_req r (\<lambda>q. q\<lparr>req_ptr := False\<rparr>) (upd_fs r uv_fs_req_cleanup S4)))
           (if rfield_of S3 r F_callback \<noteq> Some Py_None
            then rq_callback py (rfield_of S3 r F_callback) [r] [] loop S3
            else Some S3))"

section \<open>The functions of fs.c\<close>

text \<open>What a function returns: a request, or an object.\<close>

datatype rvalue = RetReq nat | RetObj oid

definition rq_callable :: "rworld \<Rightarrow> oid \<Rightarrow> bool" where
  "rq_callable S x \<longleftrightarrow> PyCallable_Check (core S) x"

definition new_FSRequest :: "oid \<Rightarrow> oid \<Rightarrow> rworld \<Rightarrow> nat result \<times> rworld" where
  "new_FSRequest loop callback = construct FSRequest_tp_new (\<lambda>r. FSRequest_tp_init r (Inr (loop, callback)))"

text \<open>The second half of every function, after libuv was called: \<open>cleanup\<close> frees what a failed call leaves.\<close>

definition fs_finish ::
    "rpython \<Rightarrow> fs_os \<Rightarrow> oid \<Rightarrow> (rworld \<Rightarrow> rworld) \<Rightarrow> nat \<Rightarrow> (int \<times> rworld) option \<Rightarrow> rworld \<Rightarrow> rvalue result \<times> rworld" where
  "fs_finish py E callback cleanup r outcome S =
     (case outcome of
        None \<Rightarrow> (Abort, S)
      | Some (err, S2) \<Rightarrow>
          if err < 0 then (Raise (UVExc FSError err), rq_DECREF r (cleanup S2))
          else let S3 = rq_INCREF r S2
               in if callback \<noteq> Py_None then (Ok (RetReq r), S3)
                  else case pyuv__process_fs_req py E r S3 of
                         None \<Rightarrow> (Abort, S3)
                       | Some S4 \<Rightarrow>
                           let ret = the (rfield_of S4 r F_result)
                           in (Ok (RetObj ret), rq_DECREF r (on_core (Py_INCREF ret) S4)))"

text \<open>
  The text that the functions share: the check of the callback, the request object, the call of
  libuv (\<open>start\<close>), the result.
\<close>

definition fs_request :: "rpython \<Rightarrow> fs_os \<Rightarrow> oid \<Rightarrow> oid option \<Rightarrow> fs_start \<Rightarrow> rworld \<Rightarrow> rvalue result \<times> rworld" where
  "fs_request py E loop cb start S =
     (let callback = (case cb of None \<Rightarrow> Py_None | Some c \<Rightarrow> c)
      in if callback \<noteq> Py_None \<and> \<not> rq_callable S callback then (Raise TypeError, S)
         else case new_FSRequest loop callback S of
                (Raise e, S1) \<Rightarrow> (Raise e, S1)
              | (Abort, S1) \<Rightarrow> (Abort, S1)
              | (Ok r, S1) \<Rightarrow> fs_finish py E callback id r (start loop r (callback \<noteq> Py_None) S1) S1)"

text \<open>The arguments: the loop, those of the operation, the callback if it was given.\<close>

definition pyuv__fs_stat ::
    "rpython \<Rightarrow> fs_os \<Rightarrow> (oid \<times> string \<times> oid option) args \<Rightarrow> uv_fs_type \<Rightarrow> rworld \<Rightarrow> rvalue result \<times> rworld" where
  "pyuv__fs_stat py E args type S = rq_parse args S (\<lambda>(loop, path, cb).
     fs_request py E loop cb (if type = UV_FS_STAT then uv_fs_stat E path else uv_fs_lstat E path) S)"

definition FS_func_stat :: "rpython \<Rightarrow> fs_os \<Rightarrow> (oid \<times> string \<times> oid option) args \<Rightarrow> rworld \<Rightarrow> rvalue result \<times> rworld" where
  "FS_func_stat py E args S = pyuv__fs_stat py E args UV_FS_STAT S"

definition FS_func_lstat :: "rpython \<Rightarrow> fs_os \<Rightarrow> (oid \<times> string \<times> oid option) args \<Rightarrow> rworld \<Rightarrow> rvalue result \<times> rworld" where
  "FS_func_lstat py E args S = pyuv__fs_stat py E args UV_FS_LSTAT S"

text \<open>\<open>(uv_file)fd\<close>: the cast of a C \<open>long\<close> to \<open>int\<close>.\<close>

definition uv_file :: "int \<Rightarrow> int" where
  "uv_file fd = sint (word_of_int fd :: 32 word)"

definition FS_func_fstat :: "rpython \<Rightarrow> fs_os \<Rightarrow> (oid \<times> int \<times> oid option) args \<Rightarrow> rworld \<Rightarrow> rvalue result \<times> rworld" where
  "FS_func_fstat py E args S = rq_parse args S (\<lambda>(loop, fd, cb). fs_request py E loop cb (uv_fs_fstat E (uv_file fd)) S)"

definition FS_func_unlink :: "rpython \<Rightarrow> fs_os \<Rightarrow> (oid \<times> string \<times> oid option) args \<Rightarrow> rworld \<Rightarrow> rvalue result \<times> rworld" where
  "FS_func_unlink py E args S = rq_parse args S (\<lambda>(loop, path, cb). fs_request py E loop cb (uv_fs_unlink E path) S)"

definition FS_func_mkdir :: "rpython \<Rightarrow> fs_os \<Rightarrow> (oid \<times> string \<times> int \<times> oid option) args \<Rightarrow> rworld \<Rightarrow> rvalue result \<times> rworld" where
  "FS_func_mkdir py E args S = rq_parse args S (\<lambda>(loop, path, mode, cb). fs_request py E loop cb (uv_fs_mkdir E path mode) S)"

definition FS_func_rmdir :: "rpython \<Rightarrow> fs_os \<Rightarrow> (oid \<times> string \<times> oid option) args \<Rightarrow> rworld \<Rightarrow> rvalue result \<times> rworld" where
  "FS_func_rmdir py E args S = rq_parse args S (\<lambda>(loop, path, cb). fs_request py E loop cb (uv_fs_rmdir E path) S)"

definition FS_func_rename :: "rpython \<Rightarrow> fs_os \<Rightarrow> (oid \<times> string \<times> string \<times> oid option) args \<Rightarrow> rworld \<Rightarrow> rvalue result \<times> rworld" where
  "FS_func_rename py E args S = rq_parse args S (\<lambda>(loop, path, new_path, cb). fs_request py E loop cb (uv_fs_rename E path new_path) S)"

definition FS_func_chmod :: "rpython \<Rightarrow> fs_os \<Rightarrow> (oid \<times> string \<times> int \<times> oid option) args \<Rightarrow> rworld \<Rightarrow> rvalue result \<times> rworld" where
  "FS_func_chmod py E args S = rq_parse args S (\<lambda>(loop, path, mode, cb). fs_request py E loop cb (uv_fs_chmod E path mode) S)"

definition FS_func_fchmod :: "rpython \<Rightarrow> fs_os \<Rightarrow> (oid \<times> int \<times> int \<times> oid option) args \<Rightarrow> rworld \<Rightarrow> rvalue result \<times> rworld" where
  "FS_func_fchmod py E args S = rq_parse args S (\<lambda>(loop, fd, mode, cb). fs_request py E loop cb (uv_fs_fchmod E (uv_file fd) mode) S)"

definition FS_func_link :: "rpython \<Rightarrow> fs_os \<Rightarrow> (oid \<times> string \<times> string \<times> oid option) args \<Rightarrow> rworld \<Rightarrow> rvalue result \<times> rworld" where
  "FS_func_link py E args S = rq_parse args S (\<lambda>(loop, path, new_path, cb). fs_request py E loop cb (uv_fs_link E path new_path) S)"

definition FS_func_symlink :: "rpython \<Rightarrow> fs_os \<Rightarrow> (oid \<times> string \<times> string \<times> int \<times> oid option) args \<Rightarrow> rworld \<Rightarrow> rvalue result \<times> rworld" where
  "FS_func_symlink py E args S = rq_parse args S (\<lambda>(loop, path, new_path, flags, cb). fs_request py E loop cb (uv_fs_symlink E path new_path flags) S)"

definition FS_func_readlink :: "rpython \<Rightarrow> fs_os \<Rightarrow> (oid \<times> string \<times> oid option) args \<Rightarrow> rworld \<Rightarrow> rvalue result \<times> rworld" where
  "FS_func_readlink py E args S = rq_parse args S (\<lambda>(loop, path, cb). fs_request py E loop cb (uv_fs_readlink E path) S)"

definition FS_func_chown :: "rpython \<Rightarrow> fs_os \<Rightarrow> (oid \<times> string \<times> int \<times> int \<times> oid option) args \<Rightarrow> rworld \<Rightarrow> rvalue result \<times> rworld" where
  "FS_func_chown py E args S = rq_parse args S (\<lambda>(loop, path, uid, gid, cb). fs_request py E loop cb (uv_fs_chown E path uid gid) S)"

definition FS_func_fchown :: "rpython \<Rightarrow> fs_os \<Rightarrow> (oid \<times> int \<times> int \<times> int \<times> oid option) args \<Rightarrow> rworld \<Rightarrow> rvalue result \<times> rworld" where
  "FS_func_fchown py E args S = rq_parse args S (\<lambda>(loop, fd, uid, gid, cb). fs_request py E loop cb (uv_fs_fchown E (uv_file fd) uid gid) S)"

definition FS_func_open :: "rpython \<Rightarrow> fs_os \<Rightarrow> (oid \<times> string \<times> int \<times> int \<times> oid option) args \<Rightarrow> rworld \<Rightarrow> rvalue result \<times> rworld" where
  "FS_func_open py E args S = rq_parse args S (\<lambda>(loop, path, flags, mode, cb). fs_request py E loop cb (uv_fs_open E path flags mode) S)"

definition FS_func_close :: "rpython \<Rightarrow> fs_os \<Rightarrow> (oid \<times> int \<times> oid option) args \<Rightarrow> rworld \<Rightarrow> rvalue result \<times> rworld" where
  "FS_func_close py E args S = rq_parse args S (\<lambda>(loop, fd, cb). fs_request py E loop cb (uv_fs_close E (uv_file fd)) S)"

definition FS_func_fsync :: "rpython \<Rightarrow> fs_os \<Rightarrow> (oid \<times> int \<times> oid option) args \<Rightarrow> rworld \<Rightarrow> rvalue result \<times> rworld" where
  "FS_func_fsync py E args S = rq_parse args S (\<lambda>(loop, fd, cb). fs_request py E loop cb (uv_fs_fsync E (uv_file fd)) S)"

definition FS_func_fdatasync :: "rpython \<Rightarrow> fs_os \<Rightarrow> (oid \<times> int \<times> oid option) args \<Rightarrow> rworld \<Rightarrow> rvalue result \<times> rworld" where
  "FS_func_fdatasync py E args S = rq_parse args S (\<lambda>(loop, fd, cb). fs_request py E loop cb (uv_fs_fdatasync E (uv_file fd)) S)"

definition FS_func_ftruncate :: "rpython \<Rightarrow> fs_os \<Rightarrow> (oid \<times> int \<times> int \<times> oid option) args \<Rightarrow> rworld \<Rightarrow> rvalue result \<times> rworld" where
  "FS_func_ftruncate py E args S = rq_parse args S (\<lambda>(loop, fd, offset, cb). fs_request py E loop cb (uv_fs_ftruncate E (uv_file fd) offset) S)"

definition FS_func_scandir :: "rpython \<Rightarrow> fs_os \<Rightarrow> (oid \<times> string \<times> oid option) args \<Rightarrow> rworld \<Rightarrow> rvalue result \<times> rworld" where
  "FS_func_scandir py E args S = rq_parse args S (\<lambda>(loop, path, cb). fs_request py E loop cb (uv_fs_scandir E path 0) S)"

definition FS_func_sendfile :: "rpython \<Rightarrow> fs_os \<Rightarrow> (oid \<times> int \<times> int \<times> int \<times> int \<times> oid option) args \<Rightarrow> rworld \<Rightarrow> rvalue result \<times> rworld" where
  "FS_func_sendfile py E args S = rq_parse args S (\<lambda>(loop, out_fd, in_fd, in_offset, length, cb). fs_request py E loop cb (uv_fs_sendfile E (uv_file out_fd) (uv_file in_fd) in_offset length) S)"

definition FS_func_utime :: "rpython \<Rightarrow> fs_os \<Rightarrow> (oid \<times> string \<times> double \<times> double \<times> oid option) args \<Rightarrow> rworld \<Rightarrow> rvalue result \<times> rworld" where
  "FS_func_utime py E args S = rq_parse args S (\<lambda>(loop, path, atime, mtime, cb). fs_request py E loop cb (uv_fs_utime E path atime mtime) S)"

definition FS_func_futime :: "rpython \<Rightarrow> fs_os \<Rightarrow> (oid \<times> int \<times> double \<times> double \<times> oid option) args \<Rightarrow> rworld \<Rightarrow> rvalue result \<times> rworld" where
  "FS_func_futime py E args S = rq_parse args S (\<lambda>(loop, fd, atime, mtime, cb). fs_request py E loop cb (uv_fs_futime E (uv_file fd) atime mtime) S)"

definition FS_func_access :: "rpython \<Rightarrow> fs_os \<Rightarrow> (oid \<times> string \<times> int \<times> oid option) args \<Rightarrow> rworld \<Rightarrow> rvalue result \<times> rworld" where
  "FS_func_access py E args S = rq_parse args S (\<lambda>(loop, path, flags, cb). fs_request py E loop cb (uv_fs_access E path flags) S)"

definition FS_func_realpath :: "rpython \<Rightarrow> fs_os \<Rightarrow> (oid \<times> string \<times> oid option) args \<Rightarrow> rworld \<Rightarrow> rvalue result \<times> rworld" where
  "FS_func_realpath py E args S = rq_parse args S (\<lambda>(loop, path, cb). fs_request py E loop cb (uv_fs_realpath E path) S)"

text \<open>
  \<open>read\<close> allocates its buffer (\<open>PyMem_Malloc\<close> of a negative length fails); \<open>fs_finish\<close> need not free
  it, since memory that is not an object is not counted.
\<close>

definition FS_func_read :: "rpython \<Rightarrow> fs_os \<Rightarrow> (oid \<times> int \<times> int \<times> int \<times> oid option) args \<Rightarrow> rworld \<Rightarrow> rvalue result \<times> rworld" where
  "FS_func_read py E args S = rq_parse args S (\<lambda>(loop, fd, length, offset, cb).
     let callback = (case cb of None \<Rightarrow> Py_None | Some c \<Rightarrow> c)
     in if callback \<noteq> Py_None \<and> \<not> rq_callable S callback then (Raise TypeError, S)
        else case new_FSRequest loop callback S of
               (Raise e, S1) \<Rightarrow> (Raise e, S1)
             | (Abort, S1) \<Rightarrow> (Abort, S1)
             | (Ok r, S1) \<Rightarrow>
                 if length < 0 \<or> \<not> o_pymem E then (Raise MemoryError, rq_DECREF r S1)
                 else fs_finish py E callback id r
                        (uv_fs_read E (uv_file fd) [nat length] offset loop r (callback \<noteq> Py_None) S1) S1)"

text \<open>
  \<open>write\<close> parses a buffer, which keeps a reference to the object \<open>data\<close> of \<open>len\<close> bytes; the check of the
  callback comes after the request was made.
\<close>

definition FS_func_write ::
    "rpython \<Rightarrow> fs_os \<Rightarrow> (oid \<times> int \<times> (oid \<times> nat) \<times> int \<times> oid option) args \<Rightarrow> rworld \<Rightarrow> rvalue result \<times> rworld" where
  "FS_func_write py E args S = rq_parse args S (\<lambda>(loop, fd, (data, len), offset, cb).
     let callback = (case cb of None \<Rightarrow> Py_None | Some c \<Rightarrow> c);
         S0 = on_core (Py_INCREF data) S
     in case new_FSRequest loop callback S0 of
          (Raise e, S1) \<Rightarrow> (Raise e, on_core (Py_DECREF data) S1)
        | (Abort, S1) \<Rightarrow> (Abort, S1)
        | (Ok r, S1) \<Rightarrow>
            if callback \<noteq> Py_None \<and> \<not> rq_callable S1 callback
            then (Raise TypeError, rq_DECREF r (on_core (Py_DECREF data) S1))
            else let S2 = upd_req r (\<lambda>q. q\<lparr>view := Some data\<rparr>) S1
                 in fs_finish py E callback (PyBuffer_Release r) r
                      (uv_fs_write E (uv_file fd) [len] offset loop r (callback \<noteq> Py_None) S2) S2)"

end
