(* ===== verification/Work_Requests.thy ===== *)
theory Work_Requests
  imports Fs_Requests
begin

text \<open>
  Name resolution (src/dns.c, unix/getaddrinfo.c, unix/getnameinfo.c), \<open>Loop.queue_work\<close>
  (src/loop.c) and what completes a request: the threads of the pool, and \<open>uv__work_done\<close> in the
  thread of the loop, with the callbacks of pyuv.
\<close>

section \<open>getaddrinfo\<close>

definition upd_gai :: "nat \<Rightarrow> (uv_getaddrinfo_t \<Rightarrow> uv_getaddrinfo_t) \<Rightarrow> rworld \<Rightarrow> rworld" where
  "upd_gai r f S = upd_req r (\<lambda>q. q\<lparr>r_gai := f (r_gai q)\<rparr>) S"

definition upd_gni :: "nat \<Rightarrow> (uv_getnameinfo_t \<Rightarrow> uv_getnameinfo_t) \<Rightarrow> rworld \<Rightarrow> rworld" where
  "upd_gni r f S = upd_req r (\<lambda>q. q\<lparr>r_gni := f (r_gni q)\<rparr>) S"

text \<open>\<open>gai_error\<close>, then the addresses; \<open>None\<close>: the process aborts.\<close>

definition uv_getaddrinfo ::
    "bool \<Rightarrow> dns_answer \<Rightarrow> string option \<Rightarrow> string option \<Rightarrow> int \<times> int \<times> int \<times> int \<Rightarrow> oid \<Rightarrow> nat \<Rightarrow> bool \<Rightarrow> rworld
      \<Rightarrow> (int \<times> rworld) option" where
  "uv_getaddrinfo mem a hostname service hints loop r cb S =
     (if hostname = None \<and> service = None then Some (UV_EINVAL, S)
      else if \<not> mem then Some (UV_ENOMEM, S)
      else let S1 = on_core (uv__req_register loop)
                 (upd_req r (\<lambda>q. q\<lparr>typed := True, r_gai := (r_gai q)\<lparr>gai_loop := loop, gai_cb := cb, gai_addrinfo := [],
                    gai_hints := Some hints, gai_service := service, gai_hostname := hostname, gai_retcode := 0\<rparr>\<rparr>) S)
           in if cb then Some (0, on_pool (uv__work_submit loop r) S1)
              else case Option.bind (uv__getaddrinfo_work a (r_gai (reqs S1 ! r))) (uv__getaddrinfo_done 0) of
                     None \<Rightarrow> None
                   | Some u \<Rightarrow> Some (gai_retcode u, on_core (uv__req_unregister loop) (upd_gai r (\<lambda>_. u) S1)))"

definition uv_getnameinfo ::
    "dns_answer \<Rightarrow> sockaddr \<Rightarrow> int \<Rightarrow> oid \<Rightarrow> nat \<Rightarrow> bool \<Rightarrow> rworld \<Rightarrow> (int \<times> rworld) option" where
  "uv_getnameinfo a addr flags loop r cb S =
     (if is_AF_OTHER addr then Some (UV_EINVAL, S)
      else let S1 = upd_req r (\<lambda>q. q\<lparr>typed := True, r_gni := (r_gni q)\<lparr>gni_storage := addr, gni_cb := cb, gni_flags := flags,
                    gni_loop := loop, gni_retcode := 0\<rparr>\<rparr>) (on_core (uv__req_register loop) S)
           in if cb then Some (0, on_pool (uv__work_submit loop r) S1)
              else case Option.bind (uv__getnameinfo_work a (r_gni (reqs S1 ! r))) (uv__getnameinfo_done 0) of
                     None \<Rightarrow> None
                   | Some (u, _) \<Rightarrow> Some (gni_retcode u, on_core (uv__req_unregister loop) (upd_gni r (\<lambda>_. u) S1)))"

text \<open>\<open>pyuv__getaddrinfo_process_result\<close>: the value of the list, or the error.\<close>

definition addr_item :: "addrinfo \<Rightarrow> sockaddr \<Rightarrow> int \<times> int \<times> int \<times> string \<times> py_addr" where
  "addr_item p a = (ai_family p, ai_socktype p, ai_protocol p,
     case ai_canonname p of Some n \<Rightarrow> n | None \<Rightarrow> [], makesockaddr a)"

fun gai_items :: "addrinfo list \<Rightarrow> (int \<times> int \<times> int \<times> string \<times> py_addr) list" where
  "gai_items [] = []"
| "gai_items (p # ps) = (case ai_addr p of None \<Rightarrow> gai_items ps | Some a \<Rightarrow> addr_item p a # gai_items ps)"

definition pyuv__getaddrinfo_process_result :: "fs_os \<Rightarrow> int \<Rightarrow> addrinfo list \<Rightarrow> int + pyval" where
  "pyuv__getaddrinfo_process_result E status res =
     (if status \<noteq> 0 then Inl status
      else if \<not> o_pymem E then Inl UV_ENOMEM
      else Inr (AddrsV (gai_items res)))"

text \<open>The two arguments of a callback: the result or \<open>None\<close>, \<open>None\<close> or the error.\<close>

definition value_or_error :: "int + pyval \<Rightarrow> rworld \<Rightarrow> oid \<times> oid \<times> rworld" where
  "value_or_error x S =
     (case x of
        Inr v \<Rightarrow> let (d, S1) = new_value v S; (e, S2) = new_value NoneV S1 in (d, e, S2)
      | Inl err \<Rightarrow> let (e, S1) = new_value (IntV err) S; (d, S2) = new_value NoneV S1 in (d, e, S2))"

definition finish_request :: "nat \<Rightarrow> rworld \<Rightarrow> rworld" where
  "finish_request r S = rq_DECREF r (upd_req r (\<lambda>q. q\<lparr>req_ptr := False\<rparr>) S)"

definition pyuv__getaddrinfo_cb :: "rpython \<Rightarrow> fs_os \<Rightarrow> nat \<Rightarrow> int \<Rightarrow> addrinfo list \<Rightarrow> rworld \<Rightarrow> rworld option" where
  "pyuv__getaddrinfo_cb py E r status res S =
     (let loop = rfield_of S r F_loop;
          (d, e, S1) = value_or_error (pyuv__getaddrinfo_process_result E status res) S
      in map_option (\<lambda>S2. finish_request r (on_core (\<lambda>w. Py_DECREF e (Py_DECREF d w)) S2))
           (rq_callback py (rfield_of S1 r F_callback) [] [d, e] loop S1))"

text \<open>
  \<open>pyuv__getnameinfo_process_result\<close> tests the pointer to the result and not the result: when \<open>Py_BuildValue\<close>
  fails, the callback goes on with \<open>NULL\<close>, and its \<open>Py_DECREF\<close> crashes. \<open>None\<close> is that \<open>NULL\<close>.
\<close>

definition pyuv__getnameinfo_process_result :: "fs_os \<Rightarrow> int \<Rightarrow> string \<Rightarrow> string \<Rightarrow> int + pyval option" where
  "pyuv__getnameinfo_process_result E status hostname service =
     (if status \<noteq> 0 then Inl status
      else Inr (if o_pymem E \<and> o_decodes E hostname \<and> o_decodes E service then Some (NamesV hostname service) else None))"

definition pyuv__getnameinfo_cb :: "rpython \<Rightarrow> fs_os \<Rightarrow> nat \<Rightarrow> int \<Rightarrow> string \<times> string \<Rightarrow> rworld \<Rightarrow> rworld option" where
  "pyuv__getnameinfo_cb py E r status names S =
     (let loop = rfield_of S r F_loop
      in case pyuv__getnameinfo_process_result E status (fst names) (snd names) of
           Inr None \<Rightarrow> None
         | Inr (Some v) \<Rightarrow>
             let (d, e, S1) = value_or_error (Inr v) S
             in map_option (\<lambda>S2. finish_request r (on_core (\<lambda>w. Py_DECREF e (Py_DECREF d w)) S2))
                  (rq_callback py (rfield_of S1 r F_callback) [] [d, e] loop S1)
         | Inl err \<Rightarrow>
             let (d, e, S1) = value_or_error (Inl err) S
             in map_option (\<lambda>S2. finish_request r (on_core (\<lambda>w. Py_DECREF e (Py_DECREF d w)) S2))
                  (rq_callback py (rfield_of S1 r F_callback) [] [d, e] loop S1))"

section \<open>The functions of dns.c\<close>

text \<open>
  The arguments \<open>host\<close> and \<open>port\<close> as \<open>getaddrinfo\<close> reads them: a \<open>str\<close> is encoded (\<open>None\<close>: that raises), which makes
  a new bytes object; the value of an int is a C \<open>long\<close>.
\<close>

datatype name_arg = ArgNone | ArgStr "string option" | ArgBytes string | ArgInt int | ArgOther

definition release_temps :: "oid list \<Rightarrow> rworld \<Rightarrow> rworld" where
  "release_temps xs S = fold (\<lambda>x. on_core (Py_DECREF x)) xs S"

definition host_string :: "name_arg \<Rightarrow> rworld \<Rightarrow> (string option \<times> oid list) result \<times> rworld" where
  "host_string host S =
     (case host of
        ArgNone \<Rightarrow> (Ok (None, []), S)
      | ArgStr (Some s) \<Rightarrow> let (x, S1) = new_value (BytesV s) S in (Ok (Some s, [x]), S1)
      | ArgStr None \<Rightarrow> (Raise OtherError, S)
      | ArgBytes s \<Rightarrow> (Ok (Some s, []), S)
      | _ \<Rightarrow> (Raise TypeError, S))"

text \<open>\<open>Inl True\<close>: the function returns \<open>NULL\<close> at once; \<open>Inl False\<close>: it goes to \<open>error\<close>.\<close>

definition service_string :: "name_arg \<Rightarrow> rworld \<Rightarrow> (bool \<times> pyexc) + (string option \<times> oid list) \<times> rworld" where
  "service_string service S =
     (case service of
        ArgNone \<Rightarrow> Inr ((None, []), S)
      | ArgStr (Some s) \<Rightarrow> let (x, S1) = new_value (BytesV s) S in Inr ((Some s, [x]), S1)
      | ArgStr None \<Rightarrow> Inl (True, OtherError)
      | ArgBytes s \<Rightarrow> Inr ((Some s, []), S)
      | ArgInt port \<Rightarrow> if port < 0 \<or> port > 0xffff then Inl (False, ValueError) else Inr ((Some (dec (nat port)), []), S)
      | ArgOther \<Rightarrow> Inl (False, TypeError))"

definition new_GAIRequest :: "oid \<Rightarrow> oid \<Rightarrow> rworld \<Rightarrow> nat result \<times> rworld" where
  "new_GAIRequest loop callback = construct GAIRequest_tp_new (\<lambda>r. GAIRequest_tp_init r (Inr (loop, callback)))"

definition new_GNIRequest :: "oid \<Rightarrow> oid \<Rightarrow> rworld \<Rightarrow> nat result \<times> rworld" where
  "new_GNIRequest loop callback = construct GNIRequest_tp_new (\<lambda>r. GNIRequest_tp_init r (Inr (loop, callback)))"

definition new_WorkRequest :: "oid \<Rightarrow> oid \<Rightarrow> oid \<Rightarrow> rworld \<Rightarrow> nat result \<times> rworld" where
  "new_WorkRequest loop work_cb done_cb =
     construct WorkRequest_tp_new (\<lambda>r. WorkRequest_tp_init r (Inr (loop, work_cb, done_cb)))"

text \<open>The result of a synchronous call: \<open>process_result\<close>, then the request goes.\<close>

definition gai_sync_result :: "fs_os \<Rightarrow> nat \<Rightarrow> rworld \<Rightarrow> rvalue result \<times> rworld" where
  "gai_sync_result E r S =
     (case pyuv__getaddrinfo_process_result E 0 (gai_addrinfo (r_gai (reqs S ! r))) of
        Inl err \<Rightarrow> (Raise (UVExc UVError err), rq_DECREF r S)
      | Inr v \<Rightarrow> let (d, S1) = new_value v S in (Ok (RetObj d), rq_DECREF r S1))"

definition Util_func_getaddrinfo ::
    "fs_os \<Rightarrow> dns_answer \<Rightarrow> (oid \<times> name_arg \<times> name_arg \<times> (int \<times> int \<times> int \<times> int) \<times> oid option) args \<Rightarrow> rworld
      \<Rightarrow> rvalue result \<times> rworld" where
  "Util_func_getaddrinfo E a args S = rq_parse args S (\<lambda>(loop, host, service, hints, cb).
     let callback = (case cb of None \<Rightarrow> Py_None | Some c \<Rightarrow> c)
     in case host_string host S of
          (Raise e, S1) \<Rightarrow> (Raise e, S1)
        | (Abort, S1) \<Rightarrow> (Abort, S1)
        | (Ok (host_str, idna), S1) \<Rightarrow>
            if callback \<noteq> Py_None \<and> \<not> rq_callable S1 callback then (Raise TypeError, release_temps idna S1)
            else case service_string service S1 of
                   Inl (True, e) \<Rightarrow> (Raise e, S1)
                 | Inl (False, e) \<Rightarrow> (Raise e, release_temps idna S1)
                 | Inr ((service_str, ascii), S2) \<Rightarrow>
                     case new_GAIRequest loop callback S2 of
                       (Raise e, S3) \<Rightarrow> (Raise MemoryError, release_temps (idna @ ascii) S3)
                     | (Abort, S3) \<Rightarrow> (Abort, S3)
                     | (Ok r, S3) \<Rightarrow>
                         case uv_getaddrinfo (o_mem E) a host_str service_str hints loop r (callback \<noteq> Py_None) S3 of
                           None \<Rightarrow> (Abort, S3)
                         | Some (err, S4) \<Rightarrow>
                             if err < 0
                             then (Raise (UVExc UVError err), rq_DECREF r (release_temps (idna @ ascii) S4))
                             else let S5 = release_temps (idna @ ascii) S4
                                  in if callback = Py_None then gai_sync_result E r S5
                                     else (Ok (RetReq r), rq_INCREF r S5))"

text \<open>Unlike \<open>getaddrinfo\<close>, the synchronous \<open>getnameinfo\<close> does not release its request.\<close>

definition Util_func_getnameinfo ::
    "fs_os \<Rightarrow> dns_answer \<Rightarrow> (oid \<times> addr_arg \<times> int \<times> oid option) args \<Rightarrow> rworld \<Rightarrow> rvalue result \<times> rworld" where
  "Util_func_getnameinfo E a args S = rq_parse args S (\<lambda>(loop, addr, flags, cb).
     let callback = (case cb of None \<Rightarrow> Py_None | Some c \<Rightarrow> c)
     in if callback \<noteq> Py_None \<and> \<not> rq_callable S callback then (Raise TypeError, S)
        else case pyuv_parse_addr_tuple addr of
               Inl e \<Rightarrow> (Raise e, S)
             | Inr ss \<Rightarrow>
                 case new_GNIRequest loop callback S of
                   (Raise e, S1) \<Rightarrow> (Raise MemoryError, S1)
                 | (Abort, S1) \<Rightarrow> (Abort, S1)
                 | (Ok r, S1) \<Rightarrow>
                     case uv_getnameinfo a ss flags loop r (callback \<noteq> Py_None) S1 of
                       None \<Rightarrow> (Abort, S1)
                     | Some (err, S2) \<Rightarrow>
                         if err < 0 then (Raise (UVExc UVError err), rq_DECREF r S2)
                         else if callback \<noteq> Py_None then (Ok (RetReq r), rq_INCREF r S2)
                         else case pyuv__getnameinfo_process_result E 0 (gni_host (r_gni (reqs S2 ! r)))
                                (gni_service (r_gni (reqs S2 ! r))) of
                                Inl e \<Rightarrow> (Raise (UVExc UVError e), S2)
                              | Inr None \<Rightarrow> (Raise OtherError, S2)
                              | Inr (Some v) \<Rightarrow> let (d, S3) = new_value v S2 in (Ok (RetObj d), S3))"

section \<open>Loop.queue\_work\<close>

definition uv_queue_work :: "oid \<Rightarrow> nat \<Rightarrow> rworld \<Rightarrow> int \<times> rworld" where
  "uv_queue_work loop r S =
     (0, on_pool (uv__work_submit loop r)
           (upd_req r (\<lambda>q. q\<lparr>typed := True\<rparr>) (on_core (uv__req_register loop) S)))"

definition Loop_func_queue_work :: "oid \<Rightarrow> (oid \<times> oid option) args \<Rightarrow> rworld \<Rightarrow> nat result \<times> rworld" where
  "Loop_func_queue_work self args S = rq_parse args S (\<lambda>(work_cb, cb).
     let done_cb = (case cb of None \<Rightarrow> Py_None | Some c \<Rightarrow> c)
     in if \<not> rq_callable S work_cb then (Raise TypeError, S)
        else if done_cb \<noteq> Py_None \<and> \<not> rq_callable S done_cb then (Raise TypeError, S)
        else case new_WorkRequest self work_cb done_cb S of
               (Raise e, S1) \<Rightarrow> (Raise MemoryError, S1)
             | (Abort, S1) \<Rightarrow> (Abort, S1)
             | (Ok r, S1) \<Rightarrow>
                 let (err, S2) = uv_queue_work self r S1
                 in if err < 0 then (Raise OtherError, rq_DECREF r S2) else (Ok r, rq_INCREF r S2))"

text \<open>In a thread of the pool: an exception is printed. A call with no result has set one.\<close>

definition pyuv__tp_work_cb :: "rpython \<Rightarrow> nat \<Rightarrow> rworld \<Rightarrow> rworld" where
  "pyuv__tp_work_cb py r S =
     (case rq_Call py (rfield_of S r F_work_cb) [] [] S of
        (Some x, S1) \<Rightarrow> on_core (Py_DECREF x) S1
      | (None, S1) \<Rightarrow> on_core (log_event PrintedUnhandled) S1)"

definition pyuv__tp_done_cb :: "rpython \<Rightarrow> nat \<Rightarrow> int \<Rightarrow> rworld \<Rightarrow> rworld option" where
  "pyuv__tp_done_cb py r status S =
     (let loop = rfield_of S r F_loop
      in map_option (finish_request r)
           (if rfield_of S r F_done_cb \<noteq> Some Py_None
            then let (e, S1) = new_value (if status < 0 then IntV status else NoneV) S
                 in map_option (on_core (Py_DECREF e)) (rq_callback py (rfield_of S1 r F_done_cb) [] [e] loop S1)
            else Some S))"

section \<open>The pool and the loop\<close>

text \<open>
  A thread runs the function of a work that it has taken: \<open>uv__fs_work\<close>, \<open>uv__getaddrinfo_work\<close>,
  \<open>uv__getnameinfo_work\<close> or \<open>uv__queue_work\<close>, and puts it on the queue of its loop (no other thread
  does that for it meanwhile, so the last but one case does not occur).
\<close>

definition work_function :: "rpython \<Rightarrow> fs_os \<Rightarrow> dns_answer \<Rightarrow> nat \<Rightarrow> rworld \<Rightarrow> rworld option" where
  "work_function py E a r S =
     (case rclass (reqs S ! r) of
        FSRequest \<Rightarrow> map_option (\<lambda>u. upd_fs r (\<lambda>_. u) S) (uv__fs_work (o_interrupted E) (o_answer E) (r_fs (reqs S ! r)))
      | GAIRequest \<Rightarrow> map_option (\<lambda>u. upd_gai r (\<lambda>_. u) S) (uv__getaddrinfo_work a (r_gai (reqs S ! r)))
      | GNIRequest \<Rightarrow> map_option (\<lambda>u. upd_gni r (\<lambda>_. u) S) (uv__getnameinfo_work a (r_gni (reqs S ! r)))
      | WorkRequest \<Rightarrow> Some (pyuv__tp_work_cb py r S))"

definition worker_runs :: "rpython \<Rightarrow> fs_os \<Rightarrow> dns_answer \<Rightarrow> nat \<Rightarrow> rworld \<Rightarrow> rworld option" where
  "worker_runs py E a r S =
     (if r \<notin> set (executing (thr_pool S)) then Some S
      else case work_function py E a r S of
             None \<Rightarrow> None
           | Some S1 \<Rightarrow>
               (case worker_finishes r (thr_pool S1) of
                  None \<Rightarrow> Some S1
                | Some p \<Rightarrow> Some (on_pool (\<lambda>_. p) S1)))"

definition worker_gets :: "nat \<Rightarrow> rworld \<Rightarrow> rworld" where
  "worker_gets nthreads S =
     (case worker_takes nthreads (thr_pool S) of None \<Rightarrow> S | Some p \<Rightarrow> on_pool (\<lambda>_. p) S)"

text \<open>\<open>w->done(w, err)\<close>: the second half of \<open>uv__fs_done\<close> and the like calls the callback of pyuv.\<close>

definition call_done :: "rpython \<Rightarrow> fs_os \<Rightarrow> nat \<Rightarrow> int \<Rightarrow> rworld \<Rightarrow> rworld option" where
  "call_done py E r err S =
     (case rclass (reqs S ! r) of
        FSRequest \<Rightarrow>
          (let S1 = on_core (uv__req_unregister (fs_loop (r_fs (reqs S ! r)))) S
           in case uv__fs_done err (r_fs (reqs S ! r)) of
                None \<Rightarrow> None
              | Some u \<Rightarrow> pyuv__process_fs_req py E r (upd_fs r (\<lambda>_. u) S1))
      | GAIRequest \<Rightarrow>
          (let S1 = on_core (uv__req_unregister (gai_loop (r_gai (reqs S ! r)))) S
           in case uv__getaddrinfo_done err (r_gai (reqs S ! r)) of
                None \<Rightarrow> None
              | Some u \<Rightarrow> pyuv__getaddrinfo_cb py E r (gai_retcode u) (gai_addrinfo u) (upd_gai r (\<lambda>_. u) S1))
      | GNIRequest \<Rightarrow>
          (let S1 = on_core (uv__req_unregister (gni_loop (r_gni (reqs S ! r)))) S
           in case uv__getnameinfo_done err (r_gni (reqs S ! r)) of
                None \<Rightarrow> None
              | Some (u, names) \<Rightarrow>
                  pyuv__getnameinfo_cb py E r (gni_retcode u) (case names of Some n \<Rightarrow> n | None \<Rightarrow> ([], [])) (upd_gni r (\<lambda>_. u) S1))
      | WorkRequest \<Rightarrow>
          pyuv__tp_done_cb py r err (on_core (uv__req_unregister (w_loop (works (thr_pool S) r))) S))"

text \<open>
  \<open>uv__work_done\<close> of loop \<open>l\<close>: the queue of the loop is moved, then its works are reported, one
  after the other. \<open>fuel\<close> bounds their number; \<open>Es\<close> is what the operating system does in each call.
\<close>

definition done_next :: "rpython \<Rightarrow> fs_os \<Rightarrow> oid \<Rightarrow> rworld \<Rightarrow> rworld option" where
  "done_next py E l S =
     (case done_wq (thr_pool S) l of
        [] \<Rightarrow> Some S
      | r # q \<Rightarrow>
          (case work_done_next l (thr_pool S) of
             None \<Rightarrow> None
           | Some p \<Rightarrow>
               call_done py E r (if w_work (works (thr_pool S) r) = WorkCancelled then UV_ECANCELED else 0)
                 (on_pool (\<lambda>_. p) S)))"

fun work_done_loop :: "rpython \<Rightarrow> (nat \<Rightarrow> fs_os) \<Rightarrow> nat \<Rightarrow> oid \<Rightarrow> rworld \<Rightarrow> rworld option" where
  "work_done_loop py Es 0 l S = Some S"
| "work_done_loop py Es (Suc fuel) l S =
     (if done_wq (thr_pool S) l = [] then Some S
      else case done_next py (Es fuel) l S of
             None \<Rightarrow> None
           | Some S1 \<Rightarrow> work_done_loop py Es fuel l S1)"

definition uv__work_done :: "rpython \<Rightarrow> (nat \<Rightarrow> fs_os) \<Rightarrow> oid \<Rightarrow> rworld \<Rightarrow> rworld option" where
  "uv__work_done py Es l S =
     work_done_loop py Es (length (loop_wq (thr_pool S) l)) l (on_pool (work_done_begins l) S)"

end
