(* ===== verification/Request_Rules.thy ===== *)
theory Request_Rules
  imports Work_Requests Stability
begin

text \<open>
  The invariant of the requests. \<open>rok fr rf S\<close>: the world of the handles satisfies its invariant, with the
  references that the requests own in the frame; the thread pool satisfies its own; the count of each request
  is that of the references that the program has, that the pool has while the request is in flight, and that
  the running C code has (\<open>rf\<close>); and a request in flight is in the state that its completion relies on.
\<close>

section \<open>The invariant\<close>

abbreviation flying :: "rworld \<Rightarrow> nat \<Rightarrow> bool" where
  "flying S r \<equiv> in_pool (thr_pool S) r"

definition refs_of :: "request \<Rightarrow> oid multiset" where
  "refs_of q = mset (field_refs q) + mset_opt (view q)"

definition all_refs :: "request list \<Rightarrow> oid multiset" where
  "all_refs qs = sum_list (map refs_of qs)"

text \<open>What the completion of a request in flight relies on. The result is still 0 while the work has not run.\<close>

definition job_ok :: "request \<Rightarrow> uv__work \<Rightarrow> bool" where
  "job_ok q w \<longleftrightarrow> rinit q \<and> typed q \<and> rfields q F_loop = Some (w_loop w) \<and>
     (case rclass q of
        FSRequest \<Rightarrow> rfields q F_callback \<noteq> None \<and> rfields q F_path = None \<and> rfields q F_result = None \<and>
          rfields q F_error = None \<and> fs_type (r_fs q) \<noteq> None \<and> fs_loop (r_fs q) = w_loop w \<and>
          (w_work w \<noteq> WorkNull \<longrightarrow> fs_result (r_fs q) = 0)
      | GAIRequest \<Rightarrow> rfields q F_callback \<noteq> None \<and> gai_hints (r_gai q) \<noteq> None \<and> gai_loop (r_gai q) = w_loop w \<and>
          (w_work w \<noteq> WorkNull \<longrightarrow> gai_retcode (r_gai q) = 0)
      | GNIRequest \<Rightarrow> rfields q F_callback \<noteq> None \<and> \<not> is_AF_OTHER (gni_storage (r_gni q)) \<and> gni_loop (r_gni q) = w_loop w \<and>
          (w_work w \<noteq> WorkNull \<longrightarrow> gni_retcode (r_gni q) = 0)
      | WorkRequest \<Rightarrow> rfields q F_work_cb \<noteq> None \<and> rfields q F_done_cb \<noteq> None)"

text \<open>One request: \<open>n\<close> references besides those of the pool, which has one when \<open>fl\<close>.\<close>

definition req_ok :: "nat \<Rightarrow> bool \<Rightarrow> uv__work \<Rightarrow> request \<Rightarrow> bool" where
  "req_ok n fl w q \<longleftrightarrow>
     rrefcnt q = int n + of_bool fl \<and> (rlive q \<longleftrightarrow> 0 < rrefcnt q) \<and>
     (\<forall>f. rfields q f \<noteq> None \<longrightarrow> rlive q \<and> f \<in> set (request_tp_clear (rclass q))) \<and>
     (rinit q \<and> rlive q \<longrightarrow> rfields q F_loop \<noteq> None) \<and>
     (fl \<longrightarrow> job_ok q w)"

definition rok :: "oid multiset \<Rightarrow> nat multiset \<Rightarrow> rworld \<Rightarrow> bool" where
  "rok fr rf S \<longleftrightarrow> ok (all_refs (reqs S) + fr) (core S) \<and> pool_ok (thr_pool S) \<and>
     (\<forall>r. if r < length (reqs S)
          then req_ok (rext S r + count rf r) (flying S r) (works (thr_pool S) r) (reqs S ! r)
          else rext S r = 0 \<and> count rf r = 0 \<and> \<not> flying S r \<and> \<not> reported (thr_pool S) r)"

lemma rokD:
  assumes "rok fr rf S"
  shows "ok (all_refs (reqs S) + fr) (core S)" "pool_ok (thr_pool S)"
    "r < length (reqs S) \<Longrightarrow> req_ok (rext S r + count rf r) (flying S r) (works (thr_pool S) r) (reqs S ! r)"
    "\<not> r < length (reqs S) \<Longrightarrow> rext S r = 0 \<and> count rf r = 0 \<and> \<not> flying S r \<and> \<not> reported (thr_pool S) r"
  using assms unfolding rok_def by (blast, blast, meson, meson)

lemma rok_in_frame: "rok fr rf S \<Longrightarrow> r \<in># rf \<Longrightarrow> r < length (reqs S) \<and> rlive (reqs S ! r)"
  using rokD(3) [of fr rf S r] rokD(4) [of fr rf S r] by (fastforce simp: req_ok_def count_greater_zero_iff [symmetric] simp del: count_greater_zero_iff)

lemma rok_flying: "rok fr rf S \<Longrightarrow> flying S r \<Longrightarrow>
    r < length (reqs S) \<and> rlive (reqs S ! r) \<and> job_ok (reqs S ! r) (works (thr_pool S) r)"
proof -
  assume ok: "rok fr rf S" and f: "flying S r"
  have r: "r < length (reqs S)" using rokD(4) [OF ok, of r] f by blast
  have q: "req_ok (rext S r + count rf r) True (works (thr_pool S) r) (reqs S ! r)" using rokD(3) [OF ok r] f by simp
  then have "0 < rrefcnt (reqs S ! r)" by (simp add: req_ok_def)
  then show ?thesis using r q by (simp add: req_ok_def)
qed

lemma all_refs_update:
  "r < length qs \<Longrightarrow> all_refs (qs[r := q]) + refs_of (qs ! r) = all_refs qs + refs_of q"
proof (induction qs arbitrary: r)
  case (Cons a qs)
  then show ?case by (cases r) (auto simp: all_refs_def ac_simps)
qed simp

lemma all_refs_split: "r < length qs \<Longrightarrow> \<exists>M. all_refs qs = refs_of (qs ! r) + M \<and> (\<forall>q. all_refs (qs[r := q]) = refs_of q + M)"
proof (induction qs arbitrary: r)
  case (Cons a qs)
  show ?case
  proof (cases r)
    case 0
    then show ?thesis by (auto simp: all_refs_def)
  next
    case (Suc k)
    with Cons obtain M where "all_refs qs = refs_of (qs ! k) + M" "\<forall>q. all_refs (qs[k := q]) = refs_of q + M" by auto
    then show ?thesis using Suc by (intro exI [of _ "refs_of a + M"]) (simp add: all_refs_def ac_simps)
  qed
qed simp

lemma refs_of_field: "rfields q f = Some x \<Longrightarrow> f \<in> set (request_tp_clear (rclass q)) \<Longrightarrow> x \<in># refs_of q"
  by (force simp: refs_of_def field_refs_def map_filter_def)

lemma rok_field_valid:
  assumes "rok fr rf S" and "r < length (reqs S)" and "rfield_of S r f = Some x"
  shows "valid (core S) x"
proof -
  have "f \<in> set (request_tp_clear (rclass (reqs S ! r)))"
    using rokD(3) [OF assms(1,2)] assms(3) by (auto simp: req_ok_def)
  then have "x \<in># refs_of (reqs S ! r)" using refs_of_field assms(3) by blast
  then show ?thesis
    using all_refs_split [OF assms(2)] wf_valid_frame [OF okD(1) [OF rokD(1) [OF assms(1)]]] by auto
qed

section \<open>What the program may do to the state\<close>

definition keeps_request :: "request \<Rightarrow> request \<Rightarrow> bool" where
  "keeps_request q q' \<longleftrightarrow> rclass q' = rclass q \<and> (rinit q \<longrightarrow> rinit q') \<and> (rlive q' \<longrightarrow> rlive q) \<and>
     (rinit q \<and> rlive q' \<longrightarrow> rfields q' F_loop = rfields q F_loop)"

definition moves :: "rworld \<Rightarrow> rworld \<Rightarrow> bool" where
  "moves S S' \<longleftrightarrow> undisturbed (core S) (core S') \<and> (\<exists>n. bg_steps n (thr_pool S) (thr_pool S')) \<and>
     length (reqs S) \<le> length (reqs S') \<and> (\<forall>r < length (reqs S). keeps_request (reqs S ! r) (reqs S' ! r))"

lemma keeps_request_refl [simp]: "keeps_request q q"
  by (simp add: keeps_request_def)

lemma keeps_request_trans: "keeps_request a b \<Longrightarrow> keeps_request b c \<Longrightarrow> keeps_request a c"
  by (auto simp: keeps_request_def)

text \<open>The number of threads only bounds what is executed: more of them can do the same steps.\<close>

lemma bg_step_mono: "bg_step n p p' \<Longrightarrow> n \<le> m \<Longrightarrow> bg_step m p p'"
  by (induction rule: bg_step.induct)
    (auto intro: bg_step.intros bg_step.take simp: worker_takes_def split: list.splits if_splits)

lemma bg_steps_mono: "bg_steps n p p' \<Longrightarrow> n \<le> m \<Longrightarrow> bg_steps m p p'"
  by (erule rtranclp_mono [THEN predicate2D, rotated]) (auto intro: bg_step_mono)

lemma moves_refl [simp]: "moves S S"
  by (auto simp: moves_def)

lemma moves_trans: "moves a b \<Longrightarrow> moves b c \<Longrightarrow> moves a c"
proof -
  assume ab: "moves a b" and bc: "moves b c"
  obtain n m where n: "bg_steps n (thr_pool a) (thr_pool b)" and m: "bg_steps m (thr_pool b) (thr_pool c)"
    using ab bc by (auto simp: moves_def)
  have "bg_steps (max n m) (thr_pool a) (thr_pool c)"
    using bg_steps_mono [OF n, of "max n m"] bg_steps_mono [OF m, of "max n m"] by simp
  moreover have "keeps_request (reqs a ! r) (reqs c ! r)" if "r < length (reqs a)" for r
  proof -
    have "r < length (reqs b)" using ab that by (simp add: moves_def)
    then show ?thesis using ab bc that by (auto simp: moves_def intro: keeps_request_trans)
  qed
  ultimately show ?thesis using ab bc stable_trans unfolding moves_def by (meson le_trans)
qed

lemma moves_core: "undisturbed (core S) w \<Longrightarrow> moves S (S\<lparr>core := w\<rparr>)"
  by (auto simp: moves_def)

lemma moves_on_core: "undisturbed (core S) (f (core S)) \<Longrightarrow> moves S (on_core f S)"
  by (auto simp: moves_def on_core_def)

lemma moves_upd_req: "keeps_request (reqs S ! r) (f (reqs S ! r)) \<Longrightarrow> moves S (upd_req r f S)"
proof -
  assume k: "keeps_request (reqs S ! r) (f (reqs S ! r))"
  have "keeps_request (reqs S ! x) (reqs (upd_req r f S) ! x)" if "x < length (reqs S)" for x
    using k that by (cases "x = r") (simp_all add: upd_req_def)
  then show ?thesis by (auto simp: moves_def upd_req_def)
qed

lemma moves_new: "moves S (S\<lparr>reqs := reqs S @ qs\<rparr>)"
  by (auto simp: moves_def nth_append)

lemma moves_bg: "bg_step n (thr_pool S) p \<Longrightarrow> moves S (on_pool (\<lambda>_. p) S)"
  by (auto simp: moves_def on_pool_def)

lemma moves_same: "core S' = core S \<Longrightarrow> reqs S' = reqs S \<Longrightarrow> thr_pool S' = thr_pool S \<Longrightarrow> moves S S'"
  by (auto simp: moves_def)

section \<open>Rules for the small operations\<close>

text \<open>The world of the handles changes: the references of the requests are part of any frame.\<close>

lemma rok_core:
  assumes "rok fr rf S" and "\<And>M. ok (M + fr) (core S) \<Longrightarrow> ok (M + fr') (f (core S))"
  shows "rok fr' rf (on_core f S)"
  using assms unfolding rok_def on_core_def by simp

lemma rok_log_call [simp]: "rok fr rf (log_call f rs args S) = rok fr rf S"
  by (simp add: rok_def log_call_def)

lemma rok_vals [simp]: "rok fr rf (S\<lparr>vals := v\<rparr>) = rok fr rf S"
  by (simp add: rok_def)

text \<open>One request changes, and with it the world of the handles and the frame.\<close>

lemma rok_request:
  assumes ok: "rok fr rf S" and r: "r < length (reqs S)"
    and S': "reqs S' = (reqs S)[r := q]" "thr_pool S' = thr_pool S" "rext S' = rext S"
    and c: "\<And>M. ok (refs_of (reqs S ! r) + M + fr) (core S) \<Longrightarrow> ok (refs_of q + M + fr') (core S')"
    and o: "\<And>k. k \<noteq> r \<Longrightarrow> count rf' k = count rf k"
    and q: "req_ok (rext S r + count rf' r) (flying S r) (works (thr_pool S) r) q"
  shows "rok fr' rf' S'"
proof -
  obtain M where M: "all_refs (reqs S) = refs_of (reqs S ! r) + M" "all_refs (reqs S') = refs_of q + M"
    using all_refs_split [OF r] S'(1) by auto
  have "ok (all_refs (reqs S') + fr') (core S')"
    using c [of M] rokD(1) [OF ok] M by simp
  moreover have "if k < length (reqs S') then req_ok (rext S' k + count rf' k) (flying S' k) (works (thr_pool S') k) (reqs S' ! k)
      else rext S' k = 0 \<and> count rf' k = 0 \<and> \<not> flying S' k \<and> \<not> reported (thr_pool S') k" for k
    using rokD(3,4) [OF ok, of k] S' o [of k] q r by (cases "k = r") auto
  moreover have "pool_ok (thr_pool S')" using rokD(2) [OF ok] S'(2) by simp
  ultimately show ?thesis unfolding rok_def by blast
qed

text \<open>The fields of the embedded libuv request, and the flags, of a request that is not in flight.\<close>

lemma rok_upd_req:
  assumes ok: "rok fr rf S" and r: "r < length (reqs S)" and n: "\<not> flying S r"
    and f: "\<And>q. rclass (f q) = rclass q \<and> rrefcnt (f q) = rrefcnt q \<and> rlive (f q) = rlive q \<and> rinit (f q) = rinit q \<and>
      rfields (f q) = rfields q \<and> view (f q) = view q"
  shows "rok fr rf (upd_req r f S)"
  by (rule rok_request [OF ok r, where q = "f (reqs S ! r)"])
    (use rokD(3) [OF ok r] n f in \<open>auto simp: upd_req_def refs_of_def field_refs_def req_ok_def\<close>)

lemma rok_INCREF:
  assumes ok: "rok fr rf S" and r: "r < length (reqs S)" and l: "rlive (reqs S ! r)"
  shows "rok fr (add_mset r rf) (rq_INCREF r S)"
  by (rule rok_request [OF ok r, where q = "(reqs S ! r)\<lparr>rrefcnt := rrefcnt (reqs S ! r) + 1\<rparr>"])
    (use rokD(3) [OF ok r] l in \<open>auto simp: rq_INCREF_def upd_req_def refs_of_def field_refs_def req_ok_def job_ok_def
      split: req_class.splits\<close>)

lemma moves_INCREF: "moves S (rq_INCREF r S)"
  unfolding rq_INCREF_def by (rule moves_upd_req) (simp add: keeps_request_def)

lemma field_refs_none [simp]: "field_refs (q\<lparr>rfields := \<lambda>_. None\<rparr>) = []"
  by (simp add: field_refs_def map_filter_def)

lemma rok_DECREF:
  assumes ok: "rok fr (add_mset r rf) S"
  shows "rok fr rf (rq_DECREF r S)"
proof -
  have r: "r < length (reqs S)" and l: "rlive (reqs S ! r)"
    using rok_in_frame [OF ok, of r] by auto
  note q = rokD(3) [OF ok r]
  show ?thesis
  proof (cases "rrefcnt (reqs S ! r) = 1")
    case True
    let ?q = "(reqs S ! r)\<lparr>rrefcnt := 0, rlive := False, rfields := (\<lambda>_. None)\<rparr>"
    have d: "rq_DECREF r S = on_core (release (field_refs (reqs S ! r))) (upd_req r (\<lambda>_. ?q) S)"
      using r l True by (simp add: rq_DECREF_def Request_tp_dealloc_def upd_req_def Let_def field_refs_def)
    have "int (rext S r + count (add_mset r rf) r) + of_bool (flying S r) = 1"
      using q True by (simp only: req_ok_def)
    then have n: "rext S r = 0" "count rf r = 0" "\<not> flying S r" by (cases "flying S r"; simp)+
    show ?thesis
      unfolding d
    proof (rule rok_request [OF ok r])
      show "ok (refs_of ?q + M + fr) (core (on_core (release (field_refs (reqs S ! r))) (upd_req r (\<lambda>_. ?q) S)))"
        if "ok (refs_of (reqs S ! r) + M + fr) (core S)" for M
        using ok_release [of "field_refs (reqs S ! r)" "mset_opt (view (reqs S ! r)) + M + fr" "core S"] that
        by (simp add: on_core_def upd_req_def refs_of_def field_refs_def map_filter_def ac_simps)
    qed (use n in \<open>auto simp: on_core_def upd_req_def req_ok_def\<close>)
  next
    case False
    let ?q = "(reqs S ! r)\<lparr>rrefcnt := rrefcnt (reqs S ! r) - 1\<rparr>"
    have d: "rq_DECREF r S = upd_req r (\<lambda>_. ?q) S"
      using r l False by (simp add: rq_DECREF_def upd_req_def Let_def)
    show ?thesis
      unfolding d
      by (rule rok_request [OF ok r, where q = ?q])
        (use q False l in \<open>auto simp: upd_req_def refs_of_def field_refs_def req_ok_def job_ok_def split: req_class.splits\<close>)
  qed
qed

lemma moves_DECREF: "moves S (rq_DECREF r S)"
proof -
  have "moves S (upd_req r (\<lambda>q. q\<lparr>rrefcnt := rrefcnt q - 1\<rparr>) S)"
    by (rule moves_upd_req) (simp add: keeps_request_def)
  moreover have "moves T (Request_tp_dealloc r T)" for T
    unfolding Request_tp_dealloc_def
    by (rule moves_trans [OF moves_upd_req moves_on_core])
      (simp_all add: keeps_request_def stable_release)
  ultimately show ?thesis by (auto simp: rq_DECREF_def Let_def intro: moves_trans)
qed

end
