(* ===== verification/Request_Calls.thy ===== *)
theory Request_Calls
  imports Request_Rules
begin

text \<open>
  The rules of the larger steps: what the thread pool does to a request, what the Python program does
  in a callback (the locale \<open>request_program\<close>), new requests and new values.
\<close>

section \<open>The thread pool\<close>

lemma rok_pool:
  assumes ok: "rok fr rf S" and r: "r < length (reqs S)" and p: "pool_ok p"
    and o: "\<And>k. k \<noteq> r \<Longrightarrow> in_pool p k = flying S k \<and> works p k = works (thr_pool S) k \<and>
      reported p k = reported (thr_pool S) k \<and> count rf' k = count rf k"
    and c: "count rf' r + of_bool (in_pool p r) = count rf r + of_bool (flying S r)"
    and j: "in_pool p r \<Longrightarrow> job_ok (reqs S ! r) (works p r)"
  shows "rok fr rf' (on_pool (\<lambda>_. p) S)"
proof -
  have "if k < length (reqs S) then req_ok (rext S k + count rf' k) (in_pool p k) (works p k) (reqs S ! k)
      else rext S k = 0 \<and> count rf' k = 0 \<and> \<not> in_pool p k \<and> \<not> reported p k" for k
  proof (cases "k = r")
    case True
    have "int (rext S r + count rf' r) + of_bool (in_pool p r) = int (rext S r + count rf r) + of_bool (flying S r)"
      using c by (cases "in_pool p r"; cases "flying S r"; simp)
    then have "rrefcnt (reqs S ! r) = int (rext S r + count rf' r) + of_bool (in_pool p r)"
      using rokD(3) [OF ok r] unfolding req_ok_def by linarith
    moreover have "req_ok (rext S r + count rf r) (flying S r) (works (thr_pool S) r) (reqs S ! r)" by (rule rokD(3) [OF ok r])
    ultimately show ?thesis using j r unfolding True req_ok_def by meson
  next
    case False
    from o [OF this] rokD(3,4) [OF ok, of k] show ?thesis by simp
  qed
  then show ?thesis using rokD(1) [OF ok] p unfolding rok_def on_pool_def by simp
qed

lemma in_pool_defs:
  "in_pool p j \<longleftrightarrow> j \<in> set (pool_wq p) \<or> j \<in> set (executing p) \<or> (\<exists>l. j \<in> set (loop_wq p l) \<or> j \<in> set (done_wq p l))"
  by (auto simp: in_pool_def)

lemma rok_submit:
  assumes ok: "rok fr (add_mset r rf) S" and n: "\<not> flying S r" "\<not> reported (thr_pool S) r"
    and j: "job_ok (reqs S ! r) \<lparr>w_loop = l, w_work = WorkFn, w_linked = True\<rparr>"
  shows "rok fr rf (on_pool (uv__work_submit l r) S)" and "moves S (on_pool (uv__work_submit l r) S)"
proof -
  have r: "r < length (reqs S)" using rok_in_frame [OF ok, of r] by simp
  have e: "on_pool (uv__work_submit l r) S = on_pool (\<lambda>_. uv__work_submit l r (thr_pool S)) S" by (simp add: on_pool_def)
  show "rok fr rf (on_pool (uv__work_submit l r) S)"
    unfolding e
    by (rule rok_pool [OF ok r pool_ok_submit [OF rokD(2) [OF ok] n]])
      (use n j in \<open>simp_all add: other_submit in_pool_submit frame_submit\<close>)
  show "moves S (on_pool (uv__work_submit l r) S)"
    unfolding e by (rule moves_bg) (rule bg_step.submit [OF n])
qed

lemma job_ok_linked: "job_ok q (w\<lparr>w_linked := b\<rparr>) = job_ok q w"
  by (simp add: job_ok_def split: req_class.splits)

lemma rok_worker_gets:
  assumes ok: "rok fr rf S"
  shows "rok fr rf (worker_gets n S)" and "moves S (worker_gets n S)"
proof -
  consider "worker_gets n S = S"
    | p where "worker_takes n (thr_pool S) = Some p" "worker_gets n S = on_pool (\<lambda>_. p) S"
    by (cases "worker_takes n (thr_pool S)") (auto simp: worker_gets_def)
  then have "rok fr rf (worker_gets n S) \<and> moves S (worker_gets n S)"
  proof cases
    case 1
    then show ?thesis using ok by simp
  next
    case (2 p)
    obtain j q where q: "pool_wq (thr_pool S) = j # q"
      and p: "p = (set_work j (\<lambda>w. w\<lparr>w_linked := False\<rparr>) (thr_pool S))
        \<lparr>pool_wq := q, executing := executing (thr_pool S) @ [j], started := started (thr_pool S) @ [j]\<rparr>"
      using 2(1) by (auto simp: worker_takes_def split: list.splits if_splits)
    have f: "flying S j" using q by (simp add: in_pool_defs)
    have "rok fr rf (on_pool (\<lambda>_. p) S)"
      by (rule rok_pool [OF ok _ pool_ok_take [OF rokD(2) [OF ok] 2(1)], where r = j])
        (use rok_flying [OF ok f] f other_take [OF 2(1)] in \<open>auto simp: p set_work_def reported_def job_ok_linked\<close>)
    then show ?thesis using 2 moves_bg [OF bg_step.take [OF 2(1)]] by simp
  qed
  then show "rok fr rf (worker_gets n S)" "moves S (worker_gets n S)" by blast+
qed

lemma job_ok_null: "job_ok q w \<Longrightarrow> job_ok q (w\<lparr>w_work := WorkNull\<rparr>)"
  by (simp add: job_ok_def split: req_class.splits)

lemma rok_worker_finishes:
  assumes ok: "rok fr rf S" and f: "worker_finishes r (thr_pool S) = Some p"
  shows "rok fr rf (on_pool (\<lambda>_. p) S)" and "moves S (on_pool (\<lambda>_. p) S)"
proof -
  have e: "r \<in> set (executing (thr_pool S))"
    and p: "p = enqueue_done r (set_work r (\<lambda>w. w\<lparr>w_work := WorkNull\<rparr>) (thr_pool S)\<lparr>executing := remove1 r (executing (thr_pool S))\<rparr>)"
    using f by (auto simp: worker_finishes_def split: if_splits)
  have fl: "flying S r" using e by (simp add: in_pool_defs)
  show "rok fr rf (on_pool (\<lambda>_. p) S)"
    by (rule rok_pool [OF ok _ pool_ok_finish [OF rokD(2) [OF ok] f], where r = r])
      (use rok_flying [OF ok fl] fl other_finish [OF f] stays_finish [OF f] in
        \<open>auto simp: p set_work_def enqueue_done_def Let_def reported_def job_ok_linked job_ok_null\<close>)
  show "moves S (on_pool (\<lambda>_. p) S)" by (rule moves_bg) (rule bg_step.finish [OF f])
qed

lemma rok_cancel:
  assumes ok: "rok fr rf S" and f: "flying S r"
  shows "rok fr rf (on_pool (\<lambda>_. snd (uv__work_cancel r (thr_pool S))) S)"
    and "moves S (on_pool (\<lambda>_. snd (uv__work_cancel r (thr_pool S))) S)"
proof -
  let ?p = "snd (uv__work_cancel r (thr_pool S))"
  note F = rok_flying [OF ok f]
  have c: "?p = thr_pool S \<or> w_work (works (thr_pool S) r) \<noteq> WorkNull \<and>
      ?p = enqueue_done r (set_work r (\<lambda>w. w\<lparr>w_work := WorkCancelled\<rparr>) (unlink_work r (thr_pool S)))"
    by (auto simp: uv__work_cancel_def)
  have j: "job_ok (reqs S ! r) (works ?p r)"
    using F c by (auto simp: job_ok_def enqueue_done_def set_work_def unlink_work_def Let_def split: req_class.splits)
  show "rok fr rf (on_pool (\<lambda>_. ?p) S)"
    by (rule rok_pool [OF ok _ pool_ok_cancel [OF rokD(2) [OF ok] f], where r = r])
      (use F f j stays_cancel [OF f] in \<open>simp_all add: other_cancel frame_cancel\<close>)
  show "moves S (on_pool (\<lambda>_. ?p) S)" by (rule moves_bg) (rule bg_step.cancel [OF f])
qed

text \<open>The first half of a completion: the reference of the pool is now that of the running code.\<close>

lemma rok_work_done_next:
  assumes ok: "rok fr rf S" and q: "done_wq (thr_pool S) l = r # q" and p: "work_done_next l (thr_pool S) = Some p"
  shows "rok fr (add_mset r rf) (on_pool (\<lambda>_. p) S) \<and> \<not> flying (on_pool (\<lambda>_. p) S) r \<and> r < length (reqs S) \<and>
    rlive (reqs S ! r) \<and> job_ok (reqs S ! r) (works (thr_pool S) r) \<and> done_wq p l = q"
proof -
  note P = rokD(2) [OF ok]
  note D = pool_okD [OF P]
  have p': "p = thr_pool S\<lparr>done_wq := (done_wq (thr_pool S))(l := q),
      reports := reports (thr_pool S) @ [(r, if w_work (works (thr_pool S) r) = WorkCancelled then UV_ECANCELED else 0)]\<rparr>"
    using p q by (simp add: work_done_next_def)
  have fl: "flying S r" using q by (auto simp: in_pool_defs intro!: exI [of _ l])
  note F = rok_flying [OF ok fl]
  have po: "pool_ok p" by (rule pool_ok_next [OF P p])
  have "statuses p r \<noteq> []" by (simp add: p' statuses_def)
  then have nf: "\<not> in_pool p r"
    using pool_okD(7) [OF po, of r] by (auto simp: work_ok_def in_pool_eq)
  note k = other_next [OF p q]
  have "rok fr (add_mset r rf) (on_pool (\<lambda>_. p) S)"
    by (rule rok_pool [OF ok _ po, where r = r]) (use F fl nf k in \<open>auto simp: p' reported_def\<close>)
  then show ?thesis using F nf by (simp add: on_pool_def p')
qed

lemma rok_work_done_begins:
  assumes ok: "rok fr rf S" and d: "done_wq (thr_pool S) l = []"
  shows "rok fr rf (on_pool (work_done_begins l) S)"
proof -
  let ?p = "work_done_begins l (thr_pool S)"
  have f: "in_pool ?p k = flying S k" "works ?p k = works (thr_pool S) k" "reported ?p k = reported (thr_pool S) k" for k
    by (simp_all add: other_begins [OF d]) (simp_all add: work_done_begins_def reported_def)
  have "pool_ok ?p" by (rule pool_ok_begins [OF rokD(2) [OF ok] d])
  then show ?thesis
    using ok unfolding rok_def on_pool_def by (simp add: f)
qed

section \<open>Objects\<close>

lemma rok_new:
  assumes ok: "rok fr rf S" and c: "\<And>M. ok (M + fr) (core S) \<Longrightarrow> ok (refs_of q + (M + fr)) w"
    and q: "req_ok 1 False w0 q"
  shows "rok fr (add_mset (length (reqs S)) rf) (S\<lparr>core := w, reqs := reqs S @ [q]\<rparr>)"
proof -
  let ?S = "S\<lparr>core := w, reqs := reqs S @ [q]\<rparr>"
  have "ok (all_refs (reqs ?S) + fr) (core ?S)"
    using c [OF rokD(1) [OF ok]] by (simp add: all_refs_def ac_simps)
  moreover have "if k < length (reqs ?S)
      then req_ok (rext ?S k + count (add_mset (length (reqs S)) rf) k) (flying ?S k) (works (thr_pool ?S) k) (reqs ?S ! k)
      else rext ?S k = 0 \<and> count (add_mset (length (reqs S)) rf) k = 0 \<and> \<not> flying ?S k \<and> \<not> reported (thr_pool ?S) k" for k
    using rokD(3,4) [OF ok, of k] q rokD(4) [OF ok, of "length (reqs S)"]
    by (cases "k = length (reqs S)") (auto simp: nth_append req_ok_def)
  moreover have "pool_ok (thr_pool ?S)" using rokD(2) [OF ok] by simp
  ultimately show ?thesis unfolding rok_def by blast
qed

lemma moves_fresh: "undisturbed (core S) w \<Longrightarrow> moves S (S\<lparr>core := w, reqs := reqs S @ qs\<rparr>)"
  by (auto simp: moves_def nth_append)

lemma rok_none: "rok fr rf S \<Longrightarrow> valid (core S) Py_None"
  by (rule wf_none [OF okD(1) [OF rokD(1)]])

lemma rok_new_value:
  assumes ok: "rok fr rf S" and n: "new_value v S = (x, S')"
  shows "rok (add_mset x fr) rf S' \<and> moves S S' \<and> reqs S' = reqs S \<and> thr_pool S' = thr_pool S \<and> valid (core S') x"
proof -
  have "rok (add_mset x fr) rf S' \<and> moves S S' \<and> reqs S' = reqs S \<and> thr_pool S' = thr_pool S"
  proof (cases "v = NoneV")
    case True
    then have e: "x = Py_None" "S' = on_core (Py_INCREF Py_None) S" using n by (auto simp: new_value_def)
    have "rok (add_mset x fr) rf S'"
      unfolding e using ok
    proof (rule rok_core)
      show "ok (M + add_mset Py_None fr) (Py_INCREF Py_None (core S))" if "ok (M + fr) (core S)" for M
        using ok_INCREF [OF that rok_none [OF ok]] by simp
    qed
    then show ?thesis by (simp add: e moves_on_core stable_INCREF) (simp add: on_core_def)
  next
    case False
    obtain y w1 where g: "PyType_GenericNew (KObject False) (core S) = (y, w1)" by fastforce
    have e: "x = y" "S' = (on_core (\<lambda>_. w1) S)\<lparr>vals := (vals S)(x := v)\<rparr>" using n False g by (auto simp: new_value_def)
    have "rok (add_mset x fr) rf (on_core (\<lambda>_. w1) S)"
    proof (rule rok_core [OF ok])
      show "ok (M + add_mset x fr) w1" if "ok (M + fr) (core S)" for M
      proof -
        have "ok (add_mset y (M + fr)) w1" using ok_GenericNew_object [OF that g] by blast
        then show ?thesis by (simp add: e(1))
      qed
    qed
    moreover have "moves S S'"
      by (rule moves_trans [OF moves_on_core [of S "\<lambda>_. w1"] moves_same])
        (use ok_GenericNew_object [OF rokD(1) [OF ok] g] in \<open>auto simp: e\<close>)
    ultimately show ?thesis by (simp add: e) (simp add: on_core_def)
  qed
  then show ?thesis using wf_valid_frame [OF okD(1) [OF rokD(1), of "add_mset x fr" rf S'], of x] by auto
qed

lemma rok_core_DECREF: "rok (add_mset x fr) rf S \<Longrightarrow> rok fr rf (on_core (Py_DECREF x) S)"
  by (erule rok_core) (simp add: ok_DECREF)

lemma rok_core_INCREF: "rok fr rf S \<Longrightarrow> valid (core S) x \<Longrightarrow> rok (add_mset x fr) rf (on_core (Py_INCREF x) S)"
  by (erule rok_core) (simp add: ok_INCREF)

lemma rok_core_release: "rok (mset xs + fr) rf S \<Longrightarrow> rok fr rf (on_core (release xs) S)"
  by (erule rok_core) (rule ok_release, simp add: ac_simps)

lemma rok_core_register: "rok fr rf S \<Longrightarrow> rok fr rf (on_core (uv__req_register l) S)"
    "rok fr rf S \<Longrightarrow> rok fr rf (on_core (uv__req_unregister l) S)"
  by (erule rok_core, simp add: ok_req_register)+

lemma moves_register: "moves S (on_core (uv__req_register l) S)" "moves S (on_core (uv__req_unregister l) S)"
  by (rule moves_on_core; simp add: uv__req_register_def uv__req_unregister_def stable_upd_uvl)+

lemma moves_core_DECREF: "moves S (on_core (Py_DECREF x) S)" "moves S (on_core (release xs) S)" "moves S (on_core (Py_INCREF x) S)"
  by (rule moves_on_core; simp add: stable_release stable_INCREF)+

section \<open>The Python program\<close>

locale request_program =
  fixes py :: rpython
  assumes call_ok: "rok fr rf S \<Longrightarrow> valid (core S) f \<Longrightarrow> set args \<subseteq> set_mset fr \<Longrightarrow> set rs \<subseteq> set_mset rf \<Longrightarrow>
      rpy_call py f rs args S = (v, S') \<Longrightarrow> rok (mset_opt v + fr) rf S' \<and> moves S S'"
    and hook_valid: "rok fr rf S \<Longrightarrow> valid (core S) l \<Longrightarrow> rpy_excepthook py l S = AttrIs x \<Longrightarrow> valid (core S) x"

lemma rok_fold_INCREF:
  "rok fr rf S \<Longrightarrow> (\<And>r. r \<in> set rs \<Longrightarrow> r < length (reqs S) \<and> rlive (reqs S ! r)) \<Longrightarrow>
     rok fr (mset rs + rf) (fold rq_INCREF rs S) \<and> moves S (fold rq_INCREF rs S)"
proof (induction rs arbitrary: rf S)
  case (Cons r rs)
  let ?S = "rq_INCREF r S"
  have "rok fr (add_mset r rf) ?S" by (rule rok_INCREF) (use Cons.prems in auto)
  moreover have "k < length (reqs ?S) \<and> rlive (reqs ?S ! k)" if "k \<in> set rs" for k
    using Cons.prems(2) [of k] Cons.prems(2) [of r] that by (cases "k = r") (auto simp: rq_INCREF_def upd_req_def)
  ultimately have "rok fr (mset rs + add_mset r rf) (fold rq_INCREF rs ?S) \<and> moves ?S (fold rq_INCREF rs ?S)"
    by (rule Cons.IH) auto
  then show ?case by (auto intro: moves_trans [OF moves_INCREF])
qed simp

lemma rok_fold_DECREF:
  "rok fr (mset rs + rf) S \<Longrightarrow> rok fr rf (fold rq_DECREF rs S) \<and> moves S (fold rq_DECREF rs S)"
proof (induction rs arbitrary: S)
  case (Cons r rs)
  have "rok fr (mset rs + rf) (rq_DECREF r S)" by (rule rok_DECREF) (use Cons.prems in simp)
  from Cons.IH [OF this] show ?case by (auto intro: moves_trans [OF moves_DECREF])
qed simp

context request_program
begin

lemma rq_Call_ok:
  assumes ok: "rok fr rf S" and f: "\<And>f. callable = Some f \<Longrightarrow> valid (core S) f" and a: "\<And>x. x \<in> set args \<Longrightarrow> valid (core S) x"
    and r: "\<And>r. r \<in> set rs \<Longrightarrow> r < length (reqs S) \<and> rlive (reqs S ! r)"
    and c: "rq_Call py callable rs args S = (x, S')"
  shows "rok (mset_opt x + fr) rf S' \<and> moves S S'"
proof (cases callable)
  case None
  then show ?thesis using ok c by (auto simp: rq_Call_def)
next
  case (Some g)
  let ?S0 = "on_core (fold Py_INCREF args) S"
  have o0: "rok (mset args + fr) rf ?S0"
  proof (rule rok_core [OF ok])
    show "ok (M + (mset args + fr)) (fold Py_INCREF args (core S))" if "ok (M + fr) (core S)" for M
      using ok_fold_INCREF [OF that, of args] a by (simp add: ac_simps)
  qed
  have m0: "moves S ?S0" by (rule moves_on_core) (rule stable_fold_INCREF)
  have "r < length (reqs ?S0) \<and> rlive (reqs ?S0 ! r)" if "r \<in> set rs" for r using r [OF that] by (simp add: on_core_def)
  then have o1: "rok (mset args + fr) (mset rs + rf) (fold rq_INCREF rs ?S0)" and m1: "moves ?S0 (fold rq_INCREF rs ?S0)"
    using rok_fold_INCREF [OF o0, of rs] by blast+
  define S1 where "S1 = log_call g rs args (fold rq_INCREF rs ?S0)"
  have oS1: "rok (mset args + fr) (mset rs + rf) S1" using o1 by (simp add: S1_def)
  have mS1: "moves S S1"
    by (rule moves_trans [OF moves_trans [OF m0 m1] moves_same]) (simp_all add: S1_def log_call_def)
  have cs: "core (fold rq_INCREF rs T) = core T" for T
    by (induction rs arbitrary: T) (simp_all add: rq_INCREF_def upd_req_def)
  have "valid (fold Py_INCREF xs v) y = valid v y" for xs v y
    by (induction xs arbitrary: v) simp_all
  then have vg: "valid (core S1) g" using f [OF Some] by (simp add: S1_def log_call_def cs on_core_def)
  obtain S2 where p: "rpy_call py g rs args S1 = (x, S2)" and S': "S' = fold rq_DECREF rs (on_core (release args) S2)"
    using c Some by (auto simp: rq_Call_def S1_def split: prod.splits)
  have o2: "rok (mset_opt x + (mset args + fr)) (mset rs + rf) S2 \<and> moves S1 S2"
    by (rule call_ok [OF oS1 vg _ _ p]) auto
  then have "rok (mset args + (mset_opt x + fr)) (mset rs + rf) S2" by (simp add: ac_simps)
  then have "rok (mset_opt x + fr) (mset rs + rf) (on_core (release args) S2)" by (rule rok_core_release)
  from rok_fold_DECREF [OF this] show ?thesis
    using o2 mS1 moves_core_DECREF(2) [of S2 args] unfolding S' by (blast intro: moves_trans)
qed

lemma rq_uncaught_exception_ok:
  assumes ok: "rok fr rf S" and l: "valid (core S) l"
  shows "\<exists>S'. rq_uncaught_exception py (Some l) S = Some S' \<and> rok fr rf S' \<and> moves S S'"
proof (cases "rpy_excepthook py l S")
  case AttrMissing
  then show ?thesis using ok
    by (auto simp: rq_uncaught_exception_def intro: rok_core ok_log_event moves_on_core stable_log_event)
next
  case AttrRaises
  have "rok fr rf (on_core (\<lambda>w. log_event PrintedUnhandled (log_event HookFailed w)) S)"
    by (rule rok_core [OF ok]) (simp add: ok_log_event)
  moreover have "moves S (on_core (\<lambda>w. log_event PrintedUnhandled (log_event HookFailed w)) S)"
    by (rule moves_on_core) (rule stable_trans [OF stable_log_event stable_log_event])
  ultimately show ?thesis using AttrRaises by (simp add: rq_uncaught_exception_def)
next
  case (AttrIs hook)
  have v: "valid (core S) hook" by (rule hook_valid [OF ok l AttrIs])
  let ?S1 = "on_core (Py_INCREF hook) S"
  have o1: "rok (add_mset hook fr) rf ?S1" by (rule rok_core_INCREF [OF ok v])
  have m1: "moves S ?S1" by (rule moves_core_DECREF(3))
  show ?thesis
  proof (cases "hook = Py_None")
    case True
    have "rok fr rf (on_core (\<lambda>w. log_event PrintedUnhandled (Py_DECREF hook w)) ?S1)"
      by (rule rok_core [OF o1]) (simp add: ok_log_event ok_DECREF)
    moreover have "moves ?S1 (on_core (\<lambda>w. log_event PrintedUnhandled (Py_DECREF hook w)) ?S1)"
      by (rule moves_on_core) (rule stable_trans [OF stable_release stable_log_event])
    ultimately show ?thesis using True AttrIs moves_trans [OF m1] by (auto simp: rq_uncaught_exception_def Let_def)
  next
    case False
    let ?S2 = "on_core (log_event (CalledHook hook)) ?S1"
    have o2: "rok (add_mset hook fr) rf ?S2" by (rule rok_core [OF o1]) (simp add: ok_log_event)
    have m2: "moves S ?S2" by (rule moves_trans [OF m1 moves_on_core]) (rule stable_log_event)
    obtain x S3 where c: "rpy_call py hook [] [] ?S2 = (x, S3)" by fastforce
    have v2: "valid (core ?S2) hook" using v by (simp add: on_core_def valid_def)
    have o3: "rok (mset_opt x + add_mset hook fr) rf S3 \<and> moves ?S2 S3"
      by (rule call_ok [OF o2 v2 _ _ c]) simp_all
    show ?thesis
    proof (cases x)
      case None
      have "rok fr rf (on_core (\<lambda>w. log_event PrintedUnhandled (Py_DECREF hook (log_event HookFailed w))) S3)"
        by (rule rok_core [of "add_mset hook fr"]) (use o3 None in \<open>simp_all add: ok_log_event ok_DECREF\<close>)
      moreover have "moves S3 (on_core (\<lambda>w. log_event PrintedUnhandled (Py_DECREF hook (log_event HookFailed w))) S3)"
        by (rule moves_on_core) (rule stable_trans [OF stable_log_event stable_trans [OF stable_release stable_log_event]])
      ultimately show ?thesis
        using None c AttrIs False moves_trans [OF m2] moves_trans o3 by (auto simp: rq_uncaught_exception_def Let_def)
    next
      case (Some y)
      have "rok fr rf (on_core (\<lambda>w. Py_DECREF hook (Py_DECREF y w)) S3)"
      proof (rule rok_core)
        show "rok (add_mset y (add_mset hook fr)) rf S3" using o3 Some by (simp add: add_mset_commute)
      qed (simp add: ok_DECREF)
      moreover have "moves S3 (on_core (\<lambda>w. Py_DECREF hook (Py_DECREF y w)) S3)"
        by (rule moves_on_core) (rule stable_trans [OF stable_release stable_release])
      ultimately show ?thesis
        using Some c AttrIs False moves_trans [OF m2] moves_trans o3 by (auto simp: rq_uncaught_exception_def Let_def)
    qed
  qed
qed

text \<open>A callback about the request \<open>r\<close>, which the frame holds: its loop is there until the end.\<close>

lemma rq_callback_ok:
  assumes ok: "rok fr rf S" and h: "r \<in># rf" and i: "rinit (reqs S ! r)" and l: "rfield_of S r F_loop = Some l"
    and f: "\<And>f. callable = Some f \<Longrightarrow> valid (core S) f" and a: "\<And>x. x \<in> set args \<Longrightarrow> valid (core S) x"
    and rs: "set rs \<subseteq> {r}"
  shows "\<exists>S'. rq_callback py callable rs args (Some l) S = Some S' \<and> rok fr rf S' \<and> moves S S'"
proof -
  obtain x S1 where c: "rq_Call py callable rs args S = (x, S1)" by fastforce
  have o1: "rok (mset_opt x + fr) rf S1 \<and> moves S S1"
    by (rule rq_Call_ok [OF ok f a _ c]) (use rok_in_frame [OF ok h] rs in auto)
  show ?thesis
  proof (cases x)
    case (Some y)
    then have "rok fr rf (on_core (Py_DECREF y) S1)" using o1 by (intro rok_core_DECREF) simp
    then show ?thesis using Some c o1 moves_trans [OF _ moves_core_DECREF(1)] by (auto simp: rq_callback_def)
  next
    case None
    have r1: "r < length (reqs S1) \<and> rlive (reqs S1 ! r)" using rok_in_frame [OF conjunct1 [OF o1] h] .
    have "keeps_request (reqs S ! r) (reqs S1 ! r)" using o1 rok_in_frame [OF ok h] by (simp add: moves_def)
    then have "rfield_of S1 r F_loop = Some l" using i l r1 by (simp add: keeps_request_def)
    then have "valid (core S1) l" using rok_field_valid [OF conjunct1 [OF o1]] r1 by blast
    from rq_uncaught_exception_ok [of fr rf S1 l] o1 None this
    obtain S2 where "rq_uncaught_exception py (Some l) S1 = Some S2" "rok fr rf S2" "moves S1 S2" by auto
    then show ?thesis using None c o1 moves_trans by (auto simp: rq_callback_def)
  qed
qed

end

end
