(* ===== verification/Request_Steps.thy ===== *)
theory Request_Steps
  imports Request_Calls
begin

text \<open>
  Completion: the functions of the thread of the loop keep the invariant of the requests, and none
  of their assertions fails. Then the functions that start a request.
\<close>

section \<open>Fields\<close>

lemma request_clear_distinct [simp]: "distinct (request_tp_clear c)"
  by (cases c) (simp_all add: request_clear_defs)

lemma map_filter_put:
  "distinct fs \<Longrightarrow> f \<in> set fs \<Longrightarrow> g f = None \<Longrightarrow>
     mset (List.map_filter (g(f := Some v)) fs) = add_mset v (mset (List.map_filter g fs))"
proof (induction fs)
  case (Cons a fs)
  show ?case
  proof (cases "a = f")
    case True
    then have "List.map_filter (g(f := Some v)) fs = List.map_filter g fs"
      using Cons.prems unfolding map_filter_def by (intro arg_cong2 [where f = map] filter_cong map_cong) auto
    then show ?thesis using True Cons.prems by (simp add: map_filter_simps fun_upd_def)
  next
    case False
    then show ?thesis using Cons by (cases "g a") (auto simp: map_filter_simps)
  qed
qed simp

lemma refs_of_put:
  "rfields q f = None \<Longrightarrow> f \<in> set (request_tp_clear (rclass q)) \<Longrightarrow>
     refs_of (q\<lparr>rfields := (rfields q)(f := Some v)\<rparr>) = add_mset v (refs_of q)"
  by (simp add: refs_of_def field_refs_def map_filter_put)

lemma rok_put:
  assumes ok: "rok (mset_opt v + fr) rf S" and r: "r \<in># rf" and n: "\<not> flying S r"
    and f: "rfield_of S r f = None" "f \<in> set (request_tp_clear (rclass (reqs S ! r)))" "f \<noteq> F_loop"
  shows "rok fr rf (rq_put r f v S)" and "moves S (rq_put r f v S)"
proof -
  note L = rok_in_frame [OF ok r]
  show "rok fr rf (rq_put r f v S)"
  proof (cases v)
    case None
    then have "(rfields (reqs S ! r))(f := v) = rfields (reqs S ! r)" using f by auto
    then have "rq_put r f v S = S" using L by (simp add: rq_put_def upd_req_def)
    then show ?thesis using ok None by simp
  next
    case (Some x)
    show ?thesis
      by (rule rok_request [OF ok, where q = "(reqs S ! r)\<lparr>rfields := (rfields (reqs S ! r))(f := v)\<rparr>"])
        (use L rokD(3) [OF ok, of r] n f Some in
          \<open>auto simp: rq_put_def upd_req_def req_ok_def refs_of_put ac_simps\<close>)
  qed
  show "moves S (rq_put r f v S)"
    unfolding rq_put_def by (rule moves_upd_req) (use f in \<open>simp add: keeps_request_def\<close>)
qed

lemmas rok_put_Some = rok_put [where v = "Some v" for v, simplified]

lemma moves_upd_fs: "moves S (upd_fs r f S)"
  unfolding upd_fs_def by (rule moves_upd_req) (simp add: keeps_request_def)

lemma rok_upd_fs: "rok fr rf S \<Longrightarrow> r < length (reqs S) \<Longrightarrow> \<not> flying S r \<Longrightarrow> rok fr rf (upd_fs r f S)"
  unfolding upd_fs_def by (rule rok_upd_req) simp_all

lemma rok_buffer_release:
  assumes ok: "rok fr rf S" and r: "r < length (reqs S)" and n: "\<not> flying S r"
  shows "rok fr rf (PyBuffer_Release r S)" and "moves S (PyBuffer_Release r S)"
proof -
  show "rok fr rf (PyBuffer_Release r S)"
    unfolding PyBuffer_Release_def Let_def
    by (rule rok_request [OF ok r, where q = "(reqs S ! r)\<lparr>view := None\<rparr>"])
      (use rokD(3) [OF ok r] n in \<open>auto simp: on_core_def upd_req_def req_ok_def refs_of_def field_refs_def ac_simps
        split: option.splits intro!: ok_XDECREF\<close>)
  show "moves S (PyBuffer_Release r S)"
    unfolding PyBuffer_Release_def Let_def
    by (rule moves_trans [OF moves_upd_req moves_on_core]) (simp_all add: keeps_request_def stable_XDECREF)
qed

text \<open>What stays of the request \<open>r\<close> while its result is made.\<close>

definition same_fields :: "nat \<Rightarrow> rworld \<Rightarrow> rworld \<Rightarrow> bool" where
  "same_fields r S S' \<longleftrightarrow> length (reqs S') = length (reqs S) \<and> thr_pool S' = thr_pool S \<and>
     rfields (reqs S' ! r) = rfields (reqs S ! r) \<and> rclass (reqs S' ! r) = rclass (reqs S ! r) \<and>
     rinit (reqs S' ! r) = rinit (reqs S ! r) \<and> rlive (reqs S' ! r) = rlive (reqs S ! r)"

lemma same_fields_refl [simp]: "same_fields r S S"
  by (simp add: same_fields_def)

lemma same_fields_trans: "same_fields r a b \<Longrightarrow> same_fields r b c \<Longrightarrow> same_fields r a c"
  by (simp add: same_fields_def)

lemma same_fields_upd_fs: "r < length (reqs S) \<Longrightarrow> same_fields r S (upd_fs r f S)"
  by (simp add: same_fields_def upd_fs_def upd_req_def)

lemma same_fields_release: "r < length (reqs S) \<Longrightarrow> same_fields r S (PyBuffer_Release r S)"
  by (simp add: same_fields_def PyBuffer_Release_def upd_req_def on_core_def Let_def)

lemma rok_value:
  assumes ok: "rok fr rf S" and n: "new_value v S = (x, S')"
  shows "rok (add_mset x fr) rf S'" "moves S S'" "same_fields r S S'" "valid (core S') x"
  using rok_new_value [OF assms] by (simp_all add: same_fields_def)

lemma fs_path_value_ok:
  assumes ok: "rok fr rf S" and p: "fs_path_value E u S = (x, S')"
  shows "rok (mset_opt x + fr) rf S' \<and> moves S S' \<and> same_fields r S S'"
  using rok_value [OF ok] p ok by (auto simp: fs_path_value_def split: option.splits if_splits prod.splits)

lemma fs_outcome_ok:
  assumes ok: "rok fr rf S" and r: "r \<in># rf" and n: "\<not> flying S r" and e: "fs_outcome E r S = (x, errorno, S')"
  shows "rok (add_mset x (add_mset errorno fr)) rf S' \<and> moves S S' \<and> same_fields r S S'"
proof (cases "fs_result (r_fs (reqs S ! r)) < 0")
  case True
  obtain a S1 where a: "new_value (IntV (fs_result (r_fs (reqs S ! r)))) S = (a, S1)" by fastforce
  obtain b S2 where b: "new_value NoneV S1 = (b, S2)" by fastforce
  have "x = b" "errorno = a" "S' = S2" using e True a b by (auto simp: fs_outcome_def)
  then show ?thesis
    using rok_value [OF ok a] rok_value [OF rok_value(1) [OF ok a] b] by (blast intro: moves_trans same_fields_trans)
next
  case False
  obtain v u1 where v: "fs_value E (stat_float S) (r_fs (reqs S ! r)) = (v, u1)" by fastforce
  obtain a S1 where a: "new_value NoneV S = (a, S1)" by fastforce
  note A = rok_value [OF ok a]
  let ?S1 = "upd_fs r (\<lambda>_. u1) S1"
  obtain b S2 where b: "new_value v ?S1 = (b, S2)" by fastforce
  have r1: "r < length (reqs S1)" using rok_in_frame [OF A(1) r] by simp
  have n1: "\<not> flying S1 r" using n A(3) by (simp add: same_fields_def)
  have o1: "rok (add_mset a fr) rf ?S1" by (rule rok_upd_fs [OF A(1) r1 n1])
  note B = rok_value [OF o1 b]
  have m: "moves S S2" using A(2) B(2) moves_upd_fs moves_trans by blast
  have s: "same_fields r S S2" using A(3) B(3) same_fields_upd_fs [OF r1] same_fields_trans by blast
  have r2: "r < length (reqs S2)" "\<not> flying S2 r"
    using s n rok_in_frame [OF ok r] by (auto simp: same_fields_def)
  have S': "x = b" "errorno = a" "S' = (if fs_type (r_fs (reqs S ! r)) = Some UV_FS_WRITE then PyBuffer_Release r S2 else S2)"
    using e False v a b by (auto simp: fs_outcome_def Let_def)
  show ?thesis
    using B(1) m s rok_buffer_release [OF B(1) r2] same_fields_release [OF r2(1)] S'
    by (auto intro: moves_trans same_fields_trans)
qed

text \<open>A request that was reported is never in flight again, whatever the program does.\<close>

lemma bg_reported: "bg_steps n p p' \<Longrightarrow> reported p' j = reported p j"
proof (induction rule: rtranclp_induct)
  case (step a b)
  have "reported b j = reported a j"
    using step(2) by (induction rule: bg_step.induct) (auto simp: frame_submit frame_cancel frame_finish frame_take)
  with step(3) show ?case by simp
qed simp

lemma reported_not_flying: "rok fr rf S \<Longrightarrow> reported (thr_pool S) r \<Longrightarrow> \<not> flying S r"
  using pool_okD(7) [OF rokD(2), of fr rf S r] by (auto simp: work_ok_def in_pool_eq statuses_reported)

lemma moves_reported: "moves S S' \<Longrightarrow> reported (thr_pool S') r = reported (thr_pool S) r"
  by (auto simp: moves_def bg_reported)

lemma moves_done_wq: "moves S S' \<Longrightarrow> set (done_wq (thr_pool S') m) \<subseteq> set (done_wq (thr_pool S) m)"
  unfolding moves_def using bg_done_wq by blast

lemma clear_fields [simp]:
  "F_path \<in> set FSRequest_tp_clear" "F_result \<in> set FSRequest_tp_clear" "F_error \<in> set FSRequest_tp_clear"
  "F_callback \<in> set FSRequest_tp_clear"
  by (simp_all add: request_clear_defs)

lemma on_core_frame [simp]: "reqs (on_core f S) = reqs S" "thr_pool (on_core f S) = thr_pool S" "rext (on_core f S) = rext S"
  by (simp_all add: on_core_def)

text \<open>
  The names that \<open>getnameinfo\<close> finds decode as UTF-8 and Python has memory for the pair: without that
  the callback of pyuv crashes.
\<close>

definition names_decode :: "fs_os \<Rightarrow> bool" where
  "names_decode E \<longleftrightarrow> o_pymem E \<and> (\<forall>s. o_decodes E s)"

context request_program
begin

text \<open>The first part: the three fields are set.\<close>

lemma fs_fields_ok:
  assumes ok: "rok fr rf S" and r: "r \<in># rf" and n: "\<not> flying S r" and c: "rclass (reqs S ! r) = FSRequest"
    and f: "rfield_of S r F_path = None" "rfield_of S r F_result = None" "rfield_of S r F_error = None"
    and p: "fs_path_value E u S = (path, S1)" and o: "fs_outcome E r S1 = (x, errorno, S2)"
  defines "S3 \<equiv> rq_put r F_error (Some errorno) (rq_put r F_result (Some x) (rq_put r F_path path S2))"
  shows "rok fr rf S3 \<and> moves S S3 \<and> length (reqs S3) = length (reqs S) \<and> thr_pool S3 = thr_pool S \<and>
    rfields (reqs S3 ! r) = (rfields (reqs S ! r))(F_path := path, F_result := Some x, F_error := Some errorno) \<and>
    rclass (reqs S3 ! r) = FSRequest \<and> rinit (reqs S3 ! r) = rinit (reqs S ! r)"
proof -
  have P: "rok (mset_opt path + fr) rf S1" "moves S S1" "same_fields r S S1" using fs_path_value_ok [OF ok p] by blast+
  have n1: "\<not> flying S1 r" using P(3) n by (simp add: same_fields_def)
  have O: "rok (add_mset x (add_mset errorno (mset_opt path + fr))) rf S2" "moves S1 S2" "same_fields r S1 S2"
    using fs_outcome_ok [OF P(1) r n1 o] by blast+
  have s2: "same_fields r S S2" by (rule same_fields_trans [OF P(3) O(3)])
  have r2: "r < length (reqs S2)" using rok_in_frame [OF O(1) r] by simp
  have o2: "rok (mset_opt path + (add_mset x (add_mset errorno fr))) rf S2" using O(1) by (simp add: ac_simps)
  let ?A = "rq_put r F_path path S2"
  let ?B = "rq_put r F_result (Some x) ?A"
  have s: "\<not> flying S2 r" "rclass (reqs S2 ! r) = FSRequest" "rfields (reqs S2 ! r) = rfields (reqs S ! r)"
    using s2 n c by (simp_all add: same_fields_def)
  have A: "rok (add_mset x (add_mset errorno fr)) rf ?A" "moves S2 ?A"
    by (rule rok_put [OF o2 r s(1)]; use s f in simp)+
  have a: "reqs ?A ! r = (reqs S2 ! r)\<lparr>rfields := (rfields (reqs S2 ! r))(F_path := path)\<rparr>" "thr_pool ?A = thr_pool S2"
    "length (reqs ?A) = length (reqs S2)"
    using r2 by (simp_all add: rq_put_def upd_req_def)
  have na: "\<not> flying ?A r" "rfield_of ?A r F_result = None" "F_result \<in> set (request_tp_clear (rclass (reqs ?A ! r)))"
    using s a f by simp_all
  have B: "rok (add_mset errorno fr) rf ?B" "moves ?A ?B"
    by (rule rok_put_Some [OF A(1) r na]; simp)+
  have b: "reqs ?B ! r = (reqs ?A ! r)\<lparr>rfields := (rfields (reqs ?A ! r))(F_result := Some x)\<rparr>" "thr_pool ?B = thr_pool S2"
    "length (reqs ?B) = length (reqs S2)"
    using r2 a by (simp_all add: rq_put_def upd_req_def)
  have nb: "\<not> flying ?B r" "rfield_of ?B r F_error = None" "F_error \<in> set (request_tp_clear (rclass (reqs ?B ! r)))"
    using s a b f by simp_all
  have C: "rok fr rf S3" "moves ?B S3"
    unfolding S3_def by (rule rok_put_Some [OF B(1) r nb]; simp)+
  have d: "reqs S3 ! r = (reqs ?B ! r)\<lparr>rfields := (rfields (reqs ?B ! r))(F_error := Some errorno)\<rparr>" "thr_pool S3 = thr_pool S2"
    "length (reqs S3) = length (reqs S2)"
    unfolding S3_def using r2 a b by (simp_all add: rq_put_def upd_req_def)
  have "moves S S3" using P(2) O(2) A(2) B(2) C(2) moves_trans by blast
  then show ?thesis using C(1) d b(1) a(1) s2 c by (simp add: same_fields_def)
qed

text \<open>The end of every callback: \<open>req_ptr\<close> is cleared and the reference of the pool goes.\<close>

lemma finish_request_ok:
  assumes ok: "rok fr (add_mset r rf) S" and n: "\<not> flying S r"
  shows "rok fr rf (finish_request r S) \<and> moves S (finish_request r S)"
proof -
  have r: "r < length (reqs S)" using rok_in_frame [OF ok, of r] by simp
  have "rok fr rf (finish_request r S)"
    unfolding finish_request_def by (rule rok_DECREF [OF rok_upd_req [OF ok r n]]) simp
  moreover have "moves S (finish_request r S)"
    unfolding finish_request_def by (rule moves_trans [OF moves_upd_req moves_DECREF]) (simp add: keeps_request_def)
  ultimately show ?thesis by blast
qed

lemma pyuv__process_fs_req_ok:
  assumes ok: "rok fr (add_mset r rf) S" and n: "reported (thr_pool S) r \<or> \<not> flying S r \<and> rfield_of S r F_callback = Some Py_None"
    and c: "rclass (reqs S ! r) = FSRequest" and i: "rinit (reqs S ! r)" "rfield_of S r F_loop = Some l"
    and f: "rfield_of S r F_path = None" "rfield_of S r F_result = None" "rfield_of S r F_error = None"
  shows "\<exists>S'. pyuv__process_fs_req py E r S = Some S' \<and> rok fr rf S' \<and> moves S S'"
proof -
  obtain path S1 where p: "fs_path_value E (r_fs (reqs S ! r)) S = (path, S1)" by fastforce
  obtain x errorno S2 where o: "fs_outcome E r S1 = (x, errorno, S2)" by (metis prod_cases3)
  define S3 where "S3 = rq_put r F_error (Some errorno) (rq_put r F_result (Some x) (rq_put r F_path path S2))"
  have nf: "\<not> flying S r" using n reported_not_flying [OF ok] by blast
  note F = fs_fields_ok [OF ok _ nf c f p o, folded S3_def]
  have F: "rok fr (add_mset r rf) S3" "moves S S3" "thr_pool S3 = thr_pool S" "rclass (reqs S3 ! r) = FSRequest"
    "rfields (reqs S3 ! r) = (rfields (reqs S ! r))(F_path := path, F_result := Some x, F_error := Some errorno)" "rinit (reqs S3 ! r)"
    using F i(1) by auto
  have r3: "r < length (reqs S3)" using rok_in_frame [OF F(1), of r] by simp
  let ?cb = "rfield_of S3 r F_callback"
  have "\<exists>S4. (if ?cb \<noteq> Some Py_None then rq_callback py ?cb [r] [] (Some l) S3 else Some S3) = Some S4 \<and>
      rok fr (add_mset r rf) S4 \<and> moves S3 S4 \<and> \<not> flying S4 r"
  proof (cases "?cb = Some Py_None")
    case True
    then show ?thesis using F(1,3) nf by auto
  next
    case False
    then have rp: "reported (thr_pool S3) r" using n F(3,5) by auto
    have "\<exists>S4. rq_callback py ?cb [r] [] (Some l) S3 = Some S4 \<and> rok fr (add_mset r rf) S4 \<and> moves S3 S4"
      by (rule rq_callback_ok [OF F(1)]) (use F(5,6) i(2) rok_field_valid [OF F(1) r3, of F_callback] in \<open>auto simp del: F(5)\<close>)
    then obtain S4 where "rq_callback py ?cb [r] [] (Some l) S3 = Some S4" "rok fr (add_mset r rf) S4" "moves S3 S4" by blast
    moreover have "\<not> flying S4 r" using reported_not_flying calculation(2) moves_reported [OF calculation(3)] rp by blast
    ultimately show ?thesis using False by auto
  qed
  then obtain S4 where S4: "(if ?cb \<noteq> Some Py_None then rq_callback py ?cb [r] [] (Some l) S3 else Some S3) = Some S4"
    "rok fr (add_mset r rf) S4" "moves S3 S4" "\<not> flying S4 r" by blast
  have r4: "r < length (reqs S4)" using rok_in_frame [OF S4(2), of r] by simp
  have n5: "\<not> flying (upd_fs r uv_fs_req_cleanup S4) r" using S4(4) by (simp add: upd_fs_def upd_req_def)
  note G = finish_request_ok [OF rok_upd_fs [OF S4(2) r4 S4(4)] n5]
  have "pyuv__process_fs_req py E r S = Some (finish_request r (upd_fs r uv_fs_req_cleanup S4))"
    unfolding pyuv__process_fs_req_def Let_def p o prod.case S3_def [symmetric] i(2) S4(1) finish_request_def by simp
  moreover have "moves S (finish_request r (upd_fs r uv_fs_req_cleanup S4))"
    by (rule moves_trans [OF F(2) moves_trans [OF S4(3) moves_trans [OF moves_upd_fs conjunct2 [OF G]]]])
  ultimately show ?thesis using G by blast
qed

text \<open>The callbacks with a result and an error.\<close>

lemma value_or_error_ok:
  assumes ok: "rok fr rf S" and v: "value_or_error x S = (d, e, S')"
  shows "rok (add_mset d (add_mset e fr)) rf S'" "moves S S'" "same_fields r S S'" "valid (core S') d" "valid (core S') e"
proof -
  obtain y where "rok (add_mset d (add_mset e fr)) rf S' \<and> moves S S' \<and> same_fields r S S'"
  proof (cases x)
    case (Inl err)
    obtain a S1 where a: "new_value (IntV err) S = (a, S1)" by fastforce
    obtain b S2 where b: "new_value NoneV S1 = (b, S2)" by fastforce
    have "d = b" "e = a" "S' = S2" using v Inl a b by (auto simp: value_or_error_def)
    then show ?thesis
      using that rok_value [OF ok a] rok_value [OF rok_value(1) [OF ok a] b] by (blast intro: moves_trans same_fields_trans)
  next
    case (Inr val)
    obtain a S1 where a: "new_value val S = (a, S1)" by fastforce
    obtain b S2 where b: "new_value NoneV S1 = (b, S2)" by fastforce
    have "d = a" "e = b" "S' = S2" using v Inr a b by (auto simp: value_or_error_def)
    moreover have "rok (add_mset a (add_mset b fr)) rf S2"
      using rok_value(1) [OF rok_value(1) [OF ok a] b] by (simp add: add_mset_commute)
    ultimately show ?thesis
      using that rok_value [OF ok a] rok_value [OF rok_value(1) [OF ok a] b] by (blast intro: moves_trans same_fields_trans)
  qed
  then show "rok (add_mset d (add_mset e fr)) rf S'" "moves S S'" "same_fields r S S'" by blast+
  then show "valid (core S') d" "valid (core S') e"
    using wf_valid_frame [OF okD(1) [OF rokD(1)]] by auto
qed

lemma value_callback_ok:
  assumes ok: "rok fr (add_mset r rf) S" and n: "reported (thr_pool S) r" and i: "rinit (reqs S ! r)" "rfield_of S r F_loop = Some l"
    and v: "value_or_error x S = (d, e, S1)"
  shows "\<exists>S'. map_option (\<lambda>S2. finish_request r (on_core (\<lambda>w. Py_DECREF e (Py_DECREF d w)) S2))
      (rq_callback py (rfield_of S1 r F_callback) [] [d, e] (Some l) S1) = Some S' \<and> rok fr rf S' \<and> moves S S'"
proof -
  note V = value_or_error_ok [OF ok v]
  have r1: "r < length (reqs S1)" using rok_in_frame [OF V(1), of r] by simp
  have i1: "rinit (reqs S1 ! r)" "rfield_of S1 r F_loop = Some l" using i V(3) [of r] by (simp_all add: same_fields_def)
  have "\<exists>S2. rq_callback py (rfield_of S1 r F_callback) [] [d, e] (Some l) S1 = Some S2 \<and>
      rok (add_mset d (add_mset e fr)) (add_mset r rf) S2 \<and> moves S1 S2"
    by (rule rq_callback_ok [OF V(1) _ i1]) (use rok_field_valid [OF V(1) r1] V(4,5) in auto)
  then obtain S2 where S2: "rq_callback py (rfield_of S1 r F_callback) [] [d, e] (Some l) S1 = Some S2"
    "rok (add_mset d (add_mset e fr)) (add_mset r rf) S2" "moves S1 S2" by blast
  let ?S3 = "on_core (\<lambda>w. Py_DECREF e (Py_DECREF d w)) S2"
  have o3: "rok fr (add_mset r rf) ?S3"
    by (rule rok_core [OF S2(2)]) (simp add: ok_DECREF)
  have m3: "moves S2 ?S3" by (rule moves_on_core) (rule stable_trans [OF stable_release stable_release])
  have m: "moves S ?S3" by (rule moves_trans [OF V(2) moves_trans [OF S2(3) m3]])
  have "\<not> flying ?S3 r" using reported_not_flying [OF o3] moves_reported [OF m] n by blast
  from finish_request_ok [OF o3 this] show ?thesis using S2(1) moves_trans [OF m] by auto
qed

lemma pyuv__getaddrinfo_cb_ok:
  assumes "rok fr (add_mset r rf) S" and "reported (thr_pool S) r" and "rinit (reqs S ! r)" and "rfield_of S r F_loop = Some l"
  shows "\<exists>S'. pyuv__getaddrinfo_cb py E r status res S = Some S' \<and> rok fr rf S' \<and> moves S S'"
proof -
  obtain d e S1 where v: "value_or_error (pyuv__getaddrinfo_process_result E status res) S = (d, e, S1)" by (metis prod_cases3)
  from value_callback_ok [OF assms v] show ?thesis using assms(4) v by (simp add: pyuv__getaddrinfo_cb_def Let_def)
qed

lemma pyuv__getnameinfo_cb_ok:
  assumes "rok fr (add_mset r rf) S" and "reported (thr_pool S) r" and "rinit (reqs S ! r)" and "rfield_of S r F_loop = Some l"
    and d: "pyuv__getnameinfo_process_result E status (fst names) (snd names) \<noteq> Inr None"
  shows "\<exists>S'. pyuv__getnameinfo_cb py E r status names S = Some S' \<and> rok fr rf S' \<and> moves S S'"
proof -
  obtain x where x: "value_or_error x S = value_or_error x S" by blast
  consider v where "pyuv__getnameinfo_process_result E status (fst names) (snd names) = Inr (Some v)"
    | err where "pyuv__getnameinfo_process_result E status (fst names) (snd names) = Inl err"
    using d by (cases "pyuv__getnameinfo_process_result E status (fst names) (snd names)") auto
  then show ?thesis
  proof cases
    case (1 v)
    obtain d e S1 where v: "value_or_error (Inr v) S = (d, e, S1)" by (metis prod_cases3)
    from value_callback_ok [OF assms(1-4) v] show ?thesis using assms(4) 1 v by (simp add: pyuv__getnameinfo_cb_def Let_def)
  next
    case (2 err)
    obtain d e S1 where v: "value_or_error (Inl err) S = (d, e, S1)" by (metis prod_cases3)
    from value_callback_ok [OF assms(1-4) v] show ?thesis using assms(4) 2 v by (simp add: pyuv__getnameinfo_cb_def Let_def)
  qed
qed

lemma pyuv__tp_done_cb_ok:
  assumes ok: "rok fr (add_mset r rf) S" and n: "reported (thr_pool S) r" and i: "rinit (reqs S ! r)" "rfield_of S r F_loop = Some l"
  shows "\<exists>S'. pyuv__tp_done_cb py r status S = Some S' \<and> rok fr rf S' \<and> moves S S'"
proof (cases "rfield_of S r F_done_cb = Some Py_None")
  case True
  then show ?thesis
    using finish_request_ok [OF ok reported_not_flying [OF ok n]] by (simp add: pyuv__tp_done_cb_def)
next
  case False
  obtain e S1 where v: "new_value (if status < 0 then IntV status else NoneV) S = (e, S1)" by fastforce
  note V = rok_value [OF ok v]
  have r1: "r < length (reqs S1)" using rok_in_frame [OF V(1), of r] by simp
  have i1: "rinit (reqs S1 ! r)" "rfield_of S1 r F_loop = Some l" using i V(3) [of r] by (simp_all add: same_fields_def)
  have "\<exists>S2. rq_callback py (rfield_of S1 r F_done_cb) [] [e] (Some l) S1 = Some S2 \<and>
      rok (add_mset e fr) (add_mset r rf) S2 \<and> moves S1 S2"
    by (rule rq_callback_ok [OF V(1) _ i1]) (use rok_field_valid [OF V(1) r1] V(4) in auto)
  then obtain S2 where S2: "rq_callback py (rfield_of S1 r F_done_cb) [] [e] (Some l) S1 = Some S2"
    "rok (add_mset e fr) (add_mset r rf) S2" "moves S1 S2" by blast
  let ?S3 = "on_core (Py_DECREF e) S2"
  have o3: "rok fr (add_mset r rf) ?S3" by (rule rok_core_DECREF [OF S2(2)])
  have m: "moves S ?S3" by (rule moves_trans [OF V(2) moves_trans [OF S2(3) moves_core_DECREF(1)]])
  have "\<not> flying ?S3 r" using reported_not_flying [OF o3] moves_reported [OF m] n by blast
  from finish_request_ok [OF o3 this] show ?thesis
    using S2(1) moves_trans [OF m] False v i(2) by (auto simp: pyuv__tp_done_cb_def Let_def)
qed

section \<open>uv\_\_work\_done\<close>

lemma call_done_ok:
  assumes ok: "rok fr (add_mset r rf) S" and n: "reported (thr_pool S) r" and j: "job_ok (reqs S ! r) w"
    and e: "err = (if w_work w = WorkCancelled then UV_ECANCELED else 0)" and d: "names_decode E"
  shows "\<exists>S'. call_done py E r err S = Some S' \<and> rok fr rf S' \<and> moves S S'"
proof -
  have r: "r < length (reqs S)" using rok_in_frame [OF ok, of r] by simp
  let ?u = "\<lambda>l. on_core (uv__req_unregister l) S"
  have o1: "rok fr (add_mset r rf) (?u l)" "moves S (?u l)" "\<not> flying (?u l) r" for l
    using rok_core_register(2) [OF ok] moves_register(2) reported_not_flying [OF ok n] by simp_all
  have i: "rinit (reqs S ! r)" "rfield_of S r F_loop = Some (w_loop w)" using j by (simp_all add: job_ok_def)
  have z: "(0::int) \<noteq> UV_ECANCELED" by (simp add: UV_ECANCELED_def)
  show ?thesis
  proof (cases "rclass (reqs S ! r)")
    case FSRequest
    note J = j [unfolded job_ok_def FSRequest, simplified]
    obtain u where u: "uv__fs_done err (r_fs (reqs S ! r)) = Some u"
      using J e z by (cases "w_work w = WorkCancelled") (auto simp: uv__fs_done_def)
    let ?S1 = "?u (fs_loop (r_fs (reqs S ! r)))"
    let ?S2 = "upd_fs r (\<lambda>_. u) ?S1"
    have s: "same_fields r ?S1 ?S2" by (rule same_fields_upd_fs) (use r in simp)
    have "\<exists>S'. pyuv__process_fs_req py E r ?S2 = Some S' \<and> rok fr rf S' \<and> moves ?S2 S'"
      by (rule pyuv__process_fs_req_ok [OF rok_upd_fs [OF o1(1) _ o1(3)]]) (use r s n i FSRequest J in \<open>auto simp: same_fields_def\<close>)
    then show ?thesis
      using FSRequest u moves_trans [OF o1(2) moves_trans [OF moves_upd_fs]] by (auto simp: call_done_def Let_def)
  next
    case GAIRequest
    note J = j [unfolded job_ok_def GAIRequest, simplified]
    obtain u where u: "uv__getaddrinfo_done err (r_gai (reqs S ! r)) = Some u"
      using J e z by (cases "w_work w = WorkCancelled") (auto simp: uv__getaddrinfo_done_def Let_def)
    let ?S1 = "?u (gai_loop (r_gai (reqs S ! r)))"
    let ?S2 = "upd_gai r (\<lambda>_. u) ?S1"
    have m: "moves ?S1 ?S2" unfolding upd_gai_def by (rule moves_upd_req) (simp add: keeps_request_def)
    have o2: "rok fr (add_mset r rf) ?S2" unfolding upd_gai_def by (rule rok_upd_req [OF o1(1) _ o1(3)]) (use r in simp_all)
    have "\<exists>S'. pyuv__getaddrinfo_cb py E r (gai_retcode u) (gai_addrinfo u) ?S2 = Some S' \<and> rok fr rf S' \<and> moves ?S2 S'"
      by (rule pyuv__getaddrinfo_cb_ok [OF o2]) (use r n i in \<open>auto simp: upd_gai_def upd_req_def\<close>)
    then show ?thesis
      using GAIRequest u moves_trans [OF o1(2) moves_trans [OF m]] by (auto simp: call_done_def Let_def)
  next
    case GNIRequest
    note J = j [unfolded job_ok_def GNIRequest, simplified]
    obtain u names where u: "uv__getnameinfo_done err (r_gni (reqs S ! r)) = Some (u, names)"
      using J e z by (cases "w_work w = WorkCancelled"; cases "gni_retcode (r_gni (reqs S ! r)) = 0")
        (auto simp: uv__getnameinfo_done_def Let_def)
    let ?S1 = "?u (gni_loop (r_gni (reqs S ! r)))"
    let ?S2 = "upd_gni r (\<lambda>_. u) ?S1"
    have m: "moves ?S1 ?S2" unfolding upd_gni_def by (rule moves_upd_req) (simp add: keeps_request_def)
    have o2: "rok fr (add_mset r rf) ?S2" unfolding upd_gni_def by (rule rok_upd_req [OF o1(1) _ o1(3)]) (use r in simp_all)
    have "\<exists>S'. pyuv__getnameinfo_cb py E r (gni_retcode u) (case names of Some n \<Rightarrow> n | None \<Rightarrow> ([], [])) ?S2 = Some S' \<and>
        rok fr rf S' \<and> moves ?S2 S'"
      by (rule pyuv__getnameinfo_cb_ok [OF o2])
        (use r n i d in \<open>auto simp: upd_gni_def upd_req_def names_decode_def pyuv__getnameinfo_process_result_def\<close>)
    then show ?thesis
      using GNIRequest u moves_trans [OF o1(2) moves_trans [OF m]] by (auto simp: call_done_def Let_def)
  next
    case WorkRequest
    have "\<exists>S'. pyuv__tp_done_cb py r err (?u l) = Some S' \<and> rok fr rf S' \<and> moves (?u l) S'" for l
      by (rule pyuv__tp_done_cb_ok [OF o1(1)]) (use n i in simp_all)
    then show ?thesis
      using WorkRequest moves_trans [OF o1(2)] by (fastforce simp: call_done_def)
  qed
qed

lemma done_next_ok:
  assumes ok: "rok fr rf S" and q: "done_wq (thr_pool S) l = r # q" and d: "names_decode E"
  shows "\<exists>S'. done_next py E l S = Some S' \<and> rok fr rf S' \<and> length (done_wq (thr_pool S') l) \<le> length q \<and>
    (\<forall>m. m \<noteq> l \<longrightarrow> set (done_wq (thr_pool S') m) \<subseteq> set (done_wq (thr_pool S) m))"
proof -
  obtain p where p: "work_done_next l (thr_pool S) = Some p" using q by (simp add: work_done_next_def)
  note W = rok_work_done_next [OF ok q p]
  let ?S1 = "on_pool (\<lambda>_. p) S"
  let ?err = "if w_work (works (thr_pool S) r) = WorkCancelled then UV_ECANCELED else 0"
  have "reported (thr_pool ?S1) r" using p q by (auto simp: on_pool_def work_done_next_def reported_def)
  then have "\<exists>S'. call_done py E r ?err ?S1 = Some S' \<and> rok fr rf S' \<and> moves ?S1 S'"
    by (intro call_done_ok [where w = "works (thr_pool S) r"]) (use W d in \<open>auto simp: on_pool_def\<close>)
  then obtain S' where S': "call_done py E r ?err ?S1 = Some S'" "rok fr rf S'" "moves ?S1 S'" by blast
  have "length (done_wq (thr_pool S') l) \<le> length (done_wq p l)"
    using S'(3) bg_done_wq by (auto simp: moves_def on_pool_def)
  moreover have "set (done_wq (thr_pool S') m) \<subseteq> set (done_wq (thr_pool S) m)" if "m \<noteq> l" for m
    using moves_done_wq [OF S'(3), of m] p q that by (auto simp: on_pool_def work_done_next_def)
  moreover have "done_next py E l S = Some S'" using S'(1) p q by (simp add: done_next_def)
  ultimately show ?thesis using S'(2) W by auto
qed

lemma work_done_loop_ok:
  "rok fr rf S \<Longrightarrow> length (done_wq (thr_pool S) l) \<le> fuel \<Longrightarrow> (\<And>k. names_decode (Es k)) \<Longrightarrow>
     \<exists>S'. work_done_loop py Es fuel l S = Some S' \<and> rok fr rf S' \<and> done_wq (thr_pool S') l = [] \<and>
       (\<forall>m. m \<noteq> l \<longrightarrow> set (done_wq (thr_pool S') m) \<subseteq> set (done_wq (thr_pool S) m))"
proof (induction fuel arbitrary: S)
  case (Suc fuel)
  show ?case
  proof (cases "done_wq (thr_pool S) l")
    case Nil
    then show ?thesis using Suc.prems by simp
  next
    case (Cons r q)
    obtain S1 where S1: "done_next py (Es fuel) l S = Some S1" "rok fr rf S1" "length (done_wq (thr_pool S1) l) \<le> length q"
      and o: "\<And>m. m \<noteq> l \<Longrightarrow> set (done_wq (thr_pool S1) m) \<subseteq> set (done_wq (thr_pool S) m)"
      using done_next_ok [OF Suc.prems(1) Cons Suc.prems(3)] by blast
    have "length (done_wq (thr_pool S1) l) \<le> fuel" using S1(3) Suc.prems(2) Cons by simp
    from Suc.IH [OF S1(2) this Suc.prems(3)] show ?thesis using S1(1) Cons o by (fastforce dest: subsetD)
  qed
qed simp

lemma uv__work_done_ok:
  assumes ok: "rok fr rf S" and d: "done_wq (thr_pool S) l = []" and n: "\<And>k. names_decode (Es k)"
  shows "\<exists>S'. uv__work_done py Es l S = Some S' \<and> rok fr rf S' \<and> done_wq (thr_pool S') l = [] \<and>
    (\<forall>m. m \<noteq> l \<longrightarrow> set (done_wq (thr_pool S') m) \<subseteq> set (done_wq (thr_pool S) m))"
proof -
  let ?S1 = "on_pool (work_done_begins l) S"
  have "length (done_wq (thr_pool ?S1) l) \<le> length (loop_wq (thr_pool S) l)"
    by (simp add: on_pool_def work_done_begins_def)
  from work_done_loop_ok [where Es = Es, OF rok_work_done_begins [OF ok d] this n]
  show ?thesis unfolding uv__work_done_def by (auto simp: on_pool_def work_done_begins_def)
qed

end

end
