(* ===== verification/Request_Api.thy ===== *)
theory Request_Api
  imports Request_Steps
begin

text \<open>
  Every function that starts a request keeps the invariant: first the functions of libuv, in one
  shape (\<open>fs_started\<close>), then those of fs.c, dns.c and \<open>queue_work\<close>, then \<open>cancel\<close> and the threads.
\<close>

section \<open>Starting in libuv\<close>

text \<open>The state in which \<open>POST\<close> is reached: the request has been set up as \<open>u\<close>.\<close>

definition prep :: "oid \<Rightarrow> nat \<Rightarrow> bool \<Rightarrow> uv_fs_t \<Rightarrow> rworld \<Rightarrow> rworld" where
  "prep loop r cb u S =
     (if cb then on_core (uv__req_register loop) else id) (upd_req r (\<lambda>q. q\<lparr>typed := True, r_fs := u\<rparr>) S)"

definition fs_started :: "fs_os \<Rightarrow> oid \<Rightarrow> nat \<Rightarrow> bool \<Rightarrow> rworld \<Rightarrow> (int \<times> rworld) option \<Rightarrow> bool" where
  "fs_started E loop r cb S x \<longleftrightarrow> x = Some (UV_EINVAL, S) \<or>
     (\<exists>u. fs_type u \<noteq> None \<and> fs_loop u = loop \<and> fs_result u = 0 \<and>
        (x = POST E loop r cb (prep loop r cb u S) \<or>
         x = Some (UV_ENOMEM, if cb then on_core (uv__req_unregister loop) (prep loop r cb u S) else prep loop r cb u S)))"

lemma fs_INIT_prep: "fs_INIT t loop r cb S = prep loop r cb (INIT t loop cb (r_fs (reqs S ! r))) S"
  by (simp add: fs_INIT_def prep_def upd_req_def Let_def)

lemma upd_fs_prep: "r < length (reqs S) \<Longrightarrow> upd_fs r f (prep loop r cb u S) = prep loop r cb (f u) S"
  by (simp add: prep_def upd_fs_def upd_req_def on_core_def)

lemma PATH_started:
  assumes "r < length (reqs S)" and "fs_type u \<noteq> None \<and> fs_loop u = loop \<and> fs_result u = 0"
    and "fs_started E loop r cb S (k (prep loop r cb (u\<lparr>fs_path := Some path\<rparr>) S))"
  shows "fs_started E loop r cb S (PATH E loop r path cb k (prep loop r cb u S))"
  using assms by (auto simp: PATH_def upd_fs_prep fs_started_def)

lemma PATH2_started:
  assumes "r < length (reqs S)" and "fs_type u \<noteq> None \<and> fs_loop u = loop \<and> fs_result u = 0"
    and "fs_started E loop r cb S (k (prep loop r cb (u\<lparr>fs_path := Some path, fs_new_path := Some new_path\<rparr>) S))"
  shows "fs_started E loop r cb S (PATH2 E loop r path new_path cb k (prep loop r cb u S))"
  using assms by (auto simp: PATH2_def upd_fs_prep fs_started_def)

lemma POST_started:
  "fs_type u \<noteq> None \<and> fs_loop u = loop \<and> fs_result u = 0 \<Longrightarrow> fs_started E loop r cb S (POST E loop r cb (prep loop r cb u S))"
  by (auto simp: fs_started_def)

lemma ENOMEM_started:
  "fs_type u \<noteq> None \<and> fs_loop u = loop \<and> fs_result u = 0 \<Longrightarrow> fs_started E loop r cb S
     (Some (UV_ENOMEM, if cb then on_core (uv__req_unregister loop) (prep loop r cb u S) else prep loop r cb u S))"
  by (auto simp: fs_started_def)

lemmas ENOMEM_starts = ENOMEM_started [where cb = True, simplified] ENOMEM_started [where cb = False, simplified]

named_theorems started_defs \<open>the functions of unix/fs.c that start a request\<close>

lemmas [started_defs] = uv_fs_access_def uv_fs_chmod_def uv_fs_chown_def uv_fs_close_def uv_fs_fchmod_def
  uv_fs_fchown_def uv_fs_fdatasync_def uv_fs_fstat_def uv_fs_fsync_def uv_fs_ftruncate_def uv_fs_futime_def
  uv_fs_lstat_def uv_fs_link_def uv_fs_mkdir_def uv_fs_open_def uv_fs_read_def uv_fs_scandir_def uv_fs_readlink_def
  uv_fs_realpath_def uv_fs_rename_def uv_fs_rmdir_def uv_fs_sendfile_def uv_fs_stat_def uv_fs_symlink_def
  uv_fs_unlink_def uv_fs_utime_def uv_fs_write_def

lemma EINVAL_started: "fs_started E loop r cb S (Some (UV_EINVAL, S))"
  by (simp add: fs_started_def)

lemma starts:
  assumes r: "r < length (reqs S)"
  shows "fs_started E loop r cb S (uv_fs_access E path flags loop r cb S)"
    "fs_started E loop r cb S (uv_fs_chmod E path mode loop r cb S)"
    "fs_started E loop r cb S (uv_fs_chown E path uid gid loop r cb S)"
    "fs_started E loop r cb S (uv_fs_close E fd loop r cb S)"
    "fs_started E loop r cb S (uv_fs_fchmod E fd mode loop r cb S)"
    "fs_started E loop r cb S (uv_fs_fchown E fd uid gid loop r cb S)"
    "fs_started E loop r cb S (uv_fs_fdatasync E fd loop r cb S)"
    "fs_started E loop r cb S (uv_fs_fstat E fd loop r cb S)"
    "fs_started E loop r cb S (uv_fs_fsync E fd loop r cb S)"
    "fs_started E loop r cb S (uv_fs_ftruncate E fd off loop r cb S)"
    "fs_started E loop r cb S (uv_fs_futime E fd atime mtime loop r cb S)"
    "fs_started E loop r cb S (uv_fs_lstat E path loop r cb S)"
    "fs_started E loop r cb S (uv_fs_link E path new_path loop r cb S)"
    "fs_started E loop r cb S (uv_fs_mkdir E path mode loop r cb S)"
    "fs_started E loop r cb S (uv_fs_open E path flags mode loop r cb S)"
    "fs_started E loop r cb S (uv_fs_read E fd bufs off loop r cb S)"
    "fs_started E loop r cb S (uv_fs_scandir E path flags loop r cb S)"
    "fs_started E loop r cb S (uv_fs_readlink E path loop r cb S)"
    "fs_started E loop r cb S (uv_fs_realpath E path loop r cb S)"
    "fs_started E loop r cb S (uv_fs_rename E path new_path loop r cb S)"
    "fs_started E loop r cb S (uv_fs_rmdir E path loop r cb S)"
    "fs_started E loop r cb S (uv_fs_sendfile E fd fd2 off len loop r cb S)"
    "fs_started E loop r cb S (uv_fs_stat E path loop r cb S)"
    "fs_started E loop r cb S (uv_fs_symlink E path new_path flags loop r cb S)"
    "fs_started E loop r cb S (uv_fs_unlink E path loop r cb S)"
    "fs_started E loop r cb S (uv_fs_utime E path atime mtime loop r cb S)"
    "fs_started E loop r cb S (uv_fs_write E fd bufs off loop r cb S)"
  using r
  by (auto simp: started_defs fs_INIT_prep upd_fs_prep INIT_def Let_def EINVAL_started
      intro!: PATH_started PATH2_started POST_started ENOMEM_starts split: if_splits)

text \<open>A request object as the functions have it when they call libuv.\<close>

definition fresh_req :: "req_class \<Rightarrow> oid \<Rightarrow> nat \<Rightarrow> rworld \<Rightarrow> bool" where
  "fresh_req c loop r S \<longleftrightarrow> rclass (reqs S ! r) = c \<and> rinit (reqs S ! r) \<and> rfield_of S r F_loop = Some loop \<and>
     \<not> flying S r \<and> \<not> reported (thr_pool S) r"

definition fresh_fs :: "oid \<Rightarrow> oid \<Rightarrow> nat \<Rightarrow> rworld \<Rightarrow> bool" where
  "fresh_fs loop callback r S \<longleftrightarrow> fresh_req FSRequest loop r S \<and> rfield_of S r F_callback = Some callback \<and>
     rfield_of S r F_path = None \<and> rfield_of S r F_result = None \<and> rfield_of S r F_error = None"

lemma fs_switch_keeps: "fs_switch a t req = (ret, err, req') \<Longrightarrow> fs_type req' = fs_type req \<and> fs_loop req' = fs_loop req"
proof -
  have loop: "buf_iter_loop iovmax process tot e q bufs = (ret, err, q') \<Longrightarrow> fs_type q' = fs_type q \<and> fs_loop q' = fs_loop q"
    for iovmax process tot e q bufs ret err q'
  proof (induction iovmax process tot e q bufs rule: buf_iter_loop.induct)
    case (1 iovmax process tot e q bufs)
    show ?case
    proof (cases "bufs = []")
      case True
      then show ?thesis using 1(2) by (simp add: buf_iter_loop.simps)
    next
      case False
      let ?q = "q\<lparr>fs_bufs := bufs, fs_nbufs := min (length bufs) (max 1 iovmax)\<rparr>"
      obtain r1 e1 where p: "process ?q = (r1, e1)" by fastforce
      let ?q1 = "if 0 \<le> fs_off ?q then ?q\<lparr>fs_off := fs_off ?q + r1\<rparr> else ?q"
      have e: "buf_iter_loop iovmax process tot e q bufs = (if r1 \<le> 0 then (if tot = 0 then r1 else tot, e1, ?q)
          else buf_iter_loop iovmax process (tot + r1) e1 ?q1 (drop (fs_nbufs ?q) bufs))"
        by (subst buf_iter_loop.simps) (simp only: False p Let_def prod.case if_False)
      show ?thesis
      proof (cases "r1 \<le> 0")
        case True
        then show ?thesis using 1(2) e by auto
      next
        case f: False
        have "buf_iter_loop iovmax process (tot + r1) e1 ?q1 (drop (fs_nbufs ?q) bufs) = (ret, err, q')"
          using 1(2) e f by simp
        from 1(1) [OF False refl refl p [symmetric] f this] show ?thesis by (simp split: if_splits)
      qed
    qed
  qed
  assume "fs_switch a t req = (ret, err, req')"
  then show ?thesis
    by (cases t) (auto simp: fs_switch_def uv__fs_stat_def uv__fs_lstat_def uv__fs_fstat_def uv__fs_readlink_def
        uv__fs_realpath_def uv__fs_scandir_def uv__fs_buf_iter_def Let_def split: if_splits prod.splits dest!: loop)
qed

lemma fs_attempts_keeps: "fs_attempts n a t req = (ret, err, req') \<Longrightarrow> fs_type req' = fs_type req \<and> fs_loop req' = fs_loop req"
proof (induction n arbitrary: req)
  case 0
  then show ?case by (simp add: fs_switch_keeps)
next
  case (Suc n)
  obtain r1 e1 q1 where s: "fs_switch (a\<lparr>a_ret := -1, a_errno := EINTR\<rparr>) t req = (r1, e1, q1)" by (metis prod_cases3)
  then show ?case using Suc fs_switch_keeps [OF s] by (auto simp: Let_def split: if_splits)
qed

lemma uv__fs_work_keeps:
  assumes "fs_type req \<noteq> None"
  shows "\<exists>u. uv__fs_work n a req = Some u \<and> fs_type u = fs_type req \<and> fs_loop u = fs_loop req"
proof -
  obtain t where t: "fs_type req = Some t" using assms by auto
  obtain ret err q where s: "fs_attempts n a t req = (ret, err, q)" by (metis prod_cases3)
  from fs_attempts_keeps [OF s] t s show ?thesis by (auto simp: uv__fs_work_def set_result_def Let_def)
qed

text \<open>What the start of a request does to the state: an asynchronous one is in flight and owns the reference.\<close>

lemma fs_start_ok:
  assumes ok: "rok fr (add_mset r rf) S" and f: "fresh_fs loop callback r S" and x: "fs_started E loop r cb S x"
  shows "\<exists>err S'. x = Some (err, S') \<and> moves S S' \<and> length (reqs S') = length (reqs S) \<and>
    (if cb \<and> 0 \<le> err then rok fr rf S' \<and> flying S' r else rok fr (add_mset r rf) S' \<and> fresh_fs loop callback r S')"
proof -
  have r: "r < length (reqs S)" using rok_in_frame [OF ok, of r] by simp
  note F = f [unfolded fresh_fs_def fresh_req_def]
  have neg: "UV_EINVAL < 0" "UV_ENOMEM < 0" by (simp_all add: UV_EINVAL_def UV_ENOMEM_def)
  have P: "rok fr (add_mset r rf) (prep loop r cb u S) \<and> moves S (prep loop r cb u S) \<and> fresh_fs loop callback r (prep loop r cb u S) \<and>
      length (reqs (prep loop r cb u S)) = length (reqs S) \<and> reqs (prep loop r cb u S) ! r = (reqs S ! r)\<lparr>typed := True, r_fs := u\<rparr>" for u
  proof -
    let ?T = "upd_req r (\<lambda>q. q\<lparr>typed := True, r_fs := u\<rparr>) S"
    have T: "rok fr (add_mset r rf) ?T" by (rule rok_upd_req [OF ok r]) (use F in simp_all)
    have m: "moves S ?T" by (rule moves_upd_req) (simp add: keeps_request_def)
    have q: "reqs ?T ! r = (reqs S ! r)\<lparr>typed := True, r_fs := u\<rparr>" "length (reqs ?T) = length (reqs S)" "thr_pool ?T = thr_pool S"
      using r by (simp_all add: upd_req_def)
    show ?thesis
      using T q F rok_core_register(1) [OF T] moves_trans [OF m moves_register(1)] m
      by (auto simp: prep_def fresh_fs_def fresh_req_def)
  qed
  from x consider "x = Some (UV_EINVAL, S)"
    | u where "fs_type u \<noteq> None" "fs_loop u = loop" "fs_result u = 0" "x = POST E loop r cb (prep loop r cb u S)"
    | u where "x = Some (UV_ENOMEM, if cb then on_core (uv__req_unregister loop) (prep loop r cb u S) else prep loop r cb u S)"
    unfolding fs_started_def by blast
  then show ?thesis
  proof cases
    case 1
    then show ?thesis using ok f neg by auto
  next
    case (3 u)
    let ?T = "prep loop r cb u S"
    have "rok fr (add_mset r rf) (on_core (uv__req_unregister loop) ?T)" "moves S (on_core (uv__req_unregister loop) ?T)"
      using P [of u] rok_core_register(2) moves_trans [OF _ moves_register(2)] by blast+
    then show ?thesis using 3 P [of u] neg by (auto simp: fresh_fs_def fresh_req_def)
  next
    case (2 u)
    let ?T = "prep loop r cb u S"
    note T = P [of u]
    show ?thesis
    proof (cases cb)
      case True
      have j: "job_ok (reqs ?T ! r) \<lparr>w_loop = loop, w_work = WorkFn, w_linked = True\<rparr>"
        using T 2 F by (simp add: job_ok_def fresh_fs_def fresh_req_def)
      have n: "\<not> flying ?T r" "\<not> reported (thr_pool ?T) r" using T by (simp_all add: fresh_fs_def fresh_req_def)
      note R = rok_submit [OF conjunct1 [OF T] n j]
      have "flying (on_pool (uv__work_submit loop r) ?T) r" by (simp add: on_pool_def in_pool_submit)
      then show ?thesis
        using 2 True R T moves_trans [OF _ R(2), of S] by (auto simp: POST_def on_pool_def)
    next
      case False
      obtain v where v: "uv__fs_work (o_interrupted E) (o_answer E) u = Some v"
        using uv__fs_work_keeps [of u] 2 by blast
      let ?S2 = "upd_fs r (\<lambda>_. v) ?T"
      have r2: "r < length (reqs ?T)" "\<not> flying ?T r" using T r by (simp_all add: fresh_fs_def fresh_req_def)
      have "x = Some (fs_result v, ?S2)" using 2 False v T by (simp add: POST_def)
      moreover have "rok fr (add_mset r rf) ?S2" by (rule rok_upd_fs [OF _ r2]) (use T in blast)
      moreover have "moves S ?S2" using T moves_trans [OF _ moves_upd_fs] by blast
      moreover have "fresh_fs loop callback r ?S2"
        using T F same_fields_upd_fs [OF r2(1), of "\<lambda>_. v"] by (simp add: fresh_fs_def fresh_req_def same_fields_def)
      moreover have "length (reqs ?S2) = length (reqs S)" using T by (simp add: upd_fs_def upd_req_def)
      ultimately show ?thesis using False by auto
    qed
  qed
qed

section \<open>New requests\<close>

lemma new_FSRequest_eq:
  "new_FSRequest loop cb S = (Ok (length (reqs S)), S\<lparr>core := Py_INCREF cb (Py_INCREF loop (core S)),
     reqs := reqs S @ [(request_zero FSRequest)\<lparr>req_ptr := True, rinit := True,
       rfields := (\<lambda>_. None)(F_loop := Some loop, F_callback := Some cb)\<rparr>]\<rparr>)"
  by (simp add: new_FSRequest_def construct_def FSRequest_tp_new_def FSRequest_tp_init_def Request_tp_new_def Request_tp_init_def
      rq_parse_def rq_assign_def rq_put_def upd_req_def on_core_def Let_def nth_append list_update_append request_zero_def
      Py_XDECREF_def fun_eq_iff)

lemma new_WorkRequest_eq:
  "new_WorkRequest loop f g S = (Ok (length (reqs S)), S\<lparr>core := Py_INCREF g (Py_INCREF f (Py_INCREF loop (core S))),
     reqs := reqs S @ [(request_zero WorkRequest)\<lparr>req_ptr := True, rinit := True,
       rfields := (\<lambda>_. None)(F_loop := Some loop, F_work_cb := Some f, F_done_cb := Some g)\<rparr>]\<rparr>)"
  by (simp add: new_WorkRequest_def construct_def WorkRequest_tp_new_def WorkRequest_tp_init_def Request_tp_new_def
      Request_tp_init_def rq_parse_def rq_assign_def rq_put_def upd_req_def on_core_def Let_def nth_append list_update_append
      request_zero_def Py_XDECREF_def fun_eq_iff)

lemma rok_new_request:
  assumes ok: "rok fr rf S" and v: "\<And>x. x \<in> set xs \<Longrightarrow> valid (core S) x"
    and q: "mset xs = refs_of q" "\<And>w. req_ok 1 False w q"
  shows "rok fr (add_mset (length (reqs S)) rf) (S\<lparr>core := fold Py_INCREF xs (core S), reqs := reqs S @ [q]\<rparr>)"
    "moves S (S\<lparr>core := fold Py_INCREF xs (core S), reqs := reqs S @ [q]\<rparr>)"
proof -
  show "rok fr (add_mset (length (reqs S)) rf) (S\<lparr>core := fold Py_INCREF xs (core S), reqs := reqs S @ [q]\<rparr>)"
  proof (rule rok_new [OF ok _ q(2)])
    show "ok (refs_of q + (M + fr)) (fold Py_INCREF xs (core S))" if "ok (M + fr) (core S)" for M
      using ok_fold_INCREF [OF that, of xs] v q(1) by simp
  qed
  show "moves S (S\<lparr>core := fold Py_INCREF xs (core S), reqs := reqs S @ [q]\<rparr>)"
    by (rule moves_fresh) (rule stable_fold_INCREF)
qed

lemma new_FSRequest_ok:
  assumes ok: "rok fr rf S" and v: "valid (core S) loop" "valid (core S) cb"
  shows "\<exists>S'. new_FSRequest loop cb S = (Ok (length (reqs S)), S') \<and> rok fr (add_mset (length (reqs S)) rf) S' \<and> moves S S' \<and>
    fresh_fs loop cb (length (reqs S)) S' \<and> view (reqs S' ! length (reqs S)) = None"
proof -
  let ?q = "(request_zero FSRequest)\<lparr>req_ptr := True, rinit := True,
       rfields := (\<lambda>_. None)(F_loop := Some loop, F_callback := Some cb)\<rparr>"
  have x: "valid (core S) x" if "x \<in> set [loop, cb]" for x using that v by auto
  have m: "mset [loop, cb] = refs_of ?q"
    by (simp add: refs_of_def field_refs_def request_zero_def request_clear_defs map_filter_simps)
  have q: "req_ok 1 False w ?q" for w
    by (auto simp: req_ok_def request_zero_def request_clear_defs)
  have "fresh_fs loop cb (length (reqs S)) (S\<lparr>core := c, reqs := reqs S @ [?q]\<rparr>)" for c
    using rokD(4) [OF ok, of "length (reqs S)"] by (simp add: fresh_fs_def fresh_req_def request_zero_def)
  then show ?thesis
    using rok_new_request [OF ok x m q] unfolding new_FSRequest_eq by (simp add: request_zero_def)
qed

lemma new_WorkRequest_ok:
  assumes ok: "rok fr rf S" and v: "valid (core S) loop" "valid (core S) f" "valid (core S) g"
  shows "\<exists>S'. new_WorkRequest loop f g S = (Ok (length (reqs S)), S') \<and> rok fr (add_mset (length (reqs S)) rf) S' \<and> moves S S' \<and>
    fresh_req WorkRequest loop (length (reqs S)) S' \<and> rfield_of S' (length (reqs S)) F_work_cb = Some f \<and>
    rfield_of S' (length (reqs S)) F_done_cb = Some g"
proof -
  let ?q = "(request_zero WorkRequest)\<lparr>req_ptr := True, rinit := True,
       rfields := (\<lambda>_. None)(F_loop := Some loop, F_work_cb := Some f, F_done_cb := Some g)\<rparr>"
  have x: "valid (core S) x" if "x \<in> set [loop, f, g]" for x using that v by auto
  have m: "mset [loop, f, g] = refs_of ?q"
    by (simp add: refs_of_def field_refs_def request_zero_def request_clear_defs map_filter_simps)
  have q: "req_ok 1 False w ?q" for w
    by (auto simp: req_ok_def request_zero_def request_clear_defs)
  have "fresh_req WorkRequest loop (length (reqs S)) (S\<lparr>core := c, reqs := reqs S @ [?q]\<rparr>)" for c
    using rokD(4) [OF ok, of "length (reqs S)"] by (simp add: fresh_req_def request_zero_def)
  then show ?thesis
    using rok_new_request [OF ok x m q] unfolding new_WorkRequest_eq by (simp add: request_zero_def)
qed

section \<open>The functions of fs.c\<close>

text \<open>What a function leaves: the invariant, with its result in the frame.\<close>

definition keeps_requests :: "oid multiset \<Rightarrow> nat multiset \<Rightarrow> rworld \<Rightarrow> rvalue result \<times> rworld \<Rightarrow> bool" where
  "keeps_requests fr rf S p \<longleftrightarrow> moves S (snd p) \<and>
     (case fst p of
        Ok (RetReq r) \<Rightarrow> rok fr (add_mset r rf) (snd p)
      | Ok (RetObj x) \<Rightarrow> rok (add_mset x fr) rf (snd p)
      | Raise e \<Rightarrow> rok fr rf (snd p)
      | Abort \<Rightarrow> False)"

lemma keeps_requests_trans: "moves S S1 \<Longrightarrow> keeps_requests fr rf S1 p \<Longrightarrow> keeps_requests fr rf S p"
  by (auto simp: keeps_requests_def intro: moves_trans)

lemma keeps_requests_raise: "rok fr rf S' \<Longrightarrow> moves S S' \<Longrightarrow> keeps_requests fr rf S (Raise e, S')"
  by (simp add: keeps_requests_def)

text \<open>Without a callback no Python code runs, so the result is still there at the end.\<close>

lemma rq_DECREF_fields:
  "r < length (reqs S) \<Longrightarrow> rlive (reqs (rq_DECREF r S) ! r) \<Longrightarrow> rfield_of (rq_DECREF r S) r f = rfield_of S r f"
  by (auto simp: rq_DECREF_def Request_tp_dealloc_def upd_req_def on_core_def Let_def)

context request_program
begin

lemma sync_result:
  assumes ok: "rok fr (add_mset r (add_mset r rf)) S" and f: "fresh_fs loop Py_None r S"
  shows "\<exists>S' x. pyuv__process_fs_req py E r S = Some S' \<and> rok fr (add_mset r rf) S' \<and> moves S S' \<and> rfield_of S' r F_result = Some x"
proof -
  note F = f [unfolded fresh_fs_def fresh_req_def]
  have "\<exists>S'. pyuv__process_fs_req py E r S = Some S' \<and> rok fr (add_mset r rf) S' \<and> moves S S'"
    by (rule pyuv__process_fs_req_ok [OF ok]) (use F in auto)
  then obtain S' where S': "pyuv__process_fs_req py E r S = Some S'" "rok fr (add_mset r rf) S'" "moves S S'" by blast
  obtain path S1 where p: "fs_path_value E (r_fs (reqs S ! r)) S = (path, S1)" by fastforce
  obtain x errorno S2 where o: "fs_outcome E r S1 = (x, errorno, S2)" by (metis prod_cases3)
  define S3 where "S3 = rq_put r F_error (Some errorno) (rq_put r F_result (Some x) (rq_put r F_path path S2))"
  have F3: "rok fr (add_mset r (add_mset r rf)) S3"
    "rfields (reqs S3 ! r) = (rfields (reqs S ! r))(F_path := path, F_result := Some x, F_error := Some errorno)"
    using fs_fields_ok [OF ok _ _ _ _ _ _ p o, folded S3_def] F by auto
  let ?S4 = "upd_req r (\<lambda>q. q\<lparr>req_ptr := False\<rparr>) (upd_fs r uv_fs_req_cleanup S3)"
  have r3: "r < length (reqs S3)" using rok_in_frame [OF F3(1), of r] by simp
  have e: "S' = rq_DECREF r ?S4"
    using S'(1) p o F F3(2) unfolding pyuv__process_fs_req_def Let_def p o prod.case S3_def [symmetric] by simp
  have "rlive (reqs S' ! r)" using rok_in_frame [OF S'(2), of r] by simp
  then have "rfield_of S' r F_result = rfield_of ?S4 r F_result"
    unfolding e by (intro rq_DECREF_fields) (use r3 in \<open>simp_all add: upd_req_def upd_fs_def\<close>)
  also have "\<dots> = Some x" using r3 F3(2) by (simp add: upd_req_def upd_fs_def)
  finally show ?thesis using S' by blast
qed

lemma fs_finish_ok:
  assumes ok: "rok fr (add_mset r rf) S" and f: "fresh_fs loop callback r S"
    and x: "fs_started E loop r (callback \<noteq> Py_None) S x"
    and c: "\<And>T. rok fr (add_mset r rf) T \<Longrightarrow> \<not> flying T r \<Longrightarrow> rok fr (add_mset r rf) (cleanup T) \<and> moves T (cleanup T)"
  shows "keeps_requests fr rf S (fs_finish py E callback cleanup r x S)"
proof -
  obtain err S2 where S2: "x = Some (err, S2)" "moves S S2"
    and b: "if callback \<noteq> Py_None \<and> 0 \<le> err then rok fr rf S2 \<and> flying S2 r
      else rok fr (add_mset r rf) S2 \<and> fresh_fs loop callback r S2"
    using fs_start_ok [OF ok f x] by blast
  consider "err < 0" | "0 \<le> err" "callback \<noteq> Py_None" | "0 \<le> err" "callback = Py_None" by linarith
  then show ?thesis
  proof cases
    case 1
    then have "rok fr (add_mset r rf) S2" "\<not> flying S2 r" using b by (auto simp: fresh_fs_def fresh_req_def)
    note C = c [OF this]
    have "rok fr rf (rq_DECREF r (cleanup S2))" using C rok_DECREF by blast
    moreover have "moves S (rq_DECREF r (cleanup S2))"
      by (rule moves_trans [OF S2(2) moves_trans [OF conjunct2 [OF C] moves_DECREF]])
    ultimately show ?thesis using 1 S2(1) by (simp add: fs_finish_def keeps_requests_def)
  next
    case 2
    then have "rok fr rf S2" "flying S2 r" using b by auto
    then have "rok fr (add_mset r rf) (rq_INCREF r S2)" using rok_flying by (blast intro: rok_INCREF)
    then show ?thesis
      using 2 S2 moves_trans [OF S2(2) moves_INCREF] by (simp add: fs_finish_def keeps_requests_def Let_def)
  next
    case 3
    then have o2: "rok fr (add_mset r rf) S2" and f2: "fresh_fs loop Py_None r S2" using b by auto
    have L: "r < length (reqs S2)" "rlive (reqs S2 ! r)" using rok_in_frame [OF o2, of r] by auto
    let ?S3 = "rq_INCREF r S2"
    have o3: "rok fr (add_mset r (add_mset r rf)) ?S3" by (rule rok_INCREF [OF o2 L])
    have f3: "fresh_fs loop Py_None r ?S3" using f2 L by (simp add: fresh_fs_def fresh_req_def rq_INCREF_def upd_req_def)
    obtain S4 y where S4: "pyuv__process_fs_req py E r ?S3 = Some S4" "rok fr (add_mset r rf) S4" "moves ?S3 S4"
      "rfield_of S4 r F_result = Some y"
      using sync_result [OF o3 f3] by blast
    have r4: "r < length (reqs S4)" using rok_in_frame [OF S4(2), of r] by simp
    have "rok (add_mset y fr) (add_mset r rf) (on_core (Py_INCREF y) S4)"
      by (rule rok_core_INCREF [OF S4(2) rok_field_valid [OF S4(2) r4 S4(4)]])
    then have "rok (add_mset y fr) rf (rq_DECREF r (on_core (Py_INCREF y) S4))" by (rule rok_DECREF)
    moreover have "moves S (rq_DECREF r (on_core (Py_INCREF y) S4))"
      by (rule moves_trans [OF S2(2) moves_trans [OF moves_INCREF moves_trans [OF S4(3) moves_trans [OF moves_core_DECREF(3) moves_DECREF]]]])
    ultimately show ?thesis using 3 S2(1) S4 by (simp add: fs_finish_def keeps_requests_def Let_def)
  qed
qed

lemma fs_request_ok:
  assumes ok: "rok fr rf S" and v: "valid (core S) loop" "\<And>c. cb = Some c \<Longrightarrow> valid (core S) c"
    and s: "\<And>r b T. r < length (reqs T) \<Longrightarrow> fs_started E loop r b T (start loop r b T)"
  shows "keeps_requests fr rf S (fs_request py E loop cb start S)"
proof -
  define c where "c = (case cb of None \<Rightarrow> Py_None | Some c \<Rightarrow> c)"
  let ?r = "length (reqs S)"
  have vc: "valid (core S) c" using v(2) rok_none [OF ok] by (cases cb) (auto simp: c_def)
  show ?thesis
  proof (cases "c \<noteq> Py_None \<and> \<not> rq_callable S c")
    case True
    then have "fs_request py E loop cb start S = (Raise TypeError, S)"
      unfolding fs_request_def Let_def c_def [symmetric] by simp
    then show ?thesis using keeps_requests_raise [OF ok moves_refl] by simp
  next
    case False
    obtain S1 where S1: "new_FSRequest loop c S = (Ok ?r, S1)" "rok fr (add_mset ?r rf) S1" "moves S S1" "fresh_fs loop c ?r S1"
      using new_FSRequest_ok [OF ok v(1) vc] by blast
    have r1: "?r < length (reqs S1)" using rok_in_frame [OF S1(2), of ?r] by simp
    have "keeps_requests fr rf S1 (fs_finish py E c id ?r (start loop ?r (c \<noteq> Py_None) S1) S1)"
      by (rule fs_finish_ok [OF S1(2,4) s [OF r1]]) simp
    moreover have "fs_request py E loop cb start S = fs_finish py E c id ?r (start loop ?r (c \<noteq> Py_None) S1) S1"
      unfolding fs_request_def Let_def c_def [symmetric] S1(1) prod.case result.case by (simp only: False if_False)
    ultimately show ?thesis using keeps_requests_trans [OF S1(3)] by simp
  qed
qed

end

end
