(* ===== verification/Request_Methods.thy ===== *)
theory Request_Methods
  imports Request_Api
begin

text \<open>
  Every method that starts a request, cancels it or reads it keeps the invariant of the requests,
  whatever Python program runs.
\<close>

section \<open>The functions of fs.c\<close>

named_theorems fs_func_defs \<open>the functions of src/fs.c that only start a request\<close>

lemmas [fs_func_defs] = FS_func_stat_def FS_func_lstat_def pyuv__fs_stat_def FS_func_fstat_def FS_func_unlink_def
  FS_func_mkdir_def FS_func_rmdir_def FS_func_rename_def FS_func_chmod_def FS_func_fchmod_def FS_func_link_def
  FS_func_symlink_def FS_func_readlink_def FS_func_chown_def FS_func_fchown_def FS_func_open_def FS_func_close_def
  FS_func_fsync_def FS_func_fdatasync_def FS_func_ftruncate_def FS_func_scandir_def FS_func_sendfile_def
  FS_func_utime_def FS_func_futime_def FS_func_access_def FS_func_realpath_def

context request_program
begin

lemma FS_funcs_ok:
  assumes ok: "rok fr rf S" and v: "valid (core S) loop" "\<And>c. cb = Some c \<Longrightarrow> valid (core S) c"
  shows "keeps_requests fr rf S (FS_func_stat py E (Inr (loop, path, cb)) S)"
    "keeps_requests fr rf S (FS_func_lstat py E (Inr (loop, path, cb)) S)"
    "keeps_requests fr rf S (FS_func_fstat py E (Inr (loop, fd, cb)) S)"
    "keeps_requests fr rf S (FS_func_unlink py E (Inr (loop, path, cb)) S)"
    "keeps_requests fr rf S (FS_func_mkdir py E (Inr (loop, path, mode, cb)) S)"
    "keeps_requests fr rf S (FS_func_rmdir py E (Inr (loop, path, cb)) S)"
    "keeps_requests fr rf S (FS_func_rename py E (Inr (loop, path, path2, cb)) S)"
    "keeps_requests fr rf S (FS_func_chmod py E (Inr (loop, path, mode, cb)) S)"
    "keeps_requests fr rf S (FS_func_fchmod py E (Inr (loop, fd, mode, cb)) S)"
    "keeps_requests fr rf S (FS_func_link py E (Inr (loop, path, path2, cb)) S)"
    "keeps_requests fr rf S (FS_func_symlink py E (Inr (loop, path, path2, flags, cb)) S)"
    "keeps_requests fr rf S (FS_func_readlink py E (Inr (loop, path, cb)) S)"
    "keeps_requests fr rf S (FS_func_chown py E (Inr (loop, path, uid, gid, cb)) S)"
    "keeps_requests fr rf S (FS_func_fchown py E (Inr (loop, fd, uid, gid, cb)) S)"
    "keeps_requests fr rf S (FS_func_open py E (Inr (loop, path, flags, mode, cb)) S)"
    "keeps_requests fr rf S (FS_func_close py E (Inr (loop, fd, cb)) S)"
    "keeps_requests fr rf S (FS_func_fsync py E (Inr (loop, fd, cb)) S)"
    "keeps_requests fr rf S (FS_func_fdatasync py E (Inr (loop, fd, cb)) S)"
    "keeps_requests fr rf S (FS_func_ftruncate py E (Inr (loop, fd, off, cb)) S)"
    "keeps_requests fr rf S (FS_func_scandir py E (Inr (loop, path, cb)) S)"
    "keeps_requests fr rf S (FS_func_sendfile py E (Inr (loop, fd, fd2, off, len, cb)) S)"
    "keeps_requests fr rf S (FS_func_utime py E (Inr (loop, path, atime, mtime, cb)) S)"
    "keeps_requests fr rf S (FS_func_futime py E (Inr (loop, fd, atime, mtime, cb)) S)"
    "keeps_requests fr rf S (FS_func_access py E (Inr (loop, path, flags, cb)) S)"
    "keeps_requests fr rf S (FS_func_realpath py E (Inr (loop, path, cb)) S)"
  unfolding fs_func_defs rq_parse_def sum.case prod.case
  by ((rule fs_request_ok [OF ok v], assumption?, simp add: starts)+)

lemma keeps_requests_fresh:
  assumes ok: "rok fr rf S" and v: "valid (core S) loop" "valid (core S) c"
    and k: "\<And>S1. new_FSRequest loop c S = (Ok (length (reqs S)), S1) \<Longrightarrow> rok fr (add_mset (length (reqs S)) rf) S1 \<Longrightarrow>
      moves S S1 \<Longrightarrow> fresh_fs loop c (length (reqs S)) S1 \<Longrightarrow> length (reqs S) < length (reqs S1) \<Longrightarrow>
      view (reqs S1 ! length (reqs S)) = None \<Longrightarrow> keeps_requests fr' rf S1 (f (length (reqs S)) S1)"
  shows "keeps_requests fr' rf S (case new_FSRequest loop c S of
      (Raise e, S1) \<Rightarrow> g e S1 | (Abort, S1) \<Rightarrow> h S1 | (Ok r, S1) \<Rightarrow> f r S1)"
proof -
  obtain S1 where S1: "new_FSRequest loop c S = (Ok (length (reqs S)), S1)" "rok fr (add_mset (length (reqs S)) rf) S1"
    "moves S S1" "fresh_fs loop c (length (reqs S)) S1" "view (reqs S1 ! length (reqs S)) = None"
    using new_FSRequest_ok [OF ok v] by blast
  have "length (reqs S) < length (reqs S1)" using rok_in_frame [OF S1(2), of "length (reqs S)"] by simp
  then show ?thesis using keeps_requests_trans [OF S1(3) k [OF S1(1-4)]] S1(1,5) by simp
qed

lemma FS_func_read_ok:
  assumes ok: "rok fr rf S" and v: "valid (core S) loop" "\<And>c. cb = Some c \<Longrightarrow> valid (core S) c"
  shows "keeps_requests fr rf S (FS_func_read py E (Inr (loop, fd, len, off, cb)) S)"
proof -
  define c where "c = (case cb of None \<Rightarrow> Py_None | Some c \<Rightarrow> c)"
  have vc: "valid (core S) c" using v(2) rok_none [OF ok] by (cases cb) (auto simp: c_def)
  have "keeps_requests fr rf S (case new_FSRequest loop c S of
      (Raise e, S1) \<Rightarrow> (Raise e, S1) | (Abort, S1) \<Rightarrow> (Abort, S1)
    | (Ok r, S1) \<Rightarrow> if len < 0 \<or> \<not> o_pymem E then (Raise MemoryError, rq_DECREF r S1)
        else fs_finish py E c id r (uv_fs_read E (uv_file fd) [nat len] off loop r (c \<noteq> Py_None) S1) S1)"
  proof (rule keeps_requests_fresh [OF ok v(1) vc])
    fix S1 let ?r = "length (reqs S)"
    assume o1: "rok fr (add_mset ?r rf) S1" and f: "fresh_fs loop c ?r S1" and r: "?r < length (reqs S1)"
    have "keeps_requests fr rf S1 (Raise MemoryError, rq_DECREF ?r S1)"
      by (rule keeps_requests_raise [OF rok_DECREF [OF o1] moves_DECREF])
    moreover have "keeps_requests fr rf S1
        (fs_finish py E c id ?r (uv_fs_read E (uv_file fd) [nat len] off loop ?r (c \<noteq> Py_None) S1) S1)"
      by (rule fs_finish_ok [OF o1 f starts(16) [OF r]]) simp
    ultimately show "keeps_requests fr rf S1 (if len < 0 \<or> \<not> o_pymem E then (Raise MemoryError, rq_DECREF ?r S1)
        else fs_finish py E c id ?r (uv_fs_read E (uv_file fd) [nat len] off loop ?r (c \<noteq> Py_None) S1) S1)"
      by simp
  qed
  then show ?thesis
    using keeps_requests_raise [OF ok moves_refl]
    unfolding FS_func_read_def rq_parse_def sum.case prod.case Let_def c_def [symmetric] by simp
qed

text \<open>The buffer that \<open>write\<close> parses: its reference goes to the request.\<close>

lemma rok_view:
  assumes ok: "rok (add_mset x fr) rf S" and r: "r < length (reqs S)" and n: "\<not> flying S r" "view (reqs S ! r) = None"
  shows "rok fr rf (upd_req r (\<lambda>q. q\<lparr>view := Some x\<rparr>) S)"
  by (rule rok_request [OF ok r, where q = "(reqs S ! r)\<lparr>view := Some x\<rparr>"])
    (use rokD(3) [OF ok r] n in \<open>auto simp: upd_req_def refs_of_def field_refs_def req_ok_def ac_simps\<close>)

lemma FS_func_write_ok:
  assumes ok: "rok fr rf S" and v: "valid (core S) loop" "valid (core S) data" "\<And>c. cb = Some c \<Longrightarrow> valid (core S) c"
  shows "keeps_requests fr rf S (FS_func_write py E (Inr (loop, fd, (data, len), off, cb)) S)"
proof -
  define c where "c = (case cb of None \<Rightarrow> Py_None | Some c \<Rightarrow> c)"
  let ?S0 = "on_core (Py_INCREF data) S"
  have o0: "rok (add_mset data fr) rf ?S0" by (rule rok_core_INCREF [OF ok v(2)])
  have v0: "valid (core ?S0) loop" "valid (core ?S0) c"
    using v rok_none [OF ok] by (cases cb; auto simp: c_def on_core_def)+
  have "keeps_requests fr rf ?S0 (case new_FSRequest loop c ?S0 of
      (Raise e, S1) \<Rightarrow> (Raise e, on_core (Py_DECREF data) S1) | (Abort, S1) \<Rightarrow> (Abort, S1)
    | (Ok r, S1) \<Rightarrow> if c \<noteq> Py_None \<and> \<not> rq_callable S1 c then (Raise TypeError, rq_DECREF r (on_core (Py_DECREF data) S1))
        else let S2 = upd_req r (\<lambda>q. q\<lparr>view := Some data\<rparr>) S1
             in fs_finish py E c (PyBuffer_Release r) r (uv_fs_write E (uv_file fd) [len] off loop r (c \<noteq> Py_None) S2) S2)"
  proof (rule keeps_requests_fresh [OF o0 v0])
    fix S1 let ?r = "length (reqs ?S0)"
    assume o1: "rok (add_mset data fr) (add_mset ?r rf) S1" and f: "fresh_fs loop c ?r S1" and r: "?r < length (reqs S1)"
      and n: "view (reqs S1 ! ?r) = None"
    let ?S2 = "upd_req ?r (\<lambda>q. q\<lparr>view := Some data\<rparr>) S1"
    have nf: "\<not> flying S1 ?r" using f by (simp add: fresh_fs_def fresh_req_def)
    have o2: "rok fr (add_mset ?r rf) ?S2" by (rule rok_view [OF o1 r nf n])
    have m2: "moves S1 ?S2" by (rule moves_upd_req) (simp add: keeps_request_def)
    have f2: "fresh_fs loop c ?r ?S2" using f r by (simp add: fresh_fs_def fresh_req_def upd_req_def)
    have r2: "?r < length (reqs ?S2)" using r by (simp add: upd_req_def)
    have clean: "rok fr (add_mset ?r rf) (PyBuffer_Release ?r T) \<and> moves T (PyBuffer_Release ?r T)"
      if T: "rok fr (add_mset ?r rf) T" "\<not> flying T ?r" for T
      using rok_buffer_release [OF T(1) _ T(2)] rok_in_frame [OF T(1), of ?r] by simp
    have "keeps_requests fr rf ?S2
        (fs_finish py E c (PyBuffer_Release ?r) ?r (uv_fs_write E (uv_file fd) [len] off loop ?r (c \<noteq> Py_None) ?S2) ?S2)"
      by (rule fs_finish_ok [OF o2 f2 starts(27) [OF r2] clean])
    moreover have "keeps_requests fr rf S1 (Raise TypeError, rq_DECREF ?r (on_core (Py_DECREF data) S1))"
      by (rule keeps_requests_raise [OF rok_DECREF [OF rok_core_DECREF [OF o1]]
            moves_trans [OF moves_core_DECREF(1) moves_DECREF]])
    ultimately show "keeps_requests fr rf S1 (if c \<noteq> Py_None \<and> \<not> rq_callable S1 c
        then (Raise TypeError, rq_DECREF ?r (on_core (Py_DECREF data) S1))
        else let S2 = ?S2
             in fs_finish py E c (PyBuffer_Release ?r) ?r (uv_fs_write E (uv_file fd) [len] off loop ?r (c \<noteq> Py_None) S2) S2)"
      using keeps_requests_trans [OF m2] by (simp add: Let_def)
  qed
  then show ?thesis
    using keeps_requests_trans [OF moves_core_DECREF(3) [of S data]]
    unfolding FS_func_write_def rq_parse_def sum.case prod.case Let_def c_def [symmetric] by blast
qed

end

section \<open>queue\_work and cancel\<close>

lemma Loop_func_queue_work_ok:
  assumes ok: "rok fr rf S" and v: "valid (core S) self" "valid (core S) f" "\<And>c. cb = Some c \<Longrightarrow> valid (core S) c"
  shows "moves S (snd (Loop_func_queue_work self (Inr (f, cb)) S)) \<and>
    (case Loop_func_queue_work self (Inr (f, cb)) S of
       (Ok r, S') \<Rightarrow> rok fr (add_mset r rf) S' | (Raise e, S') \<Rightarrow> rok fr rf S' | (Abort, S') \<Rightarrow> False)"
proof -
  define c where "c = (case cb of None \<Rightarrow> Py_None | Some c \<Rightarrow> c)"
  let ?r = "length (reqs S)"
  have vc: "valid (core S) c" using v(3) rok_none [OF ok] by (cases cb) (auto simp: c_def)
  obtain S1 where S1: "new_WorkRequest self f c S = (Ok ?r, S1)" "rok fr (add_mset ?r rf) S1" "moves S S1"
    "fresh_req WorkRequest self ?r S1" "rfield_of S1 ?r F_work_cb = Some f" "rfield_of S1 ?r F_done_cb = Some c"
    using new_WorkRequest_ok [OF ok v(1,2) vc] by blast
  have r1: "?r < length (reqs S1)" using rok_in_frame [OF S1(2), of ?r] by simp
  let ?S2 = "on_core (uv__req_register self) S1"
  let ?S3 = "upd_req ?r (\<lambda>q. q\<lparr>typed := True\<rparr>) ?S2"
  have F: "\<not> flying S1 ?r" "\<not> reported (thr_pool S1) ?r" using S1(4) by (simp_all add: fresh_req_def)
  have o2: "rok fr (add_mset ?r rf) ?S2" by (rule rok_core_register(1) [OF S1(2)])
  have o3: "rok fr (add_mset ?r rf) ?S3" by (rule rok_upd_req [OF o2]) (use F r1 in \<open>simp_all add: on_core_def\<close>)
  have j: "job_ok (reqs ?S3 ! ?r) \<lparr>w_loop = self, w_work = WorkFn, w_linked = True\<rparr>"
    using S1(4-6) r1 by (simp add: job_ok_def fresh_req_def upd_req_def on_core_def)
  have n3: "\<not> flying ?S3 ?r" "\<not> reported (thr_pool ?S3) ?r" using F by (simp_all add: upd_req_def on_core_def)
  note R = rok_submit [OF o3 n3 j]
  let ?S4 = "on_pool (uv__work_submit self ?r) ?S3"
  have fl: "flying ?S4 ?r" by (simp add: on_pool_def in_pool_submit)
  have o5: "rok fr (add_mset ?r rf) (rq_INCREF ?r ?S4)"
    using rok_INCREF [OF R(1)] rok_flying [OF R(1) fl] by blast
  have m3: "moves ?S2 ?S3" by (rule moves_upd_req) (simp add: keeps_request_def)
  have m5: "moves S (rq_INCREF ?r ?S4)"
    by (rule moves_trans [OF S1(3) moves_trans [OF moves_register(1) moves_trans [OF m3 moves_trans [OF R(2) moves_INCREF]]]])
  have e: "Loop_func_queue_work self (Inr (f, cb)) S =
      (if \<not> rq_callable S f \<or> (c \<noteq> Py_None \<and> \<not> rq_callable S c) then (Raise TypeError, S) else (Ok ?r, rq_INCREF ?r ?S4))"
    unfolding Loop_func_queue_work_def rq_parse_def sum.case prod.case Let_def c_def [symmetric] S1(1) result.case uv_queue_work_def
    by (simp split: if_splits)
  show ?thesis unfolding e using ok o5 m5 by simp
qed

text \<open>
  \<open>cancel\<close> does no harm but in one state: the callback of a request that was cancelled is running,
  so that \<open>req_ptr\<close> is still set and the work is unlinked from no queue but looks linked.
\<close>

definition cancel_harms :: "rworld \<Rightarrow> nat \<Rightarrow> bool" where
  "cancel_harms S r \<longleftrightarrow> req_ptr (reqs S ! r) \<and> reported (thr_pool S) r \<and> w_work (works (thr_pool S) r) = WorkCancelled"

lemma Request_func_cancel_ok:
  assumes ok: "rok fr rf S" and n: "\<not> cancel_harms S r"
  shows "rok fr rf (snd (Request_func_cancel r S)) \<and> moves S (snd (Request_func_cancel r S))"
proof (cases "req_ptr (reqs S ! r) \<and> typed (reqs S ! r)")
  case False
  then show ?thesis using ok by (auto simp: Request_func_cancel_def uv_cancel_def)
next
  case True
  then have e: "snd (Request_func_cancel r S) = on_pool (\<lambda>_. snd (uv__work_cancel r (thr_pool S))) S"
    by (simp add: Request_func_cancel_def uv_cancel_def split: prod.splits)
  show ?thesis
  proof (cases "flying S r")
    case True
    then show ?thesis unfolding e using rok_cancel [OF ok] by blast
  next
    case False
    have "w_work (works (thr_pool S) r) = WorkNull"
      using False n True pool_okD(7) [OF rokD(2) [OF ok], of r]
      by (auto simp: work_ok_def cancel_harms_def in_pool_eq statuses_reported)
    then have "on_pool (\<lambda>_. snd (uv__work_cancel r (thr_pool S))) S = S" by (simp add: uv__work_cancel_def on_pool_def)
    then show ?thesis unfolding e using ok by simp
  qed
qed

section \<open>Attributes\<close>

lemma get_or_none_ok:
  assumes ok: "rok fr rf S" and r: "r < length (reqs S)" and g: "get_or_none f r S = (x, S')"
  shows "rok (add_mset x fr) rf S' \<and> moves S S'"
proof -
  have "S' = on_core (Py_INCREF x) S \<and> valid (core S) x"
    using g rok_field_valid [OF ok r] rok_none [OF ok] by (auto simp: get_or_none_def split: option.splits)
  then show ?thesis using rok_core_INCREF [OF ok] moves_core_DECREF(3) by blast
qed

text \<open>The dictionary of a request, in flight or not.\<close>

lemma refs_of_assign:
  assumes "f \<in> set (request_tp_clear (rclass q))"
  shows "refs_of (q\<lparr>rfields := (rfields q)(f := Some v)\<rparr>) + mset_opt (rfields q f) = add_mset v (refs_of q)"
proof -
  let ?q0 = "q\<lparr>rfields := (rfields q)(f := None)\<rparr>"
  have a: "refs_of (q\<lparr>rfields := (rfields q)(f := Some x)\<rparr>) = add_mset x (refs_of ?q0)" for x
    using refs_of_put [of ?q0 f x] assms by simp
  have "refs_of q = mset_opt (rfields q f) + refs_of ?q0"
  proof (cases "rfields q f")
    case None
    then have "(rfields q)(f := None) = rfields q" by auto
    then show ?thesis using None by simp
  next
    case (Some y)
    then have "(rfields q)(f := Some y) = rfields q" by auto
    then show ?thesis using a [of y] Some by simp
  qed
  then show ?thesis using a [of v] by simp
qed

lemma rok_put_dict:
  assumes ok: "rok (add_mset v fr) rf S" and r: "r < length (reqs S)" "rlive (reqs S ! r)"
  shows "rok (mset_opt (rfield_of S r F_dict) + fr) rf (rq_put r F_dict (Some v) S)" and "moves S (rq_put r F_dict (Some v) S)"
proof -
  let ?q = "(reqs S ! r)\<lparr>rfields := (rfields (reqs S ! r))(F_dict := Some v)\<rparr>"
  have d: "F_dict \<in> set (request_tp_clear (rclass (reqs S ! r)))"
    by (cases "rclass (reqs S ! r)") (simp_all add: request_clear_defs)
  show "rok (mset_opt (rfield_of S r F_dict) + fr) rf (rq_put r F_dict (Some v) S)"
  proof (rule rok_request [OF ok r(1), where q = ?q])
    show "ok (refs_of ?q + M + (mset_opt (rfield_of S r F_dict) + fr)) (core (rq_put r F_dict (Some v) S))"
      if "ok (refs_of (reqs S ! r) + M + add_mset v fr) (core S)" for M
    proof -
      have "refs_of ?q + M + (mset_opt (rfield_of S r F_dict) + fr)
          = (refs_of ?q + mset_opt (rfield_of S r F_dict)) + (M + fr)" by (simp add: ac_simps)
      also have "\<dots> = refs_of (reqs S ! r) + M + add_mset v fr" unfolding refs_of_assign [OF d, of v] by simp
      finally have e: "refs_of ?q + M + (mset_opt (rfield_of S r F_dict) + fr) = refs_of (reqs S ! r) + M + add_mset v fr" .
      show ?thesis unfolding e using that by (simp add: rq_put_def upd_req_def)
    qed
    show "req_ok (rext S r + count rf r) (flying S r) (works (thr_pool S) r) ?q"
      using rokD(3) [OF ok r(1)] r(2) d by (auto simp: req_ok_def job_ok_def split: req_class.splits)
  qed (simp_all add: rq_put_def upd_req_def)
  show "moves S (rq_put r F_dict (Some v) S)"
    unfolding rq_put_def by (rule moves_upd_req) (simp add: keeps_request_def)
qed

lemma Request_dict_get_ok:
  assumes ok: "rok fr rf S" and r: "r < length (reqs S)" "rlive (reqs S ! r)" and g: "Request_dict_get r S = (x, S')"
  shows "rok (add_mset x fr) rf S' \<and> moves S S'"
proof (cases "rfield_of S r F_dict")
  case (Some d)
  then have "x = d" "S' = on_core (Py_INCREF d) S" using g by (auto simp: Request_dict_get_def)
  then show ?thesis using rok_core_INCREF [OF ok rok_field_valid [OF ok r(1) Some]] moves_core_DECREF(3) by simp
next
  case None
  obtain d w1 where n: "PyType_GenericNew (KObject False) (core S) = (d, w1)" by fastforce
  let ?S1 = "on_core (\<lambda>_. w1) S"
  have o1: "rok (add_mset d fr) rf ?S1"
  proof (rule rok_core [OF ok])
    show "ok (M + add_mset d fr) w1" if "ok (M + fr) (core S)" for M
    proof -
      have "ok (add_mset d (M + fr)) w1" using ok_GenericNew_object [OF that n] by blast
      then show ?thesis by simp
    qed
  qed
  have m1: "moves S ?S1" by (rule moves_on_core) (use ok_GenericNew_object [OF rokD(1) [OF ok] n] in simp)
  have r1: "r < length (reqs ?S1)" "rlive (reqs ?S1 ! r)" using r by (simp_all add: on_core_def)
  let ?S2 = "rq_put r F_dict (Some d) ?S1"
  have o2: "rok fr rf ?S2" using rok_put_dict(1) [OF o1 r1] None by (simp add: on_core_def)
  have "rfield_of ?S2 r F_dict = Some d" "r < length (reqs ?S2)" using r1 by (simp_all add: rq_put_def upd_req_def)
  then have "valid (core ?S2) d" using rok_field_valid [OF o2] by blast
  then have "rok (add_mset d fr) rf (on_core (Py_INCREF d) ?S2)" by (rule rok_core_INCREF [OF o2])
  moreover have "x = d" "S' = on_core (Py_INCREF d) ?S2" using g None n by (auto simp: Request_dict_get_def)
  moreover have "moves S (on_core (Py_INCREF d) ?S2)"
    by (rule moves_trans [OF m1 moves_trans [OF rok_put_dict(2) [OF o1 r1] moves_core_DECREF(3)]])
  ultimately show ?thesis by simp
qed

lemma Request_dict_set_ok:
  assumes ok: "rok fr rf S" and r: "r < length (reqs S)" "rlive (reqs S ! r)" and v: "\<And>x. val = Some x \<Longrightarrow> valid (core S) x"
  shows "rok fr rf (snd (Request_dict_set is_dict r val S)) \<and> moves S (snd (Request_dict_set is_dict r val S))"
proof (cases "\<exists>x. val = Some x \<and> is_dict x")
  case False
  then show ?thesis using ok by (auto simp: Request_dict_set_def split: option.splits)
next
  case True
  then obtain x where x: "val = Some x" "is_dict x" by blast
  let ?S1 = "on_core (Py_INCREF x) S"
  let ?old = "rfield_of S r F_dict"
  have o1: "rok (add_mset x fr) rf ?S1" by (rule rok_core_INCREF [OF ok v [OF x(1)]])
  have r1: "r < length (reqs ?S1)" "rlive (reqs ?S1 ! r)" using r by (simp_all add: on_core_def)
  let ?S2 = "rq_put r F_dict (Some x) ?S1"
  have o2: "rok (mset_opt ?old + fr) rf ?S2" using rok_put_dict(1) [OF o1 r1] by (simp add: on_core_def)
  have e: "snd (Request_dict_set is_dict r val S) = on_core (Py_XDECREF ?old) ?S2"
    using x by (simp add: Request_dict_set_def rq_assign_def Let_def)
  have "rok fr rf (on_core (Py_XDECREF ?old) ?S2) \<and> moves ?S2 (on_core (Py_XDECREF ?old) ?S2)"
    using o2 rok_core_DECREF moves_core_DECREF(1) by (cases ?old) (auto simp: Py_XDECREF_def on_core_def)
  then show ?thesis
    unfolding e using moves_trans [OF moves_core_DECREF(3) moves_trans [OF rok_put_dict(2) [OF o1 r1]]] by blast
qed

end
