(* ===== verification/Request_Names.thy ===== *)
theory Request_Names
  imports Request_Methods
begin

text \<open>
  Name resolution keeps the invariant of the requests, where the functions of src/dns.c do not leak: a
  \<open>getaddrinfo\<close> that has encoded its host name and cannot encode its service name keeps the bytes, and a
  synchronous \<open>getnameinfo\<close> keeps its request.
\<close>

section \<open>The functions of libuv\<close>

text \<open>The change of a request that only sets up what libuv has in it.\<close>

definition only_sets_up :: "(request \<Rightarrow> request) \<Rightarrow> bool" where
  "only_sets_up f \<longleftrightarrow> (\<forall>q. rclass (f q) = rclass q \<and> rrefcnt (f q) = rrefcnt q \<and> rlive (f q) = rlive q \<and>
     rinit (f q) = rinit q \<and> rfields (f q) = rfields q \<and> view (f q) = view q)"

lemma rok_sets_up:
  assumes "rok fr (add_mset r rf) S" and "\<not> flying S r" and "only_sets_up f"
  shows "rok fr (add_mset r rf) (upd_req r f S)" "moves S (upd_req r f S)" "\<not> flying (upd_req r f S) r"
    "reported (thr_pool (upd_req r f S)) r = reported (thr_pool S) r" "reqs (upd_req r f S) ! r = f (reqs S ! r)"
proof -
  have r: "r < length (reqs S)" using rok_in_frame [OF assms(1), of r] by simp
  show "rok fr (add_mset r rf) (upd_req r f S)"
    by (rule rok_upd_req [OF assms(1) r assms(2)]) (use assms(3) in \<open>simp add: only_sets_up_def\<close>)
  show "moves S (upd_req r f S)"
    by (rule moves_upd_req) (use assms(3) in \<open>simp add: keeps_request_def only_sets_up_def\<close>)
qed (use assms(2) rok_in_frame [OF assms(1), of r] in \<open>simp_all add: upd_req_def\<close>)

lemma rok_registered:
  assumes "rok fr (add_mset r rf) S"
  shows "rok fr (add_mset r rf) (on_core (uv__req_register l) S)" "moves S (on_core (uv__req_register l) S)"
    "rok fr (add_mset r rf) (on_core (uv__req_unregister l) S)" "moves S (on_core (uv__req_unregister l) S)"
  using assms rok_core_register moves_register by blast+

text \<open>What an asynchronous request leaves when the caller takes its reference.\<close>

lemma rok_in_flight:
  assumes ok: "rok fr (add_mset r rf) S" and n: "\<not> flying S r" "\<not> reported (thr_pool S) r"
    and j: "job_ok (reqs S ! r) \<lparr>w_loop = l, w_work = WorkFn, w_linked = True\<rparr>"
  shows "rok fr (add_mset r rf) (rq_INCREF r (on_pool (uv__work_submit l r) S))"
    and "moves S (on_pool (uv__work_submit l r) S)"
proof -
  note R = rok_submit [OF ok n j]
  have "flying (on_pool (uv__work_submit l r) S) r" by (simp add: on_pool_def in_pool_submit)
  then show "rok fr (add_mset r rf) (rq_INCREF r (on_pool (uv__work_submit l r) S))"
    using rok_INCREF [OF R(1)] rok_flying [OF R(1)] by blast
qed (rule rok_submit(2) [OF ok n j])

definition dns_started :: "oid multiset \<Rightarrow> nat multiset \<Rightarrow> nat \<Rightarrow> bool \<Rightarrow> rworld \<Rightarrow> (int \<times> rworld) option \<Rightarrow> bool" where
  "dns_started fr rf r cb S x \<longleftrightarrow>
     (\<forall>err S'. x = Some (err, S') \<longrightarrow> moves S S' \<and>
        rok fr (add_mset r rf) (if cb \<and> 0 \<le> err then rq_INCREF r S' else S'))"

text \<open>The two functions: a registered request is handed to the pool, or the work is done at once.\<close>

lemma dns_started_request:
  assumes ok: "rok fr (add_mset r rf) S" and n: "\<not> flying S r" "\<not> reported (thr_pool S) r" and f: "only_sets_up f"
    and j: "job_ok (f (reqs S ! r)) \<lparr>w_loop = loop, w_work = WorkFn, w_linked = True\<rparr>"
    and x: "cb \<Longrightarrow> x = Some (0, on_pool (uv__work_submit loop r) (upd_req r f (on_core (uv__req_register loop) S)))"
      "\<not> cb \<Longrightarrow> x = None \<or> (\<exists>err g. only_sets_up g \<and> x = Some (err,
         on_core (uv__req_unregister loop) (upd_req r g (upd_req r f (on_core (uv__req_register loop) S)))))"
  shows "dns_started fr rf r cb S x"
proof -
  let ?S1 = "on_core (uv__req_register loop) S"
  let ?S2 = "upd_req r f ?S1"
  have n1: "\<not> flying ?S1 r" "\<not> reported (thr_pool ?S1) r" using n by (simp_all add: on_core_def)
  note U = rok_sets_up [OF rok_registered(1) [OF ok] n1(1) f]
  have m2: "moves S ?S2" by (rule moves_trans [OF moves_register(1) U(2)])
  show ?thesis
  proof (cases cb)
    case True
    have j2: "job_ok (reqs ?S2 ! r) \<lparr>w_loop = loop, w_work = WorkFn, w_linked = True\<rparr>"
      using U(5) j by (simp add: on_core_def)
    have r2: "\<not> reported (thr_pool ?S2) r" using U(4) n1(2) by simp
    note F = rok_in_flight [OF U(1) U(3) r2 j2]
    show ?thesis unfolding dns_started_def x(1) [OF True] using True F(1) moves_trans [OF m2 F(2)] by simp
  next
    case False
    have "rok fr (add_mset r rf) (on_core (uv__req_unregister loop) (upd_req r g ?S2)) \<and>
        moves S (on_core (uv__req_unregister loop) (upd_req r g ?S2))" if "only_sets_up g" for g
      using rok_sets_up [OF U(1,3) that] rok_registered(3)
        moves_trans [OF m2 moves_trans [OF rok_sets_up(2) [OF U(1,3) that] moves_register(2)]] by blast
    then show ?thesis using x(2) [OF False] False by (auto simp: dns_started_def)
  qed
qed

lemma uv_getaddrinfo_ok:
  assumes ok: "rok fr (add_mset r rf) S" and f: "fresh_req GAIRequest loop r S" and c: "rfield_of S r F_callback \<noteq> None"
  shows "dns_started fr rf r cb S (uv_getaddrinfo mem a hostname service hints loop r cb S)"
proof (cases "hostname = None \<and> service = None \<or> \<not> mem")
  case True
  then show ?thesis using ok by (auto simp: uv_getaddrinfo_def dns_started_def UV_EINVAL_def UV_ENOMEM_def)
next
  case False
  define f' where "f' = (\<lambda>q :: request. q\<lparr>typed := True, r_gai := (r_gai q)\<lparr>gai_loop := loop, gai_cb := cb, gai_addrinfo := [],
      gai_hints := Some hints, gai_service := service, gai_hostname := hostname, gai_retcode := 0\<rparr>\<rparr>)"
  have F: "only_sets_up f'" by (simp add: only_sets_up_def f'_def)
  have G: "only_sets_up (\<lambda>q. q\<lparr>r_gai := h q\<rparr>)" for h by (simp add: only_sets_up_def)
  note Fr = f [unfolded fresh_req_def]
  let ?S1 = "upd_req r f' (on_core (uv__req_register loop) S)"
  have comm: "on_core (uv__req_register loop) (upd_req r f' S) = ?S1" by (simp add: on_core_def upd_req_def)
  have h: "(hostname = None \<and> service = None) = False" "mem = True" using False by simp_all
  let ?x = "uv_getaddrinfo mem a hostname service hints loop r cb S"
  have e: "?x =
      (if cb then Some (0, on_pool (uv__work_submit loop r) ?S1)
       else case Option.bind (uv__getaddrinfo_work a (r_gai (reqs ?S1 ! r))) (uv__getaddrinfo_done 0) of
              None \<Rightarrow> None
            | Some u \<Rightarrow> Some (gai_retcode u, on_core (uv__req_unregister loop) (upd_gai r (\<lambda>_. u) ?S1)))"
    by (simp only: uv_getaddrinfo_def h not_True_eq_False if_False Let_def f'_def [symmetric] comm)
  show ?thesis
  proof (rule dns_started_request [OF ok _ _ F])
    show "job_ok (f' (reqs S ! r)) \<lparr>w_loop = loop, w_work = WorkFn, w_linked = True\<rparr>"
      using Fr c by (simp add: job_ok_def f'_def)
  next
    assume n: "\<not> cb"
    show "?x = None \<or> (\<exists>err g. only_sets_up g \<and> ?x = Some (err, on_core (uv__req_unregister loop) (upd_req r g ?S1)))"
    proof (cases "Option.bind (uv__getaddrinfo_work a (r_gai (reqs ?S1 ! r))) (uv__getaddrinfo_done 0)")
      case None
      then show ?thesis using n e by simp
    next
      case (Some u)
      then have "?x = Some (gai_retcode u, on_core (uv__req_unregister loop) (upd_req r (\<lambda>q. q\<lparr>r_gai := u\<rparr>) ?S1))"
        using n e by (simp add: upd_gai_def)
      then show ?thesis using G [of "\<lambda>_. u"] by blast
    qed
  qed (use Fr e in simp_all)
qed

lemma uv_getnameinfo_ok:
  assumes ok: "rok fr (add_mset r rf) S" and f: "fresh_req GNIRequest loop r S" and c: "rfield_of S r F_callback \<noteq> None"
  shows "dns_started fr rf r cb S (uv_getnameinfo a addr flags loop r cb S)"
proof (cases "is_AF_OTHER addr")
  case True
  then show ?thesis using ok by (auto simp: uv_getnameinfo_def dns_started_def UV_EINVAL_def)
next
  case False
  define f' where "f' = (\<lambda>q :: request. q\<lparr>typed := True, r_gni := (r_gni q)\<lparr>gni_storage := addr, gni_cb := cb, gni_flags := flags,
      gni_loop := loop, gni_retcode := 0\<rparr>\<rparr>)"
  have F: "only_sets_up f'" by (simp add: only_sets_up_def f'_def)
  have G: "only_sets_up (\<lambda>q. q\<lparr>r_gni := h q\<rparr>)" for h by (simp add: only_sets_up_def)
  note Fr = f [unfolded fresh_req_def]
  let ?S1 = "upd_req r f' (on_core (uv__req_register loop) S)"
  let ?x = "uv_getnameinfo a addr flags loop r cb S"
  have e: "?x =
      (if cb then Some (0, on_pool (uv__work_submit loop r) ?S1)
       else case Option.bind (uv__getnameinfo_work a (r_gni (reqs ?S1 ! r))) (uv__getnameinfo_done 0) of
              None \<Rightarrow> None
            | Some (u, _) \<Rightarrow> Some (gni_retcode u, on_core (uv__req_unregister loop) (upd_gni r (\<lambda>_. u) ?S1)))"
    using False unfolding uv_getnameinfo_def f'_def by (simp add: Let_def)
  show ?thesis
  proof (rule dns_started_request [OF ok _ _ F])
    show "job_ok (f' (reqs S ! r)) \<lparr>w_loop = loop, w_work = WorkFn, w_linked = True\<rparr>"
      using Fr c False by (simp add: job_ok_def f'_def)
  next
    assume n: "\<not> cb"
    show "?x = None \<or> (\<exists>err g. only_sets_up g \<and> ?x = Some (err, on_core (uv__req_unregister loop) (upd_req r g ?S1)))"
    proof (cases "Option.bind (uv__getnameinfo_work a (r_gni (reqs ?S1 ! r))) (uv__getnameinfo_done 0)")
      case None
      then show ?thesis using n e by simp
    next
      case (Some p)
      then have "?x = Some (gni_retcode (fst p), on_core (uv__req_unregister loop) (upd_req r (\<lambda>q. q\<lparr>r_gni := fst p\<rparr>) ?S1))"
        using n e by (simp add: upd_gni_def split: prod.splits)
      then show ?thesis using G [of "\<lambda>_. fst p"] by blast
    qed
  qed (use Fr e in simp_all)
qed

section \<open>New requests\<close>

lemma new_GAIRequest_eq:
  "new_GAIRequest loop cb S = (Ok (length (reqs S)), S\<lparr>core := Py_INCREF cb (Py_INCREF loop (core S)),
     reqs := reqs S @ [(request_zero GAIRequest)\<lparr>req_ptr := True, rinit := True,
       rfields := (\<lambda>_. None)(F_loop := Some loop, F_callback := Some cb)\<rparr>]\<rparr>)"
  by (simp add: new_GAIRequest_def construct_def GAIRequest_tp_new_def GAIRequest_tp_init_def Request_tp_new_def Request_tp_init_def
      rq_parse_def rq_assign_def rq_put_def upd_req_def on_core_def Let_def nth_append list_update_append request_zero_def
      Py_XDECREF_def fun_eq_iff)

lemma new_GNIRequest_eq:
  "new_GNIRequest loop cb S = (Ok (length (reqs S)), S\<lparr>core := Py_INCREF cb (Py_INCREF loop (core S)),
     reqs := reqs S @ [(request_zero GNIRequest)\<lparr>req_ptr := True, rinit := True,
       rfields := (\<lambda>_. None)(F_loop := Some loop, F_callback := Some cb)\<rparr>]\<rparr>)"
  by (simp add: new_GNIRequest_def construct_def GNIRequest_tp_new_def GNIRequest_tp_init_def Request_tp_new_def Request_tp_init_def
      rq_parse_def rq_assign_def rq_put_def upd_req_def on_core_def Let_def nth_append list_update_append request_zero_def
      Py_XDECREF_def fun_eq_iff)

lemma new_dns_request:
  assumes ok: "rok fr rf S" and v: "valid (core S) loop" "valid (core S) cb" and c: "c = GAIRequest \<or> c = GNIRequest"
    and S': "S' = S\<lparr>core := Py_INCREF cb (Py_INCREF loop (core S)),
     reqs := reqs S @ [(request_zero c)\<lparr>req_ptr := True, rinit := True,
       rfields := (\<lambda>_. None)(F_loop := Some loop, F_callback := Some cb)\<rparr>]\<rparr>"
  shows "rok fr (add_mset (length (reqs S)) rf) S'" "moves S S'" "fresh_req c loop (length (reqs S)) S'"
    "rfield_of S' (length (reqs S)) F_callback \<noteq> None"
proof -
  let ?q = "(request_zero c)\<lparr>req_ptr := True, rinit := True,
       rfields := (\<lambda>_. None)(F_loop := Some loop, F_callback := Some cb)\<rparr>"
  have x: "valid (core S) x" if "x \<in> set [loop, cb]" for x using that v by auto
  have m: "mset [loop, cb] = refs_of ?q"
    using c by (auto simp: refs_of_def field_refs_def request_zero_def request_clear_defs map_filter_simps)
  have q: "req_ok 1 False w ?q" for w
    using c by (auto simp: req_ok_def request_zero_def request_clear_defs)
  have e: "S' = S\<lparr>core := fold Py_INCREF [loop, cb] (core S), reqs := reqs S @ [?q]\<rparr>" using S' by simp
  show "rok fr (add_mset (length (reqs S)) rf) S'" "moves S S'"
    unfolding e using rok_new_request [OF ok x m q] by blast+
  show "fresh_req c loop (length (reqs S)) S'" "rfield_of S' (length (reqs S)) F_callback \<noteq> None"
    unfolding S' using rokD(4) [OF ok, of "length (reqs S)"] by (simp_all add: fresh_req_def request_zero_def)
qed

lemma new_GAIRequest_ok:
  assumes ok: "rok fr rf S" and v: "valid (core S) loop" "valid (core S) cb"
  shows "\<exists>S'. new_GAIRequest loop cb S = (Ok (length (reqs S)), S') \<and> rok fr (add_mset (length (reqs S)) rf) S' \<and> moves S S' \<and>
    fresh_req GAIRequest loop (length (reqs S)) S' \<and> rfield_of S' (length (reqs S)) F_callback \<noteq> None"
proof -
  note N = new_dns_request [OF ok v, of GAIRequest, OF _ refl]
  show ?thesis unfolding new_GAIRequest_eq by (intro exI conjI; rule refl N; simp)
qed

lemma new_GNIRequest_ok:
  assumes ok: "rok fr rf S" and v: "valid (core S) loop" "valid (core S) cb"
  shows "\<exists>S'. new_GNIRequest loop cb S = (Ok (length (reqs S)), S') \<and> rok fr (add_mset (length (reqs S)) rf) S' \<and> moves S S' \<and>
    fresh_req GNIRequest loop (length (reqs S)) S' \<and> rfield_of S' (length (reqs S)) F_callback \<noteq> None"
proof -
  note N = new_dns_request [OF ok v, of GNIRequest, OF _ refl]
  show ?thesis unfolding new_GNIRequest_eq by (intro exI conjI; rule refl N; simp)
qed

section \<open>The functions of dns.c\<close>

lemma rok_release_temps:
  "rok (mset xs + fr) rf S \<Longrightarrow> rok fr rf (release_temps xs S) \<and> moves S (release_temps xs S)"
proof (induction xs arbitrary: S)
  case (Cons x xs)
  have "rok (mset xs + fr) rf (on_core (Py_DECREF x) S)" by (rule rok_core_DECREF) (use Cons.prems in simp)
  from Cons.IH [OF this] show ?case
    using moves_trans [OF moves_core_DECREF(1) [of S x]] by (auto simp: release_temps_def)
qed (simp add: release_temps_def)

lemma valid_value:
  assumes "new_value v S = (x, S')" and "valid (core S) y"
  shows "valid (core S') y"
  using assms by (auto simp: new_value_def on_core_def PyType_GenericNew_def valid_def nth_append split: if_splits prod.splits)

lemma host_string_ok:
  assumes ok: "rok fr rf S" and h: "host_string host S = (res, S1)"
  shows "case res of
      Ok (n, xs) \<Rightarrow> rok (mset xs + fr) rf S1 \<and> moves S S1 \<and> (xs \<noteq> [] \<longrightarrow> (\<exists>s. host = ArgStr (Some s)))
    | Raise e \<Rightarrow> S1 = S | Abort \<Rightarrow> False"
    and "valid (core S) y \<Longrightarrow> valid (core S1) y"
proof -
  show "case res of Ok (n, xs) \<Rightarrow> rok (mset xs + fr) rf S1 \<and> moves S S1 \<and> (xs \<noteq> [] \<longrightarrow> (\<exists>s. host = ArgStr (Some s)))
    | Raise e \<Rightarrow> S1 = S | Abort \<Rightarrow> False"
    using h ok rok_new_value [OF ok] by (auto simp: host_string_def split: name_arg.splits option.splits prod.splits)
  show "valid (core S) y \<Longrightarrow> valid (core S1) y"
    using h valid_value by (auto simp: host_string_def split: name_arg.splits option.splits prod.splits)
qed

lemma service_string_ok:
  assumes ok: "rok fr rf S" and h: "service_string service S = Inr ((n, xs), S1)"
  shows "rok (mset xs + fr) rf S1 \<and> moves S S1" and "valid (core S) y \<Longrightarrow> valid (core S1) y"
proof -
  show "rok (mset xs + fr) rf S1 \<and> moves S S1"
    using h ok rok_new_value [OF ok]
    by (auto simp: service_string_def split: name_arg.splits option.splits prod.splits if_splits)
  show "valid (core S) y \<Longrightarrow> valid (core S1) y"
    using h valid_value by (auto simp: service_string_def split: name_arg.splits option.splits prod.splits if_splits)
qed

definition getaddrinfo_leaks :: "name_arg \<Rightarrow> name_arg \<Rightarrow> bool" where
  "getaddrinfo_leaks host service \<longleftrightarrow> service = ArgStr None \<and> (case host of ArgStr (Some _) \<Rightarrow> True | _ \<Rightarrow> False)"

lemma keeps_requests_value:
  assumes ok: "rok fr (add_mset r rf) S" and n: "new_value v S = (d, S1)"
  shows "keeps_requests fr rf S (Ok (RetObj d), rq_DECREF r S1)"
  using rok_new_value [OF ok n] moves_trans [OF _ moves_DECREF] by (auto simp: keeps_requests_def intro: rok_DECREF)

lemma on_core_INCREF: "on_core g (rq_INCREF r T) = rq_INCREF r (on_core g T)"
  by (simp add: rq_INCREF_def upd_req_def on_core_def)

text \<open>After \<open>uv_getaddrinfo\<close>: the temporaries go, then the result is returned.\<close>

lemma getaddrinfo_finish_ok:
  assumes d: "dns_started (mset xs + fr) rf r (callback \<noteq> Py_None) S x" and n: "x = Some (err, S4)"
  shows "keeps_requests fr rf S
     (if err < 0 then (Raise (UVExc UVError err), rq_DECREF r (release_temps xs S4))
      else let S5 = release_temps xs S4
           in if callback = Py_None then gai_sync_result E r S5 else (Ok (RetReq r), rq_INCREF r S5))"
proof (cases "callback \<noteq> Py_None \<and> 0 \<le> err")
  case True
  have "moves S S4" "rok (mset xs + fr) (add_mset r rf) (rq_INCREF r S4)" using d n True by (auto simp: dns_started_def)
  moreover have "release_temps xs (rq_INCREF r T) = rq_INCREF r (release_temps xs T)" for T
    by (induction xs arbitrary: T) (simp_all add: release_temps_def on_core_INCREF)
  ultimately have "rok fr (add_mset r rf) (rq_INCREF r (release_temps xs S4))"
      "moves S (rq_INCREF r (release_temps xs S4))"
    using rok_release_temps [of xs fr "add_mset r rf" "rq_INCREF r S4"]
      moves_trans [OF moves_trans [OF \<open>moves S S4\<close> moves_INCREF]] by (metis)+
  then show ?thesis using True by (simp add: keeps_requests_def Let_def)
next
  case False
  then have "moves S S4" "rok (mset xs + fr) (add_mset r rf) S4" using d n by (auto simp: dns_started_def)
  then have R: "rok fr (add_mset r rf) (release_temps xs S4)" "moves S (release_temps xs S4)"
    using rok_release_temps moves_trans by blast+
  have fail: "keeps_requests fr rf S (Raise e, rq_DECREF r (release_temps xs S4))" for e
    by (rule keeps_requests_raise [OF rok_DECREF [OF R(1)] moves_trans [OF R(2) moves_DECREF]])
  have "keeps_requests fr rf S (gai_sync_result E r (release_temps xs S4))"
    unfolding gai_sync_result_def using fail keeps_requests_trans [OF R(2) keeps_requests_value [OF R(1)]]
    by (auto split: sum.splits prod.splits)
  then show ?thesis using fail False by (auto simp: Let_def)
qed

lemma Util_func_getaddrinfo_ok:
  assumes ok: "rok fr rf S" and v: "valid (core S) loop" "\<And>c. cb = Some c \<Longrightarrow> valid (core S) c"
    and l: "\<not> getaddrinfo_leaks host service"
  shows "fst (Util_func_getaddrinfo E a (Inr (loop, host, service, hints, cb)) S) = Abort \<or>
    keeps_requests fr rf S (Util_func_getaddrinfo E a (Inr (loop, host, service, hints, cb)) S)"
proof -
  define c where "c = (case cb of None \<Rightarrow> Py_None | Some c \<Rightarrow> c)"
  have vc: "valid (core S) c" using v(2) rok_none [OF ok] by (cases cb) (auto simp: c_def)
  let ?x = "Util_func_getaddrinfo E a (Inr (loop, host, service, hints, cb)) S"
  note D = Util_func_getaddrinfo_def rq_parse_def sum.case prod.case Let_def c_def [symmetric]
  obtain res S1 where h: "host_string host S = (res, S1)" by fastforce
  note H = host_string_ok(1) [OF ok h]
  show ?thesis
  proof (cases res)
    case (Raise e)
    then have "?x = (Raise e, S)" using H h unfolding D by simp
    then show ?thesis using keeps_requests_raise [OF ok moves_refl] by simp
  next
    case Abort
    then show ?thesis using H by simp
  next
    case (Ok p)
    obtain n xs where p: "p = (n, xs)" by fastforce
    have o1: "rok (mset xs + fr) rf S1" and m1: "moves S S1" and i: "xs \<noteq> [] \<Longrightarrow> \<exists>s. host = ArgStr (Some s)"
      using H Ok p by auto
    have fail: "keeps_requests fr rf S (Raise e, release_temps xs S1)" for e
      using rok_release_temps [OF o1] moves_trans [OF m1] by (auto intro: keeps_requests_raise)
    have v1: "valid (core S1) loop" "valid (core S1) c" using host_string_ok(2) [OF ok h] v(1) vc by blast+
    note D1 = D h Ok p result.case option.case
    show ?thesis
    proof (cases "c \<noteq> Py_None \<and> \<not> rq_callable S1 c")
      case True
      then have "?x = (Raise TypeError, release_temps xs S1)" unfolding D1 by simp
      then show ?thesis using fail by simp
    next
      case False
      then have no: "(c \<noteq> Py_None \<and> \<not> rq_callable S1 c) = False" by simp
      show ?thesis
      proof (cases "service_string service S1")
        case (Inl q)
        obtain now e where q: "q = (now, e)" by fastforce
        have "service = ArgStr None" if now
          using Inl q that by (auto simp: service_string_def split: name_arg.splits option.splits prod.splits if_splits)
        then have "xs = []" if now using i l that by (fastforce simp: getaddrinfo_leaks_def)
        then have "?x = (Raise e, release_temps xs S1)"
          using False Inl q unfolding D1 by (cases now) (auto simp: release_temps_def)
        then show ?thesis using fail by simp
      next
        case (Inr q)
        obtain s ys S2 where q: "q = ((s, ys), S2)" by (metis prod.collapse)
        note Q = service_string_ok [OF o1 Inr [unfolded q]]
        have v2: "valid (core S2) loop" "valid (core S2) c" using Q(2) v1 by blast+
        have e2: "mset (xs @ ys) + fr = mset ys + (mset xs + fr)" by simp
        have o2: "rok (mset (xs @ ys) + fr) rf S2" and m2: "moves S S2" unfolding e2 using Q(1) moves_trans [OF m1] by blast+
        let ?r = "length (reqs S2)"
        obtain S3 where S3: "new_GAIRequest loop c S2 = (Ok ?r, S3)" "rok (mset (xs @ ys) + fr) (add_mset ?r rf) S3" "moves S2 S3"
          "fresh_req GAIRequest loop ?r S3" "rfield_of S3 ?r F_callback \<noteq> None"
          using new_GAIRequest_ok [OF o2 v2] by blast
        let ?u = "uv_getaddrinfo (o_mem E) a n s hints loop ?r (c \<noteq> Py_None) S3"
        have d: "dns_started (mset (xs @ ys) + fr) rf ?r (c \<noteq> Py_None) S3 ?u" by (rule uv_getaddrinfo_ok [OF S3(2,4,5)])
        show ?thesis
        proof (cases ?u)
          case None
          then have "fst ?x = Abort" by (simp only: D1 no if_False Inr q S3(1) fst_conv)
          then show ?thesis by blast
        next
          case (Some r)
          obtain err S4 where r: "r = (err, S4)" by fastforce
          have "?x = (if err < 0 then (Raise (UVExc UVError err), rq_DECREF ?r (release_temps (xs @ ys) S4))
              else let S5 = release_temps (xs @ ys) S4
                   in if c = Py_None then gai_sync_result E ?r S5 else (Ok (RetReq ?r), rq_INCREF ?r S5))"
            by (simp only: D1 no if_False Inr q S3(1) Some r)
          then show ?thesis
            using getaddrinfo_finish_ok [OF d, of err S4 E] Some r keeps_requests_trans [OF moves_trans [OF m2 S3(3)]] by simp
        qed
      qed
    qed
  qed
qed

text \<open>An asynchronous \<open>getnameinfo\<close>, and the failures of a synchronous one.\<close>

lemma Util_func_getnameinfo_ok:
  assumes ok: "rok fr rf S" and v: "valid (core S) loop" "valid (core S) c" and c: "c \<noteq> Py_None"
  shows "fst (Util_func_getnameinfo E a (Inr (loop, addr, flags, Some c)) S) = Abort \<or>
    keeps_requests fr rf S (Util_func_getnameinfo E a (Inr (loop, addr, flags, Some c)) S)"
proof -
  let ?x = "Util_func_getnameinfo E a (Inr (loop, addr, flags, Some c)) S"
  note D = Util_func_getnameinfo_def rq_parse_def sum.case prod.case Let_def option.case
  show ?thesis
  proof (cases "rq_callable S c")
    case False
    then have "?x = (Raise TypeError, S)" using c unfolding D by simp
    then show ?thesis using keeps_requests_raise [OF ok moves_refl] by simp
  next
    case True
    show ?thesis
    proof (cases "pyuv_parse_addr_tuple addr")
      case (Inl e)
      then have "?x = (Raise e, S)" using True unfolding D by simp
      then show ?thesis using keeps_requests_raise [OF ok moves_refl] by simp
    next
      case (Inr ss)
      let ?r = "length (reqs S)"
      obtain S1 where S1: "new_GNIRequest loop c S = (Ok ?r, S1)" "rok fr (add_mset ?r rf) S1" "moves S S1"
        "fresh_req GNIRequest loop ?r S1" "rfield_of S1 ?r F_callback \<noteq> None"
        using new_GNIRequest_ok [OF ok v] by blast
      let ?u = "uv_getnameinfo a ss flags loop ?r True S1"
      have d: "dns_started fr rf ?r True S1 ?u" by (rule uv_getnameinfo_ok [OF S1(2,4,5)])
      show ?thesis
      proof (cases ?u)
        case None
        then have "fst ?x = Abort" using True c Inr S1(1) unfolding D by simp
        then show ?thesis by blast
      next
        case (Some p)
        obtain err S2 where p: "p = (err, S2)" by fastforce
        have x: "?x = (if err < 0 then (Raise (UVExc UVError err), rq_DECREF ?r S2) else (Ok (RetReq ?r), rq_INCREF ?r S2))"
          using True c Inr S1(1) Some p unfolding D by simp
        have m: "moves S S2" and o: "rok fr (add_mset ?r rf) (if 0 \<le> err then rq_INCREF ?r S2 else S2)"
          using d Some p moves_trans [OF S1(3)] by (auto simp: dns_started_def)
        show ?thesis
          unfolding x using o moves_trans [OF m moves_INCREF] moves_trans [OF m moves_DECREF]
          by (cases "err < 0") (auto simp: keeps_requests_def intro: rok_DECREF)
      qed
    qed
  qed
qed

end
