(* ===== verification/Request_Threads.thy ===== *)
theory Request_Threads
  imports Request_Names
begin

text \<open>
  The threads of the pool: what a thread does to a request keeps the invariant of the requests.
\<close>

text \<open>The code of the resolver is one that libuv knows: with another one it aborts.\<close>

definition known_answer :: "dns_answer \<Rightarrow> bool" where
  "known_answer a \<longleftrightarrow> uv__getaddrinfo_translate_error (d_errno a) (d_err a) \<noteq> None"

lemma rok_upd_flying:
  assumes ok: "rok fr rf S" and r: "flying S r" and f: "only_sets_up f" and j: "job_ok (f (reqs S ! r)) (works (thr_pool S) r)"
  shows "rok fr rf (upd_req r f S)" and "moves S (upd_req r f S)"
proof -
  have l: "r < length (reqs S)" using rok_flying [OF ok r] by blast
  show "rok fr rf (upd_req r f S)"
    by (rule rok_request [OF ok l, where q = "f (reqs S ! r)"])
      (use rokD(3) [OF ok l] r f j in \<open>auto simp: upd_req_def only_sets_up_def refs_of_def field_refs_def req_ok_def\<close>)
  show "moves S (upd_req r f S)"
    by (rule moves_upd_req) (use f in \<open>simp add: keeps_request_def only_sets_up_def\<close>)
qed

text \<open>Storing the result of a work and giving it back to its loop, in this order.\<close>

lemma worker_stores_ok:
  assumes ok: "rok fr rf S" and e: "worker_finishes r (thr_pool S) = Some p" and f: "only_sets_up f"
    and j: "\<And>w. job_ok (reqs S ! r) w \<Longrightarrow> job_ok (f (reqs S ! r)) (w\<lparr>w_work := WorkNull\<rparr>)"
  shows "rok fr rf (on_pool (\<lambda>_. p) (upd_req r f S)) \<and> moves S (on_pool (\<lambda>_. p) (upd_req r f S))"
proof -
  let ?S1 = "on_pool (\<lambda>_. p) S"
  note F = rok_worker_finishes [OF ok e]
  have fl: "flying ?S1 r" using stays_finish [OF e] by (simp add: on_pool_def)
  have c: "on_pool (\<lambda>_. p) (upd_req r f S) = upd_req r f ?S1" by (simp add: on_pool_def upd_req_def)
  have "job_ok (f (reqs S ! r)) (works p r)"
    using j rok_flying [OF F(1) fl] frame_finish(1) [OF e] rok_flying [OF ok] stays_finish [OF e]
    by (auto simp: job_ok_linked on_pool_def)
  then have "job_ok (f (reqs ?S1 ! r)) (works (thr_pool ?S1) r)" by (simp add: on_pool_def)
  from rok_upd_flying [OF F(1) fl f this] show ?thesis unfolding c using moves_trans [OF F(2)] by blast
qed

lemma getaddrinfo_work_keeps:
  "known_answer a \<Longrightarrow> \<exists>u. uv__getaddrinfo_work a req = Some u \<and> gai_hints u = gai_hints req \<and> gai_loop u = gai_loop req"
  by (auto simp: known_answer_def uv__getaddrinfo_work_def)

lemma getnameinfo_work_keeps:
  "known_answer a \<Longrightarrow> \<not> is_AF_OTHER (gni_storage req) \<Longrightarrow> \<exists>u. uv__getnameinfo_work a req = Some u \<and>
     gni_storage u = gni_storage req \<and> gni_loop u = gni_loop req"
  by (auto simp: known_answer_def uv__getnameinfo_work_def)

context request_program
begin

lemma worker_runs_ok:
  assumes ok: "rok fr rf S" and a: "known_answer a"
  shows "\<exists>S'. worker_runs py E a r S = Some S' \<and> rok fr rf S' \<and> moves S S'"
proof (cases "r \<in> set (executing (thr_pool S))")
  case False
  then show ?thesis using ok by (simp add: worker_runs_def)
next
  case True
  have fl: "flying S r" using True by (simp add: in_pool_defs)
  note F = rok_flying [OF ok fl]
  obtain p where p: "worker_finishes r (thr_pool S) = Some p" using True by (simp add: worker_finishes_def)
  have stored: ?thesis if w: "work_function py E a r S = Some (upd_req r f S)" and f: "only_sets_up f"
    and j: "\<And>w. job_ok (reqs S ! r) w \<Longrightarrow> job_ok (f (reqs S ! r)) (w\<lparr>w_work := WorkNull\<rparr>)" for f
  proof -
    have "thr_pool (upd_req r f S) = thr_pool S" by (simp add: upd_req_def)
    then have "worker_runs py E a r S = Some (on_pool (\<lambda>_. p) (upd_req r f S))"
      using True w p by (simp add: worker_runs_def)
    then show ?thesis using worker_stores_ok [OF ok p f j] by blast
  qed
  show ?thesis
  proof (cases "rclass (reqs S ! r)")
    case FSRequest
    then have "fs_type (r_fs (reqs S ! r)) \<noteq> None" using F by (simp add: job_ok_def)
    then obtain u where u: "uv__fs_work (o_interrupted E) (o_answer E) (r_fs (reqs S ! r)) = Some u"
      "fs_type u = fs_type (r_fs (reqs S ! r))" "fs_loop u = fs_loop (r_fs (reqs S ! r))" using uv__fs_work_keeps by blast
    show ?thesis
      by (rule stored [of "\<lambda>q. q\<lparr>r_fs := u\<rparr>"])
        (use FSRequest u in \<open>auto simp: work_function_def upd_fs_def only_sets_up_def job_ok_def\<close>)
  next
    case GAIRequest
    obtain u where u: "uv__getaddrinfo_work a (r_gai (reqs S ! r)) = Some u"
      "gai_hints u = gai_hints (r_gai (reqs S ! r))" "gai_loop u = gai_loop (r_gai (reqs S ! r))"
      using getaddrinfo_work_keeps [OF a] by blast
    show ?thesis
      by (rule stored [of "\<lambda>q. q\<lparr>r_gai := u\<rparr>"])
        (use GAIRequest u in \<open>auto simp: work_function_def upd_gai_def only_sets_up_def job_ok_def\<close>)
  next
    case GNIRequest
    then have "\<not> is_AF_OTHER (gni_storage (r_gni (reqs S ! r)))" using F by (simp add: job_ok_def)
    then obtain u where u: "uv__getnameinfo_work a (r_gni (reqs S ! r)) = Some u"
      "gni_storage u = gni_storage (r_gni (reqs S ! r))" "gni_loop u = gni_loop (r_gni (reqs S ! r))"
      using getnameinfo_work_keeps [OF a] by blast
    show ?thesis
      by (rule stored [of "\<lambda>q. q\<lparr>r_gni := u\<rparr>"])
        (use GNIRequest u in \<open>auto simp: work_function_def upd_gni_def only_sets_up_def job_ok_def\<close>)
  next
    case WorkRequest
    obtain x S1 where c: "rq_Call py (rfield_of S r F_work_cb) [] [] S = (x, S1)" by fastforce
    have o1: "rok (mset_opt x + fr) rf S1 \<and> moves S S1"
      by (rule rq_Call_ok [OF ok _ _ _ c]) (use F rok_field_valid [OF ok] in auto)
    let ?S2 = "pyuv__tp_work_cb py r S"
    have o2: "rok fr rf ?S2 \<and> moves S1 ?S2"
    proof (cases x)
      case None
      then show ?thesis
        using o1 c rok_core [of fr rf S1 fr "log_event PrintedUnhandled"] moves_on_core [of S1 "log_event PrintedUnhandled"]
        by (simp add: pyuv__tp_work_cb_def ok_log_event stable_log_event)
    next
      case (Some y)
      then show ?thesis using o1 c rok_core_DECREF [of y fr rf S1] moves_core_DECREF(1) by (simp add: pyuv__tp_work_cb_def)
    qed
    then have m2: "moves S ?S2" using o1 moves_trans by blast
    have w: "worker_runs py E a r S = (case worker_finishes r (thr_pool ?S2) of
        None \<Rightarrow> Some ?S2 | Some q \<Rightarrow> Some (on_pool (\<lambda>_. q) ?S2))"
      using True WorkRequest by (simp add: worker_runs_def work_function_def)
    show ?thesis
    proof (cases "worker_finishes r (thr_pool ?S2)")
      case None
      then show ?thesis using w o2 m2 by simp
    next
      case (Some q)
      then show ?thesis using w rok_worker_finishes [OF conjunct1 [OF o2] Some] moves_trans [OF m2] by auto
    qed
  qed
qed

end

end
