(* ===== verification/Request_Scripts.thy ===== *)
theory Request_Scripts
  imports Request_Threads Scripts
begin

text \<open>
  Python programs made of calls of the extension, requests included: the contract \<open>request_program\<close> holds
  for every one of them. As in \<open>Scripts\<close>, a program names only what it has a reference to, and a call that would
  abort the process is skipped. So are three calls that break the invariant: the two of dns.c that leak, and
  the \<open>cancel\<close> of a request that was cancelled, in its own callback.
\<close>

section \<open>Calls\<close>

datatype fs_call =
    FsStat string | FsLstat string | FsFstat int | FsUnlink string | FsMkdir string int | FsRmdir string
  | FsRename string string | FsChmod string int | FsFchmod int int | FsLink string string | FsSymlink string string int
  | FsReadlink string | FsChown string int int | FsFchown int int int | FsOpen string int int | FsClose int
  | FsRead int int int | FsWrite int "oid \<times> nat" int | FsFsync int | FsFdatasync int | FsFtruncate int int
  | FsScandir string | FsSendfile int int int int | FsUtime string double double | FsFutime int double double
  | FsAccess string int | FsRealpath string

primrec fs_api :: "rpython \<Rightarrow> fs_os \<Rightarrow> oid \<Rightarrow> oid option \<Rightarrow> fs_call \<Rightarrow> rworld \<Rightarrow> rvalue result \<times> rworld" where
  "fs_api py E loop cb (FsStat path) = FS_func_stat py E (Inr (loop, path, cb))"
| "fs_api py E loop cb (FsLstat path) = FS_func_lstat py E (Inr (loop, path, cb))"
| "fs_api py E loop cb (FsFstat fd) = FS_func_fstat py E (Inr (loop, fd, cb))"
| "fs_api py E loop cb (FsUnlink path) = FS_func_unlink py E (Inr (loop, path, cb))"
| "fs_api py E loop cb (FsMkdir path mode) = FS_func_mkdir py E (Inr (loop, path, mode, cb))"
| "fs_api py E loop cb (FsRmdir path) = FS_func_rmdir py E (Inr (loop, path, cb))"
| "fs_api py E loop cb (FsRename path path2) = FS_func_rename py E (Inr (loop, path, path2, cb))"
| "fs_api py E loop cb (FsChmod path mode) = FS_func_chmod py E (Inr (loop, path, mode, cb))"
| "fs_api py E loop cb (FsFchmod fd mode) = FS_func_fchmod py E (Inr (loop, fd, mode, cb))"
| "fs_api py E loop cb (FsLink path path2) = FS_func_link py E (Inr (loop, path, path2, cb))"
| "fs_api py E loop cb (FsSymlink path path2 flags) = FS_func_symlink py E (Inr (loop, path, path2, flags, cb))"
| "fs_api py E loop cb (FsReadlink path) = FS_func_readlink py E (Inr (loop, path, cb))"
| "fs_api py E loop cb (FsChown path uid gid) = FS_func_chown py E (Inr (loop, path, uid, gid, cb))"
| "fs_api py E loop cb (FsFchown fd uid gid) = FS_func_fchown py E (Inr (loop, fd, uid, gid, cb))"
| "fs_api py E loop cb (FsOpen path flags mode) = FS_func_open py E (Inr (loop, path, flags, mode, cb))"
| "fs_api py E loop cb (FsClose fd) = FS_func_close py E (Inr (loop, fd, cb))"
| "fs_api py E loop cb (FsRead fd len off) = FS_func_read py E (Inr (loop, fd, len, off, cb))"
| "fs_api py E loop cb (FsWrite fd data off) = FS_func_write py E (Inr (loop, fd, data, off, cb))"
| "fs_api py E loop cb (FsFsync fd) = FS_func_fsync py E (Inr (loop, fd, cb))"
| "fs_api py E loop cb (FsFdatasync fd) = FS_func_fdatasync py E (Inr (loop, fd, cb))"
| "fs_api py E loop cb (FsFtruncate fd off) = FS_func_ftruncate py E (Inr (loop, fd, off, cb))"
| "fs_api py E loop cb (FsScandir path) = FS_func_scandir py E (Inr (loop, path, cb))"
| "fs_api py E loop cb (FsSendfile fd fd2 off len) = FS_func_sendfile py E (Inr (loop, fd, fd2, off, len, cb))"
| "fs_api py E loop cb (FsUtime path atime mtime) = FS_func_utime py E (Inr (loop, path, atime, mtime, cb))"
| "fs_api py E loop cb (FsFutime fd atime mtime) = FS_func_futime py E (Inr (loop, fd, atime, mtime, cb))"
| "fs_api py E loop cb (FsAccess path flags) = FS_func_access py E (Inr (loop, path, flags, cb))"
| "fs_api py E loop cb (FsRealpath path) = FS_func_realpath py E (Inr (loop, path, cb))"

definition fs_call_names :: "fs_call \<Rightarrow> oid list" where
  "fs_call_names c = (case c of FsWrite fd (data, len) off \<Rightarrow> [data] | _ \<Rightarrow> [])"

definition opt_names :: "oid option \<Rightarrow> oid list" where
  "opt_names v = (case v of None \<Rightarrow> [] | Some x \<Rightarrow> [x])"

text \<open>A call about requests; \<open>OnCore\<close> is an action about the other objects.\<close>

datatype raction =
    OnCore action
  | FsCall fs_os oid "oid option" fs_call
  | GetAddrInfo fs_os dns_answer oid name_arg name_arg "int \<times> int \<times> int \<times> int" "oid option"
  | GetNameInfo fs_os dns_answer oid addr_arg int oid
  | QueueWork oid oid "oid option"
  | Cancel nat
  | GetPath nat | GetResult nat | GetError nat | GetDict nat | SetDict nat "oid option"
  | KeepReq nat | DropReq nat

primrec raction_names :: "raction \<Rightarrow> oid list" where
  "raction_names (OnCore a) = []"
| "raction_names (FsCall E l cb c) = l # opt_names cb @ fs_call_names c"
| "raction_names (GetAddrInfo E a l host service hints cb) = l # opt_names cb"
| "raction_names (GetNameInfo E a l addr flags f) = [l, f]"
| "raction_names (QueueWork l f cb) = l # f # opt_names cb"
| "raction_names (Cancel r) = []"
| "raction_names (GetPath r) = []"
| "raction_names (GetResult r) = []"
| "raction_names (GetError r) = []"
| "raction_names (GetDict r) = []"
| "raction_names (SetDict r v) = opt_names v"
| "raction_names (KeepReq r) = []"
| "raction_names (DropReq r) = []"

primrec raction_reqs :: "raction \<Rightarrow> nat list" where
  "raction_reqs (OnCore a) = []"
| "raction_reqs (FsCall E l cb c) = []"
| "raction_reqs (GetAddrInfo E a l host service hints cb) = []"
| "raction_reqs (GetNameInfo E a l addr flags f) = []"
| "raction_reqs (QueueWork l f cb) = []"
| "raction_reqs (Cancel r) = [r]"
| "raction_reqs (GetPath r) = [r]"
| "raction_reqs (GetResult r) = [r]"
| "raction_reqs (GetError r) = [r]"
| "raction_reqs (GetDict r) = [r]"
| "raction_reqs (SetDict r v) = [r]"
| "raction_reqs (KeepReq r) = [r]"
| "raction_reqs (DropReq r) = [r]"

text \<open>What a call returns is kept in a variable.\<close>

definition rext_take :: "nat \<Rightarrow> rworld \<Rightarrow> rworld" where
  "rext_take r S = S\<lparr>rext := (rext S)(r := rext S r + 1)\<rparr>"

definition rext_give :: "nat \<Rightarrow> rworld \<Rightarrow> rworld" where
  "rext_give r S = S\<lparr>rext := (rext S)(r := rext S r - 1)\<rparr>"

definition keep_result :: "rvalue result \<times> rworld \<Rightarrow> rworld \<Rightarrow> rworld" where
  "keep_result p S =
     (case p of
        (Ok (RetReq r), S1) \<Rightarrow> rext_take r S1
      | (Ok (RetObj x), S1) \<Rightarrow> on_core (ext_take x) S1
      | (Raise e, S1) \<Rightarrow> S1
      | (Abort, S1) \<Rightarrow> S)"

definition keep_object :: "oid \<times> rworld \<Rightarrow> rworld" where
  "keep_object p = on_core (ext_take (fst p)) (snd p)"

definition known_request :: "nat list \<Rightarrow> rworld \<Rightarrow> nat \<Rightarrow> bool" where
  "known_request rs S r \<longleftrightarrow> r \<in> set rs \<or> 0 < rext S r"

definition on_loop_object :: "oid \<Rightarrow> rworld \<Rightarrow> rworld \<Rightarrow> rworld" where
  "on_loop_object l S S' = (if kind (objs (core S) ! l) = KLoop then S' else S)"

primrec perform :: "rpython \<Rightarrow> (double \<Rightarrow> 64 word) \<Rightarrow> oid list \<Rightarrow> raction \<Rightarrow> rworld \<Rightarrow> rworld" where
  "perform py ub args (OnCore a) S = on_core (run_action ub args a) S"
| "perform py ub args (FsCall E l cb c) S = on_loop_object l S (keep_result (fs_api py E l cb c S) S)"
| "perform py ub args (GetAddrInfo E a l host service hints cb) S =
     (if getaddrinfo_leaks host service then S
      else on_loop_object l S (keep_result (Util_func_getaddrinfo E a (Inr (l, host, service, hints, cb)) S) S))"
| "perform py ub args (GetNameInfo E a l addr flags f) S =
     (if f = Py_None then S
      else on_loop_object l S (keep_result (Util_func_getnameinfo E a (Inr (l, addr, flags, Some f)) S) S))"
| "perform py ub args (QueueWork l f cb) S =
     on_loop_object l S (case Loop_func_queue_work l (Inr (f, cb)) S of (Ok r, S1) \<Rightarrow> rext_take r S1 | (_, S1) \<Rightarrow> S1)"
| "perform py ub args (Cancel r) S = (if cancel_harms S r then S else snd (Request_func_cancel r S))"
| "perform py ub args (GetPath r) S = keep_object (FSRequest_path_get r S)"
| "perform py ub args (GetResult r) S = keep_object (FSRequest_result_get r S)"
| "perform py ub args (GetError r) S = keep_object (FSRequest_error_get r S)"
| "perform py ub args (GetDict r) S = keep_object (Request_dict_get r S)"
| "perform py ub args (SetDict r v) S = snd (Request_dict_set (\<lambda>x. kind (objs (core S) ! x) = KObject False) r v S)"
| "perform py ub args (KeepReq r) S = rext_take r (rq_INCREF r S)"
| "perform py ub args (DropReq r) S = (if 0 < rext S r then rq_DECREF r (rext_give r S) else S)"

definition run_raction :: "rpython \<Rightarrow> (double \<Rightarrow> 64 word) \<Rightarrow> nat list \<Rightarrow> oid list \<Rightarrow> raction \<Rightarrow> rworld \<Rightarrow> rworld" where
  "run_raction py ub rs args a S =
     (if list_all (known args (core S)) (raction_names a) \<and> list_all (known_request rs S) (raction_reqs a)
      then perform py ub args a S else S)"

section \<open>Programs\<close>

record rprogram =
  rbody :: "oid \<Rightarrow> nat list \<Rightarrow> oid list \<Rightarrow> (rworld \<Rightarrow> raction) list"
  rreturns :: "oid \<Rightarrow> nat list \<Rightarrow> oid list \<Rightarrow> rworld \<Rightarrow> oid option"
  rhooks :: "oid \<Rightarrow> attr"

definition run_rbody ::
    "rpython \<Rightarrow> (double \<Rightarrow> 64 word) \<Rightarrow> nat list \<Rightarrow> oid list \<Rightarrow> (rworld \<Rightarrow> raction) list \<Rightarrow> rworld \<Rightarrow> rworld" where
  "run_rbody py ub rs args stmts S = fold (\<lambda>st T. run_raction py ub rs args (st T) T) stmts S"

definition rscript_call ::
    "rpython \<Rightarrow> (double \<Rightarrow> 64 word) \<Rightarrow> rprogram \<Rightarrow> oid \<Rightarrow> nat list \<Rightarrow> oid list \<Rightarrow> rworld \<Rightarrow> oid option \<times> rworld" where
  "rscript_call py ub P f rs args S =
     (if \<not> rq_callable S f then (None, S)
      else let S1 = run_rbody py ub rs args (rbody P f rs args) S
           in case rreturns P f rs args S1 of
                None \<Rightarrow> (None, S1)
              | Some x \<Rightarrow> let y = (if known args (core S1) x then x else Py_None) in (Some y, on_core (Py_INCREF y) S1))"

definition rscript_hook :: "rprogram \<Rightarrow> oid \<Rightarrow> rworld \<Rightarrow> attr" where
  "rscript_hook P l S =
     (case rhooks P l of AttrIs x \<Rightarrow> if 0 < ext (core S) x then AttrIs x else AttrMissing | a \<Rightarrow> a)"

text \<open>\<open>depth\<close>: how deep calls of Python may nest; a deeper one fails, as in Python itself.\<close>

primrec requesting :: "(double \<Rightarrow> 64 word) \<Rightarrow> rprogram \<Rightarrow> nat \<Rightarrow> rpython" where
  "requesting ub P 0 = \<lparr>rpy_call = (\<lambda>_ _ _ S. (None, S)), rpy_excepthook = rscript_hook P\<rparr>"
| "requesting ub P (Suc depth) =
     \<lparr>rpy_call = rscript_call (requesting ub P depth) ub P, rpy_excepthook = rscript_hook P\<rparr>"

section \<open>Scripts meet the contract\<close>

lemma rok_known:
  assumes "rok fr rf S" and "set args \<subseteq> set_mset fr" and "known args (core S) x"
  shows "valid (core S) x"
  using held_valid [OF okD(1) [OF rokD(1) [OF assms(1)]], of x] assms(2,3) by (auto simp: known_def held_def)

lemma rok_known_request:
  assumes "rok fr rf S" and "set rs \<subseteq> set_mset rf" and "known_request rs S r"
  shows "r < length (reqs S)" "rlive (reqs S ! r)"
proof -
  have n: "0 < rext S r + count rf r"
    using assms(2,3) by (auto simp: known_request_def subset_iff count_greater_zero_iff [symmetric] simp del: count_greater_zero_iff)
  then show r: "r < length (reqs S)" using rokD(4) [OF assms(1), of r] by (cases "r < length (reqs S)") auto
  have "rrefcnt (reqs S ! r) = int (rext S r + count rf r) + of_bool (flying S r)"
    using rokD(3) [OF assms(1) r] unfolding req_ok_def by blast
  then have "0 < rrefcnt (reqs S ! r)" using n zero_less_eq_of_bool [of "flying S r", where 'a = int] by linarith
  then show "rlive (reqs S ! r)" using rokD(3) [OF assms(1) r] by (simp only: req_ok_def)
qed

lemma rok_ext_take: "rok (add_mset x fr) rf S \<Longrightarrow> rok fr rf (on_core (ext_take x) S)"
  by (erule rok_core) (rule ok_ext_take, simp)

lemma moves_ext_take: "moves S (on_core (ext_take x) S)"
  by (rule moves_on_core) (rule stable_ext)

lemma rok_rext:
  assumes ok: "rok fr rf S" and c: "\<And>k. n k + count rf' k = rext S k + count rf k"
  shows "rok fr rf' (S\<lparr>rext := n\<rparr>)"
proof -
  have "if k < length (reqs S) then req_ok (n k + count rf' k) (flying S k) (works (thr_pool S) k) (reqs S ! k)
      else n k = 0 \<and> count rf' k = 0 \<and> \<not> flying S k \<and> \<not> reported (thr_pool S) k" for k
    using rokD(3,4) [OF ok, of k] c [of k] by auto
  then show ?thesis using rokD(1,2) [OF ok] unfolding rok_def by simp
qed

lemma rok_rext_take: "rok fr (add_mset r rf) S \<Longrightarrow> rok fr rf (rext_take r S)"
  unfolding rext_take_def by (erule rok_rext) simp

lemma rok_rext_give: "rok fr rf S \<Longrightarrow> 0 < rext S r \<Longrightarrow> rok fr (add_mset r rf) (rext_give r S)"
  unfolding rext_give_def by (erule rok_rext) auto

lemma moves_rext: "moves S (rext_take r S)" "moves S (rext_give r S)"
  by (rule moves_same; simp add: rext_take_def rext_give_def)+

lemma keep_result_ok:
  assumes ok: "rok fr rf S" and k: "fst p = Abort \<or> keeps_requests fr rf S p"
  shows "rok fr rf (keep_result p S) \<and> moves S (keep_result p S)"
proof (cases p)
  case (Pair x T)
  show ?thesis
  proof (cases x)
    case (Ok v)
    have K: "keeps_requests fr rf S (Ok v, T)" using k Pair Ok by simp
    then have m: "moves S T" by (simp add: keeps_requests_def)
    show ?thesis
    proof (cases v)
      case (RetReq r)
      then have "rok fr rf (rext_take r T)" using K by (intro rok_rext_take) (simp add: keeps_requests_def)
      then show ?thesis using Pair Ok RetReq moves_trans [OF m moves_rext(1)] by (simp add: keep_result_def)
    next
      case (RetObj x)
      then have "rok fr rf (on_core (ext_take x) T)" using K by (intro rok_ext_take) (simp add: keeps_requests_def)
      then show ?thesis using Pair Ok RetObj moves_trans [OF m moves_ext_take] by (simp add: keep_result_def)
    qed
  qed (use ok k Pair in \<open>auto simp: keep_result_def keeps_requests_def\<close>)
qed

lemma keep_object_ok:
  assumes "rok (add_mset (fst p) fr) rf (snd p)" and "moves S (snd p)"
  shows "rok fr rf (keep_object p) \<and> moves S (keep_object p)"
  unfolding keep_object_def using rok_ext_take [OF assms(1)] moves_trans [OF assms(2) moves_ext_take] by blast

context request_program
begin

lemma fs_api_ok:
  assumes "rok fr rf S" and "valid (core S) l" "\<And>f. cb = Some f \<Longrightarrow> valid (core S) f"
    and "\<And>x. x \<in> set (fs_call_names c) \<Longrightarrow> valid (core S) x"
  shows "keeps_requests fr rf S (fs_api py E l cb c S)"
  using assms by (cases c) (auto simp: fs_call_names_def intro: FS_funcs_ok FS_func_read_ok FS_func_write_ok)

lemma core_action_ok:
  assumes ok: "rok fr rf S" and a: "set args \<subseteq> set_mset fr"
  shows "rok fr rf (on_core (run_action ub args x) S) \<and> moves S (on_core (run_action ub args x) S)"
proof -
  have "ok (M + fr) (run_action ub args x (core S)) \<and> undisturbed (core S) (run_action ub args x (core S))"
    if "ok (M + fr) (core S)" for M
    by (rule run_action_ok [OF that]) (use a in auto)
  then show ?thesis using rok_core [OF ok] moves_on_core rokD(1) [OF ok] by blast
qed

lemma perform_ok:
  assumes ok: "rok fr rf S" and a: "set args \<subseteq> set_mset fr" and r: "set rs \<subseteq> set_mset rf"
    and n: "list_all (known args (core S)) (raction_names x)" "list_all (known_request rs S) (raction_reqs x)"
  shows "rok fr rf (perform py ub args x S) \<and> moves S (perform py ub args x S)"
proof -
  have v: "valid (core S) y" if "y \<in> set (raction_names x)" for y
    using rok_known [OF ok a] n(1) that by (simp add: list_all_iff)
  have q: "k < length (reqs S)" "rlive (reqs S ! k)" if "k \<in> set (raction_reqs x)" for k
    using rok_known_request [OF ok r] n(2) that by (simp_all add: list_all_iff)
  have on_loop: "rok fr rf (on_loop_object l S T) \<and> moves S (on_loop_object l S T)" if "rok fr rf T \<and> moves S T" for l T
    using that ok by (simp add: on_loop_object_def)
  have getter: "rok fr rf (keep_object (get_or_none f k S)) \<and> moves S (keep_object (get_or_none f k S))"
    if "k < length (reqs S)" for f k
    by (rule keep_object_ok; insert get_or_none_ok [OF ok that, of f "fst (get_or_none f k S)" "snd (get_or_none f k S)"]; simp)
  show ?thesis
  proof (cases x)
    case (OnCore y)
    then show ?thesis using core_action_ok [OF ok a] by simp
  next
    case (FsCall E l cb c)
    have "keeps_requests fr rf S (fs_api py E l cb c S)"
      by (rule fs_api_ok [OF ok]) (use v FsCall in \<open>auto simp: opt_names_def\<close>)
    then show ?thesis unfolding FsCall perform.simps by (intro on_loop keep_result_ok [OF ok]) simp
  next
    case (GetAddrInfo E b l host service hints cb)
    have "fst (Util_func_getaddrinfo E b (Inr (l, host, service, hints, cb)) S) = Abort \<or>
        keeps_requests fr rf S (Util_func_getaddrinfo E b (Inr (l, host, service, hints, cb)) S)"
      if "\<not> getaddrinfo_leaks host service"
      by (rule Util_func_getaddrinfo_ok [OF ok _ _ that]) (use v GetAddrInfo in \<open>auto simp: opt_names_def\<close>)
    then show ?thesis unfolding GetAddrInfo perform.simps using on_loop [OF keep_result_ok [OF ok]] ok by simp
  next
    case (GetNameInfo E b l addr flags f)
    have "fst (Util_func_getnameinfo E b (Inr (l, addr, flags, Some f)) S) = Abort \<or>
        keeps_requests fr rf S (Util_func_getnameinfo E b (Inr (l, addr, flags, Some f)) S)" if "f \<noteq> Py_None"
      by (rule Util_func_getnameinfo_ok [OF ok _ _ that]) (use v GetNameInfo in auto)
    then show ?thesis unfolding GetNameInfo perform.simps using on_loop [OF keep_result_ok [OF ok]] ok by simp
  next
    case (QueueWork l f cb)
    have "moves S (snd (Loop_func_queue_work l (Inr (f, cb)) S)) \<and>
      (case Loop_func_queue_work l (Inr (f, cb)) S of
         (Ok r, S') \<Rightarrow> rok fr (add_mset r rf) S' | (Raise e, S') \<Rightarrow> rok fr rf S' | (Abort, S') \<Rightarrow> False)"
      by (rule Loop_func_queue_work_ok [OF ok]) (use v QueueWork in \<open>auto simp: opt_names_def\<close>)
    then show ?thesis
      unfolding QueueWork perform.simps
      by (intro on_loop) (auto intro: rok_rext_take moves_trans [OF _ moves_rext(1)] split: prod.splits result.splits)
  next
    case (Cancel k)
    then show ?thesis using Request_func_cancel_ok [OF ok] ok by simp
  next
    case (GetPath k)
    then show ?thesis using getter q(1) by (simp add: FSRequest_path_get_def)
  next
    case (GetResult k)
    then show ?thesis using getter q(1) by (simp add: FSRequest_result_get_def)
  next
    case (GetError k)
    then show ?thesis using getter q(1) by (simp add: FSRequest_error_get_def)
  next
    case (GetDict k)
    have "rok (add_mset (fst (Request_dict_get k S)) fr) rf (snd (Request_dict_get k S)) \<and> moves S (snd (Request_dict_get k S))"
      by (rule Request_dict_get_ok [OF ok]) (use q GetDict in auto)
    then show ?thesis unfolding GetDict perform.simps using keep_object_ok by blast
  next
    case (SetDict k v')
    then show ?thesis unfolding SetDict perform.simps
      by (intro Request_dict_set_ok [OF ok]) (use q v SetDict in \<open>auto simp: opt_names_def\<close>)
  next
    case (KeepReq k)
    then show ?thesis
      using rok_rext_take [OF rok_INCREF [OF ok q]] moves_trans [OF moves_INCREF moves_rext(1)] by simp
  next
    case (DropReq k)
    then show ?thesis
      using ok rok_DECREF [OF rok_rext_give [OF ok]] moves_trans [OF moves_rext(2) moves_DECREF] by simp
  qed
qed

lemma run_rbody_ok:
  assumes "rok fr rf S" and a: "set args \<subseteq> set_mset fr" and r: "set rs \<subseteq> set_mset rf"
  shows "rok fr rf (run_rbody py ub rs args stmts S) \<and> moves S (run_rbody py ub rs args stmts S)"
  using assms(1)
proof (induction stmts arbitrary: S)
  case (Cons st stmts)
  let ?S1 = "run_raction py ub rs args (st S) S"
  have s: "rok fr rf ?S1 \<and> moves S ?S1"
    using perform_ok [OF Cons.prems a r] Cons.prems by (simp add: run_raction_def)
  then show ?case using Cons.IH [of ?S1] moves_trans by (auto simp: run_rbody_def)
qed (simp add: run_rbody_def)

lemma rscript_call_ok:
  assumes ok: "rok fr rf S" and a: "set args \<subseteq> set_mset fr" and r: "set rs \<subseteq> set_mset rf"
    and c: "rscript_call py ub P f rs args S = (v, S')"
  shows "rok (mset_opt v + fr) rf S' \<and> moves S S'"
proof -
  let ?S1 = "run_rbody py ub rs args (rbody P f rs args) S"
  note R = run_rbody_ok [OF ok a r, of ub "rbody P f rs args"]
  have "rok (add_mset y fr) rf (on_core (Py_INCREF y) ?S1) \<and> moves S (on_core (Py_INCREF y) ?S1)"
    if "known args (core ?S1) y \<or> y = Py_None" for y
  proof -
    have "valid (core ?S1) y" using that R rok_known [OF _ a] rok_none by blast
    then show ?thesis using R rok_core_INCREF moves_trans [OF _ moves_core_DECREF(3)] by blast
  qed
  then show ?thesis
    using c ok R by (auto simp: rscript_call_def Let_def split: if_splits option.splits)
qed

end

lemma rscript_hook_valid:
  "rok fr rf S \<Longrightarrow> rscript_hook P l S = AttrIs x \<Longrightarrow> valid (core S) x"
  using held_valid [OF okD(1) [OF rokD(1)], of fr rf S x]
  by (auto simp: rscript_hook_def held_def split: attr.splits if_splits)

lemma requesting_ok: "request_program (requesting ub P depth)"
proof (induction depth)
  case 0
  show ?case by unfold_locales (auto intro: rscript_hook_valid)
next
  case (Suc depth)
  note call = request_program.rscript_call_ok [OF Suc.IH]
  show ?case
  proof unfold_locales
    fix fr rf S f args rs v S'
    assume "rok fr rf S" "set args \<subseteq> set_mset fr" "set rs \<subseteq> set_mset rf"
      "rpy_call (requesting ub P (Suc depth)) f rs args S = (v, S')"
    then show "rok (mset_opt v + fr) rf S' \<and> moves S S'" using call by simp
  qed (auto intro: rscript_hook_valid)
qed

interpretation requesting: request_program "requesting ub P depth" for ub P depth
  by (rule requesting_ok)

end
