(* ===== verification/Request_Machine.thy ===== *)
theory Request_Machine
  imports Request_Scripts Samples
begin

text \<open>
  A program, the threads of the pool and the loops as one machine; the concrete states that the
  properties of the requests are applied to; and what an interrupted system call comes to.
\<close>

section \<open>The machine\<close>

text \<open>
  A step: the program performs an action, a thread takes a work or runs it, or a loop reports what is in its
  queue. The answers of the resolver are known to libuv, and names decode.
\<close>

inductive rq_step :: "(double \<Rightarrow> 64 word) \<Rightarrow> rprogram \<Rightarrow> nat \<Rightarrow> nat \<Rightarrow> rworld \<Rightarrow> rworld \<Rightarrow> bool" for ub P depth nthreads where
  acts: "rq_step ub P depth nthreads S (run_raction (requesting ub P depth) ub [] [] a S)"
| takes: "rq_step ub P depth nthreads S (worker_gets nthreads S)"
| runs: "known_answer a \<Longrightarrow> worker_runs (requesting ub P depth) E a r S = Some S' \<Longrightarrow> rq_step ub P depth nthreads S S'"
| completes: "\<forall>k. names_decode (Es k) \<Longrightarrow> uv__work_done (requesting ub P depth) Es l S = Some S' \<Longrightarrow>
    rq_step ub P depth nthreads S S'"

abbreviation rq_steps :: "(double \<Rightarrow> 64 word) \<Rightarrow> rprogram \<Rightarrow> nat \<Rightarrow> nat \<Rightarrow> rworld \<Rightarrow> rworld \<Rightarrow> bool" where
  "rq_steps ub P depth nthreads \<equiv> (rq_step ub P depth nthreads)\<^sup>*\<^sup>*"

text \<open>No loop is in the middle of \<open>uv__work_done\<close>.\<close>

definition resting :: "rworld \<Rightarrow> bool" where
  "resting S \<longleftrightarrow> (\<forall>l. done_wq (thr_pool S) l = [])"

lemma resting_moves: "resting S \<Longrightarrow> moves S S' \<Longrightarrow> resting S'"
  using moves_done_wq by (fastforce simp: resting_def)

lemma work_done_resting:
  assumes ok: "rok fr rf S" and d: "resting S" and n: "\<forall>k. names_decode (Es k)"
  shows "\<exists>S'. uv__work_done (requesting ub P depth) Es l S = Some S' \<and> rok fr rf S' \<and> resting S'"
proof -
  have "done_wq (thr_pool S) l = []" using d by (simp add: resting_def)
  from requesting.uv__work_done_ok [OF ok this, of Es ub P depth] n obtain S' where
    "uv__work_done (requesting ub P depth) Es l S = Some S'" "rok fr rf S'" "done_wq (thr_pool S') l = []"
    "\<forall>m. m \<noteq> l \<longrightarrow> set (done_wq (thr_pool S') m) \<subseteq> set (done_wq (thr_pool S) m)" by blast
  moreover from this have "resting S'" using d by (auto simp: resting_def)
  ultimately show ?thesis by blast
qed

lemma rq_step_ok:
  assumes "rq_step ub P depth nthreads S S'" and ok: "rok {#} {#} S" and r: "resting S"
  shows "rok {#} {#} S' \<and> resting S'"
  using assms(1)
proof cases
  case (acts a)
  have "rok {#} {#} S' \<and> moves S S'"
    using requesting.run_rbody_ok [OF ok, of "[]" "[]" ub P depth ub "[\<lambda>_. a]"] acts by (simp add: run_rbody_def)
  then show ?thesis using resting_moves [OF r] by blast
next
  case takes
  then show ?thesis using rok_worker_gets [OF ok] resting_moves [OF r] by blast
next
  case (runs a E k)
  obtain T where "worker_runs (requesting ub P depth) E a k S = Some T" "rok {#} {#} T" "moves S T"
    using requesting.worker_runs_ok [OF ok runs(1)] by blast
  then show ?thesis using runs(2) resting_moves [OF r] by simp
next
  case (completes Es l)
  from work_done_resting [OF ok r completes(1), of ub P depth l] show ?thesis using completes(2) by auto
qed

lemma rq_steps_ok:
  assumes "rq_steps ub P depth nthreads S S'" and "rok {#} {#} S" and "resting S"
  shows "rok {#} {#} S' \<and> resting S'"
  using assms(1) by (induction rule: rtranclp_induct) (use assms(2,3) rq_step_ok in blast)+

section \<open>Samples\<close>

text \<open>No request was made yet; the other objects are those of \<open>w\<close>.\<close>

definition no_requests :: "world \<Rightarrow> rworld" where
  "no_requests w = \<lparr>core = w, reqs = [], rext = (\<lambda>_. 0), thr_pool = pool_init, vals = (\<lambda>_. NoneV), calls = [], stat_float = 1\<rparr>"

lemma rok_no_requests: "ok {#} w \<Longrightarrow> rok {#} {#} (no_requests w)"
  by (simp add: rok_def no_requests_def all_refs_def pool_ok_init) (simp add: in_pool_def reported_def pool_init_def)

lemma resting_no_requests: "resting (no_requests w)"
  by (simp add: resting_def no_requests_def pool_init_def)

definition no_answer :: fs_answer where
  "no_answer = \<lparr>a_ret = 0, a_errno = 0, a_stat = \<lparr>s_dev = 0, s_mode = 0, s_nlink = 0, s_uid = 0, s_gid = 0, s_rdev = 0,
     s_ino = 0, s_size = 0, s_blksize = 0, s_blocks = 0, s_atim = \<lparr>tv_sec = 0, tv_nsec = 0\<rparr>,
     s_mtim = \<lparr>tv_sec = 0, tv_nsec = 0\<rparr>, s_ctim = \<lparr>tv_sec = 0, tv_nsec = 0\<rparr>\<rparr>, a_text = [], a_dents = [], a_mem = True\<rparr>"

definition calm_os :: fs_os where
  "calm_os = \<lparr>o_mem = True, o_pymem = True, o_decodes = (\<lambda>_. True), o_interrupted = 0, o_answer = no_answer\<rparr>"

lemma names_decode_calm: "names_decode calm_os"
  by (simp add: names_decode_def calm_os_def)

text \<open>The callback 3 cancels its request, keeps it and raises an exception.\<close>

definition cancelling :: rprogram where
  "cancelling = \<lparr>rbody = (\<lambda>f rs args. map (\<lambda>r S. Cancel r) rs @ map (\<lambda>r S. KeepReq r) rs), rreturns = (\<lambda>_ _ _ _. None),
     rhooks = (\<lambda>_. AttrMissing)\<rparr>"

text \<open>The loop 1 and the function 3 of \<open>fresh\<close>: the program calls \<open>pyuv.fs.unlink(loop, 'x', f)\<close>.\<close>

definition unlinking :: rworld where
  "unlinking = run_raction (requesting (\<lambda>_. 0) cancelling 2) (\<lambda>_. 0) [] []
     (FsCall calm_os 1 (Some 3) (FsUnlink ''x'')) (no_requests (fresh IdleC))"

section \<open>Interrupted system calls\<close>

lemma buf_iter_interrupted:
  assumes "fs_nbufs req = length (fs_bufs req)" and "length (fs_bufs req) \<le> IOV_MAX" and "fs_bufs req \<noteq> []"
  shows "uv__fs_buf_iter IOV_MAX (\<lambda>_. (-1, EINTR)) req = (-1, EINTR, req)"
proof -
  have e: "min (length (fs_bufs req)) (max (Suc 0) IOV_MAX) = fs_nbufs req" using assms by (simp add: IOV_MAX_def)
  have "buf_iter_loop IOV_MAX (\<lambda>_. (-1, EINTR)) 0 0 req (fs_bufs req) = (-1, EINTR, req)"
    by (subst buf_iter_loop.simps) (simp add: e assms(3) Let_def)
  then show ?thesis by (simp add: uv__fs_buf_iter_def)
qed

lemmas fs_action_defs = uv__fs_stat_def uv__fs_lstat_def uv__fs_fstat_def uv__fs_readlink_def uv__fs_realpath_def

text \<open>One attempt that is interrupted leaves a request that the next attempt treats in the same way.\<close>

definition one_buffer_list :: "uv_fs_type \<Rightarrow> uv_fs_t \<Rightarrow> bool" where
  "one_buffer_list t req \<longleftrightarrow> (t = UV_FS_READ \<or> t = UV_FS_WRITE \<longrightarrow>
     fs_nbufs req = length (fs_bufs req) \<and> length (fs_bufs req) \<le> IOV_MAX \<and> fs_bufs req \<noteq> [])"

lemma interrupted_attempt:
  assumes b: "one_buffer_list t req" and i: "a_ret i = -1" "a_errno i = EINTR"
  shows "(\<exists>req1. fs_switch i t req = (-1, EINTR, req1) \<and> fs_switch c t req1 = fs_switch c t req \<and> one_buffer_list t req1) \<or>
    (\<not> a_mem i \<and> fs_switch i t req = (-1, ENOMEM, req) \<and> (t = UV_FS_READLINK \<or> t = UV_FS_REALPATH))"
proof -
  consider "t = UV_FS_READ" | "t = UV_FS_WRITE" | "t = UV_FS_SCANDIR"
    | "fs_switch i t req = (-1, EINTR, req)" "t \<noteq> UV_FS_READ"
    | "\<not> a_mem i" "t = UV_FS_READLINK \<or> t = UV_FS_REALPATH"
    using i by (cases t; cases "a_mem i") (auto simp: fs_switch_def fs_action_defs)
  then show ?thesis
  proof cases
    case 1
    let ?q = "req\<lparr>fs_data := []\<rparr>"
    have "fs_switch i t req = (-1, EINTR, ?q)"
      using buf_iter_interrupted [of ?q] b i 1 by (simp add: fs_switch_def one_buffer_list_def)
    moreover have "fs_switch c t ?q = fs_switch c t req" using 1 by (simp add: fs_switch_def)
    moreover have "one_buffer_list t ?q" using b by (simp add: one_buffer_list_def)
    ultimately show ?thesis by blast
  next
    case 2
    have "fs_switch i t req = (-1, EINTR, req)"
      using buf_iter_interrupted [of req] b i 2 by (simp add: fs_switch_def one_buffer_list_def)
    then show ?thesis using b by blast
  next
    case 3
    let ?q = "req\<lparr>fs_nbufs := 0\<rparr>"
    have "fs_switch i t req = (-1, EINTR, ?q)" using 3 i by (simp add: fs_switch_def uv__fs_scandir_def)
    moreover have "fs_switch c t ?q = fs_switch c t req" using 3 by (simp add: fs_switch_def uv__fs_scandir_def)
    moreover have "one_buffer_list t ?q" using 3 by (simp add: one_buffer_list_def)
    ultimately show ?thesis by blast
  next
    case 4
    then show ?thesis using b by blast
  next
    case 5
    then show ?thesis by (auto simp: fs_switch_def fs_action_defs)
  qed
qed

lemma fs_attempts_interrupted:
  assumes "t \<noteq> UV_FS_CLOSE" and "one_buffer_list t req"
  shows "fs_attempts n a t req = fs_switch a t req"
  using assms(2)
proof (induction n arbitrary: req)
  case (Suc n)
  let ?i = "a\<lparr>a_ret := -1, a_errno := EINTR\<rparr>"
  from interrupted_attempt [OF Suc.prems, of ?i a]
  consider req1 where "fs_switch ?i t req = (-1, EINTR, req1)" "fs_switch a t req1 = fs_switch a t req" "one_buffer_list t req1"
    | "\<not> a_mem a" "fs_switch ?i t req = (-1, ENOMEM, req)" "t = UV_FS_READLINK \<or> t = UV_FS_REALPATH" by auto
  then show ?case
  proof cases
    case (1 req1)
    then show ?thesis using Suc.IH [OF 1(3)] assms(1) by simp
  next
    case 2
    have "fs_switch a t req = (-1, ENOMEM, req)" using 2(1,3) by (auto simp: fs_switch_def fs_action_defs)
    then show ?thesis using 2(2) by (simp add: EINTR_def ENOMEM_def)
  qed
qed simp

end
