(* ===== verification/Request_Properties.thy ===== *)
theory Request_Properties
  imports Request_Machine
begin

text \<open>
  What holds of the requests: of the thread pool of libuv in every interleaving, and of the requests of pyuv
  (file system, DNS, \<open>queue_work\<close>) for every Python program, with the threads of the pool at work.
\<close>

section \<open>Samples\<close>



text \<open>Two works; the first was taken by a thread, the second was cancelled while it waited.\<close>

definition two_works :: pool where
  "two_works = snd (uv__work_cancel 1 (the (worker_takes 1 (uv__work_submit 9 1 (uv__work_submit 9 0 pool_init)))))"

lemmas pool_evals = uv__work_submit_def worker_takes_def uv__work_cancel_def set_work_def enqueue_done_def unlink_work_def
  worker_finishes_def work_done_begins_def work_done_next_def pool_init_def Let_def

lemma waiting_reachable:
  "pool_steps 1 pool_init (the (worker_takes 1 (uv__work_submit 9 1 (uv__work_submit 9 0 pool_init))))"
proof -
  have "pool_steps 1 pool_init (uv__work_submit 9 0 pool_init)"
    by (rule r_into_rtranclp, rule background [OF submit]) (simp_all add: in_pool_def reported_def pool_init_def)
  moreover have "pool_step 1 (uv__work_submit 9 0 pool_init) (uv__work_submit 9 1 (uv__work_submit 9 0 pool_init))"
    by (rule background [OF submit]) (simp_all add: in_pool_def reported_def pool_evals)
  moreover have "pool_step 1 (uv__work_submit 9 1 (uv__work_submit 9 0 pool_init))
      (the (worker_takes 1 (uv__work_submit 9 1 (uv__work_submit 9 0 pool_init))))"
    by (rule background [OF take]) (simp add: pool_evals)
  ultimately show ?thesis by (blast intro: rtranclp.rtrancl_into_rtrancl)
qed

section \<open>The thread pool\<close>

text \<open>
  C31: In every interleaving of submissions, threads of the pool, cancellations (of a request whose callback was
  not called yet) and \<open>uv__work_done\<close>, a work is started at most once and reported at most once; it is
  reported with 0 when a thread ran it and with \<open>UV_ECANCELED\<close> when none did, and when it has been
  reported it is in no queue and no thread has it.
\<close>


theorem each_work_is_reported_once:
  assumes "pool_steps n pool_init p"
  shows "distinct (started p) \<and>
    (statuses p j = [] \<or> statuses p j = [0] \<and> j \<in> set (started p) \<or> statuses p j = [UV_ECANCELED] \<and> j \<notin> set (started p)) \<and>
    (statuses p j \<noteq> [] \<longrightarrow> \<not> in_pool p j) \<and> (j \<in> set (started p) \<longrightarrow> in_pool p j \<or> statuses p j = [0])"
proof -
  note D = pool_okD(6,7) [OF pool_ok_reachable [OF assms]]
  show ?thesis using D(1) D(2) [of j] by (auto simp: work_ok_def in_pool_eq)
qed

lemma each_work_is_reported_once_witness:
  "statuses two_works 1 = [] \<and> in_pool two_works 0 \<and> distinct (started two_works)"
proof -
  have c: "pool_steps 1 pool_init two_works"
    unfolding two_works_def
    by (rule rtranclp.rtrancl_into_rtrancl [OF waiting_reachable], rule background, rule cancel)
      (simp add: in_pool_def pool_evals)
  have "0 \<in> set (started two_works)" "statuses two_works 0 = []" "statuses two_works 1 = []"
    by (simp_all add: two_works_def pool_evals statuses_def)
  with each_work_is_reported_once [OF c, of 0] show ?thesis by auto
qed

text \<open>
  C32: The cancellation of a work that no thread has taken succeeds, whatever the threads do at the same time:
  from then on no thread starts the work, and the only status its loop ever reports is \<open>UV_ECANCELED\<close>; until
  then it is in a queue of that loop. Once a thread has the work the cancellation fails with \<open>UV_EBUSY\<close> and
  changes nothing.
\<close>


theorem cancelled_work_never_runs:
  assumes "pool_steps n pool_init p" and "in_pool p j"
  shows "if j \<in> set (started p) then uv__work_cancel j p = (UV_EBUSY, p)
    else fst (uv__work_cancel j p) = 0 \<and> (\<forall>q. pool_steps n (snd (uv__work_cancel j p)) q \<longrightarrow>
      j \<notin> set (started q) \<and> (statuses q j = [UV_ECANCELED] \<or> statuses q j = [] \<and> (\<exists>l. in_loop q j l)))"
proof (cases "j \<in> set (started p)")
  case True
  have "\<not> (w_linked (works p j) \<and> w_work (works p j) \<noteq> WorkNull)"
    using pool_okD(7) [OF pool_ok_reachable [OF assms(1)], of j] assms(2) True by (auto simp: work_ok_def in_pool_eq)
  then show ?thesis using True by (simp add: uv__work_cancel_def)
next
  case False
  let ?q = "snd (uv__work_cancel j p)"
  have ok: "pool_ok p" by (rule pool_ok_reachable [OF assms(1)])
  have b: "w_linked (works p j) \<and> w_work (works p j) \<noteq> WorkNull"
    using pool_okD(7) [OF ok, of j] assms(2) False by (auto simp: work_ok_def in_pool_eq)
  have c: "fst (uv__work_cancel j p) = 0" "cancelled ?q j"
    using b False by (simp_all add: uv__work_cancel_def cancelled_def pool_evals)
  have ok': "pool_ok ?q" by (rule pool_ok_cancel [OF ok assms(2)])
  have "j \<notin> set (started q) \<and> (statuses q j = [UV_ECANCELED] \<or> statuses q j = [] \<and> (\<exists>l. in_loop q j l))"
    if "pool_steps n ?q q" for q
  proof -
    have "cancelled q j" "pool_ok q"
      using cancelled_steps [OF that ok' c(2)] pool_ok_steps [OF that ok'] by blast+
    note c = this(1) cancelled_where [OF this(2,1)] and w = pool_okD(7) [OF this(2), of j]
    show ?thesis
    proof (cases "statuses q j = []")
      case True
      then show ?thesis using c unfolding cancelled_def in_pool_eq statuses_reported by blast
    next
      case False
      then show ?thesis using c(1) w unfolding cancelled_def work_ok_def by blast
    qed
  qed
  then show ?thesis using c(1) False by simp
qed

lemma cancelled_work_never_runs_witness:
  "in_loop two_works 1 9 \<and> fst (uv__work_cancel 0 two_works) = UV_EBUSY"
proof -
  let ?p = "the (worker_takes 1 (uv__work_submit 9 1 (uv__work_submit 9 0 pool_init)))"
  have "in_pool ?p 1" "1 \<notin> set (started ?p)" by (simp_all add: in_pool_def pool_evals)
  with cancelled_work_never_runs [OF waiting_reachable, of 1]
  have "\<forall>q. pool_steps 1 two_works q \<longrightarrow> 1 \<notin> set (started q)" by (simp add: two_works_def)
  then have "1 \<notin> set (started two_works)" by blast
  moreover have "in_loop two_works 1 9" "fst (uv__work_cancel 0 two_works) = UV_EBUSY"
    by (simp_all add: two_works_def in_loop_def pool_evals)
  ultimately show ?thesis by simp
qed

section \<open>Requests and Python\<close>



text \<open>
  C34: A file system request whose system call is interrupted any number of times ends as if it had not been
  interrupted, result and data alike (a read or a write of at most \<open>IOV_MAX\<close> buffers, as pyuv makes them).
  Only \<open>close\<close> is not repeated: it fails with \<open>EINTR\<close>.
\<close>


theorem interrupted_calls_are_repeated:
  assumes "fs_type req = Some t" and "one_buffer_list t req"
  shows "(t \<noteq> UV_FS_CLOSE \<longrightarrow> uv__fs_work n a req = uv__fs_work 0 a req) \<and>
    (t = UV_FS_CLOSE \<and> 0 < n \<longrightarrow> map_option fs_result (uv__fs_work n a req) = Some (- EINTR))"
proof -
  have "map_option fs_result (uv__fs_work n a req) = Some (- EINTR)" if "t = UV_FS_CLOSE" "0 < n"
    using that assms(1) by (cases n) (simp_all add: uv__fs_work_def fs_switch_def set_result_def Let_def)
  then show ?thesis
    using fs_attempts_interrupted [OF _ assms(2), of n a] assms(1) by (auto simp: uv__fs_work_def)
qed

lemma interrupted_calls_are_repeated_witness:
  "uv__fs_work 3 no_answer (fs_zero\<lparr>fs_type := Some UV_FS_READ, fs_bufs := [10], fs_nbufs := 1\<rparr>) =
   uv__fs_work 0 no_answer (fs_zero\<lparr>fs_type := Some UV_FS_READ, fs_bufs := [10], fs_nbufs := 1\<rparr>)"
  using interrupted_calls_are_repeated [of "fs_zero\<lparr>fs_type := Some UV_FS_READ, fs_bufs := [10], fs_nbufs := 1\<rparr>" UV_FS_READ 3 no_answer]
  by (simp add: one_buffer_list_def IOV_MAX_def)

text \<open>
  C35: A file system request that was cancelled can be cancelled again from its own callback: \<open>cancel\<close> answers
  \<open>True\<close> and libuv queues the work once more, although it has been reported. When the loop reports it again
  the assertion of \<open>uv__fs_done\<close> (the result is still 0) fails, and the process aborts.
\<close>


theorem cancel_again_aborts:
  assumes "pool_steps n pool_init (thr_pool S)" and "statuses (thr_pool S) r = [UV_ECANCELED]"
    and "rclass (reqs S ! r) = FSRequest" and "req_ptr (reqs S ! r)" and "typed (reqs S ! r)"
    and "fs_result (r_fs (reqs S ! r)) = UV_ECANCELED"
  shows "fst (Request_func_cancel r S) \<and> in_pool (thr_pool (snd (Request_func_cancel r S))) r \<and>
    w_work (works (thr_pool (snd (Request_func_cancel r S))) r) = WorkCancelled \<and>
    call_done py E r UV_ECANCELED (snd (Request_func_cancel r S)) = None"
proof -
  have "w_linked (works (thr_pool S) r) \<and> w_work (works (thr_pool S) r) = WorkCancelled"
    using pool_okD(7) [OF pool_ok_reachable [OF assms(1)], of r] assms(2) by (auto simp: work_ok_def UV_ECANCELED_def)
  then have "uv__work_cancel r (thr_pool S) = (0, snd (uv__work_cancel r (thr_pool S)))"
    "in_pool (snd (uv__work_cancel r (thr_pool S))) r" "w_work (works (snd (uv__work_cancel r (thr_pool S))) r) = WorkCancelled"
    by (simp_all add: uv__work_cancel_def in_pool_enqueue) (simp add: enqueue_done_def set_work_def Let_def)
  then show ?thesis
    using assms(3-6) by (cases "uv__work_cancel r (thr_pool S)")
      (simp add: Request_func_cancel_def uv_cancel_def on_pool_def call_done_def uv__fs_done_def UV_ECANCELED_def Let_def)
qed

text \<open>A request that was cancelled and whose callback runs.\<close>

definition reported_once :: pool where
  "reported_once = the (work_done_next 9 (work_done_begins 9 (snd (uv__work_cancel 0 (uv__work_submit 9 0 pool_init)))))"

definition in_its_callback :: rworld where
  "in_its_callback = (no_requests boot)\<lparr>reqs := [(request_zero FSRequest)\<lparr>req_ptr := True, typed := True,
     r_fs := fs_zero\<lparr>fs_type := Some UV_FS_UNLINK, fs_result := UV_ECANCELED\<rparr>\<rparr>], thr_pool := reported_once\<rparr>"

lemma reported_once_reachable: "pool_steps 1 pool_init reported_once"
proof -
  have "pool_steps 1 pool_init (uv__work_submit 9 0 pool_init)"
    by (rule r_into_rtranclp, rule background [OF submit]) (simp_all add: in_pool_def reported_def pool_init_def)
  moreover have "pool_step 1 (uv__work_submit 9 0 pool_init) (snd (uv__work_cancel 0 (uv__work_submit 9 0 pool_init)))"
    by (rule background [OF cancel]) (rule in_pool_submit)
  moreover have "pool_step 1 (snd (uv__work_cancel 0 (uv__work_submit 9 0 pool_init)))
      (work_done_begins 9 (snd (uv__work_cancel 0 (uv__work_submit 9 0 pool_init))))"
    by (rule begins [where l = 9]) (simp add: pool_evals)
  moreover have "pool_step 1 (work_done_begins 9 (snd (uv__work_cancel 0 (uv__work_submit 9 0 pool_init)))) reported_once"
    by (rule nxt [where l = 9]) (simp add: reported_once_def pool_evals)
  ultimately show ?thesis by (blast intro: rtranclp.rtrancl_into_rtrancl)
qed

lemma cancel_again_aborts_witness:
  "fst (Request_func_cancel 0 in_its_callback) \<and>
    call_done (requesting (\<lambda>_. 0) cancelling 2) calm_os 0 UV_ECANCELED (snd (Request_func_cancel 0 in_its_callback)) = None"
proof -
  have "pool_steps 1 pool_init (thr_pool in_its_callback)" "statuses (thr_pool in_its_callback) 0 = [UV_ECANCELED]"
    using reported_once_reachable by (simp_all add: in_its_callback_def) (simp add: reported_once_def pool_evals statuses_def)
  from cancel_again_aborts [OF this] show ?thesis by (simp add: in_its_callback_def request_zero_def)
qed

end
