(* ===== verification/Spec2Isabelle.thy ===== *)
theory Spec2Isabelle
  imports Socket_Properties Heap_Properties Loop_Properties Request_Properties
begin

text \<open>
  Verification of pyuv, the Python interface to libuv (src/src, with the vendored libuv under
  src/deps/libuv).

  Parts. The state (\<open>Pyuv_World\<close>) is the Python heap with reference counts, the C structs of
  handles and loops with the libuv structs embedded in them, the requests in flight, the references
  of the Python program, and a trace of the calls into Python. What the operating system answers
  and what the program does are parameters.
\<close>

section \<open>The whole interface\<close>



lemma count_list_distinct: "distinct xs \<Longrightarrow> count_list xs x = of_bool (x \<in> set xs)"
  by (induction xs) (auto simp: count_list_0_iff)

lemma uv_open_upd [simp]:
  "uv_open (loops (upd_uv h f w) l) = uv_open (loops w l)" "uv_open (loops (upd_uvl k g w) l) = uv_open (loops w l)"
  "uv_open (loops (uv__handle_stop h w) l) = uv_open (loops w l)"
  "uv_open (loops (uv_ref h w) l) = uv_open (loops w l)"
  by (simp_all add: upd_defs uv__handle_stop_def uv_ref_def uv__active_handle_rm_def uv__active_handle_add_def Let_def)

lemma uv_open_stop [simp]:
  "uv_open (loops (uv_timer_stop h w) l) = uv_open (loops w l)"
  "uv_open (loops (uv_watcher_stop fld h w) l) = uv_open (loops w l)"
  "uv_open (loops (uv__async_close h w) l) = uv_open (loops w l)"
  "uv_open (loops (uv__signal_stop h w) l) = uv_open (loops w l)"
  "uv_open (loops (uv__poll_stop h w) l) = uv_open (loops w l)"
  "uv_open (loops (uv_read_stop h w) l) = uv_open (loops w l)"
  by (simp_all add: uv_timer_stop_def uv_watcher_stop_def uv__async_close_def uv__signal_stop_def uv__poll_stop_def
      uv_read_stop_def Let_def)

lemma uv_open_type_close [simp]: "uv_open (loops (uv__type_close h w) l) = uv_open (loops w l)"
  by (simp add: uv__type_close_def uv__stream_close_def uv__pipe_close_def uv__udp_close_def
      split: option.split uv_handle_type.split)

lemma uv_open_close [simp]: "uv_open (loops (uv_close h cb w) l) = uv_open (loops w l)"
  by (simp add: uv_close_def Let_def uv__make_close_pending_def)

lemma release_closed_loop:
  assumes "\<not> valid w l" and "\<not> uv_open (loops w l)"
  shows "\<not> valid (release xs w) l \<and> \<not> uv_open (loops (release xs w) l)"
  using assms
proof (induction xs w rule: release.induct)
  case (2 x xs w)
  obtain ys w' where t: "tp_dealloc x (dec_count x w) = (ys, w')" by fastforce
  show ?case
  proof (cases "valid w x \<and> refcnt (objs w ! x) = 1")
    case True
    then have "x \<noteq> l" using 2 by blast
    then have "\<not> valid w' l \<and> \<not> uv_open (loops w' l)"
      using t 2(4,5) by (auto simp: tp_dealloc_def Loop_tp_dealloc_def Handle_tp_dealloc_def Let_def free_obj_def
          resurrect_object_def upd_obj_nth dec_count_def valid_def uv_open_close upd_Loop_def uv_loop_close_def
          split: kind.splits if_splits)
    then show ?thesis using True t 2(3) by (simp add: release.simps(2))
  next
    case False
    then show ?thesis using 2(1,2,4,5)
      by (auto simp: release.simps(2) dec_count_def valid_def upd_obj_nth)
  qed
qed (simp add: release.simps)

text \<open>The state after a script that starts when the extension has just been imported.\<close>

abbreviation after_script :: "(double \<Rightarrow> 64 word) \<Rightarrow> (world \<Rightarrow> action) list \<Rightarrow> world" where
  "after_script ub stmts \<equiv> run_body ub [] stmts boot"

lemma ok_after_script: "ok {#} (after_script ub stmts)"
  using run_body_ok [OF ok_boot] by simp

text \<open>A loop (1), an idle handle (2) that is started and a function (3).\<close>

definition idle_script :: "(world \<Rightarrow> action) list" where
  "idle_script = map (\<lambda>c w. Invoke c) (new_calls IdleC) @ [\<lambda>w. Invoke (IdleCall 2 (WInit (Inr 1)))]"

lemma run_body_append: "run_body ub args (xs @ ys) w = run_body ub args ys (run_body ub args xs w)"
  by (simp add: run_body_def)

lemma idle_script_state: "after_script (\<lambda>_. 0) idle_script = idle_ready"
proof -
  have f: "fst (Idle_tp_init 2 (Inr 1) (fresh IdleC)) = Ok ()"
    by (simp add: Idle_tp_init_def guard_defs fresh_eq uv_idle_init_def Let_def handle_zero_def)
  have k: "known [] (fresh IdleC) 1" "known [] (fresh IdleC) 2" "on_class ((=) IdleC) 2 (fresh IdleC) z = z" "kind (objs (fresh IdleC) ! 1) = KLoop" for z
    by (simp_all add: known_def on_class_def fresh_eq obj_def)
  obtain w1 where w1: "Idle_tp_init 2 (Inr 1) (fresh IdleC) = (Ok (), w1)" using f by (metis prod.collapse)
  show ?thesis
    unfolding idle_script_def run_body_append fresh_def [symmetric]
    using k fresh_there(1) [of IdleC] w1
    by (simp add: run_body_def run_action_def as_none_def loop_arg_def idle_ready_def)
qed



text \<open>
  C3: After every script (as above) a handle that is initialised and whose close has not finished is a live
  object on the handle queue of exactly one libuv loop, once, and the \<open>Loop\<close> object that embeds that loop is
  allocated and referred to by the handle: no script makes libuv work on a loop that was freed.
\<close>

theorem open_handle_has_loop:
  assumes "initialized (hs (after_script ub stmts) h)" and "\<not> u_closed (uvh (after_script ub stmts) h)"
  shows "\<exists>l. slot_of (after_script ub stmts) h S_loop = Some l \<and> is_loop (after_script ub stmts) l \<and>
    is_handle (after_script ub stmts) h \<and>
    (\<forall>k. count_list (handle_queue (uvl (after_script ub stmts) k)) h = of_bool (k = l))"
proof -
  let ?w = "after_script ub stmts"
  obtain l where l: "slot_of ?w h S_loop = Some l" "u_loop (uvh ?w h) = Some l" "is_loop ?w l" "is_handle ?w h"
    using wf_loop_valid [OF okD(1) [OF ok_after_script] assms] by blast
  have "count_list (handle_queue (uvl ?w k)) h = of_bool (k = l)" for k
    using uv_inv_handle_queue(1) [OF okD(2) [OF ok_after_script [of ub stmts]], of k]
      uv_inv_handle_queue(2) [OF okD(2) [OF ok_after_script [of ub stmts]], of h k] l(2) assms(2)
    by (auto simp: count_list_distinct)
  with l show ?thesis by blast
qed

lemma open_handle_has_loop_witness: "handle_queue (uvl idle_ready 1) = [2] \<and> count_list (handle_queue (uvl idle_ready 1)) 2 = 1"
  using open_handle_has_loop [of "\<lambda>_. 0" idle_script 2] unfolding idle_script_state
  by (auto simp: ready_eq ready_state_def ready_uv_def uv_zero_def)

text \<open>
  C4: When a script (as above) drops the last reference to a \<open>Loop\<close> object that has no request in flight, the
  object is freed and \<open>uv_loop_close\<close> has succeeded: the libuv loop is closed and no handle is left on it.
\<close>

theorem last_reference_frees_loop:
  assumes "kind (objs (after_script ub stmts) ! l) = KLoop" and "uv_open (loops (after_script ub stmts) l)"
    and "refcnt (objs (after_script ub stmts) ! l) = 1" and "0 < ext (after_script ub stmts) l"
    and "active_reqs (uvl (after_script ub stmts) l) = 0"
  shows "\<not> valid (after_script ub (stmts @ [\<lambda>w. Drop l])) l \<and>
    \<not> uv_open (loops (after_script ub (stmts @ [\<lambda>w. Drop l])) l) \<and>
    (u_loop (uvh (after_script ub (stmts @ [\<lambda>w. Drop l])) h) = Some l \<longrightarrow>
      u_closed (uvh (after_script ub (stmts @ [\<lambda>w. Drop l])) h))"
proof -
  let ?w = "after_script ub stmts" and ?w' = "after_script ub (stmts @ [\<lambda>w. Drop l])"
  have ok: "ok {#} ?w" by (rule ok_after_script)
  have n: "l \<noteq> Py_None" using okD(1) [OF ok] assms(1) by (intro notI) (simp add: wf_refs_def none_ok_def)
  have v: "valid ?w l" by (rule wf_valid_ext [OF okD(1) [OF ok] assms(4)])
  have w': "?w' = Py_DECREF l (ext_give l ?w)"
    using assms(4) n unfolding run_body_append by (simp add: run_body_def run_action_def)
  have okg: "ok (add_mset l {#}) (ext_give l ?w)" by (rule ok_ext_give [OF ok assms(4) n])
  have q: "handle_queue (uvl ?w l) = []"
    using unreferenced_loop_empty [OF okg] assms(1,3) by (simp add: ext_give_def)
  let ?v = "dec_count l (ext_give l ?w)"
  have u: "uvl ?v l = uvl ?w l" "loops ?v l = loops ?w l" "kind (objs ?v ! l) = KLoop"
    using assms(1) v by (simp_all add: dec_count_def ext_give_def upd_obj_def valid_def)
  define ys w2 where "ys = fst (tp_dealloc l ?v)" and "w2 = snd (tp_dealloc l ?v)"
  have t: "tp_dealloc l ?v = (ys, w2)" by (simp add: ys_def w2_def)
  have d: "\<not> uv_open (loops w2 l)" "\<not> valid w2 l"
    using u q assms(2,5) v
    by (simp_all add: w2_def tp_dealloc_def Loop_tp_dealloc_def Let_def uv_loop_close_def free_obj_def upd_Loop_def valid_def
        upd_obj_def dec_count_def ext_give_def)
  have r: "?w' = release ys w2"
    unfolding w' by (subst release.simps(2)) (use v assms(3) t in \<open>simp add: ext_give_def valid_def\<close>)
  have f: "\<not> valid ?w' l \<and> \<not> uv_open (loops ?w' l)" using release_closed_loop [OF d(2,1)] unfolding r .
  have "u_closed (uvh ?w' h)" if "u_loop (uvh ?w' h) = Some l"
  proof (rule ccontr)
    assume "\<not> u_closed (uvh ?w' h)"
    then have "initialized (hs ?w' h)" using wf_handle_ok [OF okD(1) [OF ok_after_script], of ub "stmts @ [\<lambda>w. Drop l]" h] that
      by (auto simp: handle_ok_def)
    from wf_loop_valid [OF okD(1) [OF ok_after_script] this \<open>\<not> u_closed (uvh ?w' h)\<close>] that f
    show False by (auto simp: is_loop_def)
  qed
  with f show ?thesis by blast
qed

lemma last_reference_frees_loop_witness:
  "\<not> valid (after_script (\<lambda>_. 0) (map (\<lambda>c w. Invoke c) (new_calls IdleC) @ [\<lambda>w. Drop 1])) 1"
  using last_reference_frees_loop [of "\<lambda>_. 0" "map (\<lambda>c w. Invoke c) (new_calls IdleC)" 1] unfolding fresh_def [symmetric]
  by (simp add: fresh_eq obj_def uv_loop_zero_def)

text \<open>
  C5: After every script (as above) the counter \<open>active_handles\<close> of a loop is the number of its handles that
  are active and referenced, so that it never wraps below zero, and \<open>loop.alive\<close> is true exactly when there
  is such a handle, a request is in flight, or the queue of the handles to close is not empty (a closed
  signal handle with signals still in the pipe is not in it).
\<close>

theorem active_handles_exact:
  assumes "w' = after_script ub stmts"
  shows "active_handles (uvl w' l) =
      int (card {h. u_loop (uvh w' h) = Some l \<and> \<not> u_closed (uvh w' h) \<and> u_active (uvh w' h) \<and> u_ref (uvh w' h)}) \<and>
    (fst (Loop_alive_get l w') = Ok True \<longleftrightarrow>
      (\<exists>h. u_loop (uvh w' h) = Some l \<and> u_active (uvh w' h) \<and> u_ref (uvh w' h)) \<or>
      active_reqs (uvl w' l) > 0 \<or> closing_handles (uvl w' l) \<noteq> [])"
proof -
  have "ok {#} w'" using ok_after_script assms by simp
  then have inv: "uv_inv w'" by (rule okD)
  let ?f = "filter (\<lambda>h. counted (uvh w' h)) (handle_queue (uvl w' l))"
  have s: "set ?f = {h. u_loop (uvh w' h) = Some l \<and> \<not> u_closed (uvh w' h) \<and> u_active (uvh w' h) \<and> u_ref (uvh w' h)}"
    using uv_inv_handle_queue(2) [OF inv] by (auto simp: counted_def)
  have a: "active_handles (uvl w' l) = int (length ?f)"
    using inv by (simp add: uv_inv_def loop_ok_def)
  have n: "length ?f = card (set ?f)"
    using distinct_card [of ?f] uv_inv_handle_queue(1) [OF inv] by simp
  have c: "\<not> u_closed (uvh w' h)" if "u_active (uvh w' h)" for h
    using uv_inv_uh [OF inv, of h] that by (auto simp: uh_ok_def)
  have "length ?f > 0 \<longleftrightarrow> set ?f \<noteq> {}" by (simp only: length_greater_0_conv set_empty)
  also have "\<dots> \<longleftrightarrow> (\<exists>h. u_loop (uvh w' h) = Some l \<and> u_active (uvh w' h) \<and> u_ref (uvh w' h))"
    unfolding s using c by auto
  finally have "length ?f > 0 \<longleftrightarrow> (\<exists>h. u_loop (uvh w' h) = Some l \<and> u_active (uvh w' h) \<and> u_ref (uvh w' h))" .
  then show ?thesis using a n s by (simp add: Loop_alive_get_def uv__loop_alive_def)
qed

lemma active_handles_exact_witness:
  "active_handles (uvl (after_script (\<lambda>_. 0) (idle_script @ [\<lambda>w. Invoke (IdleCall 2 (WStart (Inr 3)))])) 1) = 1 \<and>
   fst (Loop_alive_get 1 (after_script (\<lambda>_. 0) (idle_script @ [\<lambda>w. Invoke (IdleCall 2 (WStart (Inr 3)))]))) = Ok True"
proof -
  let ?w = "after_script (\<lambda>_. 0) (idle_script @ [\<lambda>w. Invoke (IdleCall 2 (WStart (Inr 3)))])"
  have w: "?w = run_action (\<lambda>_. 0) [] (Invoke (IdleCall 2 (WStart (Inr 3)))) idle_ready"
    unfolding run_body_append idle_script_state by (simp add: run_body_def)
  have u: "u_loop (uvh ?w h) = (if h = 2 then Some 1 else None)" "u_active (uvh ?w 2)" "u_ref (uvh ?w 2)" "\<not> u_closed (uvh ?w 2)" for h
    unfolding w by (simp_all add: idle_evals evals stream_evals)
  then have "{h. u_loop (uvh ?w h) = Some 1 \<and> \<not> u_closed (uvh ?w h) \<and> u_active (uvh ?w h) \<and> u_ref (uvh ?w h)} = {2}" by auto
  with active_handles_exact [OF refl, of "\<lambda>_. 0" "idle_script @ [\<lambda>w. Invoke (IdleCall 2 (WStart (Inr 3)))]" 1] u show ?thesis
    by auto
qed

section \<open>Deallocation\<close>

text \<open>
  C6: Dropping references never frees an object that is still referred to and never leaves a count too
  high, through the whole cascade of deallocations that it starts: the counts, the fields and the libuv
  structs agree again afterwards, and what somebody else holds is not touched.
\<close>

theorem release_balanced:
  assumes "ok (mset xs + fr) w"
  shows "ok fr (release xs w) \<and>
    (y \<in># fr \<or> 0 < ext w y \<longrightarrow> valid (release xs w) y \<and> hs (release xs w) y = hs w y \<and>
      slots (objs (release xs w) ! y) = slots (objs w ! y))"
  using ok_release [OF assms] release_held [OF okD(1) [OF assms], of y]
    held_valid [OF okD(1) [OF ok_release [OF assms]], of y] by (auto simp: held_def)

lemma release_balanced_witness:
  "ok {#} (release [1] (ext_give 1 (fresh IdleC)))"
  using release_balanced [of "[1]" "{#}" "ext_give 1 (fresh IdleC)"] ok_ext_give [OF ok_fresh, where x = 1]
  by (simp add: fresh_eq)

text \<open>
  C7: When the last reference to an open handle is dropped the object is not freed: it is closed with the
  deallocation callback and lives with one reference, that of the pending close; no callback of the
  program is called for it.
\<close>

theorem dealloc_closes_open_handle:
  assumes "valid w h" and "kind (objs w ! h) = KHandle c" and "initialized (hs w h)"
    and "\<not> uv_is_closing h w" and "refcnt (objs w ! h) = 1"
  shows "valid (Py_DECREF h w) h \<and> refcnt (objs (Py_DECREF h w) ! h) = 1 \<and> u_closing (uvh (Py_DECREF h w) h) \<and>
    u_close_cb (uvh (Py_DECREF h w) h) = Some pyuv__handle_dealloc_close_cb \<and>
    slots (objs (Py_DECREF h w) ! h) = slots (objs w ! h) \<and> trace (Py_DECREF h w) = trace w"
proof -
  let ?w = "resurrect_object h (uv_close h pyuv__handle_dealloc_close_cb (dec_count h w))"
  have "tp_dealloc h (dec_count h w) = ([], ?w)"
    using assms by (simp add: tp_dealloc_def Handle_tp_dealloc_def uv_is_closing_def)
  then have e: "Py_DECREF h w = ?w" using assms by (simp add: release.simps)
  have "objs ?w = objs w" by (rule resurrect_dec) (use assms in \<open>auto simp: valid_def\<close>)
  then have "valid ?w h \<and> refcnt (objs ?w ! h) = 1 \<and> slots (objs ?w ! h) = slots (objs w ! h)"
    using assms by (simp add: valid_def)
  moreover have "trace ?w = trace w" using e release_frame(3) [of "[h]" w] by simp
  ultimately show ?thesis by (simp only: e) (simp add: resurrect_object_def)
qed

lemma dealloc_closes_open_handle_witness:
  "u_closing (uvh (Py_DECREF 2 idle_ready) 2)"
  using dealloc_closes_open_handle [of idle_ready 2 IdleC]
  by (simp add: ready_eq ready_state_def obj_def valid_def ready_uv_def uv_zero_def uv_is_closing_def)

section \<open>Timers\<close>

lemma clamped_timeout_min: "unat (clamped_timeout now t) = min (unat now + unat t) (2 ^ 64 - 1)"
proof (cases "unat now + unat t < 2 ^ 64")
  case True
  then have "unat (now + t) = unat now + unat t" by (simp add: unat_word_ariths)
  then show ?thesis using True by (simp add: clamped_timeout_def Let_def word_less_nat_alt)
next
  case False
  have "unat now < 2 ^ 64" "unat t < 2 ^ 64" using unsigned_less [of now] unsigned_less [of t] by simp_all
  then have "unat (now + t) = unat now + unat t - 2 ^ 64"
    using False by (simp add: unat_word_ariths mod_if)
  then have "now + t < t" using \<open>unat now < 2 ^ 64\<close> False by (simp add: word_less_nat_alt)
  then show ?thesis using False by (simp add: clamped_timeout_def Let_def unsigned_minus_1_eq_mask mask_eq_exp_minus_1)
qed

text \<open>What \<open>start\<close> makes of a number of seconds.\<close>

definition milliseconds :: "(double \<Rightarrow> 64 word) \<Rightarrow> double \<Rightarrow> 64 word" where
  "milliseconds ub t = uint64_cast ub (times1000 (if dless (Dbl 0) t \<and> dless t d001 then d001 else t))"

lemma timer_start_result:
  assumes ok: "ok fr w" and "held fr w x" and "held fr w f" and "kind (objs w ! x) = KHandle TimerC"
    and "Timer_func_start ub x (Inr (f, t, r)) w = (Ok (), w')"
  shows "initialized (hs w' x) \<and> u_active (uvh w' x) \<and> pyref (hs w' x) \<and> slot_of w' x S_callback = Some f \<and>
    x \<in> set (timer_heap (uvl w' (loop_of w x))) \<and> u_repeat (uvh w' x) = milliseconds ub r \<and>
    unat (u_timeout (uvh w' x)) =
      min (unat (uv_time (uvl w (loop_of w x))) + unat (milliseconds ub t)) (2 ^ 64 - 1)"
proof -
  have g: "initialized (hs w x)" "\<not> uv_is_closing x w" "PyCallable_Check w f"
    "\<not> dless t (Dbl 0)" "\<not> dless r (Dbl 0)"
    using assms(5) by (auto simp: Timer_func_start_def guard_defs Let_def split: if_splits)
  have o: "open_handle w x TimerC" by (rule open_handleI [OF ok assms(2,4) g(1,2)])
  note D = open_handleD [OF ok o]
  obtain l where l: "u_loop (uvh w x) = Some l" using D(7) by blast
  define w1 where "w1 = snd (uv_timer_start x (milliseconds ub t) (milliseconds ub r) w)"
  have w': "w' = PYUV_HANDLE_INCREF x (assign_slot x S_callback f w1)"
    using assms(5) g by (simp add: Timer_func_start_def guard_defs Let_def w1_def milliseconds_def uv_timer_start_def)
  have q: "uv_quiet w w1" "uv_local x w w1" unfolding w1_def by (simp_all add: quiet local_steps)
  have inv: "uv_inv w1" unfolding w1_def
    by (rule uv_inv_timer_start [OF okD(2) [OF ok] l]) (use o D(6) in \<open>auto simp: open_handle_def\<close>)
  have b: "ok_but x fr w1" by (rule ok_but_quiet [OF ok_imp_but [OF ok] q inv])
  have e: "objs w1 = objs w" "ext w1 = ext w" using q by (auto simp: uv_quiet_def)
  have h1: "held fr w1 x" "valid w1 f" "x < length (objs w1)"
    using assms(2) held_valid [OF okD(1) [OF ok] assms(3)] D(1) by (simp_all add: held_def valid_def e)
  note A = ok_but_assign_slot [OF b h1(2,3), where s = S_callback]
  have s: "S_callback \<in> set (subtype_clear (kind (objs w1 ! x)))" by (simp add: e assms(4) tp_clear_defs)
  have hs': "hs w' x = (hs w1 x)\<lparr>pyref := True\<rparr>" "slot_of w' x S_callback = Some f"
    using A(2,3) [OF s _ h1(1)] by (simp_all add: w')
  have u: "u_active (uvh w1 x)" "u_repeat (uvh w1 x) = milliseconds ub r" "u_loop (uvh w1 x) = Some l"
    "u_type (uvh w1 x) = Some UV_TIMER"
    "u_timeout (uvh w1 x) = clamped_timeout (uv_time (uvl w l)) (milliseconds ub t)"
    using l D(6) by (auto simp: w1_def uv_timer_start_def Let_def uv_defs uv_timer_stop_def)
  have "ok fr w'"
    using ok_started [OF ok o assms(2,3) q inv] by (simp add: w' cb_slot_def reads_class_def tp_clear_defs)
  then have "x \<in> set (timer_heap (uvl w' l))"
    using uv_inv_queue(2) [OF okD(2), of fr w' UV_TIMER l "timer_heap (uvl w' l)" x] u hs' by simp
  moreover have "initialized (hs w' x)" using q(1) g(1) hs' by (simp add: uv_quiet_def)
  ultimately show ?thesis using hs' u l by (simp add: clamped_timeout_min)
qed

text \<open>
  C8: A successful \<open>Timer.start\<close> leaves the timer active and in the heap of its loop with the callback
  stored and a reference to itself; it is due at the loop's time plus the timeout in milliseconds,
  cut off at 2^64 - 1 and never wrapped around.
\<close>

theorem timer_start_schedules:
  assumes ok: "ok fr w" and "held fr w x" and "held fr w f" and "kind (objs w ! x) = KHandle TimerC"
    and "Timer_func_start ub x (Inr (f, t, r)) w = (Ok (), w')"
  shows "u_active (uvh w' x) \<and> pyref (hs w' x) \<and> slot_of w' x S_callback = Some f \<and>
    x \<in> set (timer_heap (uvl w' (loop_of w x))) \<and> u_repeat (uvh w' x) = milliseconds ub r \<and>
    unat (u_timeout (uvh w' x)) =
      min (unat (uv_time (uvl w (loop_of w x))) + unat (milliseconds ub t)) (2 ^ 64 - 1)"
  using timer_start_result [OF assms] by blast

lemma timer_start_schedules_witness:
  "\<exists>w'. Timer_func_start (\<lambda>_. 0) 2 (Inr (3, Dbl (1 / 2), Dbl 0)) timer_ready = (Ok (), w') \<and>
    unat (u_timeout (uvh w' 2)) = 1500"
proof -
  have "dless (Dbl (1 / 2)) d001 = False" "dless (Dbl 0) (Dbl (1 / 2))" "\<not> dless (Dbl (1 / 2)) (Dbl 0)"
    "\<not> dless (Dbl 0) (Dbl 0)"
    by code_simp+
  moreover have "uint64_cast (\<lambda>_. 0) (times1000 (Dbl (1 / 2))) = 500" by code_simp
  ultimately have m: "milliseconds (\<lambda>_. 0) (Dbl (1 / 2)) = 500"
    and d: "\<not> dless (Dbl (1 / 2)) (Dbl 0)" "\<not> dless (Dbl 0) (Dbl 0)"
    by (simp_all add: milliseconds_def del: times1000.simps)
  obtain w' where w': "Timer_func_start (\<lambda>_. 0) 2 (Inr (3, Dbl (1 / 2), Dbl 0)) timer_ready = (Ok (), w')"
    using d by (simp add: Timer_func_start_def guard_defs Let_def ready_eq ready_state_def obj_def PyCallable_Check_def
        uv_is_closing_def ready_uv_def uv_zero_def uv_timer_start_def)
  from timer_start_schedules [OF ok_ready(1) _ _ _ w'] show ?thesis
    using w' by (simp add: m ready_eq ready_state_def obj_def held_def ready_uv_def)
qed

lemma milliseconds_below:
  assumes "0 < q" and "dless (Dbl q) d001"
  shows "milliseconds ub (Dbl q) = 1"
proof -
  have "times1000 d001 = Dbl 1" by code_simp
  then have "uint64_cast ub (times1000 d001) = 1" by (simp add: uint64_cast_def)
  then show ?thesis using assms by (simp add: milliseconds_def)
qed

text \<open>
  C9: A timeout and a repeat that are positive but below 0.001 seconds become one millisecond in \<open>Timer.start\<close>: the
  timer is due one millisecond later (cut off at 2^64 - 1) and repeats each millisecond. The setter of \<open>repeat\<close>
  has no such rule: 0.0005 seconds stores 0 there, which makes a repeating timer a one-shot timer.
\<close>

theorem small_timeout_is_a_millisecond:
  assumes "ok fr w" and "held fr w x" and "held fr w f" and "kind (objs w ! x) = KHandle TimerC"
    and "0 < q" and "dless (Dbl q) d001" and "0 < r" and "dless (Dbl r) d001"
    and "Timer_func_start ub x (Inr (f, Dbl q, Dbl r)) w = (Ok (), w')"
  shows "unat (u_timeout (uvh w' x)) = min (unat (uv_time (uvl w (loop_of w x))) + 1) (2 ^ 64 - 1) \<and>
    u_repeat (uvh w' x) = 1 \<and>
    (\<exists>w''. Timer_repeat_set ub x (Some (Inr (Dbl (1 / 2000)))) w' = (Ok (), w'') \<and> u_repeat (uvh w'' x) = 0)"
proof -
  have i: "initialized (hs w' x)"
    using timer_start_result [OF assms(1-4,9)] by blast
  have z: "\<not> dless (Dbl (1 / 2000)) (Dbl 0)" by code_simp
  have "times1000 (Dbl (1 / 2000)) = Dbl (1 / 2)" by code_simp
  moreover have "\<lfloor>1 / 2 :: rat\<rfloor> = 0" by (rule floor_unique) simp_all
  ultimately have m: "uint64_cast ub (times1000 (Dbl (1 / 2000))) = 0" by (simp add: uint64_cast_def del: times1000.simps)
  have "\<exists>w''. Timer_repeat_set ub x (Some (Inr (Dbl (1 / 2000)))) w' = (Ok (), w'') \<and> u_repeat (uvh w'' x) = 0"
    using i z m by (simp add: Timer_repeat_set_def guard_defs uv_timer_set_repeat_def upd_uv_def del: dless.simps times1000.simps)
  then show ?thesis
    using timer_start_result [OF assms(1-4,9)] milliseconds_below [OF assms(5,6), of ub]
      milliseconds_below [OF assms(7,8), of ub] by simp
qed

lemma small_timeout_is_a_millisecond_witness:
  "\<exists>w'. Timer_func_start (\<lambda>_. 0) 2 (Inr (3, Dbl (1 / 2000), Dbl (1 / 4000))) timer_ready = (Ok (), w') \<and>
    unat (u_timeout (uvh w' 2)) = 1001 \<and> u_repeat (uvh w' 2) = 1"
proof -
  have d: "dless (Dbl (1 / 2000)) d001" "dless (Dbl (1 / 4000)) d001" by code_simp+
  obtain w' where w': "Timer_func_start (\<lambda>_. 0) 2 (Inr (3, Dbl (1 / 2000), Dbl (1 / 4000))) timer_ready = (Ok (), w')"
    by (simp add: Timer_func_start_def guard_defs Let_def ready_eq ready_state_def obj_def PyCallable_Check_def
        uv_is_closing_def ready_uv_def uv_zero_def uv_timer_start_def)
  from small_timeout_is_a_millisecond [OF ok_ready(1) _ _ _ _ d(1) _ d(2) w'] show ?thesis
    using w' by (simp add: ready_eq ready_state_def obj_def held_def ready_uv_def)
qed

text \<open>
  C10: The time the loop may sleep for its timers is -1 when it has none, and otherwise the milliseconds from now to
  the least due time of a timer in the heap, 0 when that has passed and cut off at \<open>INT_MAX\<close>.
\<close>

theorem poll_timeout_bounds:
  "uv__next_timeout l w =
    (if timer_heap (uvl w l) = [] then - 1
     else min (max 0 (Min ((\<lambda>h. uint (u_timeout (uvh w h))) ` set (timer_heap (uvl w l))) - uint (uv_time (uvl w l))))
       2147483647)"
proof (cases "earliest_timer w (timer_heap (uvl w l))")
  case None
  then have "timer_heap (uvl w l) = []"
    by (cases "timer_heap (uvl w l)") (auto split: option.splits if_splits)
  then show ?thesis using None by (simp add: uv__next_timeout_def)
next
  case (Some m)
  let ?d = "u_timeout (uvh w m)" and ?n = "uv_time (uvl w l)"
  have m: "m \<in> set (timer_heap (uvl w l))" "x \<in> set (timer_heap (uvl w l)) \<Longrightarrow> uint ?d \<le> uint (u_timeout (uvh w x))" for x
    using earliest_timer_least [OF Some] by (force simp: timer_less_than_def word_le_def word_less_def split: if_splits)+
  then have ne: "timer_heap (uvl w l) \<noteq> []" by auto
  have "Min ((\<lambda>h. uint (u_timeout (uvh w h))) ` set (timer_heap (uvl w l))) = uint ?d"
    by (rule Min_eqI) (use m in auto)
  moreover have "uint (?d - ?n) = uint ?d - uint ?n" if "\<not> ?d \<le> ?n"
    using that by (simp add: uint_minus_simple_alt [symmetric] word_le_def)
  ultimately show ?thesis using Some ne
    by (auto simp: uv__next_timeout_def Let_def word_le_def)
qed

lemma poll_timeout_bounds_witness:
  "uv__next_timeout 1 (upd_uvl 1 (\<lambda>lp. lp\<lparr>timer_heap := [2]\<rparr>) (upd_uv 2 (\<lambda>u. u\<lparr>u_timeout := 1500\<rparr>) timer_ready)) = 500"
  using poll_timeout_bounds [of 1 "upd_uvl 1 (\<lambda>lp. lp\<lparr>timer_heap := [2]\<rparr>) (upd_uv 2 (\<lambda>u. u\<lparr>u_timeout := 1500\<rparr>) timer_ready)"]
  by (simp add: ready_eq ready_state_def upd_defs)

section \<open>Errors\<close>



text \<open>
  C12: A successful \<open>close\<close> stops the handle, marks it closing, stores the callback, takes one reference
  for the pending close and puts the handle on the closing list of its loop exactly once (a signal
  handle with signals still in the pipe is queued when they have been dispatched).
\<close>

theorem close_is_queued_once:
  assumes ok: "ok fr w" and h: "held fr w x" and k: "kind (objs w ! x) = KHandle c"
    and cb: "\<And>f. a = Some f \<Longrightarrow> held fr w f" and r: "Handle_func_close x (Inr a) w = (Ok (), w')"
  shows "ok fr w' \<and> \<not> u_active (uvh w' x) \<and> u_closing (uvh w' x) \<and>
    slot_of w' x S_on_close_cb = Some (case a of None \<Rightarrow> Py_None | Some f \<Rightarrow> f) \<and>
    refcnt (objs w' ! x) = refcnt (objs w ! x) + 1 + (if a = Some x then 1 else 0) \<and>
    count_list (closing_handles (uvl w' (loop_of w x))) x =
      of_bool (c = SignalC \<longrightarrow> u_caught (uvh w x) = u_dispatched (uvh w x))"
proof -
  have g: "initialized (hs w x)" "\<not> uv_is_closing x w"
    using r by (auto simp: Handle_func_close_def guard_defs split: if_splits)
  have o: "open_handle w x c" by (rule open_handleI [OF ok h k g])
  note D = open_handleD [OF ok o]
  obtain l where l: "u_loop (uvh w x) = Some l" using D(7) by blast
  let ?cb = "case a of None \<Rightarrow> Py_None | Some f \<Rightarrow> f"
  have w': "w' = uv_close x pyuv__handle_close_cb (Py_INCREF x (put_slot x S_on_close_cb (Some ?cb) (Py_INCREF ?cb w)))"
    using r g by (auto simp: Handle_func_close_def guard_defs Let_def split: if_splits)
  have ok': "ok fr w'" using ok_Handle_func_close [OF ok h k, of "Inr a"] cb r by auto
  have cl: "u_closing (uvh w' x)" by (simp add: w')
  have kp: "kept (put_slot x S_on_close_cb (Some ?cb) (Py_INCREF ?cb w)) w'"
    unfolding w' by (rule kept_trans [OF _ kept_uv_close]) (simp add: kept_def)
  have f: "u_loop (uvh w' x) = Some l" "\<not> u_closed (uvh w' x)" "u_type (uvh w' x) = Some (uv_type_of c)"
    "u_caught (uvh w' x) = u_caught (uvh w x)" "u_dispatched (uvh w' x) = u_dispatched (uvh w x)"
    using kp l o D(6) by (auto simp: kept_def open_handle_def)
  have "\<not> u_active (uvh w' x)" using uv_inv_uh [OF okD(2) [OF ok'], of x] cl by (simp add: uh_ok_def)
  moreover have s: "slot_of w' x S_on_close_cb = Some ?cb" using D(1) by (simp add: w' nth_put_slot)
  have "x \<notin> set (finishing (uvl w l))"
    using uv_inv_closing(2) [OF okD(2) [OF ok], of x l] o by (auto simp: all_closing_def close_due_def open_handle_def)
  then have nf: "x \<notin> set (finishing (uvl w' l))" using kp by (simp add: kept_def same_local_def)
  have "x \<in> set (all_closing (uvl w' l)) \<longleftrightarrow> (c = SignalC \<longrightarrow> u_caught (uvh w x) = u_dispatched (uvh w x))"
    using uv_inv_closing(2) [OF okD(2) [OF ok'], of x l] f cl by (cases c) (auto simp: close_due_def)
  then have "x \<in> set (closing_handles (uvl w' l)) \<longleftrightarrow> (c = SignalC \<longrightarrow> u_caught (uvh w x) = u_dispatched (uvh w x))"
    using nf by (simp add: all_closing_def)
  then have "count_list (closing_handles (uvl w' l)) x = of_bool (c = SignalC \<longrightarrow> u_caught (uvh w x) = u_dispatched (uvh w x))"
    using uv_inv_closing(1) [OF okD(2) [OF ok'], of l]
    by (simp add: count_list_distinct all_closing_def)
  moreover have "refcnt (objs w' ! x) = refcnt (objs w ! x) + 1 + (if a = Some x then 1 else 0)"
  proof -
    have "valid w Py_None" by (rule wf_none [OF okD(1) [OF ok]])
    have "x \<noteq> Py_None" using okD(1) [OF ok] k by (intro notI) (simp add: wf_refs_def none_ok_def)
    then have "?cb = x \<longleftrightarrow> a = Some x" by (auto split: option.splits)
    then show ?thesis
      using D(1) by (auto simp: w' Py_INCREF_def put_slot_def upd_obj_def)
  qed
  ultimately show ?thesis using ok' cl l s by simp
qed

lemma close_is_queued_once_witness:
  "\<exists>w'. Handle_func_close 2 (Inr (Some 3)) idle_ready = (Ok (), w') \<and> slot_of w' 2 S_on_close_cb = Some 3 \<and>
    count_list (closing_handles (uvl w' 1)) 2 = 1"
proof -
  obtain w' where w': "Handle_func_close 2 (Inr (Some 3)) idle_ready = (Ok (), w')"
    by (simp add: Handle_func_close_def guard_defs Let_def ready_eq ready_state_def obj_def PyCallable_Check_def
        uv_is_closing_def ready_uv_def uv_zero_def)
  from close_is_queued_once [OF ok_ready(2) _ _ _ w', of IdleC] show ?thesis
    using w' by (simp add: ready_eq ready_state_def obj_def held_def ready_uv_def)
qed

section \<open>Streams\<close>



section \<open>Addresses\<close>

text \<open>
  C14: Printing an IPv4 address and parsing the text gives the address back, and the parser accepts no other
  text: whatever it accepts is the printed form of its result, so that it rejects leading zeros,
  missing and extra octets, and octets above 255.
\<close>

theorem ipv4_round_trip:
  assumes "length b = 4"
  shows "inet_pton4 s = Some b \<longleftrightarrow> s = inet_ntop4 b"
  using pton4_ntop4 [OF assms] ntop4_canonical by metis

lemma ipv4_round_trip_witness: "inet_pton4 ''127.0.0.1'' = Some [127, 0, 0, 1]"
proof -
  have "inet_ntop4 [127, 0, 0, 1] = ''127.0.0.1''" by code_simp
  then show ?thesis using ipv4_round_trip [of "[127, 0, 0, 1]" "''127.0.0.1''"] by simp
qed

text \<open>
  C15: An IPv4 address tuple that Python passes in comes back unchanged from \<open>makesockaddr\<close>, for every
  port from 0 to 65535.
\<close>

theorem ipv4_tuple_round_trip:
  assumes "length b = 4" and "0 \<le> port" and "port \<le> 0xffff"
  shows "\<exists>a. pyuv_parse_addr_tuple (AddrTuple (inet_ntop4 b) port 0 0) = Inr a \<and>
    makesockaddr a = Addr4 (inet_ntop4 b) port"
proof -
  have p: "inet_pton4 (inet_ntop4 b) = Some b" by (rule pton4_ntop4 [OF assms(1)])
  have n: "inet_pton4 [] = None" "inet_pton4 ''<broadcast>'' = None" by code_simp+
  have "inet_ntop4 b \<noteq> s" if "inet_pton4 s = None" for s using p that by auto
  note this [OF n(1)] this [OF n(2)]
  with p assms(2,3) port_kept [OF assms(2,3)] show ?thesis
    by (simp add: pyuv_parse_addr_tuple_def makesockaddr_def Let_def)
qed

lemma ipv4_tuple_round_trip_witness:
  "\<exists>a. pyuv_parse_addr_tuple (AddrTuple (inet_ntop4 [10, 0, 0, 1]) 8080 0 0) = Inr a \<and>
    makesockaddr a = Addr4 (inet_ntop4 [10, 0, 0, 1]) 8080"
  by (rule ipv4_tuple_round_trip) simp_all

text \<open>
  C16: The flow information of an IPv6 address does not round-trip: it is stored in host order and read with
  \<open>ntohl\<close>, so Python gets its four bytes back in reverse order.
\<close>

theorem flowinfo_is_swapped:
  assumes "pyuv_parse_addr_tuple (AddrTuple host port flow scope) = Inr (AF_INET6 p a f sc)"
  shows "makesockaddr (AF_INET6 p a f sc) = Addr6 (inet_ntop6 a) port (uint (htonl flow)) (uint scope)"
  using assms port_kept [of port]
  by (auto simp: pyuv_parse_addr_tuple_def makesockaddr_def Let_def split: if_splits option.splits)

lemma flowinfo_is_swapped_witness:
  "\<exists>p a f sc. pyuv_parse_addr_tuple (AddrTuple ''::1'' 80 1 0) = Inr (AF_INET6 p a f sc) \<and>
    makesockaddr (AF_INET6 p a f sc) = Addr6 (inet_ntop6 a) 80 16777216 0"
proof -
  have v: "inet_pton4 ''::1'' = None" "uv_inet_pton6 ''::1'' = Some [0, 0, 0, 0, 0, 0, 0, 0, 0, 0, 0, 0, 0, 0, 0, 1]"
    "''::1'' \<noteq> ''<broadcast>''" "uint (htonl 1) = 16777216"
    by code_simp+
  then have r: "pyuv_parse_addr_tuple (AddrTuple ''::1'' 80 1 0) =
      Inr (AF_INET6 (htons (word_of_int 80)) [0, 0, 0, 0, 0, 0, 0, 0, 0, 0, 0, 0, 0, 0, 0, 1] 1 0)"
    by (simp add: pyuv_parse_addr_tuple_def Let_def)
  from flowinfo_is_swapped [OF r] v(4) r show ?thesis by auto
qed

section \<open>Findings\<close>

text \<open>
  C17: \<open>pyuv__check_signals\<close> drops a reference to the checker that it never took. A started \<open>SignalChecker\<close> has two
  references, the program's and the one for being started: the first event leaves it a count of 1, below the number
  of its references, and the second one closes it, although the program still refers to it and never closed it.
\<close>

theorem check_signals_drops_a_reference:
  assumes "wf_refs fr w" and "valid w x" and "kind (objs w ! x) = KHandle SignalCheckerC"
    and "initialized (hs w x)" and "\<not> uv_is_closing x w" and "refcnt (objs w ! x) = 2"
  shows "\<exists>w1 w2. pyuv__check_signals py (\<lambda>v. (False, v)) 0 0 1 x w = Some w1 \<and>
    refcnt (objs w1 ! x) = 1 \<and> owned w1 x + int (count fr x) = 2 \<and> \<not> wf_refs fr w1 \<and>
    pyuv__check_signals py (\<lambda>v. (False, v)) 0 0 1 x w1 = Some w2 \<and>
    refcnt (objs w2 ! x) = 1 \<and> u_closing (uvh w2 x) \<and> u_close_cb (uvh w2 x) = Some pyuv__handle_dealloc_close_cb"
proof -
  let ?w1 = "dec_count x w"
  let ?w2 = "resurrect_object x (uv_close x pyuv__handle_dealloc_close_cb (dec_count x ?w1))"
  have v: "valid ?w1 x" "kind (objs ?w1 ! x) = KHandle SignalCheckerC" "refcnt (objs ?w1 ! x) = 1"
    using assms(2,3,6) by (simp_all add: valid_def dec_count_def upd_obj_nth)
  have e: "pyuv__check_signals py (\<lambda>v. (False, v)) 0 0 1 x w = Some ?w1"
    using assms(2,6) by (simp add: pyuv__check_signals_def release.simps)
  have o: "owned ?w1 x + int (count fr x) = 2"
    using assms(1,2,6) by (auto simp: dec_count_def wf_refs_def counts_ok_def valid_def)
  then have "\<not> wf_refs fr ?w1"
    using v by (auto simp: wf_refs_def counts_ok_def valid_def dest!: spec [of _ x] split: if_splits)
  moreover have "tp_dealloc x (dec_count x ?w1) = ([], ?w2)"
    using assms(4,5) v by (simp add: tp_dealloc_def Handle_tp_dealloc_def uv_is_closing_def)
  then have "pyuv__check_signals py (\<lambda>v. (False, v)) 0 0 1 x ?w1 = Some ?w2"
    using v by (simp add: pyuv__check_signals_def release.simps)
  moreover have "objs ?w2 = objs ?w1" by (rule resurrect_dec) (use v in \<open>auto simp: valid_def\<close>)
  then have "refcnt (objs ?w2 ! x) = 1" using v by simp
  moreover have "u_closing (uvh ?w2 x) \<and> u_close_cb (uvh ?w2 x) = Some pyuv__handle_dealloc_close_cb"
    by (simp add: resurrect_object_def)
  ultimately show ?thesis using e o v by blast
qed

text \<open>A signal checker (2) on a loop (1) that the program has started.\<close>

definition checker_started :: world where
  "checker_started = snd (SignalChecker_func_start 2 (snd (SignalChecker_tp_init 0 2 (Inr (1, 5)) (fresh SignalCheckerC))))"

definition silent :: python where
  "silent = \<lparr>py_call = (\<lambda>f args w. (None, w)), py_excepthook = (\<lambda>l w. AttrMissing)\<rparr>"

lemma checker_ready_eq: "snd (SignalChecker_tp_init 0 2 (Inr (1, 5)) (fresh SignalCheckerC)) =
    upd_uv 2 (\<lambda>u. u\<lparr>u_fd := 5\<rparr>) (ready_state SignalCheckerC)"
  by (simp add: SignalChecker_tp_init_def guard_defs fresh_eq uv_poll_init_socket_def
      uv__handle_init_def upd_defs initialize_handle_def Let_def Py_XDECREF_def
      put_slot_def Py_INCREF_def ready_state_def ready_uv_def obj_def handle_zero_def uv_zero_def uv_loop_zero_def
      blank_loop_def fun_upd_twist numeral_eq_Suc)

lemma checker_started_ok: "ok {#} checker_started"
proof -
  let ?w = "upd_uv 2 (\<lambda>u. u\<lparr>u_fd := 5\<rparr>) (ready_state SignalCheckerC)"
  have "ok {#} ?w"
    using ok_SignalChecker_tp_init [OF ok_fresh fresh_there(2,5), of "Inr (1, 5)" 0] fresh_there(1)
    by (auto simp: checker_ready_eq [simplified])
  from ok_SignalChecker_func_start [OF this, of 2] show ?thesis
    unfolding checker_started_def checker_ready_eq by (simp add: held_def ready_state_def upd_uv_def obj_def)
qed

lemma checker_started_state:
  "valid checker_started 2" "kind (objs checker_started ! 2) = KHandle SignalCheckerC" "initialized (hs checker_started 2)"
  "\<not> uv_is_closing 2 checker_started" "refcnt (objs checker_started ! 2) = 2"
  unfolding checker_started_def checker_ready_eq
  by (simp_all add: SignalChecker_func_start_def guard_defs uv_is_closing_def ready_state_def ready_uv_def uv_zero_def
      upd_defs uv_poll_start_def uv__poll_stop_def uv__handle_start_def uv__handle_stop_def uv__active_handle_add_def
      Let_def PYUV_HANDLE_INCREF_def Py_INCREF_def obj_def valid_def)

lemma check_signals_drops_a_reference_witness:
  "\<exists>w1. pyuv__check_signals silent (\<lambda>v. (False, v)) 0 0 1 2 checker_started = Some w1 \<and> \<not> wf_refs {#} w1"
  using check_signals_drops_a_reference [OF okD(1) [OF checker_started_ok] checker_started_state, of silent] by blast

text \<open>
  C18: \<open>FSPoll.start\<close> converts the interval to a whole number of seconds before it multiplies by 1000: with every
  interval below one second the handle polls each millisecond.
\<close>

theorem poll_interval_loses_fractions:
  assumes ok: "ok fr w" and h: "held fr w x" and f: "held fr w f" and k: "kind (objs w ! x) = KHandle FSPollC"
    and na: "\<not> u_active (uvh w x)" and q: "0 \<le> q" "q < 1" and os: "os \<le> 0"
    and r: "FSPoll_func_start ub os x (Inr (path, Dbl q, f)) w = (Ok (), w')"
  shows "u_interval (uvh w' x) = 1 \<and> u_active (uvh w' x)"
proof -
  have g: "initialized (hs w x)" "\<not> uv_is_closing x w" "PyCallable_Check w f"
    using r by (auto simp: FSPoll_func_start_def guard_defs Let_def split: if_splits)
  have o: "open_handle w x FSPollC" by (rule open_handleI [OF ok h k g(1,2)])
  note D = open_handleD [OF ok o]
  have "\<lfloor>q\<rfloor> = 0" using q by linarith
  then have c: "uint_cast ub (Dbl q) = 0" using q by (simp add: uint_cast_def)
  obtain e w1 where s: "uv_fs_poll_start os x path 0 w = (e, w1)" by fastforce
  have w': "\<not> e < 0" "w' = PYUV_HANDLE_INCREF x (assign_slot x S_callback f w1)"
    using r g s q by (auto simp: FSPoll_func_start_def guard_defs Let_def c split: if_splits)
  then have os0: "os = 0" using s na os by (auto simp: uv_fs_poll_start_def split: if_splits)
  have u: "u_interval (uvh w1 x) = 1" "u_active (uvh w1 x)"
    using s na os0 by (auto simp: uv_fs_poll_start_def uv_defs)
  have n: "objs w1 = objs w" "ext w1 = ext w"
    using s os0 na by (auto simp: uv_fs_poll_start_def upd_defs uv__req_register_def uv__handle_start_def
        uv__active_handle_add_def Let_def)
  have st: "uv_quiet w w1" "uv_local x w w1" "uv_inv w1" using uv_fs_poll_start_step [OF ok o s] by simp_all
  have b: "ok_but x fr w1" by (rule ok_but_quiet [OF ok_imp_but [OF ok] st])
  have h1: "held fr w1 x" "valid w1 f" "x < length (objs w1)"
    using h held_valid [OF okD(1) [OF ok] f] D(1) by (simp_all add: held_def valid_def n)
  have sl: "S_callback \<in> set (subtype_clear (kind (objs w1 ! x)))" by (simp add: n k tp_clear_defs)
  have "hs w' x = (hs w1 x)\<lparr>pyref := True\<rparr>"
    using ok_but_assign_slot(2) [OF b h1(2,3) sl _ h1(1)] by (simp add: w')
  then show ?thesis using u by simp
qed

definition fs_poll_ready :: world where
  "fs_poll_ready = snd (FSPoll_tp_init 2 (Inr 1) (fresh FSPollC))"

lemma fs_poll_ready_eq: "fs_poll_ready = ready_state FSPollC"
  by (simp add: fs_poll_ready_def FSPoll_tp_init_def guard_defs fresh_eq uv_fs_poll_init_def
      uv__handle_init_def upd_defs initialize_handle_def Let_def Py_XDECREF_def
      put_slot_def Py_INCREF_def ready_state_def ready_uv_def obj_def handle_zero_def uv_zero_def uv_loop_zero_def
      blank_loop_def fun_upd_twist numeral_eq_Suc)

lemma ok_fs_poll_ready: "ok {#} fs_poll_ready"
  unfolding fs_poll_ready_def
  using ok_FSPoll_tp_init [OF ok_fresh fresh_there(2,5), of "Inr 1"] fresh_there(1) by auto

lemma poll_interval_loses_fractions_witness:
  "\<exists>w'. FSPoll_func_start (\<lambda>_. 0) 0 2 (Inr (''/tmp'', Dbl (1 / 2), 3)) fs_poll_ready = (Ok (), w') \<and>
    u_interval (uvh w' 2) = 1"
proof -
  obtain w' where w': "FSPoll_func_start (\<lambda>_. 0) 0 2 (Inr (''/tmp'', Dbl (1 / 2), 3)) fs_poll_ready = (Ok (), w')"
    by (simp add: FSPoll_func_start_def guard_defs Let_def fs_poll_ready_eq ready_state_def obj_def PyCallable_Check_def
        uv_is_closing_def ready_uv_def uv_zero_def uv_fs_poll_start_def)
  from poll_interval_loses_fractions [OF ok_fs_poll_ready _ _ _ _ _ _ _ w'] show ?thesis
    using w' by (simp add: fs_poll_ready_eq ready_state_def obj_def held_def ready_uv_def uv_zero_def)
qed

end
